(* ===== verification/Prelude.thy ===== *)
theory Prelude
  imports Main "HOL-Library.Word" "HOL-Library.Monad_Syntax"
begin

text \<open>
  Shared vocabulary of the development: the C integer types, byte buffers, the effect of
  \<^verbatim>\<open>memcpy\<close> on a buffer, little- and big-endian integers, and the generic lemmas the
  components share.

  A C function that reads or writes global state is a function from the state to an
  optional pair of its result and the new state. \<open>None\<close> means that an \<^verbatim>\<open>ASSERT\<close>
  failed: \<^verbatim>\<open>ShowAssert\<close> (\<^verbatim>\<open>src/utils/assert.c\<close>) prints the position and then
  loops for ever, so the call does not return.
\<close>

unbundle bit_operations_syntax

section \<open>Types\<close>

type_synonym u8 = "8 word"
type_synonym u16 = "16 word"
type_synonym u32 = "32 word"
type_synonym bytes = "u8 list"
type_synonym ('s, 'a) prog = "'s \<Rightarrow> ('a \<times> 's) option"

named_theorems word_ops \<open>bitwise identities of machine words\<close>
named_theorems buf_simps \<open>reads and writes of byte buffers\<close>

definition c_assert :: "bool \<Rightarrow> ('s, unit) prog" where
  "c_assert b s = (if b then Some ((), s) else None)"

lemma c_assert_simps [simp]:
  "c_assert True s = Some ((), s)"
  "c_assert False s = None"
  by (simp_all add: c_assert_def)

text \<open>A C string as the bytes before its terminating NUL.\<close>

definition cstr :: "string \<Rightarrow> bytes" where
  "cstr s = map of_char s"

section \<open>Buffers\<close>

text \<open>
  \<^verbatim>\<open>memcpy (dst + off, src, length src)\<close>. The callers of the model only use it with
  \<^verbatim>\<open>off + length src \<le> length dst\<close>; where the code does not check that, the model does
  so explicitly.
\<close>

definition buf_write :: "bytes \<Rightarrow> nat \<Rightarrow> bytes \<Rightarrow> bytes" where
  "buf_write dst off src = take off dst @ src @ drop (off + length src) dst"

lemma length_buf_write [buf_simps]:
  "off + length src \<le> length dst \<Longrightarrow> length (buf_write dst off src) = length dst"
  by (simp add: buf_write_def)

lemma buf_write_all [buf_simps]:
  "length src = length dst \<Longrightarrow> buf_write dst 0 src = src"
  by (simp add: buf_write_def)

lemma buf_write_read [buf_simps]:
  "off \<le> length dst \<Longrightarrow> take (length src) (drop off (buf_write dst off src)) = src"
  by (simp add: buf_write_def)

definition xorb :: "'a::len word list \<Rightarrow> 'a word list \<Rightarrow> 'a word list" where
  "xorb xs ys = map2 (XOR) xs ys"

lemma length_xorb [simp]: "length (xorb xs ys) = min (length xs) (length ys)"
  by (simp add: xorb_def)

lemma xorb_Cons [simp]: "xorb (x # xs) (y # ys) = (x XOR y) # xorb xs ys"
  by (simp add: xorb_def)

lemma xorb_Nil [simp]: "xorb [] ys = []" "xorb xs [] = []"
  by (simp_all add: xorb_def)

lemma xor_cancel [word_ops, simp]:
  fixes a b :: "'a::len word"
  shows "(a XOR b) XOR b = a" "b XOR (b XOR a) = a" "b XOR (a XOR b) = a"
  by (simp_all add: xor.assoc xor.left_commute)

lemma xor_left_cancel_iff [word_ops, simp]:
  fixes a b c :: "'a::len word"
  shows "(a XOR b = a XOR c) \<longleftrightarrow> (b = c)"
  by (metis xor_cancel(2))

lemma xor_right_cancel_iff [word_ops, simp]:
  fixes a b c :: "'a::len word"
  shows "(b XOR a = c XOR a) \<longleftrightarrow> (b = c)"
  by (metis xor_cancel(1))

lemma xorb_cancel:
  "length xs = length ys \<Longrightarrow> xorb (xorb xs ys) ys = xs"
  by (induction xs ys rule: list_induct2) simp_all

lemma xorb_cancel2:
  "length xs = length ys \<Longrightarrow> xorb ys (xorb xs ys) = xs"
  by (induction xs ys rule: list_induct2) simp_all

lemma xorb_commute: "xorb xs ys = xorb ys xs"
  by (induction xs ys rule: list_induct2') (simp_all add: xor.commute)

lemma nth_xorb [simp]:
  "i < length xs \<Longrightarrow> i < length ys \<Longrightarrow> xorb xs ys ! i = xs ! i XOR ys ! i"
  by (simp add: xorb_def)

section \<open>Integers in memory\<close>

text \<open>The target is little-endian; \<^verbatim>\<open>le16\<close> and \<^verbatim>\<open>le32\<close> are the bytes of an integer in memory.\<close>

definition le16 :: "u16 \<Rightarrow> bytes" where
  "le16 w = [ucast w, ucast (drop_bit 8 w)]"

definition le32 :: "u32 \<Rightarrow> bytes" where
  "le32 w = [ucast w, ucast (drop_bit 8 w), ucast (drop_bit 16 w), ucast (drop_bit 24 w)]"

definition of_le16 :: "u8 \<Rightarrow> u8 \<Rightarrow> u16" where
  "of_le16 a b = ucast a OR push_bit 8 (ucast b)"

definition of_le32 :: "u8 \<Rightarrow> u8 \<Rightarrow> u8 \<Rightarrow> u8 \<Rightarrow> u32" where
  "of_le32 a b c d = ucast a OR push_bit 8 (ucast b) OR push_bit 16 (ucast c) OR push_bit 24 (ucast d)"

lemma length_le [simp]: "length (le16 w) = 2" "length (le32 v) = 4"
  by (simp_all add: le16_def le32_def)

lemma of_le16_le16 [simp]: "of_le16 (ucast w) (ucast (drop_bit 8 w)) = w"
  by (rule bit_word_eqI) (auto simp: of_le16_def bit_simps)

lemma of_le32_le32 [simp]:
  "of_le32 (ucast w) (ucast (drop_bit 8 w)) (ucast (drop_bit 16 w)) (ucast (drop_bit 24 w)) = w"
proof (rule bit_word_eqI)
  fix n assume "n < LENGTH(32)"
  then show "bit (of_le32 (ucast w) (ucast (drop_bit 8 w)) (ucast (drop_bit 16 w)) (ucast (drop_bit 24 w))) n
      = bit w n"
    by (cases "n < 8"; cases "n < 16"; cases "n < 24") (auto simp: of_le32_def bit_simps)
qed

section \<open>Folds\<close>

lemma foldl_injective_start:
  assumes "\<And>s t b. f s b = f t b \<Longrightarrow> s = t"
    and "foldl f s xs = foldl f t xs"
  shows "s = t"
  using assms(2) by (induction xs arbitrary: s t) (auto dest: assms(1))

section \<open>Tables of linear functions\<close>

text \<open>
  \<open>xspan bs\<close> lists the XOR of every subset of \<open>bs\<close>: entry \<open>i\<close> is the XOR of the elements whose
  bit is set in \<open>i\<close>. A lookup table of a linear function is \<open>xspan\<close> of its values at the
  powers of two.
\<close>

fun xspan :: "'a::len word list \<Rightarrow> 'a word list" where
  "xspan [] = [0]"
| "xspan (b # bs) = (let s = xspan bs in s @ map ((XOR) b) s)"

lemma length_xspan: "length (xspan bs) = 2 ^ length bs"
  by (induction bs) (simp_all add: Let_def)

lemma of_nat_high_bit:
  assumes "j < 2 ^ n"
  shows "(of_nat (2 ^ n + j) :: 'b::len word) = push_bit n 1 XOR of_nat j"
proof -
  have "\<not> bit j n" using assms by (simp add: bit_iff_odd)
  then have "(push_bit n 1 :: 'b word) AND of_nat j = 0"
    by (intro bit_word_eqI) (auto simp: bit_simps)
  then show ?thesis by (simp add: push_bit_eq_mult disjunctive_add_eq_xor [symmetric])
qed

lemma xspan_nth:
  fixes f :: "'b::len word \<Rightarrow> 'a::len word"
  assumes lin: "\<And>x y. f (x XOR y) = f x XOR f y" and "i < 2 ^ n"
  shows "xspan (map (\<lambda>k. f (push_bit k 1)) (rev [0..<n])) ! i = f (of_nat i)"
  using assms(2)
proof (induction n arbitrary: i)
  case 0
  have "f 0 = 0" using lin[of 0 0] by simp
  with 0 show ?case by simp
next
  case (Suc n)
  show ?case
  proof (cases "i < 2 ^ n")
    case True
    with Suc.IH[of i] show ?thesis by (simp add: Let_def nth_append length_xspan)
  next
    case False
    define j where "j = i - 2 ^ n"
    have j: "j < 2 ^ n" and i: "i = 2 ^ n + j" using False Suc.prems by (auto simp: j_def)
    show ?thesis using Suc.IH[OF j] j
      by (simp add: i Let_def nth_append length_xspan of_nat_high_bit [OF j] lin del: of_nat_add)
  qed
qed

lemma funpow_8: "(f ^^ 8) x = f (f (f (f (f (f (f (f x)))))))"
  by (simp add: numeral_eq_Suc)

lemma rev_upt_8: "rev [0..<8] = [7, 6, 5, 4, 3, 2, 1, 0]"
  by (simp add: upt_rec)

lemma and_1_iff_bit: "(w AND 1 = 1) \<longleftrightarrow> bit (w :: 'a::len word) 0"
  by (simp add: and_one_eq mod_2_eq_odd bit_0)

lemma and_255_take_bit [word_ops]: "(w :: 'a::len word) AND 255 = take_bit 8 w"
  by (simp add: take_bit_eq_mask mask_eq_exp_minus_1)

lemma unat_take_bit_8: "unat (take_bit 8 w) < 256"
  by (simp only: unsigned_take_bit_eq take_bit_eq_mod [where 'a = nat]) simp

lemma bit_u8_less: "bit (b :: u8) n \<Longrightarrow> n < 8"
  using bit_imp_le_length [of b n] by simp

lemma word_bit_below: "unat (w :: 'a::len word) < 2 ^ n \<Longrightarrow> bit w k \<Longrightarrow> k < n"
proof -
  assume "unat w < 2 ^ n" and b: "bit w k"
  then have "take_bit n (unat w) = unat w" by (intro take_bit_nat_eq_self)
  moreover have "bit (unat w) k" using b bit_imp_le_length [OF b] by (simp add: bit_unsigned_iff)
  ultimately show "k < n" by (metis bit_take_bit_iff)
qed

lemma xor_eq_0 [word_ops]: "(a :: 'a::len word) XOR b = 0 \<longleftrightarrow> a = b"
  by (metis xor_cancel(1) xor_self_eq xor.left_neutral)

lemma take_bit_xor_drop_bit: "(w :: 'a::len word) = take_bit n w XOR push_bit n (drop_bit n w)"
  by (rule bit_word_eqI) (auto simp: bit_simps)

lemma xor_ones_32: "(w :: u32) XOR 4294967295 = NOT w"
proof -
  have ones: "(4294967295 :: u32) = - 1" by simp
  show ?thesis by (simp only: ones bit.xor_one_right)
qed

end
