(* ===== verification/Crc.thy ===== *)
theory Crc
  imports Prelude
begin

text \<open>
  The checksums of \<^verbatim>\<open>src/crypto/checksum/crc.c\<close> and
  \<^verbatim>\<open>src/crypto/checksum/fingerprint_crc.c\<close>: the CRC-16 of the log records, the reflected
  CRC-32 of the USB frames and the most-significant-bit-first CRC-32 of the fingerprint module.
  The locale \<open>byte_checksum\<close> is the interface the frame parsers rely on: a fold over the bytes
  whose step is injective in the state and in the byte, so that a substituted byte is always
  noticed. It is interpreted on the three step functions of the code.
\<close>

section \<open>The code\<close>

definition crc32_table :: "u32 list" where
  "crc32_table = [
    0, 1996959894, 3993919788, 2567524794, 124634137, 1886057615, 3915621685, 2657392035,
    249268274, 2044508324, 3772115230, 2547177864, 162941995, 2125561021, 3887607047, 2428444049,
    498536548, 1789927666, 4089016648, 2227061214, 450548861, 1843258603, 4107580753, 2211677639,
    325883990, 1684777152, 4251122042, 2321926636, 335633487, 1661365465, 4195302755, 2366115317,
    997073096, 1281953886, 3579855332, 2724688242, 1006888145, 1258607687, 3524101629, 2768942443,
    901097722, 1119000684, 3686517206, 2898065728, 853044451, 1172266101, 3705015759, 2882616665,
    651767980, 1373503546, 3369554304, 3218104598, 565507253, 1454621731, 3485111705, 3099436303,
    671266974, 1594198024, 3322730930, 2970347812, 795835527, 1483230225, 3244367275, 3060149565,
    1994146192, 31158534, 2563907772, 4023717930, 1907459465, 112637215, 2680153253, 3904427059,
    2013776290, 251722036, 2517215374, 3775830040, 2137656763, 141376813, 2439277719, 3865271297,
    1802195444, 476864866, 2238001368, 4066508878, 1812370925, 453092731, 2181625025, 4111451223,
    1706088902, 314042704, 2344532202, 4240017532, 1658658271, 366619977, 2362670323, 4224994405,
    1303535960, 984961486, 2747007092, 3569037538, 1256170817, 1037604311, 2765210733, 3554079995,
    1131014506, 879679996, 2909243462, 3663771856, 1141124467, 855842277, 2852801631, 3708648649,
    1342533948, 654459306, 3188396048, 3373015174, 1466479909, 544179635, 3110523913, 3462522015,
    1591671054, 702138776, 2966460450, 3352799412, 1504918807, 783551873, 3082640443, 3233442989,
    3988292384, 2596254646, 62317068, 1957810842, 3939845945, 2647816111, 81470997, 1943803523,
    3814918930, 2489596804, 225274430, 2053790376, 3826175755, 2466906013, 167816743, 2097651377,
    4027552580, 2265490386, 503444072, 1762050814, 4150417245, 2154129355, 426522225, 1852507879,
    4275313526, 2312317920, 282753626, 1742555852, 4189708143, 2394877945, 397917763, 1622183637,
    3604390888, 2714866558, 953729732, 1340076626, 3518719985, 2797360999, 1068828381, 1219638859,
    3624741850, 2936675148, 906185462, 1090812512, 3747672003, 2825379669, 829329135, 1181335161,
    3412177804, 3160834842, 628085408, 1382605366, 3423369109, 3138078467, 570562233, 1426400815,
    3317316542, 2998733608, 733239954, 1555261956, 3268935591, 3050360625, 752459403, 1541320221,
    2607071920, 3965973030, 1969922972, 40735498, 2617837225, 3943577151, 1913087877, 83908371,
    2512341634, 3803740692, 2075208622, 213261112, 2463272603, 3855990285, 2094854071, 198958881,
    2262029012, 4057260610, 1759359992, 534414190, 2176718541, 4139329115, 1873836001, 414664567,
    2282248934, 4279200368, 1711684554, 285281116, 2405801727, 4167216745, 1634467795, 376229701,
    2685067896, 3608007406, 1308918612, 956543938, 2808555105, 3495958263, 1231636301, 1047427035,
    2932959818, 3654703836, 1088359270, 936918000, 2847714899, 3736837829, 1202900863, 817233897,
    3183342108, 3401237130, 1404277552, 615818150, 3134207493, 3453421203, 1423857449, 601450431,
    3009837614, 3294710456, 1567103746, 711928724, 3020668471, 3272380065, 1510334235, 755167117]"

definition crc16_bit :: "u16 \<Rightarrow> u16" where
  "crc16_bit c = (if c AND 32768 \<noteq> 0 then push_bit 1 c XOR 4129 else push_bit 1 c)"

definition crc16_byte :: "u16 \<Rightarrow> u8 \<Rightarrow> u16" where
  "crc16_byte c b = (crc16_bit ^^ 8) (c XOR push_bit 8 (ucast b))"

definition crc16_ccitt :: "bytes \<Rightarrow> u16" where
  "crc16_ccitt msg = foldl crc16_byte 65535 msg"

definition crc32_step :: "u32 \<Rightarrow> u8 \<Rightarrow> u32" where
  "crc32_step c b = drop_bit 8 c XOR crc32_table ! unat ((c AND 255) XOR ucast b)"

definition crc32_ieee :: "u32 \<Rightarrow> bytes \<Rightarrow> u32" where
  "crc32_ieee c buf = foldl crc32_step (c XOR 4294967295) buf XOR 4294967295"

text \<open>The function of the standard build (\<^verbatim>\<open>FINGER_PRINT_STANDARD_CRC == 1\<close>).\<close>

definition crc32_update_fast :: "bytes \<Rightarrow> u32" where
  "crc32_update_fast buf = foldl crc32_step (0 XOR 4294967295) buf XOR 4294967295"

definition s_crc_table :: "u32 list" where
  "s_crc_table = [
    0, 79764919, 159529838, 222504665, 319059676, 398814059, 445009330, 507990021,
    638119352, 583659535, 797628118, 726387553, 890018660, 835552979, 1015980042, 944750013,
    1276238704, 1221641927, 1167319070, 1095957929, 1595256236, 1540665371, 1452775106, 1381403509,
    1780037320, 1859660671, 1671105958, 1733955601, 2031960084, 2111593891, 1889500026, 1952343757,
    2552477408, 2632100695, 2443283854, 2506133561, 2334638140, 2414271883, 2191915858, 2254759653,
    3190512472, 3135915759, 3081330742, 3009969537, 2905550212, 2850959411, 2762807018, 2691435357,
    3560074640, 3505614887, 3719321342, 3648080713, 3342211916, 3287746299, 3467911202, 3396681109,
    4063920168, 4143685023, 4223187782, 4286162673, 3779000052, 3858754371, 3904687514, 3967668269,
    881225847, 809987520, 1023691545, 969234094, 662832811, 591600412, 771767749, 717299826,
    311336399, 374308984, 453813921, 533576470, 25881363, 88864420, 134795389, 214552010,
    2023205639, 2086057648, 1897238633, 1976864222, 1804852699, 1867694188, 1645340341, 1724971778,
    1587496639, 1516133128, 1461550545, 1406951526, 1302016099, 1230646740, 1142491917, 1087903418,
    2896545431, 2825181984, 2770861561, 2716262478, 3215044683, 3143675388, 3055782693, 3001194130,
    2326604591, 2389456536, 2200899649, 2280525302, 2578013683, 2640855108, 2418763421, 2498394922,
    3769900519, 3832873040, 3912640137, 3992402750, 4088425275, 4151408268, 4197601365, 4277358050,
    3334271071, 3263032808, 3476998961, 3422541446, 3585640067, 3514407732, 3694837229, 3640369242,
    1762451694, 1842216281, 1619975040, 1682949687, 2047383090, 2127137669, 1938468188, 2001449195,
    1325665622, 1271206113, 1183200824, 1111960463, 1543535498, 1489069629, 1434599652, 1363369299,
    622672798, 568075817, 748617968, 677256519, 907627842, 853037301, 1067152940, 995781531,
    51762726, 131386257, 177728840, 240578815, 269590778, 349224269, 429104020, 491947555,
    4046411278, 4126034873, 4172115296, 4234965207, 3794477266, 3874110821, 3953728444, 4016571915,
    3609705398, 3555108353, 3735388376, 3664026991, 3290680682, 3236090077, 3449943556, 3378572211,
    3174993278, 3120533705, 3032266256, 2961025959, 2923101090, 2868635157, 2813903052, 2742672763,
    2604032198, 2683796849, 2461293480, 2524268063, 2284983834, 2364738477, 2175806836, 2238787779,
    1569362073, 1498123566, 1409854455, 1355396672, 1317987909, 1246755826, 1192025387, 1137557660,
    2072149281, 2135122070, 1912620623, 1992383480, 1753615357, 1816598090, 1627664531, 1707420964,
    295390185, 358241886, 404320391, 483945776, 43990325, 106832002, 186451547, 266083308,
    932423249, 861060070, 1041341759, 986742920, 613929101, 542559546, 756411363, 701822548,
    3316196985, 3244833742, 3425377559, 3370778784, 3601682597, 3530312978, 3744426955, 3689838204,
    3819031489, 3881883254, 3928223919, 4007849240, 4037393693, 4100235434, 4180117107, 4259748804,
    2310601993, 2373574846, 2151335527, 2231098320, 2596047829, 2659030626, 2470359227, 2550115596,
    2947551409, 2876312838, 2788305887, 2733848168, 3165939309, 3094707162, 3040238851, 2985771188]"

text \<open>
  \<^verbatim>\<open>reflect\<close>: the loop runs \<open>bit\<close> from 0 to \<open>n_bits - 1\<close>; its state is the data shifted so far
  and the reflection collected so far.
\<close>

definition reflect_step :: "nat \<Rightarrow> u32 \<times> u32 \<Rightarrow> nat \<Rightarrow> u32 \<times> u32" where
  "reflect_step n_bits dr i =
     (let (data, r) = dr
      in (drop_bit 1 data,
          if data AND 1 = 1 then r OR push_bit ((n_bits - 1) - i) 1 else r))"

definition reflect :: "u32 \<Rightarrow> nat \<Rightarrow> u32" where
  "reflect data n_bits = snd (foldl (reflect_step n_bits) (data, 0) [0..<n_bits])"

text \<open>The loop of the non-standard build; \<^verbatim>\<open>data\<close> is a \<^verbatim>\<open>uint8_t\<close>, so the index is truncated.\<close>

definition crc32_msb_step :: "u32 \<Rightarrow> u8 \<Rightarrow> u32" where
  "crc32_msb_step crc b =
     s_crc_table ! unat (ucast (reflect (ucast b) 8 XOR drop_bit 24 crc) :: u8) XOR push_bit 8 crc"

definition crc32_update_fast_msb :: "bytes \<Rightarrow> u32" where
  "crc32_update_fast_msb message = foldl crc32_msb_step 4294967295 message"

section \<open>The bitwise definitions the tables stand for\<close>

definition crc32_ref_bit :: "u32 \<Rightarrow> u32" where
  "crc32_ref_bit c = (if c AND 1 = 1 then drop_bit 1 c XOR 3988292384 else drop_bit 1 c)"

definition crc32_ref_byte :: "u32 \<Rightarrow> u8 \<Rightarrow> u32" where
  "crc32_ref_byte c b = (crc32_ref_bit ^^ 8) (c XOR ucast b)"

definition crc32_ref :: "bytes \<Rightarrow> u32" where
  "crc32_ref buf = foldl crc32_ref_byte 4294967295 buf XOR 4294967295"

definition crc32_msb_bit :: "u32 \<Rightarrow> u32" where
  "crc32_msb_bit c = (if bit c 31 then push_bit 1 c XOR 79764919 else push_bit 1 c)"

text \<open>The eight bits of a byte in reverse order.\<close>

definition mirror :: "u8 \<Rightarrow> u8" where
  "mirror b = horner_sum of_bool 2 (map (\<lambda>k. bit b (7 - k)) [0..<8])"

definition crc32_msb_ref_byte :: "u32 \<Rightarrow> u8 \<Rightarrow> u32" where
  "crc32_msb_ref_byte c b = (crc32_msb_bit ^^ 8) (c XOR push_bit 24 (ucast (mirror b)))"

section \<open>The bit steps are linear and injective\<close>

lemma crc32_ref_bit_alt:
  "crc32_ref_bit c = drop_bit 1 c XOR (if bit c 0 then 3988292384 else 0)"
  unfolding crc32_ref_bit_def and_1_iff_bit by simp

lemma crc32_ref_bit_xor: "crc32_ref_bit (a XOR b) = crc32_ref_bit a XOR crc32_ref_bit b"
  unfolding crc32_ref_bit_alt
  by (simp add: bit_xor_iff drop_bit_xor xor.assoc xor.left_commute xor.commute)

lemma crc32_ref_bit_top: "bit (crc32_ref_bit c) 31 = bit c 0"
  unfolding crc32_ref_bit_alt by (auto simp: bit_simps dest: bit_imp_le_length)

lemma drop_bit_1_inj:
  assumes "drop_bit 1 a = drop_bit 1 (b :: 'a::len word)" and "bit a 0 = bit b 0"
  shows "a = b"
proof (rule bit_word_eqI)
  fix n
  show "bit a n = bit b n"
  proof (cases n)
    case (Suc m)
    then show ?thesis using arg_cong[OF assms(1), of "\<lambda>w. bit w m"] by (simp add: bit_drop_bit_eq)
  qed (use assms(2) in simp)
qed

lemma inj_crc32_ref_bit: "inj crc32_ref_bit"
proof (rule injI)
  fix a b assume eq: "crc32_ref_bit a = crc32_ref_bit b"
  then have "bit a 0 = bit b 0" by (metis crc32_ref_bit_top)
  with eq show "a = b" unfolding crc32_ref_bit_alt by (auto intro: drop_bit_1_inj)
qed

lemma crc32_msb_bit_alt:
  "crc32_msb_bit c = push_bit 1 c XOR (if bit c 31 then 79764919 else 0)"
  by (simp add: crc32_msb_bit_def)

lemma crc32_msb_bit_xor: "crc32_msb_bit (a XOR b) = crc32_msb_bit a XOR crc32_msb_bit b"
  unfolding crc32_msb_bit_alt
  by (simp add: bit_xor_iff push_bit_xor xor.assoc xor.left_commute xor.commute)

lemma bit_push_bit_1: "bit (push_bit 1 a) m \<longleftrightarrow> m < LENGTH('a) \<and> m \<noteq> 0 \<and> bit a (m - 1)"
  for a :: "'a::len word"
  unfolding bit_push_bit_iff by (auto simp: Suc_le_eq)

lemma crc32_msb_bit_low: "bit (crc32_msb_bit c) 0 = bit c 31"
  unfolding crc32_msb_bit_alt bit_xor_iff bit_push_bit_1 by simp

lemma push_bit_1_inj:
  assumes "push_bit 1 a = push_bit 1 (b :: 'a::len word)"
    and "bit a (LENGTH('a) - 1) = bit b (LENGTH('a) - 1)"
  shows "a = b"
proof (rule bit_word_eqI)
  fix n assume n: "n < LENGTH('a)"
  show "bit a n = bit b n"
  proof (cases "Suc n < LENGTH('a)")
    case True
    then show ?thesis using arg_cong[OF assms(1), of "\<lambda>w. bit w (Suc n)"]
      unfolding bit_push_bit_1 by simp
  next
    case False
    with n have "n = LENGTH('a) - 1" by simp
    with assms(2) show ?thesis by simp
  qed
qed

lemma inj_crc32_msb_bit: "inj crc32_msb_bit"
proof (rule injI)
  fix a b assume eq: "crc32_msb_bit a = crc32_msb_bit b"
  then have "bit a 31 = bit b 31" by (metis crc32_msb_bit_low)
  with eq show "a = b" unfolding crc32_msb_bit_alt by (auto intro: push_bit_1_inj)
qed

lemma crc16_bit_alt: "crc16_bit c = push_bit 1 c XOR (if bit c 15 then 4129 else 0)"
proof -
  have "(32768 :: u16) = push_bit 15 1" by simp
  then have "c AND 32768 \<noteq> 0 \<longleftrightarrow> bit c 15"
    by (simp only: bit_iff_and_push_bit_not_eq_0 [of c 15])
  then show ?thesis by (simp add: crc16_bit_def)
qed

lemma inj_crc16_bit: "inj crc16_bit"
proof (rule injI)
  fix a b assume eq: "crc16_bit a = crc16_bit b"
  have "bit (crc16_bit c) 0 = bit c 15" for c
    unfolding crc16_bit_alt bit_xor_iff bit_push_bit_1 by simp
  with eq have "bit a 15 = bit b 15" by metis
  with eq show "a = b" unfolding crc16_bit_alt by (auto intro: push_bit_1_inj)
qed

lemma funpow_xor:
  fixes f :: "'a::len word \<Rightarrow> 'a word"
  assumes "\<And>a b. f (a XOR b) = f a XOR f b"
  shows "(f ^^ n) (a XOR b) = (f ^^ n) a XOR (f ^^ n) b"
  by (induction n) (simp_all add: assms)

section \<open>The tables hold eight bit steps\<close>

lemma crc32_table_span:
  "crc32_table = xspan (map (\<lambda>k. (crc32_ref_bit ^^ 8) (push_bit k 1)) (rev [0..<8]))"
proof -
  have "map (\<lambda>k. (crc32_ref_bit ^^ 8) (push_bit k 1)) (rev [0..<8]) =
      [3988292384, 1994146192, 997073096, 498536548, 249268274, 124634137, 3993919788, 1996959894]"
    unfolding funpow_8 rev_upt_8 by (simp add: crc32_ref_bit_def)
  then show ?thesis by (simp add: crc32_table_def Let_def)
qed

lemma s_crc_table_span:
  "s_crc_table = xspan (map (\<lambda>k. (crc32_msb_bit ^^ 8) (push_bit 24 (push_bit k 1))) (rev [0..<8]))"
proof -
  have "map (\<lambda>k. (crc32_msb_bit ^^ 8) (push_bit 24 (push_bit k 1))) (rev [0..<8]) =
      [1762451694, 881225847, 2552477408, 1276238704, 638119352, 319059676, 159529838, 79764919]"
    unfolding funpow_8 rev_upt_8 by (simp add: crc32_msb_bit_def)
  then show ?thesis by (simp add: s_crc_table_def Let_def)
qed

lemma crc32_table_nth: "x < 256 \<Longrightarrow> crc32_table ! x = (crc32_ref_bit ^^ 8) (of_nat x)"
  unfolding crc32_table_span
  by (rule xspan_nth) (simp_all add: funpow_xor crc32_ref_bit_xor)

lemma s_crc_table_nth:
  "x < 256 \<Longrightarrow> s_crc_table ! x = (crc32_msb_bit ^^ 8) (push_bit 24 (of_nat x))"
  unfolding s_crc_table_span
  by (rule xspan_nth [where f = "\<lambda>w. (crc32_msb_bit ^^ 8) (push_bit 24 w)"])
    (simp_all only: funpow_xor crc32_msb_bit_xor push_bit_xor, simp)

lemma crc32_ref_bit_drop:
  assumes "\<And>i. i < k \<Longrightarrow> \<not> bit c i"
  shows "(crc32_ref_bit ^^ k) c = drop_bit k c"
  using assms
proof (induction k)
  case (Suc k)
  then have "\<not> bit (drop_bit k c) 0" by (simp add: bit_drop_bit_eq)
  with Suc show ?case by (simp add: crc32_ref_bit_alt drop_bit_drop_bit)
qed simp

lemma crc32_msb_bit_push:
  assumes "\<And>i. i < k \<Longrightarrow> \<not> bit c (31 - i)" and "k \<le> 32"
  shows "(crc32_msb_bit ^^ k) c = push_bit k c"
  using assms
proof (induction k)
  case (Suc k)
  then have "\<not> bit (push_bit k c) 31"
    unfolding bit_push_bit_iff by auto
  with Suc show ?case by (simp only: funpow.simps comp_apply crc32_msb_bit_def) (simp add: push_bit_push_bit del: push_bit_of_1)
qed simp

text \<open>A table step is eight bit steps.\<close>

lemma crc32_step_ref: "crc32_step c b = crc32_ref_byte c b"
proof -
  define x where "x = c XOR ucast b"
  have low: "take_bit 8 x = take_bit 8 c XOR ucast b" and high: "drop_bit 8 x = drop_bit 8 c"
    by (auto intro!: bit_word_eqI simp: x_def bit_simps dest: bit_u8_less)
  have "(crc32_ref_bit ^^ 8) x = (crc32_ref_bit ^^ 8) (take_bit 8 x) XOR (crc32_ref_bit ^^ 8) (push_bit 8 (drop_bit 8 x))"
    by (subst take_bit_xor_drop_bit [of x 8]) (rule funpow_xor, rule crc32_ref_bit_xor)
  also have "(crc32_ref_bit ^^ 8) (push_bit 8 (drop_bit 8 x)) = drop_bit 8 (push_bit 8 (drop_bit 8 x))"
    by (rule crc32_ref_bit_drop) (simp add: bit_push_bit_iff)
  also have "\<dots> = drop_bit 8 x"
    by (rule bit_word_eqI) (auto simp: bit_simps dest: bit_imp_le_length)
  finally show ?thesis
    unfolding crc32_step_def crc32_ref_byte_def and_255_take_bit low [symmetric] high [symmetric]
      x_def [symmetric]
    by (simp add: crc32_table_nth unat_take_bit_8 xor.commute)
qed

lemma reflect_step_pair:
  "reflect_step n (d, r) i = (drop_bit 1 d, if d AND 1 = 1 then r OR push_bit ((n - 1) - i) 1 else r)"
  by (simp add: reflect_step_def)

lemma bit_mirror: "bit (mirror b) m \<longleftrightarrow> m < 8 \<and> bit b (7 - m)"
  unfolding mirror_def bit_horner_sum_bit_word_iff by (auto simp: nth_map)

lemma reflect_loop:
  assumes "i \<le> n" and "n \<le> 32"
  shows "\<exists>r. foldl (reflect_step n) (d, 0) [0..<i] = (drop_bit i d, r)
    \<and> (\<forall>m. bit r m \<longleftrightarrow> m < n \<and> n - 1 - m < i \<and> bit d (n - 1 - m))"
  using assms(1)
proof (induction i)
  case (Suc i)
  then obtain r where r: "foldl (reflect_step n) (d, 0) [0..<i] = (drop_bit i d, r)"
      "\<And>m. bit r m \<longleftrightarrow> m < n \<and> n - 1 - m < i \<and> bit d (n - 1 - m)"
    by auto
  have b: "drop_bit i d AND 1 = 1 \<longleftrightarrow> bit d i" by (simp add: and_1_iff_bit bit_simps)
  let ?r = "if bit d i then r OR push_bit (n - 1 - i) 1 else r"
  have "bit ?r m \<longleftrightarrow> m < n \<and> n - 1 - m < Suc i \<and> bit d (n - 1 - m)" for m
    using Suc.prems assms(2) r(2) [of m] by (auto simp: bit_simps less_Suc_eq)
  moreover have "foldl (reflect_step n) (d, 0) [0..<Suc i] = (drop_bit (Suc i) d, ?r)"
    by (simp add: r(1) reflect_step_pair b drop_bit_drop_bit)
  ultimately show ?case by blast
qed simp

lemma reflect_8: "reflect (ucast b) 8 = ucast (mirror b)"
proof (rule bit_word_eqI)
  fix m assume "m < LENGTH(32)"
  have h: "8 \<le> (32::nat)" by simp
  obtain r where r: "foldl (reflect_step 8) (ucast b, 0) [0..<8] = (drop_bit 8 (ucast b), r)"
      "\<forall>m. bit r m \<longleftrightarrow> m < 8 \<and> 8 - 1 - m < 8 \<and> bit (ucast b :: u32) (8 - 1 - m)"
    using reflect_loop [OF order_refl h, of "ucast b"] by blast
  have refl: "reflect (ucast b) 8 = r" unfolding reflect_def r(1) by (rule snd_conv)
  have "bit (reflect (ucast b) 8) m \<longleftrightarrow> m < 8 \<and> bit (ucast b :: u32) (7 - m)"
  proof -
    have "7 - m < (8::nat)" by arith
    with r(2) refl show ?thesis by simp
  qed
  also have "\<dots> \<longleftrightarrow> bit (ucast (mirror b) :: u32) m"
    using \<open>m < LENGTH(32)\<close> by (auto simp: bit_ucast_iff bit_mirror)
  finally show "bit (reflect (ucast b) 8) m = bit (ucast (mirror b) :: u32) m" .
qed

lemma crc32_msb_step_ref: "crc32_msb_step c b = crc32_msb_ref_byte c b"
proof -
  define x where "x = c XOR push_bit 24 (ucast (mirror b))"
  have high: "drop_bit 24 x = drop_bit 24 c XOR ucast (mirror b)"
    and low: "take_bit 24 x = take_bit 24 c"
    by (auto intro!: bit_word_eqI simp: x_def bit_simps dest: bit_u8_less)
  have push: "push_bit 8 (take_bit 24 c) = push_bit 8 c"
    by (rule bit_word_eqI) (auto simp: bit_simps)
  have idx: "(ucast (reflect (ucast b) 8 XOR drop_bit 24 c) :: u8) = ucast (drop_bit 24 x)"
    by (simp only: high reflect_8 xor.commute)
  have uu: "(ucast (ucast (drop_bit 24 x) :: u8) :: u32) = drop_bit 24 x"
    by (rule bit_word_eqI) (auto simp: bit_simps dest: bit_imp_le_length)
  have "unat (ucast (drop_bit 24 x) :: u8) < 256"
    using unsigned_less [of "ucast (drop_bit 24 x) :: u8"] by simp
  then have tab: "s_crc_table ! unat (ucast (drop_bit 24 x) :: u8) = (crc32_msb_bit ^^ 8) (push_bit 24 (drop_bit 24 x))"
    by (simp add: s_crc_table_nth uu)
  have "(crc32_msb_bit ^^ 8) x = (crc32_msb_bit ^^ 8) (take_bit 24 x) XOR (crc32_msb_bit ^^ 8) (push_bit 24 (drop_bit 24 x))"
    by (subst take_bit_xor_drop_bit [of x 24]) (rule funpow_xor, rule crc32_msb_bit_xor)
  also have "(crc32_msb_bit ^^ 8) (take_bit 24 x) = push_bit 8 (take_bit 24 x)"
    by (rule crc32_msb_bit_push) (auto simp: bit_take_bit_iff)
  finally show ?thesis
    unfolding crc32_msb_step_def crc32_msb_ref_byte_def idx tab low push x_def [symmetric]
    by (simp add: xor.commute)
qed

section \<open>The checksum interface\<close>

text \<open>
  What the users of a checksum rely on: the step from one byte to the next loses neither the
  state nor the byte. Then a message in which exactly one byte was replaced never has the
  checksum of the original.
\<close>

locale byte_checksum =
  fixes step :: "'s \<Rightarrow> u8 \<Rightarrow> 's"
  assumes step_state: "step s b = step t b \<Longrightarrow> s = t"
    and step_byte: "step s b = step s c \<Longrightarrow> b = c"
begin

lemma fold_state: "foldl step s xs = foldl step t xs \<Longrightarrow> s = t"
  by (rule foldl_injective_start [where f = step]) (auto dest: step_state)

lemma substitution_detected:
  "b \<noteq> c \<Longrightarrow> foldl step s (xs @ b # ys) \<noteq> foldl step s (xs @ c # ys)"
  by (auto dest: fold_state step_byte)

end

lemma mirror_inj: "mirror b = mirror c \<Longrightarrow> b = c"
proof (rule bit_word_eqI)
  fix n assume eq: "mirror b = mirror c" and n: "n < LENGTH(8)"
  have "bit (mirror a) (7 - n) = bit a n" for a using n by (auto simp: bit_mirror)
  with eq show "bit b n = bit c n" by metis
qed

lemma push_ucast_inj:
  fixes b c :: u8
  assumes "push_bit k (ucast b :: 'a::len word) = push_bit k (ucast c)" and "k + 8 \<le> LENGTH('a)"
  shows "b = c"
proof (rule bit_word_eqI)
  fix n assume "n < LENGTH(8)"
  with assms(2) arg_cong [OF assms(1), of "\<lambda>w. bit w (k + n)"]
  show "bit b n = bit c n" by (auto simp: bit_simps)
qed

lemma inj_funpow_iff:
  fixes f :: "'a \<Rightarrow> 'a"
  shows "inj f \<Longrightarrow> (f ^^ n) x = (f ^^ n) y \<longleftrightarrow> x = y"
  by (rule inj_eq [OF inj_fn])

interpretation crc16: byte_checksum crc16_byte
  by unfold_locales
    (auto simp: crc16_byte_def inj_funpow_iff inj_crc16_bit dest: push_ucast_inj)

interpretation crc32: byte_checksum crc32_step
  by unfold_locales
    (auto simp: crc32_step_ref crc32_ref_byte_def inj_funpow_iff inj_crc32_ref_bit
      dest: push_ucast_inj [of 0, simplified])

interpretation crc32_msb: byte_checksum crc32_msb_step
  by unfold_locales
    (auto simp: crc32_msb_step_ref crc32_msb_ref_byte_def inj_funpow_iff inj_crc32_msb_bit
      dest: push_ucast_inj mirror_inj)

section \<open>Properties\<close>

lemma crc32_ieee_append: "crc32_ieee (crc32_ieee c xs) ys = crc32_ieee c (xs @ ys)"
  by (simp add: crc32_ieee_def)

lemma crc32_update_fast_ieee: "crc32_update_fast buf = crc32_ieee 0 buf"
  by (simp add: crc32_update_fast_def crc32_ieee_def)

text \<open>
  C26: the table-driven CRC-32 of the USB frames is the bit-by-bit CRC-32 (reflected
  polynomial 0xEDB88320, initial value and final XOR all ones) of every message.
\<close>

theorem crc32_ieee_reference: "crc32_ieee 0 buf = crc32_ref buf"
proof -
  have "foldl crc32_step s buf = foldl crc32_ref_byte s buf" for s
    by (induction buf arbitrary: s) (simp_all add: crc32_step_ref)
  then show ?thesis by (simp add: crc32_ieee_def crc32_ref_def)
qed

text \<open>
  Replacing one byte of a frame always changes its CRC-32, whatever the bytes around it
  and the starting value.
\<close>

theorem crc32_ieee_detects_substitution:
  assumes "b \<noteq> c"
  shows "crc32_ieee i (xs @ b # ys) \<noteq> crc32_ieee i (xs @ c # ys)"
  using crc32.substitution_detected [OF assms] by (simp add: crc32_ieee_def)

theorem crc32_ieee_detects_substitution_witness:
  "crc32_ieee 0 ([107] @ 1 # [2]) \<noteq> crc32_ieee 0 ([107] @ 3 # [2])"
  by (rule crc32_ieee_detects_substitution) simp

text \<open>
  The most-significant-bit-first CRC of the fingerprint module (mirrored input bytes,
  polynomial 0x04C11DB7) agrees with its bit-by-bit definition, and so notices every
  substituted byte.
\<close>

theorem crc32_msb_reference_detects:
  "crc32_update_fast_msb m = foldl crc32_msb_ref_byte 4294967295 m
   \<and> (b \<noteq> c \<longrightarrow> crc32_update_fast_msb (xs @ b # ys) \<noteq> crc32_update_fast_msb (xs @ c # ys))"
proof -
  have "foldl crc32_msb_step s m = foldl crc32_msb_ref_byte s m" for s
    by (induction m arbitrary: s) (simp_all add: crc32_msb_step_ref)
  then show ?thesis
    using crc32_msb.substitution_detected unfolding crc32_update_fast_msb_def by blast
qed

theorem crc32_msb_reference_detects_witness:
  "crc32_update_fast_msb ([] @ 1 # []) \<noteq> crc32_update_fast_msb ([] @ 2 # [])"
  using crc32_msb_reference_detects [of "[]" 1 2 "[]" "[]"] by simp

lemma crc16_ccitt_detects_substitution:
  "b \<noteq> c \<Longrightarrow> crc16_ccitt (xs @ b # ys) \<noteq> crc16_ccitt (xs @ c # ys)"
  unfolding crc16_ccitt_def by (rule crc16.substitution_detected)

lemma unat_ucast_u8:
  fixes b :: u8
  assumes "8 \<le> LENGTH('a)"
  shows "unat (ucast b :: 'a::len word) = unat b"
proof -
  have "unat b < 2 ^ LENGTH('a)"
    using unsigned_less [of b, where 'a = nat] power_increasing [OF assms, of "2 :: nat"] by simp
  then show ?thesis by (simp add: unsigned_ucast_eq take_bit_nat_eq_self)
qed

text \<open>
  Feeding a state the complement of one of its own bytes: the state's part of the table index
  cancels, and only a constant is left in that byte.
\<close>

lemma crc32_step_complement:
  assumes "j \<le> 24"
  shows "crc32_step (drop_bit j s XOR c) (ucast (drop_bit j (NOT s)))
    = drop_bit (8 + j) s XOR (drop_bit 8 c XOR crc32_table ! unat (NOT (ucast c :: u8)))"
proof -
  have "((drop_bit j s XOR c) AND 255) XOR ucast (ucast (drop_bit j (NOT s)) :: u8)
      = ucast (NOT (ucast c :: u8))"
    unfolding and_255_take_bit using assms
    by (intro bit_word_eqI) (auto simp: bit_simps)
  then show ?thesis
    by (simp add: crc32_step_def drop_bit_xor xor.assoc unat_ucast_u8)
qed

lemma crc32_table_255: "crc32_table ! unat (- 1 :: u8) = 755167117"
proof -
  have "(- 1 :: u8) = 255" by simp
  then have "unat (- 1 :: u8) = 255" by (simp only: unat_numeral) simp
  then show ?thesis by (simp add: crc32_table_def)
qed

text \<open>
  appending the CRC-32 of a message the way the target stores it (little-endian) makes the
  CRC of the whole a constant, whatever the message: a receiver can check a frame by running the
  CRC over all of it.
\<close>

theorem crc32_residue: "crc32_ieee 0 (m @ le32 (crc32_ieee 0 m)) = 558161692"
proof -
  define s where "s = foldl crc32_step (0 XOR 4294967295) m"
  have crc: "crc32_ieee 0 m = NOT s"
    by (simp add: crc32_ieee_def s_def xor_ones_32)
  have "drop_bit 32 s = 0" by (rule bit_word_eqI) (auto simp: bit_simps dest: bit_imp_le_length)
  moreover have "crc32_step s (ucast (NOT s)) = drop_bit 8 s XOR 755167117"
    using crc32_step_complement [of 0 s 0] by (simp add: crc32_table_255)
  moreover have "crc32_step (drop_bit 8 s XOR 755167117) (ucast (drop_bit 8 (NOT s))) = drop_bit 16 s XOR 3190166271"
    using crc32_step_complement [of 8 s 755167117] by (simp add: crc32_table_def)
  moreover have "crc32_step (drop_bit 16 s XOR 3190166271) (ucast (drop_bit 16 (NOT s))) = drop_bit 24 s XOR 12461586"
    using crc32_step_complement [of 16 s 3190166271] by (simp add: crc32_table_def)
  moreover have "crc32_step (drop_bit 24 s XOR 12461586) (ucast (drop_bit 24 (NOT s))) = drop_bit 32 s XOR 3736805603"
    using crc32_step_complement [of 24 s 12461586] by (simp add: crc32_table_def)
  ultimately have "foldl crc32_step s (le32 (NOT s)) = 3736805603"
    by (simp add: le32_def)
  then show ?thesis
    unfolding crc crc32_ieee_def foldl_append s_def [symmetric] by (simp only: xor_ones_32) simp
qed

end
