(* ===== verification/Safec.thy ===== *)
theory Safec
  imports Prelude
begin

text \<open>
  The bounded copies of the safe C library (\<^verbatim>\<open>src/external/safec\<close>) as the firmware uses
  them: what they leave in the destination when the source does not fit.
\<close>

text \<open>
  \<^verbatim>\<open>memcpy_s (dst + off, dmax, src, slen)\<close> with \<open>slen = length src\<close>: nothing happens for an
  empty source or a zero \<open>dmax\<close>; a source longer than \<open>dmax\<close> clears the \<open>dmax\<close> bytes of the
  destination.
\<close>

definition memcpy_s :: "bytes \<Rightarrow> nat \<Rightarrow> nat \<Rightarrow> bytes \<Rightarrow> bytes" where
  "memcpy_s dst off dmax src =
     (if src = [] \<or> dmax = 0 then dst
      else if length src > dmax then buf_write dst off (replicate dmax 0)
      else buf_write dst off src)"

text \<open>
  \<^verbatim>\<open>strcpy_s (dst, dmax, src)\<close> on C strings (the bytes before the NUL): a source that does not
  fit with its NUL in \<open>dmax\<close> bytes leaves the empty string (the destination is cleared).
\<close>

definition strcpy_s :: "nat \<Rightarrow> bytes \<Rightarrow> bytes" where
  "strcpy_s dmax src = (if length src < dmax then src else [])"

definition strnlen_s :: "bytes \<Rightarrow> nat \<Rightarrow> nat" where
  "strnlen_s s smax = min (length s) smax"

lemma memcpy_s_fits:
  "length src \<le> dmax \<Longrightarrow> off + length src \<le> length dst \<Longrightarrow> memcpy_s dst off dmax src = buf_write dst off src"
  by (auto simp: memcpy_s_def buf_write_def)

lemma length_memcpy_s:
  "off + dmax \<le> length dst \<Longrightarrow> length (memcpy_s dst off dmax src) = length dst"
  by (auto simp: memcpy_s_def buf_write_def)

lemma strcpy_s_fits [simp]: "length src < dmax \<Longrightarrow> strcpy_s dmax src = src"
  by (simp add: strcpy_s_def)

lemma length_strcpy_s: "0 < dmax \<Longrightarrow> length (strcpy_s dmax src) < dmax"
  by (simp add: strcpy_s_def)

end
