(* ===== verification/ProtocolCodec.thy ===== *)
theory ProtocolCodec
  imports Safec Crc
begin

text \<open>
  The frame codec of the USB protocol, \<^verbatim>\<open>src/webusb_protocol/protocol_codec.c\<close>: a packed
  ten-byte head, a list of type-length-value fields whose length takes one or two bytes, and the
  CRC-32 of everything before it. \<^verbatim>\<open>BuildFrame\<close> writes into a buffer it has allocated (its
  initial contents are the parameter \<open>mem\<close>); \<^verbatim>\<open>GetTlvFromData\<close> reads the fields back.
\<close>

section \<open>Data\<close>

record frame_head =
  fh_head :: u8
  fh_protocolVersion :: u8
  fh_packetIndex :: u16
  fh_serviceId :: u8
  fh_commandId :: u8
  fh_flag :: u16
  fh_length :: u16

text \<open>The packed struct in memory.\<close>

definition frame_head_bytes :: "frame_head \<Rightarrow> bytes" where
  "frame_head_bytes h =
     [fh_head h, fh_protocolVersion h] @ le16 (fh_packetIndex h) @ [fh_serviceId h, fh_commandId h]
     @ le16 (fh_flag h) @ le16 (fh_length h)"

definition sizeof_FrameHead :: nat where
  "sizeof_FrameHead = 10"

text \<open>\<open>tlv_pValue\<close> is \<open>None\<close> for the NULL pointer and else the memory it points to.\<close>

record tlv =
  tlv_type :: u8
  tlv_length :: u16
  tlv_pValue :: "bytes option"
  tlv_value :: u32

section \<open>Encoding\<close>

definition GetFrameTotalLength :: "tlv list \<Rightarrow> u32" where
  "GetFrameTotalLength tlvArray =
     foldl (\<lambda>totalLen t.
       totalLen + 1 + (if tlv_length t > 127 then 2 else 1) + ucast (tlv_length t))
       (of_nat sizeof_FrameHead + 4) tlvArray"

text \<open>
  The length bytes are written before the assertions; \<open>None\<close> is a failed assertion. The result
  is the buffer and the advanced index.
\<close>

definition EncodeTlv :: "bytes \<Rightarrow> nat \<Rightarrow> tlv \<Rightarrow> nat \<Rightarrow> (bytes \<times> nat) option" where
  "EncodeTlv buffer index t totalLen =
     (let len = tlv_length t;
          buffer = buffer[index := tlv_type t];
          index = Suc index;
          (buffer, index) =
            (if len > 127
             then (buffer[index := ucast (128 OR drop_bit 8 len), Suc index := ucast (len AND 255)],
                   index + 2)
             else (buffer[index := ucast len], Suc index))
      in if \<not> len \<le> 32767 then None
         else (case tlv_pValue t of
           None \<Rightarrow>
             if \<not> len \<le> 4 then None
             else Some (memcpy_s buffer index (totalLen - index) (take (unat len) (le32 (tlv_value t))),
                        index + unat len)
         | Some p \<Rightarrow>
             Some (memcpy_s buffer index (totalLen - index) (take (unat len) p), index + unat len)))"

fun EncodeTlvs :: "bytes \<Rightarrow> nat \<Rightarrow> tlv list \<Rightarrow> nat \<Rightarrow> (bytes \<times> nat) option" where
  "EncodeTlvs buffer index [] totalLen = Some (buffer, index)"
| "EncodeTlvs buffer index (t # ts) totalLen =
     do { (buffer, index) \<leftarrow> EncodeTlv buffer index t totalLen;
          EncodeTlvs buffer index ts totalLen }"

text \<open>The result is the frame and the head, whose fields the call fills in.\<close>

definition BuildFrame :: "bytes \<Rightarrow> frame_head \<Rightarrow> tlv list \<Rightarrow> (bytes \<times> frame_head) option" where
  "BuildFrame mem pHead tlvArray =
     (let totalLen = GetFrameTotalLength tlvArray;
          n = unat totalLen;
          pHead = pHead\<lparr>fh_head := 107, fh_protocolVersion := 0,
                    fh_length := ucast (totalLen - of_nat sizeof_FrameHead - 4)\<rparr>;
          sendData = memcpy_s mem 0 n (frame_head_bytes pHead)
      in do { (sendData, index) \<leftarrow> EncodeTlvs sendData sizeof_FrameHead tlvArray n;
              let crc32Calc = crc32_ieee 0 (take (n - 4) sendData);
              Some (memcpy_s sendData index 4 (le32 crc32Calc), pHead) })"

section \<open>Decoding\<close>

text \<open>The length bytes at \<open>index\<close>: the length and the index after them, or \<open>None\<close> when they are cut short.\<close>

definition ReadTlvLength :: "bytes \<Rightarrow> nat \<Rightarrow> nat \<Rightarrow> (u16 \<times> nat) option" where
  "ReadTlvLength data dataLen index =
     (if index + 1 > dataLen then None
      else if data ! index > 127 then
        (if index + 2 > dataLen then None
         else Some (push_bit 8 (ucast (data ! index AND 127)) + ucast (data ! (index + 1)), index + 2))
      else Some (ucast (data ! index), index + 1))"

text \<open>
  The loop of \<^verbatim>\<open>GetTlvFromData\<close>: its state is \<open>count\<close>, \<open>index\<close> and the output array. A field that
  is cut short leaves its type and length in the array without being counted.
\<close>

function GetTlvLoop :: "nat \<Rightarrow> bytes \<Rightarrow> nat \<Rightarrow> nat \<Rightarrow> nat \<Rightarrow> tlv list \<Rightarrow> nat \<times> tlv list" where
  "GetTlvLoop maxTlvLen data dataLen count index arr =
     (if \<not> (count < maxTlvLen \<and> index < dataLen) then (count, arr)
      else if index + 1 > dataLen then (count, arr)
      else
        let arr = arr[count := (arr ! count)\<lparr>tlv_type := data ! index\<rparr>]
        in case ReadTlvLength data dataLen (index + 1) of
             None \<Rightarrow> (count, arr)
           | Some (len, index) \<Rightarrow>
               let arr = arr[count := (arr ! count)\<lparr>tlv_length := len\<rparr>]
               in if index + unat len > dataLen \<or> len = 0 then (count, arr)
                  else GetTlvLoop maxTlvLen data dataLen (count + 1) (index + unat len)
                    (arr[count := (arr ! count)\<lparr>tlv_pValue := Some (take (unat len) (drop index data))\<rparr>]))"
  by pat_completeness auto
termination
  by (relation "measure (\<lambda>(maxTlvLen, data, dataLen, count, index, arr). dataLen - index)")
    (auto simp: ReadTlvLength_def split: if_splits)

declare GetTlvLoop.simps [simp del]

definition GetTlvFromData :: "tlv list \<Rightarrow> nat \<Rightarrow> bytes \<Rightarrow> nat \<Rightarrow> nat \<times> tlv list" where
  "GetTlvFromData tlvArray maxTlvLen data dataLen = GetTlvLoop maxTlvLen data dataLen 0 0 tlvArray"

section \<open>What a frame contains\<close>

definition tlv_payload :: "tlv \<Rightarrow> bytes" where
  "tlv_payload t = take (unat (tlv_length t)) (case tlv_pValue t of None \<Rightarrow> le32 (tlv_value t) | Some p \<Rightarrow> p)"

definition tlv_len_bytes :: "u16 \<Rightarrow> bytes" where
  "tlv_len_bytes len =
     (if len > 127 then [ucast (128 OR drop_bit 8 len), ucast (len AND 255)] else [ucast len])"

definition tlv_bytes :: "tlv \<Rightarrow> bytes" where
  "tlv_bytes t = tlv_type t # tlv_len_bytes (tlv_length t) @ tlv_payload t"

text \<open>The fields the codec can carry: fifteen-bit lengths, and the memory they announce.\<close>

definition wf_tlv :: "tlv \<Rightarrow> bool" where
  "wf_tlv t \<longleftrightarrow> tlv_length t \<le> 32767 \<and>
     (case tlv_pValue t of None \<Rightarrow> tlv_length t \<le> 4 | Some p \<Rightarrow> length p = unat (tlv_length t))"

lemma length_tlv_payload: "wf_tlv t \<Longrightarrow> length (tlv_payload t) = unat (tlv_length t)"
  by (auto simp: wf_tlv_def tlv_payload_def word_le_nat_alt split: option.splits)

lemma length_tlv_len_bytes: "length (tlv_len_bytes len) = (if len > 127 then 2 else 1)"
  by (simp add: tlv_len_bytes_def)

lemma length_tlv_bytes:
  "wf_tlv t \<Longrightarrow> length (tlv_bytes t) = 1 + (if tlv_length t > 127 then 2 else 1) + unat (tlv_length t)"
  by (simp add: tlv_bytes_def length_tlv_payload length_tlv_len_bytes)

lemma length_frame_head_bytes [simp]: "length (frame_head_bytes h) = 10"
  by (simp add: frame_head_bytes_def)

lemma list_update_buf_write: "i < length b \<Longrightarrow> b[i := x] = buf_write b i [x]"
  by (simp add: buf_write_def upd_conv_take_nth_drop)

lemma buf_write_append:
  "i + length xs + length ys \<le> length b \<Longrightarrow>
   buf_write (buf_write b i xs) (i + length xs) ys = buf_write b i (xs @ ys)"
  by (simp add: buf_write_def min_absorb2 ac_simps)

lemma buf_write_Nil [simp]: "buf_write b i [] = b"
  by (simp add: buf_write_def)

lemma EncodeTlv_eq:
  assumes "wf_tlv t" and "index + length (tlv_bytes t) \<le> totalLen" and "totalLen \<le> length buffer"
  shows "EncodeTlv buffer index t totalLen
    = Some (buf_write buffer index (tlv_bytes t), index + length (tlv_bytes t))"
proof -
  let ?hd = "tlv_type t # tlv_len_bytes (tlv_length t)"
  have bytes: "tlv_bytes t = ?hd @ tlv_payload t" by (simp add: tlv_bytes_def)
  have room: "index + length ?hd + length (tlv_payload t) \<le> totalLen"
    using assms(2) by (simp add: bytes)
  have hd: "(if tlv_length t > 127
       then (buffer[index := tlv_type t, Suc index := ucast (128 OR drop_bit 8 (tlv_length t)),
               Suc (Suc index) := ucast (tlv_length t AND 255)], Suc index + 2)
       else (buffer[index := tlv_type t, Suc index := ucast (tlv_length t)], Suc (Suc index)))
     = (buf_write buffer index ?hd, index + length ?hd)"
    using room assms(3) buf_write_append [of index "[tlv_type t]" _ buffer]
      buf_write_append [of index "[tlv_type t, ucast (128 OR drop_bit 8 (tlv_length t))]" _ buffer]
    by (simp add: tlv_len_bytes_def list_update_buf_write length_buf_write split: if_splits)
  have copy: "memcpy_s (buf_write buffer index ?hd) (index + length ?hd) (totalLen - (index + length ?hd)) (tlv_payload t)
      = buf_write buffer index (tlv_bytes t)"
    using room assms(3) buf_write_append [of index ?hd "tlv_payload t" buffer]
    by (simp only: memcpy_s_fits length_buf_write bytes)
  show ?thesis
    using assms(1) copy length_tlv_payload [OF assms(1)]
    by (simp add: EncodeTlv_def Let_def hd bytes wf_tlv_def tlv_payload_def split: option.splits)
qed

lemma EncodeTlvs_eq:
  "\<forall>t\<in>set ts. wf_tlv t \<Longrightarrow> index + length (concat (map tlv_bytes ts)) \<le> totalLen \<Longrightarrow>
   totalLen \<le> length buffer \<Longrightarrow>
   EncodeTlvs buffer index ts totalLen
   = Some (buf_write buffer index (concat (map tlv_bytes ts)), index + length (concat (map tlv_bytes ts)))"
proof (induction ts arbitrary: buffer index)
  case Nil
  then show ?case by simp
next
  case (Cons t ts)
  let ?b = "buf_write buffer index (tlv_bytes t)"
  have "EncodeTlv buffer index t totalLen = Some (?b, index + length (tlv_bytes t))"
    using Cons.prems by (intro EncodeTlv_eq) auto
  moreover have "length ?b = length buffer" using Cons.prems by (simp add: length_buf_write)
  ultimately show ?case
    using Cons.prems Cons.IH [of "index + length (tlv_bytes t)" ?b]
    by (simp add: buf_write_append add.assoc)
qed

definition frame_size :: "tlv list \<Rightarrow> nat" where
  "frame_size ts = 14 + length (concat (map tlv_bytes ts))"

lemma GetFrameTotalLength_eq:
  assumes "\<forall>t\<in>set ts. wf_tlv t"
  shows "GetFrameTotalLength ts = of_nat (frame_size ts)"
proof -
  have step: "foldl (\<lambda>totalLen t. totalLen + 1 + (if tlv_length t > 127 then 2 else 1) + ucast (tlv_length t)) s ts
     = s + of_nat (length (concat (map tlv_bytes ts)))" for s :: u32
    using assms
  proof (induction ts arbitrary: s)
    case Nil
    then show ?case by simp
  next
    case (Cons t ts)
    have "(of_nat (length (tlv_bytes t)) :: u32)
        = 1 + (if tlv_length t > 127 then 2 else 1) + ucast (tlv_length t)"
      using Cons.prems by (simp add: length_tlv_bytes of_nat_unat)
    then show ?case using Cons by (simp add: add.assoc)
  qed
  show ?thesis by (simp add: GetFrameTotalLength_def step frame_size_def sizeof_FrameHead_def)
qed

definition filled_head :: "frame_head \<Rightarrow> tlv list \<Rightarrow> frame_head" where
  "filled_head h ts = h\<lparr>fh_head := 107, fh_protocolVersion := 0, fh_length := of_nat (frame_size ts - 14)\<rparr>"

definition frame_body :: "frame_head \<Rightarrow> tlv list \<Rightarrow> bytes" where
  "frame_body h ts = frame_head_bytes (filled_head h ts) @ concat (map tlv_bytes ts)"

lemma length_frame_body: "length (frame_body h ts) = frame_size ts - 4"
  by (simp add: frame_body_def frame_size_def)

lemma BuildFrame_eq:
  assumes "\<forall>t\<in>set ts. wf_tlv t" and "frame_size ts < 2 ^ 32" and "length mem = frame_size ts"
  shows "BuildFrame mem h ts
    = Some (frame_body h ts @ le32 (crc32_ieee 0 (frame_body h ts)), filled_head h ts)"
proof -
  let ?n = "frame_size ts" and ?payload = "concat (map tlv_bytes ts)"
  have total: "unat (GetFrameTotalLength ts) = ?n"
    using assms(2) by (simp add: GetFrameTotalLength_eq [OF assms(1)] unat_of_nat take_bit_nat_eq_self)
  have n: "?n = 14 + length ?payload" by (simp add: frame_size_def)
  have len: "(ucast (GetFrameTotalLength ts - of_nat sizeof_FrameHead - 4) :: u16) = of_nat (?n - 14)"
    by (simp add: GetFrameTotalLength_eq [OF assms(1)] sizeof_FrameHead_def frame_size_def
        unsigned_of_nat word_of_nat_eq_iff)
  have head: "memcpy_s mem 0 ?n (frame_head_bytes (filled_head h ts))
      = buf_write mem 0 (frame_head_bytes (filled_head h ts))"
    using assms(3) n by (simp add: memcpy_s_fits)
  have enc: "EncodeTlvs (buf_write mem 0 (frame_head_bytes (filled_head h ts))) 10 ts ?n
      = Some (buf_write mem 0 (frame_body h ts), ?n - 4)"
    using assms n buf_write_append [of 0 "frame_head_bytes (filled_head h ts)" ?payload mem]
    by (simp add: EncodeTlvs_eq length_buf_write frame_body_def)
  have body: "take (?n - 4) (buf_write mem 0 (frame_body h ts)) = frame_body h ts"
    by (simp add: buf_write_def length_frame_body)
  have crc: "memcpy_s (buf_write mem 0 (frame_body h ts)) (?n - 4) 4 (le32 c) = frame_body h ts @ le32 c" for c
    using assms(3) n
    by (simp add: memcpy_s_fits length_buf_write length_frame_body buf_write_def)
  have fill: "h\<lparr>fh_head := 107, fh_protocolVersion := 0,
      fh_length := ucast (GetFrameTotalLength ts - of_nat sizeof_FrameHead - 4)\<rparr> = filled_head h ts"
    by (simp only: len filled_head_def)
  show ?thesis
    unfolding BuildFrame_def Let_def total fill head
    unfolding sizeof_FrameHead_def enc
    by (simp add: body crc)
qed

text \<open>
  For well-formed fields whose total size is below 4 GiB, \<^verbatim>\<open>BuildFrame\<close> passes its assertions
  and fills the whole allocated buffer, whatever it held: the packed head with the magic byte,
  version 0 and the payload length, then the fields in order, then the CRC-32 of all of that.
\<close>

theorem BuildFrame_layout:
  assumes "\<forall>t\<in>set ts. wf_tlv t" and "frame_size ts < 2 ^ 32" and "length mem = frame_size ts"
  shows "BuildFrame mem h ts
    = Some (frame_body h ts @ le32 (crc32_ieee 0 (frame_body h ts)), filled_head h ts)"
  using assms by (rule BuildFrame_eq)

section \<open>Reading back\<close>

lemma bit_127_128_int:
  "bit (127 :: int) k \<longleftrightarrow> k < 7" "bit (128 :: int) k \<longleftrightarrow> k = 7"
proof -
  have "(127 :: int) = mask 7" "(128 :: int) = 2 ^ 7" by (simp_all add: mask_eq_exp_minus_1)
  then show "bit (127 :: int) k \<longleftrightarrow> k < 7" "bit (128 :: int) k \<longleftrightarrow> k = 7"
    by (simp_all only: bit_mask_iff bit_exp_iff) auto
qed

lemma u8_high_bit: "127 < (b :: u8) \<longleftrightarrow> bit b 7"
proof -
  have "unat b < 256" using unsigned_less [of b, where 'a = nat] by simp
  then have "unat b div 128 = 0 \<or> unat b div 128 = 1" by auto
  then have "127 < unat b \<longleftrightarrow> odd (unat b div 128)" by (auto simp: div_eq_0_iff)
  then show ?thesis by (simp add: word_less_nat_alt bit_iff_odd word_arith_nat_div)
qed

lemma ReadTlvLength_tlv_len_bytes:
  assumes "len \<le> 32767" and "length pre + length (tlv_len_bytes len) \<le> dataLen"
  shows "ReadTlvLength (pre @ tlv_len_bytes len @ post) dataLen (length pre)
    = Some (len, length pre + length (tlv_len_bytes len))"
proof -
  have low: "unat len < 2 ^ 15" using assms by (simp add: word_le_nat_alt)
  note below = word_bit_below [OF low]
  show ?thesis
  proof (cases "len > 127")
    case True
    have big: "127 < (ucast (128 OR drop_bit 8 len) :: u8)"
      by (simp add: u8_high_bit bit_simps)
    have "push_bit 8 (ucast ((ucast (128 OR drop_bit 8 len) :: u8) AND 127)) + ucast (ucast (len AND 255) :: u8) = len"
      (is "?h + ?l = _")
    proof -
      have "?h AND ?l = 0"
        by (rule bit_word_eqI) (auto simp: bit_simps dest: bit_u8_less)
      then have "?h + ?l = ?h OR ?l" by (rule disjunctive_add_eq_or)
      also have "\<dots> = len"
        by (rule bit_word_eqI) (auto simp: bit_simps and_255_take_bit bit_127_128_int dest: below)
      finally show ?thesis .
    qed
    with True big assms(2) show ?thesis
      by (simp add: ReadTlvLength_def tlv_len_bytes_def nth_append)
  next
    case False
    then have small: "unat len < 2 ^ 7" by (simp add: word_less_nat_alt)
    have "\<not> 127 < (ucast len :: u8)" using word_bit_below [OF small, of 7] 
      by (auto simp: u8_high_bit bit_simps)
    moreover have "ucast (ucast len :: u8) = len"
      by (rule bit_word_eqI) (auto simp: bit_simps dest: word_bit_below [OF small])
    ultimately show ?thesis using False assms(2)
      by (simp add: ReadTlvLength_def tlv_len_bytes_def)
  qed
qed

definition read_tlv :: "tlv \<Rightarrow> tlv \<Rightarrow> tlv" where
  "read_tlv a t = a\<lparr>tlv_type := tlv_type t, tlv_length := tlv_length t, tlv_pValue := Some (tlv_payload t)\<rparr>"

lemma GetTlvLoop_tlv:
  assumes "wf_tlv t" and "0 < tlv_length t" and "count < maxTlvLen" and "count < length arr"
    and "length pre + length (tlv_bytes t) \<le> dataLen"
  shows "GetTlvLoop maxTlvLen (pre @ tlv_bytes t @ post) dataLen count (length pre) arr
    = GetTlvLoop maxTlvLen (pre @ tlv_bytes t @ post) dataLen (count + 1) (length pre + length (tlv_bytes t))
        (arr[count := read_tlv (arr ! count) t])"
proof -
  let ?d = "pre @ tlv_bytes t @ post" and ?l = "tlv_len_bytes (tlv_length t)"
  have bytes: "tlv_bytes t = tlv_type t # ?l @ tlv_payload t" by (simp add: tlv_bytes_def)
  have plen: "length (tlv_payload t) = unat (tlv_length t)" by (rule length_tlv_payload [OF assms(1)])
  have ty: "?d ! length pre = tlv_type t" by (simp add: bytes nth_append)
  have rd: "ReadTlvLength ?d dataLen (length pre + 1)
      = Some (tlv_length t, length pre + 1 + length ?l)"
    using ReadTlvLength_tlv_len_bytes [of "tlv_length t" "pre @ [tlv_type t]" dataLen "tlv_payload t @ post"] assms
    by (simp add: wf_tlv_def bytes)
  have val: "drop (Suc (length ?l)) (tlv_bytes t) = tlv_payload t"
    "length (tlv_bytes t) - Suc (length ?l) = unat (tlv_length t)"
    by (simp_all add: bytes plen)
  have nxt: "Suc (length pre + length ?l + unat (tlv_length t)) = length pre + length (tlv_bytes t)"
    by (simp add: bytes plen)
  have nz: "tlv_length t \<noteq> 0" using assms(2) by auto
  have fits: "\<not> dataLen < length pre + length (tlv_bytes t)" "length pre < dataLen" "Suc (length pre) \<le> dataLen"
    using assms(5) by (auto simp: bytes)
  show ?thesis
    by (subst GetTlvLoop.simps)
      (use assms(3,4) fits nz in \<open>simp add: ty rd [simplified] val nxt plen read_tlv_def Let_def\<close>)
qed

lemma GetTlvLoop_tlvs:
  "\<forall>t\<in>set ts. wf_tlv t \<and> 0 < tlv_length t \<Longrightarrow> length as + length ts \<le> maxTlvLen \<Longrightarrow>
   length ts \<le> length bs \<Longrightarrow>
   GetTlvLoop maxTlvLen (pre @ concat (map tlv_bytes ts) @ post) (length (pre @ concat (map tlv_bytes ts)))
      (length as) (length pre) (as @ bs)
   = (length as + length ts, as @ map2 read_tlv bs ts @ drop (length ts) bs)"
proof (induction ts arbitrary: pre as bs)
  case Nil
  then show ?case by (subst GetTlvLoop.simps) simp
next
  case (Cons t ts)
  obtain b bs' where bs: "bs = b # bs'" using Cons.prems by (cases bs) auto
  show ?case
    using Cons.prems Cons.IH [of "as @ [read_tlv b t]" bs' "pre @ tlv_bytes t"]
      GetTlvLoop_tlv [of t "length as" maxTlvLen "as @ bs" pre
        "length (pre @ concat (map tlv_bytes (t # ts)))" "concat (map tlv_bytes ts) @ post"]
    by (simp add: bs add.assoc)
qed

text \<open>
  What \<^verbatim>\<open>GetTlvFromData\<close> reads back from a frame of \<^verbatim>\<open>BuildFrame\<close> is what was put in. With
  non-empty fields, a payload below 64 KiB (the width of the head's length field) and an output
  array that is long enough, it counts every field and stores its type, length and payload in
  order; the rest of the array is untouched.
\<close>

theorem GetTlvFromData_BuildFrame:
  assumes "\<forall>t\<in>set ts. wf_tlv t \<and> 0 < tlv_length t" and "frame_size ts - 14 < 2 ^ 16"
    and "length mem = frame_size ts" and "length ts \<le> maxTlvLen" and "maxTlvLen \<le> length arr"
  shows "\<exists>f h'. BuildFrame mem h ts = Some (f, h') \<and>
    GetTlvFromData arr maxTlvLen (drop sizeof_FrameHead f) (unat (fh_length h'))
      = (length ts, map2 read_tlv arr ts @ drop (length ts) arr)"
proof -
  let ?payload = "concat (map tlv_bytes ts)"
  have build: "BuildFrame mem h ts
      = Some (frame_body h ts @ le32 (crc32_ieee 0 (frame_body h ts)), filled_head h ts)"
    using assms by (intro BuildFrame_eq) auto
  have len: "unat (fh_length (filled_head h ts)) = length ?payload"
    using assms(2) by (simp add: filled_head_def frame_size_def unat_of_nat take_bit_nat_eq_self)
  show ?thesis
    using assms GetTlvLoop_tlvs [of ts "[]" maxTlvLen arr "[]" "le32 (crc32_ieee 0 (frame_body h ts))"]
    by (simp add: build len GetTlvFromData_def sizeof_FrameHead_def)
      (simp add: frame_body_def)
qed

definition tlv_in :: "bytes \<Rightarrow> nat \<Rightarrow> tlv \<Rightarrow> bool" where
  "tlv_in data dataLen a \<longleftrightarrow> 0 < unat (tlv_length a) \<and>
     (\<exists>k\<le>dataLen - unat (tlv_length a). unat (tlv_length a) \<le> dataLen \<and>
        tlv_pValue a = Some (take (unat (tlv_length a)) (drop k data)))"

lemma GetTlvLoop_bounds:
  assumes "GetTlvLoop maxTlvLen data dataLen count index arr = (n, arr')"
    and "count \<le> maxTlvLen" and "maxTlvLen \<le> length arr" and "\<forall>i<count. tlv_in data dataLen (arr ! i)"
  shows "n \<le> maxTlvLen \<and> length arr' = length arr \<and> (\<forall>i<n. tlv_in data dataLen (arr' ! i))"
  using assms
proof (induction maxTlvLen data dataLen count index arr rule: GetTlvLoop.induct)
  case (1 maxTlvLen data dataLen count index arr)
  show ?case
  proof (cases "count < maxTlvLen \<and> index < dataLen")
    case False
    with 1(2-) show ?thesis by (subst (asm) GetTlvLoop.simps) auto
  next
    case go: True
    show ?thesis
    proof (cases "ReadTlvLength data dataLen (index + 1)")
      case None
      with go 1(2-) show ?thesis
        by (subst (asm) GetTlvLoop.simps) (auto simp: Let_def nth_list_update)
    next
      case (Some r)
      obtain len index' where r: "r = (len, index')" by fastforce
      let ?arr = "arr[count := (arr ! count)\<lparr>tlv_type := data ! index\<rparr>]"
      let ?arr1 = "?arr[count := (?arr ! count)\<lparr>tlv_length := len\<rparr>]"
      let ?arr2 = "?arr1[count := (?arr1 ! count)\<lparr>tlv_pValue := Some (take (unat len) (drop index' data))\<rparr>]"
      show ?thesis
      proof (cases "index' + unat len > dataLen \<or> len = 0")
        case True
        with go Some r 1(2-) show ?thesis
          by (subst (asm) GetTlvLoop.simps) (auto simp: Let_def nth_list_update)
      next
        case False
        then have "tlv_in data dataLen (?arr2 ! count)"
          using go 1(4) by (auto simp: tlv_in_def unat_gt_0 intro!: exI [of _ index'])
        then have "\<forall>i<count + 1. tlv_in data dataLen (?arr2 ! i)"
          using 1(5) go 1(4) by (auto simp: less_Suc_eq)
        moreover have "GetTlvLoop maxTlvLen data dataLen (count + 1) (index' + unat len) ?arr2 = (n, arr')"
          using 1(2) go Some r False by (subst (asm) GetTlvLoop.simps) (simp add: Let_def)
        ultimately show ?thesis
          using 1(1) [OF _ _ _ Some, of _ len index'] go r False 1(4) by simp
      qed
    qed
  qed
qed

text \<open>
  on any bytes whatever, \<^verbatim>\<open>GetTlvFromData\<close> counts no more fields than the output array
  holds, never resizes it, and every field it counts has a non-empty value that lies within the
  \<open>dataLen\<close> bytes it was given.
\<close>

theorem GetTlvFromData_bounds:
  assumes "GetTlvFromData arr maxTlvLen data dataLen = (n, arr')" and "maxTlvLen \<le> length arr"
  shows "n \<le> maxTlvLen \<and> length arr' = length arr \<and> (\<forall>i<n. tlv_in data dataLen (arr' ! i))"
  using GetTlvLoop_bounds [of maxTlvLen data dataLen 0 0 arr n arr'] assms
  by (simp add: GetTlvFromData_def)

section \<open>Instances\<close>

definition example_tlvs :: "tlv list" where
  "example_tlvs =
     [\<lparr>tlv_type = 1, tlv_length = 2, tlv_pValue = Some [7, 8], tlv_value = 0\<rparr>,
      \<lparr>tlv_type = 2, tlv_length = 1, tlv_pValue = None, tlv_value = 5\<rparr>]"

definition example_head :: frame_head where
  "example_head = \<lparr>fh_head = 0, fh_protocolVersion = 0, fh_packetIndex = 1, fh_serviceId = 1,
     fh_commandId = 2, fh_flag = 0, fh_length = 0\<rparr>"

lemma example_tlvs_wf:
  "\<forall>t\<in>set example_tlvs. wf_tlv t" "\<forall>t\<in>set example_tlvs. wf_tlv t \<and> 0 < tlv_length t"
  by (auto simp: example_tlvs_def wf_tlv_def)

lemma example_frame_size: "frame_size example_tlvs = 21"
  by (simp add: frame_size_def example_tlvs_def tlv_bytes_def tlv_len_bytes_def tlv_payload_def le32_def)

lemma BuildFrame_layout_witness:
  "BuildFrame (replicate 21 0) example_head example_tlvs
    = Some (frame_body example_head example_tlvs @ le32 (crc32_ieee 0 (frame_body example_head example_tlvs)),
        filled_head example_head example_tlvs)"
  by (rule BuildFrame_layout) (simp_all add: example_tlvs_wf example_frame_size)

lemma GetTlvFromData_BuildFrame_witness:
  "\<exists>f h'. BuildFrame (replicate 21 0) example_head example_tlvs = Some (f, h') \<and>
    GetTlvFromData (replicate 3 (hd example_tlvs)) 3 (drop sizeof_FrameHead f) (unat (fh_length h'))
      = (length example_tlvs, map2 read_tlv (replicate 3 (hd example_tlvs)) example_tlvs
          @ drop (length example_tlvs) (replicate 3 (hd example_tlvs)))"
  by (rule GetTlvFromData_BuildFrame [OF example_tlvs_wf(2)])
    (simp_all only: example_frame_size length_replicate, simp_all add: example_tlvs_def)

lemma GetTlvFromData_bounds_witness:
  "\<exists>n arr'. GetTlvFromData (replicate 2 (hd example_tlvs)) 2 [9, 1, 5, 9, 4, 0] 6 = (n, arr')
    \<and> n = 1 \<and> n \<le> 2 \<and> tlv_in [9, 1, 5, 9, 4, 0] 6 (arr' ! 0)"
proof -
  obtain arr' where run: "GetTlvFromData (replicate 2 (hd example_tlvs)) 2 [9, 1, 5, 9, 4, 0] 6 = (1, arr')"
    by (simp add: GetTlvFromData_def GetTlvLoop.simps ReadTlvLength_def)
  show ?thesis using run GetTlvFromData_bounds [OF run] by simp
qed
end
