(* ===== verification/UserUtils.thy ===== *)
theory UserUtils
  imports Safec "HOL-Library.Multiset"
begin

text \<open>
  The byte and string helpers of \<^verbatim>\<open>src/utils/user_utils.c\<close>. A C string is the list of its
  bytes before the terminating NUL (plain \<^verbatim>\<open>char\<close> is unsigned on the target); a function
  that edits a string in place returns the edited one.
\<close>

section \<open>Hexadecimal text\<close>

definition toupper :: "u8 \<Rightarrow> u8" where
  "toupper c = (if 97 \<le> c \<and> c \<le> 122 then c - 32 else c)"

definition tolower :: "u8 \<Rightarrow> u8" where
  "tolower c = (if 65 \<le> c \<and> c \<le> 90 then c + 32 else c)"

definition hex_digit :: "u8 \<Rightarrow> u8" where
  "hex_digit h = (let s = toupper h - 48 in if s > 9 then s - 7 else s)"

text \<open>The bytes written to \<^verbatim>\<open>pbDest\<close>; their number is the function's result.\<close>

fun StrToHex :: "bytes \<Rightarrow> bytes" where
  "StrToHex (h1 # h2 # pbSrc) =
     (if h1 = 0 \<or> h2 = 0 then [] else (hex_digit h1 * 16 + hex_digit h2) # StrToHex pbSrc)"
| "StrToHex _ = []"

definition hexAlphaLookup :: bytes where
  "hexAlphaLookup = [48, 49, 50, 51, 52, 53, 54, 55, 56, 57, 65, 66, 67, 68, 69, 70]"

definition ByteArrayToHexStr :: "bytes \<Rightarrow> bytes" where
  "ByteArrayToHexStr array =
     concat (map (\<lambda>b. [hexAlphaLookup ! unat (drop_bit 4 b), hexAlphaLookup ! unat (b AND 15)]) array)"

lemma hexAlphaLookup_digit:
  "n < 16 \<Longrightarrow> hexAlphaLookup ! n \<noteq> 0 \<and> hex_digit (hexAlphaLookup ! n) = of_nat n"
proof -
  have "\<forall>n\<in>set [0..<16]. hexAlphaLookup ! n \<noteq> 0 \<and> hex_digit (hexAlphaLookup ! n) = of_nat n"
    by (simp add: upt_rec hexAlphaLookup_def hex_digit_def toupper_def Let_def)
  then show "n < 16 \<Longrightarrow> ?thesis" by simp
qed

lemma nibbles: "drop_bit 4 (b :: u8) * 16 + (b AND 15) = b"
proof -
  have "push_bit 4 (drop_bit 4 b) + take_bit 4 b = b"
    by (simp add: bits_ident)
  moreover have "b AND 15 = take_bit 4 b" by (simp add: take_bit_eq_mask mask_eq_exp_minus_1)
  ultimately show ?thesis by (simp add: push_bit_eq_mult)
qed

text \<open>
  parsing the hexadecimal text of a byte array gives the array back.
\<close>

theorem StrToHex_ByteArrayToHexStr: "StrToHex (ByteArrayToHexStr array) = array"
proof (induction array)
  case Nil
  then show ?case by (simp add: ByteArrayToHexStr_def)
next
  case (Cons b array)
  have "unat (drop_bit 4 b) < 16" using unsigned_less [of b, where 'a = nat]
    by (simp add: unsigned_drop_bit_eq drop_bit_eq_div [where 'a = nat] take_bit_nat_eq_self)
  moreover have "unat (b AND 15) < 16"
    using word_and_le2 [of 15 b] word_and_le1 [of b 15] by (simp add: word_le_nat_alt)
  ultimately have step: "StrToHex ([hexAlphaLookup ! unat (drop_bit 4 b), hexAlphaLookup ! unat (b AND 15)] @ s)
      = b # StrToHex s" for s
    by (simp add: hexAlphaLookup_digit nibbles)
  show ?case using step Cons by (simp add: ByteArrayToHexStr_def)
qed

section \<open>Checks on byte arrays\<close>

fun CheckEntropy :: "bytes \<Rightarrow> bool" where
  "CheckEntropy [] = False"
| "CheckEntropy (b # array) = (if b \<noteq> 0 \<and> b \<noteq> 255 then True else CheckEntropy array)"

fun CheckAllFF :: "bytes \<Rightarrow> bool" where
  "CheckAllFF [] = True"
| "CheckAllFF (b # array) = (if b \<noteq> 255 then False else CheckAllFF array)"

fun CheckAllZero :: "bytes \<Rightarrow> bool" where
  "CheckAllZero [] = True"
| "CheckAllZero (b # array) = (if b \<noteq> 0 then False else CheckAllZero array)"

lemma CheckEntropy_iff: "CheckEntropy array \<longleftrightarrow> (\<exists>b\<in>set array. b \<noteq> 0 \<and> b \<noteq> 255)"
  by (induction array) auto

lemma CheckAllFF_iff: "CheckAllFF array \<longleftrightarrow> array = replicate (length array) 255"
  by (induction array) auto

lemma CheckAllZero_iff: "CheckAllZero array \<longleftrightarrow> array = replicate (length array) 0"
  by (induction array) auto

lemma CheckAllZero_replicate [simp]: "CheckAllZero (replicate n 0)"
  by (simp add: CheckAllZero_iff)

lemma CheckEntropy_excludes:
  "CheckEntropy array \<Longrightarrow> \<not> CheckAllZero array \<and> \<not> CheckAllFF array"
  by (induction array) (auto split: if_splits)

section \<open>Strings\<close>

text \<open>The characters are space, carriage return, line feed and tab.\<close>

definition RemoveFormatChar :: "bytes \<Rightarrow> bytes" where
  "RemoveFormatChar str = filter (\<lambda>c. c \<noteq> 32 \<and> c \<noteq> 13 \<and> c \<noteq> 10 \<and> c \<noteq> 9) str"

definition ConvertToLowerCase :: "bytes \<Rightarrow> bytes" where
  "ConvertToLowerCase str = map tolower str"

definition CheckContainsNull :: "bytes \<Rightarrow> nat \<Rightarrow> bool" where
  "CheckContainsNull mem maxLen = list_ex (\<lambda>c. c = 0) (take maxLen mem)"

fun find_char_from :: "bytes \<Rightarrow> u8 \<Rightarrow> int \<Rightarrow> int \<Rightarrow> int \<Rightarrow> int" where
  "find_char_from [] destChar index i slashCount = -1"
| "find_char_from (c # str) destChar index i slashCount =
     (if c = destChar
      then (if slashCount + 1 = index then i
            else find_char_from str destChar index (i + 1) (slashCount + 1))
      else find_char_from str destChar index (i + 1) slashCount)"

definition FindStringCharPosition :: "bytes \<Rightarrow> u8 \<Rightarrow> int \<Rightarrow> int" where
  "FindStringCharPosition str destChar index = find_char_from str destChar index 0 0"

lemma tolower_idem: "tolower (tolower c) = tolower c"
  by (auto simp: tolower_def word_le_nat_alt unat_word_ariths)

definition lower_letter :: "u8 \<Rightarrow> bool" where
  "lower_letter c \<longleftrightarrow> 97 \<le> c \<and> c \<le> 122"

text \<open>
  What the 16-byte \<^verbatim>\<open>buf\<close> of the word loops holds after a run of letters: at most fifteen of them;
  the position is an 8-bit number, so that a run of more than 255 letters starts over. A run of
  fifteen letters leaves the last byte of \<^verbatim>\<open>buf\<close> as it was.
\<close>

definition word_buf :: "bytes \<Rightarrow> bytes" where
  "word_buf w = take 15 (drop (length w - length w mod 256) w)"

lemma word_buf_short: "length w < 16 \<Longrightarrow> word_buf w = take 15 w"
  by (simp add: word_buf_def)

lemma next_word_shorter:
  "length (dropWhile (\<lambda>c. \<not> lower_letter c) (dropWhile lower_letter (c # p))) < length (c # p)"
  by (cases "lower_letter c")
    (auto intro: le_less_trans [OF length_dropWhile_le] le_imp_less_Suc [OF length_dropWhile_le]
       le_imp_less_Suc [OF le_trans [OF length_dropWhile_le length_dropWhile_le]])

text \<open>
  The outer loop of \<^verbatim>\<open>WordsListSlice\<close>: a word of lower-case letters, then everything up to the
  next letter. The rows of the caller's \<^verbatim>\<open>wordsList\<close> hold ten bytes although \<^verbatim>\<open>strcpy_s\<close> is
  told sixteen; \<open>None\<close> stands for a word that does not fit in its row.
\<close>

function WordsListSlice :: "bytes \<Rightarrow> bytes list option" where
  "WordsListSlice [] = Some []"
| "WordsListSlice (c # p) =
     (let w = word_buf (takeWhile lower_letter (c # p));
          rest = dropWhile lower_letter (c # p);
          p' = dropWhile (\<lambda>c. \<not> lower_letter c) rest
      in if length w \<ge> 10 then None else map_option ((#) w) (WordsListSlice p'))"
  by pat_completeness auto
termination
  by (relation "measure length") (simp_all only: in_measure wf_measure next_word_shorter)

section \<open>Big-endian fields\<close>

definition extract_16bit_value :: "bytes \<Rightarrow> nat \<Rightarrow> u16" where
  "extract_16bit_value frame offset = push_bit 8 (ucast (frame ! offset)) OR ucast (frame ! (offset + 1))"

definition insert_16bit_value :: "bytes \<Rightarrow> nat \<Rightarrow> u16 \<Rightarrow> bytes" where
  "insert_16bit_value frame offset v =
     frame[offset := ucast (drop_bit 8 v), offset + 1 := ucast (v AND 255)]"

lemma length_insert_16bit_value [simp]: "length (insert_16bit_value frame offset v) = length frame"
  by (simp add: insert_16bit_value_def)

lemma extract_insert_16bit_value:
  assumes "offset + 1 < length frame"
  shows "extract_16bit_value (insert_16bit_value frame offset v) offset = v"
  using assms
  by (intro bit_word_eqI)
    (auto simp: extract_16bit_value_def insert_16bit_value_def and_255_take_bit bit_simps)

lemma extract_insert_16bit_other:
  assumes "offset' + 1 < offset \<or> offset + 1 < offset'" 
  shows "extract_16bit_value (insert_16bit_value frame offset v) offset' = extract_16bit_value frame offset'"
  using assms by (auto simp: extract_16bit_value_def insert_16bit_value_def nth_list_update)

section \<open>Shuffling words\<close>

text \<open>
  The production branch of \<^verbatim>\<open>ArrayRandom\<close>; \<open>lv_rand i\<close> is what the random number generator
  returns in round \<open>i\<close>. \<open>None\<close>: a word does not fit in its row, or \<^verbatim>\<open>count\<close> exceeds the number of
  words, or there are more words than the 33 rows.
\<close>

definition swap_elems :: "'a list \<Rightarrow> nat \<Rightarrow> nat \<Rightarrow> 'a list" where
  "swap_elems xs i j = xs[i := xs ! j, j := xs ! i]"

fun shuffle_words :: "(nat \<Rightarrow> nat) \<Rightarrow> nat \<Rightarrow> nat list \<Rightarrow> bytes list \<Rightarrow> bytes list" where
  "shuffle_words lv_rand cnt [] pointerList = pointerList"
| "shuffle_words lv_rand cnt (i # rounds) pointerList =
     shuffle_words lv_rand cnt rounds (swap_elems pointerList i (i + lv_rand i mod (cnt - i)))"

fun join_words :: "bytes list \<Rightarrow> bytes" where
  "join_words [] = []"
| "join_words [w] = strcpy_s 10 w"
| "join_words (w # ws) = strcpy_s 10 w @ [32] @ join_words ws"

definition ArrayRandom :: "(nat \<Rightarrow> nat) \<Rightarrow> bytes \<Rightarrow> nat \<Rightarrow> bytes option" where
  "ArrayRandom lv_rand words cnt =
     do { wordList \<leftarrow> WordsListSlice words;
          if length wordList < cnt \<or> 33 < length wordList then None
          else Some (join_words (shuffle_words lv_rand cnt [0..<cnt - 1] (take cnt wordList))) }"

lemma mset_swap_elems: "i < length xs \<Longrightarrow> j < length xs \<Longrightarrow> mset (swap_elems xs i j) = mset xs"
  by (simp add: swap_elems_def mset_swap)

lemma mset_shuffle_words:
  "\<forall>i\<in>set rounds. i < cnt \<Longrightarrow> length ws = cnt \<Longrightarrow> mset (shuffle_words lv_rand cnt rounds ws) = mset ws"
proof (induction rounds arbitrary: ws)
  case Nil
  then show ?case by simp
next
  case (Cons i rounds)
  have "lv_rand i mod (cnt - i) < cnt - i" using Cons.prems by simp
  then have "i + lv_rand i mod (cnt - i) < cnt" by linarith
  then show ?case using Cons by (simp add: mset_swap_elems swap_elems_def mset_swap)
qed

definition word_row :: "bytes \<Rightarrow> bool" where
  "word_row w \<longleftrightarrow> w \<noteq> [] \<and> length w < 10 \<and> (\<forall>c\<in>set w. lower_letter c)"

lemma space_no_letter: "\<not> lower_letter 32"
  by (simp add: lower_letter_def)

lemma WordsListSlice_step:
  "s \<noteq> [] \<Longrightarrow> length (takeWhile lower_letter s) < 10 \<Longrightarrow>
   WordsListSlice s = map_option ((#) (takeWhile lower_letter s))
     (WordsListSlice (dropWhile (\<lambda>c. \<not> lower_letter c) (dropWhile lower_letter s)))"
  by (cases s) (simp_all add: Let_def word_buf_short)

lemma WordsListSlice_join:
  "\<forall>w\<in>set ws. word_row w \<Longrightarrow> WordsListSlice (join_words ws) = Some ws"
proof (induction ws rule: join_words.induct)
  case 1
  then show ?case by simp
next
  case (2 w)
  then have run: "takeWhile lower_letter w = w" "dropWhile lower_letter w = []"
    and w: "w \<noteq> []" "length w < 10"
    by (auto simp: word_row_def takeWhile_eq_all_conv)
  then show ?case by (simp add: WordsListSlice_step run)
next
  case (3 w v ws)
  then have all: "\<forall>c\<in>set w. lower_letter c" and len: "length w < 10" by (auto simp: word_row_def)
  let ?r = "join_words (v # ws)"
  have "\<exists>d q. ?r = d # q \<and> lower_letter d"
    using 3(2) by (cases v; cases ws) (auto simp: word_row_def)
  then have hd: "dropWhile (\<lambda>c. \<not> lower_letter c) (32 # ?r) = ?r"
    using space_no_letter by auto
  have "takeWhile lower_letter (w @ 32 # ?r) = w" "dropWhile lower_letter (w @ 32 # ?r) = 32 # ?r"
    using all space_no_letter by (auto simp: takeWhile_append takeWhile_eq_all_conv dropWhile_append)
  with hd len 3 show ?case by (simp add: WordsListSlice_step)
qed

text \<open>
  for a phrase of at most 33 well-formed words separated by spaces, \<^verbatim>\<open>ArrayRandom\<close> outputs, whatever the
  random numbers, a phrase of the same words with the same multiplicities, which
  \<^verbatim>\<open>WordsListSlice\<close> splits back into them.
\<close>

theorem ArrayRandom_permutes:
  assumes "\<forall>w\<in>set ws. word_row w" and "length ws \<le> 33"
  shows "\<exists>out ws'. ArrayRandom lv_rand (join_words ws) (length ws) = Some out
    \<and> WordsListSlice out = Some ws' \<and> mset ws' = mset ws"
proof -
  let ?ws = "shuffle_words lv_rand (length ws) [0..<length ws - 1] ws"
  have m: "mset ?ws = mset ws" by (rule mset_shuffle_words) auto
  then have "\<forall>w\<in>set ?ws. word_row w" using assms mset_eq_setD by metis
  then show ?thesis using m assms(2) by (simp add: ArrayRandom_def WordsListSlice_join assms(1))
qed

lemma ArrayRandom_permutes_witness:
  "\<exists>out ws'. ArrayRandom (\<lambda>i. 7) (join_words [[97, 98], [99], [100]]) 3 = Some out
    \<and> WordsListSlice out = Some ws' \<and> mset ws' = mset [[97, 98], [99], [100]]"
  using ArrayRandom_permutes [of "[[97, 98], [99], [100]]" "\<lambda>i. 7"]
  by (simp add: word_row_def lower_letter_def numeral_3_eq_3)
end
