(* ===== verification/InternalProtocol.thy ===== *)
theory InternalProtocol
  imports ProtocolCodec
begin

text \<open>
  The stream parser of the USB protocol, \<^verbatim>\<open>src/webusb_protocol/internal_protocol_parser.c\<close>.
  Bytes are collected in a
  static buffer until a frame is complete; \<^verbatim>\<open>ProtocolParse\<close> checks it and \<^verbatim>\<open>ExecuteService\<close> calls the
  handler that the service tables name. The handlers are parameters: they act on the rest of the
  firmware's state, of type \<open>'h\<close>, and return the response frame or NULL.
\<close>

section \<open>Services\<close>

type_synonym 'h service_func = "frame_head \<Rightarrow> bytes \<Rightarrow> ('h, bytes option) prog"

record 'h protocol_service =
  ps_serviceId :: u8
  ps_commandIdNum :: nat
  ps_func :: "'h service_func option list"

definition SERVICE_ID_DEVICE_INFO :: u8 where "SERVICE_ID_DEVICE_INFO = 1"
definition SERVICE_ID_FILE_TRANS :: u8 where "SERVICE_ID_FILE_TRANS = 2"
definition SERVICE_ID_NFT_FILE_TRANS :: u8 where "SERVICE_ID_NFT_FILE_TRANS = 3"

definition COMMAND_ID_DEVICE_INFO_MAX :: nat where "COMMAND_ID_DEVICE_INFO_MAX = 3"
definition COMMAND_ID_FILE_TRANS_MAX :: nat where "COMMAND_ID_FILE_TRANS_MAX = 5"

text \<open>The table of the Web3 build, over the function tables of the three services.\<close>

definition g_ProtocolServiceList ::
  "'h service_func option list \<Rightarrow> 'h service_func option list \<Rightarrow> 'h service_func option list
     \<Rightarrow> 'h protocol_service list" where
  "g_ProtocolServiceList g_deviceInfoServiceFunc g_fileTransInfoServiceFunc g_nftFileTransInfoServiceFunc =
     [\<lparr>ps_serviceId = SERVICE_ID_DEVICE_INFO, ps_commandIdNum = COMMAND_ID_DEVICE_INFO_MAX,
        ps_func = g_deviceInfoServiceFunc\<rparr>,
      \<lparr>ps_serviceId = SERVICE_ID_FILE_TRANS, ps_commandIdNum = COMMAND_ID_FILE_TRANS_MAX,
        ps_func = g_fileTransInfoServiceFunc\<rparr>,
      \<lparr>ps_serviceId = SERVICE_ID_NFT_FILE_TRANS, ps_commandIdNum = COMMAND_ID_FILE_TRANS_MAX,
        ps_func = g_nftFileTransInfoServiceFunc\<rparr>]"

text \<open>
  The search of the table. \<open>None\<close> is a function pointer read past the end of its table (or a
  failed assertion of the handler).
\<close>

fun ExecuteService :: "'h protocol_service list \<Rightarrow> frame_head \<Rightarrow> bytes \<Rightarrow> ('h, bytes option) prog" where
  "ExecuteService [] head tlvData h = Some (None, h)"
| "ExecuteService (p # services) head tlvData h =
     (if ps_serviceId p = fh_serviceId head
      then let commandId = unat (fh_commandId head)
           in if commandId \<ge> ps_commandIdNum p then Some (None, h)
              else if commandId \<ge> length (ps_func p) then None
              else (case ps_func p ! commandId of
                      None \<Rightarrow> Some (None, h)
                    | Some f \<Rightarrow> f head tlvData h)
      else ExecuteService services head tlvData h)"

section \<open>A complete frame\<close>

text \<open>The packed head at the start of the buffer.\<close>

definition read_head :: "bytes \<Rightarrow> frame_head" where
  "read_head b =
     \<lparr>fh_head = b ! 0, fh_protocolVersion = b ! 1, fh_packetIndex = of_le16 (b ! 2) (b ! 3),
      fh_serviceId = b ! 4, fh_commandId = b ! 5, fh_flag = of_le16 (b ! 6) (b ! 7),
      fh_length = of_le16 (b ! 8) (b ! 9)\<rparr>"

definition ProtocolParse ::
  "'h protocol_service list \<Rightarrow> bytes \<Rightarrow> nat \<Rightarrow> ('h, bytes option) prog" where
  "ProtocolParse services inData inLen h =
     (if inLen < sizeof_FrameHead + 4 then Some (None, h)
      else let pHead = read_head inData
           in if fh_head pHead \<noteq> 107 then Some (None, h)
              else if fh_protocolVersion pHead \<noteq> 0 then Some (None, h)
              else if unat (fh_length pHead) + sizeof_FrameHead + 4 \<noteq> inLen then Some (None, h)
              else let receivedCrc = of_le32 (inData ! (inLen - 4)) (inData ! (inLen - 3))
                         (inData ! (inLen - 2)) (inData ! (inLen - 1));
                       calculatedCrc = crc32_ieee 0 (take (inLen - 4) inData)
                   in if receivedCrc \<noteq> calculatedCrc then Some (None, h)
                      else ExecuteService services pHead (drop sizeof_FrameHead (take inLen inData)) h)"

section \<open>The stream\<close>

definition PROTOCOL_MAX_LENGTH :: nat where
  "PROTOCOL_MAX_LENGTH = 4500"

text \<open>
  \<open>ip_sent\<close> logs the frames given to the registered send function, the latest first;
  \<open>ip_env\<close> is the state the handlers act on.
\<close>

record 'h internal_parser =
  ip_rcvCount :: nat
  ip_rcvLen :: nat
  ip_rcvBuffer :: bytes
  ip_sendFunc :: bool
  ip_sent :: "bytes list"
  ip_env :: 'h

text \<open>One iteration of the loop of \<^verbatim>\<open>InternalProtocol_Parse\<close>.\<close>

definition store_byte :: "u8 \<Rightarrow> 'h internal_parser \<Rightarrow> 'h internal_parser" where
  "store_byte b s =
     s\<lparr>ip_rcvBuffer := (ip_rcvBuffer s)[ip_rcvCount s := b], ip_rcvCount := ip_rcvCount s + 1\<rparr>"

definition parse_byte :: "'h protocol_service list \<Rightarrow> u8 \<Rightarrow> ('h internal_parser, unit) prog" where
  "parse_byte services b s =
     (if ip_rcvCount s \<ge> PROTOCOL_MAX_LENGTH then Some ((), s\<lparr>ip_rcvCount := 0, ip_rcvLen := 0\<rparr>)
      else if ip_rcvCount s = 0 then Some ((), if b = 107 then store_byte b s else s)
      else if ip_rcvCount s = 9 then
        let s = store_byte b s;
            rcvLen = unat (push_bit 8 (ucast (ip_rcvBuffer s ! 9)) + ucast (ip_rcvBuffer s ! 8) :: u32)
        in c_assert (rcvLen \<le> PROTOCOL_MAX_LENGTH - 14) (s\<lparr>ip_rcvLen := rcvLen\<rparr>)
      else if ip_rcvCount s = ip_rcvLen s + 13 then
        let s = s\<lparr>ip_rcvBuffer := (ip_rcvBuffer s)[ip_rcvCount s := b]\<rparr>
        in do { (sendBuf, h) \<leftarrow> ProtocolParse services (ip_rcvBuffer s) (ip_rcvLen s + 14) (ip_env s);
                let s = s\<lparr>ip_env := h,
                          ip_sent := (case sendBuf of None \<Rightarrow> ip_sent s | Some f \<Rightarrow> f # ip_sent s)\<rparr>;
                Some ((), s\<lparr>ip_rcvCount := 0, ip_rcvLen := 0\<rparr>) }
      else Some ((), store_byte b s))"

fun parse_bytes :: "'h protocol_service list \<Rightarrow> bytes \<Rightarrow> ('h internal_parser, unit) prog" where
  "parse_bytes services [] s = Some ((), s)"
| "parse_bytes services (b # data) s = do { (_, s) \<leftarrow> parse_byte services b s; parse_bytes services data s }"

definition InternalProtocol_Parse :: "'h protocol_service list \<Rightarrow> bytes \<Rightarrow> ('h internal_parser, unit) prog" where
  "InternalProtocol_Parse services data s =
     (if \<not> ip_sendFunc s then Some ((), s)
      else if \<not> length data \<le> PROTOCOL_MAX_LENGTH then None
      else parse_bytes services data s)"

section \<open>Framing\<close>

text \<open>
  The framing the parser implements, on the bytes collected so far instead of the static
  buffer, the two counters and whatever earlier frames left in them.
\<close>

definition announced :: "bytes \<Rightarrow> nat" where
  "announced acc = unat (fh_length (read_head acc))"

type_synonym 'h framing = "bytes \<times> bytes list \<times> 'h"

definition frame_byte :: "'h protocol_service list \<Rightarrow> u8 \<Rightarrow> ('h framing, unit) prog" where
  "frame_byte services b = (\<lambda>(acc, sent, h).
     let acc' = acc @ [b] in
     if acc = [] then Some ((), (if b = 107 then [b] else [], sent, h))
     else if length acc' = 10 then c_assert (announced acc' \<le> 4486) (acc', sent, h)
     else if 10 < length acc' \<and> length acc' = announced acc' + 14 then
       do { (r, h) \<leftarrow> ProtocolParse services acc' (length acc') h;
            Some ((), ([], case r of None \<Rightarrow> sent | Some f \<Rightarrow> f # sent, h)) }
     else Some ((), (acc', sent, h)))"

fun frame_bytes :: "'h protocol_service list \<Rightarrow> bytes \<Rightarrow> ('h framing, unit) prog" where
  "frame_bytes services [] s = Some ((), s)"
| "frame_bytes services (b # data) s = do { (_, s) \<leftarrow> frame_byte services b s; frame_bytes services data s }"

definition collected :: "'h internal_parser \<Rightarrow> 'h framing" where
  "collected s = (take (ip_rcvCount s) (ip_rcvBuffer s), ip_sent s, ip_env s)"

definition parser_inv :: "'h internal_parser \<Rightarrow> bool" where
  "parser_inv s \<longleftrightarrow> length (ip_rcvBuffer s) = PROTOCOL_MAX_LENGTH \<and>
     (ip_rcvCount s < 10 \<or>
      ip_rcvLen s = announced (take (ip_rcvCount s) (ip_rcvBuffer s)) \<and>
      ip_rcvLen s \<le> 4486 \<and> ip_rcvCount s < ip_rcvLen s + 14)"

lemma parser_inv_room: "parser_inv s \<Longrightarrow> ip_rcvCount s < PROTOCOL_MAX_LENGTH"
  by (auto simp: parser_inv_def PROTOCOL_MAX_LENGTH_def)

lemma read_head_append: "10 \<le> length b \<Longrightarrow> read_head (b @ c) = read_head b"
  by (cases b) (auto simp: read_head_def nth_append)

lemma announced_append: "10 \<le> length b \<Longrightarrow> announced (b @ c) = announced b"
  by (simp add: announced_def read_head_append)

lemma length_field:
  "unat (push_bit 8 (ucast (b ! 9)) + ucast (b ! 8) :: u32) = announced b"
proof -
  have "push_bit 8 (ucast (b ! 9)) AND (ucast (b ! 8) :: u32) = 0"
    by (rule bit_word_eqI) (auto simp: bit_simps dest: bit_u8_less)
  then have "push_bit 8 (ucast (b ! 9)) + ucast (b ! 8) = (push_bit 8 (ucast (b ! 9)) OR ucast (b ! 8) :: u32)"
    by (rule disjunctive_add_eq_or)
  also have "\<dots> = ucast (of_le16 (b ! 8) (b ! 9))"
    by (rule bit_word_eqI) (auto simp: of_le16_def bit_simps dest: bit_u8_less)
  finally show ?thesis using unsigned_less [of "of_le16 (b ! 8) (b ! 9)", where 'a = nat]
    by (simp add: announced_def read_head_def unsigned_ucast_eq take_bit_nat_eq_self)
qed

lemma take_snoc: "n < length b \<Longrightarrow> take (Suc n) (b[n := x]) = take n b @ [x]"
  by (simp add: take_Suc_conv_app_nth)

lemma ProtocolParse_take:
  assumes "inLen \<le> length b"
  shows "ProtocolParse services (take inLen b) inLen h = ProtocolParse services b inLen h"
proof (cases "inLen < 14")
  case False
  then have "read_head (take inLen b) = read_head b" by (simp add: read_head_def)
  with False show ?thesis by (simp add: ProtocolParse_def sizeof_FrameHead_def Let_def min_def)
qed (simp add: ProtocolParse_def sizeof_FrameHead_def)

definition refines :: "('h internal_parser, unit) prog \<Rightarrow> ('h framing, unit) prog \<Rightarrow> bool" where
  "refines p q \<longleftrightarrow> (\<forall>s. parser_inv s \<longrightarrow>
     (case p s of
        None \<Rightarrow> q (collected s) = None
      | Some (u, s') \<Rightarrow> q (collected s) = Some (u, collected s') \<and> parser_inv s' \<and> ip_sendFunc s' = ip_sendFunc s))"

lemma parse_byte_refines: "refines (parse_byte services b) (frame_byte services b)"
  unfolding refines_def
proof (intro allI impI)
  fix s :: "'a internal_parser"
  assume inv: "parser_inv s"
  define c where "c = ip_rcvCount s"
  have room: "c < PROTOCOL_MAX_LENGTH" using parser_inv_room [OF inv] by (simp add: c_def)
  have len: "length (ip_rcvBuffer s) = PROTOCOL_MAX_LENGTH" using inv by (simp add: parser_inv_def)
  have snoc: "take (Suc c) ((ip_rcvBuffer s)[c := b]) = take c (ip_rcvBuffer s) @ [b]"
    using room len by (simp add: take_snoc)
  have nonempty: "take c (ip_rcvBuffer s) = [] \<longleftrightarrow> c = 0" using room len by auto
  have clen: "length (take c (ip_rcvBuffer s)) = c" using room len by simp
  consider "c = 0" | "c = 9" | "c \<noteq> 0" "c < 9" | "10 \<le> c" "c = ip_rcvLen s + 13" | "10 \<le> c" "c \<noteq> ip_rcvLen s + 13"
    by linarith
  then show "case parse_byte services b s of
        None \<Rightarrow> frame_byte services b (collected s) = None
      | Some (u, s') \<Rightarrow> frame_byte services b (collected s) = Some (u, collected s') \<and> parser_inv s' \<and> ip_sendFunc s' = ip_sendFunc s"
  proof cases
    case 1
    then show ?thesis using room len snoc inv
      by (auto simp: parse_byte_def frame_byte_def collected_def store_byte_def c_def [symmetric] parser_inv_def)
  next
    case 2
    let ?b = "(ip_rcvBuffer s)[9 := b]"
    have snoc9: "take 10 ?b = take 9 (ip_rcvBuffer s) @ [b]" using snoc 2 by simp
    have "announced (take 10 ?b) = announced ?b" by (simp add: announced_def read_head_def)
    then have ann: "unat (push_bit 8 (ucast (?b ! 9)) + ucast (?b ! 8) :: u32) = announced (take 9 (ip_rcvBuffer s) @ [b])"
      unfolding length_field snoc9 by simp
    show ?thesis using 2 room len snoc9 clen nonempty ann
      by (auto simp: parse_byte_def frame_byte_def collected_def store_byte_def c_def [symmetric]
          parser_inv_def PROTOCOL_MAX_LENGTH_def c_assert_def Let_def)
  next
    case 3
    then show ?thesis using room len snoc clen nonempty
      by (auto simp: parse_byte_def frame_byte_def collected_def store_byte_def c_def [symmetric] parser_inv_def)
  next
    case 4
    let ?b = "(ip_rcvBuffer s)[c := b]"
    have ann: "announced (take c (ip_rcvBuffer s) @ [b]) = ip_rcvLen s"
      using inv 4 clen by (simp add: parser_inv_def c_def [symmetric] announced_append)
    let ?P = "ProtocolParse services (take c (ip_rcvBuffer s) @ [b]) (Suc c) (ip_env s)"
    have e: "ip_rcvLen s + 13 = c" "c \<noteq> 0" "c \<noteq> 9" using 4 by auto
    have run: "ProtocolParse services ?b (ip_rcvLen s + 14) (ip_env s) = ?P"
    proof -
      have eq: "ip_rcvLen s + 14 = Suc c" using 4 by simp
      show ?thesis unfolding eq snoc [symmetric]
        by (rule ProtocolParse_take [symmetric]) (use room len in simp)
    qed
    have conc: "parse_byte services b s = map_option (\<lambda>(r, h). ((), s\<lparr>ip_rcvBuffer := ?b, ip_env := h,
        ip_sent := (case r of None \<Rightarrow> ip_sent s | Some f \<Rightarrow> f # ip_sent s), ip_rcvCount := 0, ip_rcvLen := 0\<rparr>)) ?P"
      using e room run by (cases ?P) (simp_all add: parse_byte_def c_def [symmetric] Let_def split: prod.split option.split)
    have spec: "frame_byte services b (collected s) = map_option (\<lambda>(r, h). ((), ([],
        case r of None \<Rightarrow> ip_sent s | Some f \<Rightarrow> f # ip_sent s, h))) ?P"
      using 4 clen nonempty ann
      by (cases ?P) (auto simp: frame_byte_def collected_def c_def [symmetric] Let_def)
    show ?thesis using len unfolding conc spec
      by (cases ?P) (auto simp: collected_def parser_inv_def)
  next
    case 5
    then have "announced (take c (ip_rcvBuffer s)) = ip_rcvLen s" "ip_rcvLen s \<le> 4486" "c < ip_rcvLen s + 14"
      using inv by (auto simp: parser_inv_def c_def [symmetric])
    then show ?thesis using 5 room len snoc clen nonempty
      by (auto simp: parse_byte_def frame_byte_def collected_def store_byte_def c_def [symmetric]
          parser_inv_def announced_append Let_def)
  qed
qed

lemma parse_bytes_refines: "refines (parse_bytes services data) (frame_bytes services data)"
proof (induction data)
  case Nil
  then show ?case by (simp add: refines_def)
next
  case (Cons b data)
  show ?case
    unfolding refines_def
  proof (intro allI impI)
    fix s :: "'a internal_parser"
    assume inv: "parser_inv s"
    show "case parse_bytes services (b # data) s of
        None \<Rightarrow> frame_bytes services (b # data) (collected s) = None
      | Some (u, s') \<Rightarrow> frame_bytes services (b # data) (collected s) = Some (u, collected s')
          \<and> parser_inv s' \<and> ip_sendFunc s' = ip_sendFunc s"
    proof (cases "parse_byte services b s")
      case None
      then show ?thesis using parse_byte_refines [of services b] inv by (auto simp: refines_def)
    next
      case (Some us)
      obtain s1 where s1: "us = ((), s1)" by (cases us) auto
      have "frame_byte services b (collected s) = Some ((), collected s1)"
        and inv1: "parser_inv s1" "ip_sendFunc s1 = ip_sendFunc s"
        using parse_byte_refines [of services b] inv Some s1 by (auto simp: refines_def)
      then show ?thesis using Cons [unfolded refines_def, rule_format, OF inv1(1)] Some s1
        by (auto split: option.splits)
    qed
  qed
qed

lemma parse_bytes_append:
  "parse_bytes services (xs @ ys) s = do { (_, s) \<leftarrow> parse_bytes services xs s; parse_bytes services ys s }"
  by (induction xs arbitrary: s) (auto simp: bind_assoc split: option.split Option.bind_split)

lemma frame_bytes_append:
  "frame_bytes services (xs @ ys) s = do { (_, s) \<leftarrow> frame_bytes services xs s; frame_bytes services ys s }"
  by (induction xs arbitrary: s) (auto split: option.split Option.bind_split)

text \<open>A frame as the stream carries it: the magic byte, and a length field that matches.\<close>

definition framed :: "bytes \<Rightarrow> bool" where
  "framed f \<longleftrightarrow> hd f = 107 \<and> 14 \<le> length f \<and> announced f + 14 = length f \<and> announced f \<le> 4486"

lemma frame_bytes_prefix:
  assumes "framed f"
  shows "k < length f \<Longrightarrow> frame_bytes services (take k f) ([], sent, h) = Some ((), (take k f, sent, h))"
proof (induction k)
  case 0
  then show ?case by simp
next
  case (Suc k)
  have snoc: "take (Suc k) f = take k f @ [f ! k]" using Suc.prems by (simp add: take_Suc_conv_app_nth)
  have len: "length (take k f) = k" using Suc.prems by simp
  have ann: "announced (take k f @ [f ! k]) = announced f" if "9 \<le> k"
    using that announced_append [of "take (Suc k) f" "drop (Suc k) f", unfolded append_take_drop_id] Suc.prems
    by (simp add: snoc)
  have f0: "f ! 0 = 107" and nonempty: "f \<noteq> []" using assms by (cases f; simp add: framed_def)+
  have "frame_byte services (f ! k) (take k f, sent, h) = Some ((), (take k f @ [f ! k], sent, h))"
    using ann len assms Suc.prems f0 nonempty
    by (cases "k = 0"; cases "k = 9") (auto simp: frame_byte_def framed_def Let_def)
  then show ?case using Suc by (simp add: snoc frame_bytes_append)
qed

lemma frame_bytes_frame:
  assumes "framed f"
  shows "frame_bytes services f ([], sent, h) =
    do { (r, h) \<leftarrow> ProtocolParse services f (length f) h;
         Some ((), ([], case r of None \<Rightarrow> sent | Some f \<Rightarrow> f # sent, h)) }"
proof -
  define k where "k = length f - 1"
  have k: "k < length f" "13 \<le> k" and snoc: "f = take k f @ [f ! k]"
    using assms by (auto simp: k_def framed_def take_Suc_conv_app_nth [symmetric])
  have "frame_bytes services (take k f @ [f ! k]) ([], sent, h)
      = frame_byte services (f ! k) (take k f, sent, h) \<bind> (\<lambda>(_, s). Some ((), s))"
    by (cases "frame_byte services (f ! k) (take k f, sent, h)")
      (auto simp: frame_bytes_append frame_bytes_prefix [OF assms k(1)])
  also have "\<dots> = do { (r, h) \<leftarrow> ProtocolParse services f (length f) h;
         Some ((), ([], case r of None \<Rightarrow> sent | Some f \<Rightarrow> f # sent, h)) }"
    using k assms snoc [symmetric] by (auto simp: frame_byte_def framed_def Let_def split: option.split Option.bind_split)
  finally show ?thesis using snoc by simp
qed

section \<open>USB packets\<close>

text \<open>The calls of \<^verbatim>\<open>InternalProtocol_Parse\<close> for a sequence of USB packets.\<close>

fun feed :: "'h protocol_service list \<Rightarrow> bytes list \<Rightarrow> ('h internal_parser, unit) prog" where
  "feed services [] s = Some ((), s)"
| "feed services (data # packets) s =
     do { (_, s) \<leftarrow> InternalProtocol_Parse services data s; feed services packets s }"

lemma feed_eq:
  assumes "parser_inv s" and "ip_sendFunc s" and "\<forall>p\<in>set packets. length p \<le> PROTOCOL_MAX_LENGTH"
  shows "feed services packets s = parse_bytes services (concat packets) s"
  using assms
proof (induction packets arbitrary: s)
  case Nil
  then show ?case by simp
next
  case (Cons p packets)
  have start: "InternalProtocol_Parse services p s = parse_bytes services p s"
    using Cons.prems by (simp add: InternalProtocol_Parse_def)
  show ?case
  proof (cases "parse_bytes services p s")
    case None
    then show ?thesis by (simp add: start parse_bytes_append)
  next
    case (Some us)
    then obtain s1 where s1: "parse_bytes services p s = Some ((), s1)" by (cases us) auto
    then have "parser_inv s1" "ip_sendFunc s1"
      using parse_bytes_refines [unfolded refines_def, rule_format, OF Cons.prems(1), of services p] Cons.prems(2)
      by auto
    then show ?thesis using Cons s1 by (simp add: start parse_bytes_append)
  qed
qed

lemma feed_collected:
  assumes "parser_inv s" and "ip_sendFunc s" and "\<forall>p\<in>set packets. length p \<le> PROTOCOL_MAX_LENGTH"
  shows "map_option (collected \<circ> snd) (feed services packets s)
    = map_option snd (frame_bytes services (concat packets) (collected s))"
  using parse_bytes_refines [unfolded refines_def, rule_format, OF assms(1), of services "concat packets"]
  by (auto simp: feed_eq [OF assms] split: option.splits)

text \<open>
  C12: bytes may arrive in any pieces. A run of \<^verbatim>\<open>InternalProtocol_Parse\<close> over USB packets collects,
  checks and answers frames the way the framing does on the concatenated bytes (and fails an
  assertion exactly when the framing does), whatever stale bytes and counters earlier frames left
  behind; the counters stay consistent and the next write stays inside the static buffer.
\<close>

theorem InternalProtocol_Parse_refines:
  assumes "parser_inv s" and "ip_sendFunc s" and "\<forall>p\<in>set packets. length p \<le> PROTOCOL_MAX_LENGTH"
  shows "case feed services packets s of
      None \<Rightarrow> frame_bytes services (concat packets) (collected s) = None
    | Some (u, s') \<Rightarrow> frame_bytes services (concat packets) (collected s) = Some (u, collected s') \<and>
        parser_inv s' \<and> ip_rcvCount s' < length (ip_rcvBuffer s')"
proof -
  have "case feed services packets s of
      None \<Rightarrow> frame_bytes services (concat packets) (collected s) = None
    | Some (u, s') \<Rightarrow> frame_bytes services (concat packets) (collected s) = Some (u, collected s') \<and> parser_inv s'"
    using parse_bytes_refines [unfolded refines_def, rule_format, OF assms(1), of services "concat packets"]
    by (auto simp: feed_eq [OF assms] split: option.splits)
  moreover have "length (ip_rcvBuffer s') = PROTOCOL_MAX_LENGTH" if "parser_inv s'" for s' :: "'a internal_parser"
    using that by (simp add: parser_inv_def)
  ultimately show ?thesis by (auto simp: parser_inv_room split: option.splits)
qed

section \<open>Frames of the codec\<close>

lemma read_head_bytes: "read_head (frame_head_bytes h @ b) = h"
  by (cases h) (simp add: read_head_def frame_head_bytes_def le16_def)

lemma read_head_body: "read_head (frame_body h ts @ b) = filled_head h ts"
  by (simp add: frame_body_def read_head_bytes)

lemma announced_body:
  "frame_size ts \<le> PROTOCOL_MAX_LENGTH \<Longrightarrow> announced (frame_body h ts @ b) = frame_size ts - 14"
  by (simp add: announced_def read_head_body filled_head_def unat_of_nat PROTOCOL_MAX_LENGTH_def take_bit_nat_eq_self)

lemma framed_built:
  assumes "frame_size ts \<le> PROTOCOL_MAX_LENGTH" and "length b = 4"
  shows "framed (frame_body h ts @ b)"
proof -
  have "hd (frame_body h ts @ b) = 107"
    by (simp add: frame_body_def frame_head_bytes_def filled_head_def)
  moreover have "14 \<le> frame_size ts" by (simp add: frame_size_def)
  ultimately show ?thesis using assms
    by (simp add: framed_def announced_body length_frame_body) (simp add: PROTOCOL_MAX_LENGTH_def)
qed

lemma ProtocolParse_frame:
  assumes "framed f" and "fh_protocolVersion (read_head f) = 0"
  shows "ProtocolParse services f (length f) h =
    (if of_le32 (f ! (length f - 4)) (f ! (length f - 3)) (f ! (length f - 2)) (f ! (length f - 1))
        \<noteq> crc32_ieee 0 (take (length f - 4) f)
     then Some (None, h)
     else ExecuteService services (read_head f) (drop 10 f) h)"
proof -
  have "f ! 0 = 107" using assms(1) by (cases f; simp add: framed_def)
  then show ?thesis using assms
    by (simp add: ProtocolParse_def framed_def announced_def sizeof_FrameHead_def Let_def)
      (simp add: read_head_def)
qed

text \<open>
  C11: the host's \<^verbatim>\<open>BuildFrame\<close> and the device's parser fit together. A frame of well-formed fields
  that is at most 4500 bytes long, sent in packets of any size to an idle parser, makes exactly
  one call of \<^verbatim>\<open>ExecuteService\<close>, with the head that was sent and the encoded fields (followed by
  the CRC); its response, if any, is sent, and the parser is idle again.
\<close>

theorem BuildFrame_served:
  assumes "\<forall>t\<in>set ts. wf_tlv t" and "frame_size ts \<le> PROTOCOL_MAX_LENGTH" and "length mem = frame_size ts"
    and "parser_inv s" and "ip_sendFunc s" and "ip_rcvCount s = 0"
    and "BuildFrame mem h ts = Some (f, h')" and "concat packets = f"
    and "\<forall>p\<in>set packets. length p \<le> PROTOCOL_MAX_LENGTH"
  shows "map_option (collected \<circ> snd) (feed services packets s) =
    map_option (\<lambda>(r, env). ([], case r of None \<Rightarrow> ip_sent s | Some resp \<Rightarrow> resp # ip_sent s, env))
      (ExecuteService services h' (concat (map tlv_bytes ts) @ le32 (crc32_ieee 0 (frame_body h ts))) (ip_env s))"
proof -
  let ?c = "crc32_ieee 0 (frame_body h ts)"
  have f: "f = frame_body h ts @ le32 ?c" and h': "h' = filled_head h ts"
    using BuildFrame_eq [of ts mem h] assms(1-3,7) by (simp_all add: PROTOCOL_MAX_LENGTH_def)
  have framed: "framed f" using assms(2) by (simp add: f framed_built)
  have head: "read_head f = h'" by (simp add: f h' read_head_body)
  have len: "length f - 4 = length (frame_body h ts)" by (simp add: f)
  have crc: "of_le32 (f ! (length f - 4)) (f ! (length f - 3)) (f ! (length f - 2)) (f ! (length f - 1)) = ?c"
    by (simp add: f nth_append le32_def)
  have data: "drop 10 f = concat (map tlv_bytes ts) @ le32 ?c"
    by (simp add: f frame_body_def)
  have parse: "ProtocolParse services f (length f) (ip_env s)
      = ExecuteService services h' (concat (map tlv_bytes ts) @ le32 ?c) (ip_env s)"
    using crc len by (simp add: ProtocolParse_frame [OF framed] head data h' filled_head_def) (simp add: f)
  have idle: "collected s = ([], ip_sent s, ip_env s)" by (simp add: collected_def assms(6))
  show ?thesis
    unfolding feed_collected [OF assms(4,5,9)] assms(8) idle frame_bytes_frame [OF framed] parse
    by (cases "ExecuteService services h' (concat (map tlv_bytes ts) @ le32 ?c) (ip_env s)") auto
qed

lemma of_le32_inj:
  assumes "of_le32 a b c d = of_le32 a' b' c' d'"
  shows "a = a' \<and> b = b' \<and> c = c' \<and> d = d'"
proof -
  have parts: "ucast (of_le32 a b c d) = a" "ucast (drop_bit 8 (of_le32 a b c d)) = b"
    "ucast (drop_bit 16 (of_le32 a b c d)) = c" "ucast (drop_bit 24 (of_le32 a b c d)) = d" for a b c d
    by (rule bit_word_eqI; auto simp: of_le32_def bit_simps dest: bit_u8_less)+
  show ?thesis using parts [of a b c d] parts [of a' b' c' d'] assms by metis
qed

text \<open>
  A frame with one corrupted byte reaches no handler. If any byte of a built frame other than
  the magic byte and the two length bytes is replaced, the parser drops the frame without calling
  a handler or sending anything, and is idle again.
\<close>

theorem corrupted_frame_dropped:
  assumes "\<forall>t\<in>set ts. wf_tlv t" and "frame_size ts \<le> PROTOCOL_MAX_LENGTH" and "length mem = frame_size ts"
    and "parser_inv s" and "ip_sendFunc s" and "ip_rcvCount s = 0"
    and "BuildFrame mem h ts = Some (f, h')" and "concat packets = f[i := x]"
    and "\<forall>p\<in>set packets. length p \<le> PROTOCOL_MAX_LENGTH"
    and "i < length f" and "x \<noteq> f ! i" and "i \<noteq> 0" and "i \<noteq> 8" and "i \<noteq> 9"
  shows "map_option (collected \<circ> snd) (feed services packets s) = Some ([], ip_sent s, ip_env s)"
proof -
  let ?body = "frame_body h ts" and ?g = "f[i := x]"
  let ?c = "crc32_ieee 0 ?body" and ?n = "length f"
  have f: "f = ?body @ le32 ?c"
    using BuildFrame_eq [of ts mem h] assms(1-3,7) by (simp_all add: PROTOCOL_MAX_LENGTH_def)
  have n: "?n = length ?body + 4" by (simp add: f)
  have "framed f" using assms(2) by (simp add: f framed_built)
  moreover have "announced ?g = announced f" using assms(13,14) by (simp add: announced_def read_head_def)
  moreover have "hd ?g = hd f" using assms(12) by (cases f; cases i) auto
  ultimately have framed: "framed ?g" by (simp add: framed_def)
  have crc: "of_le32 (?g ! (?n - 4)) (?g ! (?n - 3)) (?g ! (?n - 2)) (?g ! (?n - 1)) \<noteq> crc32_ieee 0 (take (?n - 4) ?g)"
  proof (cases "i < length ?body")
    case True
    then have body: "take i ?body @ ?body ! i # drop (Suc i) ?body = ?body" by (simp add: id_take_nth_drop [symmetric])
    have "f ! i = ?body ! i" using True by (simp add: f nth_append)
    then have "crc32_ieee 0 (take i ?body @ x # drop (Suc i) ?body)
        \<noteq> crc32_ieee 0 (take i ?body @ ?body ! i # drop (Suc i) ?body)"
      using crc32.substitution_detected [OF assms(11)] by (simp add: crc32_ieee_def)
    moreover have "take (?n - 4) ?g = ?body[i := x]"
      using True by (simp add: f list_update_append)
    then have "take (?n - 4) ?g = take i ?body @ x # drop (Suc i) ?body"
      using True by (simp add: upd_conv_take_nth_drop)
    ultimately have "crc32_ieee 0 (take (?n - 4) ?g) \<noteq> ?c" by (simp add: body)
    moreover have "of_le32 (?g ! (?n - 4)) (?g ! (?n - 3)) (?g ! (?n - 2)) (?g ! (?n - 1)) = ?c"
      using True by (simp add: f nth_append le32_def list_update_append)
    ultimately show ?thesis by simp
  next
    case False
    then have "take (?n - 4) ?g = ?body" by (simp add: f list_update_append)
    moreover have "of_le32 (?g ! (?n - 4)) (?g ! (?n - 3)) (?g ! (?n - 2)) (?g ! (?n - 1)) \<noteq> ?c"
    proof
      assume "of_le32 (?g ! (?n - 4)) (?g ! (?n - 3)) (?g ! (?n - 2)) (?g ! (?n - 1)) = ?c"
      also have "?c = of_le32 (f ! (?n - 4)) (f ! (?n - 3)) (f ! (?n - 2)) (f ! (?n - 1))"
        by (simp add: f nth_append le32_def)
      finally have eq: "?g ! (?n - 4) = f ! (?n - 4) \<and> ?g ! (?n - 3) = f ! (?n - 3) \<and>
          ?g ! (?n - 2) = f ! (?n - 2) \<and> ?g ! (?n - 1) = f ! (?n - 1)"
        by (rule of_le32_inj)
      have "i = ?n - 4 \<or> i = ?n - 3 \<or> i = ?n - 2 \<or> i = ?n - 1" using False assms(10) n by linarith
      then show False using eq assms(10,11) by auto
    qed
    ultimately show ?thesis by simp
  qed
  have parse: "ProtocolParse services ?g (length ?g) (ip_env s) = Some (None, ip_env s)"
    using crc by (simp add: ProtocolParse_def Let_def)
  have idle: "collected s = ([], ip_sent s, ip_env s)" by (simp add: collected_def assms(6))
  show ?thesis
    unfolding feed_collected [OF assms(4,5,9)] assms(8) idle frame_bytes_frame [OF framed] parse
    by simp
qed

section \<open>Function tables\<close>

definition handlers_return :: "'h service_func option list \<Rightarrow> bool" where
  "handlers_return fs \<longleftrightarrow> (\<forall>f head data h. Some f \<in> set fs \<longrightarrow> f head data h \<noteq> None)"

lemma handlers_return_nth:
  "handlers_return fs \<Longrightarrow> i < length fs \<Longrightarrow> (case fs ! i of None \<Rightarrow> Some (None, h) | Some f \<Rightarrow> f head data h) \<noteq> None"
  by (cases "fs ! i") (auto simp: handlers_return_def dest: nth_mem)

text \<open>
  C27: with the function tables of the sources (three, five and four entries) and handlers that
  return, a request reads a function pointer past the end of its table exactly when it is command
  4 of the NFT service: that service is registered with the command count of the file service,
  whose table is one entry longer.
\<close>

theorem ExecuteService_overrun:
  assumes "length dev = 3" and "length files = 5" and "length nft = 4"
    and "handlers_return dev" and "handlers_return files" and "handlers_return nft"
  shows "ExecuteService (g_ProtocolServiceList dev files nft) head tlvData h = None
    \<longleftrightarrow> fh_serviceId head = SERVICE_ID_NFT_FILE_TRANS \<and> fh_commandId head = 4"
proof -
  have 4: "unat (fh_commandId head) = 4 \<longleftrightarrow> fh_commandId head = 4"
    by (simp add: word_unat_eq_iff)
  have ret: "(case fs ! i of None \<Rightarrow> Some (None, h) | Some f \<Rightarrow> f head tlvData h) \<noteq> None"
    if "handlers_return fs" "i < length fs" for fs i
    using handlers_return_nth [OF that] .
  show ?thesis
    using assms(1-3) 4 ret [OF assms(4), simplified] ret [OF assms(5), simplified] ret [OF assms(6), simplified]
    by (auto simp: ret [OF assms(4)] ret [OF assms(5)] ret [OF assms(6)] g_ProtocolServiceList_def SERVICE_ID_DEVICE_INFO_def SERVICE_ID_FILE_TRANS_def
        SERVICE_ID_NFT_FILE_TRANS_def COMMAND_ID_DEVICE_INFO_MAX_def COMMAND_ID_FILE_TRANS_MAX_def Let_def)
qed

section \<open>Instances\<close>

definition echo_func :: "nat service_func" where
  "echo_func head tlvData h = Some (Some tlvData, h + 1)"

definition example_services :: "nat protocol_service list" where
  "example_services = g_ProtocolServiceList [None, Some echo_func, Some echo_func]
     [None, Some echo_func, Some echo_func, Some echo_func, Some echo_func]
     [None, Some echo_func, Some echo_func, Some echo_func]"

definition idle_parser :: "nat internal_parser" where
  "idle_parser = \<lparr>ip_rcvCount = 0, ip_rcvLen = 0, ip_rcvBuffer = replicate PROTOCOL_MAX_LENGTH 0,
     ip_sendFunc = True, ip_sent = [], ip_env = 0\<rparr>"

lemma idle_parser_inv: "parser_inv idle_parser" "ip_sendFunc idle_parser" "ip_rcvCount idle_parser = 0"
  by (simp_all add: idle_parser_def parser_inv_def)

lemma echo_returns: "handlers_return fs" if "set fs \<subseteq> {None, Some echo_func}"
  using that by (auto simp: handlers_return_def echo_func_def)

lemma ExecuteService_overrun_witness:
  "ExecuteService example_services (example_head\<lparr>fh_serviceId := 3, fh_commandId := 4\<rparr>) [] 0 = None"
  unfolding example_services_def
  by (subst ExecuteService_overrun) (simp_all add: echo_returns SERVICE_ID_NFT_FILE_TRANS_def)

definition example_frame :: bytes where
  "example_frame = frame_body example_head example_tlvs @ le32 (crc32_ieee 0 (frame_body example_head example_tlvs))"

lemma example_built:
  "BuildFrame (replicate 21 0) example_head example_tlvs = Some (example_frame, filled_head example_head example_tlvs)"
  unfolding example_frame_def by (rule BuildFrame_eq) (simp_all add: example_tlvs_wf example_frame_size)

lemma length_example_frame: "length example_frame = 21"
  by (simp add: example_frame_def length_frame_body example_frame_size)

lemma example_packets:
  "\<forall>p\<in>set [take 7 example_frame, drop 7 example_frame]. length p \<le> PROTOCOL_MAX_LENGTH"
  by (simp add: length_example_frame PROTOCOL_MAX_LENGTH_def)

lemma InternalProtocol_Parse_refines_witness:
  "case feed example_services [[107, 0], [1]] idle_parser of
      None \<Rightarrow> frame_bytes example_services (concat [[107, 0], [1]]) (collected idle_parser) = None
    | Some (u, s') \<Rightarrow> frame_bytes example_services (concat [[107, 0], [1]]) (collected idle_parser) = Some (u, collected s') \<and>
        parser_inv s' \<and> ip_rcvCount s' < length (ip_rcvBuffer s')"
  by (rule InternalProtocol_Parse_refines) (simp_all add: idle_parser_inv PROTOCOL_MAX_LENGTH_def)

lemma BuildFrame_served_witness:
  "map_option (collected \<circ> snd) (feed example_services [take 7 example_frame, drop 7 example_frame] idle_parser)
    = Some ([], [concat (map tlv_bytes example_tlvs) @ le32 (crc32_ieee 0 (frame_body example_head example_tlvs))], 1)"
  using BuildFrame_served [OF example_tlvs_wf(1) _ _ idle_parser_inv example_built _ example_packets, of example_services]
  by (simp add: example_frame_size PROTOCOL_MAX_LENGTH_def filled_head_def example_head_def example_services_def
      g_ProtocolServiceList_def SERVICE_ID_DEVICE_INFO_def COMMAND_ID_DEVICE_INFO_MAX_def echo_func_def
      idle_parser_def)

lemma corrupted_frame_dropped_witness:
  "map_option (collected \<circ> snd) (feed example_services [example_frame[10 := 99]] idle_parser) = Some ([], [], 0)"
proof -
  have "example_frame ! 10 = 1"
    by (simp add: example_frame_def frame_body_def nth_append example_tlvs_def tlv_bytes_def tlv_len_bytes_def)
  then show ?thesis
    using corrupted_frame_dropped [OF example_tlvs_wf(1) _ _ idle_parser_inv example_built,
        of "[example_frame[10 := 99]]" 10 99 example_services]
    by (simp add: example_frame_size length_example_frame PROTOCOL_MAX_LENGTH_def) (simp add: idle_parser_def)
qed
end
