(* ===== verification/EapduProtocol.thy ===== *)
theory EapduProtocol
  imports InternalProtocol UserUtils
begin

text \<open>
  The EAPDU packet protocol, \<^verbatim>\<open>src/webusb_protocol/general/eapdu_protocol_parser.c\<close>, and the entry
  point \<^verbatim>\<open>ProtocolReceivedData\<close> of \<^verbatim>\<open>protocol_parse.c\<close>, which chooses between the two parsers. A
  request arrives in up to 200 packets, each with the command, the number of packets, its index
  and a request id; the parser stores the packets by index and calls the service of the command
  when none is missing. Responses are split into packets of at most 64 bytes.
\<close>

section \<open>Data\<close>

definition MAX_PACKETS :: nat where "MAX_PACKETS = 200"
definition MAX_PACKETS_LENGTH :: nat where "MAX_PACKETS_LENGTH = 64"
definition OFFSET_CDATA :: nat where "OFFSET_CDATA = 9"
definition MAX_EAPDU_RESPONSE_DATA_SIZE :: nat where "MAX_EAPDU_RESPONSE_DATA_SIZE = 53"

record eapdu_frame =
  ef_cla :: u8
  ef_ins :: u32
  ef_p1 :: u16
  ef_p2 :: u16
  ef_lc :: u16
  ef_data :: bytes

record eapdu_request =
  rq_cla :: u8
  rq_data :: bytes
  rq_requestID :: u16
  rq_commandType :: u32

record eapdu_response =
  rs_cla :: u8
  rs_data :: bytes
  rs_status :: u32
  rs_requestID :: u16
  rs_commandType :: u32

text \<open>
  \<open>ep_sent\<close> logs the packets given to \<^verbatim>\<open>g_sendFunc\<close>, the latest first; \<open>ep_env\<close> is the state the
  services act on.
\<close>

record 'h eapdu_parser =
  ep_rcvBuffer :: "bytes list"
  ep_packetLengths :: "u8 list"
  ep_receivedPackets :: "u8 list"
  ep_totalPackets :: u8
  ep_sent :: "bytes list"
  ep_env :: 'h

section \<open>Responses\<close>

text \<open>
  The loop of \<^verbatim>\<open>SendEApduResponse\<close> on the data that is left; \<open>packet\<close> is the buffer on the stack.
  The result lists the packets sent, the first one first.
\<close>

function response_packets :: "eapdu_response \<Rightarrow> u16 \<Rightarrow> bytes \<Rightarrow> u16 \<Rightarrow> bytes \<Rightarrow> bytes list" where
  "response_packets payload totalPackets packet packetIndex data =
     (if data = [] then []
      else
        let packetDataSize = min (length data) MAX_EAPDU_RESPONSE_DATA_SIZE;
            packet = packet[0 := rs_cla payload];
            packet = insert_16bit_value packet 1 (ucast (rs_commandType payload));
            packet = insert_16bit_value packet 3 totalPackets;
            packet = insert_16bit_value packet 5 packetIndex;
            packet = insert_16bit_value packet 7 (rs_requestID payload);
            packet = memcpy_s packet OFFSET_CDATA (MAX_PACKETS_LENGTH - OFFSET_CDATA) (take packetDataSize data);
            packet = insert_16bit_value packet (OFFSET_CDATA + packetDataSize) (ucast (rs_status payload))
        in take (OFFSET_CDATA + packetDataSize + 2) packet
           # response_packets payload totalPackets packet (packetIndex + 1) (drop packetDataSize data))"
  by pat_completeness auto
termination
  by (relation "measure (\<lambda>(payload, totalPackets, packet, packetIndex, data). length data)")
    (auto simp: MAX_EAPDU_RESPONSE_DATA_SIZE_def)

declare response_packets.simps [simp del]

definition SendEApduResponse :: "bytes \<Rightarrow> eapdu_response \<Rightarrow> bytes list" where
  "SendEApduResponse stack payload =
     (let totalPackets = of_nat ((length (rs_data payload) + MAX_EAPDU_RESPONSE_DATA_SIZE - 1)
                                 div MAX_EAPDU_RESPONSE_DATA_SIZE)
      in response_packets payload totalPackets stack 0 (rs_data payload))"

text \<open>The JSON text comes from the cJSON library: \<open>json_payload\<close> is its rendering of the object.\<close>

definition SendEApduResponseError ::
  "(string \<Rightarrow> bytes) \<Rightarrow> bytes \<Rightarrow> u8 \<Rightarrow> u32 \<Rightarrow> u16 \<Rightarrow> u32 \<Rightarrow> string \<Rightarrow> bytes list" where
  "SendEApduResponseError json_payload stack cla ins requestID status error =
     SendEApduResponse stack
       \<lparr>rs_cla = cla, rs_data = json_payload error, rs_status = status, rs_requestID = requestID,
        rs_commandType = ins\<rparr>"

section \<open>Requests\<close>

text \<open>Only the first row of the buffer is cleared: the loop passes the whole array to each \<^verbatim>\<open>memset_s\<close>.\<close>

definition free_parser :: "'h eapdu_parser \<Rightarrow> 'h eapdu_parser" where
  "free_parser s =
     s\<lparr>ep_totalPackets := 0, ep_receivedPackets := replicate MAX_PACKETS 0,
       ep_packetLengths := replicate MAX_PACKETS 0,
       ep_rcvBuffer := (ep_rcvBuffer s)[0 := replicate MAX_PACKETS_LENGTH 0]\<rparr>"

text \<open>A service acts on the rest of the firmware and may send packets.\<close>

type_synonym 'h eapdu_service = "eapdu_request \<Rightarrow> 'h \<Rightarrow> (bytes list \<times> 'h) option"

record 'h eapdu_services =
  EchoService :: "'h eapdu_service"
  ProcessURService :: "'h eapdu_service"
  CheckDeviceLockStatusService :: "'h eapdu_service"
  ExportAddressService :: "'h eapdu_service"
  GetDeviceInfoService :: "'h eapdu_service"
  GetDeviceUsbPubkeyService :: "'h eapdu_service"

definition EApduRequestHandler :: "'h eapdu_services \<Rightarrow> 'h eapdu_service" where
  "EApduRequestHandler sv request h =
     (if rq_commandType request = 1 then EchoService sv request h
      else if rq_commandType request = 2 then ProcessURService sv request h
      else if rq_commandType request = 3 then CheckDeviceLockStatusService sv request h
      else if rq_commandType request = 4 then ExportAddressService sv request h
      else if rq_commandType request = 5 then GetDeviceInfoService sv request h
      else if rq_commandType request = 6 then GetDeviceUsbPubkeyService sv request h
      else Some ([], h))"

definition send_packets :: "bytes list \<Rightarrow> 'h eapdu_parser \<Rightarrow> 'h eapdu_parser" where
  "send_packets ps s = s\<lparr>ep_sent := rev ps @ ep_sent s\<rparr>"

datatype parser_status =
  FRAME_INVALID_LENGTH | UNKNOWN_COMMAND | FRAME_INDEX_ERROR | FRAME_TOTAL_ERROR | DUPLICATE_FRAME
| FRAME_CHECKSUM_OK

text \<open>The error responses are built by \<open>err\<close>, given the frame, the status and the message.\<close>

definition CheckFrameValidity ::
  "(eapdu_frame \<Rightarrow> u32 \<Rightarrow> string \<Rightarrow> bytes list) \<Rightarrow> eapdu_frame \<Rightarrow> 'h eapdu_parser
     \<Rightarrow> parser_status \<times> 'h eapdu_parser" where
  "CheckFrameValidity err eapduFrame s =
     (if unat (ef_p1 eapduFrame) > MAX_PACKETS
      then (FRAME_TOTAL_ERROR,
            free_parser (send_packets (err eapduFrame 2 ''Invalid total number of packets'') s))
      else if ef_p2 eapduFrame \<ge> ef_p1 eapduFrame
      then (FRAME_INDEX_ERROR, free_parser (send_packets (err eapduFrame 3 ''Invalid packet index'') s))
      else if ep_receivedPackets s ! unat (ef_p2 eapduFrame) \<noteq> 0 then (DUPLICATE_FRAME, s)
      else (FRAME_CHECKSUM_OK, s))"

definition FrameParser :: "bytes \<Rightarrow> eapdu_frame option" where
  "FrameParser frame =
     (if length frame < OFFSET_CDATA then None
      else Some \<lparr>ef_cla = frame ! 0, ef_ins = ucast (extract_16bit_value frame 1),
                 ef_p1 = extract_16bit_value frame 3, ef_p2 = extract_16bit_value frame 5,
                 ef_lc = extract_16bit_value frame 7, ef_data = drop OFFSET_CDATA frame\<rparr>)"

text \<open>The packets in index order, each cut to its recorded length.\<close>

definition full_data :: "'h eapdu_parser \<Rightarrow> bytes" where
  "full_data s =
     concat (map (\<lambda>i. take (unat (ep_packetLengths s ! i)) (ep_rcvBuffer s ! i))
       [0..<unat (ep_totalPackets s)])"

definition EApduProtocolParse ::
  "(eapdu_frame \<Rightarrow> u32 \<Rightarrow> string \<Rightarrow> bytes list) \<Rightarrow> 'h eapdu_services \<Rightarrow> bytes
     \<Rightarrow> ('h eapdu_parser, unit) prog" where
  "EApduProtocolParse err sv frame s =
     (if length frame < 4 then Some ((), free_parser s)
      else case FrameParser frame of
        None \<Rightarrow> Some ((), s)
      | Some f \<Rightarrow>
          let (status, s) = CheckFrameValidity err f s
          in if status \<noteq> FRAME_CHECKSUM_OK then Some ((), s)
             else do {
               s \<leftarrow> (if ef_p2 f = 0 \<and> ep_totalPackets s = 0
                     then (let s = s\<lparr>ep_totalPackets := ucast (ef_p1 f)\<rparr>
                           in if \<not> unat (ep_totalPackets s) \<le> MAX_PACKETS then None
                              else Some (s\<lparr>ep_receivedPackets := replicate MAX_PACKETS 0\<rparr>))
                     else Some s);
               _ \<leftarrow> (if length (ef_data f) \<le> MAX_PACKETS_LENGTH \<and> unat (ef_p2 f) < MAX_PACKETS
                     then Some () else None);
               let i = unat (ef_p2 f);
               let s = s\<lparr>ep_rcvBuffer := (ep_rcvBuffer s)[i := memcpy_s (ep_rcvBuffer s ! i) 0 MAX_PACKETS_LENGTH (ef_data f)],
                         ep_packetLengths := (ep_packetLengths s)[i := of_nat (length (ef_data f))],
                         ep_receivedPackets := (ep_receivedPackets s)[i := 1]\<rparr>;
               if \<exists>i\<in>set [0..<unat (ep_totalPackets s)]. ep_receivedPackets s ! i = 0 then Some ((), s)
               else do {
                 (sent, h) \<leftarrow> EApduRequestHandler sv
                    \<lparr>rq_cla = ef_cla f, rq_data = full_data s, rq_requestID = ef_lc f, rq_commandType = ef_ins f\<rparr>
                    (ep_env s);
                 Some ((), free_parser (send_packets sent (s\<lparr>ep_env := h\<rparr>))) } })"

section \<open>Reassembly\<close>

text \<open>Packet \<open>i\<close> of a request of the data \<open>chunks\<close>, as the host sends it.\<close>

definition be16 :: "u16 \<Rightarrow> bytes" where
  "be16 w = [ucast (drop_bit 8 w), ucast w]"

definition request_packet :: "u8 \<Rightarrow> u16 \<Rightarrow> u16 \<Rightarrow> bytes list \<Rightarrow> nat \<Rightarrow> bytes" where
  "request_packet cla ins lc chunks i =
     [cla] @ be16 ins @ be16 (of_nat (length chunks)) @ be16 (of_nat i) @ be16 lc @ chunks ! i"

lemma extract_be16:
  "extract_16bit_value (pre @ be16 w @ post) (length pre) = w"
  by (rule bit_word_eqI) (auto simp: extract_16bit_value_def be16_def nth_append bit_simps)

lemma FrameParser_request_packet:
  "FrameParser (request_packet cla ins lc chunks i) = Some \<lparr>ef_cla = cla, ef_ins = ucast ins,
     ef_p1 = of_nat (length chunks), ef_p2 = of_nat i, ef_lc = lc, ef_data = chunks ! i\<rparr>"
proof -
  let ?p = "request_packet cla ins lc chunks i"
  let ?n = "of_nat (length chunks) :: u16" and ?i = "of_nat i :: u16"
  have "extract_16bit_value ?p 1 = ins"
    using extract_be16 [of "[cla]" ins] by (simp add: request_packet_def)
  moreover have "extract_16bit_value ?p 3 = ?n"
    using extract_be16 [of "[cla] @ be16 ins" ?n] by (simp add: request_packet_def be16_def eval_nat_numeral)
  moreover have "extract_16bit_value ?p 5 = ?i"
    using extract_be16 [of "[cla] @ be16 ins @ be16 ?n" ?i] by (simp add: request_packet_def be16_def eval_nat_numeral)
  moreover have "extract_16bit_value ?p 7 = lc"
    using extract_be16 [of "[cla] @ be16 ins @ be16 ?n @ be16 ?i" lc] by (simp add: request_packet_def be16_def eval_nat_numeral)
  ultimately show ?thesis
    by (simp add: FrameParser_def OFFSET_CDATA_def) (simp add: request_packet_def be16_def)
qed

text \<open>The buffers have their declared sizes.\<close>

definition eapdu_inv :: "'h eapdu_parser \<Rightarrow> bool" where
  "eapdu_inv s \<longleftrightarrow> length (ep_rcvBuffer s) = MAX_PACKETS \<and> length (ep_packetLengths s) = MAX_PACKETS \<and>
     length (ep_receivedPackets s) = MAX_PACKETS \<and> unat (ep_totalPackets s) \<le> MAX_PACKETS \<and>
     (\<forall>r\<in>set (ep_rcvBuffer s). length r = MAX_PACKETS_LENGTH)"

lemma eapdu_inv_free: "eapdu_inv s \<Longrightarrow> eapdu_inv (free_parser s)"
  by (auto simp: eapdu_inv_def free_parser_def dest!: set_update_subset_insert [THEN subsetD])

lemma eapdu_inv_send: "eapdu_inv s \<Longrightarrow> eapdu_inv (send_packets ps s)"
  by (simp add: eapdu_inv_def send_packets_def)

text \<open>\<open>holding chunks S s\<close>: exactly the packets of \<open>S\<close> have been stored.\<close>

definition holding :: "bytes list \<Rightarrow> nat set \<Rightarrow> 'h eapdu_parser \<Rightarrow> bool" where
  "holding chunks S s \<longleftrightarrow> eapdu_inv s \<and>
     ep_totalPackets s = (if S = {} then 0 else of_nat (length chunks)) \<and>
     (\<forall>i<MAX_PACKETS. ep_receivedPackets s ! i = (if i \<in> S then 1 else 0)) \<and>
     (\<forall>i\<in>S. take (length (chunks ! i)) (ep_rcvBuffer s ! i) = chunks ! i \<and>
            ep_packetLengths s ! i = of_nat (length (chunks ! i)))"

definition sendable :: "bytes list \<Rightarrow> bool" where
  "sendable chunks \<longleftrightarrow> 0 < length chunks \<and> length chunks \<le> MAX_PACKETS \<and>
     (\<forall>c\<in>set chunks. length c \<le> MAX_PACKETS_LENGTH)"

definition request_of :: "u8 \<Rightarrow> u16 \<Rightarrow> u16 \<Rightarrow> bytes list \<Rightarrow> eapdu_request" where
  "request_of cla ins lc chunks =
     \<lparr>rq_cla = cla, rq_data = concat chunks, rq_requestID = lc, rq_commandType = ucast ins\<rparr>"

lemma holding_duplicate:
  assumes "holding chunks S s" and "sendable chunks" and "i \<in> S" and "i < length chunks"
  shows "EApduProtocolParse err sv (request_packet cla ins lc chunks i) s = Some ((), s)"
proof -
  have "unat (of_nat (length chunks) :: u16) = length chunks" "unat (of_nat i :: u16) = i"
    using assms by (auto simp: sendable_def MAX_PACKETS_def unat_of_nat take_bit_nat_eq_self)
  moreover have "\<not> length (request_packet cla ins lc chunks i) < 4"
    by (simp add: request_packet_def be16_def)
  ultimately show ?thesis using assms
    by (simp add: EApduProtocolParse_def FrameParser_request_packet CheckFrameValidity_def word_le_nat_alt
        sendable_def holding_def)
qed

text \<open>The state after the packet is stored, before the check for missing packets.\<close>

definition stored :: "bytes list \<Rightarrow> nat \<Rightarrow> 'h eapdu_parser \<Rightarrow> 'h eapdu_parser" where
  "stored chunks i s =
     s\<lparr>ep_totalPackets := of_nat (length chunks),
       ep_rcvBuffer := (ep_rcvBuffer s)[i := buf_write (ep_rcvBuffer s ! i) 0 (chunks ! i)],
       ep_packetLengths := (ep_packetLengths s)[i := of_nat (length (chunks ! i))],
       ep_receivedPackets := (ep_receivedPackets s)[i := 1]\<rparr>"

lemma full_data_stored:
  assumes "holding chunks {..<length chunks} s" and "sendable chunks"
  shows "full_data s = concat chunks"
proof -
  have n: "unat (ep_totalPackets s) = length chunks"
    using assms by (auto simp: holding_def sendable_def MAX_PACKETS_def unat_of_nat take_bit_nat_eq_self)
  have "take (unat (ep_packetLengths s ! i)) (ep_rcvBuffer s ! i) = chunks ! i" if "i < length chunks" for i
  proof -
    have "length (chunks ! i) < 256"
      using assms(2) nth_mem [OF that] by (force simp: sendable_def MAX_PACKETS_LENGTH_def)
    then show ?thesis using assms(1) that by (simp add: holding_def unat_of_nat take_bit_nat_eq_self)
  qed
  then have "map (\<lambda>i. take (unat (ep_packetLengths s ! i)) (ep_rcvBuffer s ! i)) [0..<length chunks]
      = map ((!) chunks) [0..<length chunks]"
    by (intro map_cong) auto
  then show ?thesis by (simp add: full_data_def n map_nth)
qed

lemma holding_stored:
  assumes "holding chunks S s" and "sendable chunks" and "i \<notin> S" and "i < length chunks"
    and "S \<subseteq> {..<length chunks}"
  shows "holding chunks (insert i S) (stored chunks i s)"
proof -
  have n: "length chunks \<le> 200" and i: "i < MAX_PACKETS" and c: "length (chunks ! i) \<le> MAX_PACKETS_LENGTH"
    using assms(2,4) nth_mem [OF assms(4)] by (auto simp: sendable_def MAX_PACKETS_def)
  have row: "length (ep_rcvBuffer s ! i) = MAX_PACKETS_LENGTH"
    using assms(1) i by (simp add: holding_def eapdu_inv_def)
  have "eapdu_inv (stored chunks i s)"
    using assms(1) n c row
    by (auto simp: holding_def eapdu_inv_def stored_def length_buf_write unat_of_nat take_bit_nat_eq_self
        MAX_PACKETS_def dest!: set_update_subset_insert [THEN subsetD])
  moreover have "take (length (chunks ! i)) (buf_write (ep_rcvBuffer s ! i) 0 (chunks ! i)) = chunks ! i"
    by (simp add: buf_write_def)
  ultimately show ?thesis
    using assms(1,3,5) i by (auto simp: holding_def stored_def eapdu_inv_def nth_list_update)
qed

lemma parse_stored:
  assumes "holding chunks S s" and "sendable chunks" and "i \<notin> S" and "i < length chunks"
    and "S \<subseteq> {..<length chunks}" and "S = {} \<longrightarrow> i = 0"
  shows "EApduProtocolParse err sv (request_packet cla ins lc chunks i) s =
    (if insert i S \<noteq> {..<length chunks} then Some ((), stored chunks i s)
     else do { (sent, h) \<leftarrow> EApduRequestHandler sv (request_of cla ins lc chunks) (ep_env s);
               Some ((), free_parser (send_packets sent ((stored chunks i s)\<lparr>ep_env := h\<rparr>))) })"
proof -
  let ?n = "length chunks"
  have n: "0 < ?n" "?n \<le> 200" and i: "i < MAX_PACKETS" and c: "length (chunks ! i) \<le> MAX_PACKETS_LENGTH"
    using assms(2,4) nth_mem [OF assms(4)] by (auto simp: sendable_def MAX_PACKETS_def)
  have w16: "unat (of_nat ?n :: u16) = ?n" "unat (of_nat i :: u16) = i" and w8: "unat (of_nat ?n :: u8) = ?n"
    using n assms(4) by (auto simp: unat_of_nat take_bit_nat_eq_self)
  have held: "holding chunks (insert i S) (stored chunks i s)"
    by (rule holding_stored) (use assms in auto)
  have recv: "ep_receivedPackets s ! i = 0" and row: "length (ep_rcvBuffer s ! i) = MAX_PACKETS_LENGTH"
    using assms(1,3) i by (auto simp: holding_def eapdu_inv_def)
  have fresh: "ep_receivedPackets s = replicate MAX_PACKETS 0" if "S = {}"
    using assms(1) that by (intro nth_equalityI) (auto simp: holding_def eapdu_inv_def)
  have total: "ep_totalPackets s = (if S = {} then 0 else of_nat ?n)" using assms(1) by (simp add: holding_def)
  have zero: "(of_nat i :: u16) = 0 \<longleftrightarrow> i = 0" unfolding word_unat_eq_iff w16 by simp
  have nz: "(of_nat ?n :: u8) \<noteq> 0" unfolding word_unat_eq_iff w8 using n by simp
  have start: "(if (of_nat i :: u16) = 0 \<and> ep_totalPackets s = 0
      then Some (s\<lparr>ep_totalPackets := of_nat ?n, ep_receivedPackets := replicate MAX_PACKETS 0\<rparr>)
      else Some s) = Some (s\<lparr>ep_totalPackets := of_nat ?n\<rparr>)"
    using total zero nz assms(6) fresh by (cases "S = {}") auto
  have missing: "(\<exists>j\<in>set [0..<?n]. ep_receivedPackets (stored chunks i s) ! j = 0)
      \<longleftrightarrow> insert i S \<noteq> {..<?n}"
  proof -
    have "ep_receivedPackets (stored chunks i s) ! j = (if j \<in> insert i S then 1 else 0)" if "j < ?n" for j
      using held that n by (simp add: holding_def MAX_PACKETS_def)
    moreover have "insert i S \<subseteq> {..<?n}" using assms by auto
    ultimately show ?thesis by (auto split: if_splits)
  qed
  have full: "full_data (stored chunks i s) = concat chunks" if "insert i S = {..<?n}"
    using full_data_stored [of chunks "stored chunks i s"] held that assms(2) by simp
  let ?f = "\<lparr>ef_cla = cla, ef_ins = ucast ins, ef_p1 = of_nat ?n, ef_p2 = of_nat i, ef_lc = lc, ef_data = chunks ! i\<rparr>"
  have ok: "CheckFrameValidity err ?f s = (FRAME_CHECKSUM_OK, s)"
    using n assms(4) recv by (simp add: CheckFrameValidity_def w16 word_le_nat_alt MAX_PACKETS_def)
  have len: "\<not> length (request_packet cla ins lc chunks i) < 4"
    by (simp add: request_packet_def be16_def)
  have u8: "(ucast (of_nat ?n :: u16) :: u8) = of_nat ?n"
    by (simp add: unsigned_of_nat word_of_nat_eq_iff)
  have start': "(if (of_nat i :: u16) = 0 \<and> ep_totalPackets s = 0
      then (let s = s\<lparr>ep_totalPackets := ucast (of_nat ?n :: u16)\<rparr>
            in if \<not> unat (ep_totalPackets s) \<le> MAX_PACKETS then None
               else Some (s\<lparr>ep_receivedPackets := replicate MAX_PACKETS 0\<rparr>))
      else Some s) = Some (s\<lparr>ep_totalPackets := of_nat ?n\<rparr>)"
    using start n w8 by (simp add: u8 Let_def MAX_PACKETS_def cong: if_cong)
  have copy: "memcpy_s (ep_rcvBuffer s ! i) 0 MAX_PACKETS_LENGTH (chunks ! i) = buf_write (ep_rcvBuffer s ! i) 0 (chunks ! i)"
    using c row by (simp add: memcpy_s_fits)
  have put: "s\<lparr>ep_totalPackets := of_nat ?n\<rparr>\<lparr>ep_rcvBuffer := (ep_rcvBuffer (s\<lparr>ep_totalPackets := of_nat ?n\<rparr>))[i :=
        memcpy_s (ep_rcvBuffer (s\<lparr>ep_totalPackets := of_nat ?n\<rparr>) ! i) 0 MAX_PACKETS_LENGTH (chunks ! i)],
      ep_packetLengths := (ep_packetLengths (s\<lparr>ep_totalPackets := of_nat ?n\<rparr>))[i := of_nat (length (chunks ! i))],
      ep_receivedPackets := (ep_receivedPackets (s\<lparr>ep_totalPackets := of_nat ?n\<rparr>))[i := 1]\<rparr> = stored chunks i s"
    by (simp add: stored_def copy)
  have tot: "unat (ep_totalPackets (stored chunks i s)) = ?n" and env: "ep_env (stored chunks i s) = ep_env s"
    by (simp_all add: stored_def w8)
  have "EApduProtocolParse err sv (request_packet cla ins lc chunks i) s =
    (if \<exists>j\<in>set [0..<?n]. ep_receivedPackets (stored chunks i s) ! j = 0 then Some ((), stored chunks i s)
     else do { (sent, h) \<leftarrow> EApduRequestHandler sv
                 \<lparr>rq_cla = cla, rq_data = full_data (stored chunks i s), rq_requestID = lc, rq_commandType = ucast ins\<rparr>
                 (ep_env s);
               Some ((), free_parser (send_packets sent ((stored chunks i s)\<lparr>ep_env := h\<rparr>))) })"
    using len c i
    by (simp only: EApduProtocolParse_def FrameParser_request_packet option.case eapdu_frame.simps ok
        prod.case Let_def if_False if_True simp_thms start'[unfolded Let_def] put tot env w16 bind.bind_lunit)
  then show ?thesis unfolding missing using full by (simp add: request_of_def)
qed

fun parse_packets ::
  "(eapdu_frame \<Rightarrow> u32 \<Rightarrow> string \<Rightarrow> bytes list) \<Rightarrow> 'h eapdu_services \<Rightarrow> bytes list
     \<Rightarrow> ('h eapdu_parser, unit) prog" where
  "parse_packets err sv [] s = Some ((), s)"
| "parse_packets err sv (p # packets) s =
     do { (_, s) \<leftarrow> EApduProtocolParse err sv p s; parse_packets err sv packets s }"

lemma parse_packets_append:
  "parse_packets err sv (xs @ ys) s = do { (_, s) \<leftarrow> parse_packets err sv xs s; parse_packets err sv ys s }"
  by (induction xs arbitrary: s) (auto split: Option.bind_split)

lemma parse_incomplete:
  assumes "sendable chunks" and "holding chunks S s" and "S \<subseteq> {..<length chunks}"
    and "set order \<subseteq> {..<length chunks}" and "S \<union> set order \<noteq> {..<length chunks}"
    and "S = {} \<longrightarrow> (case order of [] \<Rightarrow> True | i # _ \<Rightarrow> i = 0)"
  shows "\<exists>s'. parse_packets err sv (map (request_packet cla ins lc chunks) order) s = Some ((), s') \<and>
    holding chunks (S \<union> set order) s' \<and> ep_sent s' = ep_sent s \<and> ep_env s' = ep_env s"
  using assms(2-)
proof (induction order arbitrary: S s)
  case Nil
  then show ?case by simp
next
  case (Cons i order)
  have i: "i < length chunks" using Cons.prems by auto
  show ?case
  proof (cases "i \<in> S")
    case True
    then have "S \<noteq> {}" and abs: "S \<union> set (i # order) = S \<union> set order" by auto
    then show ?thesis
      using Cons.IH [of S s] Cons.prems unfolding abs
      by (simp add: holding_duplicate [OF Cons.prems(1) assms(1) True i])
  next
    case False
    have neq: "insert i S \<noteq> {..<length chunks}"
    proof
      assume "insert i S = {..<length chunks}"
      then have "S \<union> set (i # order) = {..<length chunks}" using Cons.prems(3) by auto
      then show False using Cons.prems(4) by blast
    qed
    have "EApduProtocolParse err sv (request_packet cla ins lc chunks i) s = Some ((), stored chunks i s)"
      and "holding chunks (insert i S) (stored chunks i s)"
      using parse_stored [OF Cons.prems(1) assms(1) False i] holding_stored [OF Cons.prems(1) assms(1) False i]
        Cons.prems neq by auto
    then show ?thesis using Cons.IH [of "insert i S" "stored chunks i s"] Cons.prems i
      by (simp add: stored_def)
  qed
qed

lemma holding_empty:
  "eapdu_inv s \<Longrightarrow> ep_totalPackets s = 0 \<Longrightarrow> ep_receivedPackets s = replicate MAX_PACKETS 0 \<Longrightarrow> holding chunks {} s"
  by (simp add: holding_def)

text \<open>
  C16: an EAPDU request is reassembled from its packets. From an idle parser, the packets of a
  request of at most 200 chunks of at most 64 bytes, the packet with index 0 first and the others
  in any order and with repetitions, make exactly one call of the request handler, at the packet
  that completes the request, with the chunks in index order; then the parser is idle again and
  has sent only what the handler sent.
\<close>

theorem EApdu_reassembly:
  assumes "sendable chunks" and "eapdu_inv s" and "ep_totalPackets s = 0"
    and "ep_receivedPackets s = replicate MAX_PACKETS 0"
    and "hd (order @ [k]) = 0" and "k \<notin> set order" and "insert k (set order) = {..<length chunks}"
  shows "map_option (\<lambda>(_, s'). (ep_sent s', ep_env s', ep_totalPackets s', ep_receivedPackets s'))
      (parse_packets err sv (map (request_packet cla ins lc chunks) (order @ [k])) s) =
    map_option (\<lambda>(sent, h). (rev sent @ ep_sent s, h, 0, replicate MAX_PACKETS 0))
      (EApduRequestHandler sv (request_of cla ins lc chunks) (ep_env s))"
proof -
  have k: "k < length chunks" and sub: "set order \<subseteq> {..<length chunks}" using assms(7) by auto
  have "{} \<union> set order \<noteq> {..<length chunks}" using assms(6) k by auto
  moreover have "case order of [] \<Rightarrow> True | i # _ \<Rightarrow> i = 0" using assms(5) by (cases order) auto
  ultimately obtain s' where s': "parse_packets err sv (map (request_packet cla ins lc chunks) order) s = Some ((), s')"
      "holding chunks (set order) s'" "ep_sent s' = ep_sent s" "ep_env s' = ep_env s"
    using parse_incomplete [OF assms(1) holding_empty [OF assms(2-4)] _ sub, of err sv cla ins lc] by auto
  have "set order = {} \<longrightarrow> k = 0" using assms(5) by auto
  note last = parse_stored [OF s'(2) assms(1,6) k sub this, of err sv cla ins lc]
  show ?thesis
    using assms(7) s'
    by (cases "EApduRequestHandler sv (request_of cla ins lc chunks) (ep_env s)")
      (auto simp: parse_packets_append last free_parser_def send_packets_def stored_def)
qed

section \<open>Splitting a response\<close>

lemma length_be16 [simp]: "length (be16 w) = 2"
  by (simp add: be16_def)

lemma ucast_take_bit_8: "(ucast (take_bit 8 w) :: u8) = ucast w"
  by (rule bit_word_eqI) (simp add: bit_simps)

lemma insert_16bit_write:
  "i + 2 \<le> length b \<Longrightarrow> insert_16bit_value b i v = buf_write b i (be16 v)"
  using buf_write_append [of i "[ucast (drop_bit 8 v)]" "[ucast v]" b]
    list_update_buf_write [of i b "ucast (drop_bit 8 v)"]
    list_update_buf_write [of "Suc i" "b[i := ucast (drop_bit 8 v)]" "ucast v"]
  by (simp add: insert_16bit_value_def be16_def and_255_take_bit ucast_take_bit_8 length_buf_write)

definition response_packet :: "eapdu_response \<Rightarrow> u16 \<Rightarrow> u16 \<Rightarrow> bytes \<Rightarrow> bytes" where
  "response_packet payload totalPackets packetIndex chunk =
     [rs_cla payload] @ be16 (ucast (rs_commandType payload)) @ be16 totalPackets @ be16 packetIndex
     @ be16 (rs_requestID payload) @ chunk @ be16 (ucast (rs_status payload))"

function chunks_of :: "nat \<Rightarrow> 'a list \<Rightarrow> 'a list list" where
  "chunks_of n xs = (if xs = [] \<or> n = 0 then [] else take n xs # chunks_of n (drop n xs))"
  by pat_completeness auto
termination by (relation "measure (length \<circ> snd)") auto

declare chunks_of.simps [simp del]

lemma concat_chunks_of: "0 < n \<Longrightarrow> concat (chunks_of n xs) = xs"
  by (induction n xs rule: chunks_of.induct) (subst chunks_of.simps, auto)

lemma length_chunks_of: "0 < n \<Longrightarrow> length (chunks_of n xs) = (length xs + n - 1) div n"
proof (induction n xs rule: chunks_of.induct)
  case (1 n xs)
  show ?case
  proof (cases "xs = []")
    case True
    then show ?thesis using 1 by (subst chunks_of.simps) simp
  next
    case False
    then have "length xs + n - 1 = length xs - 1 + n" by (cases xs) auto
    moreover have "(length xs - 1 + n) div n = Suc ((length xs - 1) div n)"
      using 1(2) by (simp only: div_add_self2)
    ultimately have "(length xs + n - 1) div n = Suc ((length xs - 1) div n)" by metis
    moreover have "(length xs - n + n - 1) div n = (length xs - 1) div n" if "n \<le> length xs"
      using that by simp
    moreover have "(length xs - 1) div n = 0" "(n - 1) div n = 0" if "length xs \<le> n"
      using that 1(2) False by (cases xs; simp)+
    moreover have "length (chunks_of n xs) = Suc (length (chunks_of n (drop n xs)))"
      using False 1(2) by (subst chunks_of.simps) simp
    moreover have "length (chunks_of n (drop n xs)) = (length xs - n + n - 1) div n"
      using 1 False by simp
    ultimately show ?thesis using False by (cases "n \<le> length xs") simp_all
  qed
qed

lemma chunks_of_bound: "c \<in> set (chunks_of n xs) \<Longrightarrow> c \<noteq> [] \<and> length c \<le> n"
proof (induction n xs rule: chunks_of.induct)
  case (1 n xs)
  from 1(2) have "xs \<noteq> [] \<and> n \<noteq> 0 \<and> (c = take n xs \<or> c \<in> set (chunks_of n (drop n xs)))"
    by (subst (asm) chunks_of.simps) (simp split: if_splits)
  with 1(1) show ?case by auto
qed

lemma buf_write_extend:
  "length xs = i \<Longrightarrow> i + length ys \<le> length b \<Longrightarrow> buf_write (buf_write b 0 xs) i ys = buf_write b 0 (xs @ ys)"
  using buf_write_append [of 0 xs ys b] by auto

lemma insert_16bit_extend:
  "length xs = i \<Longrightarrow> i + 2 \<le> length b \<Longrightarrow>
   insert_16bit_value (buf_write b 0 xs) i v = buf_write b 0 (xs @ be16 v)"
  by (simp add: insert_16bit_write length_buf_write buf_write_extend length_be16)

fun indexed :: "('i::{one,plus} \<Rightarrow> 'a \<Rightarrow> 'b) \<Rightarrow> 'i \<Rightarrow> 'a list \<Rightarrow> 'b list" where
  "indexed f i [] = []"
| "indexed f i (x # xs) = f i x # indexed f (i + 1) xs"

lemma length_indexed [simp]: "length (indexed f i xs) = length xs"
  by (induction f i xs rule: indexed.induct) simp_all

lemma nth_indexed:
  fixes i :: "'i::semiring_1"
  shows "k < length xs \<Longrightarrow> indexed f i xs ! k = f (i + of_nat k) (xs ! k)"
proof (induction xs arbitrary: i k)
  case (Cons x xs)
  then show ?case by (cases k) (simp_all add: add.assoc)
qed simp

lemma response_packets_eq:
  "length packet = 64 \<Longrightarrow>
   response_packets payload tot packet idx data =
     indexed (response_packet payload tot) idx (chunks_of 53 data)"
proof (induction payload tot packet idx data rule: response_packets.induct)
  case (1 payload tot packet idx data)
  show ?case
  proof (cases "data = []")
    case True
    then show ?thesis by (subst response_packets.simps, subst chunks_of.simps) simp
  next
    case False
    define n where "n = min (length data) 53"
    have n: "0 < n" "n \<le> 53" "length (take n data) = n" using False by (auto simp: n_def)
    let ?w = "response_packet payload tot idx (take n data)"
    define packet' where "packet' = buf_write packet 0 ?w"
    have fill: "insert_16bit_value (memcpy_s (insert_16bit_value (insert_16bit_value (insert_16bit_value
       (insert_16bit_value (packet[0 := rs_cla payload]) 1 (ucast (rs_commandType payload))) 3 tot) 5 idx)
       7 (rs_requestID payload)) 9 (64 - 9) (take n data)) (9 + n) (ucast (rs_status payload)) = packet'"
    proof -
      have "packet[0 := rs_cla payload] = buf_write packet 0 [rs_cla payload]"
        using 1(2) by (intro list_update_buf_write) simp
      then show ?thesis using 1(2) n
        by (simp add: insert_16bit_extend memcpy_s_fits length_buf_write buf_write_extend
            packet'_def response_packet_def)
    qed
    have wlen: "length ?w = 9 + n + 2" using n by (simp add: response_packet_def)
    have len: "length packet' = 64" using 1(2) n wlen by (simp add: packet'_def length_buf_write)
    have w: "take (9 + n + 2) packet' = ?w" using wlen by (simp add: packet'_def buf_write_def)
    have rest: "drop n data = drop 53 data" "take n data = take 53 data" by (auto simp: n_def min_def)
    have "response_packets payload tot packet idx data
        = ?w # response_packets payload tot packet' (idx + 1) (drop n data)"
      using False by (subst response_packets.simps)
        (simp only: Let_def MAX_EAPDU_RESPONSE_DATA_SIZE_def MAX_PACKETS_LENGTH_def OFFSET_CDATA_def
          n_def [symmetric] if_False fill w)
    moreover have "chunks_of 53 data = take n data # chunks_of 53 (drop n data)"
      using False by (subst chunks_of.simps) (simp add: rest)
    moreover have "response_packets payload tot packet' (idx + 1) (drop n data)
        = indexed (response_packet payload tot) (idx + 1) (chunks_of 53 (drop n data))"
      by (rule 1(1) [OF False, of n "packet[0 := rs_cla payload]"])
        (simp_all add: n_def MAX_EAPDU_RESPONSE_DATA_SIZE_def len 1(2) length_memcpy_s
          fill [symmetric] MAX_PACKETS_LENGTH_def OFFSET_CDATA_def)
    ultimately show ?thesis by simp
  qed
qed

definition response_chunks :: "eapdu_response \<Rightarrow> bytes list" where
  "response_chunks payload = chunks_of 53 (rs_data payload)"

text \<open>
  \<^verbatim>\<open>SendEApduResponse\<close> cuts the response into chunks of at most 53 bytes that are, one after
  the other, the data; packet \<open>i\<close> holds chunk \<open>i\<close> between a header with the number of packets and
  the index \<open>i\<close> and the status, is at most 64 bytes long, and nothing in it depends on what the
  packet buffer on the stack held before.
\<close>

theorem SendEApduResponse_packets:
  assumes "length stack = 64"
  shows "SendEApduResponse stack payload
      = map (\<lambda>i. response_packet payload (of_nat (length (response_chunks payload))) (of_nat i) (response_chunks payload ! i)) [0..<length (response_chunks payload)]
    \<and> concat (response_chunks payload) = rs_data payload
    \<and> (\<forall>p\<in>set (SendEApduResponse stack payload). length p \<le> MAX_PACKETS_LENGTH)"
proof -
  let ?cs = "response_chunks payload"
  have send: "SendEApduResponse stack payload
      = map (\<lambda>i. response_packet payload (of_nat (length ?cs)) (of_nat i) (?cs ! i)) [0..<length ?cs]"
    using response_packets_eq [OF assms(1)]
    by (intro nth_equalityI)
      (simp_all add: SendEApduResponse_def Let_def MAX_EAPDU_RESPONSE_DATA_SIZE_def response_chunks_def
        length_chunks_of nth_indexed)
  have "length (response_packet payload t i (?cs ! j)) \<le> MAX_PACKETS_LENGTH" if "j < length ?cs" for t i j
    using chunks_of_bound [of "?cs ! j" 53 "rs_data payload"] nth_mem [OF that]
    by (simp add: response_chunks_def response_packet_def MAX_PACKETS_LENGTH_def)
  then show ?thesis by (simp add: send) (simp add: response_chunks_def concat_chunks_of)
qed

text \<open>
  The parser has no defence against a request that starts with another packet than the first:
  from an idle parser, a packet with a non-zero index calls the handler at once, with the command
  and request id of the packet and with no data at all, because zero packets are awaited.
\<close>

theorem EApdu_later_packet_first:
  assumes "sendable chunks" and "eapdu_inv s" and "ep_totalPackets s = 0"
    and "ep_receivedPackets s = replicate MAX_PACKETS 0" and "0 < i" and "i < length chunks"
  shows "map_option (\<lambda>(_, s'). (ep_sent s', ep_env s'))
      (EApduProtocolParse err sv (request_packet cla ins lc chunks i) s) =
    map_option (\<lambda>(sent, h). (rev sent @ ep_sent s, h))
      (EApduRequestHandler sv
        \<lparr>rq_cla = cla, rq_data = [], rq_requestID = lc, rq_commandType = ucast ins\<rparr> (ep_env s))"
proof -
  let ?n = "length chunks"
  have n: "?n \<le> 200" and i: "i < 200" and c: "length (chunks ! i) \<le> MAX_PACKETS_LENGTH"
    using assms nth_mem [OF assms(6)] by (auto simp: sendable_def MAX_PACKETS_def)
  have w16: "unat (of_nat ?n :: u16) = ?n" "unat (of_nat i :: u16) = i"
    using n i by (auto simp: unat_of_nat take_bit_nat_eq_self)
  have nz: "(of_nat i :: u16) \<noteq> 0" using assms(5) by (simp add: word_unat_eq_iff w16)
  let ?f = "\<lparr>ef_cla = cla, ef_ins = ucast ins, ef_p1 = of_nat ?n, ef_p2 = of_nat i, ef_lc = lc, ef_data = chunks ! i\<rparr>"
  have ok: "CheckFrameValidity err ?f s = (FRAME_CHECKSUM_OK, s)"
    using n i assms(4,6) by (simp add: CheckFrameValidity_def w16 word_le_nat_alt MAX_PACKETS_def)
  have len: "\<not> length (request_packet cla ins lc chunks i) < 4"
    by (simp add: request_packet_def be16_def)
  show ?thesis
    using len ok c i nz assms(3)
    by (cases "EApduRequestHandler sv \<lparr>rq_cla = cla, rq_data = [], rq_requestID = lc, rq_commandType = ucast ins\<rparr> (ep_env s)")
      (auto simp: EApduProtocolParse_def FrameParser_request_packet w16 MAX_PACKETS_def full_data_def
        free_parser_def send_packets_def)
qed

section \<open>The entry point\<close>

text \<open>
  \<^verbatim>\<open>ProtocolReceivedData\<close> (of the builds with both parsers): a packet that starts with 0 goes to the
  EAPDU parser unless a file is being received. The stream parser forgets a frame that pauses for
  more than 500 ticks; ticks are 32-bit and wrap. The state is \<^verbatim>\<open>lastTick\<close> and the two parsers
  (the EAPDU parser's \<^verbatim>\<open>rcvCount\<close> is never changed from 0).
\<close>

definition PROTOCOL_PARSE_OVERTIME :: u32 where
  "PROTOCOL_PARSE_OVERTIME = 500"

definition RegisterSendFunc :: "'h internal_parser \<Rightarrow> 'h internal_parser" where
  "RegisterSendFunc s = s\<lparr>ip_sendFunc := True\<rparr>"

definition ProtocolReceivedData ::
  "(eapdu_frame \<Rightarrow> u32 \<Rightarrow> string \<Rightarrow> bytes list) \<Rightarrow> 'g eapdu_services \<Rightarrow> 'h protocol_service list
     \<Rightarrow> bool \<Rightarrow> u32 \<Rightarrow> bytes \<Rightarrow> (u32 \<times> 'h internal_parser \<times> 'g eapdu_parser, unit) prog" where
  "ProtocolReceivedData err sv services isReceivingFile tick data = (\<lambda>(lastTick, ip, ep).
     if data ! 0 = 0 \<and> \<not> isReceivingFile
     then do { (_, ep) \<leftarrow> EApduProtocolParse err sv data ep; Some ((), (tick, ip, ep)) }
     else
       let ip = (if ip_rcvCount ip \<noteq> 0 \<and> tick - lastTick > PROTOCOL_PARSE_OVERTIME
                 then ip\<lparr>ip_rcvCount := 0\<rparr> else ip)
       in do { (_, ip) \<leftarrow> InternalProtocol_Parse services data (RegisterSendFunc ip);
               Some ((), (tick, ip, ep)) })"

text \<open>
  The two parsers recover from each other and from lost bytes. Whatever fragment of a frame
  the stream parser holds, a complete well-framed frame that arrives in one packet more than 500
  ticks after the last packet is checked and dispatched on its own, and the EAPDU parser's state is
  not touched.
\<close>

theorem stale_fragment_dropped:
  assumes "framed f" and "length f \<le> PROTOCOL_MAX_LENGTH" and "parser_inv ip"
    and "tick - lastTick > PROTOCOL_PARSE_OVERTIME"
  shows "map_option (\<lambda>(_, t, ip', ep'). (t, collected ip', ep'))
      (ProtocolReceivedData err sv services isReceivingFile tick f (lastTick, ip, ep)) =
    map_option (\<lambda>(r, h). (tick, ([], case r of None \<Rightarrow> ip_sent ip | Some resp \<Rightarrow> resp # ip_sent ip, h), ep))
      (ProtocolParse services f (length f) (ip_env ip))"
proof -
  define s where "s = RegisterSendFunc (if ip_rcvCount ip \<noteq> 0 \<and> tick - lastTick > PROTOCOL_PARSE_OVERTIME
                 then ip\<lparr>ip_rcvCount := 0\<rparr> else ip)"
  have f0: "f ! 0 = 107" using assms(1) by (cases f; simp add: framed_def)
  have s: "parser_inv s" "ip_sendFunc s" "collected s = ([], ip_sent ip, ip_env ip)"
    using assms(3,4) by (auto simp: s_def RegisterSendFunc_def parser_inv_def collected_def)
  have "map_option (collected \<circ> snd) (InternalProtocol_Parse services f s)
      = map_option snd (frame_bytes services f ([], ip_sent ip, ip_env ip))"
    using feed_collected [OF s(1,2), of "[f]" services] assms(2) s(3)
    by (cases "InternalProtocol_Parse services f s") auto
  moreover have "ProtocolReceivedData err sv services isReceivingFile tick f (lastTick, ip, ep)
      = do { (_, ip) \<leftarrow> InternalProtocol_Parse services f s; Some ((), (tick, ip, ep)) }"
    by (simp add: ProtocolReceivedData_def f0 s_def Let_def)
  ultimately show ?thesis
    by (cases "InternalProtocol_Parse services f s"; cases "ProtocolParse services f (length f) (ip_env ip)")
      (auto simp: frame_bytes_frame [OF assms(1)])
qed

section \<open>Instances\<close>

definition count_service :: "nat eapdu_service" where
  "count_service request h = Some ([rq_data request], h + 1)"

definition example_eapdu :: "nat eapdu_services" where
  "example_eapdu = \<lparr>EchoService = count_service, ProcessURService = count_service,
     CheckDeviceLockStatusService = count_service, ExportAddressService = count_service,
     GetDeviceInfoService = count_service, GetDeviceUsbPubkeyService = count_service\<rparr>"

definition idle_eapdu :: "nat eapdu_parser" where
  "idle_eapdu = \<lparr>ep_rcvBuffer = replicate MAX_PACKETS (replicate MAX_PACKETS_LENGTH 0),
     ep_packetLengths = replicate MAX_PACKETS 0, ep_receivedPackets = replicate MAX_PACKETS 0,
     ep_totalPackets = 0, ep_sent = [], ep_env = 0\<rparr>"

lemma idle_eapdu_inv: "eapdu_inv idle_eapdu" "ep_totalPackets idle_eapdu = 0"
  "ep_receivedPackets idle_eapdu = replicate MAX_PACKETS 0"
  by (simp_all add: idle_eapdu_def eapdu_inv_def)

lemma example_sendable: "sendable [[1, 2], [3], [4]]"
  by (simp add: sendable_def MAX_PACKETS_def MAX_PACKETS_LENGTH_def)

lemma EApdu_reassembly_witness:
  "map_option (\<lambda>(_, s'). (ep_sent s', ep_env s', ep_totalPackets s', ep_receivedPackets s'))
      (parse_packets (\<lambda>_ _ _. []) example_eapdu
        (map (request_packet 0 1 9 [[1, 2], [3], [4]]) ([0, 2, 2] @ [1])) idle_eapdu)
    = Some ([[1, 2, 3, 4]], 1, 0, replicate MAX_PACKETS 0)"
  using EApdu_reassembly [OF example_sendable idle_eapdu_inv, of "[0, 2, 2]" 1 "\<lambda>_ _ _. []" example_eapdu 0 1 9]
  by (auto simp: EApduRequestHandler_def request_of_def example_eapdu_def count_service_def idle_eapdu_def
      lessThan_Suc eval_nat_numeral)

lemma EApdu_later_packet_first_witness:
  "map_option (\<lambda>(_, s'). (ep_sent s', ep_env s'))
      (EApduProtocolParse (\<lambda>_ _ _. []) example_eapdu (request_packet 0 1 9 [[1, 2], [3], [4]] 1) idle_eapdu)
    = Some ([[]], 1)"
  using EApdu_later_packet_first [OF example_sendable idle_eapdu_inv, of 1 "\<lambda>_ _ _. []" example_eapdu 0 1 9]
  by (simp add: EApduRequestHandler_def example_eapdu_def count_service_def idle_eapdu_def)

lemma SendEApduResponse_packets_witness:
  "concat (response_chunks \<lparr>rs_cla = 0, rs_data = replicate 60 7, rs_status = 0, rs_requestID = 1, rs_commandType = 1\<rparr>)
      = replicate 60 7
   \<and> list_all (\<lambda>p. length p \<le> MAX_PACKETS_LENGTH) (SendEApduResponse (replicate 64 0)
        \<lparr>rs_cla = 0, rs_data = replicate 60 7, rs_status = 0, rs_requestID = 1, rs_commandType = 1\<rparr>)"
  using SendEApduResponse_packets [of "replicate 64 0"
      "\<lparr>rs_cla = 0, rs_data = replicate 60 7, rs_status = 0, rs_requestID = 1, rs_commandType = 1\<rparr>"]
  by (simp add: list_all_iff)

lemma stale_fragment_dropped_witness:
  "map_option (\<lambda>(_, t, ip', ep'). (t, collected ip', ep'))
      (ProtocolReceivedData (\<lambda>_ _ _. []) example_eapdu example_services False 1000 example_frame
        (0, idle_parser\<lparr>ip_rcvCount := 5\<rparr>, idle_eapdu)) =
    map_option (\<lambda>(r, h). (1000, ([], case r of None \<Rightarrow> [] | Some resp \<Rightarrow> [resp], h), idle_eapdu))
      (ProtocolParse example_services example_frame (length example_frame) 0)"
proof -
  have "framed example_frame"
    unfolding example_frame_def by (rule framed_built) (simp_all add: example_frame_size PROTOCOL_MAX_LENGTH_def)
  moreover have "length example_frame \<le> PROTOCOL_MAX_LENGTH"
    by (simp add: length_example_frame PROTOCOL_MAX_LENGTH_def)
  moreover have "parser_inv (idle_parser\<lparr>ip_rcvCount := 5\<rparr>)"
    by (simp add: idle_parser_def parser_inv_def)
  ultimately show ?thesis
    using stale_fragment_dropped [of example_frame "idle_parser\<lparr>ip_rcvCount := 5\<rparr>" 1000 0
        "\<lambda>_ _ _. []" example_eapdu example_services False idle_eapdu]
    by (simp add: PROTOCOL_PARSE_OVERTIME_def idle_parser_def cong: option.case_cong)
qed
end
