(* ===== verification/Rs1024.thy ===== *)
theory Rs1024
  imports Crc
begin

text \<open>
  The RS1024 checksum of SLIP-39 mnemonics, \<^verbatim>\<open>src/crypto/slip39/rs1024.c\<close>: three ten-bit words
  of a Reed-Solomon code over GF(1024). Words are kept in 16 bits, the state in 32 bits of which 30
  are used.
\<close>

section \<open>Definitions\<close>

definition generator :: "u32 list" where
  "generator = [14737472, 29474944, 58949888, 117899776, 234749961, 470557714, 940076068, 814808136,
     565311632, 66318624]"

definition customization_non_extendable :: bytes where
  "customization_non_extendable = [115, 104, 97, 109, 105, 114]"

definition customization_extendable :: bytes where
  "customization_extendable =
     [115, 104, 97, 109, 105, 114, 95, 101, 120, 116, 101, 110, 100, 97, 98, 108, 101]"

text \<open>The loop over the generator: its state is \<open>chk\<close> and \<open>b\<close>.\<close>

fun generator_loop :: "u32 list \<Rightarrow> u32 \<Rightarrow> u32 \<Rightarrow> u32" where
  "generator_loop [] chk b = chk"
| "generator_loop (g # gs) chk b = generator_loop gs (chk XOR g * (b AND 1)) (drop_bit 1 b)"

definition rs1024_step :: "u32 \<Rightarrow> u32 \<Rightarrow> u32" where
  "rs1024_step chk v =
     (let b = drop_bit 20 chk
      in generator_loop generator (push_bit 10 (chk AND 1048575) XOR v) b)"

definition rs1024_polymod_inner :: "u16 list \<Rightarrow> bytes \<Rightarrow> u32" where
  "rs1024_polymod_inner values customization =
     foldl (\<lambda>chk v. rs1024_step chk (ucast v))
       (foldl (\<lambda>chk c. rs1024_step chk (ucast c)) 1 customization) values"

definition rs1024_polymod :: "u16 list \<Rightarrow> bool \<Rightarrow> u32" where
  "rs1024_polymod values extendable_backup_flag =
     (if extendable_backup_flag then rs1024_polymod_inner values customization_extendable
      else rs1024_polymod_inner values customization_non_extendable)"

definition rs1024_create_checksum :: "u16 list \<Rightarrow> bool \<Rightarrow> u16 list" where
  "rs1024_create_checksum values extendable_backup_flag =
     (let n = length values;
          values = values[n - 3 := 0, n - 2 := 0, n - 1 := 0];
          polymod = rs1024_polymod values extendable_backup_flag XOR 1
      in values[n - 3 := ucast (drop_bit 20 polymod AND 1023),
                n - 2 := ucast (drop_bit 10 polymod AND 1023),
                n - 1 := ucast (polymod AND 1023)])"

definition rs1024_verify_checksum :: "u16 list \<Rightarrow> bool \<Rightarrow> bool" where
  "rs1024_verify_checksum values extendable_backup_flag =
     (rs1024_polymod values extendable_backup_flag = 1)"

section \<open>The step is linear and loses nothing\<close>

definition gterm :: "u32 \<Rightarrow> u32 \<Rightarrow> nat \<Rightarrow> u32" where
  "gterm g b j = (if bit b j then g else 0)"

fun gmix :: "u32 list \<Rightarrow> u32 \<Rightarrow> nat \<Rightarrow> u32" where
  "gmix [] b j = 0"
| "gmix (g # gs) b j = gterm g b j XOR gmix gs b (Suc j)"

lemma generator_loop_gmix: "generator_loop gs chk (drop_bit j b) = chk XOR gmix gs b j"
proof (induction gs arbitrary: chk j)
  case Nil
  show ?case by simp
next
  case (Cons g gs)
  have "g * (drop_bit j b AND 1) = gterm g b j"
    by (simp add: gterm_def and_one_eq mod2_eq_if bit_iff_odd_drop_bit)
  then show ?case using Cons [of _ "Suc j"]
    by (simp only: generator_loop.simps gmix.simps xor.assoc drop_bit_drop_bit) (simp add: xor.assoc)
qed

definition mix :: "u32 \<Rightarrow> u32" where
  "mix b = gmix generator b 0"

lemma mix_eq:
  "mix b = gterm 14737472 b 0 XOR gterm 29474944 b 1 XOR gterm 58949888 b 2 XOR gterm 117899776 b 3
    XOR gterm 234749961 b 4 XOR gterm 470557714 b 5 XOR gterm 940076068 b 6 XOR gterm 814808136 b 7
    XOR gterm 565311632 b 8 XOR gterm 66318624 b 9"
  by (simp add: mix_def generator_def eval_nat_numeral xor.assoc)

lemma generator_loop_mix: "generator_loop generator chk b = chk XOR mix b"
  using generator_loop_gmix [of generator chk 0 b] unfolding mix_def drop_bit_0 by simp

lemma mix_xor: "mix (a XOR b) = mix a XOR mix b"
proof -
  have "gterm g (a XOR b) j = gterm g a j XOR gterm g b j" for g j
    by (simp add: gterm_def bit_xor_iff)
  then show ?thesis by (simp only: mix_eq xor.assoc xor.commute xor.left_commute)
qed

lemma mask20: "(w :: u32) AND 1048575 = take_bit 20 w"
  by (simp add: take_bit_eq_mask mask_eq_exp_minus_1)

lemma mask10: "(w :: 'a::len word) AND 1023 = take_bit 10 w"
  by (simp add: take_bit_eq_mask mask_eq_exp_minus_1)

lemma rs1024_step_eq:
  "rs1024_step chk v = push_bit 10 (take_bit 20 chk) XOR mix (drop_bit 20 chk) XOR v"
  by (simp only: rs1024_step_def Let_def generator_loop_mix mask20 xor.assoc xor.commute xor.left_commute)

lemma rs1024_step_xor: "rs1024_step (a XOR b) (v XOR w) = rs1024_step a v XOR rs1024_step b w"
  by (simp only: rs1024_step_eq take_bit_xor push_bit_xor drop_bit_xor mix_xor xor.assoc xor.commute xor.left_commute)

lemma rs1024_step_0: "rs1024_step 0 v = v"
  by (simp add: rs1024_step_eq mix_eq gterm_def)

lemma bit_mix_low:
  "bit (mix b) 0 = bit b 4" "bit (mix b) 1 = bit b 5" "bit (mix b) 2 = bit b 6"
  "bit (mix b) 3 = (bit b 4 \<noteq> bit b 7)" "bit (mix b) 4 = (bit b 5 \<noteq> bit b 8)"
  "bit (mix b) 5 = (bit b 6 \<noteq> bit b 9)" "bit (mix b) 6 = (bit b 0 \<noteq> bit b 7)"
  "bit (mix b) 7 = (bit b 1 \<noteq> bit b 8)" "bit (mix b) 8 = (bit b 2 \<noteq> bit b 9)" 
  "bit (mix b) 9 = bit b 3"
  by (simp_all add: mix_eq gterm_def bit_xor_iff)

lemma bit_mix_high: "bit (mix b) n \<Longrightarrow> n < 30"
proof -
  have "\<not> bit (mix b) 30" "\<not> bit (mix b) 31"
    by (simp_all add: mix_eq gterm_def bit_xor_iff)
  moreover assume "bit (mix b) n"
  moreover from this have "n < 32" using bit_imp_le_length by fastforce
  ultimately show "n < 30" by (cases "n = 30"; cases "n = 31") auto
qed

definition state30 :: "u32 \<Rightarrow> bool" where
  "state30 c \<longleftrightarrow> (\<forall>n. bit c n \<longrightarrow> n < 30)"

definition ten_bits :: "'a::len word \<Rightarrow> bool" where
  "ten_bits v \<longleftrightarrow> (\<forall>n. bit v n \<longrightarrow> n < 10)"

lemma rs1024_step_state: "ten_bits v \<Longrightarrow> state30 (rs1024_step c v)"
  by (auto simp: state30_def rs1024_step_eq ten_bits_def bit_simps dest: bit_mix_high)

lemma rs1024_step_kernel:
  assumes "state30 d" and "rs1024_step d 0 = 0"
  shows "d = 0"
proof -
  have eq: "push_bit 10 (take_bit 20 d) = mix (drop_bit 20 d)"
    using assms(2) by (simp add: rs1024_step_eq xor_eq_0)
  have low: "\<not> bit (mix (drop_bit 20 d)) k" if "k < 10" for k
    using that by (simp add: eq [symmetric] bit_simps)
  have "\<not> bit (drop_bit 20 d) k" if "k < 10" for k
  proof -
    have "k \<in> {0, 1, 2, 3, 4, 5, 6, 7, 8, 9}" using that by auto
    then show ?thesis
      using low [of 0] low [of 1] low [of 2] low [of 3] low [of 4] low [of 5] low [of 6] low [of 7] low [of 8] low [of 9]
      by (auto simp: bit_mix_low bit_mix_low(2) [unfolded One_nat_def])
  qed
  then have "drop_bit 20 d = 0"
    using assms(1) by (intro bit_word_eqI) (auto simp: state30_def bit_simps)
  moreover from this eq have shifted: "push_bit 10 (take_bit 20 d) = 0"
    by (simp add: mix_eq gterm_def)
  have "take_bit 20 d = 0"
  proof (rule bit_word_eqI)
    fix n
    have "bit (take_bit 20 d) n \<longleftrightarrow> n < 20 \<and> bit (push_bit 10 (take_bit 20 d)) (10 + n)"
      by (auto simp: bit_simps)
    then show "bit (take_bit 20 d) n = bit 0 n" by (simp add: shifted)
  qed
  ultimately show "d = 0"
    using take_bit_xor_drop_bit [of d 20] by simp
qed

lemma state30_xor: "state30 a \<Longrightarrow> state30 b \<Longrightarrow> state30 (a XOR b)"
  by (auto simp: state30_def bit_xor_iff)

lemma rs1024_step_inj:
  assumes "state30 a" and "state30 b" and "rs1024_step a v = rs1024_step b v"
  shows "a = b"
proof -
  have "rs1024_step (a XOR b) 0 = 0"
    using assms(3) rs1024_step_xor [of a b v v] by simp
  then show ?thesis using rs1024_step_kernel [of "a XOR b"] assms(1,2) by (simp add: state30_xor xor_eq_0)
qed

section \<open>The checksum interface with a restricted state\<close>

text \<open>
  A checksum whose step is injective on the states it can reach and on the symbols it is used
  with. Every checksum of the byte interface is one, with no restriction.
\<close>

locale symbol_checksum =
  fixes step :: "'s \<Rightarrow> 'b \<Rightarrow> 's" and state :: "'s \<Rightarrow> bool" and symbol :: "'b \<Rightarrow> bool"
  assumes step_closed: "symbol b \<Longrightarrow> state (step s b)"
    and step_state: "state s \<Longrightarrow> state t \<Longrightarrow> step s b = step t b \<Longrightarrow> s = t"
    and step_symbol: "step s b = step s c \<Longrightarrow> b = c"
begin

lemma fold_closed: "state s \<Longrightarrow> \<forall>b\<in>set xs. symbol b \<Longrightarrow> state (foldl step s xs)"
  by (induction xs arbitrary: s) (auto intro: step_closed)

lemma fold_inj:
  "state s \<Longrightarrow> state t \<Longrightarrow> \<forall>b\<in>set xs. symbol b \<Longrightarrow> foldl step s xs = foldl step t xs \<Longrightarrow> s = t"
proof (induction xs arbitrary: s t)
  case (Cons b xs)
  have "step s b = step t b" by (rule Cons.IH) (use Cons.prems in \<open>auto intro: step_closed\<close>)
  with Cons.prems(1,2) show ?case by (rule step_state)
qed simp

lemma symbol_substitution:
  assumes "state s" and "\<forall>x\<in>set (xs @ b # ys). symbol x" and "symbol c" and "b \<noteq> c"
  shows "foldl step s (xs @ b # ys) \<noteq> foldl step s (xs @ c # ys)"
proof
  let ?s = "foldl step s xs"
  assume "foldl step s (xs @ b # ys) = foldl step s (xs @ c # ys)"
  then have "step ?s b = step ?s c"
    by (intro fold_inj [of "step ?s b" "step ?s c" ys]) (use assms in \<open>auto intro: step_closed\<close>)
  with assms(4) show False by (blast dest: step_symbol)
qed

end

sublocale byte_checksum \<subseteq> symbol_checksum step "\<lambda>_. True" "\<lambda>_. True"
  by unfold_locales (simp_all, blast dest: step_state, blast dest: step_byte)

lemma ten_bits_less: "v < 1024 \<Longrightarrow> ten_bits (v :: u16)"
  using word_bit_below [of v 10] by (simp add: ten_bits_def word_less_nat_alt)

lemma ten_bits_ucast: "ten_bits (v :: u16) \<Longrightarrow> ten_bits (ucast v :: u32)"
  by (auto simp: ten_bits_def bit_simps)

lemma ten_bits_mask: "ten_bits (ucast (w AND 1023 :: u32) :: u16)"
  by (auto simp: ten_bits_def mask10 bit_simps)

lemma ucast_u16_u32_inj: "(ucast (v :: u16) :: u32) = ucast w \<Longrightarrow> v = w"
proof (rule bit_word_eqI)
  fix n assume "(ucast v :: u32) = ucast w" "n < LENGTH(16)"
  then have "bit (ucast v :: u32) n = bit (ucast w :: u32) n" by simp
  then show "bit v n = bit w n" using \<open>n < LENGTH(16)\<close> by (simp add: bit_simps)
qed

interpretation rs1024: symbol_checksum "\<lambda>chk v. rs1024_step chk (ucast (v :: u16))" state30 ten_bits
proof unfold_locales
  fix s and b c :: u16
  assume "rs1024_step s (ucast b) = rs1024_step s (ucast c)"
  then have "(ucast b :: u32) = ucast c" by (simp add: rs1024_step_eq)
  then show "b = c" by (rule ucast_u16_u32_inj)
next
  fix s t and b :: u16
  assume "state30 s" "state30 t" "rs1024_step s (ucast b) = rs1024_step t (ucast b)"
  then show "s = t" by (rule rs1024_step_inj)
qed (simp add: rs1024_step_state ten_bits_ucast)

section \<open>Creating and verifying\<close>

lemma rs1024_step_split: "rs1024_step c v = rs1024_step c 0 XOR v"
  using rs1024_step_xor [of c 0 0 v] by (simp add: rs1024_step_0)

lemma rs1024_step_small: "(\<And>n. bit w n \<Longrightarrow> n < 20) \<Longrightarrow> rs1024_step w 0 = push_bit 10 w"
proof -
  assume small: "\<And>n. bit w n \<Longrightarrow> n < 20"
  have "take_bit 20 w = w" "drop_bit 20 w = 0"
    by (rule bit_word_eqI; auto simp: bit_simps dest: small)+
  then show ?thesis by (simp add: rs1024_step_eq mix_eq gterm_def)
qed

lemma rs1024_three_steps:
  assumes "ten_bits a" and "ten_bits b"
  shows "rs1024_step (rs1024_step (rs1024_step c a) b) d
    = rs1024_step (rs1024_step (rs1024_step c 0) 0) 0 XOR (push_bit 20 a XOR push_bit 10 b XOR d)"
proof -
  have a: "rs1024_step a 0 = push_bit 10 a" "rs1024_step b 0 = push_bit 10 b"
    using assms by (auto intro!: rs1024_step_small simp: ten_bits_def less_trans)
  have a': "rs1024_step (push_bit 10 a) 0 = push_bit 20 a"
    using assms(1) by (subst rs1024_step_small) (auto simp: ten_bits_def bit_simps less_diff_conv)
  have "rs1024_step (rs1024_step c a) b = rs1024_step (rs1024_step c 0) 0 XOR (push_bit 10 a XOR b)"
    using rs1024_step_xor [of "rs1024_step c 0" a 0 b] a rs1024_step_split [of a b] rs1024_step_split [of c a]
    by simp
  then show ?thesis
    using rs1024_step_xor [of "rs1024_step (rs1024_step c 0) 0" "push_bit 10 a XOR b" 0 d]
      rs1024_step_xor [of "push_bit 10 a" b 0 d] rs1024_step_split [of b d] a a'
    by (simp add: xor.assoc)
qed

lemma split_30:
  assumes "state30 p"
  shows "push_bit 20 (take_bit 10 (drop_bit 20 p)) XOR push_bit 10 (take_bit 10 (drop_bit 10 p)) XOR take_bit 10 p = p"
proof (rule bit_word_eqI)
  fix n assume "n < LENGTH(32)"
  then show "bit (push_bit 20 (take_bit 10 (drop_bit 20 p)) XOR push_bit 10 (take_bit 10 (drop_bit 10 p)) XOR take_bit 10 p) n = bit p n"
    using assms by (cases "n < 10"; cases "n < 20") (auto simp: state30_def bit_simps)
qed

definition polymod_start :: "bool \<Rightarrow> u32" where
  "polymod_start flag = rs1024_polymod [] flag"

lemma rs1024_polymod_foldl:
  "rs1024_polymod values flag = foldl (\<lambda>chk v. rs1024_step chk (ucast v)) (polymod_start flag) values"
  by (simp add: rs1024_polymod_def rs1024_polymod_inner_def polymod_start_def)

lemma polymod_start_state: "state30 (polymod_start flag)"
proof -
  have byte: "ten_bits (ucast (c :: u8) :: u32)" for c
  proof -
    have "n < 10" if "bit c n" for n using bit_u8_less [OF that] by simp
    then show ?thesis by (auto simp: ten_bits_def bit_simps)
  qed
  have "state30 s \<Longrightarrow> state30 (foldl (\<lambda>chk c. rs1024_step chk (ucast c)) s cs)" for s and cs :: bytes
    by (induction cs arbitrary: s) (simp_all add: rs1024_step_state byte)
  moreover have "state30 1" by (auto simp: state30_def bit_1_iff)
  ultimately show ?thesis
    by (simp add: polymod_start_def rs1024_polymod_def rs1024_polymod_inner_def)
qed

lemma ucast_ten_bits_u16: "(ucast (ucast (take_bit 10 w :: u32) :: u16) :: u32) = take_bit 10 w"
  by (rule bit_word_eqI) (auto simp: bit_simps)

lemma last_three:
  "3 \<le> length xs \<Longrightarrow> \<exists>a b c. xs = take (length xs - 3) xs @ [a, b, c]"
proof -
  assume len: "3 \<le> length xs"
  then have "length (drop (length xs - 3) xs) = 3" by simp
  moreover have "length ys = 3 \<Longrightarrow> \<exists>a b c. ys = [a, b, c]" for ys :: "'a list"
    by (auto simp: length_Suc_conv numeral_3_eq_3)
  ultimately obtain a b c where "drop (length xs - 3) xs = [a, b, c]" by blast
  then show ?thesis by (metis append_take_drop_id)
qed

lemma update_last_three:
  assumes "length pre = n - 3" and "3 \<le> n"
  shows "(pre @ [a, b, c])[n - 3 := x, n - 2 := y, n - 1 := z] = pre @ [x, y, z]"
proof -
  have "n - 3 = length pre" "n - 2 = Suc (length pre)" "n - 1 = Suc (Suc (length pre))"
    using assms by auto
  then show ?thesis by (simp only:) (simp add: list_update_append)
qed

lemma rs1024_create_valid:
  assumes "3 \<le> length values"
  shows "rs1024_verify_checksum (rs1024_create_checksum values flag) flag"
proof -
  define n pre where "n = length values" and "pre = take (n - 3) values"
  obtain a b c where vs: "values = pre @ [a, b, c]"
    using assms last_three [of "values"] by (auto simp: pre_def n_def)
  have pre: "length pre = n - 3" "3 \<le> n" using assms by (auto simp: pre_def n_def)
  note upd = update_last_three [OF pre]
  let ?step = "\<lambda>chk v. rs1024_step chk (ucast v)"
  define e where "e = foldl ?step (polymod_start flag) pre"
  define S where "S = rs1024_step (rs1024_step (rs1024_step e 0) 0) 0"
  have p: "state30 (S XOR 1)"
  proof -
    have "state30 S" by (simp add: S_def rs1024_step_state ten_bits_def)
    moreover have "state30 1" by (auto simp: state30_def bit_1_iff)
    ultimately show ?thesis by (rule state30_xor)
  qed
  have "rs1024_polymod (pre @ [0, 0, 0]) flag = S"
    by (simp add: rs1024_polymod_foldl S_def e_def)
  then have created: "rs1024_create_checksum values flag = pre @ [ucast (take_bit 10 (drop_bit 20 (S XOR 1))),
      ucast (take_bit 10 (drop_bit 10 (S XOR 1))), ucast (take_bit 10 (S XOR 1))]"
    unfolding rs1024_create_checksum_def Let_def n_def [symmetric] unfolding vs upd mask10 by simp
  have "rs1024_polymod (rs1024_create_checksum values flag) flag = S XOR (S XOR 1)"
    unfolding created rs1024_polymod_foldl
    using split_30 [OF p] rs1024_three_steps [of "take_bit 10 (drop_bit 20 (S XOR 1))" "take_bit 10 (drop_bit 10 (S XOR 1))" e "take_bit 10 (S XOR 1)"]
    by (simp only: foldl_append foldl.simps ucast_ten_bits_u16 e_def [symmetric] S_def [symmetric])
      (simp add: ten_bits_def bit_simps)
  then show ?thesis by (simp add: rs1024_verify_checksum_def)
qed

text \<open>
  \<^verbatim>\<open>rs1024_create_checksum\<close> makes every word sequence pass \<^verbatim>\<open>rs1024_verify_checksum\<close>: whatever
  the data words are and whatever the last three words held before, for both customization
  strings.
\<close>

theorem rs1024_create_verify:
  assumes "3 \<le> length values"
  shows "rs1024_verify_checksum (rs1024_create_checksum values flag) flag"
  using assms by (rule rs1024_create_valid)

text \<open>
  A wrong word is noticed. If a sequence of ten-bit words passes \<^verbatim>\<open>rs1024_verify_checksum\<close>,
  no sequence that differs from it in exactly one word does (under the same customization
  string).
\<close>

theorem rs1024_detects_wrong_word:
  assumes "rs1024_verify_checksum values flag" and "\<forall>v\<in>set values. v < 1024"
    and "i < length values" and "x < 1024" and "x \<noteq> values ! i"
  shows "\<not> rs1024_verify_checksum (values[i := x]) flag"
proof -
  have "foldl (\<lambda>chk v. rs1024_step chk (ucast v)) (polymod_start flag) (take i values @ values ! i # drop (Suc i) values)
     \<noteq> foldl (\<lambda>chk v. rs1024_step chk (ucast v)) (polymod_start flag) (take i values @ x # drop (Suc i) values)"
  proof (rule rs1024.symbol_substitution [OF polymod_start_state])
    show "\<forall>v\<in>set (take i values @ values ! i # drop (Suc i) values). ten_bits v"
      using assms(2,3) by (auto simp: ten_bits_less dest: in_set_takeD in_set_dropD)
  qed (use assms in \<open>auto simp: ten_bits_less\<close>)
  then show ?thesis
    using assms(1,3) by (simp add: rs1024_verify_checksum_def rs1024_polymod_foldl upd_conv_take_nth_drop
        id_take_nth_drop [symmetric])
qed

lemma rs1024_create_verify_witness:
  "rs1024_verify_checksum (rs1024_create_checksum [1, 2, 9, 9, 9] True) True"
  by (rule rs1024_create_verify) simp

lemma length_rs1024_create_checksum [simp]: "length (rs1024_create_checksum values flag) = length values"
  by (simp add: rs1024_create_checksum_def Let_def)

lemma ucast_mask10_less: "(ucast (w AND 1023 :: u32) :: u16) < 1024"
proof -
  have "ucast (w AND 1023 :: u32) = (take_bit 10 (ucast w) :: u16)"
    by (rule bit_word_eqI) (auto simp: mask10 bit_simps)
  then show ?thesis by (simp add: word_less_nat_alt unsigned_take_bit_eq take_bit_eq_mod [where 'a = nat])
qed

lemma rs1024_create_checksum_range:
  "\<forall>v\<in>set values. v < 1024 \<Longrightarrow> v \<in> set (rs1024_create_checksum values flag) \<Longrightarrow> v < 1024"
  by (auto simp: rs1024_create_checksum_def Let_def ucast_mask10_less
      dest!: set_update_subset_insert [THEN subsetD])

lemma rs1024_detects_wrong_word_witness:
  "\<not> rs1024_verify_checksum ((rs1024_create_checksum [1, 2, 9, 9, 9] True)[0 := 5]) True"
proof (rule rs1024_detects_wrong_word)
  show "rs1024_verify_checksum (rs1024_create_checksum [1, 2, 9, 9, 9] True) True"
    by (rule rs1024_create_valid) simp
next
  show "\<forall>v\<in>set (rs1024_create_checksum [1, 2, 9, 9, 9] True). v < 1024"
    using rs1024_create_checksum_range [of "[1, 2, 9, 9, 9]"] by simp
qed (simp_all add: rs1024_create_checksum_def Let_def)
end
