(* ===== verification/ShareWords.thy ===== *)
theory ShareWords
  imports Prelude
begin

text \<open>
  The packing of a share value into the ten-bit words of a SLIP-39 mnemonic and back,
  \<^verbatim>\<open>slip39_words_for_data\<close> and \<^verbatim>\<open>slip39_data_for_words\<close> of \<^verbatim>\<open>src/crypto/slip39/slip39.c\<close>.
  Both loops shift the bits through a 16-bit accumulator \<open>i\<close> of which \<open>bits\<close> bits are used.
\<close>

section \<open>Definitions\<close>

definition slip39_word_count_for_bytes :: "nat \<Rightarrow> nat" where
  "slip39_word_count_for_bytes bytes = (bytes * 8 + 10 - 1) div 10"

definition slip39_byte_count_for_words :: "nat \<Rightarrow> nat" where
  "slip39_byte_count_for_words words = (words * 10) div 8"

text \<open>The loop \<^verbatim>\<open>while (bits < 10)\<close>; \<open>buffer\<close> is what is left of the input.\<close>

function refill :: "nat \<Rightarrow> u16 \<Rightarrow> bytes \<Rightarrow> nat \<times> u16 \<times> bytes" where
  "refill bits i buffer =
     (if bits < 10
      then let i = push_bit 8 i
           in (case buffer of
                 [] \<Rightarrow> refill (bits + 8) i []
               | b # buffer \<Rightarrow> refill (bits + 8) (i OR ucast b) buffer)
      else (bits, i, buffer))"
  by pat_completeness auto
termination by (relation "measure (\<lambda>(bits, i, buffer). 10 - bits)") auto

declare refill.simps [simp del]

text \<open>The outer loop: \<open>room\<close> counts the words that still have room.\<close>

fun pack_words :: "nat \<Rightarrow> nat \<Rightarrow> u16 \<Rightarrow> bytes \<Rightarrow> u16 list" where
  "pack_words 0 bits i buffer = []"
| "pack_words (Suc room) bits i buffer =
     (if buffer = [] then []
      else let (bits, i, buffer) = refill bits i buffer
           in drop_bit (bits - 10) i # pack_words room (bits - 10) (take_bit (bits - 10) i) buffer)"

text \<open>The words written, whose number is the result; \<open>None\<close> is the result -1.\<close>

definition slip39_words_for_data :: "bytes \<Rightarrow> nat \<Rightarrow> u16 list option" where
  "slip39_words_for_data buffer room =
     (let size = length buffer
      in if room < slip39_word_count_for_bytes size then None
         else Some (pack_words room ((size mod 5) * 2) 0 buffer))"

definition SLIP39_INVALID_PADDING :: int where "SLIP39_INVALID_PADDING = -14"
definition SLIP39_INSUFFICIENT_SPACE :: int where "SLIP39_INSUFFICIENT_SPACE = -6"

text \<open>The inner loop \<^verbatim>\<open>while (bits >= 8 && byte < size)\<close>; \<open>room\<close> is \<open>size - byte\<close>.\<close>

function drain :: "int \<Rightarrow> u16 \<Rightarrow> nat \<Rightarrow> bytes \<times> int \<times> u16 \<times> nat" where
  "drain bits i room =
     (if bits \<ge> 8 \<and> 0 < room
      then let (out, r) = drain (bits - 8) (take_bit (nat (bits - 8)) i) (room - 1)
           in (ucast (drop_bit (nat (bits - 8)) i) # out, r)
      else ([], bits, i, room))"
  by pat_completeness auto
termination by (relation "measure (\<lambda>(bits, i, room). room)") auto

declare drain.simps [simp del]

fun unpack_words :: "u16 list \<Rightarrow> bool \<Rightarrow> int \<Rightarrow> u16 \<Rightarrow> nat \<Rightarrow> bytes" where
  "unpack_words [] discard_top_zeros bits i room = []"
| "unpack_words (w # words) discard_top_zeros bits i room =
     (if room = 0 then []
      else let i = push_bit 10 i OR w;
               bits = bits + 10;
               (discard_top_zeros, bits) =
                 (if discard_top_zeros \<and> i AND 1020 = 0 then (False, bits - 8) else (discard_top_zeros, bits));
               (out, bits, i, room) = drain bits i room
           in out @ unpack_words words discard_top_zeros bits i room)"

text \<open>The bytes written, whose number is the result, or the error code.\<close>

definition slip39_data_for_words :: "u16 list \<Rightarrow> nat \<Rightarrow> int + bytes" where
  "slip39_data_for_words words space =
     (let wordsize = length words;
          bits = -2 * (int wordsize mod 4)
      in if bits < 0 \<and> words ! 0 AND push_bit (nat (10 + bits)) 1023 \<noteq> 0 then Inl SLIP39_INVALID_PADDING
         else if space < slip39_byte_count_for_words wordsize then Inl SLIP39_INSUFFICIENT_SPACE
         else Inr (unpack_words words (wordsize mod 4 = 0 \<and> odd (wordsize div 4)) bits 0 space))"

section \<open>The bit stream\<close>

text \<open>The lowest \<open>n\<close> bits of a word, the most significant first.\<close>

definition bl :: "nat \<Rightarrow> 'a::len word \<Rightarrow> bool list" where
  "bl n w = map (bit w) (rev [0..<n])"

abbreviation stream8 :: "bytes \<Rightarrow> bool list" where
  "stream8 xs \<equiv> concat (map (bl 8) xs)"

abbreviation stream10 :: "u16 list \<Rightarrow> bool list" where
  "stream10 ws \<equiv> concat (map (bl 10) ws)"

lemma length_bl [simp]: "length (bl n w) = n"
  by (simp add: bl_def)

lemma length_stream8 [simp]: "length (stream8 xs) = 8 * length xs"
  by (induction xs) simp_all

lemma length_stream10 [simp]: "length (stream10 ws) = 10 * length ws"
  by (induction ws) simp_all

lemma bl_0 [simp]: "bl 0 w = []"
  by (simp add: bl_def)

lemma bl_nth: "k < n \<Longrightarrow> bl n w ! k = bit w (n - 1 - k)"
  by (simp add: bl_def rev_nth)

lemma bl_split: "bl (m + n) w = bl m (drop_bit n w) @ bl n (take_bit n w)"
  by (rule nth_equalityI) (auto simp: bl_nth nth_append bit_simps add.commute)

lemma bl_inj: "bl n v = bl n w \<Longrightarrow> (\<And>k. bit v k \<Longrightarrow> k < n) \<Longrightarrow> (\<And>k. bit w k \<Longrightarrow> k < n) \<Longrightarrow> v = w"
proof (rule bit_word_eqI)
  fix k
  assume eq: "bl n v = bl n w" and v: "\<And>k. bit v k \<Longrightarrow> k < n" and w: "\<And>k. bit w k \<Longrightarrow> k < n"
  show "bit v k = bit w k"
  proof (cases "k < n")
    case True
    then show ?thesis using arg_cong [OF eq, of "\<lambda>xs. xs ! (n - 1 - k)"] by (simp add: bl_nth)
  next
    case False
    then show ?thesis using v w by blast
  qed
qed

lemma stream8_inj: "stream8 xs = stream8 ys \<Longrightarrow> xs = ys"
proof (induction xs arbitrary: ys)
  case Nil
  then show ?case by (cases ys) (auto simp: bl_def)
next
  case (Cons x xs)
  then obtain y ys' where ys: "ys = y # ys'" by (cases ys) (auto simp: bl_def)
  then have "bl 8 x = bl 8 y" "stream8 xs = stream8 ys'" using Cons.prems by simp_all
  then show ?case using Cons.IH ys bl_inj [of 8 x y] by (auto dest: bit_u8_less)
qed

definition within :: "nat \<Rightarrow> 'a::len word \<Rightarrow> bool" where
  "within n w \<longleftrightarrow> (\<forall>k. bit w k \<longrightarrow> k < n)"

lemma bl_push: "n + 8 \<le> 16 \<Longrightarrow> bl (n + 8) (push_bit 8 i OR ucast (b :: u8) :: u16) = bl n i @ bl 8 b"
  by (rule nth_equalityI) (auto simp: bl_nth nth_append bit_simps add.commute dest: bit_u8_less)

lemma refill_stream:
  "even bits \<Longrightarrow> bits \<le> 16 \<Longrightarrow> within bits i \<Longrightarrow> 10 \<le> bits + 8 * length buffer \<Longrightarrow>
   (case refill bits i buffer of (bits', i', buffer') \<Rightarrow>
      even bits' \<and> 10 \<le> bits' \<and> bits' \<le> 16 \<and> within bits' i' \<and>
      bl bits' i' @ stream8 buffer' = bl bits i @ stream8 buffer)"
proof (induction bits i buffer rule: refill.induct)
  case (1 bits i buffer)
  show ?case
  proof (cases "bits < 10")
    case False
    then show ?thesis using 1 by (subst refill.simps) simp
  next
    case True
    then obtain b bs where buf: "buffer = b # bs" using 1 by (cases buffer) auto
    have le: "bits \<le> 8" using True 1(3) by (auto elim!: evenE)
    have "within (bits + 8) (push_bit 8 i OR ucast b)"
      using 1(5) by (auto simp: within_def bit_simps dest: bit_u8_less)
    then show ?thesis
      using 1(2) [OF True refl buf] 1(3,4,6) True le
      by (subst refill.simps) (auto simp: buf bl_push)
  qed
qed

lemma within_drop: "within (m + n) w \<Longrightarrow> within m (drop_bit n w)"
  by (fastforce simp: within_def bit_simps)

lemma within_take: "within n (take_bit n w)"
  by (auto simp: within_def bit_simps)

lemma pack_stream:
  "even bits \<Longrightarrow> bits \<le> 8 \<Longrightarrow> within bits i \<Longrightarrow> bits + 8 * length buffer = 10 * W \<Longrightarrow> W \<le> room \<Longrightarrow>
   stream10 (pack_words room bits i buffer) = bl bits i @ stream8 buffer \<and>
   length (pack_words room bits i buffer) = W \<and> (\<forall>w\<in>set (pack_words room bits i buffer). within 10 w)"
proof (induction W arbitrary: room bits i buffer)
  case 0
  then show ?case by (cases room) auto
next
  case (Suc W)
  then have ne: "buffer \<noteq> []" by auto
  obtain room' where room: "room = Suc room'" using Suc.prems by (cases room) auto
  obtain bits' i' buffer' where r: "refill bits i buffer = (bits', i', buffer')" by (cases "refill bits i buffer")
  have r': "even bits'" "10 \<le> bits'" "bits' \<le> 16" "within bits' i'"
    and st: "bl bits' i' @ stream8 buffer' = bl bits i @ stream8 buffer"
    using refill_stream [of bits i buffer] Suc.prems r by auto
  have len: "bits' + 8 * length buffer' = 10 * Suc W"
    using arg_cong [OF st, of length] Suc.prems by simp
  define e where "e = bits' - 10"
  have e: "bits' = 10 + e" "even e" "e \<le> 8" using r' by (auto simp: e_def)
  have IH: "stream10 (pack_words room' e (take_bit e i') buffer') = bl e (take_bit e i') @ stream8 buffer' \<and>
      length (pack_words room' e (take_bit e i') buffer') = W \<and>
      (\<forall>w\<in>set (pack_words room' e (take_bit e i') buffer'). within 10 w)"
    by (rule Suc.IH) (use e len Suc.prems room in \<open>auto simp: within_take\<close>)
  have "bl bits' i' = bl 10 (drop_bit e i') @ bl e (take_bit e i')"
    unfolding e(1) by (rule bl_split)
  moreover have "within 10 (drop_bit e i')" using r'(4) e within_drop [of 10 e i'] by simp
  ultimately show ?case
    using IH st by (simp add: room ne r e_def [symmetric])
qed

lemma drain_stream:
  "within b i \<Longrightarrow> b div 8 \<le> room \<Longrightarrow>
   (case drain (int b) i room of (out, bits, i', room') \<Rightarrow>
      bits = int (b mod 8) \<and> room' = room - b div 8 \<and> within (b mod 8) i' \<and>
      stream8 out @ bl (b mod 8) i' = bl b i)"
proof (induction b arbitrary: i room rule: less_induct)
  case (less b)
  show ?case
  proof (cases "8 \<le> b")
    case False
    then show ?thesis using less.prems by (subst drain.simps) simp
  next
    case True
    define c where "c = b - 8"
    have b: "b = 8 + c" and c: "int b - 8 = int c" using True by (auto simp: c_def)
    have dm: "b div 8 = Suc (c div 8)" "b mod 8 = c mod 8" by (auto simp: b)
    have bl8: "bl 8 (ucast (drop_bit c i) :: u8) = bl 8 (drop_bit c i)"
      by (rule nth_equalityI) (auto simp: bl_nth bit_simps)
    obtain out bits i' room' where rec: "drain (int c) (take_bit c i) (room - 1) = (out, bits, i', room')"
      by (cases "drain (int c) (take_bit c i) (room - 1)")
    have "bits = int (c mod 8) \<and> room' = room - 1 - c div 8 \<and> within (c mod 8) i' \<and>
        stream8 out @ bl (c mod 8) i' = bl c (take_bit c i)"
      using less.IH [of c "take_bit c i" "room - 1"] less.prems(2) True rec
      by (simp add: within_take dm) (simp add: b)
    moreover have "bl b i = bl 8 (drop_bit c i) @ bl c (take_bit c i)"
      unfolding b by (rule bl_split)
    ultimately show ?thesis
      using True less.prems(2) by (subst drain.simps) (simp add: c rec [unfolded One_nat_def] dm bl8)
  qed
qed

lemma unpack_stream:
  "even b \<Longrightarrow> b < 8 \<Longrightarrow> within b i \<Longrightarrow> \<forall>w\<in>set ws. within 10 w \<Longrightarrow> b + 10 * length ws = 8 * n \<Longrightarrow> n \<le> room \<Longrightarrow>
   stream8 (unpack_words ws False (int b) i room) = bl b i @ stream10 ws"
proof (induction ws arbitrary: b i n room)
  case Nil
  then show ?case by simp
next
  case (Cons w ws)
  have room: "room \<noteq> 0" using Cons.prems by auto
  have b: "b \<le> 6" using Cons.prems(1,2) by (auto elim!: evenE)
  let ?i = "push_bit 10 i OR w" and ?b = "b + 10"
  have bl: "bl ?b ?i = bl b i @ bl 10 w"
    using b Cons.prems(3,4) unfolding bl_split
    by (intro nth_equalityI) (auto simp: bl_nth nth_append bit_simps within_def)
  have w: "within ?b ?i" using Cons.prems(3,4) by (fastforce simp: within_def bit_simps)
  obtain out bits i' room' where d: "drain (int ?b) ?i room = (out, bits, i', room')"
    by (cases "drain (int ?b) ?i room")
  have div: "?b div 8 \<le> n" using Cons.prems(5) by auto
  have D: "bits = int (?b mod 8)" "room' = room - ?b div 8" "within (?b mod 8) i'"
    "stream8 out @ bl (?b mod 8) i' = bl b i @ bl 10 w"
    using drain_stream [OF w, of room] div Cons.prems(6) d bl by auto
  have "stream8 (unpack_words ws False (int (?b mod 8)) i' room') = bl (?b mod 8) i' @ stream10 ws"
  proof (rule Cons.IH)
    show "even (?b mod 8)" using Cons.prems(1) by (simp add: dvd_mod)
    show "?b mod 8 + 10 * length ws = 8 * (n - ?b div 8)"
    proof -
      have "?b div 8 * 8 + ?b mod 8 + 10 * length ws = 8 * n"
        using Cons.prems(5) unfolding div_mult_mod_eq by simp
      moreover have "q * 8 + m + l = 8 * n \<Longrightarrow> m + l = 8 * (n - q)" for q m l :: nat by arith
      ultimately show ?thesis by blast
    qed
    show "n - ?b div 8 \<le> room'" using Cons.prems(6) D(2) by simp
  qed (use Cons.prems D in auto)
  then show ?case using D(1,4) room d by (simp add: Let_def)
qed

text \<open>
  Numbers of bytes that survive the way to words and back. Ten-bit words hold five bytes in four
  words; the padding in front of the first word says how many bytes the rest has, up to the case
  of eight padding bits, where the parity of the number of words has to decide.
\<close>

definition packable :: "nat \<Rightarrow> bool" where
  "packable n \<longleftrightarrow> n mod 5 \<in> {1, 2, 3} \<or> even (n div 5)"

lemma even_packable: "n \<in> {16, 18, 20, 22, 24, 26, 28, 30, 32} \<Longrightarrow> packable n"
  by (auto simp: packable_def)

lemma word_count: "slip39_word_count_for_bytes n = 4 * (n div 5) + n mod 5"
proof -
  define k r where "k = n div 5" and "r = n mod 5"
  have "r < 5" by (simp add: r_def)
  then have "r = 0 \<or> r = 1 \<or> r = 2 \<or> r = 3 \<or> r = 4" by auto
  then have r: "(8 * r + 9) div 10 = r" by auto
  have n: "n = 5 * k + r" by (simp add: k_def r_def)
  have "n * 8 + 10 - 1 = (8 * r + 9) + (4 * k) * 10" by (simp add: n)
  then have "(n * 8 + 10 - 1) div 10 = (8 * r + 9 + (4 * k) * 10) div 10" by (rule arg_cong)
  also have "\<dots> = 4 * k + (8 * r + 9) div 10" by (rule div_mult_self1) simp
  finally show ?thesis unfolding slip39_word_count_for_bytes_def r by (simp add: k_def r_def)
qed

lemma ten_times_words: "n mod 5 * 2 + 8 * n = 10 * slip39_word_count_for_bytes n"
proof -
  have "q * 5 + m = n \<Longrightarrow> m * 2 + 8 * n = 10 * (4 * q + m)" for q m :: nat by simp
  then show ?thesis unfolding word_count using div_mult_mod_eq [of n 5] by blast
qed

lemma words_for_data_stream:
  assumes "slip39_word_count_for_bytes (length buffer) \<le> room"
  shows "\<exists>ws. slip39_words_for_data buffer room = Some ws \<and>
    length ws = slip39_word_count_for_bytes (length buffer) \<and> (\<forall>w\<in>set ws. within 10 w) \<and>
    stream10 ws = replicate (2 * (length buffer mod 5)) False @ stream8 buffer"
proof -
  let ?n = "length buffer"
  have "?n mod 5 * 2 + 8 * ?n = 10 * slip39_word_count_for_bytes ?n" by (rule ten_times_words)
  then have "stream10 (pack_words room (?n mod 5 * 2) 0 buffer) = bl (?n mod 5 * 2) (0 :: u16) @ stream8 buffer \<and>
   length (pack_words room (?n mod 5 * 2) 0 buffer) = slip39_word_count_for_bytes ?n \<and>
   (\<forall>w\<in>set (pack_words room (?n mod 5 * 2) 0 buffer). within 10 w)"
    by (intro pack_stream) (use assms in \<open>auto simp: within_def\<close>)
  moreover have "bl m (0 :: u16) = replicate m False" for m
    by (rule nth_equalityI) (simp_all add: bl_nth)
  ultimately show ?thesis using assms by (simp add: slip39_words_for_data_def mult.commute)
qed

text \<open>
  The first word: with padding \<open>p\<close> in front, what is left of it after the adjustment of \<open>bits\<close> (by
  a negative start value, or by discarding a zero top byte) are its lowest \<open>10 - p\<close> bits.
\<close>

lemma and_1020: "(w :: u16) AND 1020 = 0 \<longleftrightarrow> (\<forall>k. 2 \<le> k \<and> k < 10 \<longrightarrow> \<not> bit w k)"
proof -
  have c: "bit (1020 :: u16) k \<longleftrightarrow> 2 \<le> k \<and> k < 10" for k
  proof -
    have m: "(1020 :: u16) = push_bit 2 (mask 8)" by (simp add: mask_eq_exp_minus_1)
    show ?thesis unfolding m bit_push_bit_iff bit_mask_iff possible_bit_word by auto
  qed
  show ?thesis
  proof -
    have "w AND 1020 = 0 \<longleftrightarrow> (\<forall>k<16. \<not> (bit w k \<and> 2 \<le> k \<and> k < 10))"
      unfolding bit_eq_iff bit_and_iff c possible_bit_word by auto
    moreover have "k < 16" if "k < 10" for k :: nat using that by simp
    ultimately show ?thesis by blast
  qed
qed

lemma and_1023_push:
  assumes "p \<le> 10"
  shows "(w :: u16) AND push_bit (10 - p) 1023 = 0 \<longleftrightarrow> (\<forall>k. 10 - p \<le> k \<and> k < 16 \<and> k < 20 - p \<longrightarrow> \<not> bit w k)"
proof -
  have c: "bit (push_bit (10 - p) (1023 :: u16)) k \<longleftrightarrow> 10 - p \<le> k \<and> k < 20 - p \<and> k < 16" for k
  proof -
    have m: "(1023 :: u16) = mask 10" by (simp add: mask_eq_exp_minus_1)
    show ?thesis using assms unfolding m bit_push_bit_iff bit_mask_iff possible_bit_word by auto
  qed
  show ?thesis
    by (auto simp: bit_eq_iff bit_and_iff c)
qed

lemma prefix_zero:
  assumes "bl 10 w @ xs = replicate p False @ ys" and "within 10 w" and "p \<le> 10"
  shows "within (10 - p) w" and "bl (10 - p) w @ xs = ys"
proof -
  have nth: "bl 10 w ! k = False" if "k < p" for k
    using arg_cong [OF assms(1), of "\<lambda>l. l ! k"] that assms(3) by (simp add: nth_append)
  show "within (10 - p) w"
    unfolding within_def
  proof (intro allI impI, rule ccontr)
    fix k assume "bit w k" "\<not> k < 10 - p"
    moreover from this assms(2) have "k < 10" by (auto simp: within_def)
    moreover have "9 - k < p" "10 - 1 - (9 - k) = k" using calculation assms(3) by arith+
    ultimately show False using nth [of "9 - k"] by (simp add: bl_nth)
  qed
  have "drop p (bl 10 w) = bl (10 - p) w"
    using assms(3) by (intro nth_equalityI) (auto simp: bl_nth)
  moreover have "drop p (bl 10 w @ xs) = ys" using assms(1) by simp
  ultimately show "bl (10 - p) w @ xs = ys" using assms(3) by simp
qed

lemma unpack_first:
  assumes "within (10 - p) w" and "p \<le> 8" and "even p" and "\<forall>w\<in>set ws. within 10 w"
    and "10 - p + 10 * length ws = 8 * n" and "n \<le> room" and "0 < n"
    and "if p = 8 then d else \<not> d" and "bits = (if p = 8 then 0 else - int p)"
  shows "stream8 (unpack_words (w # ws) d bits 0 room) = bl (10 - p) w @ stream10 ws"
proof -
  let ?b = "10 - p"
  have i: "push_bit 10 0 OR w = w" by simp
  have adj: "(if d \<and> w AND 1020 = 0 then (False, bits + 10 - 8) else (d, bits + 10)) = (False, int ?b)"
  proof (cases "p = 8")
    case True
    then have "w AND 1020 = 0" using assms(1) unfolding and_1020 by (auto simp: within_def)
    then show ?thesis using True assms(8,9) by simp
  qed (use assms(2,8,9) in auto)
  obtain out bits' i' room' where d: "drain (int ?b) w room = (out, bits', i', room')"
    by (cases "drain (int ?b) w room")
  have div: "?b div 8 \<le> n" using assms(5) by auto
  have D: "bits' = int (?b mod 8)" "room' = room - ?b div 8" "within (?b mod 8) i'"
    "stream8 out @ bl (?b mod 8) i' = bl ?b w"
    using drain_stream [OF assms(1), of room] div assms(6) d by auto
  have "stream8 (unpack_words ws False (int (?b mod 8)) i' room') = bl (?b mod 8) i' @ stream10 ws"
  proof (rule unpack_stream)
    show "even (?b mod 8)" using assms(2,3) by (simp add: dvd_mod)
    show "?b mod 8 + 10 * length ws = 8 * (n - ?b div 8)"
    proof -
      have "?b div 8 * 8 + ?b mod 8 + 10 * length ws = 8 * n"
        using assms(5) unfolding div_mult_mod_eq by simp
      moreover have "q * 8 + m + l = 8 * n \<Longrightarrow> m + l = 8 * (n - q)" for q m l :: nat by arith
      ultimately show ?thesis by blast
    qed
    show "n - ?b div 8 \<le> room'" using assms(6) D(2) by simp
  qed (use assms D in auto)
  moreover have "unpack_words (w # ws) d bits 0 room = out @ unpack_words ws False bits' i' room'"
  proof -
    have "room \<noteq> 0" using assms(6,7) by auto
    then show ?thesis unfolding unpack_words.simps Let_def i adj using d by simp
  qed
  ultimately show ?thesis using D(1,4) by simp
qed

lemma data_for_words_stream:
  assumes "packable (length buffer)" and "length ws = slip39_word_count_for_bytes (length buffer)"
    and "\<forall>w\<in>set ws. within 10 w"
    and "stream10 ws = replicate (2 * (length buffer mod 5)) False @ stream8 buffer"
    and "slip39_byte_count_for_words (length ws) \<le> space"
  shows "slip39_data_for_words ws space = Inr buffer"
proof (cases ws)
  case Nil
  then show ?thesis using assms by (auto simp: slip39_data_for_words_def word_count)
next
  case (Cons w ws')
  define n p where "n = length buffer" and "p = 2 * (length buffer mod 5)"
  have W: "length ws = 4 * (n div 5) + n mod 5" using assms(2) by (simp add: word_count n_def)
  have p: "p \<le> 8" "even p" by (auto simp: p_def)
  have eq: "bl 10 w @ stream10 ws' = replicate p False @ stream8 buffer"
    using assms(4) Cons by (simp add: p_def)
  have w: "within (10 - p) w" "bl (10 - p) w @ stream10 ws' = stream8 buffer"
    using prefix_zero [OF eq] assms(3) Cons p by auto
  define d bits where "d = (length ws mod 4 = 0 \<and> odd (length ws div 4))"
    and "bits = - 2 * (int (length ws) mod 4)"
  have len: "10 - p + 10 * length ws' = 8 * n"
    using arg_cong [OF w(2), of length] by (simp add: n_def)
  have tens: "length ws * 10 = 8 * n + p" using len Cons p(1) by simp
  have space: "n \<le> space"
    using assms(5) unfolding slip39_byte_count_for_words_def tens by simp
  define q r where "q = n div 5" and "r = n mod 5"
  have Wqr: "length ws = 4 * q + r" and pr: "p = 2 * r" using W by (simp_all add: q_def r_def p_def n_def)
  have pk: "r \<in> {1, 2, 3} \<or> even q" using assms(1) by (simp add: packable_def q_def r_def n_def)
  have "r < 5" by (simp add: r_def)
  then have r: "r = 0 \<or> r = 1 \<or> r = 2 \<or> r = 3 \<or> r = 4" by auto
  have d: "if p = 8 then d else \<not> d"
    using r pk by (auto simp: d_def pr Wqr)
  have bits: "bits = (if p = 8 then 0 else - int p)"
    using r by (auto simp: bits_def pr Wqr zmod_int [symmetric] mod_add_left_eq)
  have "0 < n" using len p(1) by (cases n) auto
  then have "stream8 (unpack_words (w # ws') d bits 0 space) = stream8 buffer"
    using unpack_first [OF w(1) p _ len space _ d bits] assms(3) w(2) Cons by simp
  then have "unpack_words ws d bits 0 space = buffer" unfolding Cons by (rule stream8_inj)
  moreover have "ws ! 0 AND push_bit (nat (10 + bits)) 1023 = 0" if "bits < 0"
  proof -
    have "nat (10 + bits) = 10 - p" using that bits p(1) by (auto split: if_splits)
    then show ?thesis using w(1) p(1) Cons by (auto simp: and_1023_push within_def)
  qed
  ultimately show ?thesis using assms(5)
    unfolding slip39_data_for_words_def Let_def d_def [symmetric] bits_def [symmetric] by simp
qed

lemma words_round_trip:
  assumes "packable (length buffer)" and "slip39_word_count_for_bytes (length buffer) \<le> room"
  shows "\<exists>ws. slip39_words_for_data buffer room = Some ws \<and>
    length ws = slip39_word_count_for_bytes (length buffer) \<and> (\<forall>w\<in>set ws. w < 1024) \<and>
    (\<forall>space. slip39_byte_count_for_words (length ws) \<le> space \<longrightarrow> slip39_data_for_words ws space = Inr buffer)"
proof -
  have "w < 1024" if "within 10 w" for w :: u16
  proof -
    have "take_bit 10 w = w" using that by (intro bit_word_eqI) (auto simp: within_def bit_simps)
    then have "unat w = unat (take_bit 10 w)" by simp
    also have "\<dots> = unat w mod 2 ^ 10" by (simp only: unsigned_take_bit_eq take_bit_eq_mod [where 'a = nat])
    also have "\<dots> < 2 ^ 10" by simp
    finally show ?thesis by (simp add: word_less_nat_alt)
  qed
  then show ?thesis
    using words_for_data_stream [OF assms(2)] data_for_words_stream [OF assms(1)] by metis
qed

text \<open>
  The words of a share give the share back. For every byte count that can be told from its
  word count (all counts from 16 to 32 that SLIP-39 allows among them),
  \<^verbatim>\<open>slip39_words_for_data\<close> produces the announced number of words, each below 1024, and
  \<^verbatim>\<open>slip39_data_for_words\<close>, given enough room, accepts their padding and returns the bytes.
\<close>

theorem slip39_words_round_trip:
  assumes "packable (length buffer)" and "slip39_word_count_for_bytes (length buffer) \<le> room"
  shows "\<exists>ws. slip39_words_for_data buffer room = Some ws \<and>
    length ws = slip39_word_count_for_bytes (length buffer) \<and> (\<forall>w\<in>set ws. w < 1024) \<and>
    (\<forall>space. slip39_byte_count_for_words (length ws) \<le> space \<longrightarrow> slip39_data_for_words ws space = Inr buffer)"
  using assms by (rule words_round_trip)

lemma slip39_words_round_trip_witness:
  "\<exists>ws. slip39_words_for_data (replicate 32 7) 26 = Some ws \<and>
    length ws = slip39_word_count_for_bytes (length (replicate 32 (7 :: u8))) \<and> (\<forall>w\<in>set ws. w < 1024) \<and>
    (\<forall>space. slip39_byte_count_for_words (length ws) \<le> space \<longrightarrow> slip39_data_for_words ws space = Inr (replicate 32 7))"
  by (rule slip39_words_round_trip) (simp_all add: packable_def slip39_word_count_for_bytes_def)
end
