(* ===== verification/Lagrange.thy ===== *)
theory Lagrange
  imports Main
begin

text \<open>
  Interpolation over a field: the polynomial of degree below \<open>t\<close> through \<open>t\<close> points is unique, so
  sampling it at \<open>t\<close> other points and interpolating again gives the same polynomial. This is the
  mathematics behind the recovery of shared secrets.
\<close>

section \<open>Polynomial functions\<close>

primrec peval :: "'a::comm_ring_1 list \<Rightarrow> 'a \<Rightarrow> 'a" where
  "peval [] x = 0"
| "peval (c # cs) x = c + x * peval cs x"

definition polyfun :: "nat \<Rightarrow> ('a::comm_ring_1 \<Rightarrow> 'a) \<Rightarrow> bool" where
  "polyfun n f \<longleftrightarrow> (\<exists>cs. length cs = n \<and> f = peval cs)"

lemma peval_map_mult: "peval (map ((*) a) cs) x = a * peval cs x"
  by (induction cs) (simp_all add: algebra_simps)

lemma peval_map2_add: "length as = length bs \<Longrightarrow> peval (map2 (+) as bs) x = peval as x + peval bs x"
  by (induction as bs rule: list_induct2) (simp_all add: algebra_simps)

lemma peval_snoc_0: "peval (cs @ [0]) x = peval cs x"
  by (induction cs) simp_all

lemma polyfun_scale: "polyfun n f \<Longrightarrow> polyfun n (\<lambda>x. a * f x)"
  unfolding polyfun_def
proof (elim exE conjE)
  fix cs assume "length cs = n" "f = peval cs"
  then show "\<exists>ds. length ds = n \<and> (\<lambda>x. a * f x) = peval ds"
    by (intro exI [of _ "map ((*) a) cs"]) (auto simp: fun_eq_iff peval_map_mult)
qed

lemma polyfun_add: "polyfun n f \<Longrightarrow> polyfun n g \<Longrightarrow> polyfun n (\<lambda>x. f x + g x)"
  unfolding polyfun_def
proof (elim exE conjE)
  fix as bs assume "length as = n" "f = peval as" "length bs = n" "g = peval bs"
  then show "\<exists>cs. length cs = n \<and> (\<lambda>x. f x + g x) = peval cs"
    by (intro exI [of _ "map2 (+) as bs"]) (auto simp: fun_eq_iff peval_map2_add)
qed

lemma polyfun_0: "polyfun n (\<lambda>x. 0)"
proof -
  have "peval (replicate n 0) x = 0" for x :: 'a by (induction n) simp_all
  then show ?thesis unfolding polyfun_def by (intro exI [of _ "replicate n 0"]) (auto simp: fun_eq_iff)
qed

lemma polyfun_sum: "finite A \<Longrightarrow> (\<And>i. i \<in> A \<Longrightarrow> polyfun n (f i)) \<Longrightarrow> polyfun n (\<lambda>x. \<Sum>i\<in>A. f i x)"
  by (induction A rule: finite_induct) (auto intro: polyfun_0 polyfun_add)

lemma polyfun_linear: "polyfun n f \<Longrightarrow> polyfun (Suc n) (\<lambda>x. (x - a) * f x)"
proof -
  assume "polyfun n f"
  then obtain cs where cs: "length cs = n" "f = peval cs" by (auto simp: polyfun_def)
  have shift: "polyfun (Suc n) (\<lambda>x. x * f x)"
    unfolding polyfun_def by (intro exI [of _ "0 # cs"]) (auto simp: cs fun_eq_iff)
  have "polyfun (Suc n) f"
    unfolding polyfun_def by (intro exI [of _ "cs @ [0]"]) (auto simp: cs fun_eq_iff peval_snoc_0)
  then have "polyfun (Suc n) (\<lambda>x. (- a) * f x)" by (rule polyfun_scale)
  from polyfun_add [OF shift this] show ?thesis by (simp add: algebra_simps)
qed

lemma polyfun_prod: "finite A \<Longrightarrow> polyfun (Suc (card A)) (\<lambda>x. \<Prod>i\<in>A. (x - r i))"
proof (induction A rule: finite_induct)
  case empty
  show ?case unfolding polyfun_def by (intro exI [of _ "[1]"]) (auto simp: fun_eq_iff)
next
  case (insert i A)
  then show ?case using polyfun_linear [OF insert.IH, of "r i"] by simp
qed

section \<open>Roots\<close>

lemma peval_factor:
  "\<exists>ds. length ds = length cs - 1 \<and> (\<forall>x. peval cs x - peval cs r = (x - r) * peval ds x)"
proof (induction cs)
  case Nil
  then show ?case by simp
next
  case (Cons c cs)
  then obtain ds where ds: "length ds = length cs - 1" "\<And>x. peval cs x - peval cs r = (x - r) * peval ds x"
    by blast
  show ?case
  proof (cases cs)
    case Nil
    then show ?thesis by (intro exI [of _ "[]"]) simp
  next
    case (Cons c' cs')
    have "peval (c # cs) x - peval (c # cs) r = (x - r) * peval (peval cs r # ds) x" for x
    proof -
      have "x * peval cs x - r * peval cs r = (x - r) * peval cs r + x * (peval cs x - peval cs r)"
        by (simp add: algebra_simps)
      then show ?thesis unfolding ds(2) by (simp add: algebra_simps)
    qed
    moreover have "length (peval cs r # ds) = length (c # cs) - 1" using ds(1) Cons by simp
    ultimately show ?thesis by blast
  qed
qed

lemma peval_roots:
  fixes cs :: "'a::field list"
  assumes "finite S" and "length cs \<le> card S" and "\<And>x. x \<in> S \<Longrightarrow> peval cs x = 0"
  shows "peval cs x = 0"
  using assms
proof (induction "length cs" arbitrary: cs S x)
  case 0
  then show ?case by simp
next
  case (Suc n)
  then obtain r where r: "r \<in> S" by fastforce
  obtain ds where ds: "length ds = length cs - 1" "\<And>x. peval cs x - peval cs r = (x - r) * peval ds x"
    using peval_factor by blast
  have "peval ds x = 0" for x
  proof (rule Suc.hyps(1) [of ds "S - {r}"])
    show "n = length ds" using Suc.hyps(2) ds(1) by simp
    show "length ds \<le> card (S - {r})" using Suc.prems(1,2) Suc.hyps(2) ds(1) r by simp
    fix y assume y: "y \<in> S - {r}"
    then have "(y - r) * peval ds y = 0" using ds(2) [of y] Suc.prems(3) r by simp
    then show "peval ds y = 0" using y by simp
  qed (use Suc.prems in simp)
  then show ?case using ds(2) [of x] Suc.prems(3) [OF r] by simp
qed

lemma polyfun_unique:
  fixes f g :: "'a::field \<Rightarrow> 'a"
  assumes "polyfun n f" and "polyfun n g" and "finite S" and "n \<le> card S"
    and "\<And>x. x \<in> S \<Longrightarrow> f x = g x"
  shows "f = g"
proof
  fix x
  have "polyfun n (\<lambda>x. f x + (- 1) * g x)" by (intro polyfun_add polyfun_scale assms)
  then obtain cs where cs: "length cs = n" "\<And>x. f x - g x = peval cs x"
    unfolding polyfun_def by (auto simp: fun_eq_iff)
  have "peval cs x = 0"
  proof (rule peval_roots [OF assms(3)])
    fix y assume "y \<in> S"
    then show "peval cs y = 0" using assms(5) [of y] cs(2) [of y] by simp
  qed (use assms(4) cs(1) in simp)
  then show "f x = g x" using cs(2) [of x] by simp
qed

section \<open>Interpolation\<close>

definition lagrange_basis :: "'a::field list \<Rightarrow> nat \<Rightarrow> 'a \<Rightarrow> 'a" where
  "lagrange_basis xs i n = (\<Prod>j\<in>{..<length xs} - {i}. (n - xs ! j) / (xs ! i - xs ! j))"

definition lagrange :: "'a::field list \<Rightarrow> 'a list \<Rightarrow> 'a \<Rightarrow> 'a" where
  "lagrange xs ys n = (\<Sum>i<length xs. ys ! i * lagrange_basis xs i n)"

lemma lagrange_basis_node:
  assumes "distinct xs" and "i < length xs" and "k < length xs"
  shows "lagrange_basis xs i (xs ! k) = (if i = k then 1 else 0)"
proof (cases "i = k")
  case True
  have "(xs ! k - xs ! j) / (xs ! i - xs ! j) = 1" if "j \<in> {..<length xs} - {i}" for j
    using that assms True by (simp add: nth_eq_iff_index_eq)
  then show ?thesis using True by (simp add: lagrange_basis_def)
next
  case False
  then have "k \<in> {..<length xs} - {i}" using assms by simp
  then show ?thesis using False by (auto simp: lagrange_basis_def intro!: prod_zero)
qed

lemma lagrange_node:
  assumes "distinct xs" and "k < length xs"
  shows "lagrange xs ys (xs ! k) = ys ! k"
proof -
  have "lagrange xs ys (xs ! k) = (\<Sum>i<length xs. if i = k then ys ! k else 0)"
    unfolding lagrange_def by (rule sum.cong) (auto simp: lagrange_basis_node assms)
  then show ?thesis using assms(2) by simp
qed

lemma polyfun_lagrange: "polyfun (length xs) (lagrange xs ys)"
proof (cases "xs = []")
  case True
  then show ?thesis using polyfun_0 [of 0] by (simp add: lagrange_def [abs_def])
next
  case False
  have "polyfun (length xs) (lagrange_basis xs i)" if "i < length xs" for i
  proof -
    let ?A = "{..<length xs} - {i}"
    have "lagrange_basis xs i = (\<lambda>n. (\<Prod>j\<in>?A. inverse (xs ! i - xs ! j)) * (\<Prod>j\<in>?A. (n - xs ! j)))"
      by (simp add: fun_eq_iff lagrange_basis_def divide_inverse prod.distrib mult.commute)
    moreover have "Suc (card ?A) = length xs" using that by simp
    moreover have "polyfun (Suc (card ?A)) (\<lambda>n. \<Prod>j\<in>?A. (n - xs ! j))" by (rule polyfun_prod) simp
    ultimately show ?thesis by (simp add: polyfun_scale)
  qed
  then show ?thesis
    unfolding lagrange_def [abs_def] by (intro polyfun_sum polyfun_scale) auto
qed

lemma lagrange_resample:
  assumes "distinct xs" and "distinct zs" and "length zs = length xs" 
  shows "lagrange zs (map (lagrange xs ys) zs) = lagrange xs ys"
proof (rule polyfun_unique [where S = "set zs"])
  show "polyfun (length xs) (lagrange zs (map (lagrange xs ys) zs))"
    using polyfun_lagrange [of zs] assms(3) by simp
  show "length xs \<le> card (set zs)" using assms by (simp add: distinct_card)
  fix x assume "x \<in> set zs"
  then obtain k where "k < length zs" "x = zs ! k" by (auto simp: in_set_conv_nth)
  then show "lagrange zs (map (lagrange xs ys) zs) x = lagrange xs ys x"
    using lagrange_node [OF assms(2)] by simp
qed (use polyfun_lagrange in auto)

end
