(* ===== verification/Gf256.thy ===== *)
theory Gf256
  imports Prelude Lagrange
begin

text \<open>
  The arithmetic of GF(256) behind the secret sharing of \<^verbatim>\<open>src/crypto/slip39/slip39.c\<close>: the
  logarithm and exponential tables to the base 3 and the interpolation that uses them. The
  lemmas show that the tables describe a field, as an instance of the type class of the library,
  and that \<^verbatim>\<open>interpolate\<close> evaluates the one polynomial through the given points.
\<close>

section \<open>Definitions\<close>

definition LOG_TABLE :: bytes where
  "LOG_TABLE =
    [0, 0, 25, 1, 50, 2, 26, 198, 75, 199, 27, 104, 51, 238, 223, 3, 100, 4, 224, 14,
     52, 141, 129, 239, 76, 113, 8, 200, 248, 105, 28, 193, 125, 194, 29, 181, 249, 185, 39, 106,
     77, 228, 166, 114, 154, 201, 9, 120, 101, 47, 138, 5, 33, 15, 225, 36, 18, 240, 130, 69,
     53, 147, 218, 142, 150, 143, 219, 189, 54, 208, 206, 148, 19, 92, 210, 241, 64, 70, 131, 56,
     102, 221, 253, 48, 191, 6, 139, 98, 179, 37, 226, 152, 34, 136, 145, 16, 126, 110, 72, 195,
     163, 182, 30, 66, 58, 107, 40, 84, 250, 133, 61, 186, 43, 121, 10, 21, 155, 159, 94, 202,
     78, 212, 172, 229, 243, 115, 167, 87, 175, 88, 168, 80, 244, 234, 214, 116, 79, 174, 233, 213,
     231, 230, 173, 232, 44, 215, 117, 122, 235, 22, 11, 245, 89, 203, 95, 176, 156, 169, 81, 160,
     127, 12, 246, 111, 23, 196, 73, 236, 216, 67, 31, 45, 164, 118, 123, 183, 204, 187, 62, 90,
     251, 96, 177, 134, 59, 82, 161, 108, 170, 85, 41, 157, 151, 178, 135, 144, 97, 190, 220, 252,
     188, 149, 207, 205, 55, 63, 91, 209, 83, 57, 132, 60, 65, 162, 109, 71, 20, 42, 158, 93,
     86, 242, 211, 171, 68, 17, 146, 217, 35, 32, 46, 137, 180, 124, 184, 38, 119, 153, 227, 165,
     103, 74, 237, 222, 197, 49, 254, 24, 13, 99, 140, 128, 192, 247, 112, 7]"

definition EXP_TABLE :: bytes where
  "EXP_TABLE =
    [1, 3, 5, 15, 17, 51, 85, 255, 26, 46, 114, 150, 161, 248, 19, 53, 95, 225, 56, 72,
     216, 115, 149, 164, 247, 2, 6, 10, 30, 34, 102, 170, 229, 52, 92, 228, 55, 89, 235, 38,
     106, 190, 217, 112, 144, 171, 230, 49, 83, 245, 4, 12, 20, 60, 68, 204, 79, 209, 104, 184,
     211, 110, 178, 205, 76, 212, 103, 169, 224, 59, 77, 215, 98, 166, 241, 8, 24, 40, 120, 136,
     131, 158, 185, 208, 107, 189, 220, 127, 129, 152, 179, 206, 73, 219, 118, 154, 181, 196, 87, 249,
     16, 48, 80, 240, 11, 29, 39, 105, 187, 214, 97, 163, 254, 25, 43, 125, 135, 146, 173, 236,
     47, 113, 147, 174, 233, 32, 96, 160, 251, 22, 58, 78, 210, 109, 183, 194, 93, 231, 50, 86,
     250, 21, 63, 65, 195, 94, 226, 61, 71, 201, 64, 192, 91, 237, 44, 116, 156, 191, 218, 117,
     159, 186, 213, 100, 172, 239, 42, 126, 130, 157, 188, 223, 122, 142, 137, 128, 155, 182, 193, 88,
     232, 35, 101, 175, 234, 37, 111, 177, 200, 67, 197, 84, 252, 31, 33, 99, 165, 244, 7, 9,
     27, 45, 119, 153, 176, 203, 70, 202, 69, 207, 74, 222, 121, 139, 134, 145, 168, 227, 62, 66,
     198, 81, 243, 14, 18, 54, 90, 238, 41, 123, 141, 140, 143, 138, 133, 148, 167, 242, 13, 23,
     57, 75, 221, 124, 132, 151, 162, 253, 28, 36, 108, 180, 199, 82, 246, 0]"

text \<open>The exponent \<open>d\<close> of the Lagrange coefficient of point \<open>i\<close>.\<close>

definition lagrange_exponent :: "bytes \<Rightarrow> u8 \<Rightarrow> nat \<Rightarrow> nat \<Rightarrow> nat" where
  "lagrange_exponent xi n threshold i =
     foldl (\<lambda>d j. if i \<noteq> j
        then (d + unat (LOG_TABLE ! unat (n XOR xi ! j))
                + (255 - unat (LOG_TABLE ! unat (xi ! i XOR xi ! j)))) mod 255
        else d) 0 [0..<threshold]"

definition scale_byte :: "nat \<Rightarrow> u8 \<Rightarrow> u8" where
  "scale_byte d t = (if t \<noteq> 0 then EXP_TABLE ! ((unat (LOG_TABLE ! unat t) + d) mod 255) else 0)"

definition interpolate :: "bytes \<Rightarrow> bytes list \<Rightarrow> u8 \<Rightarrow> nat \<Rightarrow> nat \<Rightarrow> bytes" where
  "interpolate xi yi n len threshold =
     (case find (\<lambda>i. n = xi ! i) [0..<threshold] of
        Some i \<Rightarrow> take len (yi ! i)
      | None \<Rightarrow>
          foldl (\<lambda>result i. let d = lagrange_exponent xi n threshold i
                in map (\<lambda>j. result ! j XOR scale_byte d (yi ! i ! j)) [0..<len])
            (replicate len 0) [0..<threshold])"

section \<open>The tables\<close>

text \<open>Multiplication by the generator 3, modulo the polynomial 0x11B.\<close>

definition mul3 :: "u8 \<Rightarrow> u8" where
  "mul3 a = push_bit 1 a XOR (if bit a 7 then 27 else 0) XOR a"

lemma mul3_xor: "mul3 (a XOR b) = mul3 a XOR mul3 b"
  by (rule bit_word_eqI) (auto simp: mul3_def bit_simps)

lemma mul3_0 [simp]: "mul3 0 = 0"
  by (simp add: mul3_def)

lemma mul3_pow_xor: "(mul3 ^^ k) (a XOR b) = (mul3 ^^ k) a XOR (mul3 ^^ k) b"
  by (induction k) (simp_all add: mul3_xor)

lemma mul3_pow_0: "(mul3 ^^ k) 0 = 0"
  by (induction k) simp_all

definition g_exp :: "nat \<Rightarrow> u8" where
  "g_exp i = EXP_TABLE ! (i mod 255)"

definition g_log :: "u8 \<Rightarrow> nat" where
  "g_log a = unat (LOG_TABLE ! unat a)"

lemma exp_next: "map mul3 (take 255 EXP_TABLE) = tl (take 255 EXP_TABLE) @ [1]"
  by (simp add: EXP_TABLE_def mul3_def)

lemma log_exp: "map g_log (take 255 EXP_TABLE) = [0..<255]"
  by (simp add: g_log_def EXP_TABLE_def LOG_TABLE_def upt_rec)

lemma exp_nonzero: "0 \<notin> set (take 255 EXP_TABLE)"
  by (simp add: EXP_TABLE_def)

lemma length_EXP_TABLE: "length EXP_TABLE = 256"
  by (simp add: EXP_TABLE_def)

lemma g_exp_0: "g_exp 0 = 1"
  by (simp add: g_exp_def EXP_TABLE_def)

lemma g_exp_Suc: "g_exp (Suc i) = mul3 (g_exp i)"
proof -
  define k where "k = i mod 255"
  have k: "k < 255" by (simp add: k_def)
  have "mul3 (EXP_TABLE ! k) = map mul3 (take 255 EXP_TABLE) ! k"
    using k by (simp add: length_EXP_TABLE)
  also have "\<dots> = (tl (take 255 EXP_TABLE) @ [1]) ! k" by (simp only: exp_next)
  also have "\<dots> = (if k = 254 then 1 else EXP_TABLE ! Suc k)"
    using k by (auto simp: nth_append nth_tl length_EXP_TABLE)
  also have "\<dots> = EXP_TABLE ! (Suc k mod 255)"
    using k g_exp_0 by (cases "k = 254") (auto simp: g_exp_def)
  finally show ?thesis by (simp add: g_exp_def k_def mod_Suc_eq)
qed

lemma g_exp_add: "g_exp (i + k) = (mul3 ^^ k) (g_exp i)"
  by (induction k) (simp_all add: g_exp_Suc)

lemma g_log_exp: "g_log (g_exp i) = i mod 255"
proof -
  have "map g_log (take 255 EXP_TABLE) ! (i mod 255) = [0..<255] ! (i mod 255)" by (simp only: log_exp)
  then show ?thesis by (simp add: g_exp_def length_EXP_TABLE)
qed

lemma g_exp_nonzero: "g_exp i \<noteq> 0"
proof -
  have "g_exp i \<in> set (take 255 EXP_TABLE)"
    unfolding in_set_conv_nth by (intro exI [of _ "i mod 255"]) (simp add: g_exp_def length_EXP_TABLE)
  then show ?thesis using exp_nonzero by metis
qed

lemma g_exp_surj: "a \<noteq> 0 \<Longrightarrow> \<exists>i<255. g_exp i = a"
proof -
  have inj: "inj_on g_exp {..<255}"
    by (rule inj_on_inverseI [where g = g_log]) (simp add: g_log_exp)
  have "g_exp ` {..<255} = UNIV - {0}"
  proof (rule card_subset_eq)
    have "card (UNIV :: u8 set) = 256" by (simp add: card_word)
    then show "card (g_exp ` {..<255}) = card (UNIV - {0 :: u8})"
      using inj by (simp add: card_image card_Diff_singleton)
  qed (auto simp: g_exp_nonzero)
  then show "a \<noteq> 0 \<Longrightarrow> \<exists>i<255. g_exp i = a" by (metis (no_types) DiffI UNIV_I imageE lessThan_iff singletonD)
qed

lemma g_log_less: "a \<noteq> 0 \<Longrightarrow> g_log a < 255"
  using g_exp_surj g_log_exp by (metis mod_less_divisor zero_less_numeral)

lemma g_exp_log: "a \<noteq> 0 \<Longrightarrow> g_exp (g_log a) = a"
  using g_exp_surj g_log_exp by (metis mod_less)

lemma g_exp_mod: "g_exp (i mod 255) = g_exp i"
  by (simp add: g_exp_def)

section \<open>The field\<close>

definition gf_mult :: "u8 \<Rightarrow> u8 \<Rightarrow> u8" where
  "gf_mult a b = (if a = 0 \<or> b = 0 then 0 else g_exp (g_log a + g_log b))"

definition gf_inverse :: "u8 \<Rightarrow> u8" where
  "gf_inverse a = (if a = 0 then 0 else g_exp (255 - g_log a))"

lemma gf_mult_zero [simp]: "gf_mult 0 b = 0" "gf_mult a 0 = 0"
  by (simp_all add: gf_mult_def)

lemma gf_mult_exp: "gf_mult a (g_exp k) = (mul3 ^^ k) a"
proof (cases "a = 0")
  case True
  then show ?thesis by (simp add: mul3_pow_0)
next
  case False
  have "g_exp (g_log a + k mod 255) = g_exp (g_log a + k)"
    by (metis g_exp_mod mod_add_right_eq)
  then show ?thesis using False g_exp_add [of "g_log a" k]
    by (simp add: gf_mult_def g_exp_nonzero g_log_exp g_exp_log)
qed

lemma gf_mult_xor: "gf_mult (a XOR b) c = gf_mult a c XOR gf_mult b c"
proof (cases "c = 0")
  case False
  then obtain k where "c = g_exp k" using g_exp_surj by metis
  then show ?thesis by (simp add: gf_mult_exp mul3_pow_xor)
qed simp

lemma gf_mult_commute: "gf_mult a b = gf_mult b a"
  by (simp add: gf_mult_def add.commute)

lemma gf_mult_assoc: "gf_mult (gf_mult a b) c = gf_mult a (gf_mult b c)"
proof -
  have "g_exp ((i mod 255) + k) = g_exp (i + k)" "g_exp (k + (i mod 255)) = g_exp (k + i)" for i k
    by (metis g_exp_mod mod_add_left_eq, metis g_exp_mod mod_add_right_eq)
  then show ?thesis by (simp add: gf_mult_def g_exp_nonzero g_log_exp add.assoc)
qed

lemma gf_mult_inverse: "a \<noteq> 0 \<Longrightarrow> gf_mult (gf_inverse a) a = 1"
proof -
  assume a: "a \<noteq> 0"
  have "g_exp ((255 - g_log a) mod 255 + g_log a) = g_exp (255 - g_log a + g_log a)"
    by (metis g_exp_mod mod_add_left_eq)
  also have "\<dots> = g_exp 255" using g_log_less [OF a] by simp
  also have "\<dots> = 1" using g_exp_mod [of 255] g_exp_0 by simp
  finally show ?thesis using a by (simp add: gf_mult_def gf_inverse_def g_exp_nonzero g_log_exp)
qed

lemma gf_mult_1: "gf_mult 1 a = a"
  using gf_mult_exp [of a 0] by (simp add: gf_mult_commute g_exp_0)

typedef gf = "UNIV :: u8 set"
  morphisms gf_byte Gf by simp

setup_lifting type_definition_gf

instantiation gf :: field
begin

lift_definition zero_gf :: gf is 0 .
lift_definition one_gf :: gf is 1 .
lift_definition plus_gf :: "gf \<Rightarrow> gf \<Rightarrow> gf" is "(XOR)" .
lift_definition minus_gf :: "gf \<Rightarrow> gf \<Rightarrow> gf" is "(XOR)" .
lift_definition uminus_gf :: "gf \<Rightarrow> gf" is "\<lambda>a. a" .
lift_definition times_gf :: "gf \<Rightarrow> gf \<Rightarrow> gf" is gf_mult .
lift_definition inverse_gf :: "gf \<Rightarrow> gf" is gf_inverse .
definition divide_gf :: "gf \<Rightarrow> gf \<Rightarrow> gf" where
  "divide_gf a b = a * inverse b"

instance
proof
  fix a b c :: gf
  show "a + b + c = a + (b + c)" by transfer (simp add: xor.assoc)
  show "a + b = b + a" by transfer (simp add: xor.commute)
  show "0 + a = a" by transfer simp
  show "- a + a = 0" by transfer simp
  show "a - b = a + - b" by transfer simp
  show "a * b * c = a * (b * c)" by transfer (rule gf_mult_assoc)
  show "a * b = b * a" by transfer (rule gf_mult_commute)
  show "1 * a = a" by transfer (rule gf_mult_1)
  show "(a + b) * c = a * c + b * c" by transfer (rule gf_mult_xor)
  show "0 \<noteq> (1 :: gf)" by transfer simp
  show "a \<noteq> 0 \<Longrightarrow> inverse a * a = 1" by transfer (rule gf_mult_inverse)
  show "a div b = a * inverse b" by (rule divide_gf_def)
  show "inverse (0 :: gf) = 0" by transfer (simp add: gf_inverse_def)
qed

end

section \<open>Interpolation\<close>

lemma Gf_add: "Gf (a XOR b) = Gf a + Gf b"
  by (simp add: plus_gf.abs_eq eq_onp_same_args)

lemma Gf_diff: "Gf (a XOR b) = Gf a - Gf b"
  by (simp add: minus_gf.abs_eq eq_onp_same_args)

lemma Gf_0: "Gf 0 = 0"
  by (simp add: zero_gf.abs_eq)

lemma Gf_eq_iff [simp]: "Gf a = Gf b \<longleftrightarrow> a = b"
  by (simp add: Gf_inject)

lemma Gf_mult: "Gf (gf_mult a b) = Gf a * Gf b"
  by (simp add: times_gf.abs_eq eq_onp_same_args)

lemma Gf_exp_add: "Gf (g_exp (i + k)) = Gf (g_exp i) * Gf (g_exp k)"
proof -
  have "gf_mult (g_exp i) (g_exp k) = g_exp (i + k)"
    by (simp add: gf_mult_exp g_exp_add)
  then show ?thesis by (simp add: Gf_mult [symmetric])
qed

lemma Gf_exp_diff:
  assumes "b \<noteq> 0"
  shows "Gf (g_exp (255 - g_log b)) = inverse (Gf b)"
  using assms by (simp add: inverse_gf.abs_eq gf_inverse_def eq_onp_same_args)

lemma scale_byte_eq: "Gf (scale_byte d t) = Gf t * Gf (g_exp d)"
proof (cases "t = 0")
  case True
  then show ?thesis by (simp add: scale_byte_def Gf_0)
next
  case False
  have "scale_byte d t = g_exp (g_log t + d)" using False by (simp add: scale_byte_def g_exp_def g_log_def)
  then show ?thesis using False by (simp add: Gf_exp_add g_exp_log)
qed

lemma lagrange_exponent_eq:
  assumes "length xi = threshold" and "i < threshold" and "distinct xi" and "n \<notin> set xi"
  shows "Gf (g_exp (lagrange_exponent xi n threshold i)) = lagrange_basis (map Gf xi) i (Gf n)"
proof -
  let ?f = "\<lambda>d j. if i \<noteq> j
        then (d + unat (LOG_TABLE ! unat (n XOR xi ! j))
                + (255 - unat (LOG_TABLE ! unat (xi ! i XOR xi ! j)))) mod 255
        else d"
  let ?q = "\<lambda>j. (Gf n - Gf (xi ! j)) / (Gf (xi ! i) - Gf (xi ! j))"
  have step: "Gf (g_exp (foldl ?f d [0..<k])) = Gf (g_exp d) * (\<Prod>j\<in>{..<k} - {i}. ?q j)" if "k \<le> threshold" for k d
    using that
  proof (induction k)
    case 0
    then show ?case by simp
  next
    case (Suc k)
    let ?d = "foldl ?f d [0..<k]"
    show ?case
    proof (cases "i = k")
      case True
      then have "{..<Suc k} - {i} = {..<k} - {i}" by auto
      then show ?thesis using Suc True by simp
    next
      case False
      have a: "n XOR xi ! k \<noteq> 0" using assms(1,4) Suc.prems by (auto simp: xor_eq_0)
      have b: "xi ! i XOR xi ! k \<noteq> 0"
        using assms Suc.prems False by (simp add: xor_eq_0 nth_eq_iff_index_eq)
      have "Gf (g_exp (?d + g_log (n XOR xi ! k) + (255 - g_log (xi ! i XOR xi ! k))))
          = Gf (g_exp ?d) * ?q k"
        using a b by (simp add: Gf_exp_add g_exp_log Gf_exp_diff Gf_diff divide_inverse mult.assoc)
      moreover have "{..<Suc k} - {i} = insert k ({..<k} - {i})" using False by auto
      ultimately show ?thesis using Suc False
        by (simp add: g_exp_mod g_log_def [symmetric] mult.assoc mult.left_commute mult.commute)
    qed
  qed
  have "(\<Prod>j\<in>{..<threshold} - {i}. ?q j) = lagrange_basis (map Gf xi) i (Gf n)"
    unfolding lagrange_basis_def using assms(1,2) by (intro prod.cong) auto
  then show ?thesis
    using step [of threshold 0] by (simp add: lagrange_exponent_def g_exp_0 one_gf.abs_eq [symmetric])
qed

definition column :: "bytes list \<Rightarrow> nat \<Rightarrow> nat \<Rightarrow> gf list" where
  "column yi threshold j = map (\<lambda>i. Gf (yi ! i ! j)) [0..<threshold]"

lemma interpolate_lagrange:
  assumes "length xi = threshold" and "distinct xi" and "\<forall>i<threshold. len \<le> length (yi ! i)"
  shows "length (interpolate xi yi n len threshold) = len"
    and "j < len \<Longrightarrow> Gf (interpolate xi yi n len threshold ! j)
          = lagrange (map Gf xi) (column yi threshold j) (Gf n)"
proof -
  have "length (interpolate xi yi n len threshold) = len \<and>
    (j < len \<longrightarrow> Gf (interpolate xi yi n len threshold ! j) = lagrange (map Gf xi) (column yi threshold j) (Gf n))"
    for j
  proof (cases "find (\<lambda>i. n = xi ! i) [0..<threshold]")
    case (Some i)
    then have i: "i < threshold" "n = xi ! i" by (auto simp: find_Some_iff)
    have "distinct (map Gf xi)" using assms(2) by (simp add: distinct_map inj_on_def)
    then have "lagrange (map Gf xi) (column yi threshold j) (map Gf xi ! i) = column yi threshold j ! i"
      by (rule lagrange_node) (use i assms(1) in simp)
    then show ?thesis using Some i assms(1,3) by (simp add: interpolate_def column_def)
  next
    case None
    then have n: "n \<notin> set xi" using assms(1) by (auto simp: find_None_iff in_set_conv_nth)
    let ?d = "lagrange_exponent xi n threshold"
    let ?step = "\<lambda>result i. let d = ?d i in map (\<lambda>j. result ! j XOR scale_byte d (yi ! i ! j)) [0..<len]"
    have loop: "length (foldl ?step (replicate len 0) [0..<k]) = len \<and>
        (j < len \<longrightarrow> Gf (foldl ?step (replicate len 0) [0..<k] ! j)
           = (\<Sum>i<k. Gf (yi ! i ! j) * lagrange_basis (map Gf xi) i (Gf n)))" if "k \<le> threshold" for k
      using that
    proof (induction k)
      case 0
      then show ?case by (simp add: Gf_0)
    next
      case (Suc k)
      then have "Gf (g_exp (?d k)) = lagrange_basis (map Gf xi) k (Gf n)"
        by (intro lagrange_exponent_eq assms(1,2) n) simp
      then show ?case using Suc by (simp add: Let_def Gf_add scale_byte_eq)
    qed
    have "lagrange (map Gf xi) (column yi threshold j) (Gf n)
        = (\<Sum>i<threshold. Gf (yi ! i ! j) * lagrange_basis (map Gf xi) i (Gf n))"
      unfolding lagrange_def column_def using assms(1) by (intro sum.cong) auto
    then show ?thesis using loop [of threshold] None by (simp add: interpolate_def)
  qed
  then show "length (interpolate xi yi n len threshold) = len"
    and "j < len \<Longrightarrow> Gf (interpolate xi yi n len threshold ! j)
          = lagrange (map Gf xi) (column yi threshold j) (Gf n)"
    by auto
qed

text \<open>
  Sampling the polynomial through \<open>t\<close> points at \<open>t\<close> other points and interpolating the samples
  gives the value of the original polynomial everywhere.
\<close>

lemma interpolate_resample:
  assumes "length xi = t" and "distinct xi" and "\<forall>i<t. len \<le> length (yi ! i)"
    and "length zs = t" and "distinct zs"
    and "\<forall>i<t. si ! i = interpolate xi yi (zs ! i) len t"
  shows "interpolate zs si n len t = interpolate xi yi n len t"
proof (rule nth_equalityI)
  have si: "\<forall>i<t. len \<le> length (si ! i)"
    using assms(6) interpolate_lagrange(1) [OF assms(1-3)] by simp
  note poly = interpolate_lagrange [OF assms(1-3)] and poly' = interpolate_lagrange [OF assms(4,5) si]
  show "length (interpolate zs si n len t) = length (interpolate xi yi n len t)"
    by (simp add: poly(1) poly'(1))
  fix j assume "j < length (interpolate zs si n len t)"
  then have j: "j < len" by (simp add: poly'(1))
  have "column si t j = map (lagrange (map Gf xi) (column yi t j)) (map Gf zs)"
    by (rule nth_equalityI) (simp_all add: column_def assms(4,6) poly(2) [OF j, unfolded column_def])
  then have "Gf (interpolate zs si n len t ! j)
      = lagrange (map Gf zs) (map (lagrange (map Gf xi) (column yi t j)) (map Gf zs)) (Gf n)"
    by (simp only: poly'(2) [OF j])
  also have "\<dots> = lagrange (map Gf xi) (column yi t j) (Gf n)"
    using assms by (subst lagrange_resample) (auto simp: distinct_map inj_on_def)
  also have "\<dots> = Gf (interpolate xi yi n len t ! j)" by (simp only: poly(2) [OF j])
  finally show "interpolate zs si n len t ! j = interpolate xi yi n len t ! j" by simp
qed

lemma interpolate_node:
  assumes "length xi = t" and "i < t" and "distinct xi" and "length (yi ! i) = len"
  shows "interpolate xi yi (xi ! i) len t = yi ! i"
proof -
  have "find (\<lambda>k. xi ! i = xi ! k) [0..<t] = Some i"
    using assms by (auto simp: find_Some_iff nth_eq_iff_index_eq intro!: exI [of _ i])
  then show ?thesis using assms(4) by (simp add: interpolate_def)
qed

text \<open>
  The code's interpolation is polynomial interpolation. For distinct points, every byte of the
  result of \<^verbatim>\<open>interpolate\<close> is, in GF(256), the value at \<open>n\<close> of the Lagrange polynomial through the
  corresponding bytes of the points, computed by the code with logarithm tables and exponents
  modulo 255 only.
\<close>

theorem interpolate_is_polynomial:
  assumes "length xi = threshold" and "distinct xi" and "\<forall>i<threshold. len \<le> length (yi ! i)" and "j < len"
  shows "Gf (interpolate xi yi n len threshold ! j)
       = lagrange (map Gf xi) (map (\<lambda>i. Gf (yi ! i ! j)) [0..<threshold]) (Gf n)
     \<and> length (interpolate xi yi n len threshold) = len"
  using interpolate_lagrange [OF assms(1-3)] assms(4) by (simp add: column_def)

lemma interpolate_is_polynomial_witness:
  "Gf (interpolate [1, 2] [[10, 20], [30, 40]] 3 2 2 ! 1)
     = lagrange (map Gf [1, 2]) (map (\<lambda>i. Gf ([[10, 20], [30, 40]] ! i ! 1)) [0..<2]) (Gf 3)
   \<and> length (interpolate [1, 2] [[10, 20], [30, 40]] 3 2 2) = 2"
  by (rule interpolate_is_polynomial) (simp_all add: less_Suc_eq numeral_2_eq_2)
end
