(* ===== verification/Shamir.thy ===== *)
theory Shamir
  imports Gf256
begin

text \<open>
  Secret sharing, \<^verbatim>\<open>SplitSecret\<close> and \<^verbatim>\<open>_recover_secret\<close> of \<^verbatim>\<open>src/crypto/slip39/slip39.c\<close>. The
  polynomial goes through random values at the first indices, a digest of the secret at 254 and the
  secret at 255. The random generator and HMAC-SHA256 are parameters: \<open>random_buffer i\<close> is the
  output of the \<open>i\<close>-th call, \<open>hmac_sha256 key msg\<close> the digest.
\<close>

section \<open>Definitions\<close>

definition DIGEST_INDEX :: u8 where "DIGEST_INDEX = 254"
definition SECRET_INDEX :: u8 where "SECRET_INDEX = 255"

definition SLIP39_INVALID_GROUP_THRESHOLD :: int where "SLIP39_INVALID_GROUP_THRESHOLD = -4"

text \<open>The points of the polynomial: their indices and their values.\<close>

definition split_xi :: "nat \<Rightarrow> bytes" where
  "split_xi threshold = map of_nat [0..<threshold - 2] @ [DIGEST_INDEX, SECRET_INDEX]"

definition digest_share :: "(bytes \<Rightarrow> bytes \<Rightarrow> bytes) \<Rightarrow> bytes \<Rightarrow> bytes \<Rightarrow> bytes" where
  "digest_share hmac_sha256 r secret = take 4 (hmac_sha256 r secret) @ r"

definition split_shares ::
  "(bytes \<Rightarrow> bytes \<Rightarrow> bytes) \<Rightarrow> (nat \<Rightarrow> bytes) \<Rightarrow> nat \<Rightarrow> bytes \<Rightarrow> bytes list" where
  "split_shares hmac_sha256 random_buffer threshold secret =
     map random_buffer [0..<threshold - 2]
     @ [digest_share hmac_sha256 (random_buffer (threshold - 2)) secret, secret]"

text \<open>
  The shares in index order (the rows of \<^verbatim>\<open>groupsBuff\<close>), or the error code. The outer \<open>None\<close> is a
  write before the start of \<^verbatim>\<open>xi\<close>: a threshold of one with more than one share, since the code
  takes the short way out only when there is one share.
\<close>

definition SplitSecret ::
  "(bytes \<Rightarrow> bytes \<Rightarrow> bytes) \<Rightarrow> (nat \<Rightarrow> bytes) \<Rightarrow> nat \<Rightarrow> nat \<Rightarrow> bytes \<Rightarrow> (int + bytes list) option" where
  "SplitSecret hmac_sha256 random_buffer share_count threshold enMasterSecret =
     (if threshold = 0 \<or> threshold > share_count \<or> share_count > 16
      then Some (Inl SLIP39_INVALID_GROUP_THRESHOLD)
      else if share_count = 1 then Some (Inr [enMasterSecret])
      else if threshold < 2 then None
      else Some (Inr (map (\<lambda>i. interpolate (split_xi threshold)
             (split_shares hmac_sha256 random_buffer threshold enMasterSecret)
             (of_nat i) (length enMasterSecret) threshold) [0..<share_count])))"

definition recover_secret ::
  "(bytes \<Rightarrow> bytes \<Rightarrow> bytes) \<Rightarrow> nat \<Rightarrow> nat \<Rightarrow> bytes \<Rightarrow> bytes list \<Rightarrow> int + bytes" where
  "recover_secret hmac_sha256 t sl gsi gs =
     (if t = 1 then Inr (take sl (gs ! 0))
      else let shared_secret = interpolate gsi gs SECRET_INDEX sl t;
               digest_share = interpolate gsi gs DIGEST_INDEX sl t;
               hash = hmac_sha256 (drop 4 digest_share) shared_secret
           in if take 4 digest_share \<noteq> take 4 hash then Inl (-3) else Inr shared_secret)"

section \<open>Recovery\<close>

lemma split_xi_props:
  assumes "2 \<le> t" and "t \<le> 16"
  shows "length (split_xi t) = t" and "distinct (split_xi t)"
    and "split_xi t ! (t - 1) = SECRET_INDEX" and "split_xi t ! (t - 2) = DIGEST_INDEX"
proof -
  have inj: "inj_on (of_nat :: nat \<Rightarrow> u8) {0..<t - 2}"
  proof (rule inj_onI)
    fix i j assume "i \<in> {0..<t - 2}" "j \<in> {0..<t - 2}" "(of_nat i :: u8) = of_nat j"
    then show "i = j" using assms(2) by (simp add: word_of_nat_eq_iff take_bit_nat_eq_self)
  qed
  have neq: "(of_nat i :: u8) \<noteq> 254 \<and> (of_nat i :: u8) \<noteq> 255" if "i < t - 2" for i
  proof -
    have "i < 254" using that assms(2) by simp
    then show ?thesis by (simp add: word_unat_eq_iff unat_of_nat take_bit_nat_eq_self)
  qed
  show "distinct (split_xi t)"
    using inj neq by (auto simp: split_xi_def distinct_map DIGEST_INDEX_def SECRET_INDEX_def)
  show "length (split_xi t) = t" using assms(1) by (simp add: split_xi_def)
  show "split_xi t ! (t - 1) = SECRET_INDEX" "split_xi t ! (t - 2) = DIGEST_INDEX"
  proof -
    have "\<not> t - 1 < t - 2" "t - 1 - (t - 2) = 1" using assms(1) by auto
    then show "split_xi t ! (t - 1) = SECRET_INDEX" "split_xi t ! (t - 2) = DIGEST_INDEX"
      by (simp_all add: split_xi_def nth_append)
  qed
qed

text \<open>What the random generator and the hash deliver: buffers of the requested lengths.\<close>

definition split_inputs ::
  "(bytes \<Rightarrow> bytes \<Rightarrow> bytes) \<Rightarrow> (nat \<Rightarrow> bytes) \<Rightarrow> nat \<Rightarrow> bytes \<Rightarrow> bool" where
  "split_inputs hmac_sha256 random_buffer threshold secret \<longleftrightarrow>
     4 \<le> length secret \<and> (\<forall>k m. length (hmac_sha256 k m) = 32) \<and>
     (\<forall>i<threshold - 2. length (random_buffer i) = length secret) \<and>
     length (random_buffer (threshold - 2)) = length secret - 4"

lemma recover_split:
  assumes "2 \<le> t" and "t \<le> share_count" and "share_count \<le> 16" and "split_inputs hmac rnd t secret"
    and "length ids = t" and "distinct ids" and "\<forall>i\<in>set ids. i < share_count"
  shows "\<exists>shares. SplitSecret hmac rnd share_count t secret = Some (Inr shares) \<and>
    length shares = share_count \<and> (\<forall>s\<in>set shares. length s = length secret) \<and>
    recover_secret hmac t (length secret) (map of_nat ids) (map ((!) shares) ids) = Inr secret"
proof -
  let ?xi = "split_xi t" and ?yi = "split_shares hmac rnd t secret" and ?len = "length secret"
  define shares where "shares = map (\<lambda>i. interpolate ?xi ?yi (of_nat i) ?len t) [0..<share_count]"
  have t16: "t \<le> 16" using assms(2,3) by simp
  note xi = split_xi_props [OF assms(1) t16]
  have ylen: "\<forall>i<t. length (?yi ! i) = ?len"
    using assms(1,4) by (auto simp: split_shares_def nth_append split_inputs_def digest_share_def nth_Cons' )
  then have ylen': "\<forall>i<t. ?len \<le> length (?yi ! i)" by simp
  have secret: "?yi ! (t - 1) = secret" and digest: "?yi ! (t - 2) = digest_share hmac (rnd (t - 2)) secret"
  proof -
    have "\<not> t - 1 < t - 2" "t - 1 - (t - 2) = 1" using assms(1) by auto
    then show "?yi ! (t - 1) = secret" "?yi ! (t - 2) = digest_share hmac (rnd (t - 2)) secret"
      by (simp_all add: split_shares_def nth_append)
  qed
  have split: "SplitSecret hmac rnd share_count t secret = Some (Inr shares)"
    using assms(1-3) by (simp add: SplitSecret_def shares_def)
  have slen: "\<forall>s\<in>set shares. length s = ?len"
    using interpolate_lagrange(1) [OF xi(1,2) ylen'] by (auto simp: shares_def)
  have zs: "length (map of_nat ids :: bytes) = t" "distinct (map of_nat ids :: bytes)"
  proof -
    have "inj_on (of_nat :: nat \<Rightarrow> u8) (set ids)"
    proof (rule inj_onI)
      fix i j assume "i \<in> set ids" "j \<in> set ids" "(of_nat i :: u8) = of_nat j"
      moreover from this assms(3,7) have "i < 256" "j < 256" by auto
      ultimately show "i = j" by (simp add: word_of_nat_eq_iff take_bit_nat_eq_self)
    qed
    then show "distinct (map of_nat ids :: bytes)" using assms(6) by (simp add: distinct_map)
  qed (simp add: assms(5))
  have si: "\<forall>i<t. map ((!) shares) ids ! i = interpolate ?xi ?yi (map of_nat ids ! i) ?len t"
    using assms(5,7) by (simp add: shares_def)
  have again: "interpolate (map of_nat ids) (map ((!) shares) ids) n ?len t = interpolate ?xi ?yi n ?len t" for n
    by (rule interpolate_resample [OF xi(1,2) ylen' zs si])
  have s: "interpolate ?xi ?yi SECRET_INDEX ?len t = secret"
    using interpolate_node [OF xi(1) _ xi(2), of "t - 1" ?yi ?len] assms(1) ylen xi(3) secret by simp
  have d: "interpolate ?xi ?yi DIGEST_INDEX ?len t = digest_share hmac (rnd (t - 2)) secret"
    using interpolate_node [OF xi(1) _ xi(2), of "t - 2" ?yi ?len] assms(1) ylen [rule_format, of "t - 2"] xi(4) digest by simp
  have "recover_secret hmac t ?len (map of_nat ids) (map ((!) shares) ids) = Inr secret"
  proof -
    have h: "length (hmac (rnd (t - 2)) secret) = 32" using assms(4) by (simp add: split_inputs_def)
    have "take 4 (digest_share hmac (rnd (t - 2)) secret) = take 4 (hmac (rnd (t - 2)) secret)"
      and "drop 4 (digest_share hmac (rnd (t - 2)) secret) = rnd (t - 2)"
      using h by (simp_all add: digest_share_def)
    moreover have "t \<noteq> 1" using assms(1) by simp
    ultimately show ?thesis unfolding recover_secret_def Let_def again s d by simp
  qed
  moreover have "length shares = share_count" by (simp add: shares_def)
  ultimately show ?thesis using split slen by blast
qed

text \<open>
  C13: any threshold of the shares recovers the secret. For 2 \<^verbatim>\<open><=\<close> threshold \<^verbatim>\<open><=\<close> count \<^verbatim>\<open><=\<close> 16,
  whatever the random buffers and the hash function, \<^verbatim>\<open>SplitSecret\<close> succeeds with one share of the
  secret's length per member, and \<^verbatim>\<open>_recover_secret\<close> applied to any \<open>threshold\<close> different shares,
  in any order, passes the digest check and returns the secret.
\<close>

theorem SplitSecret_recover:
  assumes "2 \<le> t" and "t \<le> share_count" and "share_count \<le> 16" and "split_inputs hmac rnd t secret"
    and "length ids = t" and "distinct ids" and "\<forall>i\<in>set ids. i < share_count"
  shows "\<exists>shares. SplitSecret hmac rnd share_count t secret = Some (Inr shares) \<and>
    length shares = share_count \<and> (\<forall>s\<in>set shares. length s = length secret) \<and>
    recover_secret hmac t (length secret) (map of_nat ids) (map ((!) shares) ids) = Inr secret"
  using assms by (rule recover_split)

lemma SplitSecret_recover_witness:
  "\<exists>shares. SplitSecret (\<lambda>k m. replicate 32 5) (\<lambda>i. if i = 1 then replicate 12 3 else replicate 16 2) 5 3
        (replicate 16 9) = Some (Inr shares) \<and>
    length shares = 5 \<and> (\<forall>s\<in>set shares. length s = length (replicate 16 (9 :: u8))) \<and>
    recover_secret (\<lambda>k m. replicate 32 5) 3 (length (replicate 16 (9 :: u8))) (map of_nat [4, 0, 2])
      (map ((!) shares) [4, 0, 2]) = Inr (replicate 16 9)"
  by (rule SplitSecret_recover) (simp_all add: split_inputs_def)

text \<open>
  \<^verbatim>\<open>SplitSecret\<close> rejects exactly the parameters outside 0 \<^verbatim>\<open><\<close> threshold \<^verbatim>\<open><=\<close> count \<^verbatim>\<open><=\<close> 16, and of
  the ones it accepts, exactly a threshold of one with several shares makes it write before the
  start of its array, although its comment promises copies of the secret there.
\<close>

theorem SplitSecret_parameters:
  "(SplitSecret hmac rnd share_count t secret = Some (Inl e)
      \<longleftrightarrow> \<not> (0 < t \<and> t \<le> share_count \<and> share_count \<le> 16) \<and> e = SLIP39_INVALID_GROUP_THRESHOLD) \<and>
   (SplitSecret hmac rnd share_count t secret = None \<longleftrightarrow> t = 1 \<and> 1 < share_count \<and> share_count \<le> 16)"
  by (auto simp: SplitSecret_def)

end
