(* ===== verification/Slip39Share.thy ===== *)
theory Slip39Share
  imports Rs1024 ShareWords Shamir
begin

text \<open>
  The encryption of the master secret and the encoding of one share as mnemonic words,
  \<^verbatim>\<open>MasterSecretEncrypt\<close>, \<^verbatim>\<open>_decrypt\<close>, \<^verbatim>\<open>FormatShareMnemonic\<close> and \<^verbatim>\<open>DecodeMnemonics\<close> of
  \<^verbatim>\<open>src/crypto/slip39/slip39.c\<close>. The key derivation of the rounds,
  \<^verbatim>\<open>pbkdf2_hmac_sha256_slip39\<close>, is a parameter: \<open>pbkdf2 pass salt iterations keylen\<close>.
\<close>

type_synonym pbkdf2 = "bytes \<Rightarrow> bytes \<Rightarrow> u32 \<Rightarrow> nat \<Rightarrow> bytes"

section \<open>The Feistel network\<close>

definition PBKDF2_BASE_ITERATION_COUNT :: u32 where "PBKDF2_BASE_ITERATION_COUNT = 2500"

definition get_salt :: "u16 \<Rightarrow> bool \<Rightarrow> bytes" where
  "get_salt ident eb =
     (if eb then [] else cstr ''shamir'' @ [ucast (drop_bit 8 ident), ucast (ident AND 255)])"

text \<open>One round: \<open>(L, R) = (R, L xor F(i, R))\<close>.\<close>

definition feistel_round :: "(nat \<Rightarrow> bytes \<Rightarrow> bytes) \<Rightarrow> bytes \<times> bytes \<Rightarrow> nat \<Rightarrow> bytes \<times> bytes" where
  "feistel_round f = (\<lambda>(left, right) i. (right, xorb left (f i right)))"

text \<open>
  The round function of \<^verbatim>\<open>MasterSecretEncrypt\<close>: the pass phrase is not used, only its length
  (an 8-bit number) is; the first byte of the zeroed buffer is the round number.
\<close>

definition encrypt_round_key :: "pbkdf2 \<Rightarrow> u8 \<Rightarrow> bool \<Rightarrow> u16 \<Rightarrow> bytes \<Rightarrow> nat \<Rightarrow> bytes \<Rightarrow> bytes" where
  "encrypt_round_key pbkdf2 iterationExponent eb ident passPhrase i right =
     pbkdf2 ((replicate ((length passPhrase + 1) mod 256) 0)[0 := of_nat i]) (get_salt ident eb @ right)
       (push_bit (unat iterationExponent) PBKDF2_BASE_ITERATION_COUNT) (length right)"

definition MasterSecretEncrypt :: "pbkdf2 \<Rightarrow> bytes \<Rightarrow> u8 \<Rightarrow> bool \<Rightarrow> u16 \<Rightarrow> bytes \<Rightarrow> bytes" where
  "MasterSecretEncrypt pbkdf2 masterSecret iterationExponent eb ident passPhrase =
     (let halfLen = length masterSecret div 2;
          left = take halfLen masterSecret;
          right = take halfLen (drop halfLen masterSecret);
          (left, right) = foldl (feistel_round (encrypt_round_key pbkdf2 iterationExponent eb ident passPhrase))
            (left, right) [0, 1, 2, 3]
      in right @ left)"

definition decrypt_round_key :: "pbkdf2 \<Rightarrow> u8 \<Rightarrow> bool \<Rightarrow> u16 \<Rightarrow> bytes \<Rightarrow> nat \<Rightarrow> bytes \<Rightarrow> bytes" where
  "decrypt_round_key pbkdf2 ie eb ident pp i r =
     pbkdf2 (of_nat i # pp) (get_salt ident eb @ r)
       (push_bit (unat ie) PBKDF2_BASE_ITERATION_COUNT) (length r)"

definition decrypt :: "pbkdf2 \<Rightarrow> bytes \<Rightarrow> nat \<Rightarrow> bytes \<Rightarrow> u8 \<Rightarrow> bool \<Rightarrow> u16 \<Rightarrow> int + bytes" where
  "decrypt pbkdf2 ems msl pp ie eb ident =
     (let emsl = length ems; hl = emsl div 2
      in if msl \<noteq> emsl then Inl (-1)
         else if odd emsl then Inl (-2)
         else let (l, r) = foldl (feistel_round (decrypt_round_key pbkdf2 ie eb ident pp))
                     (take hl ems, drop hl ems) [3, 2, 1, 0]
              in Inr (r @ l))"

text \<open>
  What a Feistel network needs of its round function: as many bytes as it is given. Running the
  rounds backwards on the swapped halves then undoes them, whatever the function is.
\<close>

locale feistel =
  fixes f :: "nat \<Rightarrow> bytes \<Rightarrow> bytes"
  assumes length_f: "length (f i r) = length r"
begin

lemma length_rounds:
  "length l = length r \<Longrightarrow> (case foldl (feistel_round f) (l, r) ks of (l', r') \<Rightarrow> length l' = length r \<and> length r' = length r)"
proof (induction ks arbitrary: l r)
  case (Cons k ks)
  have "length r = length (xorb l (f k r))" using Cons.prems by (simp add: length_f)
  then show ?case using Cons.IH [of r "xorb l (f k r)"] Cons.prems
    by (simp add: feistel_round_def length_f)
qed simp

lemma round_undo:
  "length l = length r \<Longrightarrow> feistel_round f (prod.swap (feistel_round f (l, r) k)) k = (r, l)"
  by (simp add: feistel_round_def length_f xorb_cancel)

lemma rounds_undo:
  "length l = length r \<Longrightarrow>
   foldl (feistel_round f) (prod.swap (foldl (feistel_round f) (l, r) ks)) (rev ks) = (r, l)"
proof (induction ks arbitrary: l r)
  case Nil
  then show ?case by simp
next
  case (Cons k ks)
  obtain l1 r1 where one: "feistel_round f (l, r) k = (l1, r1)" by fastforce
  have len: "length l1 = length r1" using Cons.prems one by (auto simp: feistel_round_def length_f)
  show ?case
    using Cons.IH [OF len] round_undo [OF Cons.prems, of k] one by simp
qed

end

text \<open>The documented contract of the key derivation: it fills the whole key buffer.\<close>

definition pbkdf2_ok :: "pbkdf2 \<Rightarrow> bool" where
  "pbkdf2_ok pbkdf2 \<longleftrightarrow> (\<forall>pass salt iterations keylen. length (pbkdf2 pass salt iterations keylen) = keylen)"

text \<open>\<open>fit_key g\<close> cuts or pads what \<open>g\<close> returns, so that it always meets the contract.\<close>

definition fit_key :: "pbkdf2 \<Rightarrow> pbkdf2" where
  "fit_key g = (\<lambda>pass salt iterations keylen. take keylen (g pass salt iterations keylen @ replicate keylen 0))"

lemma fit_key_ok: "pbkdf2_ok (fit_key g)"
  by (auto simp: pbkdf2_ok_def fit_key_def min_def)

lemma fit_key_id: "pbkdf2_ok g \<Longrightarrow> fit_key g = g"
  by (simp add: fit_key_def pbkdf2_ok_def fun_eq_iff)

interpretation master_key: feistel "encrypt_round_key (fit_key g) ie eb ident passPhrase"
  for g ie eb ident passPhrase
  by unfold_locales (simp add: encrypt_round_key_def fit_key_ok [unfolded pbkdf2_ok_def])

lemma round_keys_empty: "decrypt_round_key g ie eb ident [] = encrypt_round_key g ie eb ident []"
  by (simp add: fun_eq_iff encrypt_round_key_def decrypt_round_key_def)

lemma decrypt_encrypt:
  assumes "pbkdf2_ok pbkdf2" and "even (length ms)" and "length ms = n"
  shows "decrypt pbkdf2 (MasterSecretEncrypt pbkdf2 ms ie eb ident []) n [] ie eb ident = Inr ms"
    and "length (MasterSecretEncrypt pbkdf2 ms ie eb ident []) = length ms"
proof -
  let ?f = "feistel_round (encrypt_round_key pbkdf2 ie eb ident [])" and ?h = "length ms div 2"
  have fit: "fit_key pbkdf2 = pbkdf2" by (rule fit_key_id [OF assms(1)])
  have h: "length ms = ?h + ?h" using assms(2) by (auto elim!: evenE)
  let ?l = "take ?h ms" and ?r = "drop ?h ms"
  have len: "length ?l = ?h" "length ?r = ?h" "take ?h ?r = ?r" using h by auto
  obtain l r where lr: "foldl ?f (?l, ?r) [0, 1, 2, 3] = (l, r)" by fastforce
  have lr_len: "length l = ?h" "length r = ?h"
    using master_key.length_rounds [of ?l ?r pbkdf2 ie eb ident "[]" "[0, 1, 2, 3]", unfolded fit] lr len by auto
  have enc: "MasterSecretEncrypt pbkdf2 ms ie eb ident [] = r @ l"
    unfolding MasterSecretEncrypt_def Let_def len(3) lr by simp
  then show n: "length (MasterSecretEncrypt pbkdf2 ms ie eb ident []) = length ms"
    using lr_len h by simp
  have "foldl ?f (r, l) [3, 2, 1, 0] = (?r, ?l)"
    using master_key.rounds_undo [of ?l ?r pbkdf2 ie eb ident "[]" "[0, 1, 2, 3]", unfolded fit lr] len by simp
  moreover have half: "(length r + length l) div 2 = ?h" using lr_len by simp
  ultimately show "decrypt pbkdf2 (MasterSecretEncrypt pbkdf2 ms ie eb ident []) n [] ie eb ident = Inr ms"
    using n assms(2,3) lr_len unfolding enc decrypt_def Let_def round_keys_empty
    by (simp add: half)
qed

text \<open>
  With the empty pass phrase the firmware uses when it creates shares, decrypting the encrypted
  master secret gives the master secret back, and encryption preserves its length, whatever the
  key derivation computes, for every even length, iteration exponent and identifier and with or
  without the salt.
\<close>

theorem MasterSecret_round_trip:
  assumes "pbkdf2_ok pbkdf2" and "even (length ms)"
  shows "decrypt pbkdf2 (MasterSecretEncrypt pbkdf2 ms ie eb ident []) (length ms) [] ie eb ident = Inr ms
    \<and> length (MasterSecretEncrypt pbkdf2 ms ie eb ident []) = length ms"
  using decrypt_encrypt [OF assms refl] by simp

definition example_pbkdf2 :: pbkdf2 where
  "example_pbkdf2 = fit_key (\<lambda>pass salt iterations keylen. pass @ salt)"

lemma MasterSecret_round_trip_witness:
  "decrypt example_pbkdf2 (MasterSecretEncrypt example_pbkdf2 [1, 2, 3, 4] 0 False 77 []) (length [1, 2, 3, 4 :: u8])
     [] 0 False 77 = Inr [1, 2, 3, 4]
   \<and> length (MasterSecretEncrypt example_pbkdf2 [1, 2, 3, 4] 0 False 77 []) = length [1, 2, 3, 4 :: u8]"
  by (rule MasterSecret_round_trip) (simp_all add: example_pbkdf2_def fit_key_ok)

section \<open>Share mnemonics\<close>

record slip39_shared =
  share_id :: u16
  extendableBackupFlag :: bool
  iteration :: u8
  groupIndex :: u8
  groupThreshold :: u8
  groupCount :: u8
  memberIndex :: u8
  memberThreshold :: u8
  valueLength :: nat
  share_value :: bytes

definition METADATA_LENGTH_WORDS :: nat where "METADATA_LENGTH_WORDS = 7"

text \<open>
  The words of a share: four words of metadata, the packed value, three words of checksum.
  \<open>None\<close> is a destination too short for the value (the code then goes on with the count -1).
\<close>

definition FormatShareMnemonic :: "slip39_shared \<Rightarrow> nat \<Rightarrow> u16 list option" where
  "FormatShareMnemonic shared destination_length =
     (let gt = (ucast (groupThreshold shared) - 1) AND 15 :: u16;
          gc = (ucast (groupCount shared) - 1) AND 15 :: u16;
          mi = ucast (memberIndex shared) AND 15 :: u16;
          mt = (ucast (memberThreshold shared) - 1) AND 15 :: u16;
          d0 = drop_bit 5 (share_id shared) AND 1023;
          d1 = push_bit 5 (share_id shared AND 31)
               OR push_bit 4 (if extendableBackupFlag shared then 1 else 0)
               OR (ucast (iteration shared) AND 15);
          d2 = push_bit 6 (ucast (groupIndex shared) AND 15) OR push_bit 2 (gt AND 15) OR drop_bit 2 (gc AND 15);
          d3 = push_bit 8 (gc AND 15) OR push_bit 4 (mi AND 15) OR (mt AND 15)
      in case slip39_words_for_data (take (valueLength shared) (share_value shared))
                (destination_length - METADATA_LENGTH_WORDS) of
           None \<Rightarrow> None
         | Some ws \<Rightarrow> Some (rs1024_create_checksum ([d0, d1, d2, d3] @ ws @ [0, 0, 0]) (extendableBackupFlag shared)))"

definition SLIP39_INVALID_MNEMONIC_CHECKSUM :: int where "SLIP39_INVALID_MNEMONIC_CHECKSUM = -2"

text \<open>
  The share decoded from the words, or the error code. The group count is an 8-bit field: the two
  high bits that the code shifts by eight are lost.
\<close>

definition DecodeMnemonics :: "u16 list \<Rightarrow> int + slip39_shared" where
  "DecodeMnemonics wordsIndex =
     (let w0 = wordsIndex ! 0; w1 = wordsIndex ! 1; w2 = wordsIndex ! 2; w3 = wordsIndex ! 3;
          eb = bit w1 4
      in if \<not> rs1024_verify_checksum wordsIndex eb then Inl SLIP39_INVALID_MNEMONIC_CHECKSUM
         else
           let shard = \<lparr>share_id = push_bit 5 w0 OR drop_bit 5 w1, extendableBackupFlag = eb,
                 iteration = ucast (w1 AND 15), groupIndex = ucast (drop_bit 6 w2),
                 groupThreshold = ucast ((drop_bit 2 w2 AND 15) + 1),
                 groupCount = ucast ((push_bit 8 (w2 AND 3) OR (drop_bit 8 w3 AND 3)) + 1),
                 memberIndex = ucast (drop_bit 4 w3 AND 15), memberThreshold = ucast ((w3 AND 15) + 1),
                 valueLength = 0, share_value = []\<rparr>
           in if groupThreshold shard > groupCount shard then Inl SLIP39_INVALID_GROUP_THRESHOLD
              else case slip39_data_for_words (take (length wordsIndex - 7) (drop 4 wordsIndex)) 32 of
                     Inl e \<Rightarrow> Inl e
                   | Inr v \<Rightarrow> Inr (shard\<lparr>valueLength := length v, share_value := v\<rparr>))"

section \<open>Round trip\<close>

text \<open>The shares the firmware creates and the mnemonic can hold: up to four groups.\<close>

definition wf_shared :: "slip39_shared \<Rightarrow> bool" where
  "wf_shared s \<longleftrightarrow> share_id s < 2 ^ 15 \<and> iteration s < 16 \<and> groupIndex s < 16 \<and>
     1 \<le> groupThreshold s \<and> groupThreshold s \<le> groupCount s \<and> groupCount s \<le> 4 \<and>
     memberIndex s < 16 \<and> 1 \<le> memberThreshold s \<and> memberThreshold s \<le> 16 \<and>
     valueLength s = length (share_value s) \<and> length (share_value s) \<le> 32 \<and> packable (length (share_value s))"

lemma and_15: "(w :: 'a::len word) AND 15 = take_bit 4 w"
  by (simp add: take_bit_eq_mask mask_eq_exp_minus_1)

lemma and_31: "(w :: 'a::len word) AND 31 = take_bit 5 w"
  by (simp add: take_bit_eq_mask mask_eq_exp_minus_1)

lemma and_3: "(w :: 'a::len word) AND 3 = take_bit 2 w"
  by (simp add: take_bit_eq_mask mask_eq_exp_minus_1)

lemma small_u8: "(w :: u8) < 16 \<Longrightarrow> bit w k \<Longrightarrow> k < 4"
  using word_bit_below [of w 4 k] by (simp add: word_less_nat_alt)

lemma small_bits4: "(w :: u16) < 16 \<Longrightarrow> bit w k \<Longrightarrow> k < 4"
  using word_bit_below [of w 4 k] by (simp add: word_less_nat_alt)

lemma small_bits2: "(w :: u16) < 4 \<Longrightarrow> bit w k \<Longrightarrow> k < 2"
  using word_bit_below [of w 2 k] by (simp add: word_less_nat_alt)

lemma ucast_u8_u16: "(ucast (ucast (g :: u8) :: u16) :: u8) = g"
  by (rule bit_word_eqI) (auto simp: bit_simps)

text \<open>A count between 1 and 16 (or 4), less one, in the width the code computes with.\<close>

lemma minus_one:
  fixes g :: u8
  assumes "1 \<le> g"
  shows "unat (ucast g - 1 :: u16) = unat g - 1" and "ucast ((ucast g - 1 :: u16) + 1) = g"
proof -
  have g: "unat (ucast g :: u16) = unat g" by (simp add: unsigned_ucast_eq take_bit_nat_eq_self unsigned_less [THEN less_trans])
  have "(1 :: u16) \<le> ucast g" using assms by (simp add: word_le_nat_alt g)
  then show "unat (ucast g - 1 :: u16) = unat g - 1" by (simp add: unat_sub g)
  show "ucast ((ucast g - 1 :: u16) + 1) = g" by (simp add: ucast_u8_u16)
qed

lemma header_id:
  assumes "i < 2 ^ 15"
  shows "push_bit 5 (drop_bit 5 i AND 1023) OR drop_bit 5 (push_bit 5 (i AND 31) OR push_bit 4 (if e then 1 else 0) OR (ucast (t :: u8) AND 15)) = (i :: u16)"
proof (rule bit_word_eqI)
  have i: "k < 15" if "bit i k" for k
    using word_bit_below [of i 15 k] assms that by (simp add: word_less_nat_alt)
  fix n assume "n < LENGTH(16)"
  then show "bit (push_bit 5 (drop_bit 5 i AND 1023) OR drop_bit 5 (push_bit 5 (i AND 31) OR push_bit 4 (if e then 1 else 0) OR (ucast t AND 15))) n = bit i n"
    by (cases "n < 5") (auto simp: mask10 and_31 and_15 bit_simps dest: i)
qed

lemma header_flag:
  "bit (push_bit 5 (i AND 31) OR push_bit 4 (if e then 1 else 0) OR (ucast (t :: u8) AND 15) :: u16) 4 = e"
  by (auto simp: and_31 and_15 bit_simps)

lemma header_iteration:
  assumes "t < 16"
  shows "ucast ((push_bit 5 (i AND 31) OR push_bit 4 (if e then 1 else 0) OR (ucast t AND 15) :: u16) AND 15) = (t :: u8)"
  by (rule bit_word_eqI) (auto simp: and_31 and_15 bit_simps dest: small_u8 [OF assms])

lemma take4_small: "(x :: u16) < 16 \<Longrightarrow> take_bit 4 x = x"
  by (rule bit_word_eqI) (auto simp: bit_simps dest: small_bits4)

text \<open>The third and fourth word, for a group count of at most four.\<close>

lemma word2_fields:
  fixes gt gc :: u16 and gi :: u8
  assumes "gt < 16" and "gc < 4" and "gi < 16"
  defines "d2 \<equiv> push_bit 6 (ucast gi AND 15) OR push_bit 2 (gt AND 15) OR drop_bit 2 (gc AND 15)"
  shows "ucast (drop_bit 6 d2) = gi" and "drop_bit 2 d2 AND 15 = gt" and "d2 AND 3 = 0" 
proof -
  note small = small_bits4 [OF assms(1)] small_bits2 [OF assms(2)] small_u8 [OF assms(3)]
  have s1: "k < 4" if "bit gt k" for k using small(1) that .
  have s2: "k < 2" if "bit gc k" for k using small(2) that .
  have s3: "k < 4" if "bit gi k" for k using small(3) that .
  show "ucast (drop_bit 6 d2) = gi"
    by (rule bit_word_eqI) (auto simp: d2_def and_15 bit_simps dest: s1 s2 s3)
  show "drop_bit 2 d2 AND 15 = gt"
    by (rule bit_word_eqI) (auto simp: d2_def and_15 bit_simps dest: s1 s2 s3)
  show "d2 AND 3 = 0"
    by (rule bit_word_eqI) (auto simp: d2_def and_15 and_3 bit_simps dest: s1 s2 s3)
qed

lemma word3_fields:
  fixes gc mt :: u16 and mi :: u8
  assumes "gc < 4" and "mt < 16" and "mi < 16"
  defines "d3 \<equiv> push_bit 8 (gc AND 15) OR push_bit 4 ((ucast mi AND 15) AND 15) OR (mt AND 15)"
  shows "drop_bit 8 d3 AND 3 = gc" and "ucast (drop_bit 4 d3 AND 15) = mi" and "d3 AND 15 = mt"
proof -
  have s1: "k < 4" if "bit mt k" for k using small_bits4 [OF assms(2)] that .
  have s2: "k < 2" if "bit gc k" for k using small_bits2 [OF assms(1)] that .
  have s3: "k < 4" if "bit mi k" for k using small_u8 [OF assms(3)] that .
  show "drop_bit 8 d3 AND 3 = gc"
    by (rule bit_word_eqI) (auto simp: d3_def and_15 and_3 bit_simps dest: s1 s2 s3)
  show "ucast (drop_bit 4 d3 AND 15) = mi"
    by (rule bit_word_eqI) (auto simp: d3_def and_15 bit_simps dest: s1 s2 s3)
  show "d3 AND 15 = mt"
    by (rule bit_word_eqI) (auto simp: d3_def and_15 bit_simps dest: s1 s2 s3)
qed

lemma create_checksum_shape: "\<exists>a b c. rs1024_create_checksum (pre @ [0, 0, 0]) flag = pre @ [a, b, c]"
proof -
  define n where "n = length (pre @ [0, 0, 0 :: u16])"
  have "length pre = n - 3" "3 \<le> n" by (simp_all add: n_def)
  note upd = update_last_three [OF this]
  show ?thesis
    unfolding rs1024_create_checksum_def Let_def n_def [symmetric] upd by blast
qed

lemma word_dec_small: "1 \<le> g \<Longrightarrow> g \<le> 16 \<Longrightarrow> (ucast (g :: u8) - 1 :: u16) < 16"
  using minus_one(1) [of g] by (simp add: word_less_nat_alt word_le_nat_alt)

lemma word_dec_small4: "1 \<le> g \<Longrightarrow> g \<le> 4 \<Longrightarrow> (ucast (g :: u8) - 1 :: u16) < 4"
  using minus_one(1) [of g] by (simp add: word_less_nat_alt word_le_nat_alt)

lemma byte_count_32: "n \<le> 32 \<Longrightarrow> slip39_byte_count_for_words (slip39_word_count_for_bytes n) \<le> 32"
proof -
  assume n: "n \<le> 32"
  have "slip39_word_count_for_bytes n * 10 = n mod 5 * 2 + 8 * n" using ten_times_words [of n] by simp
  moreover have "n mod 5 * 2 + 8 * n < 8 * 33"
  proof (cases "n = 32")
    case False
    moreover have "n mod 5 < 5" by simp
    ultimately show ?thesis using n by linarith
  qed simp
  ultimately show ?thesis unfolding slip39_byte_count_for_words_def by simp
qed

lemma Decode_Format:
  assumes "wf_shared s" and "slip39_word_count_for_bytes (length (share_value s)) \<le> dl - METADATA_LENGTH_WORDS"
  shows "\<exists>ws. FormatShareMnemonic s dl = Some ws \<and> DecodeMnemonics ws = Inr s \<and>
    length ws = slip39_word_count_for_bytes (length (share_value s)) + 7"
proof -
  let ?gt = "(ucast (groupThreshold s) - 1) AND 15 :: u16" and ?gc = "(ucast (groupCount s) - 1) AND 15 :: u16"
  let ?mt = "(ucast (memberThreshold s) - 1) AND 15 :: u16"
  define d0 d1 d2 d3 where "d0 = drop_bit 5 (share_id s) AND 1023"
    and "d1 = push_bit 5 (share_id s AND 31) OR push_bit 4 (if extendableBackupFlag s then 1 else 0)
          OR (ucast (iteration s) AND 15)"
    and "d2 = push_bit 6 (ucast (groupIndex s) AND 15) OR push_bit 2 (?gt AND 15) OR drop_bit 2 (?gc AND 15)"
    and "d3 = push_bit 8 (?gc AND 15) OR push_bit 4 ((ucast (memberIndex s) AND 15) AND 15) OR (?mt AND 15)"
  note wf = assms(1) [unfolded wf_shared_def]
  have gt: "?gt = ucast (groupThreshold s) - 1" "ucast (groupThreshold s) - 1 < (16 :: u16)"
    using wf word_dec_small [of "groupThreshold s"] by (auto simp: and_15 take4_small word_le_nat_alt)
  have gc: "?gc = ucast (groupCount s) - 1" "ucast (groupCount s) - 1 < (4 :: u16)"
    using wf word_dec_small4 [of "groupCount s"] by (auto simp: and_15 take4_small word_le_nat_alt word_less_nat_alt)
  have mt: "?mt = ucast (memberThreshold s) - 1" "ucast (memberThreshold s) - 1 < (16 :: u16)"
    using wf word_dec_small [of "memberThreshold s"] by (auto simp: and_15 take4_small)
  obtain ws where ws: "slip39_words_for_data (share_value s) (dl - METADATA_LENGTH_WORDS) = Some ws"
      "length ws = slip39_word_count_for_bytes (length (share_value s))"
      and unpack: "slip39_byte_count_for_words (length ws) \<le> 32 \<Longrightarrow> slip39_data_for_words ws 32 = Inr (share_value s)"
    using words_round_trip [of "share_value s" "dl - METADATA_LENGTH_WORDS"] wf assms(2) by auto
  have "slip39_byte_count_for_words (length ws) \<le> 32"
    unfolding ws(2) by (rule byte_count_32) (use wf in simp)
  then have data: "slip39_data_for_words ws 32 = Inr (share_value s)" by (rule unpack)
  obtain a b c where out: "rs1024_create_checksum ([d0, d1, d2, d3] @ ws @ [0, 0, 0]) (extendableBackupFlag s)
      = [d0, d1, d2, d3] @ ws @ [a, b, c]" (is "?out = _")
    using create_checksum_shape [of "[d0, d1, d2, d3] @ ws" "extendableBackupFlag s"] by auto
  have fmt: "FormatShareMnemonic s dl = Some ?out"
    using wf ws(1) unfolding FormatShareMnemonic_def Let_def d0_def d1_def d2_def d3_def by simp
  have chk: "rs1024_verify_checksum ?out (extendableBackupFlag s)"
    by (rule rs1024_create_valid) simp
  have flag: "bit d1 4 = extendableBackupFlag s" unfolding d1_def by (rule header_flag)
  have nth: "?out ! 0 = d0" "?out ! 1 = d1" "?out ! 2 = d2" "?out ! 3 = d3" unfolding out by simp_all
  have cut: "take (length ?out - 7) (drop 4 ?out) = ws" unfolding out by simp
  have w2: "ucast (drop_bit 6 d2) = groupIndex s" "drop_bit 2 d2 AND 15 = ?gt" "d2 AND 3 = 0"
    using word2_fields [of ?gt ?gc "groupIndex s"] gt gc wf unfolding d2_def by simp_all
  have w3: "drop_bit 8 d3 AND 3 = ?gc" "ucast (drop_bit 4 d3 AND 15) = memberIndex s" "d3 AND 15 = ?mt"
    using word3_fields [of ?gc ?mt "memberIndex s"] mt gc wf unfolding d3_def by simp_all
  have counts: "ucast (?gt + 1) = groupThreshold s" "ucast (?gc + 1) = groupCount s" "ucast (?mt + 1) = memberThreshold s"
    unfolding gt(1) gc(1) mt(1) by (simp_all add: ucast_u8_u16)
  have ident: "push_bit 5 d0 OR drop_bit 5 d1 = share_id s" "ucast (d1 AND 15) = iteration s"
    unfolding d0_def d1_def using header_id [of "share_id s"] header_iteration [of "iteration s"] wf by blast+
  have "DecodeMnemonics ?out = Inr s"
    unfolding DecodeMnemonics_def Let_def nth flag cut data w2 w3 ident
    using chk wf by (simp add: counts not_less)
  moreover have "length ?out = slip39_word_count_for_bytes (length (share_value s)) + 7"
    unfolding out ws(2) [symmetric] by simp
  ultimately show ?thesis using fmt by blast
qed

text \<open>
  A share mnemonic decodes to the share it was made from: for every share of at most four
  groups with an identifier of 15 bits, an exponent of 4 bits and a value of a length SLIP-39
  allows, \<^verbatim>\<open>FormatShareMnemonic\<close> produces the value's words and seven more, and \<^verbatim>\<open>DecodeMnemonics\<close>
  accepts their checksum and padding and returns every field and the value.
\<close>

theorem DecodeMnemonics_FormatShareMnemonic:
  assumes "wf_shared s" and "slip39_word_count_for_bytes (length (share_value s)) \<le> dl - METADATA_LENGTH_WORDS"
  shows "\<exists>ws. FormatShareMnemonic s dl = Some ws \<and> DecodeMnemonics ws = Inr s \<and>
    length ws = slip39_word_count_for_bytes (length (share_value s)) + 7"
  using assms by (rule Decode_Format)

definition example_share :: slip39_shared where
  "example_share = \<lparr>share_id = 7945, extendableBackupFlag = True, iteration = 0, groupIndex = 0,
     groupThreshold = 1, groupCount = 1, memberIndex = 2, memberThreshold = 3, valueLength = 16,
     share_value = replicate 16 77\<rparr>"

lemma DecodeMnemonics_FormatShareMnemonic_witness:
  "\<exists>ws. FormatShareMnemonic example_share 4096 = Some ws \<and> DecodeMnemonics ws = Inr example_share \<and>
    length ws = slip39_word_count_for_bytes (length (share_value example_share)) + 7"
  by (rule DecodeMnemonics_FormatShareMnemonic)
    (simp_all add: wf_shared_def example_share_def packable_def slip39_word_count_for_bytes_def METADATA_LENGTH_WORDS_def)

lemma ucast_add_u8: "(ucast ((a :: u16) + b) :: u8) = ucast a + ucast b"
  by (simp add: word_unat_eq_iff unsigned_ucast_eq unat_word_ariths take_bit_eq_mod mod_simps mod_mod_cancel)

text \<open>
  shares of more than four groups are misread. For a share of five to sixteen groups in which
  the two high bits of the group count are encoded as SLIP-39 prescribes (in the low bits of the
  third word), \<^verbatim>\<open>DecodeMnemonics\<close> shifts them out of the 8-bit group count: what it compares with the
  group threshold, and returns, is the count of the two low bits only, at most four.
\<close>

theorem DecodeMnemonics_group_count:
  assumes "DecodeMnemonics ws = Inr s"
  shows "groupCount s = ucast ((drop_bit 8 (ws ! 3) AND 3) + 1) \<and> groupCount s \<le> 4 \<and> groupThreshold s \<le> groupCount s"
proof -
  let ?g = "ucast ((push_bit 8 (ws ! 2 AND 3) OR (drop_bit 8 (ws ! 3) AND 3)) + 1) :: u8"
  let ?x = "drop_bit 8 (ws ! 3) AND 3"
  have "groupCount s = ?g" and le: "groupThreshold s \<le> groupCount s"
    using assms by (auto simp: DecodeMnemonics_def Let_def split: if_splits sum.splits)
  moreover have g: "?g = ucast (?x + 1)"
  proof -
    have "push_bit 8 (ws ! 2 AND 3) AND ?x = 0"
      by (rule bit_word_eqI) (auto simp: and_3 bit_simps)
    then have "push_bit 8 (ws ! 2 AND 3) OR ?x = push_bit 8 (ws ! 2 AND 3) + ?x"
      by (rule disjunctive_add_eq_or [symmetric])
    moreover have "ucast (push_bit 8 (ws ! 2 AND 3)) = (0 :: u8)"
      by (rule bit_word_eqI) (auto simp: bit_simps)
    ultimately show ?thesis by (simp only: ucast_add_u8) simp
  qed
  moreover have "(ucast (?x + 1) :: u8) \<le> 4"
  proof -
    have "unat ?x = unat (drop_bit 8 (ws ! 3)) mod 2 ^ 2"
      by (simp only: and_3 unsigned_take_bit_eq take_bit_eq_mod [where 'a = nat])
    then have "unat ?x < 4" by simp
    then have "?x < 4" by (simp add: word_less_nat_alt)
    then have "?x + 1 \<le> 4" by (simp add: inc_le)
    then have "unat (?x + 1) \<le> 4" by (simp add: word_le_nat_alt)
    then show ?thesis by (simp add: word_le_nat_alt unsigned_ucast_eq take_bit_nat_eq_self)
  qed
  ultimately show ?thesis using le by (simp only: g)
qed

lemma DecodeMnemonics_group_count_witness:
  "\<exists>ws. DecodeMnemonics ws = Inr example_share \<and> groupCount example_share = ucast ((drop_bit 8 (ws ! 3) AND 3) + 1) \<and>
     groupCount example_share \<le> 4 \<and> groupThreshold example_share \<le> groupCount example_share"
proof -
  have "wf_shared example_share"
    and "slip39_word_count_for_bytes (length (share_value example_share)) \<le> 4096 - METADATA_LENGTH_WORDS"
    by (simp_all add: wf_shared_def example_share_def packable_def slip39_word_count_for_bytes_def METADATA_LENGTH_WORDS_def)
  then obtain ws where "DecodeMnemonics ws = Inr example_share" using Decode_Format by blast
  with DecodeMnemonics_group_count [of ws example_share] show ?thesis by blast
qed

end
