(* ===== verification/WordLists.thy ===== *)
theory WordLists
  imports UserUtils
begin

text \<open>
  What the two mnemonic word lists share: \<^verbatim>\<open>strcmp\<close>, the order of a table of words, and a check of
  that order that is quick enough to run on the tables of the firmware.
\<close>

section \<open>Comparison of strings\<close>

text \<open>The difference of the first characters that differ, the terminating NUL included.\<close>

fun strcmp :: "bytes \<Rightarrow> bytes \<Rightarrow> int" where
  "strcmp [] [] = 0"
| "strcmp [] (b # bs) = - uint b"
| "strcmp (a # as) [] = uint a"
| "strcmp (a # as) (b # bs) = (if a = b then strcmp as bs else uint a - uint b)"

lemma strcmp_minus: "strcmp v w = - strcmp w v"
  by (induction v w rule: strcmp.induct) auto

lemma strcmp_refl [simp]: "strcmp w w = 0"
  by (induction w) auto

lemma strcmp_0: "strcmp v w = 0 \<Longrightarrow> 0 \<notin> set v \<Longrightarrow> 0 \<notin> set w \<Longrightarrow> v = w"
  by (induction v w rule: strcmp.induct) (auto split: if_splits simp: unsigned_eq_0_iff dest: unsigned_word_eqI)

text \<open>A table in strictly increasing order of words of one to eight lower-case letters.\<close>

definition table_word :: "bytes \<Rightarrow> bool" where
  "table_word w \<longleftrightarrow> w \<noteq> [] \<and> length w \<le> 8 \<and> (\<forall>c\<in>set w. lower_letter c)"

definition word_table :: "bytes list \<Rightarrow> bool" where
  "word_table ws \<longleftrightarrow> sorted_wrt (\<lambda>v w. strcmp v w < 0) ws \<and> (\<forall>w\<in>set ws. table_word w)"

lemma table_word_row: "table_word w \<Longrightarrow> word_row w"
  by (simp add: table_word_def word_row_def)

lemma lower_letter_nonzero: "lower_letter c \<Longrightarrow> c \<noteq> 0"
  by (auto simp: lower_letter_def)

lemma table_word_nonzero: "table_word w \<Longrightarrow> 0 \<notin> set w"
  by (auto simp: table_word_def dest: lower_letter_nonzero)

lemma word_table_less:
  "word_table ws \<Longrightarrow> i < j \<Longrightarrow> j < length ws \<Longrightarrow> strcmp (ws ! i) (ws ! j) < 0"
  by (simp add: word_table_def sorted_wrt_iff_nth_less)

lemma word_table_nth: "word_table ws \<Longrightarrow> i < length ws \<Longrightarrow> table_word (ws ! i)"
  by (simp add: word_table_def)

section \<open>Checking a table\<close>

definition codes :: "string \<Rightarrow> nat list" where
  "codes w = map of_char w"

fun codes_below :: "nat list \<Rightarrow> nat list \<Rightarrow> bool" where
  "codes_below as [] = False"
| "codes_below [] (b # bs) = True"
| "codes_below (a # as) (b # bs) = (if a = b then codes_below as bs else a < b)"

text \<open>\<open>codes_fit w room\<close>: lower-case letters, not more of them than \<open>room\<close> is long.\<close>

fun codes_fit :: "nat list \<Rightarrow> nat list \<Rightarrow> bool" where
  "codes_fit [] room = True"
| "codes_fit (c # w) [] = False"
| "codes_fit (c # w) (r # room) = (97 \<le> c \<and> c \<le> 122 \<and> codes_fit w room)"

text \<open>The words are in order, fit, and the last one is below \<open>z\<close>.\<close>

fun listed_below :: "string list \<Rightarrow> string \<Rightarrow> bool" where
  "listed_below [] z = True"
| "listed_below (w # ws) z =
     (codes_below (codes w) (codes (if ws = [] then z else hd ws)) \<and> w \<noteq> [] \<and>
      codes_fit (codes w) [8, 7, 6, 5, 4, 3, 2, 1] \<and> listed_below ws z)"

lemma codes_letters:
  "of_char CHR ''a'' = (97 :: nat)"
  "of_char CHR ''b'' = (98 :: nat)"
  "of_char CHR ''c'' = (99 :: nat)"
  "of_char CHR ''d'' = (100 :: nat)"
  "of_char CHR ''e'' = (101 :: nat)"
  "of_char CHR ''f'' = (102 :: nat)"
  "of_char CHR ''g'' = (103 :: nat)"
  "of_char CHR ''h'' = (104 :: nat)"
  "of_char CHR ''i'' = (105 :: nat)"
  "of_char CHR ''j'' = (106 :: nat)"
  "of_char CHR ''k'' = (107 :: nat)"
  "of_char CHR ''l'' = (108 :: nat)"
  "of_char CHR ''m'' = (109 :: nat)"
  "of_char CHR ''n'' = (110 :: nat)"
  "of_char CHR ''o'' = (111 :: nat)"
  "of_char CHR ''p'' = (112 :: nat)"
  "of_char CHR ''q'' = (113 :: nat)"
  "of_char CHR ''r'' = (114 :: nat)"
  "of_char CHR ''s'' = (115 :: nat)"
  "of_char CHR ''t'' = (116 :: nat)"
  "of_char CHR ''u'' = (117 :: nat)"
  "of_char CHR ''v'' = (118 :: nat)"
  "of_char CHR ''w'' = (119 :: nat)"
  "of_char CHR ''x'' = (120 :: nat)"
  "of_char CHR ''y'' = (121 :: nat)"
  "of_char CHR ''z'' = (122 :: nat)"
  by simp_all

lemma codes_simps: "codes [] = []" "codes (c # w) = of_char c # codes w"
  by (simp_all add: codes_def)

lemmas listed_simps =
  listed_below.simps codes_below.simps codes_fit.simps codes_simps codes_letters
  list.sel list.simps if_False if_True simp_thms arith_simps rel_simps

lemma uint_of_char: "uint (of_char c :: u8) = int (of_char c)"
  by (cases c) (simp add: of_char_def horner_sum_simps)

lemma of_char_u8_eq: "(of_char c :: u8) = of_char d \<longleftrightarrow> (of_char c :: nat) = of_char d"
  by (simp add: word_uint_eq_iff uint_of_char)

lemma cstr_Cons: "cstr (c # w) = of_char c # cstr w" "cstr [] = []"
  by (simp_all add: cstr_def)

lemma codes_below_strcmp: "codes_below (codes v) (codes w) \<Longrightarrow> 0 \<notin> set (codes w) \<Longrightarrow> strcmp (cstr v) (cstr w) < 0"
proof (induction v arbitrary: w)
  case Nil
  then show ?case by (cases w) (auto simp: codes_simps cstr_Cons uint_of_char)
next
  case (Cons c v)
  then show ?case
    by (cases w) (auto simp: codes_simps cstr_Cons uint_of_char of_char_u8_eq simp del: of_char_eq_iff split: if_splits)
qed

lemma codes_below_trans: "codes_below as bs \<Longrightarrow> codes_below bs cs \<Longrightarrow> codes_below as cs"
proof (induction as cs arbitrary: bs rule: codes_below.induct)
  case (1 as)
  then show ?case by simp
next
  case (2 b cs)
  then show ?case by simp
next
  case (3 a as c cs)
  from 3(2,3) obtain b bs' where "bs = b # bs'" by (cases bs) auto
  with 3 show ?case by (auto split: if_splits)
qed

lemma codes_fit_iff: "codes_fit w room \<longleftrightarrow> length w \<le> length room \<and> (\<forall>c\<in>set w. 97 \<le> c \<and> c \<le> 122)"
  by (induction w room rule: codes_fit.induct) auto

lemma codes_fit_word:
  assumes "codes_fit (codes w) [8, 7, 6, 5, 4, 3, 2, 1]" and "w \<noteq> []"
  shows "table_word (cstr w)"
proof -
  have "\<forall>c\<in>set w. 97 \<le> (of_char c :: nat) \<and> (of_char c :: nat) \<le> 122" and "length w \<le> 8"
    using assms(1) unfolding codes_fit_iff by (auto simp: codes_def)
  moreover have "lower_letter (of_char c)" if "97 \<le> (of_char c :: nat) \<and> (of_char c :: nat) \<le> 122" for c
    using that by (simp add: lower_letter_def word_le_def uint_of_char)
  ultimately show ?thesis using assms(2) by (auto simp: table_word_def cstr_def)
qed

lemma listed_below_append:
  "listed_below xs (hd ys) \<Longrightarrow> ys \<noteq> [] \<Longrightarrow> listed_below ys z \<Longrightarrow> listed_below (xs @ ys) z"
  by (induction xs) (auto split: if_splits)

lemma listed_below_table: "listed_below ws z \<Longrightarrow> word_table (map cstr ws)"
proof -
  assume ws: "listed_below ws z"
  have fit: "\<forall>w\<in>set ws. table_word (cstr w) \<and> 0 \<notin> set (codes w)"
    using ws
    by (induction ws z rule: listed_below.induct) (auto intro: codes_fit_word simp: codes_fit_iff)
  have "sorted_wrt (\<lambda>v w. codes_below (codes v) (codes w)) ws"
    using ws
  proof (induction ws z rule: listed_below.induct)
    case (2 w ws z)
    then show ?case
      by (cases ws) (auto intro: codes_below_trans)
  qed simp
  then have "sorted_wrt (\<lambda>v w. strcmp (cstr v) (cstr w) < 0) ws"
    by (rule sorted_wrt_mono_rel [rotated]) (use fit codes_below_strcmp in blast)
  with fit show ?thesis by (simp add: word_table_def sorted_wrt_map)
qed

end
