(* ===== verification/Slip39Words.thy ===== *)
theory Slip39Words
  imports Slip39WordTable
begin

text \<open>
  Words and numbers (\<^verbatim>\<open>src/crypto/slip39/slip39.c\<close>): the binary search of a word in the SLIP-39
  word list, and the conversion of word numbers to a phrase and back.
\<close>

section \<open>Words\<close>

definition SLIP39_INVALID_MNEMONIC_INDEX :: u16 where "SLIP39_INVALID_MNEMONIC_INDEX = 65535"

text \<open>The loop of \<^verbatim>\<open>slip39_word_for_string\<close>; \<open>lo\<close> and \<open>hi\<close> are within -1 and 1024.\<close>

function word_search :: "bytes list \<Rightarrow> bytes \<Rightarrow> int \<Rightarrow> int \<Rightarrow> u16" where
  "word_search wordlist word lo hi =
     (if hi > lo + 1
      then let mid = (hi + lo) div 2; cmp = strcmp word (wordlist ! nat mid)
           in if cmp > 0 then word_search wordlist word mid hi
              else if cmp < 0 then word_search wordlist word lo mid
              else word_of_int mid
      else SLIP39_INVALID_MNEMONIC_INDEX)"
  by pat_completeness auto
termination
  by (relation "measure (\<lambda>(wordlist, word, lo, hi). nat (hi - lo))") auto

declare word_search.simps [simp del]

definition slip39_word_for_string :: "bytes \<Rightarrow> u16" where
  "slip39_word_for_string word = word_search slip39_wordlists word (-1) 1024"

text \<open>The argument is a signed 16-bit number: \<open>None\<close> is a read before the start of the list.\<close>

definition slip39_string_for_word :: "u16 \<Rightarrow> bytes option" where
  "slip39_string_for_word word =
     (if sint word < 0 then None
      else if sint word < 1024 then Some (slip39_wordlists ! unat word)
      else Some [])"

fun join_spaces :: "bytes list \<Rightarrow> bytes" where
  "join_spaces [] = []"
| "join_spaces [w] = w"
| "join_spaces (w # ws) = w @ [32] @ join_spaces ws"

definition slip39_strings_for_words :: "u16 list \<Rightarrow> bytes option" where
  "slip39_strings_for_words words =
     (if \<exists>w\<in>set words. slip39_string_for_word w = None then None
      else Some (join_spaces (map (the \<circ> slip39_string_for_word) words)))"

text \<open>
  The loop of \<^verbatim>\<open>slip39_words_for_strings\<close>: \<open>j\<close> words were seen, \<open>words\<close> are the numbers stored so
  far. The result is the returned number (-1 for an invalid word) and the numbers stored. Words
  after the first \<open>words_length\<close> ones are counted and not looked up.
\<close>

function words_for_strings_loop :: "bytes \<Rightarrow> nat \<Rightarrow> nat \<Rightarrow> u16 list \<Rightarrow> int \<times> u16 list" where
  "words_for_strings_loop [] j words_length words = (int j, words)"
| "words_for_strings_loop (c # p) j words_length words =
     (let buf = word_buf (takeWhile lower_letter (c # p));
          p' = dropWhile (\<lambda>c. \<not> lower_letter c) (dropWhile lower_letter (c # p));
          w = slip39_word_for_string buf
      in if j < words_length
         then if sint w < 0 then (-1, words)
              else words_for_strings_loop p' (j + 1) words_length (words @ [w])
         else words_for_strings_loop p' (j + 1) words_length words)"
  by pat_completeness auto
termination
  by (relation "measure (\<lambda>(p, j, n, words). length p)")
    (simp_all only: in_measure wf_measure prod.case next_word_shorter)

declare words_for_strings_loop.simps(2) [simp del]

definition slip39_words_for_strings :: "bytes \<Rightarrow> nat \<Rightarrow> int \<times> u16 list" where
  "slip39_words_for_strings words_string words_length = words_for_strings_loop words_string 0 words_length []"

section \<open>The search\<close>

lemma mid_between: "lo + 1 < hi \<Longrightarrow> lo < (hi + lo) div 2 \<and> (hi + lo) div 2 < (hi :: int)"
  by auto

lemma word_search_found:
  assumes "word_table wordlist" and "-1 \<le> lo" and "lo < int k" and "int k < hi" and "hi \<le> int (length wordlist)"
  shows "word_search wordlist (wordlist ! k) lo hi = of_nat k"
  using assms
proof (induction wordlist "wordlist ! k" lo hi rule: word_search.induct)
  case (1 wordlist lo hi)
  let ?mid = "(hi + lo) div 2"
  have gap: "hi > lo + 1" using 1(5,6) by simp
  note mid = mid_between [OF gap]
  have m: "0 \<le> ?mid" "nat ?mid < length wordlist" "int (nat ?mid) = ?mid" using mid 1(4,7) by auto
  have k: "k < length wordlist" using 1(6,7) by simp
  consider "int k = ?mid" | "?mid < int k" | "int k < ?mid" by linarith
  then show ?case
  proof cases
    case 1
    then have e: "?mid = int k" by simp
    show ?thesis using gap by (simp add: word_search.simps [of wordlist "wordlist ! k" lo hi] Let_def e)
  next
    case 2
    then have "nat ?mid < k" using m by linarith
    then have "strcmp (wordlist ! k) (wordlist ! nat ?mid) > 0"
      using word_table_less [OF \<open>word_table wordlist\<close> _ k] strcmp_minus by (metis neg_0_less_iff_less)
    then show ?thesis
      using gap 1(1) [OF gap refl refl] 1(3-7) 2 mid
      unfolding word_search.simps [of wordlist "wordlist ! k" lo hi] Let_def by simp
  next
    case 3
    then have "k < nat ?mid" using m by linarith
    then have "strcmp (wordlist ! k) (wordlist ! nat ?mid) < 0"
      using word_table_less [OF \<open>word_table wordlist\<close> _ m(2)] by blast
    then show ?thesis
      using gap 1(2) [OF gap refl refl] 1(3-7) 3 mid
      unfolding word_search.simps [of wordlist "wordlist ! k" lo hi] Let_def by simp
  qed
qed

lemma word_search_sound:
  assumes "word_search wordlist word lo hi \<noteq> SLIP39_INVALID_MNEMONIC_INDEX" and "-1 \<le> lo" and "hi \<le> 1024"
  shows "strcmp word (wordlist ! unat (word_search wordlist word lo hi)) = 0
    \<and> unat (word_search wordlist word lo hi) < nat hi"
  using assms
proof (induction wordlist word lo hi rule: word_search.induct)
  case (1 wordlist word lo hi)
  let ?mid = "(hi + lo) div 2" and ?cmp = "strcmp word (wordlist ! nat ((hi + lo) div 2))"
  note unfold = word_search.simps [of wordlist word lo hi, unfolded Let_def]
  have gap: "hi > lo + 1" using 1(3) by (auto simp: unfold split: if_splits)
  note mid = mid_between [OF gap]
  consider "?cmp > 0" | "?cmp < 0" | "?cmp = 0" by linarith
  then show ?case
  proof cases
    case 1
    then have "word_search wordlist word lo hi = word_search wordlist word ?mid hi" using gap by (simp add: unfold)
    then show ?thesis using 1 "1.IH"(1) [OF gap refl refl] "1.prems" mid by simp
  next
    case 2
    then have "word_search wordlist word lo hi = word_search wordlist word lo ?mid" using gap by (simp add: unfold)
    then show ?thesis using 2 "1.IH"(2) [OF gap refl refl] "1.prems" mid nat_mono [of ?mid hi] by simp
  next
    case 3
    then have r: "word_search wordlist word lo hi = word_of_int ?mid" using gap by (simp add: unfold)
    have "unat (word_of_int ?mid :: u16) = nat ?mid"
      using mid 1(4,5) by (simp add: unat_eq_nat_uint uint_word_of_int take_bit_int_eq_self)
    then show ?thesis using 3 mid 1(4) r by simp
  qed
qed

lemma slip39_word_for_string_nth:
  "k < 1024 \<Longrightarrow> slip39_word_for_string (slip39_wordlists ! k) = of_nat k"
  unfolding slip39_word_for_string_def
  by (rule word_search_found [OF slip39_wordlists_table]) (simp_all add: length_slip39_wordlists)

lemma slip39_word_for_string_invalid:
  assumes "0 \<notin> set w" and "w \<notin> set slip39_wordlists"
  shows "slip39_word_for_string w = SLIP39_INVALID_MNEMONIC_INDEX"
proof (rule ccontr)
  let ?r = "slip39_word_for_string w"
  assume "?r \<noteq> SLIP39_INVALID_MNEMONIC_INDEX"
  then have "strcmp w (slip39_wordlists ! unat ?r) = 0" and r: "unat ?r < length slip39_wordlists"
    using word_search_sound [of slip39_wordlists w "-1" 1024]
    by (simp_all add: slip39_word_for_string_def length_slip39_wordlists)
  moreover have "0 \<notin> set (slip39_wordlists ! unat ?r)"
    using word_table_nth [OF slip39_wordlists_table r] by (rule table_word_nonzero)
  ultimately have "w = slip39_wordlists ! unat ?r" using assms(1) strcmp_0 by blast
  then show False using assms(2) r nth_mem by metis
qed

text \<open>
  the binary search of \<^verbatim>\<open>slip39_word_for_string\<close> finds exactly the words of the list: its result
  is \<open>k\<close> below 1024 if and only if the word is the \<open>k\<close>-th of the list, and the invalid index if and
  only if the word is not in the list.
\<close>

theorem slip39_word_for_string_correct:
  assumes "0 \<notin> set w"
  shows "(\<forall>k<1024. slip39_word_for_string w = of_nat k \<longleftrightarrow> w = slip39_wordlists ! k)
    \<and> (slip39_word_for_string w = SLIP39_INVALID_MNEMONIC_INDEX \<longleftrightarrow> w \<notin> set slip39_wordlists)"
proof -
  have neq: "(of_nat k :: u16) \<noteq> SLIP39_INVALID_MNEMONIC_INDEX" if "k < 1024" for k
    using that by (simp add: word_unat_eq_iff unat_of_nat take_bit_nat_eq_self SLIP39_INVALID_MNEMONIC_INDEX_def)
  have inj: "(of_nat k :: u16) = of_nat m \<longleftrightarrow> k = m" if "k < 1024" "m < 1024" for k m
    using that by (simp add: word_unat_eq_iff unat_of_nat take_bit_nat_eq_self)
  show ?thesis
  proof (cases "w \<in> set slip39_wordlists")
    case True
    then obtain m where m: "m < 1024" "w = slip39_wordlists ! m"
      by (auto simp: in_set_conv_nth length_slip39_wordlists)
    then have r: "slip39_word_for_string w = of_nat m" using slip39_word_for_string_nth by simp
    moreover have "slip39_wordlists ! m = slip39_wordlists ! k \<longleftrightarrow> k = m" if "k < 1024" for k
      using slip39_word_for_string_nth [OF that] slip39_word_for_string_nth [OF m(1)] inj that m(1) by metis
    ultimately show ?thesis using True m neq inj by auto
  next
    case False
    then have "slip39_word_for_string w = SLIP39_INVALID_MNEMONIC_INDEX"
      using slip39_word_for_string_invalid assms by blast
    then show ?thesis using False neq by (metis length_slip39_wordlists nth_mem)
  qed
qed

lemma slip39_word_for_string_correct_witness:
  "slip39_word_for_string (cstr ''qqq'') = of_nat 3 \<longleftrightarrow> cstr ''qqq'' = slip39_wordlists ! 3"
proof -
  have "(\<forall>k<1024. slip39_word_for_string (cstr ''qqq'') = of_nat k \<longleftrightarrow> cstr ''qqq'' = slip39_wordlists ! k)"
    using slip39_word_for_string_correct [of "cstr ''qqq''"] by (simp add: cstr_def)
  from this [rule_format, of 3] show ?thesis by simp
qed

section \<open>Phrases\<close>

lemma words_for_strings_step:
  "s \<noteq> [] \<Longrightarrow> word_buf (takeWhile lower_letter s) = buf \<Longrightarrow> j < words_length \<Longrightarrow>
   slip39_word_for_string buf = w \<Longrightarrow> 0 \<le> sint w \<Longrightarrow>
   words_for_strings_loop s j words_length words =
     words_for_strings_loop (dropWhile (\<lambda>c. \<not> lower_letter c) (dropWhile lower_letter s)) (j + 1) words_length (words @ [w])"
  by (cases s) (simp_all add: words_for_strings_loop.simps(2) Let_def)

lemma split_first_word:
  assumes "word_row w" and "word_row v"
  shows "takeWhile lower_letter (join_spaces (w # v # ws)) = w"
    and "dropWhile (\<lambda>c. \<not> lower_letter c) (dropWhile lower_letter (join_spaces (w # v # ws))) = join_spaces (v # ws)"
proof -
  have all: "\<forall>c\<in>set w. lower_letter c" using assms(1) by (auto simp: word_row_def)
  have "\<exists>d q. join_spaces (v # ws) = d # q \<and> lower_letter d"
    using assms(2) by (cases v; cases ws) (auto simp: word_row_def)
  then have hd: "dropWhile (\<lambda>c. \<not> lower_letter c) (32 # join_spaces (v # ws)) = join_spaces (v # ws)"
    using space_no_letter by auto
  show "takeWhile lower_letter (join_spaces (w # v # ws)) = w"
    using all space_no_letter by (auto simp: takeWhile_append takeWhile_eq_all_conv)
  have "dropWhile lower_letter (join_spaces (w # v # ws)) = 32 # join_spaces (v # ws)"
    using all space_no_letter by (auto simp: dropWhile_append)
  then show "dropWhile (\<lambda>c. \<not> lower_letter c) (dropWhile lower_letter (join_spaces (w # v # ws))) = join_spaces (v # ws)"
    using hd by simp
qed

lemma table_index:
  assumes "i < 1024"
  shows "word_row (slip39_wordlists ! unat (i :: u16))" and "slip39_word_for_string (slip39_wordlists ! unat i) = i"
    and "0 \<le> sint i" and "slip39_string_for_word i = Some (slip39_wordlists ! unat i)"
proof -
  have i: "unat i < 1024" using assms by (simp add: word_less_nat_alt)
  show "word_row (slip39_wordlists ! unat i)"
    using i by (intro table_word_row word_table_nth [OF slip39_wordlists_table]) (simp add: length_slip39_wordlists)
  show "slip39_word_for_string (slip39_wordlists ! unat i) = i" using slip39_word_for_string_nth [OF i] by simp
  have u: "uint i < 1024" "- 32768 \<le> uint i" using assms by (simp_all add: word_less_def order_trans [OF _ uint_ge_0])
  have s: "sint i = int (unat i)"
    using signed_take_bit_int_eq_self [of 15 "uint i"] u by (simp add: sint_uint)
  show "0 \<le> sint i" by (simp add: s)
  show "slip39_string_for_word i = Some (slip39_wordlists ! unat i)" using u by (simp add: slip39_string_for_word_def s)
qed

lemma word_row_buf: "word_row w \<Longrightarrow> word_buf w = w"
  by (simp add: word_row_def word_buf_short)

lemma words_loop_join:
  "\<forall>i\<in>set ws. i < 1024 \<Longrightarrow> j + length ws \<le> words_length \<Longrightarrow>
   words_for_strings_loop (join_spaces (map (\<lambda>i. slip39_wordlists ! unat i) ws)) j words_length acc
     = (int (j + length ws), acc @ ws)"
proof (induction ws arbitrary: j acc rule: induct_list012)
  case 1
  then show ?case by simp
next
  case (2 i)
  then have i: "i < 1024" by simp
  note t = table_index [OF i]
  let ?w = "slip39_wordlists ! unat i"
  have w: "takeWhile lower_letter ?w = ?w" "dropWhile lower_letter ?w = []" "?w \<noteq> []"
    using t(1) by (auto simp: word_row_def takeWhile_eq_all_conv)
  have "words_for_strings_loop ?w j words_length acc = words_for_strings_loop [] (j + 1) words_length (acc @ [i])"
    using words_for_strings_step [of ?w ?w j words_length i acc] w t 2(2) by (simp add: word_row_buf)
  then show ?case by simp
next
  case (3 i k ws)
  then have i: "i < 1024" and k: "k < 1024" by simp_all
  note t = table_index [OF i] and split = split_first_word [OF table_index(1) [OF i] table_index(1) [OF k]]
  let ?s = "join_spaces (map (\<lambda>i. slip39_wordlists ! unat i) (i # k # ws))"
  have "?s \<noteq> []" by (simp only: list.map join_spaces.simps) simp
  moreover have "word_buf (takeWhile lower_letter ?s) = slip39_wordlists ! unat i"
    unfolding list.map split(1) by (rule word_row_buf [OF t(1)])
  ultimately have "words_for_strings_loop ?s j words_length acc
      = words_for_strings_loop (join_spaces (map (\<lambda>i. slip39_wordlists ! unat i) (k # ws))) (j + 1) words_length (acc @ [i])"
    using words_for_strings_step [of ?s "slip39_wordlists ! unat i" j words_length i acc] 3(4) t
    by (simp only: list.map split(2)) simp
  then show ?case using 3(2) [of "j + 1" "acc @ [i]"] 3(3,4) by (simp only: length_Cons) simp
qed

lemma strings_for_words_eq:
  assumes "\<forall>i\<in>set ws. i < 1024"
  shows "slip39_strings_for_words ws = Some (join_spaces (map (\<lambda>i. slip39_wordlists ! unat i) ws))"
  using table_index(4) assms
  by (auto simp: slip39_strings_for_words_def intro!: arg_cong [where f = join_spaces])

lemma strings_words_round_trip:
  assumes "\<forall>i\<in>set ws. i < 1024" and "length ws \<le> n"
  shows "\<exists>phrase. slip39_strings_for_words ws = Some phrase \<and>
    slip39_words_for_strings phrase n = (int (length ws), ws)"
  using strings_for_words_eq [OF assms(1)] words_loop_join [OF assms(1), of 0 n "[]"] assms(2)
  by (simp add: slip39_words_for_strings_def)

text \<open>
  A phrase made from valid word numbers is read back as the same numbers: the words
  \<^verbatim>\<open>slip39_strings_for_words\<close> writes are found again by \<^verbatim>\<open>slip39_words_for_strings\<close>, in their order
  and number.
\<close>

theorem slip39_phrase_round_trip:
  assumes "\<forall>i\<in>set ws. i < 1024" and "length ws \<le> n"
  shows "\<exists>phrase. slip39_strings_for_words ws = Some phrase \<and>
    slip39_words_for_strings phrase n = (int (length ws), ws)"
  using assms by (rule strings_words_round_trip)

lemma slip39_phrase_round_trip_witness:
  "\<exists>phrase. slip39_strings_for_words [3, 1023, 0] = Some phrase \<and>
    slip39_words_for_strings phrase 20 = (int (length [3 :: u16, 1023, 0]), [3, 1023, 0])"
  by (rule slip39_phrase_round_trip) simp_all

end
