(* ===== verification/Slip39.thy ===== *)
theory Slip39
  imports Slip39Share Slip39Words
begin

text \<open>
  The operations of \<^verbatim>\<open>src/crypto/slip39/slip39.c\<close> that the wallet calls: a master secret is split
  into phrases (\<^verbatim>\<open>GetSlip39MnemonicsWords\<close>), some of the phrases give it back
  (\<^verbatim>\<open>Slip39GetMasterSecret\<close>), and a single phrase is checked. HMAC-SHA256, PBKDF2 and the random
  bytes are parameters.
\<close>

section \<open>Creating the shares\<close>

type_synonym hmac = "bytes \<Rightarrow> bytes \<Rightarrow> bytes"

record group_desc =
  gd_count :: nat
  gd_threshold :: nat

definition SLIP39_INVALID_MEMBER_THRESHOLD :: int where "SLIP39_INVALID_MEMBER_THRESHOLD = -13"
definition SLIP39_INVALID_SECRET_LENGTH :: int where "SLIP39_INVALID_SECRET_LENGTH = -7"

text \<open>Share \<open>j\<close> of group \<open>i\<close>.\<close>

definition group_share ::
  "u16 \<Rightarrow> bool \<Rightarrow> u8 \<Rightarrow> nat \<Rightarrow> nat \<Rightarrow> nat \<Rightarrow> nat \<Rightarrow> bytes list \<Rightarrow> nat \<Rightarrow> slip39_shared" where
  "group_share ident eb ie i gt gc threshold rows j =
     \<lparr>share_id = ident, extendableBackupFlag = eb, iteration = ie, groupIndex = of_nat i,
      groupThreshold = of_nat gt, groupCount = of_nat gc, memberIndex = of_nat j,
      memberThreshold = of_nat threshold, valueLength = length (rows ! j), share_value = rows ! j\<rparr>"

text \<open>
  The loop over the groups, from group \<open>i\<close> on. All groups write to the same array \<^verbatim>\<open>shards\<close>, which
  has room for the first group; \<open>None\<close> is a write past it (or one of \<^verbatim>\<open>SplitSecret\<close>).
\<close>

fun split_groups ::
  "hmac \<Rightarrow> (nat \<Rightarrow> nat \<Rightarrow> bytes) \<Rightarrow> bytes \<Rightarrow> (nat \<Rightarrow> nat \<Rightarrow> bytes list \<Rightarrow> nat \<Rightarrow> slip39_shared) \<Rightarrow> nat \<Rightarrow>
   nat \<Rightarrow> group_desc list \<Rightarrow> slip39_shared list \<Rightarrow> (int + slip39_shared list) option" where
  "split_groups hmac_sha256 random_buffer ems share room i [] shards = Some (Inr shards)"
| "split_groups hmac_sha256 random_buffer ems share room i (g # groups) shards =
     (case SplitSecret hmac_sha256 (random_buffer i) (gd_count g) (gd_threshold g) ems of
        None \<Rightarrow> None
      | Some (Inl e) \<Rightarrow> Some (Inl e)
      | Some (Inr rows) \<Rightarrow>
          if gd_count g > room then None
          else split_groups hmac_sha256 random_buffer ems share room (i + 1) groups
                 (map (share i (gd_threshold g) rows) [0..<gd_count g] @ drop (gd_count g) shards))"

text \<open>The last loop: the phrases one after the other in \<^verbatim>\<open>sharesBuffer\<close>.\<close>

fun format_shares :: "slip39_shared list \<Rightarrow> nat \<Rightarrow> u16 list option" where
  "format_shares [] sharesBufferLen = Some []"
| "format_shares (s # shards) sharesBufferLen =
     do { ws \<leftarrow> FormatShareMnemonic s sharesBufferLen;
          rest \<leftarrow> format_shares shards (sharesBufferLen - length ws);
          Some (ws @ rest) }"

text \<open>
  The encrypted master secret and the contents of \<^verbatim>\<open>sharesBuffer\<close>, or the error code; \<open>groups\<close> are
  the \<^verbatim>\<open>groupCount\<close> groups. Only the shares left in the array by the last group are formatted.
\<close>

definition GenerateMnemonics ::
  "hmac \<Rightarrow> pbkdf2 \<Rightarrow> (nat \<Rightarrow> nat \<Rightarrow> bytes) \<Rightarrow> bytes \<Rightarrow> u8 \<Rightarrow> bool \<Rightarrow> u16 \<Rightarrow> bytes \<Rightarrow> nat \<Rightarrow> group_desc list \<Rightarrow> nat
     \<Rightarrow> (int + bytes \<times> u16 list) option" where
  "GenerateMnemonics hmac_sha256 pbkdf2 random_buffer masterSecret ie eb
     ident passPhrase gt groups sharesBufferLen =
     (let masterSecretLen = length masterSecret; gc = length groups
      in if masterSecretLen mod 2 = 1 then Some (Inl SLIP39_INVALID_MEMBER_THRESHOLD)
         else if gt \<le> 0 \<or> gt > gc \<or> gc > 16
         then Some (Inl SLIP39_INVALID_GROUP_THRESHOLD)
         else if masterSecretLen * 8 < 128 \<or> masterSecretLen * 8 > 256
         then Some (Inl SLIP39_INVALID_SECRET_LENGTH)
         else
           let ems = MasterSecretEncrypt pbkdf2 masterSecret ie eb ident passPhrase;
               share = (\<lambda>i. group_share ident eb ie i gt gc)
           in case split_groups hmac_sha256 random_buffer ems share (gd_count (groups ! 0)) 0 groups [] of
                None \<Rightarrow> None
              | Some (Inl e) \<Rightarrow> Some (Inl e)
              | Some (Inr shards) \<Rightarrow>
                  do { ws \<leftarrow> format_shares (take (gd_count (groups ! 0)) shards) sharesBufferLen;
                       Some (Inr (ems, ws)) })"

definition SHARE_BUFFER_SIZE :: nat where "SHARE_BUFFER_SIZE = 4096"

text \<open>
  The phrases, the encrypted master secret, the identifier and the two constants it is made with;
  \<open>trng\<close> are the two random bytes. \<open>None\<close>: the result of \<^verbatim>\<open>GenerateMnemonics\<close> is not checked, so
  an error makes the code read the uninitialised buffer.
\<close>

definition GetSlip39MnemonicsWords ::
  "hmac \<Rightarrow> pbkdf2 \<Rightarrow> (nat \<Rightarrow> nat \<Rightarrow> bytes) \<Rightarrow> u16 \<Rightarrow> bytes \<Rightarrow> nat \<Rightarrow> nat \<Rightarrow> nat
     \<Rightarrow> (bytes list \<times> bytes \<times> u16 \<times> bool \<times> u8) option" where
  "GetSlip39MnemonicsWords hmac_sha256 pbkdf2 random_buffer trng masterSecret wordCnt memberCnt threshold =
     (let ident = trng AND 32767;
          masterSecretLen = (if wordCnt = 20 then 16 else 32)
      in case GenerateMnemonics hmac_sha256 pbkdf2 random_buffer (take masterSecretLen masterSecret) 0 True ident []
                1 [\<lparr>gd_count = memberCnt, gd_threshold = threshold\<rparr>] SHARE_BUFFER_SIZE of
           Some (Inr (ems, sharesBuff)) \<Rightarrow>
             if memberCnt * wordCnt > length sharesBuff then None
             else do {
               let rows = map (\<lambda>i. slip39_strings_for_words (take wordCnt (drop (i * wordCnt) sharesBuff))) [0..<memberCnt];
               if None \<in> set rows then None else Some (map the rows, ems, ident, True, 0) }
         | _ \<Rightarrow> None)"

definition Slip39GetSeed :: "pbkdf2 \<Rightarrow> bytes \<Rightarrow> bytes \<Rightarrow> u8 \<Rightarrow> bool \<Rightarrow> u16 \<Rightarrow> int + bytes" where
  "Slip39GetSeed pbkdf2 ems passphrase ie eb ident = decrypt pbkdf2 ems (length ems) passphrase ie eb ident"

section \<open>Recovering the master secret\<close>

fun decode_shards :: "u16 list list \<Rightarrow> int + slip39_shared list" where
  "decode_shards [] = Inr []"
| "decode_shards (ws # rows) =
     (case DecodeMnemonics ws of
        Inl e \<Rightarrow> Inl e
      | Inr s \<Rightarrow> (case decode_shards rows of Inl e \<Rightarrow> Inl e | Inr ss \<Rightarrow> Inr (s # ss)))"

definition group_members :: "slip39_shared list \<Rightarrow> nat \<Rightarrow> slip39_shared list" where
  "group_members shards i = filter (\<lambda>s. unat (groupIndex s) = i) shards"

text \<open>
  The loop over the sixteen group indices: \<open>m_share\<close> is what the arrays of share values and indices
  hold (the entries of earlier groups remain), \<open>gs\<close> and \<open>xi\<close> are the group secrets found so far.
  \<open>None\<close> is a read of array entries never written.
\<close>

fun recover_groups ::
  "hmac \<Rightarrow> slip39_shared list \<Rightarrow> nat \<Rightarrow> nat list \<Rightarrow> (u8 \<times> bytes) list \<Rightarrow> u8 list \<Rightarrow> bytes list
     \<Rightarrow> (int + u8 list \<times> bytes list) option" where
  "recover_groups hmac_sha256 shards len [] m_share xi gs = Some (Inr (xi, gs))"
| "recover_groups hmac_sha256 shards len (i # is) m_share xi gs =
     (let members = group_members shards i; mic = length members
      in if members = [] then recover_groups hmac_sha256 shards len is m_share xi gs
         else if \<not> distinct (map memberIndex members) then Some (Inl (-8))
         else
           let groupMemberThreshold = unat (memberThreshold (last members));
               m_share = map (\<lambda>s. (memberIndex s, share_value s)) members @ drop mic m_share
           in if groupMemberThreshold > length m_share then None
              else case recover_secret hmac_sha256 groupMemberThreshold len (map fst m_share) (map snd m_share) of
                Inl e \<Rightarrow> Some (Inl (-9))
              | Inr gsv \<Rightarrow>
                  if mic < groupMemberThreshold then Some (Inl (-10))
                  else recover_groups hmac_sha256 shards len is m_share (xi @ [of_nat i]) (gs @ [gsv]))"

text \<open>
  The master secret, the encrypted one, and what the first share says of the identifier, the backup
  flag and the exponent; or the error code. \<open>stack\<close> is what the rows of \<^verbatim>\<open>wordsIndexBuf\<close> hold before
  the phrases are looked up: the result of the lookup is not checked.
\<close>

definition Slip39GetMasterSecret ::
  "hmac \<Rightarrow> pbkdf2 \<Rightarrow> u16 list list \<Rightarrow> nat \<Rightarrow> nat \<Rightarrow> bytes list \<Rightarrow> (int + bytes \<times> bytes \<times> u16 \<times> bool \<times> u8) option" where
  "Slip39GetMasterSecret hmac_sha256 pbkdf2 stack threshold wordsCount wordsList =
     (let rows = map (\<lambda>i. let ws = snd (slip39_words_for_strings (wordsList ! i) wordsCount)
                          in ws @ drop (length ws) (take wordsCount (stack ! i))) [0..<threshold]
      in if threshold = 0 then None
         else case decode_shards rows of
           Inl e \<Rightarrow> Some (Inl e)
         | Inr shards \<Rightarrow>
             let s = shards ! 0; len = valueLength s;
                 groupMemberCount = length (filter (\<lambda>i. group_members shards i \<noteq> []) [0..<16])
             in if \<exists>x\<in>set shards. unat (groupIndex x) \<ge> 16 then None
                else if groupMemberCount < unat (groupThreshold s) then Some (Inl SLIP39_INSUFFICIENT_SPACE)
                else if \<exists>x\<in>set shards. \<exists>y\<in>set shards. groupIndex x = groupIndex y \<and> memberThreshold x \<noteq> memberThreshold y
                then Some (Inl (-7))
                else case recover_groups hmac_sha256 shards len [0..<16] [] [] [] of
                  None \<Rightarrow> None
                | Some (Inl e) \<Rightarrow> Some (Inl e)
                | Some (Inr (xi, tempShare)) \<Rightarrow>
                    case recover_secret hmac_sha256 (length xi) len xi tempShare of
                      Inl e \<Rightarrow> Some (Inl (-12))
                    | Inr gsv \<Rightarrow>
                        let ms = (case decrypt pbkdf2 gsv len [] (iteration s) (extendableBackupFlag s) (share_id s) of
                                    Inl e \<Rightarrow> gsv | Inr ms \<Rightarrow> ms)
                        in Some (Inr (ms, gsv, share_id s, extendableBackupFlag s, iteration s)))"

section \<open>Checking one phrase\<close>

definition SLIP39_NOT_BELONG_THIS_WALLET :: int where "SLIP39_NOT_BELONG_THIS_WALLET = -18"

text \<open>
  The word numbers of a phrase; \<open>rows\<close> is what the \<^verbatim>\<open>wordCnt\<close> rows of \<^verbatim>\<open>words\<close> hold at first. \<open>None\<close>
  is a word or a number of words that does not fit.
\<close>

definition phrase_indices :: "bytes list \<Rightarrow> bytes \<Rightarrow> nat \<Rightarrow> u16 list option" where
  "phrase_indices rows wordsList wordCnt =
     do { words \<leftarrow> WordsListSlice wordsList;
          if length words > wordCnt then None
          else Some (map slip39_word_for_string (words @ drop (length words) (take wordCnt rows))) }"

definition Slip39OneSliceCheck ::
  "bytes list \<Rightarrow> bytes \<Rightarrow> nat \<Rightarrow> u16 \<Rightarrow> u8 \<Rightarrow> u8 \<Rightarrow> (int + u8 \<times> nat) option" where
  "Slip39OneSliceCheck rows wordsList wordCnt ident eb ie =
     do { w \<leftarrow> phrase_indices rows wordsList wordCnt;
          if ident \<noteq> push_bit 5 (w ! 0) OR drop_bit 5 (w ! 1)
             \<or> eb \<noteq> ucast (drop_bit 4 (w ! 1) AND 1) \<or> ie \<noteq> ucast (w ! 1 AND 15)
          then Some (Inl SLIP39_NOT_BELONG_THIS_WALLET)
          else case DecodeMnemonics w of
                 Inl e \<Rightarrow> Some (Inl e)
               | Inr s \<Rightarrow> Some (Inr (memberThreshold s, valueLength s)) }"

definition Slip39CheckFirstWordList :: "bytes list \<Rightarrow> bytes \<Rightarrow> nat \<Rightarrow> (int + u8 \<times> nat) option" where
  "Slip39CheckFirstWordList rows wordsList wordCnt =
     do { w \<leftarrow> phrase_indices rows wordsList wordCnt;
          case DecodeMnemonics w of
            Inl e \<Rightarrow> Some (Inl e)
          | Inr s \<Rightarrow> Some (Inr (memberThreshold s, valueLength s)) }"

section \<open>Formatted shares\<close>

lemma ten_bits_bound: "ten_bits (v :: u16) \<Longrightarrow> v < 1024"
proof -
  assume "ten_bits v"
  then have "take_bit 10 v = v" by (intro bit_word_eqI) (auto simp: ten_bits_def bit_simps)
  then have "unat v = unat v mod 2 ^ 10"
    by (metis unsigned_take_bit_eq take_bit_eq_mod)
  also have "\<dots> < 2 ^ 10" by simp
  finally show ?thesis by (simp add: word_less_nat_alt)
qed

lemma create_checksum_small:
  "\<exists>a b c. rs1024_create_checksum (pre @ [0, 0, 0]) flag = pre @ [a, b, c] \<and> ten_bits a \<and> ten_bits b \<and> ten_bits c"
proof -
  define n where "n = length (pre @ [0, 0, 0 :: u16])"
  have "length pre = n - 3" "3 \<le> n" by (simp_all add: n_def)
  note upd = update_last_three [OF this]
  show ?thesis
    unfolding rs1024_create_checksum_def Let_def n_def [symmetric] upd using ten_bits_mask by blast
qed

lemma format_words_small:
  assumes "wf_shared s" and "FormatShareMnemonic s dl = Some ws"
  shows "\<forall>w\<in>set ws. w < 1024"
proof -
  let ?gc = "(ucast (groupCount s) - 1) AND 15 :: u16"
  note wf = assms(1) [unfolded wf_shared_def]
  have gc4: "(ucast (groupCount s) - 1 :: u16) < 4"
    using wf word_dec_small4 [of "groupCount s"] by (auto simp: word_le_nat_alt)
  have g2: "bit (ucast (groupCount s) - 1 :: u16) k \<Longrightarrow> k < 2" for k using small_bits2 [OF gc4] by blast
  have d: "ten_bits (drop_bit 5 (share_id s) AND 1023)"
    "ten_bits (push_bit 5 (share_id s AND 31) OR push_bit 4 (if extendableBackupFlag s then 1 else 0) OR (ucast (iteration s) AND 15) :: u16)"
    "ten_bits (push_bit 6 (ucast (groupIndex s) AND 15) OR push_bit 2 (x AND 15 AND 15) OR drop_bit 2 (?gc AND 15) :: u16)"
    "ten_bits (push_bit 8 (?gc AND 15) OR push_bit 4 (y AND 15 AND 15) OR (z AND 15 AND 15) :: u16)" for x y z
    by (auto simp: ten_bits_def mask10 and_15 and_31 bit_simps dest: g2)
  have pk: "slip39_words_for_data (share_value s) (dl - METADATA_LENGTH_WORDS) = Some ds \<Longrightarrow> \<forall>w\<in>set ds. w < 1024" for ds
    using words_round_trip [of "share_value s" "dl - METADATA_LENGTH_WORDS"] wf
    by (cases "slip39_word_count_for_bytes (length (share_value s)) \<le> dl - METADATA_LENGTH_WORDS")
      (auto simp: slip39_words_for_data_def Let_def)
  obtain ds a b c where "slip39_words_for_data (share_value s) (dl - METADATA_LENGTH_WORDS) = Some ds"
    "ws = [drop_bit 5 (share_id s) AND 1023,
       push_bit 5 (share_id s AND 31) OR push_bit 4 (if extendableBackupFlag s then 1 else 0) OR (ucast (iteration s) AND 15),
       push_bit 6 (ucast (groupIndex s) AND 15) OR push_bit 2 ((ucast (groupThreshold s) - 1) AND 15 AND 15) OR drop_bit 2 (?gc AND 15),
       push_bit 8 (?gc AND 15) OR push_bit 4 (ucast (memberIndex s) AND 15 AND 15) OR ((ucast (memberThreshold s) - 1) AND 15 AND 15)] @ ds @ [a, b, c]"
    "ten_bits a" "ten_bits b" "ten_bits c"
  proof -
    obtain ds where ds: "slip39_words_for_data (share_value s) (dl - METADATA_LENGTH_WORDS) = Some ds"
      using assms wf by (auto simp: FormatShareMnemonic_def Let_def split: option.splits)
    let ?pre = "[drop_bit 5 (share_id s) AND 1023,
       push_bit 5 (share_id s AND 31) OR push_bit 4 (if extendableBackupFlag s then 1 else 0) OR (ucast (iteration s) AND 15),
       push_bit 6 (ucast (groupIndex s) AND 15) OR push_bit 2 ((ucast (groupThreshold s) - 1) AND 15 AND 15) OR drop_bit 2 (?gc AND 15),
       push_bit 8 (?gc AND 15) OR push_bit 4 (ucast (memberIndex s) AND 15 AND 15) OR ((ucast (memberThreshold s) - 1) AND 15 AND 15)] @ ds"
    have "ws = rs1024_create_checksum (?pre @ [0, 0, 0]) (extendableBackupFlag s)"
      using assms(2) ds wf unfolding FormatShareMnemonic_def Let_def by simp
    then show ?thesis using create_checksum_small [of ?pre "extendableBackupFlag s"] that [OF ds] by auto
  qed
  then show ?thesis using pk d by (auto intro: ten_bits_bound)
qed

lemma format_share:
  assumes "wf_shared s" and "length (share_value s) = n" and "slip39_word_count_for_bytes n + 7 \<le> room"
  shows "\<exists>ws. FormatShareMnemonic s room = Some ws \<and> DecodeMnemonics ws = Inr s \<and>
    length ws = slip39_word_count_for_bytes n + 7 \<and> (\<forall>w\<in>set ws. w < 1024)"
proof -
  have "slip39_word_count_for_bytes (length (share_value s)) \<le> room - METADATA_LENGTH_WORDS"
    using assms(2,3) by (simp add: METADATA_LENGTH_WORDS_def)
  then show ?thesis
    using Decode_Format [OF assms(1)] format_words_small [OF assms(1)] assms(2) by metis
qed

text \<open>All shares of one size are formatted one after the other.\<close>

lemma format_shares_rows:
  assumes "\<forall>s\<in>set shards. wf_shared s \<and> length (share_value s) = n"
    and "length shards * (slip39_word_count_for_bytes n + 7) \<le> room"
  shows "\<exists>rows. format_shares shards room = Some (concat rows) \<and> map DecodeMnemonics rows = map Inr shards \<and>
    (\<forall>r\<in>set rows. length r = slip39_word_count_for_bytes n + 7 \<and> (\<forall>w\<in>set r. w < 1024))"
  using assms
proof (induction shards arbitrary: room)
  case Nil
  show ?case by (rule exI [of _ "[]"]) simp
next
  case (Cons s shards)
  let ?c = "slip39_word_count_for_bytes n + 7"
  obtain ws where ws: "FormatShareMnemonic s room = Some ws" "DecodeMnemonics ws = Inr s" "length ws = ?c" "\<forall>w\<in>set ws. w < 1024"
    using format_share [of s n room] Cons.prems by auto
  have "length shards * ?c \<le> room - ?c" using Cons.prems(2) by simp
  then obtain rows where "format_shares shards (room - ?c) = Some (concat rows)"
    "map DecodeMnemonics rows = map Inr shards" "\<forall>r\<in>set rows. length r = ?c \<and> (\<forall>w\<in>set r. w < 1024)"
    using Cons.IH [of "room - ?c"] Cons.prems(1) by auto
  then show ?case using ws by (intro exI [of _ "ws # rows"]) simp
qed

lemma concat_row:
  "\<forall>r\<in>set rows. length r = c \<Longrightarrow> i < length rows \<Longrightarrow> take c (drop (i * c) (concat rows)) = rows ! i"
proof (induction rows arbitrary: i)
  case (Cons r rows)
  then show ?case by (cases i) simp_all
qed simp

lemma length_concat_rows: "\<forall>r\<in>set rows. length r = c \<Longrightarrow> length (concat rows) = length rows * c"
  by (induction rows) simp_all

section \<open>Splitting and recovering\<close>

text \<open>The parameters the wallet uses, and random buffers of the length asked for.\<close>

definition slip39_parameters :: "nat \<Rightarrow> bytes \<Rightarrow> nat \<Rightarrow> nat \<Rightarrow> bool" where
  "slip39_parameters wordCnt ms threshold memberCnt \<longleftrightarrow>
     (wordCnt = 20 \<and> length ms = 16 \<or> wordCnt = 33 \<and> length ms = 32) \<and>
     (2 \<le> threshold \<and> threshold \<le> memberCnt \<and> memberCnt \<le> 16 \<or> threshold = 1 \<and> memberCnt = 1)"

definition randomness :: "hmac \<Rightarrow> (nat \<Rightarrow> bytes) \<Rightarrow> nat \<Rightarrow> nat \<Rightarrow> bool" where
  "randomness hmac_sha256 random_buffer threshold n \<longleftrightarrow>
     (\<forall>k m. length (hmac_sha256 k m) = 32) \<and> (\<forall>i<threshold - 2. length (random_buffer i) = n) \<and>
     length (random_buffer (threshold - 2)) = n - 4"

lemma split_recover:
  assumes "slip39_parameters wordCnt ems t n" and "randomness hmac rnd t (length ems)"
    and "length ids = t" and "distinct ids" and "\<forall>i\<in>set ids. i < n"
  shows "\<exists>rows. SplitSecret hmac rnd n t ems = Some (Inr rows) \<and> length rows = n \<and>
    (\<forall>r\<in>set rows. length r = length ems) \<and>
    recover_secret hmac t (length ems) (map of_nat ids) (map ((!) rows) ids) = Inr ems"
proof (cases "t = 1")
  case True
  then have "ids = [0]" "n = 1" using assms by (auto simp: slip39_parameters_def length_Suc_conv)
  then show ?thesis using True by (simp add: SplitSecret_def recover_secret_def)
next
  case False
  then have "2 \<le> t" "t \<le> n" "n \<le> 16" using assms(1) by (auto simp: slip39_parameters_def)
  moreover have "split_inputs hmac rnd t ems"
    using assms(1,2) by (auto simp: split_inputs_def randomness_def slip39_parameters_def)
  ultimately show ?thesis using recover_split assms(3-5) by blast
qed

lemma ident_15: "(w :: u16) AND 32767 < 32768"
proof -
  have "w AND 32767 \<le> 32767" by (rule word_and_le1)
  then show ?thesis by (simp add: word_le_nat_alt word_less_nat_alt)
qed

lemma u8_of_nat: "n \<le> 16 \<Longrightarrow> unat (of_nat n :: u8) = n"
  by (simp add: unat_of_nat take_bit_nat_eq_self)

lemma group_share_wf:
  assumes "slip39_parameters wordCnt ems t n" and "length rows = n" and "\<forall>r\<in>set rows. length r = length ems" and "j < n"
  shows "wf_shared (group_share (trng AND 32767) True 0 0 1 1 t rows j)"
    and "length (share_value (group_share (trng AND 32767) True 0 0 1 1 t rows j)) = length ems"
proof -
  have j: "length (rows ! j) = length ems" using assms by simp
  have "unat (of_nat j :: u8) = j" "unat (of_nat t :: u8) = t" "1 \<le> t" "t \<le> 16" "j < 16"
    using assms(1,4) by (auto simp: slip39_parameters_def u8_of_nat)
  moreover have "length ems \<le> 32" "packable (length ems)"
    using assms(1) by (auto simp: slip39_parameters_def packable_def)
  ultimately show "wf_shared (group_share (trng AND 32767) True 0 0 1 1 t rows j)"
    using ident_15 [of trng] j by (simp add: wf_shared_def group_share_def word_less_nat_alt word_le_nat_alt)
  show "length (share_value (group_share (trng AND 32767) True 0 0 1 1 t rows j)) = length ems"
    using j by (simp add: group_share_def)
qed

lemma phrase_word_count: "slip39_parameters wordCnt ms t n \<Longrightarrow> slip39_word_count_for_bytes (length ms) + 7 = wordCnt"
  by (auto simp: slip39_parameters_def slip39_word_count_for_bytes_def)

lemma Generate_words:
  assumes par: "slip39_parameters wordCnt ms t n" and "length rows = n" and "\<forall>r\<in>set rows. length r = length ms"
    and split: "SplitSecret hmac (rnd 0) n t ems = Some (Inr rows)" and "pbkdf2_ok pbkdf2"
    and ems: "ems = MasterSecretEncrypt pbkdf2 ms 0 True (trng AND 32767) []"
  shows "\<exists>ws. GenerateMnemonics hmac pbkdf2 rnd ms 0 True (trng AND 32767) [] 1 [\<lparr>gd_count = n, gd_threshold = t\<rparr>]
       SHARE_BUFFER_SIZE = Some (Inr (ems, concat ws)) \<and>
    map DecodeMnemonics ws = map Inr (map (group_share (trng AND 32767) True 0 0 1 1 t rows) [0..<n]) \<and>
    (\<forall>r\<in>set ws. length r = wordCnt \<and> (\<forall>w\<in>set r. w < 1024))"
proof -
  let ?shards = "map (group_share (trng AND 32767) True 0 0 1 1 t rows) [0..<n]"
  have n16: "n \<le> 16" "wordCnt \<le> 33" using par by (auto simp: slip39_parameters_def)
  have wf: "\<forall>s\<in>set ?shards. wf_shared s \<and> length (share_value s) = length ms"
    using group_share_wf [OF par assms(2,3)] by simp
  have "n * wordCnt \<le> 16 * 33" using n16 by (rule mult_le_mono)
  then have "length ?shards * (slip39_word_count_for_bytes (length ms) + 7) \<le> SHARE_BUFFER_SIZE"
    using phrase_word_count [OF par] by (simp add: SHARE_BUFFER_SIZE_def)
  then obtain ws where ws: "format_shares ?shards SHARE_BUFFER_SIZE = Some (concat ws)"
      "map DecodeMnemonics ws = map Inr ?shards" "\<forall>r\<in>set ws. length r = wordCnt \<and> (\<forall>w\<in>set r. w < 1024)"
    using format_shares_rows [OF wf] phrase_word_count [OF par] by metis
  have "length ms mod 2 = 0" "\<not> length ms * 8 < 128" "\<not> length ms * 8 > 256"
    using par by (auto simp: slip39_parameters_def)
  then have "GenerateMnemonics hmac pbkdf2 rnd ms 0 True (trng AND 32767) [] 1 [\<lparr>gd_count = n, gd_threshold = t\<rparr>]
       SHARE_BUFFER_SIZE = Some (Inr (ems, concat ws))"
    using split ws(1) by (simp add: GenerateMnemonics_def Let_def ems [symmetric])
  then show ?thesis using ws by blast
qed

lemma decode_shards_all: "map DecodeMnemonics rows = map Inr ss \<Longrightarrow> decode_shards rows = Inr ss"
  by (induction rows arbitrary: ss) (auto simp: Cons_eq_map_conv)

lemma recover_groups_none:
  "\<forall>i\<in>set is. group_members shards i = [] \<Longrightarrow> recover_groups hmac shards len is m xi gs = Some (Inr (xi, gs))"
  by (induction "is") simp_all

text \<open>Shares of one single group, as many as its threshold, with a secret that can be recovered.\<close>

lemma recover_one_group:
  assumes "shards = map (group_share ident eb ie 0 1 1 t rows) ids"
    and "distinct ids" and "\<forall>i\<in>set ids. i < 16" and "length ids = t" and "1 \<le> t" and "t \<le> 16"
    and "recover_secret hmac t len (map of_nat ids) (map ((!) rows) ids) = Inr ems"
  shows "recover_groups hmac shards len [0..<16] [] [] [] = Some (Inr ([0], [ems]))"
proof -
  have all: "group_members shards 0 = shards" and none: "0 < i \<Longrightarrow> group_members shards i = []" for i
    by (simp_all add: assms(1) group_members_def group_share_def comp_def filter_True)
  have ne: "shards \<noteq> []" using assms(1,4,5) by auto
  have "inj_on (of_nat :: nat \<Rightarrow> u8) (set ids)"
    using assms(3) by (auto simp: inj_on_def) (metis u8_of_nat less_imp_le)
  then have dist: "distinct (map memberIndex shards)"
    using assms(2) by (simp add: assms(1) comp_def group_share_def distinct_map)
  have lt: "unat (memberThreshold (last shards)) = t"
    using ne assms(4,5,6) by (simp add: assms(1) last_map group_share_def u8_of_nat)
  have fs: "map fst (map (\<lambda>s. (memberIndex s, share_value s)) shards) = map of_nat ids"
    "map snd (map (\<lambda>s. (memberIndex s, share_value s)) shards) = map ((!) rows) ids"
    by (simp_all add: assms(1) comp_def group_share_def)
  have up: "[0..<16] = 0 # [1..<16 :: nat]" by (simp add: upt_rec)
  have len: "length shards = t" by (simp add: assms(1,4))
  have rest: "\<forall>i\<in>set [1..<16]. group_members shards i = []" using none by simp
  show ?thesis
    using ne dist assms(7) recover_groups_none [OF rest]
    unfolding up recover_groups.simps Let_def all lt drop_Nil append_Nil2 fs
    by (simp add: len)
qed

lemma MasterSecret_of_shares:
  assumes rows: "map (\<lambda>i. snd (slip39_words_for_strings (wordsList ! i) wc)
      @ drop (length (snd (slip39_words_for_strings (wordsList ! i) wc))) (take wc (stack ! i))) [0..<t] = wss"
    and dec: "map DecodeMnemonics wss = map Inr shards"
    and shards: "shards = map (group_share ident eb ie 0 1 1 t rows) ids"
    and ids: "distinct ids" "\<forall>i\<in>set ids. i < 16" "length ids = t" "1 \<le> t" "t \<le> 16" "\<forall>i\<in>set ids. length (rows ! i) = length ems"
    and rec: "recover_secret hmac t (length ems) (map of_nat ids) (map ((!) rows) ids) = Inr ems"
    and dcr: "decrypt pbkdf2 ems (length ems) [] ie eb ident = Inr ms"
  shows "Slip39GetMasterSecret hmac pbkdf2 stack t wc wordsList = Some (Inr (ms, ems, ident, eb, ie))"
proof -
  have ne: "ids \<noteq> []" using ids by auto
  have s0: "shards ! 0 = group_share ident eb ie 0 1 1 t rows (hd ids)"
    using ne by (simp add: shards nth_map hd_conv_nth)
  have len: "valueLength (shards ! 0) = length ems" using ids(6) ne by (simp add: s0 group_share_def)
  have fields: "iteration (shards ! 0) = ie" "extendableBackupFlag (shards ! 0) = eb" "share_id (shards ! 0) = ident"
    "groupThreshold (shards ! 0) = 1"
    by (simp_all add: s0 group_share_def)
  have "group_members shards 0 \<noteq> []" using ne by (simp add: shards group_members_def group_share_def comp_def filter_True)
  then have "0 \<in> set (filter (\<lambda>i. group_members shards i \<noteq> []) [0..<16])" by simp
  then have "0 < length (filter (\<lambda>i. group_members shards i \<noteq> []) [0..<16])" by (rule length_pos_if_in_set)
  then have cnt: "\<not> length (filter (\<lambda>i. group_members shards i \<noteq> []) [0..<16]) < unat (1 :: u8)"
    unfolding unsigned_1 by linarith
  have same: "\<not> (\<exists>x\<in>set shards. \<exists>y\<in>set shards. groupIndex x = groupIndex y \<and> memberThreshold x \<noteq> memberThreshold y)"
    and g0: "\<not> (\<exists>x\<in>set shards. unat (groupIndex x) \<ge> 16)"
    by (auto simp: shards group_share_def)
  have grp: "recover_groups hmac shards (length ems) [0..<16] [] [] [] = Some (Inr ([0], [ems]))"
    by (rule recover_one_group [OF shards ids(1-5) rec])
  have fin: "recover_secret hmac (Suc 0) (length ems) [0] [ems] = Inr ems" by (simp add: recover_secret_def)
  have t0: "t \<noteq> 0" using ids(4) by simp
  show ?thesis
    unfolding Slip39GetMasterSecret_def rows decode_shards_all [OF dec] Let_def len fields
    by (simp only: len fields t0 g0 cnt same grp fin dcr if_False option.simps sum.simps prod.case list.size One_nat_def add_0)
qed

section \<open>From master secret to phrases and back\<close>

lemma phrases_of_rows:
  assumes "\<forall>r\<in>set ws. length r = wordCnt \<and> (\<forall>w\<in>set r. w < 1024)" and "length ws = n"
  shows "map (\<lambda>i. slip39_strings_for_words (take wordCnt (drop (i * wordCnt) (concat ws)))) [0..<n]
    = map slip39_strings_for_words ws"
  using assms by (intro nth_equalityI) (simp_all add: concat_row)

lemma phrases_back:
  assumes "\<forall>r\<in>set ws. length r = wordCnt \<and> (\<forall>w\<in>set r. w < 1024)" and "i < length ws"
  shows "snd (slip39_words_for_strings (the (slip39_strings_for_words (ws ! i))) wordCnt) = ws ! i"
    and "slip39_strings_for_words (ws ! i) \<noteq> None"
proof -
  have "\<forall>w\<in>set (ws ! i). w < 1024" "length (ws ! i) \<le> wordCnt" using assms nth_mem by auto
  then show "snd (slip39_words_for_strings (the (slip39_strings_for_words (ws ! i))) wordCnt) = ws ! i"
    and "slip39_strings_for_words (ws ! i) \<noteq> None"
    using strings_words_round_trip by fastforce+
qed

lemma Get_words:
  assumes par: "slip39_parameters wordCnt ms t n" and "length rows = n" and "\<forall>r\<in>set rows. length r = length ms"
    and "SplitSecret hmac (rnd 0) n t ems = Some (Inr rows)" and "pbkdf2_ok pbkdf2"
    and "ems = MasterSecretEncrypt pbkdf2 ms 0 True (trng AND 32767) []"
  shows "\<exists>ws. GetSlip39MnemonicsWords hmac pbkdf2 rnd trng ms wordCnt n t
       = Some (map (\<lambda>r. the (slip39_strings_for_words r)) ws, ems, trng AND 32767, True, 0) \<and>
    map DecodeMnemonics ws = map Inr (map (group_share (trng AND 32767) True 0 0 1 1 t rows) [0..<n]) \<and>
    (\<forall>r\<in>set ws. length r = wordCnt \<and> (\<forall>w\<in>set r. w < 1024))"
proof -
  obtain ws where gen: "GenerateMnemonics hmac pbkdf2 rnd ms 0 True (trng AND 32767) [] 1 [\<lparr>gd_count = n, gd_threshold = t\<rparr>]
       SHARE_BUFFER_SIZE = Some (Inr (ems, concat ws))"
    and ws: "map DecodeMnemonics ws = map Inr (map (group_share (trng AND 32767) True 0 0 1 1 t rows) [0..<n])"
      "\<forall>r\<in>set ws. length r = wordCnt \<and> (\<forall>w\<in>set r. w < 1024)"
    using Generate_words [where rnd = rnd, OF assms] by blast
  have n: "length ws = n" using arg_cong [OF ws(1), of length] by simp
  have len: "take (if wordCnt = 20 then 16 else 32) ms = ms" using par by (auto simp: slip39_parameters_def)
  have "slip39_strings_for_words r \<noteq> None" if "r \<in> set ws" for r
    using phrases_back(2) [OF ws(2)] that unfolding in_set_conv_nth by blast
  then have "None \<notin> set (map slip39_strings_for_words ws)" by fastforce
  then have "GetSlip39MnemonicsWords hmac pbkdf2 rnd trng ms wordCnt n t
       = Some (map the (map slip39_strings_for_words ws), ems, trng AND 32767, True, 0)"
    unfolding GetSlip39MnemonicsWords_def Let_def len gen
    using length_concat_rows [of ws wordCnt] ws(2) n phrases_of_rows [OF ws(2) n] by simp
  then show ?thesis using ws by (auto simp: comp_def)
qed

lemma mnemonics_round_trip:
  assumes par: "slip39_parameters wordCnt ms t n" and rnd: "randomness hmac (rnd 0) t (length ms)" and pb: "pbkdf2_ok pbkdf2"
    and ids: "length ids = t" "distinct ids" "\<forall>i\<in>set ids. i < n"
  shows "\<exists>wordsList ems. GetSlip39MnemonicsWords hmac pbkdf2 rnd trng ms wordCnt n t
      = Some (wordsList, ems, trng AND 32767, True, 0) \<and> length wordsList = n \<and>
    Slip39GetMasterSecret hmac pbkdf2 stack t wordCnt (map ((!) wordsList) ids)
      = Some (Inr (ms, ems, trng AND 32767, True, 0)) \<and>
    Slip39GetSeed pbkdf2 ems [] 0 True (trng AND 32767) = Inr ms"
proof -
  define ems where "ems = MasterSecretEncrypt pbkdf2 ms 0 True (trng AND 32767) []"
  have "even (length ms)" using par by (auto simp: slip39_parameters_def)
  note enc = decrypt_encrypt [OF pb this refl, of 0 True "trng AND 32767", folded ems_def]
  have len: "length ems = length ms" using enc(2) .
  have par': "slip39_parameters wordCnt ems t n" using par by (simp add: slip39_parameters_def len)
  obtain rows where split: "SplitSecret hmac (rnd 0) n t ems = Some (Inr rows)" and rows: "length rows = n"
      "\<forall>r\<in>set rows. length r = length ems"
      and rec: "recover_secret hmac t (length ems) (map of_nat ids) (map ((!) rows) ids) = Inr ems"
    using split_recover [OF par' _ ids, of hmac "rnd 0"] rnd len by auto
  obtain ws where get: "GetSlip39MnemonicsWords hmac pbkdf2 rnd trng ms wordCnt n t
       = Some (map (\<lambda>r. the (slip39_strings_for_words r)) ws, ems, trng AND 32767, True, 0)"
    and ws: "map DecodeMnemonics ws = map Inr (map (group_share (trng AND 32767) True 0 0 1 1 t rows) [0..<n])"
      "\<forall>r\<in>set ws. length r = wordCnt \<and> (\<forall>w\<in>set r. w < 1024)"
    using Get_words [where rnd = rnd, OF par rows(1) _ split pb ems_def] rows(2) len by auto
  let ?wl = "map (\<lambda>r. the (slip39_strings_for_words r)) ws"
  have n: "length ws = n" using arg_cong [OF ws(1), of length] by simp
  have dec: "DecodeMnemonics (ws ! i) = Inr (group_share (trng AND 32767) True 0 0 1 1 t rows i)" if "i < n" for i
    using arg_cong [OF ws(1), of "\<lambda>xs. xs ! i"] that n by simp
  have idx: "ids ! k < n" if "k < t" for k using ids that by simp
  have indices: "map (\<lambda>i. snd (slip39_words_for_strings (map ((!) ?wl) ids ! i) wordCnt)
      @ drop (length (snd (slip39_words_for_strings (map ((!) ?wl) ids ! i) wordCnt))) (take wordCnt (stack ! i))) [0..<t]
    = map ((!) ws) ids"
    using idx n phrases_back(1) [OF ws(2)] ws(2) by (intro nth_equalityI) (simp_all add: ids(1))
  have t: "1 \<le> t" "t \<le> 16" "\<forall>i\<in>set ids. i < 16" using par ids(3) by (auto simp: slip39_parameters_def)
  have shards: "map DecodeMnemonics (map ((!) ws) ids) = map Inr (map (group_share (trng AND 32767) True 0 0 1 1 t rows) ids)"
    using dec ids(3) by simp
  have "Slip39GetMasterSecret hmac pbkdf2 stack t wordCnt (map ((!) ?wl) ids)
      = Some (Inr (ms, ems, trng AND 32767, True, 0))"
    by (rule MasterSecret_of_shares [OF indices shards refl ids(2) t(3) ids(1) t(1,2) _ rec])
      (use rows ids(3) enc(1) len in simp_all)
  moreover have "Slip39GetSeed pbkdf2 ems [] 0 True (trng AND 32767) = Inr ms"
    using enc(1) len by (simp add: Slip39GetSeed_def)
  ultimately show ?thesis using get n by auto
qed

text \<open>
  C14: a wallet backed up with SLIP-39 can be restored. For a master secret of 16 bytes (20 words) or
  32 bytes (33 words), every member count up to 16 and every threshold from 2 to it (or one share
  of one), and whatever the random bytes and the stack hold, \<^verbatim>\<open>GetSlip39MnemonicsWords\<close> produces
  the phrases, and \<^verbatim>\<open>Slip39GetMasterSecret\<close>, given any \<^verbatim>\<open>threshold\<close> distinct ones of them in any
  order, returns the master secret, the encrypted one and the identifier; \<^verbatim>\<open>Slip39GetSeed\<close> agrees.
\<close>

theorem Slip39_backup_restore:
  assumes "slip39_parameters wordCnt ms t n" and "randomness hmac (rnd 0) t (length ms)" and "pbkdf2_ok pbkdf2"
    and "length ids = t" and "distinct ids" and "\<forall>i\<in>set ids. i < n"
  shows "\<exists>wordsList ems. GetSlip39MnemonicsWords hmac pbkdf2 rnd trng ms wordCnt n t
      = Some (wordsList, ems, trng AND 32767, True, 0) \<and> length wordsList = n \<and>
    Slip39GetMasterSecret hmac pbkdf2 stack t wordCnt (map ((!) wordsList) ids)
      = Some (Inr (ms, ems, trng AND 32767, True, 0)) \<and>
    Slip39GetSeed pbkdf2 ems [] 0 True (trng AND 32767) = Inr ms"
  using assms by (rule mnemonics_round_trip)

lemma Slip39_backup_restore_witness:
  "\<exists>wordsList ems. GetSlip39MnemonicsWords (\<lambda>k m. replicate 32 (hd m)) example_pbkdf2
      (\<lambda>i j. if j = 1 then replicate 12 3 else replicate 16 2) 40000 (replicate 16 7) 20 5 3
      = Some (wordsList, ems, 40000 AND 32767, True, 0) \<and> length wordsList = 5 \<and>
    Slip39GetMasterSecret (\<lambda>k m. replicate 32 (hd m)) example_pbkdf2 [[1], [], [2]] 3 20 (map ((!) wordsList) [4, 0, 3])
      = Some (Inr (replicate 16 7, ems, 40000 AND 32767, True, 0)) \<and>
    Slip39GetSeed example_pbkdf2 ems [] 0 True (40000 AND 32767) = Inr (replicate 16 7)"
  by (rule Slip39_backup_restore)
    (simp_all add: slip39_parameters_def randomness_def example_pbkdf2_def fit_key_ok)

section \<open>The check of a single phrase\<close>

lemma join_words_spaces: "\<forall>w\<in>set ws. word_row w \<Longrightarrow> join_words ws = join_spaces ws"
  by (induction ws rule: join_words.induct) (auto simp: word_row_def strcpy_s_def)

lemma phrase_indices_back:
  assumes "\<forall>w\<in>set ws. w < 1024" and "length ws = wordCnt"
  shows "phrase_indices rows (the (slip39_strings_for_words ws)) wordCnt = Some ws"
proof -
  let ?words = "map (\<lambda>i. slip39_wordlists ! unat i) ws"
  have "\<forall>w\<in>set ?words. word_row w" using table_index(1) assms(1) by auto
  then have "WordsListSlice (join_spaces ?words) = Some ?words"
    using WordsListSlice_join join_words_spaces by metis
  moreover have "map slip39_word_for_string ?words = ws"
    using table_index(2) assms(1) by (simp add: map_idI)
  ultimately show ?thesis
    using assms(2) by (simp add: phrase_indices_def strings_for_words_eq [OF assms(1)])
qed

lemma decode_fields:
  assumes "DecodeMnemonics w = Inr s"
  shows "share_id s = push_bit 5 (w ! 0) OR drop_bit 5 (w ! 1)" and "extendableBackupFlag s = bit (w ! 1) 4"
    and "iteration s = ucast (w ! 1 AND 15)"
  using assms by (auto simp: DecodeMnemonics_def Let_def split: if_splits sum.splits)

lemma flag_byte: "ucast (drop_bit 4 (v :: u16) AND 1) = (if bit v 4 then 1 else 0 :: u8)"
  by (simp add: and_one_eq mod_2_eq_odd bit_iff_odd_drop_bit)

text \<open>
  C15: the check of a single phrase accepts exactly the phrases of its wallet. Every phrase
  \<^verbatim>\<open>GetSlip39MnemonicsWords\<close> creates passes \<^verbatim>\<open>Slip39CheckFirstWordList\<close>, which reports the member
  threshold and the length of the secret; \<^verbatim>\<open>Slip39OneSliceCheck\<close> reports the same if it is given the
  identifier, flag and exponent of the wallet, and refuses the phrase with
  \<^verbatim>\<open>SLIP39_NOT_BELONG_THIS_WALLET\<close> if any of the three differs.
\<close>

theorem Slip39_single_phrase:
  assumes par: "slip39_parameters wordCnt ms t n" and rnd: "randomness hmac (rnd 0) t (length ms)" and pb: "pbkdf2_ok pbkdf2"
    and i: "i < n"
  shows "\<exists>wordsList out. GetSlip39MnemonicsWords hmac pbkdf2 rnd trng ms wordCnt n t = Some (wordsList, out) \<and>
    Slip39CheckFirstWordList stack (wordsList ! i) wordCnt = Some (Inr (of_nat t, length ms)) \<and>
    Slip39OneSliceCheck stack (wordsList ! i) wordCnt ident eb ie
      = Some (if ident = trng AND 32767 \<and> eb = 1 \<and> ie = 0 then Inr (of_nat t, length ms)
              else Inl SLIP39_NOT_BELONG_THIS_WALLET)"
proof -
  define ems where "ems = MasterSecretEncrypt pbkdf2 ms 0 True (trng AND 32767) []"
  have "even (length ms)" using par by (auto simp: slip39_parameters_def)
  note len = decrypt_encrypt(2) [OF pb this refl, of 0 True "trng AND 32767", folded ems_def]
  have par': "slip39_parameters wordCnt ems t n" using par by (simp add: slip39_parameters_def len)
  have ids: "length [0..<t] = t" "distinct [0..<t]" "\<forall>i\<in>set [0..<t]. i < n"
    using par by (auto simp: slip39_parameters_def)
  obtain rows where split: "SplitSecret hmac (rnd 0) n t ems = Some (Inr rows)" and rows: "length rows = n"
      "\<forall>r\<in>set rows. length r = length ems"
    using split_recover [OF par' rnd [folded len] ids] by blast
  obtain ws where get: "GetSlip39MnemonicsWords hmac pbkdf2 rnd trng ms wordCnt n t
       = Some (map (\<lambda>r. the (slip39_strings_for_words r)) ws, ems, trng AND 32767, True, 0)"
    and ws: "map DecodeMnemonics ws = map Inr (map (group_share (trng AND 32767) True 0 0 1 1 t rows) [0..<n])"
      "\<forall>r\<in>set ws. length r = wordCnt \<and> (\<forall>w\<in>set r. w < 1024)"
    using Get_words [where rnd = rnd, OF par rows(1) _ split pb ems_def] rows(2) len by auto
  have n: "length ws = n" using arg_cong [OF ws(1), of length] by simp
  let ?s = "group_share (trng AND 32767) True 0 0 1 1 t rows i"
  have dec: "DecodeMnemonics (ws ! i) = Inr ?s"
    using arg_cong [OF ws(1), of "\<lambda>xs. xs ! i"] i n by simp
  have "ws ! i \<in> set ws" using i n by simp
  then have idx: "phrase_indices stack (the (slip39_strings_for_words (ws ! i))) wordCnt = Some (ws ! i)"
    using phrase_indices_back ws(2) by blast
  have s: "share_id ?s = trng AND 32767" "extendableBackupFlag ?s" "iteration ?s = 0" "memberThreshold ?s = of_nat t"
    "valueLength ?s = length ms"
    using rows i len by (simp_all add: group_share_def)
  note f = decode_fields [OF dec, unfolded s]
  have "bit (ws ! i ! 1) 4" using f(2) s(2) by simp
  then show ?thesis
    using get i n idx dec s f
    by (intro exI [of _ "map (\<lambda>r. the (slip39_strings_for_words r)) ws"] exI)
      (auto simp: Slip39CheckFirstWordList_def Slip39OneSliceCheck_def flag_byte)
qed

lemma Slip39_single_phrase_witness:
  "\<exists>wordsList out. GetSlip39MnemonicsWords (\<lambda>k m. replicate 32 (hd m)) example_pbkdf2
      (\<lambda>i j. if j = 1 then replicate 12 3 else replicate 16 2) 400 (replicate 16 7) 20 5 3 = Some (wordsList, out) \<and>
    Slip39CheckFirstWordList [] (wordsList ! 2) 20 = Some (Inr (of_nat 3, length (replicate 16 (7 :: u8)))) \<and>
    Slip39OneSliceCheck [] (wordsList ! 2) 20 401 1 0
      = Some (if (401 :: u16) = 400 AND 32767 \<and> (1 :: u8) = 1 \<and> (0 :: u8) = 0
              then Inr (of_nat 3, length (replicate 16 (7 :: u8))) else Inl SLIP39_NOT_BELONG_THIS_WALLET)"
  by (rule Slip39_single_phrase)
    (simp_all add: slip39_parameters_def randomness_def example_pbkdf2_def fit_key_ok)

end
