(* ===== verification/Mnemonic.thy ===== *)
theory Mnemonic
  imports WordLists "HOL-Library.Monad_Syntax"
begin

text \<open>
  Word lists and the packing of word numbers into bytes (\<^verbatim>\<open>src/crypto/bips/wordlist.c\<close>,
  \<^verbatim>\<open>src/crypto/bips/mnemonic.c\<close>). A parsed word list is a record; the string it was parsed from and
  the allocation of the two are left out. Numbers of type \<^verbatim>\<open>size_t\<close> are natural numbers: they
  stay far below the width of 32 bits.
\<close>

section \<open>Word lists\<close>

record word_list =
  wl_len :: nat
  wl_bits :: nat
  wl_sorted :: bool
  wl_indices :: "bytes list"

fun get_bits :: "nat \<Rightarrow> nat" where
  "get_bits n = (if n div 2 = 0 then 0 else Suc (get_bits (n div 2)))"

declare get_bits.simps [simp del]

definition wordlist_count :: "bytes \<Rightarrow> nat" where
  "wordlist_count words = 1 + length (filter (\<lambda>c. c = 32) words)"

text \<open>The loop that cuts the string at its spaces.\<close>

fun tokenise :: "nat \<Rightarrow> bytes \<Rightarrow> bytes list" where
  "tokenise 0 p = []"
| "tokenise (Suc n) p = takeWhile (\<lambda>c. c \<noteq> 32) p # tokenise n (drop 1 (dropWhile (\<lambda>c. c \<noteq> 32) p))"

fun words_sorted :: "bytes list \<Rightarrow> bool" where
  "words_sorted (v # w # ws) = (if strcmp v w > 0 then False else words_sorted (w # ws))"
| "words_sorted _ = True"

definition wordlist_init :: "bytes \<Rightarrow> word_list" where
  "wordlist_init words =
     (let len = wordlist_count words; indices = tokenise len words
      in \<lparr>wl_len = len, wl_bits = get_bits len, wl_sorted = words_sorted indices, wl_indices = indices\<rparr>)"

text \<open>The C library's \<^verbatim>\<open>bsearch\<close> over the elements from \<open>l\<close> to below \<open>u\<close>.\<close>

function bsearch :: "bytes list \<Rightarrow> bytes \<Rightarrow> nat \<Rightarrow> nat \<Rightarrow> nat option" where
  "bsearch indices word l u =
     (if l < u
      then let idx = (l + u) div 2; cmp = strcmp word (indices ! idx)
           in if cmp < 0 then bsearch indices word l idx
              else if cmp > 0 then bsearch indices word (idx + 1) u
              else Some idx
      else None)"
  by pat_completeness auto
termination
  by (relation "measure (\<lambda>(indices, word, l, u). u - l)") auto

declare bsearch.simps [simp del]

text \<open>Zero for a word that is not found, else one more than its index.\<close>

definition wordlist_lookup_word :: "word_list \<Rightarrow> bytes \<Rightarrow> nat" where
  "wordlist_lookup_word w word =
     (case (if wl_sorted w then bsearch (wl_indices w) word 0 (wl_len w)
            else find (\<lambda>i. strcmp word (wl_indices w ! i) = 0) [0..<wl_len w]) of
        None \<Rightarrow> 0 | Some i \<Rightarrow> i + 1)"

definition wordlist_lookup_index :: "word_list \<Rightarrow> nat \<Rightarrow> bytes option" where
  "wordlist_lookup_index w idx = (if idx \<ge> wl_len w then None else Some (wl_indices w ! idx))"

section \<open>Bits\<close>

text \<open>\<^verbatim>\<open>U8_AT(bytes, pos) & U8_MASK(pos)\<close>: bit \<open>pos\<close> of a byte string, the most significant first.\<close>

definition bit_at :: "bytes \<Rightarrow> nat \<Rightarrow> bool" where
  "bit_at bytes pos = bit (bytes ! (pos div 8)) (7 - pos mod 8)"

definition extract_index :: "nat \<Rightarrow> bytes \<Rightarrow> nat \<Rightarrow> nat" where
  "extract_index bits bytes n =
     foldl (\<lambda>v pos. 2 * v + of_bool (bit_at bytes pos)) 0 [n * bits..<n * bits + bits]"

definition set_bit_at :: "bytes \<Rightarrow> nat \<Rightarrow> bytes" where
  "set_bit_at bytes pos = bytes[pos div 8 := bytes ! (pos div 8) OR push_bit (7 - pos mod 8) 1]"

definition store_index :: "nat \<Rightarrow> bytes \<Rightarrow> nat \<Rightarrow> nat \<Rightarrow> bytes" where
  "store_index bits bytes_out n v =
     foldl (\<lambda>b i. if bit v (bits - i - 1) then set_bit_at b (n * bits + i) else b) bytes_out [0..<bits]"

text \<open>\<open>None\<close>: too few bytes for one word; the code then returns an empty allocation.\<close>

definition mnemonic_from_bytes :: "word_list \<Rightarrow> bytes \<Rightarrow> bytes option" where
  "mnemonic_from_bytes w bytes =
     (let total_mnemonics = length bytes * 8 div wl_bits w;
          str = concat (map (\<lambda>i. wl_indices w ! extract_index (wl_bits w) bytes i @ [32]) [0..<total_mnemonics])
      in if str = [] then None else Some (butlast str))"

fun store_words :: "word_list \<Rightarrow> nat \<Rightarrow> bytes list \<Rightarrow> bytes \<Rightarrow> bytes option" where
  "store_words w i [] bytes_out = Some bytes_out"
| "store_words w i (m # ms) bytes_out =
     (let idx = wordlist_lookup_word w m
      in if idx = 0 then None
         else store_words w (i + 1) ms (store_index (wl_bits w) bytes_out i (idx - 1)))"

text \<open>
  The code, the output buffer and the number of bytes (written or needed). The buffer is \<open>bytes_out\<close>.
\<close>

definition mnemonic_to_bytes :: "word_list \<Rightarrow> bytes \<Rightarrow> bytes \<Rightarrow> int \<times> bytes \<times> nat" where
  "mnemonic_to_bytes w mnemonic bytes_out =
     (let len = length bytes_out
      in if len = 0 then (-1, bytes_out, 0)
         else
           let mnemonic_w = wordlist_init mnemonic;
               written = (wl_len mnemonic_w * wl_bits w + 7) div 8
           in if written > len then (0, bytes_out, written)
              else case store_words w 0 (wl_indices mnemonic_w) (replicate len 0) of
                     None \<Rightarrow> (-2, replicate len 0, 0)
                   | Some b \<Rightarrow> (0, b, written))"

section \<open>Looking up words\<close>

lemma bsearch_found:
  assumes "word_table indices" and "l \<le> k" and "k < u" and "u \<le> length indices"
  shows "bsearch indices (indices ! k) l u = Some k"
  using assms
proof (induction indices "indices ! k" l u rule: bsearch.induct)
  case (1 indices l u)
  let ?idx = "(l + u) div 2"
  have lu: "l < u" and k: "k < length indices" using "1.prems" by simp_all
  have idx: "l \<le> ?idx" "?idx < u" using lu by simp_all
  have i: "?idx < length indices" using idx "1.prems"(4) by simp
  note unfold = bsearch.simps [of indices "indices ! k" l u, unfolded Let_def]
  consider "k < ?idx" | "?idx < k" | "?idx = k" by linarith
  then show ?case
  proof cases
    case 1
    then have "strcmp (indices ! k) (indices ! ?idx) < 0" using word_table_less [OF "1.prems"(1) _ i] by blast
    then show ?thesis using "1.hyps"(1) [OF lu refl refl] "1.prems" 1 idx lu by (simp add: unfold)
  next
    case 2
    then have "strcmp (indices ! ?idx) (indices ! k) < 0" using word_table_less [OF "1.prems"(1) _ k] by blast
    then have "strcmp (indices ! k) (indices ! ?idx) > 0" using strcmp_minus [of "indices ! k" "indices ! ?idx"] by simp
    then show ?thesis using "1.hyps"(2) [OF lu refl refl] "1.prems" 2 idx lu by (simp add: unfold)
  next
    case 3
    then show ?thesis using lu by (simp add: unfold)
  qed
qed

lemma bsearch_sound: "bsearch indices word l u = Some i \<Longrightarrow> i < u \<and> strcmp word (indices ! i) = 0"
proof (induction indices word l u rule: bsearch.induct)
  case (1 indices word l u)
  let ?idx = "(l + u) div 2" and ?cmp = "strcmp word (indices ! ((l + u) div 2))"
  note unfold = bsearch.simps [of indices word l u, unfolded Let_def]
  have lu: "l < u" using "1.prems" by (auto simp: unfold split: if_splits)
  consider "?cmp < 0" | "?cmp > 0" | "?cmp = 0" by linarith
  then show ?case
  proof cases
    case 1
    then have "i < ?idx \<and> strcmp word (indices ! i) = 0"
      using "1.IH"(1) [OF lu refl refl] "1.prems" lu by (simp add: unfold)
    moreover have "?idx \<le> u" using lu by simp
    ultimately show ?thesis using less_le_trans by blast
  next
    case 2
    then show ?thesis using "1.IH"(2) [OF lu refl refl] "1.prems" lu by (simp add: unfold)
  next
    case 3
    then show ?thesis using "1.prems" lu by (auto simp: unfold)
  qed
qed

text \<open>A sorted list of distinct words, each number of which has \<open>bits\<close> bits.\<close>

definition wf_words :: "word_list \<Rightarrow> bool" where
  "wf_words w \<longleftrightarrow> word_table (wl_indices w) \<and> wl_len w = length (wl_indices w) \<and> wl_sorted w \<and>
     wl_len w = 2 ^ wl_bits w \<and> 0 < wl_bits w"

lemma lookup_word_nth: "wf_words w \<Longrightarrow> i < wl_len w \<Longrightarrow> wordlist_lookup_word w (wl_indices w ! i) = i + 1"
  by (simp add: wordlist_lookup_word_def wf_words_def bsearch_found)

lemma lookup_word_sound:
  assumes "wf_words w" and "wordlist_lookup_word w word = i + 1" and "0 \<notin> set word"
  shows "i < wl_len w \<and> wl_indices w ! i = word"
proof -
  have "bsearch (wl_indices w) word 0 (wl_len w) = Some i"
    using assms(1,2) by (auto simp: wordlist_lookup_word_def wf_words_def split: option.splits)
  then have "i < wl_len w" "strcmp word (wl_indices w ! i) = 0" using bsearch_sound by auto
  moreover have "0 \<notin> set (wl_indices w ! i)"
    using assms(1) calculation(1) by (auto simp: wf_words_def intro!: table_word_nonzero word_table_nth)
  ultimately show ?thesis using strcmp_0 [of word "wl_indices w ! i"] assms(3) by simp
qed

section \<open>Cutting a phrase\<close>

lemma takeWhile_token: "32 \<notin> set v \<Longrightarrow> takeWhile (\<lambda>c. c \<noteq> 32) (v @ 32 # s) = v"
  "32 \<notin> set v \<Longrightarrow> dropWhile (\<lambda>c. c \<noteq> 32) (v @ 32 # s) = 32 # s"
  by (induction v) auto

lemma takeWhile_last: "32 \<notin> set v \<Longrightarrow> takeWhile (\<lambda>c. c \<noteq> 32) v = v"
  by (auto simp: takeWhile_eq_all_conv)

lemma tokenise_phrase:
  "\<forall>v\<in>set vs. 32 \<notin> set v \<Longrightarrow> vs \<noteq> [] \<Longrightarrow>
   tokenise (length vs) (butlast (concat (map (\<lambda>v. v @ [32]) vs))) = vs"
proof (induction vs rule: induct_list012)
  case (2 v)
  then show ?case by (simp add: takeWhile_last)
next
  case (3 v w vs)
  let ?s = "concat (map (\<lambda>v. v @ [32]) (w # vs))"
  have "?s \<noteq> []" by simp
  then have "butlast (concat (map (\<lambda>v. v @ [32]) (v # w # vs))) = v @ 32 # butlast ?s"
    by (simp add: butlast_append)
  then show ?case using 3(2) 3(3) by (simp add: takeWhile_token)
qed simp

lemma count_phrase:
  "\<forall>v\<in>set vs. 32 \<notin> set v \<Longrightarrow> vs \<noteq> [] \<Longrightarrow>
   wordlist_count (butlast (concat (map (\<lambda>v. v @ [32]) vs))) = length vs"
proof (induction vs rule: induct_list012)
  case (2 v)
  then show ?case by (auto simp: wordlist_count_def filter_empty_conv)
next
  case (3 v w vs)
  let ?s = "concat (map (\<lambda>v. v @ [32]) (w # vs))"
  have "?s \<noteq> []" by simp
  then have s: "butlast (concat (map (\<lambda>v. v @ [32]) (v # w # vs))) = v @ 32 # butlast ?s"
    by (simp add: butlast_append)
  have "filter (\<lambda>c. c = 32) v = []" using 3(3) by (auto simp: filter_empty_conv)
  moreover have "wordlist_count (butlast ?s) = length (w # vs)" using 3 by simp
  ultimately show ?case by (simp only: s wordlist_count_def filter_append) simp
qed simp

lemma init_phrase:
  assumes "\<forall>v\<in>set vs. 32 \<notin> set v" and "vs \<noteq> []"
  shows "wl_len (wordlist_init (butlast (concat (map (\<lambda>v. v @ [32]) vs)))) = length vs"
    and "wl_indices (wordlist_init (butlast (concat (map (\<lambda>v. v @ [32]) vs)))) = vs"
  using count_phrase [OF assms] tokenise_phrase [OF assms] by (simp_all add: wordlist_init_def Let_def)

section \<open>Packing\<close>

text \<open>The bits of the number that is extracted.\<close>

lemma foldl_bits:
  "foldl (\<lambda>v x. 2 * v + of_bool (f x)) a xs = a * 2 ^ length xs + horner_sum of_bool 2 (map f (rev xs))"
  for a :: nat
  by (induction xs arbitrary: a) (simp_all add: horner_sum_append algebra_simps)

lemma extract_index_bit:
  "bit (extract_index bits bytes n) j \<longleftrightarrow> j < bits \<and> bit_at bytes (n * bits + (bits - 1 - j))"
proof -
  have "extract_index bits bytes n = horner_sum of_bool 2 (map (bit_at bytes) (rev [n * bits..<n * bits + bits]))"
    unfolding extract_index_def foldl_bits by simp
  then show ?thesis by (auto simp: bit_horner_sum_bit_iff rev_nth)
qed

lemma extract_index_less: "extract_index bits bytes n < 2 ^ bits"
proof -
  have "extract_index bits bytes n = horner_sum of_bool 2 (map (bit_at bytes) (rev [n * bits..<n * bits + bits]))"
    unfolding extract_index_def foldl_bits by simp
  also have "\<dots> < 2 ^ length (map (bit_at bytes) (rev [n * bits..<n * bits + bits]))"
    by (rule horner_sum_of_bool_2_less)
  finally show ?thesis by simp
qed

lemma pos_eq: "(p :: nat) = q \<longleftrightarrow> p div 8 = q div 8 \<and> 7 - p mod 8 = 7 - q mod 8"
proof
  assume a: "p div 8 = q div 8 \<and> 7 - p mod 8 = 7 - q mod 8"
  have "p mod 8 < 8" "q mod 8 < 8" by simp_all
  then have "p mod 8 = q mod 8" using a by linarith
  then show "p = q" using a by (metis div_mult_mod_eq)
qed simp

lemma length_set_bit_at [simp]: "length (set_bit_at b p) = length b"
  by (simp add: set_bit_at_def)

lemma bit_at_set:
  assumes "p div 8 < length b"
  shows "bit_at (set_bit_at b p) q \<longleftrightarrow> bit_at b q \<or> q = p"
proof (cases "q div 8 = p div 8")
  case True
  have "7 - q mod 8 < 8" by simp
  then show ?thesis using True assms pos_eq [of q p]
    by (auto simp: bit_at_def set_bit_at_def bit_simps)
next
  case False
  then show ?thesis using assms by (auto simp: bit_at_def set_bit_at_def)
qed

lemma store_index_bits:
  assumes "k \<le> bits" and "n * bits + bits \<le> length b * 8"
  shows "bit_at (foldl (\<lambda>b i. if bit v (bits - i - 1) then set_bit_at b (n * bits + i) else b) b [0..<k]) q
      \<longleftrightarrow> bit_at b q \<or> (n * bits \<le> q \<and> q < n * bits + k \<and> bit v (bits - 1 - (q - n * bits)))"
    and "length (foldl (\<lambda>b i. if bit v (bits - i - 1) then set_bit_at b (n * bits + i) else b) b [0..<k]) = length b"
  using assms(1)
proof (induction k)
  case 0
  { case 1 then show ?case by auto next case 2 then show ?case by simp }
next
  case (Suc k)
  let ?b = "foldl (\<lambda>b i. if bit v (bits - i - 1) then set_bit_at b (n * bits + i) else b) b [0..<k]"
  { case 1
    have "(n * bits + k) div 8 < length ?b"
      using assms(2) 1 Suc.IH(2) by (intro less_mult_imp_div_less) simp
    note set = bit_at_set [OF this]
    have "q < n * bits + Suc k \<longleftrightarrow> q < n * bits + k \<or> q = n * bits + k" by auto
    then show ?case using Suc.IH(1) 1 set by auto
  next
    case 2
    then show ?case using Suc.IH(2) by simp }
qed

lemma store_index_bit_at:
  assumes "n * bits + bits \<le> length b * 8"
  shows "bit_at (store_index bits b n v) q
      \<longleftrightarrow> bit_at b q \<or> (n * bits \<le> q \<and> q < n * bits + bits \<and> bit v (bits - 1 - (q - n * bits)))"
    and "length (store_index bits b n v) = length b"
  using store_index_bits [OF order_refl assms, of v] by (simp_all add: store_index_def)

text \<open>The words of a byte string, stored into zeros, restore its leading bits.\<close>

lemma store_words_bits:
  assumes w: "wf_words w" and room: "(i + m) * wl_bits w \<le> length b * 8"
  shows "\<exists>b'. store_words w i (map (\<lambda>k. wl_indices w ! extract_index (wl_bits w) src k) [i..<i + m]) b = Some b' \<and>
    length b' = length b \<and>
    (\<forall>q. bit_at b' q \<longleftrightarrow> bit_at b q \<or> (i * wl_bits w \<le> q \<and> q < (i + m) * wl_bits w \<and> bit_at src q))"
  using room
proof (induction m arbitrary: i b)
  case 0
  show ?case by (intro exI [of _ b]) auto
next
  case (Suc m)
  let ?n = "wl_bits w"
  define v where "v = extract_index ?n src i"
  have up: "[i..<i + Suc m] = i # [Suc i..<Suc i + m]" by (simp add: upt_rec)
  have look: "wordlist_lookup_word w (wl_indices w ! v) = v + 1"
    using w extract_index_less [of ?n src i] by (intro lookup_word_nth) (simp_all add: v_def wf_words_def)
  have "(i + Suc m) * ?n = i * ?n + ?n + m * ?n" by (simp add: algebra_simps)
  then have fit: "i * ?n + ?n \<le> length b * 8" using Suc.prems by simp
  define b1 where "b1 = store_index ?n b i v"
  note st = store_index_bit_at [OF fit, of v, folded b1_def]
  have "(Suc i + m) * ?n \<le> length b1 * 8" using Suc.prems st(2) by simp
  then obtain b' where b': "store_words w (Suc i) (map (\<lambda>k. wl_indices w ! extract_index ?n src k) [Suc i..<Suc i + m]) b1 = Some b'"
    "length b' = length b1"
    "\<And>q. bit_at b' q \<longleftrightarrow> bit_at b1 q \<or> (Suc i * ?n \<le> q \<and> q < (Suc i + m) * ?n \<and> bit_at src q)"
    using Suc.IH [of "Suc i" b1] by auto
  have "bit_at b1 q \<longleftrightarrow> bit_at b q \<or> (i * ?n \<le> q \<and> q < Suc i * ?n \<and> bit_at src q)" for q
  proof (cases "i * ?n \<le> q \<and> q < i * ?n + ?n")
    case True
    then have "i * ?n + (?n - 1 - (?n - 1 - (q - i * ?n))) = q" and "?n - 1 - (q - i * ?n) < ?n" by auto
    then show ?thesis using True st(1) [of q] extract_index_bit [of ?n src i "?n - 1 - (q - i * ?n)"]
      by (simp add: v_def)
  next
    case False
    then show ?thesis using st(1) [of q] by auto
  qed
  moreover have "q < Suc i * ?n \<Longrightarrow> q < (i + Suc m) * ?n" for q
    by (erule less_le_trans) (rule mult_le_mono1, simp)
  moreover have "Suc i * ?n \<le> q \<Longrightarrow> i * ?n \<le> q" for q by simp
  moreover have "(Suc i + m) = i + Suc m" by simp
  ultimately have "bit_at b' q \<longleftrightarrow> bit_at b q \<or> (i * ?n \<le> q \<and> q < (i + Suc m) * ?n \<and> bit_at src q)" for q
    using b'(3) [of q] by (metis not_less)
  then show ?case
    using b' look st(2) unfolding up by (simp add: Let_def v_def [symmetric] b1_def [symmetric])
qed

text \<open>Whatever words are stored into zeros are the words of the bytes that result.\<close>

lemma bit_mod_mult: "(2 :: nat) ^ n > v \<Longrightarrow> bit v j \<Longrightarrow> j < n"
  by (metis bit_take_bit_iff take_bit_nat_eq_self)

lemma store_words_sound:
  assumes w: "wf_words w" and "store_words w i ms b = Some b'" and "(i + length ms) * wl_bits w \<le> length b * 8"
    and "\<forall>q. i * wl_bits w \<le> q \<longrightarrow> q < length b * 8 \<longrightarrow> \<not> bit_at b q" and "\<forall>v\<in>set ms. 0 \<notin> set v"
  shows "length b' = length b \<and> (\<forall>q<i * wl_bits w. bit_at b' q = bit_at b q) \<and>
    (\<forall>q. (i + length ms) * wl_bits w \<le> q \<longrightarrow> q < length b * 8 \<longrightarrow> \<not> bit_at b' q) \<and>
    ms = map (\<lambda>k. wl_indices w ! extract_index (wl_bits w) b' k) [i..<i + length ms]"
  using assms(2-5)
proof (induction ms arbitrary: i b)
  case Nil
  then show ?case by simp
next
  case (Cons m ms)
  let ?n = "wl_bits w"
  obtain v where look: "wordlist_lookup_word w m = v + 1" and st: "store_words w (i + 1) ms (store_index ?n b i v) = Some b'"
    using Cons.prems(1) by (cases "wordlist_lookup_word w m") (auto simp: Let_def)
  have v: "v < 2 ^ ?n" "wl_indices w ! v = m"
    using lookup_word_sound [OF w look] Cons.prems(4) w by (auto simp: wf_words_def)
  define b1 where "b1 = store_index ?n b i v"
  have "(i + length (m # ms)) * ?n = i * ?n + ?n + length ms * ?n" by (simp add: algebra_simps)
  then have fit: "i * ?n + ?n \<le> length b * 8" using Cons.prems(2) by simp
  note b1 = store_index_bit_at [OF fit, of v, folded b1_def]
  have zero: "\<forall>q. (i + 1) * ?n \<le> q \<longrightarrow> q < length b1 * 8 \<longrightarrow> \<not> bit_at b1 q"
    using Cons.prems(3) b1 by auto
  have room: "(i + 1 + length ms) * ?n \<le> length b1 * 8" using Cons.prems(2) b1(2) by simp
  have ih: "length b' = length b1" "\<And>q. q < (i + 1) * ?n \<Longrightarrow> bit_at b' q = bit_at b1 q"
    "\<And>q. (i + 1 + length ms) * ?n \<le> q \<Longrightarrow> q < length b1 * 8 \<Longrightarrow> \<not> bit_at b' q"
    "ms = map (\<lambda>k. wl_indices w ! extract_index ?n b' k) [i + 1..<i + 1 + length ms]"
    using Cons.IH [OF st [folded b1_def] room zero] Cons.prems(4) by auto
  have "extract_index ?n b' i = v"
  proof (rule bit_eqI)
    fix j
    have "bit_at b' (i * ?n + (?n - 1 - j)) \<longleftrightarrow> bit v j" if j: "j < ?n"
    proof -
      let ?q = "i * ?n + (?n - 1 - j)"
      have q: "?q < (i + 1) * ?n" "i * ?n \<le> ?q" "?q < i * ?n + ?n" "?n - 1 - (?q - i * ?n) = j" using j by auto
      have "\<not> bit_at b ?q" using Cons.prems(3) q(2,3) fit by simp
      then show ?thesis using ih(2) [OF q(1)] b1(1) [of ?q] q by simp
    qed
    then show "bit (extract_index ?n b' i) j = bit v j"
      using extract_index_bit [of ?n b' i j] bit_mod_mult [OF v(1), of j] by blast
  qed
  then have "m # ms = map (\<lambda>k. wl_indices w ! extract_index ?n b' k) [i..<i + length (m # ms)]"
    using ih(4) v(2) upt_conv_Cons [of i "i + length (m # ms)"] by simp
  moreover have "bit_at b' q = bit_at b q" if "q < i * ?n" for q
    using ih(2) [of q] b1(1) [of q] that by simp
  ultimately show ?case using ih(1,3) b1(2) by simp
qed

end
