(* ===== verification/Bip39.thy ===== *)
theory Bip39
  imports Mnemonic Bip39WordTable
begin

text \<open>
  BIP-39 (\<^verbatim>\<open>src/crypto/bips/bip39.c\<close>): entropy to phrase and back, with the checksum. SHA-256 and
  PBKDF2 are parameters, null pointers are left out (a null word list is the English one).
\<close>

section \<open>The code\<close>

definition en_word_list :: word_list where
  "en_word_list = \<lparr>wl_len = 2048, wl_bits = 11, wl_sorted = True, wl_indices = en_indices\<rparr>"

definition bip39_get_languages :: bytes where
  "bip39_get_languages = cstr ''en''"

text \<open>The only entry of \<^verbatim>\<open>lookup\<close> is the English list, which is also the fallback.\<close>

definition bip39_get_wordlist :: "bytes \<Rightarrow> word_list" where
  "bip39_get_wordlist lang = (if lang = cstr ''en'' then en_word_list else en_word_list)"

definition bip39_get_word :: "word_list \<Rightarrow> nat \<Rightarrow> int + bytes" where
  "bip39_get_word w idx =
     (case wordlist_lookup_index w idx of None \<Rightarrow> Inl (-2) | Some word \<Rightarrow> Inr word)"

definition len_to_mask :: "nat \<Rightarrow> u32" where
  "len_to_mask len =
     (if len = 16 then 240 else if len = 20 then 248 else if len = 24 then 252 else if len = 28 then 254
      else if len = 32 then 255 else if len = 36 then 33023 else if len = 40 then 49407 else 0)"

definition bip39_checksum :: "(bytes \<Rightarrow> bytes) \<Rightarrow> bytes \<Rightarrow> u32 \<Rightarrow> u32" where
  "bip39_checksum sha256 bytes cmask =
     (let sha = sha256 bytes in (ucast (sha ! 0) OR push_bit 8 (ucast (sha ! 1))) AND cmask)"

definition bip39_mnemonic_from_bytes :: "(bytes \<Rightarrow> bytes) \<Rightarrow> word_list \<Rightarrow> bytes \<Rightarrow> int + bytes" where
  "bip39_mnemonic_from_bytes sha256 w bytes =
     (let cmask = len_to_mask (length bytes)
      in if length bytes = 0 \<or> wl_bits w \<noteq> 11 \<or> cmask = 0 then Inl (-2)
         else
           let checksum = bip39_checksum sha256 bytes cmask;
               tmp_bytes = bytes @ [ucast (checksum AND 255)]
                 @ (if cmask > 255 then [ucast (drop_bit 8 checksum AND 255)] else [])
           in case mnemonic_from_bytes w tmp_bytes of None \<Rightarrow> Inl (-1) | Some output \<Rightarrow> Inr output)"

definition checksum_ok :: "(bytes \<Rightarrow> bytes) \<Rightarrow> bytes \<Rightarrow> nat \<Rightarrow> u32 \<Rightarrow> bool" where
  "checksum_ok sha256 bytes idx cmask =
     (let calculated = bip39_checksum sha256 (take idx bytes) cmask;
          stored = ucast (bytes ! idx);
          stored = (if cmask > 255 then stored OR push_bit 8 (ucast (bytes ! (idx + 1))) else stored)
      in stored AND cmask = calculated)"

definition BIP39_ENTROPY_MAX_LEN :: nat where "BIP39_ENTROPY_MAX_LEN = 42"

text \<open>
  The code, the output buffer and \<^verbatim>\<open>written\<close>; \<open>stack\<close> is what \<^verbatim>\<open>tmp_bytes\<close> holds at first. An entropy
  longer than the output buffer is a success that copies nothing and whose checksum is not looked at.
\<close>

definition bip39_mnemonic_to_bytes ::
  "(bytes \<Rightarrow> bytes) \<Rightarrow> bytes \<Rightarrow> word_list \<Rightarrow> bytes \<Rightarrow> bytes \<Rightarrow> int \<times> bytes \<times> nat" where
  "bip39_mnemonic_to_bytes sha256 stack w mnemonic bytes_out =
     (if wl_bits w \<noteq> 11 then (-2, bytes_out, 0)
      else
        let (ret, tmp_bytes, tmp_len) = mnemonic_to_bytes w mnemonic stack
        in if ret \<noteq> 0 then (ret, bytes_out, 0)
           else
             let tmp_len = tmp_len - 1;
                 tmp_len = (if tmp_len > 32 then tmp_len - 1 else tmp_len)
             in if tmp_len > BIP39_ENTROPY_MAX_LEN then (-2, bytes_out, 0)
                else if tmp_len \<le> length bytes_out
                then let cmask = len_to_mask tmp_len
                     in if cmask = 0 \<or> \<not> checksum_ok sha256 tmp_bytes tmp_len cmask then (-2, bytes_out, 0)
                        else (0, buf_write bytes_out 0 (take tmp_len tmp_bytes), tmp_len)
                else (0, bytes_out, tmp_len))"

definition bip39_mnemonic_validate :: "(bytes \<Rightarrow> bytes) \<Rightarrow> bytes \<Rightarrow> bytes \<Rightarrow> word_list \<Rightarrow> bytes \<Rightarrow> int" where
  "bip39_mnemonic_validate sha256 stack buf w mnemonic =
     fst (bip39_mnemonic_to_bytes sha256 stack w mnemonic buf)"

text \<open>The seed of 64 bytes that PBKDF2 derives, with the cost of 2048 rounds.\<close>

definition bip39_mnemonic_to_seed ::
  "(bytes \<Rightarrow> bytes \<Rightarrow> nat \<Rightarrow> nat \<Rightarrow> bytes) \<Rightarrow> bytes \<Rightarrow> bytes \<Rightarrow> nat \<Rightarrow> int + bytes" where
  "bip39_mnemonic_to_seed pbkdf2_hmac_sha512 mnemonic passphrase len =
     (if len \<noteq> 64 then Inl (-2)
      else Inr (pbkdf2_hmac_sha512 mnemonic (cstr ''mnemonic'' @ passphrase) 2048 len))"

section \<open>Bits of byte strings\<close>

lemma en_word_list_wf: "wf_words en_word_list"
  using en_indices_table length_en_indices by (simp add: wf_words_def en_word_list_def)

lemma bit_at_position: "k < 8 \<Longrightarrow> bit (b ! e) k \<longleftrightarrow> bit_at b (8 * e + (7 - k))"
proof -
  assume k: "k < 8"
  define m where "m = 7 - k"
  have "m < 8" "7 - m = k" using k by (simp_all add: m_def)
  moreover have "(8 * e + m) div 8 = e" "(8 * e + m) mod 8 = m" using \<open>m < 8\<close> by simp_all
  ultimately show ?thesis unfolding m_def [symmetric] by (simp add: bit_at_def)
qed

lemma byte_eqI: "(\<And>k. k < 8 \<Longrightarrow> bit_at b (8 * e + (7 - k)) \<longleftrightarrow> bit_at c (8 * f + (7 - k))) \<Longrightarrow> b ! e = c ! f"
  by (rule bit_word_eqI) (simp add: bit_at_position)

lemma bit_at_zero: "q div 8 < n \<Longrightarrow> \<not> bit_at (replicate n 0) q"
  by (simp add: bit_at_def)

text \<open>
  The seven entropy lengths: \<open>n\<close> words for \<open>e\<close> bytes, with \<open>c\<close> bytes of checksum; the mask selects the
  bits of the checksum bytes that belong to the words.
\<close>

definition bip39_size :: "nat \<Rightarrow> nat \<Rightarrow> nat \<Rightarrow> bool" where
  "bip39_size e n c \<longleftrightarrow> (e, n, c) \<in> {(16, 12, 1), (20, 15, 1), (24, 18, 1), (28, 21, 1), (32, 24, 1), (36, 27, 2), (40, 30, 2)}"

lemma bip39_size_facts:
  assumes "bip39_size e n c"
  shows "(n * 11 + 7) div 8 = e + c" and "(e + c) * 8 div 11 = n" and "8 * e \<le> n * 11" and "e + c \<le> 42"
    and "c = 1 \<or> c = 2" and "len_to_mask e \<noteq> 0" and "len_to_mask e > 255 \<longleftrightarrow> c = 2"
    and "(if e + c - 1 > 32 then e + c - 1 - 1 else e + c - 1) = e" and "0 < n"
  using assms by (auto simp: bip39_size_def len_to_mask_def)

lemma less_8: "(k :: nat) < 8 \<longleftrightarrow> k \<in> {0, 1, 2, 3, 4, 5, 6, 7}"
  by auto

lemma mask_low: "bip39_size e n c \<Longrightarrow> k < 8 \<Longrightarrow> bit (len_to_mask e) k \<longleftrightarrow> 8 * e + (7 - k) < n * 11"
  unfolding less_8 by (auto simp: bip39_size_def len_to_mask_def)

lemma mask_high: "bip39_size e n 2 \<Longrightarrow> k < 8 \<Longrightarrow> bit (len_to_mask e) (8 + k) \<longleftrightarrow> 8 * (e + 1) + (7 - k) < n * 11"
  unfolding less_8 by (auto simp: bip39_size_def len_to_mask_def)

lemma size_of_mask:
  assumes "len_to_mask e \<noteq> 0"
  obtains n c where "bip39_size e n c"
  using assms by (auto simp: len_to_mask_def bip39_size_def split: if_splits)

lemma mask_bound: "bit (len_to_mask e) k \<Longrightarrow> k < 16"
  by (rule word_bit_below [of "len_to_mask e" 16]) (simp_all add: len_to_mask_def)

lemma mask_bound_1: "bip39_size e n 1 \<Longrightarrow> bit (len_to_mask e) k \<Longrightarrow> k < 8"
  by (rule word_bit_below [of "len_to_mask e" 8]) (auto simp: len_to_mask_def bip39_size_def)

lemma bit_mask_cases:
  assumes "bip39_size e n c" and "bit (len_to_mask e) k"
  obtains (low) "k < 8" "8 * e + (7 - k) < n * 11"
    | (high) j where "c = 2" "j < 8" "k = 8 + j" "8 * (e + 1) + (7 - j) < n * 11"
proof (cases "k < 8")
  case True
  then show thesis using low mask_low [OF assms(1)] assms(2) by blast
next
  case False
  then have c: "c = 2" using mask_bound_1 assms bip39_size_facts(5) by blast
  define j where "j = k - 8"
  have "k = 8 + j" "j < 8" using False mask_bound [OF assms(2)] by (simp_all add: j_def)
  then show thesis using high c mask_high assms by metis
qed

definition stored_checksum :: "bytes \<Rightarrow> nat \<Rightarrow> nat \<Rightarrow> u32" where
  "stored_checksum b e c = (if c = 2 then ucast (b ! e) OR push_bit 8 (ucast (b ! (e + 1))) else ucast (b ! e))"

lemma checksum_ok_stored:
  "bip39_size e n c \<Longrightarrow> checksum_ok sha b e (len_to_mask e)
    \<longleftrightarrow> stored_checksum b e c AND len_to_mask e = bip39_checksum sha (take e b) (len_to_mask e)"
  using bip39_size_facts(7) [of e n c] by (simp add: checksum_ok_def Let_def stored_checksum_def)

lemma bit_stored:
  "k < 8 \<Longrightarrow> bit (stored_checksum b e c) k \<longleftrightarrow> bit (b ! e) k"
  "c = 2 \<Longrightarrow> j < 8 \<Longrightarrow> bit (stored_checksum b e c) (8 + j) \<longleftrightarrow> bit (b ! (e + 1)) j"
  by (auto simp: stored_checksum_def bit_simps dest: bit_u8_less)

text \<open>The bytes of the checksum that are stored after the entropy.\<close>

definition checksum_bytes :: "nat \<Rightarrow> u32 \<Rightarrow> bytes" where
  "checksum_bytes c v = [ucast (v AND 255)] @ (if c = 2 then [ucast (drop_bit 8 v AND 255)] else [])"

lemma length_checksum_bytes: "c = 1 \<or> c = 2 \<Longrightarrow> length (checksum_bytes c v) = c"
  by (auto simp: checksum_bytes_def)

lemma bit_checksum_bytes:
  assumes "length ent = e"
  shows "k < 8 \<Longrightarrow> bit ((ent @ checksum_bytes c v) ! e) k \<longleftrightarrow> bit v k"
    and "c = 2 \<Longrightarrow> k < 8 \<Longrightarrow> bit ((ent @ checksum_bytes c v) ! (e + 1)) k \<longleftrightarrow> bit v (8 + k)"
  using assms by (simp_all add: checksum_bytes_def nth_append bit_simps and_255_take_bit)

lemma from_bytes_eq:
  assumes "bip39_size e n c" and "length ent = e" and "wl_bits w = 11"
  shows "bip39_mnemonic_from_bytes sha w ent =
    (case mnemonic_from_bytes w (ent @ checksum_bytes c (bip39_checksum sha ent (len_to_mask e))) of
       None \<Rightarrow> Inl (-1) | Some output \<Rightarrow> Inr output)"
  using bip39_size_facts [OF assms(1)] assms(2,3) 
  by (auto simp: bip39_mnemonic_from_bytes_def Let_def checksum_bytes_def len_to_mask_def)

section \<open>From entropy to phrase and back\<close>

text \<open>The bytes that are unpacked from the words of \<open>src\<close> carry the entropy and its checksum.\<close>

lemma unpacked_checksum:
  assumes size: "bip39_size e n c" and ent: "length ent = e"
    and calc: "calc = bip39_checksum sha ent (len_to_mask e)"
    and bits: "\<And>q. q < 336 \<Longrightarrow> bit_at b q \<longleftrightarrow> q < n * 11 \<and> bit_at (ent @ checksum_bytes c calc) q"
    and len: "length b = 42"
  shows "take e b = ent" and "checksum_ok sha b e (len_to_mask e)"
proof -
  note facts = bip39_size_facts [OF size]
  have pos: "bit (b ! i) k \<longleftrightarrow> 8 * i + (7 - k) < n * 11 \<and> bit ((ent @ checksum_bytes c calc) ! i) k" if "k < 8" "i < 42" for i k
    using bits [of "8 * i + (7 - k)"] that(2) by (simp only: bit_at_position [OF that(1)])
  have byte: "b ! i = ent ! i" if i: "i < e" for i
  proof -
    have "8 * i + (7 - k) < n * 11" for k using i facts(3) by linarith
    then have "bit (b ! i) k \<longleftrightarrow> bit ((ent @ checksum_bytes c calc) ! i) k" if "k < 8" for k
      using pos [OF that, of i] i facts(4) by auto
    then have "b ! i = (ent @ checksum_bytes c calc) ! i" by (intro bit_word_eqI) simp
    then show ?thesis using i ent by (simp add: nth_append)
  qed
  then show take: "take e b = ent"
    using facts(4) len ent by (intro nth_equalityI) simp_all
  have masked: "bit calc k \<Longrightarrow> bit (len_to_mask e) k" for k
    by (simp add: calc bip39_checksum_def Let_def bit_simps)
  have "stored_checksum b e c AND len_to_mask e = calc"
  proof (rule bit_word_eqI)
    fix k
    have "bit (stored_checksum b e c) k \<longleftrightarrow> bit calc k" if "bit (len_to_mask e) k"
      using size that
    proof (cases rule: bit_mask_cases)
      case low
      then show ?thesis using bit_checksum_bytes(1) [OF ent low(1), of c calc] pos [OF low(1), of e] low facts(4,5)
          bit_stored(1) [OF low(1), of b e c] by auto
    next
      case (high j)
      then show ?thesis
        using bit_checksum_bytes(2) [OF ent high(1,2), of calc] bit_stored(2) [OF high(1,2), of b e] pos [OF high(2), of "e + 1"]
          high(1) facts(4) by auto
    qed
    then show "bit (stored_checksum b e c AND len_to_mask e) k \<longleftrightarrow> bit calc k"
      using masked by (auto simp: bit_simps)
  qed
  then show "checksum_ok sha b e (len_to_mask e)" by (simp add: checksum_ok_stored [OF size] take calc)
qed

text \<open>Conversely, a matching checksum and no bits after the words determine the checksum bytes.\<close>

lemma checksum_determined:
  assumes size: "bip39_size e n c" and ok: "checksum_ok sha b e (len_to_mask e)"
    and zero: "\<And>q. n * 11 \<le> q \<Longrightarrow> q < 336 \<Longrightarrow> \<not> bit_at b q" and len: "length b = 42"
  shows "take (e + c) b = take e b @ checksum_bytes c (bip39_checksum sha (take e b) (len_to_mask e))"
proof -
  note facts = bip39_size_facts [OF size]
  define calc where "calc = bip39_checksum sha (take e b) (len_to_mask e)"
  have calc: "calc = stored_checksum b e c AND len_to_mask e"
    using ok by (simp add: calc_def checksum_ok_stored [OF size])
  have te: "length (take e b) = e" using facts(4) len by simp
  have pos: "\<not> bit (b ! i) k" if "k < 8" "i < 42" "\<not> 8 * i + (7 - k) < n * 11" for i k
    using zero [of "8 * i + (7 - k)"] that(2,3) by (simp only: bit_at_position [OF that(1)] not_less) simp
  have low: "bit calc k \<longleftrightarrow> bit (b ! e) k" if "k < 8" for k
    using pos [OF that, of e] facts(4,5) mask_low [OF size that] bit_stored(1) [OF that, of b e c]
    by (auto simp: calc bit_and_iff)
  have high: "bit calc (8 + k) \<longleftrightarrow> bit (b ! (e + 1)) k" if "c = 2" "k < 8" for k
    using pos [OF that(2), of "e + 1"] facts(4) mask_high [of e n k] size bit_stored(2) [OF that, of b e] that
    by (auto simp: calc bit_and_iff)
  have b0: "b ! e = (take e b @ checksum_bytes c calc) ! e"
    by (rule bit_word_eqI) (simp add: bit_checksum_bytes(1) [OF te] low)
  have b1: "b ! (e + 1) = (take e b @ checksum_bytes c calc) ! (e + 1)" if "c = 2"
    using bit_checksum_bytes(2) [OF te that, of _ calc] high [OF that] by (intro bit_word_eqI) simp
  show ?thesis unfolding calc_def [symmetric]
  proof (rule nth_equalityI)
    show l: "length (take (e + c) b) = length (take e b @ checksum_bytes c calc)"
      using facts(4,5) len length_checksum_bytes by simp
    fix i assume "i < length (take (e + c) b)"
    then have i: "i < e + c" by simp
    then consider "i < e" | "i = e" | "i = e + 1" "c = 2" using facts(5) by linarith
    then show "take (e + c) b ! i = (take e b @ checksum_bytes c calc) ! i"
      using b0 b1 i te by cases (simp_all add: nth_append)
  qed
qed

lemma table_word_no_space: "table_word v \<Longrightarrow> 32 \<notin> set v"
  by (auto simp: table_word_def lower_letter_def)

lemma phrase_words:
  assumes "wf_words w" and "wl_bits w = 11" and "length bytes = m"
  shows "mnemonic_from_bytes w bytes = (if m * 8 div 11 = 0 then None
    else Some (butlast (concat (map (\<lambda>v. v @ [32]) (map (\<lambda>k. wl_indices w ! extract_index 11 bytes k) [0..<m * 8 div 11])))))"
proof -
  have "concat (map (\<lambda>i. wl_indices w ! extract_index 11 bytes i @ [32]) [0..<m * 8 div 11]) = [] \<longleftrightarrow> m * 8 div 11 = 0"
    by auto
  then show ?thesis using assms(2,3) by (simp add: mnemonic_from_bytes_def Let_def comp_def)
qed

lemma words_no_space:
  assumes "wf_words w" and "wl_bits w = 11" and "v \<in> set (map (\<lambda>k. wl_indices w ! extract_index 11 bytes k) ks)"
  shows "32 \<notin> set v"
proof -
  have "extract_index 11 bytes k < length (wl_indices w)" for k
    using extract_index_less [of 11 bytes k] assms(1,2) by (simp add: wf_words_def)
  then show ?thesis using assms word_table_nth [of "wl_indices w"] table_word_no_space by (auto simp: wf_words_def)
qed

lemma from_then_to:
  assumes w: "wf_words w" "wl_bits w = 11" and size: "bip39_size (length ent) n c" and stack: "length stack = 42"
  shows "\<exists>phrase. bip39_mnemonic_from_bytes sha w ent = Inr phrase \<and>
    bip39_mnemonic_to_bytes sha stack w phrase out
      = (if length ent \<le> length out then (0, buf_write out 0 ent, length ent) else (0, out, length ent))"
proof -
  let ?e = "length ent" and ?calc = "bip39_checksum sha ent (len_to_mask (length ent))"
  define src where "src = ent @ checksum_bytes c ?calc"
  note facts = bip39_size_facts [OF size]
  let ?vs = "map (\<lambda>k. wl_indices w ! extract_index 11 src k) [0..<n]"
  define phrase where "phrase = butlast (concat (map (\<lambda>v. v @ [32]) ?vs))"
  have len: "length src = ?e + c" using length_checksum_bytes [OF facts(5)] by (simp add: src_def)
  have from_b: "bip39_mnemonic_from_bytes sha w ent = Inr phrase"
    using phrase_words [OF w len] facts(2,9) by (simp add: from_bytes_eq [OF size refl w(2)] src_def [symmetric] phrase_def)
  have "\<forall>v\<in>set ?vs. 32 \<notin> set v" using words_no_space [OF w] by blast
  moreover have "?vs \<noteq> []" using facts(9) by simp
  ultimately have init: "wl_len (wordlist_init phrase) = n" "wl_indices (wordlist_init phrase) = ?vs"
    using init_phrase [of ?vs] by (simp_all add: phrase_def)
  have "(0 + n) * wl_bits w \<le> length (replicate 42 (0 :: u8)) * 8"
    using size w(2) by (auto simp: bip39_size_def)
  then obtain b where b: "store_words w 0 ?vs (replicate 42 0) = Some b" "length b = 42"
      "\<And>q. bit_at b q \<longleftrightarrow> bit_at (replicate 42 0) q \<or> (q < n * 11 \<and> bit_at src q)"
    using store_words_bits [OF w(1), of 0 n "replicate 42 0" src] w(2) by auto
  have bits: "bit_at b q \<longleftrightarrow> q < n * 11 \<and> bit_at src q" if "q < 336" for q
  proof -
    have "q div 8 < 42" using that by auto
    then show ?thesis using b(3) [of q] bit_at_zero by blast
  qed
  note unpack = unpacked_checksum [where sha = sha, OF size refl refl _ b(2), folded src_def, OF bits]
  have "(n * 11 + 7) div 8 = ?e + c" by (rule facts(1))
  then have "mnemonic_to_bytes w phrase stack = (0, b, ?e + c)"
    using init b(1) stack facts(4) w(2) by (simp add: mnemonic_to_bytes_def Let_def)
  then have "bip39_mnemonic_to_bytes sha stack w phrase out
      = (if ?e \<le> length out then (0, buf_write out 0 ent, ?e) else (0, out, ?e))"
    using facts(4,6,8) unpack w(2) unfolding bip39_mnemonic_to_bytes_def Let_def by (simp add: BIP39_ENTROPY_MAX_LEN_def)
  with from_b show ?thesis by blast
qed

section \<open>From phrase to entropy and back\<close>

lemma tokens_phrase:
  "n = wordlist_count s \<Longrightarrow> butlast (concat (map (\<lambda>v. v @ [32]) (tokenise n s))) = s \<and> tokenise n s \<noteq> [] \<and>
     (\<forall>v\<in>set (tokenise n s). set v \<subseteq> set s) \<and> length (tokenise n s) = n"
proof (induction n arbitrary: s)
  case 0
  then show ?case by (simp add: wordlist_count_def)
next
  case (Suc n)
  let ?v = "takeWhile (\<lambda>c. c \<noteq> 32) s" and ?r = "dropWhile (\<lambda>c. c \<noteq> 32) s"
  have count: "length (filter (\<lambda>c. c = 32) s) = length (filter (\<lambda>c. c = 32) ?r)"
  proof -
    have "filter (\<lambda>c. c = 32) ?v = []" by (auto simp: filter_empty_conv dest: set_takeWhileD)
    moreover have "filter (\<lambda>c. c = 32) s = filter (\<lambda>c. c = 32) ?v @ filter (\<lambda>c. c = 32) ?r"
      by (simp only: filter_append [symmetric] takeWhile_dropWhile_id)
    ultimately show ?thesis by simp
  qed
  show ?case
  proof (cases "?r = []")
    case True
    then have "\<forall>c\<in>set s. c \<noteq> 32" by (simp only: dropWhile_eq_Nil_conv)
    then have v: "?v = s" by (simp add: takeWhile_eq_all_conv)
    have "n = 0" using Suc.prems count True by (simp add: wordlist_count_def)
    then show ?thesis by (simp only: tokenise.simps v) simp
  next
    case False
    then obtain t where r: "?r = 32 # t" using hd_dropWhile [of "\<lambda>c. c \<noteq> 32" s] by (cases ?r) auto
    then have "n = wordlist_count t" using Suc.prems count by (simp add: wordlist_count_def)
    note ih = Suc.IH [OF this]
    have s: "s = ?v @ 32 # t" using takeWhile_dropWhile_id [of "\<lambda>c. c \<noteq> 32" s] r by simp
    have tok: "tokenise (Suc n) s = ?v # tokenise n t" using r by simp
    have "set ?v \<subseteq> set s" "set t \<subseteq> set s" using s by (metis set_takeWhileD subsetI, metis set_append list.set_intros(2) Un_iff subsetI)
    moreover have "butlast (concat (map (\<lambda>v. v @ [32]) (?v # tokenise n t))) = ?v @ 32 # t"
      using ih by (simp add: butlast_append)
    ultimately show ?thesis using ih s unfolding tok by auto
  qed
qed

lemma size_determines:
  assumes "bip39_size e n c" and "(if x - 1 > 32 then x - 1 - 1 else x - 1) = e" and "x = (m * 11 + 7) div 8"
  shows "m = n \<and> x = e + c"
proof -
  have "8 * x \<le> m * 11 + 7" "m * 11 + 7 < 8 * x + 8" using assms(3) by auto
  moreover have "x = e + 1 \<and> e \<le> 32 \<or> x = e + 2 \<and> 32 \<le> e" using assms(2,1) by (auto simp: bip39_size_def split: if_splits)
  ultimately show ?thesis using assms(1) unfolding bip39_size_def by (auto; presburger)
qed

lemma to_then_from:
  assumes w: "wf_words w" "wl_bits w = 11" and "0 \<notin> set phrase" and stack: "length stack = 42"
    and res: "bip39_mnemonic_to_bytes sha stack w phrase out = (0, out', e)" and "e \<le> length out"
  shows "\<exists>ent. length ent = e \<and> bip39_mnemonic_from_bytes sha w ent = Inr phrase \<and> out' = buf_write out 0 ent"
proof -
  let ?m = "wordlist_count phrase" and ?ms = "tokenise (wordlist_count phrase) phrase"
  let ?x = "(?m * 11 + 7) div 8"
  note tok = tokens_phrase [OF refl, of phrase]
  have init: "wl_len (wordlist_init phrase) = ?m" "wl_indices (wordlist_init phrase) = ?ms"
    by (simp_all add: wordlist_init_def Let_def)
  obtain tmp x where to_b: "mnemonic_to_bytes w phrase stack = (0, tmp, x)"
    using res by (auto simp: bip39_mnemonic_to_bytes_def Let_def w(2) split: prod.splits if_splits)
  have e: "(if x - 1 > 32 then x - 1 - 1 else x - 1) = e" and mask: "len_to_mask e \<noteq> 0"
    and ok: "checksum_ok sha tmp e (len_to_mask e)" and out: "out' = buf_write out 0 (take e tmp)"
    using res assms(6) w(2) unfolding bip39_mnemonic_to_bytes_def to_b Let_def
    by (auto split: if_splits)
  obtain n c where size: "bip39_size e n c" using size_of_mask [OF mask] .
  note facts = bip39_size_facts [OF size]
  have x: "x = ?x" using to_b stack w(2) init by (auto simp: mnemonic_to_bytes_def Let_def split: if_splits option.splits)
  have mn: "?m = n" "x = e + c" using size_determines [OF size e x] by simp_all
  have st: "store_words w 0 ?ms (replicate 42 0) = Some tmp"
    using to_b stack w(2) init x mn(2) facts(4) by (auto simp: mnemonic_to_bytes_def Let_def split: if_splits option.splits)
  have room: "(0 + length ?ms) * wl_bits w \<le> length (replicate 42 (0 :: u8)) * 8"
    using size tok mn(1) w(2) by (auto simp: bip39_size_def)
  have zero: "\<forall>q. 0 * wl_bits w \<le> q \<longrightarrow> q < length (replicate 42 (0 :: u8)) * 8 \<longrightarrow> \<not> bit_at (replicate 42 0) q"
    by (auto intro!: bit_at_zero)
  have nn: "\<forall>v\<in>set ?ms. 0 \<notin> set v" using tok assms(3) by blast
  have tmp: "length tmp = 42" "\<And>q. n * 11 \<le> q \<Longrightarrow> q < 336 \<Longrightarrow> \<not> bit_at tmp q"
    "?ms = map (\<lambda>k. wl_indices w ! extract_index 11 tmp k) [0..<n]"
    using store_words_sound [OF w(1) st room zero nn] tok mn(1) w(2) by auto
  let ?ent = "take e tmp"
  define src where "src = take (e + c) tmp"
  have "e + c \<le> 42" by (rule facts(4))
  then have len: "length ?ent = e" "length src = e + c" using tmp(1) by (simp_all add: src_def)
  have src: "src = ?ent @ checksum_bytes c (bip39_checksum sha ?ent (len_to_mask e))"
    unfolding src_def by (rule checksum_determined [OF size ok tmp(2) tmp(1)])
  have same: "extract_index 11 src k = extract_index 11 tmp k" if "k < n" for k
  proof (rule bit_eqI)
    fix j
    have "bit_at src q = bit_at tmp q" if "q < n * 11" for q
    proof -
      have "q div 8 < e + c" using that size by (auto simp: bip39_size_def)
      then show ?thesis using tmp(1) by (simp add: bit_at_def src_def)
    qed
    moreover have "k * 11 + (11 - 1 - j) < n * 11" using \<open>k < n\<close> by linarith
    ultimately show "bit (extract_index 11 src k) j = bit (extract_index 11 tmp k) j"
      by (simp only: extract_index_bit)
  qed
  have ms: "map (\<lambda>k. wl_indices w ! extract_index 11 src k) [0..<n] = ?ms"
    unfolding tmp(3) using same by simp
  have "butlast (concat (map (\<lambda>v. v @ [32]) ?ms)) = phrase" using tok by blast
  then have "mnemonic_from_bytes w src = Some phrase"
    using phrase_words [OF w len(2), unfolded facts(2) ms] facts(9) by (simp only: if_not_P)
  then have "bip39_mnemonic_from_bytes sha w ?ent = Inr phrase"
    using from_bytes_eq [OF size len(1) w(2), of sha] by (simp add: src [symmetric])
  then show ?thesis using out len(1) by blast
qed

text \<open>
  C28: a BIP-39 phrase gives its entropy back: for every entropy of 16, 20, 24, 28, 32, 36 or 40
  bytes, \<^verbatim>\<open>bip39_mnemonic_from_bytes\<close> makes a phrase from which \<^verbatim>\<open>bip39_mnemonic_to_bytes\<close>, given room
  for it, restores the bytes and their number; with less room it reports the number only.
\<close>

theorem bip39_round_trip:
  assumes "length ent \<in> {16, 20, 24, 28, 32, 36, 40}" and "length stack = 42"
  shows "\<exists>phrase. bip39_mnemonic_from_bytes sha256 en_word_list ent = Inr phrase \<and>
    bip39_mnemonic_to_bytes sha256 stack en_word_list phrase out
      = (if length ent \<le> length out then (0, buf_write out 0 ent, length ent) else (0, out, length ent))"
proof -
  obtain n c where "bip39_size (length ent) n c" using assms(1) by (auto simp: bip39_size_def)
  moreover have "wl_bits en_word_list = 11" by (simp add: en_word_list_def)
  ultimately show ?thesis using from_then_to [OF en_word_list_wf _ _ assms(2)] by blast
qed

lemma bip39_round_trip_witness:
  "\<exists>phrase. bip39_mnemonic_from_bytes (\<lambda>m. replicate 32 (hd m)) en_word_list (replicate 16 99) = Inr phrase \<and>
    bip39_mnemonic_to_bytes (\<lambda>m. replicate 32 (hd m)) (replicate 42 1) en_word_list phrase (replicate 32 0)
      = (if length (replicate 16 (99 :: u8)) \<le> length (replicate 32 (0 :: u8))
         then (0, buf_write (replicate 32 0) 0 (replicate 16 99), length (replicate 16 (99 :: u8)))
         else (0, replicate 32 0, length (replicate 16 (99 :: u8))))"
  by (rule bip39_round_trip) simp_all

text \<open>
  C29: \<^verbatim>\<open>bip39_mnemonic_validate\<close> accepts a string if and only if it is the phrase that
  \<^verbatim>\<open>bip39_mnemonic_from_bytes\<close> makes of some entropy: the right number of words of the list, single
  spaces between them and the right checksum, and nothing else.
\<close>

theorem bip39_validate_exact:
  assumes "0 \<notin> set phrase" and "length stack = 42" and "length buf = 42"
  shows "bip39_mnemonic_validate sha256 stack buf en_word_list phrase = 0
    \<longleftrightarrow> (\<exists>ent. bip39_mnemonic_from_bytes sha256 en_word_list ent = Inr phrase)"
proof
  have bits: "wl_bits en_word_list = 11" by (simp add: en_word_list_def)
  { assume "bip39_mnemonic_validate sha256 stack buf en_word_list phrase = 0"
    then obtain out e where r: "bip39_mnemonic_to_bytes sha256 stack en_word_list phrase buf = (0, out, e)"
      by (cases "bip39_mnemonic_to_bytes sha256 stack en_word_list phrase buf") (simp add: bip39_mnemonic_validate_def)
    then have "e \<le> 42"
      using assms(3) by (auto simp: bip39_mnemonic_to_bytes_def BIP39_ENTROPY_MAX_LEN_def Let_def split: if_splits prod.splits)
    then show "\<exists>ent. bip39_mnemonic_from_bytes sha256 en_word_list ent = Inr phrase"
      using to_then_from [OF en_word_list_wf bits assms(1,2) r] assms(3) by auto }
  assume "\<exists>ent. bip39_mnemonic_from_bytes sha256 en_word_list ent = Inr phrase"
  then obtain ent where ent: "bip39_mnemonic_from_bytes sha256 en_word_list ent = Inr phrase" by blast
  then have "len_to_mask (length ent) \<noteq> 0" by (auto simp: bip39_mnemonic_from_bytes_def Let_def split: if_splits)
  then obtain n c where size: "bip39_size (length ent) n c" by (rule size_of_mask)
  then have "length ent \<le> length buf" using bip39_size_facts(4) [OF size] assms(3) by simp
  then show "bip39_mnemonic_validate sha256 stack buf en_word_list phrase = 0"
    using from_then_to [OF en_word_list_wf bits size assms(2), of sha256 buf] ent
    by (auto simp: bip39_mnemonic_validate_def)
qed

lemma bip39_validate_exact_witness:
  "bip39_mnemonic_validate (\<lambda>m. replicate 32 0) (replicate 42 0) (replicate 42 0) en_word_list (cstr ''zoo zoo'') = 0
    \<longleftrightarrow> (\<exists>ent. bip39_mnemonic_from_bytes (\<lambda>m. replicate 32 0) en_word_list ent = Inr (cstr ''zoo zoo''))"
  by (rule bip39_validate_exact) (simp_all add: cstr_def)

end
