(* ===== verification/SecretCache.thy ===== *)
theory SecretCache
  imports UserUtils Safec
begin

text \<open>
  The secrets that the user interface holds between two screens (\<^verbatim>\<open>src/crypto/secret_cache.c\<close>). A cache
  is a block of the heap or \<^verbatim>\<open>NULL\<close>; the blocks that were given back are recorded with what they held
  at that moment, because a freed block keeps its content until the heap uses it again. A string block
  is the bytes before its NUL. \<open>None\<close>, as a result, is a write outside a block.
\<close>

section \<open>The code\<close>

definition SLIP39_MAX_MEMBER :: nat where "SLIP39_MAX_MEMBER = 16"
definition PASSWORD_MAX_LEN :: nat where "PASSWORD_MAX_LEN = 128"
definition PASSPHRASE_MAX_LEN :: nat where "PASSPHRASE_MAX_LEN = 128"
definition MNEMONIC_MAX_LEN :: nat where "MNEMONIC_MAX_LEN = 330"

record secret_cache =
  g_passwordCache :: "bytes option"
  g_newPasswordCache :: "bytes option"
  g_passphraseCache :: "bytes option"
  g_entropyCache :: "bytes option"
  g_entropyLen :: nat
  g_emsCache :: "bytes option"
  g_checksumCache :: bytes
  g_emsLen :: nat
  g_mnemonicCache :: "bytes option"
  g_slip39MnemonicCache :: "bytes option list"
  g_walletIconIndex :: u8
  g_walletName :: "bytes option"
  g_diceRollHashCache :: bytes
  g_identifier :: u16
  g_iteration :: u16
  g_extendable :: bool
  freed_blocks :: "bytes list"

definition empty_cache :: secret_cache where
  "empty_cache =
     \<lparr>g_passwordCache = None, g_newPasswordCache = None, g_passphraseCache = None, g_entropyCache = None,
      g_entropyLen = 0, g_emsCache = None, g_checksumCache = replicate 32 0, g_emsLen = 0,
      g_mnemonicCache = None, g_slip39MnemonicCache = replicate SLIP39_MAX_MEMBER None,
      g_walletIconIndex = 0, g_walletName = None, g_diceRollHashCache = replicate 32 0,
      g_identifier = 0, g_iteration = 0, g_extendable = False, freed_blocks = []\<rparr>"

text \<open>\<^verbatim>\<open>SRAM_FREE\<close> and \<^verbatim>\<open>EXT_FREE\<close> of a pointer that may be \<^verbatim>\<open>NULL\<close>.\<close>

fun free_block :: "bytes option \<Rightarrow> secret_cache \<Rightarrow> secret_cache" where
  "free_block None c = c"
| "free_block (Some block) c = c\<lparr>freed_blocks := block # freed_blocks c\<rparr>"

text \<open>
  The block for a copy of \<open>str\<close> has room for \<^verbatim>\<open>strnlen_s (str, smax)\<close> characters and a NUL; \<^verbatim>\<open>strcpy\<close>
  copies all of \<open>str\<close>.
\<close>

definition copy_string :: "nat \<Rightarrow> bytes \<Rightarrow> bytes option" where
  "copy_string smax str = (if length str \<le> strnlen_s str smax then Some str else None)"

definition SecretCacheSetChecksum :: "bytes \<Rightarrow> secret_cache \<Rightarrow> secret_cache" where
  "SecretCacheSetChecksum checksum c = c\<lparr>g_checksumCache := take 32 checksum\<rparr>"

definition SecretCacheGetChecksum :: "secret_cache \<Rightarrow> bytes" where
  "SecretCacheGetChecksum c = ByteArrayToHexStr (g_checksumCache c)"

definition SecretCacheSetWalletIndex :: "u8 \<Rightarrow> secret_cache \<Rightarrow> secret_cache" where
  "SecretCacheSetWalletIndex iconIndex c = c\<lparr>g_walletIconIndex := iconIndex\<rparr>"

definition SecretCacheGetWalletIconIndex :: "secret_cache \<Rightarrow> u8" where
  "SecretCacheGetWalletIconIndex c = g_walletIconIndex c"

definition SecretCacheSetWalletName :: "bytes \<Rightarrow> secret_cache \<Rightarrow> secret_cache" where
  "SecretCacheSetWalletName walletName c =
     (free_block (g_walletName c) c)\<lparr>g_walletName := Some (strcpy_s 17 walletName)\<rparr>"

definition SecretCacheGetWalletName :: "secret_cache \<Rightarrow> bytes option" where
  "SecretCacheGetWalletName c = g_walletName c"

definition SecretCacheSetPassword :: "bytes \<Rightarrow> secret_cache \<Rightarrow> secret_cache option" where
  "SecretCacheSetPassword password c =
     map_option (\<lambda>block. (free_block (g_passwordCache c) c)\<lparr>g_passwordCache := Some block\<rparr>)
       (copy_string PASSWORD_MAX_LEN password)"

definition SecretCacheGetPassword :: "secret_cache \<Rightarrow> bytes option" where
  "SecretCacheGetPassword c = g_passwordCache c"

definition SecretCacheSetPassphrase :: "bytes \<Rightarrow> secret_cache \<Rightarrow> secret_cache option" where
  "SecretCacheSetPassphrase passPhrase c =
     map_option (\<lambda>block. (free_block (g_passphraseCache c) c)\<lparr>g_passphraseCache := Some block\<rparr>)
       (copy_string PASSPHRASE_MAX_LEN passPhrase)"

definition SecretCacheGetPassphrase :: "secret_cache \<Rightarrow> bytes" where
  "SecretCacheGetPassphrase c = (case g_passphraseCache c of None \<Rightarrow> [] | Some passPhrase \<Rightarrow> passPhrase)"

definition SecretCacheSetNewPassword :: "bytes \<Rightarrow> secret_cache \<Rightarrow> secret_cache option" where
  "SecretCacheSetNewPassword password c =
     map_option (\<lambda>block. (free_block (g_newPasswordCache c) c)\<lparr>g_newPasswordCache := Some block\<rparr>)
       (copy_string PASSWORD_MAX_LEN password)"

definition SecretCacheGetNewPassword :: "secret_cache \<Rightarrow> bytes option" where
  "SecretCacheGetNewPassword c = g_newPasswordCache c"

definition SecretCacheSetIteration :: "u8 \<Rightarrow> secret_cache \<Rightarrow> secret_cache" where
  "SecretCacheSetIteration ie c = c\<lparr>g_iteration := ucast ie\<rparr>"

definition SecretCacheGetIteration :: "secret_cache \<Rightarrow> u8" where
  "SecretCacheGetIteration c = ucast (g_iteration c)"

definition SecretCacheSetIdentifier :: "u16 \<Rightarrow> secret_cache \<Rightarrow> secret_cache" where
  "SecretCacheSetIdentifier ident c = c\<lparr>g_identifier := ident\<rparr>"

definition SecretCacheGetIdentifier :: "secret_cache \<Rightarrow> u16" where
  "SecretCacheGetIdentifier c = g_identifier c"

definition SecretCacheSetExtendable :: "bool \<Rightarrow> secret_cache \<Rightarrow> secret_cache" where
  "SecretCacheSetExtendable flag c = c\<lparr>g_extendable := flag\<rparr>"

definition SecretCacheGetExtendable :: "secret_cache \<Rightarrow> bool" where
  "SecretCacheGetExtendable c = g_extendable c"

text \<open>\<open>entropy\<close> and \<open>ems\<close> are the \<^verbatim>\<open>len\<close> bytes that the argument points to.\<close>

definition SecretCacheSetEntropy :: "bytes \<Rightarrow> secret_cache \<Rightarrow> secret_cache" where
  "SecretCacheSetEntropy entropy c =
     (free_block (g_entropyCache c) c)\<lparr>g_entropyLen := length entropy, g_entropyCache := Some entropy\<rparr>"

definition SecretCacheGetEntropy :: "secret_cache \<Rightarrow> nat \<times> bytes option" where
  "SecretCacheGetEntropy c = (g_entropyLen c, g_entropyCache c)"

definition SecretCacheSetEms :: "bytes \<Rightarrow> secret_cache \<Rightarrow> secret_cache" where
  "SecretCacheSetEms ems c =
     (free_block (g_emsCache c) c)\<lparr>g_emsLen := length ems, g_emsCache := Some ems\<rparr>"

definition SecretCacheGetEms :: "secret_cache \<Rightarrow> nat \<times> bytes option" where
  "SecretCacheGetEms c = (g_emsLen c, g_emsCache c)"

definition SecretCacheSetMnemonic :: "bytes \<Rightarrow> secret_cache \<Rightarrow> secret_cache option" where
  "SecretCacheSetMnemonic mnemonic c =
     map_option (\<lambda>block. (free_block (g_mnemonicCache c) c)\<lparr>g_mnemonicCache := Some block\<rparr>)
       (copy_string MNEMONIC_MAX_LEN mnemonic)"

definition SecretCacheGetMnemonic :: "secret_cache \<Rightarrow> bytes option" where
  "SecretCacheGetMnemonic c = g_mnemonicCache c"

definition SecretCacheSetSlip39Mnemonic :: "bytes \<Rightarrow> nat \<Rightarrow> secret_cache \<Rightarrow> secret_cache option" where
  "SecretCacheSetSlip39Mnemonic mnemonic index c =
     (if index < SLIP39_MAX_MEMBER
      then map_option (\<lambda>block. (free_block (g_slip39MnemonicCache c ! index) c)
             \<lparr>g_slip39MnemonicCache := (g_slip39MnemonicCache c)[index := Some block]\<rparr>)
           (copy_string MNEMONIC_MAX_LEN mnemonic)
      else None)"

definition SecretCacheGetSlip39Mnemonic :: "nat \<Rightarrow> secret_cache \<Rightarrow> bytes option option" where
  "SecretCacheGetSlip39Mnemonic index c =
     (if index < SLIP39_MAX_MEMBER then Some (g_slip39MnemonicCache c ! index) else None)"

definition SecretCacheSetDiceRollHash :: "bytes \<Rightarrow> secret_cache \<Rightarrow> secret_cache" where
  "SecretCacheSetDiceRollHash hash c = c\<lparr>g_diceRollHashCache := take 32 hash\<rparr>"

definition SecretCacheGetDiceRollHash :: "secret_cache \<Rightarrow> bytes" where
  "SecretCacheGetDiceRollHash c = g_diceRollHashCache c"

text \<open>\<^verbatim>\<open>memset_s (block, len, 0, len)\<close>, then the block is freed.\<close>

fun wipe_and_free :: "nat \<Rightarrow> bytes option \<Rightarrow> secret_cache \<Rightarrow> secret_cache" where
  "wipe_and_free len None c = c"
| "wipe_and_free len (Some block) c = free_block (Some (replicate len 0 @ drop len block)) c"

definition string_len :: "nat \<Rightarrow> bytes option \<Rightarrow> nat" where
  "string_len smax block = (case block of None \<Rightarrow> 0 | Some str \<Rightarrow> strnlen_s str smax)"

definition clear_password :: "secret_cache \<Rightarrow> secret_cache" where
  "clear_password c =
     (wipe_and_free (string_len PASSWORD_MAX_LEN (g_passwordCache c)) (g_passwordCache c) c)\<lparr>g_passwordCache := None\<rparr>"

definition clear_passphrase :: "secret_cache \<Rightarrow> secret_cache" where
  "clear_passphrase c =
     (wipe_and_free (string_len PASSPHRASE_MAX_LEN (g_passphraseCache c)) (g_passphraseCache c) c)\<lparr>g_passphraseCache := None\<rparr>"

definition clear_new_password :: "secret_cache \<Rightarrow> secret_cache" where
  "clear_new_password c =
     (wipe_and_free (string_len PASSWORD_MAX_LEN (g_newPasswordCache c)) (g_newPasswordCache c) c)\<lparr>g_newPasswordCache := None\<rparr>"

definition clear_entropy :: "secret_cache \<Rightarrow> secret_cache" where
  "clear_entropy c =
     (if g_entropyCache c \<noteq> None
      then (wipe_and_free (g_entropyLen c) (g_entropyCache c) c)\<lparr>g_entropyLen := 0, g_entropyCache := None\<rparr>
      else c)"

definition clear_ems :: "secret_cache \<Rightarrow> secret_cache" where
  "clear_ems c =
     (if g_emsCache c \<noteq> None
      then (wipe_and_free (g_emsLen c) (g_emsCache c) c)\<lparr>g_emsLen := 0, g_emsCache := None\<rparr>
      else c)"

definition clear_mnemonic :: "secret_cache \<Rightarrow> secret_cache" where
  "clear_mnemonic c =
     (wipe_and_free (string_len MNEMONIC_MAX_LEN (g_mnemonicCache c)) (g_mnemonicCache c) c)\<lparr>g_mnemonicCache := None\<rparr>"

text \<open>The name of the wallet is freed as it is.\<close>

definition clear_wallet_name :: "secret_cache \<Rightarrow> secret_cache" where
  "clear_wallet_name c = (free_block (g_walletName c) c)\<lparr>g_walletName := None\<rparr>"

definition clear_slip39_mnemonics :: "secret_cache \<Rightarrow> secret_cache" where
  "clear_slip39_mnemonics c =
     (fold (\<lambda>block. wipe_and_free (string_len MNEMONIC_MAX_LEN block) block) (g_slip39MnemonicCache c) c)
        \<lparr>g_slip39MnemonicCache := replicate SLIP39_MAX_MEMBER None\<rparr>"

definition ClearSecretCache :: "secret_cache \<Rightarrow> secret_cache" where
  "ClearSecretCache c =
     (clear_slip39_mnemonics (clear_wallet_name (clear_mnemonic (clear_ems (clear_entropy (clear_new_password
        (clear_passphrase (clear_password (c\<lparr>g_identifier := 0, g_iteration := 0, g_extendable := False\<rparr>)))))))))
        \<lparr>g_checksumCache := replicate 32 0, g_diceRollHashCache := replicate 32 0\<rparr>"

section \<open>Reachable caches\<close>

inductive cache_reachable :: "secret_cache \<Rightarrow> bool" where
  start: "cache_reachable empty_cache"
| checksum: "cache_reachable c \<Longrightarrow> cache_reachable (SecretCacheSetChecksum checksum c)"
| wallet_index: "cache_reachable c \<Longrightarrow> cache_reachable (SecretCacheSetWalletIndex i c)"
| wallet_name: "cache_reachable c \<Longrightarrow> cache_reachable (SecretCacheSetWalletName str c)"
| password: "cache_reachable c \<Longrightarrow> SecretCacheSetPassword str c = Some c' \<Longrightarrow> cache_reachable c'"
| passphrase: "cache_reachable c \<Longrightarrow> SecretCacheSetPassphrase str c = Some c' \<Longrightarrow> cache_reachable c'"
| new_password: "cache_reachable c \<Longrightarrow> SecretCacheSetNewPassword str c = Some c' \<Longrightarrow> cache_reachable c'"
| iteration: "cache_reachable c \<Longrightarrow> cache_reachable (SecretCacheSetIteration ie c)"
| ident: "cache_reachable c \<Longrightarrow> cache_reachable (SecretCacheSetIdentifier ident c)"
| extendable: "cache_reachable c \<Longrightarrow> cache_reachable (SecretCacheSetExtendable flag c)"
| entropy: "cache_reachable c \<Longrightarrow> cache_reachable (SecretCacheSetEntropy ent c)"
| ems: "cache_reachable c \<Longrightarrow> cache_reachable (SecretCacheSetEms ems c)"
| mnemonic: "cache_reachable c \<Longrightarrow> SecretCacheSetMnemonic str c = Some c' \<Longrightarrow> cache_reachable c'"
| slip39: "cache_reachable c \<Longrightarrow> SecretCacheSetSlip39Mnemonic str i c = Some c' \<Longrightarrow> cache_reachable c'"
| dice: "cache_reachable c \<Longrightarrow> cache_reachable (SecretCacheSetDiceRollHash hash c)"
| clear: "cache_reachable c \<Longrightarrow> cache_reachable (ClearSecretCache c)"

text \<open>A string cache holds a string that fits its maximum; a byte cache holds the recorded length.\<close>

definition fits :: "nat \<Rightarrow> bytes option \<Rightarrow> bool" where
  "fits smax block \<longleftrightarrow> (case block of None \<Rightarrow> True | Some str \<Rightarrow> length str \<le> smax)"

definition cache_inv :: "secret_cache \<Rightarrow> bool" where
  "cache_inv c \<longleftrightarrow>
     fits PASSWORD_MAX_LEN (g_passwordCache c) \<and> fits PASSWORD_MAX_LEN (g_newPasswordCache c) \<and>
     fits PASSPHRASE_MAX_LEN (g_passphraseCache c) \<and> fits MNEMONIC_MAX_LEN (g_mnemonicCache c) \<and>
     list_all (fits MNEMONIC_MAX_LEN) (g_slip39MnemonicCache c) \<and> length (g_slip39MnemonicCache c) = SLIP39_MAX_MEMBER \<and>
     g_entropyLen c = (case g_entropyCache c of None \<Rightarrow> 0 | Some ent \<Rightarrow> length ent) \<and>
     g_emsLen c = (case g_emsCache c of None \<Rightarrow> 0 | Some ems \<Rightarrow> length ems)"

lemma fits_simps [simp]: "fits smax None" "fits smax (Some str) \<longleftrightarrow> length str \<le> smax"
  by (simp_all add: fits_def)

lemma free_block_fields [simp]:
  "free_block b c = c\<lparr>freed_blocks := (case b of None \<Rightarrow> [] | Some block \<Rightarrow> [block]) @ freed_blocks c\<rparr>"
  by (cases b) simp_all

lemma copy_string_Some: "copy_string smax str = Some block \<longleftrightarrow> length str \<le> smax \<and> block = str"
  by (auto simp: copy_string_def strnlen_s_def)

text \<open>What the heap gets back from a string that is wiped: zeros only.\<close>

definition wiped :: "bytes option \<Rightarrow> bytes list" where
  "wiped block = (case block of None \<Rightarrow> [] | Some b \<Rightarrow> [replicate (length b) 0])"

lemma wipe_and_free_fits:
  "fits smax block \<Longrightarrow> wipe_and_free (string_len smax block) block c = c\<lparr>freed_blocks := wiped block @ freed_blocks c\<rparr>"
  by (cases block) (simp_all add: wiped_def string_len_def strnlen_s_def)

lemma wipe_and_free_all:
  "wipe_and_free (length b) (Some b) c = c\<lparr>freed_blocks := wiped (Some b) @ freed_blocks c\<rparr>"
  by (simp add: wiped_def)

lemma fold_wipe_and_free:
  "list_all (fits smax) blocks \<Longrightarrow>
   fold (\<lambda>block. wipe_and_free (string_len smax block) block) blocks c
     = c\<lparr>freed_blocks := concat (rev (map wiped blocks)) @ freed_blocks c\<rparr>"
  by (induction blocks arbitrary: c) (simp_all add: wipe_and_free_fits)

definition cleared_blocks :: "secret_cache \<Rightarrow> bytes list" where
  "cleared_blocks c =
     concat (rev (map wiped (g_slip39MnemonicCache c))) @ (case g_walletName c of None \<Rightarrow> [] | Some b \<Rightarrow> [b])
       @ wiped (g_mnemonicCache c) @ wiped (g_emsCache c) @ wiped (g_entropyCache c)
       @ wiped (g_newPasswordCache c) @ wiped (g_passphraseCache c) @ wiped (g_passwordCache c)"

lemma clear_entropy_eq:
  "g_entropyLen c = (case g_entropyCache c of None \<Rightarrow> 0 | Some ent \<Rightarrow> length ent) \<Longrightarrow>
   clear_entropy c = c\<lparr>g_entropyLen := 0, g_entropyCache := None, freed_blocks := wiped (g_entropyCache c) @ freed_blocks c\<rparr>"
  by (cases "g_entropyCache c") (simp_all add: clear_entropy_def wiped_def)

lemma clear_ems_eq:
  "g_emsLen c = (case g_emsCache c of None \<Rightarrow> 0 | Some ems \<Rightarrow> length ems) \<Longrightarrow>
   clear_ems c = c\<lparr>g_emsLen := 0, g_emsCache := None, freed_blocks := wiped (g_emsCache c) @ freed_blocks c\<rparr>"
  by (cases "g_emsCache c") (simp_all add: clear_ems_def wiped_def)

lemma ClearSecretCache_eq:
  assumes "cache_inv c"
  shows "ClearSecretCache c = empty_cache\<lparr>g_walletIconIndex := g_walletIconIndex c,
    freed_blocks := cleared_blocks c @ freed_blocks c\<rparr>"
  using assms unfolding cache_inv_def
  by (simp add: ClearSecretCache_def clear_password_def clear_passphrase_def clear_new_password_def clear_entropy_eq
      clear_ems_eq clear_mnemonic_def clear_wallet_name_def clear_slip39_mnemonics_def wipe_and_free_fits
      fold_wipe_and_free empty_cache_def cleared_blocks_def)

lemma cache_inv_empty: "cache_inv empty_cache"
  by (simp add: cache_inv_def empty_cache_def SLIP39_MAX_MEMBER_def list_all_iff)

lemma list_all_update: "list_all P xs \<Longrightarrow> P x \<Longrightarrow> list_all P (xs[i := x])"
  by (auto simp: list_all_iff dest: set_update_subset_insert [THEN subsetD])

lemmas cache_setters = SecretCacheSetChecksum_def SecretCacheSetWalletIndex_def SecretCacheSetWalletName_def
  SecretCacheSetPassword_def SecretCacheSetPassphrase_def SecretCacheSetNewPassword_def SecretCacheSetIteration_def
  SecretCacheSetIdentifier_def SecretCacheSetExtendable_def SecretCacheSetEntropy_def SecretCacheSetEms_def
  SecretCacheSetMnemonic_def SecretCacheSetSlip39Mnemonic_def SecretCacheSetDiceRollHash_def

lemma cache_reachable_inv: "cache_reachable c \<Longrightarrow> cache_inv c"
proof (induction rule: cache_reachable.induct)
  case (clear c)
  then show ?case by (simp add: ClearSecretCache_eq cache_inv_def empty_cache_def SLIP39_MAX_MEMBER_def list_all_iff)
qed (use cache_inv_empty in \<open>auto simp: cache_inv_def cache_setters copy_string_Some list_all_update split: if_splits\<close>)

text \<open>
  C10: After any calls of the interface, \<^verbatim>\<open>ClearSecretCache\<close> leaves the cache as it was at power on,
  but for the wallet icon, and every block that it gives back to the heap is filled with zeros, but
  for the one with the name of the wallet.
\<close>

theorem ClearSecretCache_wipes:
  assumes "cache_reachable c"
  shows "\<exists>blocks. ClearSecretCache c = empty_cache\<lparr>g_walletIconIndex := g_walletIconIndex c, freed_blocks := blocks @ freed_blocks c\<rparr>
    \<and> (\<forall>b\<in>set blocks. CheckAllZero b \<or> g_walletName c = Some b)"
proof -
  have "CheckAllZero b \<or> g_walletName c = Some b" if "b \<in> set (cleared_blocks c)" for b
    using that by (auto simp: cleared_blocks_def wiped_def CheckAllZero_iff split: option.splits)
  with ClearSecretCache_eq [OF cache_reachable_inv [OF assms]] show ?thesis by blast
qed

text \<open>
  Replacing a cached password gives the old one back to the heap unchanged: only
  \<^verbatim>\<open>ClearSecretCache\<close> wipes.
\<close>

lemma SecretCacheSetPassword_keeps_old_in_heap:
  assumes "SecretCacheSetPassword old c = Some c'" and "SecretCacheSetPassword new c' = Some c''"
  shows "SecretCacheGetPassword c'' = Some new \<and> old \<in> set (freed_blocks c'')"
  using assms by (auto simp: SecretCacheSetPassword_def SecretCacheGetPassword_def copy_string_Some)

definition example_cache :: secret_cache where
  "example_cache = SecretCacheSetWalletName (cstr ''Home'') (SecretCacheSetEntropy [1, 2, 3]
     (the (SecretCacheSetPassword (cstr ''secret'') empty_cache)))"

lemma example_cache_reachable: "cache_reachable example_cache"
proof -
  obtain c where c: "SecretCacheSetPassword (cstr ''secret'') empty_cache = Some c"
    by (simp add: SecretCacheSetPassword_def copy_string_def strnlen_s_def cstr_def PASSWORD_MAX_LEN_def)
  then show ?thesis unfolding example_cache_def
    by (simp add: cache_reachable.password [OF cache_reachable.start] cache_reachable.entropy cache_reachable.wallet_name)
qed

lemma ClearSecretCache_wipes_witness:
  "cache_reachable example_cache \<and> g_passwordCache example_cache = Some (cstr ''secret'') \<and>
   g_passwordCache (ClearSecretCache example_cache) = None"
proof -
  have "g_passwordCache example_cache = Some (cstr ''secret'')"
    by (simp add: example_cache_def SecretCacheSetPassword_def SecretCacheSetEntropy_def SecretCacheSetWalletName_def
        copy_string_def strnlen_s_def cstr_def PASSWORD_MAX_LEN_def)
  moreover have "g_passwordCache (ClearSecretCache example_cache) = None"
    using ClearSecretCache_wipes [OF example_cache_reachable] by (auto simp: empty_cache_def)
  ultimately show ?thesis using example_cache_reachable by blast
qed

end
