(* ===== verification/Device.thy ===== *)
theory Device
  imports SecretCache
begin

text \<open>
  The state of the key store that is kept in RAM: the globals of
  \<^verbatim>\<open>src/managers/account_manager.c\<close>, \<^verbatim>\<open>src/managers/keystore.c\<close> and
  \<^verbatim>\<open>src/crypto/account_public_info.c\<close>, and the 32-byte layout of the
  two records that are also stored in a page of the secure element.
\<close>

section \<open>The records\<close>

text \<open>
  \<^verbatim>\<open>AccountInfo_t\<close>: the bit fields are the low five bits of its second byte; \<open>ai_spare\<close> is the rest
  of that byte.
\<close>

record account_info =
  ai_entropyLen :: u8
  ai_passcodeType :: bool
  ai_isSlip39 :: bool
  ai_passphraseQuickAccess :: bool
  ai_passphraseMark :: bool
  ai_isTon :: bool
  ai_spare :: u8
  ai_slip39Id :: u16
  ai_mfp :: bytes
  ai_slip39IeEb :: u8
  ai_reserved2 :: bytes
  ai_iconIndex :: u8
  ai_walletName :: bytes

definition WALLET_NAME_MAX_LEN :: nat where "WALLET_NAME_MAX_LEN = 16"

definition wf_account_info :: "account_info \<Rightarrow> bool" where
  "wf_account_info ai \<longleftrightarrow> ai_spare ai < 8 \<and> length (ai_mfp ai) = 4 \<and> length (ai_reserved2 ai) = 5 \<and>
     length (ai_walletName ai) = WALLET_NAME_MAX_LEN + 1"

definition flag_byte :: "account_info \<Rightarrow> u8" where
  "flag_byte ai =
     of_bool (ai_passcodeType ai) OR push_bit 1 (of_bool (ai_isSlip39 ai)) OR push_bit 2 (of_bool (ai_passphraseQuickAccess ai))
     OR push_bit 3 (of_bool (ai_passphraseMark ai)) OR push_bit 4 (of_bool (ai_isTon ai)) OR push_bit 5 (ai_spare ai)"

definition account_info_bytes :: "account_info \<Rightarrow> bytes" where
  "account_info_bytes ai =
     [ai_entropyLen ai, flag_byte ai] @ le16 (ai_slip39Id ai) @ ai_mfp ai @ [ai_slip39IeEb ai] @ ai_reserved2 ai
       @ [ai_iconIndex ai] @ ai_walletName ai"

definition bytes_account_info :: "bytes \<Rightarrow> account_info" where
  "bytes_account_info b =
     \<lparr>ai_entropyLen = b ! 0, ai_passcodeType = bit (b ! 1) 0, ai_isSlip39 = bit (b ! 1) 1,
      ai_passphraseQuickAccess = bit (b ! 1) 2, ai_passphraseMark = bit (b ! 1) 3, ai_isTon = bit (b ! 1) 4,
      ai_spare = drop_bit 5 (b ! 1), ai_slip39Id = of_le16 (b ! 2) (b ! 3), ai_mfp = take 4 (drop 4 b),
      ai_slip39IeEb = b ! 8, ai_reserved2 = take 5 (drop 9 b), ai_iconIndex = b ! 14, ai_walletName = take 17 (drop 15 b)\<rparr>"

definition cleared_account_info :: account_info where
  "cleared_account_info = bytes_account_info (replicate 32 0)"

record public_info =
  pi_loginPasswordErrorCount :: u8
  pi_currentPasswordErrorCount :: u8
  pi_reserved1 :: bytes
  pi_lastLockDeviceTime :: u32
  pi_reserved2 :: bytes

definition public_info_bytes :: "public_info \<Rightarrow> bytes" where
  "public_info_bytes i =
     [pi_loginPasswordErrorCount i, pi_currentPasswordErrorCount i] @ pi_reserved1 i @ le32 (pi_lastLockDeviceTime i) @ pi_reserved2 i"

definition bytes_public_info :: "bytes \<Rightarrow> public_info" where
  "bytes_public_info b =
     \<lparr>pi_loginPasswordErrorCount = b ! 0, pi_currentPasswordErrorCount = b ! 1, pi_reserved1 = take 2 (drop 2 b),
      pi_lastLockDeviceTime = of_le32 (b ! 4) (b ! 5) (b ! 6) (b ! 7), pi_reserved2 = take 24 (drop 8 b)\<rparr>"

definition wf_public_info :: "public_info \<Rightarrow> bool" where
  "wf_public_info i \<longleftrightarrow> length (pi_reserved1 i) = 2 \<and> length (pi_reserved2 i) = 24"

definition cleared_public_info :: public_info where
  "cleared_public_info = bytes_public_info (replicate 32 0)"

text \<open>\<^verbatim>\<open>PassphraseInfo_t\<close>; the passphrase is the string, the bytes before its NUL.\<close>

record passphrase_info =
  pp_passphrase :: bytes
  pp_passphraseExist :: bool
  pp_mfp :: bytes

definition cleared_passphrase_info :: passphrase_info where
  "cleared_passphrase_info = \<lparr>pp_passphrase = [], pp_passphraseExist = False, pp_mfp = replicate 4 0\<rparr>"

text \<open>
  \<^verbatim>\<open>AccountSecret_t\<close>.
\<close>

record account_secret =
  as_entropy :: bytes
  as_seed :: bytes
  as_slip39EmsOrTonEntropyL32 :: bytes
  as_reservedData :: bytes
  as_entropyLen :: u8

definition cleared_account_secret :: account_secret where
  "cleared_account_secret = \<lparr>as_entropy = replicate 32 0, as_seed = replicate 64 0,
     as_slip39EmsOrTonEntropyL32 = replicate 32 0, as_reservedData = replicate 32 0, as_entropyLen = 0\<rparr>"

definition wf_account_secret :: "account_secret \<Rightarrow> bool" where
  "wf_account_secret a \<longleftrightarrow> length (as_entropy a) = 32 \<and> length (as_seed a) = 64 \<and>
     length (as_slip39EmsOrTonEntropyL32 a) = 32 \<and> length (as_reservedData a) = 32"

text \<open>
  The globals, also those of \<^verbatim>\<open>src/crypto/account_public_info.c\<close>, whose keys are strings or \<^verbatim>\<open>NULL\<close>; \<open>hw\<close> is everything outside the RAM of this code: the secure elements, the one-time
  programmable memory, the flash.
\<close>

record 'h device =
  hw :: 'h
  g_currentAccountIndex :: nat
  g_lastAccountIndex :: nat
  g_currentAccountInfo :: account_info
  g_publicInfo :: public_info
  g_passphraseInfo :: "nat \<Rightarrow> passphrase_info"
  g_secretCache :: secret_cache
  g_accountPublicInfo :: "nat \<Rightarrow> bytes option"
  g_tempPublicKeyAccountIndex :: nat
  g_isTempAccount :: bool

definition INVALID_ACCOUNT_INDEX :: nat where "INVALID_ACCOUNT_INDEX = 255"
definition ACCOUNT_INDEX_LOGOUT :: nat where "ACCOUNT_INDEX_LOGOUT = 255"

definition power_on :: "'h \<Rightarrow> 'h device" where
  "power_on h =
     \<lparr>hw = h, g_currentAccountIndex = ACCOUNT_INDEX_LOGOUT, g_lastAccountIndex = ACCOUNT_INDEX_LOGOUT,
      g_currentAccountInfo = cleared_account_info, g_publicInfo = cleared_public_info,
      g_passphraseInfo = (\<lambda>i. cleared_passphrase_info), g_secretCache = empty_cache,
      g_accountPublicInfo = (\<lambda>i. None), g_tempPublicKeyAccountIndex = INVALID_ACCOUNT_INDEX, g_isTempAccount = False\<rparr>"

section \<open>The layout of the stored records\<close>

lemma bit_flag_byte:
  "k < 8 \<Longrightarrow> bit (flag_byte ai) k \<longleftrightarrow>
     (if k = 0 then ai_passcodeType ai else if k = 1 then ai_isSlip39 ai else if k = 2 then ai_passphraseQuickAccess ai
      else if k = 3 then ai_passphraseMark ai else if k = 4 then ai_isTon ai else bit (ai_spare ai) (k - 5))"
  unfolding flag_byte_def
  by (cases k rule: nat.exhaust) (auto simp: bit_simps)

lemma drop_flag_byte: "ai_spare ai < 8 \<Longrightarrow> drop_bit 5 (flag_byte ai) = ai_spare ai"
proof (rule bit_word_eqI)
  fix k assume sp: "ai_spare ai < 8" and k: "k < LENGTH(8)"
  have "unat (ai_spare ai) < 2 ^ 3" using sp by (simp add: word_less_nat_alt)
  then have "bit (ai_spare ai) k \<Longrightarrow> k < 3" by (rule word_bit_below)
  then show "bit (drop_bit 5 (flag_byte ai)) k = bit (ai_spare ai) k"
    using bit_flag_byte [of "k + 5" ai] bit_u8_less [of "flag_byte ai" "k + 5"]
    by (cases "k < 3") (auto simp: bit_drop_bit_eq add.commute [of 5])
qed

lemma length_account_info_bytes: "wf_account_info ai \<Longrightarrow> length (account_info_bytes ai) = 32"
  by (simp add: wf_account_info_def account_info_bytes_def WALLET_NAME_MAX_LEN_def)

lemma length_public_info_bytes: "wf_public_info i \<Longrightarrow> length (public_info_bytes i) = 32"
  by (simp add: wf_public_info_def public_info_bytes_def)

lemma account_info_layout:
  assumes "wf_account_info ai"
  shows "bytes_account_info (account_info_bytes ai) = ai"
proof -
  obtain m where m: "ai_mfp ai = m" "length m = 4" using assms by (simp add: wf_account_info_def)
  obtain r where r: "ai_reserved2 ai = r" "length r = 5" using assms by (simp add: wf_account_info_def)
  obtain m0 m1 m2 m3 where ms: "m = [m0, m1, m2, m3]" using m(2) by (auto simp: length_Suc_conv numeral_eq_Suc)
  obtain r0 r1 r2 r3 r4 where rs: "r = [r0, r1, r2, r3, r4]" using r(2) by (auto simp: length_Suc_conv numeral_eq_Suc)
  have n: "length (ai_walletName ai) = 17" "ai_spare ai < 8" using assms by (simp_all add: wf_account_info_def WALLET_NAME_MAX_LEN_def)
  show ?thesis using n
    by (intro account_info.equality)
      (simp_all add: m r ms rs bytes_account_info_def account_info_bytes_def le16_def bit_flag_byte drop_flag_byte)
qed

lemma public_info_layout:
  assumes "wf_public_info i"
  shows "bytes_public_info (public_info_bytes i) = i"
proof -
  obtain a b where r: "pi_reserved1 i = [a, b]" using assms by (auto simp: wf_public_info_def length_Suc_conv numeral_eq_Suc)
  have "length (pi_reserved2 i) = 24" using assms by (simp add: wf_public_info_def)
  then show ?thesis
    by (cases i) (use r in \<open>simp add: bytes_public_info_def public_info_bytes_def le32_def of_le32_le32\<close>)
qed

lemma wf_bytes_account_info: "length b = 32 \<Longrightarrow> wf_account_info (bytes_account_info b)"
proof -
  have "drop_bit 5 w < 8" for w :: u8
  proof -
    have "unat w < 256" using unsigned_less [of w, where ?'a = nat] by simp
    moreover have "unat (drop_bit 5 w) = unat w div 32"
      by (simp add: drop_bit_eq_div unat_div)
    ultimately have "unat (drop_bit 5 w) < unat (8 :: u8)" by (simp add: less_mult_imp_div_less)
    then show ?thesis by (simp only: word_less_nat_alt)
  qed
  then show "length b = 32 \<Longrightarrow> wf_account_info (bytes_account_info b)"
    by (simp add: wf_account_info_def bytes_account_info_def WALLET_NAME_MAX_LEN_def)
qed

lemma wf_cleared_account_info: "wf_account_info cleared_account_info"
  by (simp add: cleared_account_info_def wf_bytes_account_info)

lemma wf_bytes_public_info: "length b = 32 \<Longrightarrow> wf_public_info (bytes_public_info b)"
  by (simp add: wf_public_info_def bytes_public_info_def)

lemma wf_cleared_public_info: "wf_public_info cleared_public_info"
  by (simp add: cleared_public_info_def wf_bytes_public_info)

end
