(* ===== verification/Platform.thy ===== *)
theory Platform
  imports Device
begin

text \<open>
  Commands and the platform. A command of the key store may halt (a failed \<^verbatim>\<open>ASSERT\<close>, the outer
  \<open>None\<close>), return an error code or succeed with a result; in the latter two cases the state may
  have changed. The chips, the one-time programmable memory, the random number generator and the
  cryptographic functions of other projects are the fields of a \<open>platform\<close>; \<open>platform_ok\<close> states what
  the key store relies on.
\<close>

section \<open>Commands\<close>

type_synonym ('s, 'a) cmd = "'s \<Rightarrow> ((int + 'a) \<times> 's) option"

named_theorems cmd_simps \<open>evaluation of commands\<close>

definition succeed :: "'a \<Rightarrow> ('s, 'a) cmd" where
  "succeed a s = Some (Inr a, s)"

definition fail_with :: "int \<Rightarrow> ('s, 'a) cmd" where
  "fail_with e s = Some (Inl e, s)"

text \<open>An error code ends the sequence, as \<^verbatim>\<open>CHECK_ERRCODE_BREAK\<close> and its variants do.\<close>

definition seq :: "('s, 'a) cmd \<Rightarrow> ('a \<Rightarrow> ('s, 'b) cmd) \<Rightarrow> ('s, 'b) cmd" where
  "seq m f s =
     (case m s of
        None \<Rightarrow> None
      | Some (Inl e, s') \<Rightarrow> Some (Inl e, s')
      | Some (Inr a, s') \<Rightarrow> f a s')"

definition require :: "bool \<Rightarrow> ('s, unit) cmd" where
  "require b s = (if b then Some (Inr (), s) else None)"

definition lift_result :: "int + 'a \<Rightarrow> ('s, 'a) cmd" where
  "lift_result r s = Some (r, s)"

text \<open>The code of a command whose result the caller looks at, or ignores, itself; 0 is success.\<close>

definition code_of :: "('s, 'a) cmd \<Rightarrow> ('s, int) cmd" where
  "code_of m s =
     (case m s of
        None \<Rightarrow> None
      | Some (Inl e, s') \<Rightarrow> Some (Inr e, s')
      | Some (Inr a, s') \<Rightarrow> Some (Inr 0, s'))"

definition get_state :: "('s, 's) cmd" where
  "get_state s = Some (Inr s, s)"

definition update_state :: "('s \<Rightarrow> 's) \<Rightarrow> ('s, unit) cmd" where
  "update_state f s = Some (Inr (), f s)"

definition when_do :: "bool \<Rightarrow> ('s, unit) cmd \<Rightarrow> ('s, unit) cmd" where
  "when_do b m = (if b then m else succeed ())"

lemma cmd_eval [cmd_simps]:
  "succeed a s = Some (Inr a, s)"
  "fail_with e s = Some (Inl e, s)"
  "require True s = Some (Inr (), s)"
  "require False s = None"
  "get_state s = Some (Inr s, s)"
  "update_state f s = Some (Inr (), f s)"
  "when_do True m = m"
  "when_do False m = succeed ()"
  by (simp_all add: succeed_def fail_with_def require_def get_state_def update_state_def when_do_def)

lemma seq_result [cmd_simps]:
  "m s = Some (Inr a, s') \<Longrightarrow> seq m f s = f a s'"
  "m s = Some (Inl e, s') \<Longrightarrow> seq m f s = Some (Inl e, s')"
  "m s = None \<Longrightarrow> seq m f s = None"
  by (simp_all add: seq_def)

lemma code_of_result [cmd_simps]:
  "m s = Some (Inr a, s') \<Longrightarrow> code_of m s = Some (Inr 0, s')"
  "m s = Some (Inl e, s') \<Longrightarrow> code_of m s = Some (Inr e, s')"
  by (simp_all add: code_of_def)

lemma seq_success:
  "seq m f s = Some (Inr b, t) \<longleftrightarrow> (\<exists>a s'. m s = Some (Inr a, s') \<and> f a s' = Some (Inr b, t))"
  by (auto simp: seq_def split: option.splits sum.splits)

lemma seq_Some:
  "seq m f s = Some r \<longleftrightarrow> (\<exists>e s'. m s = Some (Inl e, s') \<and> r = (Inl e, s')) \<or> (\<exists>a s'. m s = Some (Inr a, s') \<and> f a s' = Some r)"
  by (auto simp: seq_def split: option.splits sum.splits)

lemma require_success: "require b s = Some (r, t) \<longleftrightarrow> b \<and> r = Inr () \<and> t = s"
  by (auto simp: require_def)

lemma succeed_success: "succeed a s = Some (r, t) \<longleftrightarrow> r = Inr a \<and> t = s"
  by (auto simp: succeed_def)

text \<open>A command whose code the caller does not look at.\<close>

definition ignoring :: "('s, 'a) cmd \<Rightarrow> ('s, unit) cmd" where
  "ignoring m = seq (code_of m) (\<lambda>_. succeed ())"

lemma ignoring_result: "ignoring m s = (case m s of None \<Rightarrow> None | Some (r, s') \<Rightarrow> Some (Inr (), s'))"
  by (simp add: ignoring_def seq_def code_of_def succeed_def split: option.split sum.split)

section \<open>The platform\<close>

text \<open>
  The operations the key store calls and that are not part of this code. Of the chips: the pages of
  the DS28S60 (a code, and for a read what the buffer holds afterwards), the slots of the ATECC608B
  and its key derivation, random numbers, the 32-byte fields of the one-time programmable memory.
  Of other projects: hashes, AES-256-CBC on the concatenated data of successive calls, PBKDF2 and the
  functions of the Rust library, which may return \<^verbatim>\<open>NULL\<close>, and the printer and the parser of JSON texts. Of
  the flash chip: its sectors, \<open>p_flash_erase\<close>, and its bytes, with the number that was read or written.
  \<open>p_uninit n\<close> is what \<open>n\<close> bytes of the stack hold before they are written. \<open>p_hmac_sha256\<close> and
  \<open>p_hmac_sha512\<close> are the functions behind the entry points, which refuse an empty key or message; no caller but
  the salted hash of \<open>SeManager\<close> can give them one.
\<close>

text \<open>
  What a function of the Rust library returns: \<^verbatim>\<open>NULL\<close>, or an error code and the data, which may be
  \<^verbatim>\<open>NULL\<close>.
\<close>

type_synonym response = "(int \<times> bytes option) option"

text \<open>A JSON text, as the printer takes it and the parser returns it.\<close>

datatype json =
    JString bytes
  | JNumber int
  | JBool bool
  | JNull
  | JArray "json list"
  | JObject "(bytes \<times> json) list"

record 'h platform =
  p_read :: "nat \<Rightarrow> 'h \<Rightarrow> int \<times> bytes"
  p_write :: "nat \<Rightarrow> bytes \<Rightarrow> 'h \<Rightarrow> int \<times> 'h"
  p_slot_write :: "nat \<Rightarrow> nat \<Rightarrow> bytes \<Rightarrow> 'h \<Rightarrow> int \<times> 'h"
  p_derive_key :: "nat \<Rightarrow> bytes \<Rightarrow> 'h \<Rightarrow> int \<times> 'h"
  p_kdf :: "nat \<Rightarrow> bytes \<Rightarrow> bytes \<Rightarrow> 'h \<Rightarrow> int \<times> bytes"
  p_trng :: "nat \<Rightarrow> 'h \<Rightarrow> bytes \<times> 'h"
  p_ds28s60_rng :: "nat \<Rightarrow> 'h \<Rightarrow> (int \<times> bytes) \<times> 'h"
  p_atecc608b_rng :: "nat \<Rightarrow> 'h \<Rightarrow> (int \<times> bytes) \<times> 'h"
  p_otp_read :: "nat \<Rightarrow> 'h \<Rightarrow> bytes"
  p_otp_write :: "nat \<Rightarrow> bytes \<Rightarrow> 'h \<Rightarrow> 'h"
  p_sha256 :: "bytes \<Rightarrow> bytes"
  p_sha512 :: "bytes \<Rightarrow> bytes"
  p_hmac_sha256 :: "bytes \<Rightarrow> bytes \<Rightarrow> bytes"
  p_hmac_sha512 :: "bytes \<Rightarrow> bytes \<Rightarrow> bytes"
  p_cbc_encrypt :: "bytes \<Rightarrow> bytes \<Rightarrow> bytes \<Rightarrow> bytes"
  p_cbc_decrypt :: "bytes \<Rightarrow> bytes \<Rightarrow> bytes \<Rightarrow> bytes"
  p_pbkdf2 :: "bytes \<Rightarrow> bytes \<Rightarrow> nat \<Rightarrow> bytes option"
  p_pbkdf2_64 :: "bytes \<Rightarrow> bytes \<Rightarrow> nat \<Rightarrow> bytes option"
  p_pbkdf2_hmac_sha512 :: "bytes \<Rightarrow> bytes \<Rightarrow> nat \<Rightarrow> nat \<Rightarrow> bytes"
  p_pbkdf2_slip39 :: "bytes \<Rightarrow> bytes \<Rightarrow> u32 \<Rightarrow> nat \<Rightarrow> bytes"
  p_master_fingerprint :: "bytes \<Rightarrow> (int \<times> bytes) option"
  p_ton_entropy :: "bytes \<Rightarrow> bytes"
  p_ton_seed :: "bytes \<Rightarrow> int \<times> bytes"
  p_ton_verify :: "bytes \<Rightarrow> bool"
  p_flash_read :: "nat \<Rightarrow> nat \<Rightarrow> 'h \<Rightarrow> nat \<times> bytes"
  p_flash_write :: "nat \<Rightarrow> bytes \<Rightarrow> 'h \<Rightarrow> nat \<times> 'h"
  p_flash_erase :: "nat \<Rightarrow> 'h \<Rightarrow> 'h"
  p_secp256k1_key :: "bytes \<Rightarrow> bytes \<Rightarrow> response"
  p_ed25519_key :: "bytes \<Rightarrow> bytes \<Rightarrow> response"
  p_bip32_ed25519_key :: "bytes \<Rightarrow> bytes \<Rightarrow> response"
  p_icarus_master_key :: "bytes \<Rightarrow> bytes option \<Rightarrow> response"
  p_ledger_master_key :: "bytes option \<Rightarrow> bytes option \<Rightarrow> response"
  p_ton_public_key :: "bytes \<Rightarrow> response"
  p_rsa_public_key :: "bytes \<Rightarrow> bytes \<Rightarrow> response"
  p_decrypt_primes :: "bytes \<Rightarrow> bytes \<Rightarrow> (int \<times> bytes) option"
  p_json_print :: "json \<Rightarrow> bytes"
  p_json_parse :: "bytes \<Rightarrow> json option"
  p_device_pubkey :: "'h \<Rightarrow> int \<times> bytes"
  p_device_sign :: "bytes \<Rightarrow> 'h \<Rightarrow> int \<times> bytes"
  p_uninit :: "nat \<Rightarrow> bytes"

definition OTP_ADDR_SALT :: nat where "OTP_ADDR_SALT = 0"
definition OTP_ADDR_AES_KEY :: nat where "OTP_ADDR_AES_KEY = 32"

text \<open>The slots of the ATECC608B that belong to one account.\<close>

definition slot_owner :: "nat \<Rightarrow> nat" where
  "slot_owner s = (if s \<in> {3, 4, 5} then 0 else if s \<in> {6, 7, 9} then 1 else if s \<in> {10, 11, 12} then 2 else 3)"

text \<open>
  \<open>frame p P A h h'\<close>: between \<open>h\<close> and \<open>h'\<close> only the pages in \<open>P\<close> and the key derivation of the
  accounts in \<open>A\<close> may have changed, and the one-time programmable memory has not.
\<close>

definition frame :: "'h platform \<Rightarrow> nat set \<Rightarrow> nat set \<Rightarrow> 'h \<Rightarrow> 'h \<Rightarrow> bool" where
  "frame p P A h h' \<longleftrightarrow>
     (\<forall>q. q \<notin> P \<longrightarrow> p_read p q h' = p_read p q h) \<and>
     (\<forall>s key m. slot_owner s \<notin> A \<longrightarrow> p_kdf p s key m h' = p_kdf p s key m h) \<and>
     (\<forall>a. p_otp_read p a h' = p_otp_read p a h)"

lemma frame_refl [simp]: "frame p P A h h"
  by (simp add: frame_def)

lemma frame_trans: "frame p P A h h' \<Longrightarrow> frame p Q B h' h'' \<Longrightarrow> frame p (P \<union> Q) (A \<union> B) h h''"
  by (simp add: frame_def)

lemma frame_trans_same: "frame p P A h h' \<Longrightarrow> frame p P A h' h'' \<Longrightarrow> frame p P A h h''"
  by (simp add: frame_def)

lemma frame_mono: "frame p P A h h' \<Longrightarrow> P \<subseteq> Q \<Longrightarrow> A \<subseteq> B \<Longrightarrow> frame p Q B h h'"
  by (auto simp: frame_def)

lemma frame_read: "frame p P A h h' \<Longrightarrow> q \<notin> P \<Longrightarrow> p_read p q h' = p_read p q h"
  by (simp add: frame_def)

lemma frame_kdf: "frame p P A h h' \<Longrightarrow> slot_owner s \<notin> A \<Longrightarrow> p_kdf p s key m h' = p_kdf p s key m h"
  by (simp add: frame_def)

lemma frame_otp: "frame p P A h h' \<Longrightarrow> p_otp_read p a h' = p_otp_read p a h"
  by (simp add: frame_def)

text \<open>
  What the chips and libraries document: a page that was written is read back until it is written
  again, and a read does not fail with a code of the key store (21 is \<^verbatim>\<open>ERR_KEYSTORE_PASSWORD_ERR\<close>); a
  key derivation of the ATECC608B depends on the slots of its account only; random numbers
  have the length asked for; hashes have their lengths; decryption undoes encryption; the flash is another chip.
\<close>

definition page_contract :: "'h platform \<Rightarrow> bool" where
  "page_contract p \<longleftrightarrow>
     (\<forall>q d h. frame p {q} {} h (snd (p_write p q d h))) \<and>
     (\<forall>q d h. fst (p_write p q d h) = 0 \<longrightarrow> length d = 32 \<longrightarrow> p_read p q (snd (p_write p q d h)) = (0, d)) \<and>
     (\<forall>q h. length (snd (p_read p q h)) = 32) \<and>
     (\<forall>q h. fst (p_read p q h) \<noteq> 21)"

definition slot_contract :: "'h platform \<Rightarrow> bool" where
  "slot_contract p \<longleftrightarrow>
     (\<forall>s b d h. frame p {} {slot_owner s} h (snd (p_slot_write p s b d h))) \<and>
     (\<forall>s d h. frame p {} {slot_owner s} h (snd (p_derive_key p s d h))) \<and>
     (\<forall>s key m h. length (snd (p_kdf p s key m h)) = 32)"

definition random_contract :: "'h platform \<Rightarrow> bool" where
  "random_contract p \<longleftrightarrow>
     (\<forall>n h. frame p {} {} h (snd (p_trng p n h)) \<and> length (fst (p_trng p n h)) = n) \<and>
     (\<forall>n h. frame p {} {} h (snd (p_ds28s60_rng p n h)) \<and> length (snd (fst (p_ds28s60_rng p n h))) = n) \<and>
     (\<forall>n h. frame p {} {} h (snd (p_atecc608b_rng p n h)) \<and> length (snd (fst (p_atecc608b_rng p n h))) = n)"

definition crypto_contract :: "'h platform \<Rightarrow> bool" where
  "crypto_contract p \<longleftrightarrow>
     (\<forall>m. length (p_sha256 p m) = 32) \<and> (\<forall>m. length (p_sha512 p m) = 64) \<and>
     (\<forall>k m. length (p_hmac_sha256 p k m) = 32) \<and>
     (\<forall>k iv m. length m mod 16 = 0 \<longrightarrow> length (p_cbc_encrypt p k iv m) = length m) \<and>
     (\<forall>k iv m. length m mod 16 = 0 \<longrightarrow> p_cbc_decrypt p k iv (p_cbc_encrypt p k iv m) = m) \<and>
     (\<forall>k iv m. length m mod 16 = 0 \<longrightarrow> length (p_cbc_decrypt p k iv m) = length m) \<and>
     (\<forall>pw salt n len. length (p_pbkdf2_hmac_sha512 p pw salt n len) = len) \<and>
     (\<forall>seed mfp. p_master_fingerprint p seed = Some (0, mfp) \<longrightarrow> 4 \<le> length mfp)"

text \<open>The hash of the public keys of an account is in one page of the secure element, the keys in the flash.\<close>

definition PAGE_WALLET1_PUB_KEY_HASH :: nat where "PAGE_WALLET1_PUB_KEY_HASH = 85"

definition flash_contract :: "'h platform \<Rightarrow> bool" where
  "flash_contract p \<longleftrightarrow>
     (\<forall>a h. frame p {} {} h (p_flash_erase p a h)) \<and>
     (\<forall>a b h. frame p {} {} h (snd (p_flash_write p a b h)))"

definition platform_ok :: "'h platform \<Rightarrow> bool" where
  "platform_ok p \<longleftrightarrow> page_contract p \<and> slot_contract p \<and> random_contract p \<and> crypto_contract p \<and>
     flash_contract p \<and> (\<forall>n. length (p_uninit p n) = n)"

lemma page_laws:
  assumes "platform_ok p"
  shows "frame p {q} {} h (snd (p_write p q d h))"
    and "fst (p_write p q d h) = 0 \<Longrightarrow> length d = 32 \<Longrightarrow> p_read p q (snd (p_write p q d h)) = (0, d)"
    and "length (snd (p_read p q h)) = 32"
    and "fst (p_read p q h) \<noteq> 21"
  using assms by (simp_all add: platform_ok_def page_contract_def)

lemma slot_laws:
  assumes "platform_ok p"
  shows "frame p {} {slot_owner s} h (snd (p_slot_write p s b d h))"
    and "frame p {} {slot_owner s} h (snd (p_derive_key p s d h))"
    and "length (snd (p_kdf p s key m h)) = 32"
  using assms by (simp_all add: platform_ok_def slot_contract_def)

lemma random_laws:
  assumes "platform_ok p"
  shows "frame p {} {} h (snd (p_trng p n h))" and "length (fst (p_trng p n h)) = n"
    and "frame p {} {} h (snd (p_ds28s60_rng p n h))" and "length (snd (fst (p_ds28s60_rng p n h))) = n"
    and "frame p {} {} h (snd (p_atecc608b_rng p n h))" and "length (snd (fst (p_atecc608b_rng p n h))) = n"
  using assms by (simp_all add: platform_ok_def random_contract_def)

lemma crypto_laws:
  assumes "platform_ok p"
  shows "length (p_sha256 p m) = 32" and "length (p_sha512 p m) = 64"
    and "length (p_hmac_sha256 p k m) = 32"
    and "length m mod 16 = 0 \<Longrightarrow> length (p_cbc_encrypt p k iv m) = length m"
    and "length m mod 16 = 0 \<Longrightarrow> p_cbc_decrypt p k iv (p_cbc_encrypt p k iv m) = m"
    and "length m mod 16 = 0 \<Longrightarrow> length (p_cbc_decrypt p k iv m) = length m"
    and "length (p_pbkdf2_hmac_sha512 p pw salt n len) = len"
    and "p_master_fingerprint p seed = Some (0, mfp) \<Longrightarrow> 4 \<le> length mfp"
  using assms by (simp_all add: platform_ok_def crypto_contract_def)

lemma flash_laws:
  assumes "platform_ok p"
  shows "frame p {} {} h (p_flash_erase p a h)"
    and "frame p {} {} h (snd (p_flash_write p a b h))"
  using assms by (simp_all add: platform_ok_def flash_contract_def)

text \<open>The salt and the AES key are in the one-time programmable memory.\<close>

definition provisioned :: "'h platform \<Rightarrow> 'h \<Rightarrow> bool" where
  "provisioned p h \<longleftrightarrow> CheckEntropy (p_otp_read p OTP_ADDR_SALT h) \<and> CheckEntropy (p_otp_read p OTP_ADDR_AES_KEY h) \<and>
     length (p_otp_read p OTP_ADDR_AES_KEY h) = 32"

lemma provisioned_frame: "frame p P A h h' \<Longrightarrow> provisioned p h' = provisioned p h"
  by (simp add: provisioned_def frame_def)

section \<open>What a command may change\<close>

text \<open>\<open>steps R m\<close>: every run of \<open>m\<close> relates its first state to its last one by \<open>R\<close>.\<close>

definition steps :: "('s \<Rightarrow> 's \<Rightarrow> bool) \<Rightarrow> ('s, 'a) cmd \<Rightarrow> bool" where
  "steps R m \<longleftrightarrow> (\<forall>s r s'. m s = Some (r, s') \<longrightarrow> R s s')"

lemma stepsI: "(\<And>s r s'. m s = Some (r, s') \<Longrightarrow> R s s') \<Longrightarrow> steps R m"
  by (simp add: steps_def)

lemma stepsD: "steps R m \<Longrightarrow> m s = Some (r, s') \<Longrightarrow> R s s'"
  by (simp add: steps_def)

lemma steps_mono: "steps R m \<Longrightarrow> (\<And>s s'. R s s' \<Longrightarrow> S s s') \<Longrightarrow> steps S m"
  by (auto simp: steps_def)

text \<open>A relation that holds of no change and of two changes in a row is kept by composition.\<close>

locale command_frame =
  fixes R :: "'s \<Rightarrow> 's \<Rightarrow> bool"
  assumes unchanged: "R s s"
    and changed_twice: "R s t \<Longrightarrow> R t u \<Longrightarrow> R s u"
begin

lemma steps_succeed: "steps R (succeed a)"
  by (simp add: steps_def succeed_def unchanged)

lemma steps_fail_with: "steps R (fail_with e)"
  by (simp add: steps_def fail_with_def unchanged)

lemma steps_lift_result: "steps R (lift_result r)"
  by (simp add: steps_def lift_result_def unchanged)

lemma steps_ignoring: "steps R m \<Longrightarrow> steps R (ignoring m)"
  by (auto simp: steps_def ignoring_result split: option.splits)

lemma steps_require: "steps R (require b)"
  by (simp add: steps_def require_def unchanged)

lemma steps_get_state: "steps R get_state"
  by (simp add: steps_def get_state_def unchanged)

lemma steps_update_state: "(\<And>s. R s (f s)) \<Longrightarrow> steps R (update_state f)"
  by (simp add: steps_def update_state_def)

lemma steps_seq: "steps R m \<Longrightarrow> (\<And>a. steps R (f a)) \<Longrightarrow> steps R (seq m f)"
  unfolding steps_def seq_Some by (metis changed_twice prod.inject)

lemma steps_guard: "(b \<Longrightarrow> steps R (f ())) \<Longrightarrow> steps R (seq (require b) f)"
  unfolding steps_def seq_Some require_def by (auto split: if_splits)

lemma steps_code_of: "steps R m \<Longrightarrow> steps R (code_of m)"
  unfolding steps_def code_of_def by (auto split: option.splits sum.splits)

lemma steps_when_do: "(b \<Longrightarrow> steps R m) \<Longrightarrow> steps R (when_do b m)"
  by (simp add: when_do_def steps_succeed)

lemma steps_Let: "(\<And>x. steps R (f x)) \<Longrightarrow> steps R (Let a f)"
  by simp

lemma steps_if: "(b \<Longrightarrow> steps R m) \<Longrightarrow> (\<not> b \<Longrightarrow> steps R n) \<Longrightarrow> steps R (if b then m else n)"
  by simp

lemma steps_with_state: "(\<And>s. steps R (f s)) \<Longrightarrow> steps R (\<lambda>s. f s s)"
  by (simp add: steps_def)

lemmas steps_rules = steps_guard steps_succeed steps_fail_with steps_lift_result steps_ignoring steps_require steps_get_state steps_seq steps_code_of steps_when_do
  steps_Let steps_if

end

interpretation chips: command_frame "frame p P A" for p P A
  by unfold_locales (auto simp: frame_def)

text \<open>The same for a device whose one-time programmable memory is provisioned, so that hashing writes nothing.\<close>

definition pframe :: "'h platform \<Rightarrow> nat set \<Rightarrow> nat set \<Rightarrow> 'h \<Rightarrow> 'h \<Rightarrow> bool" where
  "pframe p P A h h' \<longleftrightarrow> (provisioned p h \<longrightarrow> frame p P A h h')"

lemma frame_pframe: "frame p P A h h' \<Longrightarrow> pframe p P A h h'"
  by (simp add: pframe_def)

interpretation provisioned_chips: command_frame "pframe p P A" for p P A
  by unfold_locales (auto simp: pframe_def provisioned_frame intro: frame_trans_same)

section \<open>An example platform\<close>

text \<open>
  A platform that meets the contract: pages, key slots and the flash are maps, random numbers a counter, the
  hashes cut or pad the bytes they are given, the cipher adds a byte of the key.
\<close>

record example_hw =
  x_pages :: "nat \<Rightarrow> bytes"
  x_slots :: "nat \<Rightarrow> bytes"
  x_seed :: nat
  x_flash :: "nat \<Rightarrow> u8"

definition fit :: "nat \<Rightarrow> bytes \<Rightarrow> bytes" where
  "fit n b = take n (b @ replicate n 0)"

lemma length_fit [simp]: "length (fit n b) = n"
  by (simp add: fit_def)

lemma fit_id [simp]: "length b = n \<Longrightarrow> fit n b = b"
  by (simp add: fit_def)

definition example_platform :: "example_hw platform" where
  "example_platform = \<lparr>
     p_read = (\<lambda>q h. (0, fit 32 (x_pages h q))),
     p_write = (\<lambda>q d h. (0, h\<lparr>x_pages := (x_pages h)(q := d)\<rparr>)),
     p_slot_write = (\<lambda>s b d h. (0, h\<lparr>x_slots := (x_slots h)(s := d)\<rparr>)),
     p_derive_key = (\<lambda>s d h. (0, h\<lparr>x_slots := (x_slots h)(s := d)\<rparr>)),
     p_kdf = (\<lambda>s key m h. (0, fit 32 (m @ x_slots h s))),
     p_trng = (\<lambda>n h. (replicate n (of_nat (x_seed h)), h\<lparr>x_seed := x_seed h + 1\<rparr>)),
     p_ds28s60_rng = (\<lambda>n h. ((0, replicate n 1), h)),
     p_atecc608b_rng = (\<lambda>n h. ((0, replicate n 2), h)),
     p_otp_read = (\<lambda>a h. replicate 32 7),
     p_otp_write = (\<lambda>a d h. h),
     p_sha256 = fit 32, p_sha512 = fit 64,
     p_hmac_sha256 = (\<lambda>k m. fit 32 (m @ k)), p_hmac_sha512 = (\<lambda>k m. fit 64 (m @ k)),
     p_cbc_encrypt = (\<lambda>k iv m. map (\<lambda>b. b + 1) m), p_cbc_decrypt = (\<lambda>k iv m. map (\<lambda>b. b - 1) m),
     p_pbkdf2 = (\<lambda>pw salt n. Some (fit 32 (pw @ salt))), p_pbkdf2_64 = (\<lambda>pw salt n. Some (fit 64 (pw @ salt))),
     p_pbkdf2_hmac_sha512 = (\<lambda>pw salt n len. fit len (pw @ salt)),
     p_pbkdf2_slip39 = (\<lambda>pw salt n len. fit len (pw @ salt)),
     p_master_fingerprint = (\<lambda>seed. Some (0, fit 4 seed)),
     p_ton_entropy = fit 64, p_ton_seed = (\<lambda>ent. (0, fit 64 ent)), p_ton_verify = (\<lambda>phrase. True),
     p_flash_read = (\<lambda>a n h. (n, map (\<lambda>i. x_flash h (a + i)) [0..<n])),
     p_flash_write = (\<lambda>a b h. (length b, h\<lparr>x_flash := (\<lambda>i. if a \<le> i \<and> i < a + length b then b ! (i - a) else x_flash h i)\<rparr>)),
     p_flash_erase = (\<lambda>a h. h\<lparr>x_flash := (\<lambda>i. if a \<le> i \<and> i < a + 4096 then 255 else x_flash h i)\<rparr>),
     p_secp256k1_key = (\<lambda>seed path. Some (0, Some path)), p_ed25519_key = (\<lambda>seed path. Some (0, Some path)),
     p_bip32_ed25519_key = (\<lambda>key path. Some (0, Some path)),
     p_icarus_master_key = (\<lambda>ent passphrase. Some (0, Some ent)),
     p_ledger_master_key = (\<lambda>mnemonic passphrase. Some (0, Some (case mnemonic of None \<Rightarrow> [] | Some m \<Rightarrow> m))),
     p_ton_public_key = (\<lambda>seed. Some (0, Some seed)), p_rsa_public_key = (\<lambda>P Q. Some (0, Some (take 32 (P @ Q)))),
     p_decrypt_primes = (\<lambda>seed x. Some (1, [])),
     p_json_print = (\<lambda>j. []), p_json_parse = (\<lambda>b. None),
     p_device_pubkey = (\<lambda>h. (0, replicate 64 5)), p_device_sign = (\<lambda>m h. (0, fit 64 m)),
     p_uninit = (\<lambda>n. replicate n 0)\<rparr>"

definition example_start :: example_hw where
  "example_start = \<lparr>x_pages = (\<lambda>q. replicate 32 0), x_slots = (\<lambda>s. []), x_seed = 1, x_flash = (\<lambda>a. 255)\<rparr>"

lemma example_platform_ok: "platform_ok example_platform"
proof -
  have "page_contract example_platform" "slot_contract example_platform" "random_contract example_platform"
    "flash_contract example_platform"
    by (auto simp: page_contract_def slot_contract_def random_contract_def flash_contract_def frame_def
        example_platform_def)
  moreover have "crypto_contract example_platform"
    by (auto simp: crypto_contract_def example_platform_def comp_def)
  ultimately show ?thesis by (simp add: platform_ok_def) (simp add: example_platform_def)
qed

lemma example_provisioned: "provisioned example_platform h"
  by (simp add: provisioned_def example_platform_def CheckEntropy_iff)

end
