(* ===== verification/SeManager.thy ===== *)
theory SeManager
  imports Platform
begin

text \<open>
  The layer between the key store and the secure elements: the salted hashes
  (\<^verbatim>\<open>src/crypto/utils/hash_and_salt.c\<close>), the pass-through of \<^verbatim>\<open>src/hardware_interface/se_interface.c\<close>
  and the key pieces, fingerprint pages and wallet hashes of \<^verbatim>\<open>src/managers/se_manager.c\<close>. The
  lemmas: a key piece that was set is read back with the same password, whatever happens
  to other accounts in between.
\<close>

section \<open>Salted hashes\<close>

text \<open>A code and a result as a value of the command.\<close>

definition outcome :: "int \<Rightarrow> 'a \<Rightarrow> int + 'a" where
  "outcome ret a = (if ret = 0 then Inr a else Inl ret)"

definition TrngGet :: "'h platform \<Rightarrow> nat \<Rightarrow> ('h, bytes) cmd" where
  "TrngGet p len h = (let (buf, h) = p_trng p len h in Some (Inr buf, h))"

text \<open>
  A 32-byte field of the one-time programmable memory, generated when it is still blank. The caller
  goes on with the random bytes, not with what the memory took.
\<close>

definition otp_secret :: "'h platform \<Rightarrow> nat \<Rightarrow> ('h, bytes) cmd" where
  "otp_secret p address h =
     (let saltData = p_otp_read p address h
      in if CheckEntropy saltData then Some (Inr saltData, h)
         else let (saltData, h) = p_trng p 32 h
              in Some (Inr saltData, p_otp_write p address saltData h))"

text \<open>
  The entry points of HMAC refuse an empty key or message and leave the buffer as it was; their code is not looked at.
\<close>

definition hmac_into :: "(bytes \<Rightarrow> bytes \<Rightarrow> bytes) \<Rightarrow> bytes \<Rightarrow> bytes \<Rightarrow> bytes \<Rightarrow> bytes" where
  "hmac_into hmac out key msg = (if key = [] \<or> msg = [] then out else hmac key msg)"

definition HashWithSalt :: "'h platform \<Rightarrow> bytes \<Rightarrow> bytes \<Rightarrow> ('h, bytes) cmd" where
  "HashWithSalt p inData saltString =
     seq (otp_secret p OTP_ADDR_SALT) (\<lambda>saltData.
     succeed (hmac_into (p_hmac_sha256 p) (p_uninit p 32) saltString (hmac_into (p_hmac_sha256 p) (p_uninit p 32) saltData inData)))"

definition HashWithSalt512 :: "'h platform \<Rightarrow> bytes \<Rightarrow> bytes \<Rightarrow> ('h, bytes) cmd" where
  "HashWithSalt512 p inData saltString =
     seq (otp_secret p OTP_ADDR_SALT) (\<lambda>saltData.
     succeed (hmac_into (p_hmac_sha512 p) (p_uninit p 64) saltString (hmac_into (p_hmac_sha512 p) (p_uninit p 64) saltData inData)))"

text \<open>The callers hash \<^verbatim>\<open>strnlen_s (password, PASSWORD_MAX_LEN)\<close> bytes of a password.\<close>

definition password_bytes :: "bytes \<Rightarrow> bytes" where
  "password_bytes password = take (strnlen_s password PASSWORD_MAX_LEN) password"

text \<open>\<^verbatim>\<open>hkdf\<close> leaves the output buffer alone when the Rust library returns \<^verbatim>\<open>NULL\<close>.\<close>

definition hkdf :: "'h platform \<Rightarrow> bytes \<Rightarrow> bytes \<Rightarrow> bytes \<Rightarrow> nat \<Rightarrow> bytes" where
  "hkdf p password salt output iterations =
     (case p_pbkdf2 p password salt iterations of None \<Rightarrow> output | Some kdfResult \<Rightarrow> take 32 kdfResult)"

definition hkdf64 :: "'h platform \<Rightarrow> bytes \<Rightarrow> bytes \<Rightarrow> bytes \<Rightarrow> nat \<Rightarrow> bytes" where
  "hkdf64 p password salt output iterations =
     (case p_pbkdf2_64 p password salt iterations of None \<Rightarrow> output | Some kdfResult \<Rightarrow> take 64 kdfResult)"

section \<open>The secure elements\<close>

definition SE_EncryptWrite :: "'h platform \<Rightarrow> nat \<Rightarrow> nat \<Rightarrow> bytes \<Rightarrow> ('h, unit) cmd" where
  "SE_EncryptWrite p slot block data h = (let (ret, h) = p_slot_write p slot block data h in Some (outcome ret (), h))"

definition SE_Kdf :: "'h platform \<Rightarrow> nat \<Rightarrow> bytes \<Rightarrow> bytes \<Rightarrow> ('h, bytes) cmd" where
  "SE_Kdf p slot authKey inData h = (let (ret, outData) = p_kdf p slot authKey inData h in Some (outcome ret outData, h))"

definition SE_DeriveKey :: "'h platform \<Rightarrow> nat \<Rightarrow> bytes \<Rightarrow> ('h, unit) cmd" where
  "SE_DeriveKey p slot authKey h = (let (ret, h) = p_derive_key p slot authKey h in Some (outcome ret (), h))"

definition SE_HmacEncryptRead :: "'h platform \<Rightarrow> nat \<Rightarrow> ('h, bytes) cmd" where
  "SE_HmacEncryptRead p page h = (let (ret, data) = p_read p page h in Some (outcome ret data, h))"

definition SE_HmacEncryptWrite :: "'h platform \<Rightarrow> bytes \<Rightarrow> nat \<Rightarrow> ('h, unit) cmd" where
  "SE_HmacEncryptWrite p data page h = (let (ret, h) = p_write p page data h in Some (outcome ret (), h))"

definition SE_GetDS28S60Rng :: "'h platform \<Rightarrow> nat \<Rightarrow> ('h, bytes) cmd" where
  "SE_GetDS28S60Rng p num h = (let ((ret, rngArray), h) = p_ds28s60_rng p num h in Some (outcome ret rngArray, h))"

definition SE_GetTRng :: "'h platform \<Rightarrow> nat \<Rightarrow> ('h, bytes) cmd" where
  "SE_GetTRng p len = TrngGet p len"

definition SE_GetAtecc608bRng :: "'h platform \<Rightarrow> nat \<Rightarrow> ('h, bytes) cmd" where
  "SE_GetAtecc608bRng p num h = (let ((ret, rngArray), h) = p_atecc608b_rng p num h in Some (outcome ret rngArray, h))"

section \<open>Key pieces\<close>

definition KEY_PIECE_LEN :: nat where "KEY_PIECE_LEN = 32"
definition PAGE_NUM_PER_ACCOUNT :: nat where "PAGE_NUM_PER_ACCOUNT = 12"
definition PAGE_INDEX_KEY_PIECE :: nat where "PAGE_INDEX_KEY_PIECE = 7"
definition PAGE_INDEX_MULTISIG_CONFIG_HASH :: nat where "PAGE_INDEX_MULTISIG_CONFIG_HASH = 10"

definition account_page :: "nat \<Rightarrow> nat \<Rightarrow> nat" where
  "account_page accountIndex index = accountIndex * PAGE_NUM_PER_ACCOUNT + index"

record account_slot =
  slot_auth :: nat
  slot_rollKdf :: nat
  slot_hostKdf :: nat

definition GetAccountSlot :: "nat \<Rightarrow> account_slot" where
  "GetAccountSlot accountIndex =
     (if accountIndex = 0 then \<lparr>slot_auth = 3, slot_rollKdf = 4, slot_hostKdf = 5\<rparr>
      else if accountIndex = 1 then \<lparr>slot_auth = 6, slot_rollKdf = 7, slot_hostKdf = 9\<rparr>
      else \<lparr>slot_auth = 10, slot_rollKdf = 11, slot_hostKdf = 12\<rparr>)"

definition SHA256_COUNT :: nat where "SHA256_COUNT = 3"

definition kdf_piece :: "'h platform \<Rightarrow> account_slot \<Rightarrow> bytes \<Rightarrow> bytes \<Rightarrow> ('h, bytes) cmd" where
  "kdf_piece p accountSlot authKey inData =
     seq (SE_Kdf p (slot_rollKdf accountSlot) authKey inData) (\<lambda>outData.
     seq (SE_Kdf p (slot_hostKdf accountSlot) authKey outData) (\<lambda>outData.
     succeed ((p_sha256 p ^^ SHA256_COUNT) outData)))"

definition SetNewKeyPieceToAtecc608b :: "'h platform \<Rightarrow> nat \<Rightarrow> bytes \<Rightarrow> ('h, bytes) cmd" where
  "SetNewKeyPieceToAtecc608b p accountIndex password =
     seq (require (accountIndex \<le> 2)) (\<lambda>_.
     seq (HashWithSalt p (password_bytes password) (cstr ''auth_key'')) (\<lambda>authKey.
     let accountSlot = GetAccountSlot accountIndex in
     seq (SE_EncryptWrite p (slot_auth accountSlot) 0 authKey) (\<lambda>_.
     seq (SE_DeriveKey p (slot_rollKdf accountSlot) authKey) (\<lambda>_.
     seq (TrngGet p 32) (\<lambda>hostRandom.
     seq (SE_EncryptWrite p (slot_hostKdf accountSlot) 0 hostRandom) (\<lambda>_.
     seq (HashWithSalt p (password_bytes password) (cstr ''password_atecc608b'')) (\<lambda>inData.
     kdf_piece p accountSlot authKey inData)))))))"

definition SetNewKeyPieceToDs28s60 :: "'h platform \<Rightarrow> nat \<Rightarrow> bytes \<Rightarrow> ('h, bytes) cmd" where
  "SetNewKeyPieceToDs28s60 p accountIndex password =
     seq (require (accountIndex \<le> 2)) (\<lambda>_.
     seq (HashWithSalt p (password_bytes password) (cstr ''ds28s60 digest'')) (\<lambda>passwordHash.
     seq (TrngGet p 32) (\<lambda>randomKey.
     seq (SE_HmacEncryptWrite p (xorb passwordHash randomKey) (account_page accountIndex PAGE_INDEX_KEY_PIECE)) (\<lambda>_.
     succeed randomKey))))"

definition GetKeyPieceFromAtecc608b :: "'h platform \<Rightarrow> nat \<Rightarrow> bytes \<Rightarrow> ('h, bytes) cmd" where
  "GetKeyPieceFromAtecc608b p accountIndex password =
     seq (require (accountIndex \<le> 2)) (\<lambda>_.
     seq (HashWithSalt p (password_bytes password) (cstr ''auth_key'')) (\<lambda>authKey.
     seq (HashWithSalt p (password_bytes password) (cstr ''password_atecc608b'')) (\<lambda>inData.
     kdf_piece p (GetAccountSlot accountIndex) authKey inData)))"

definition GetKeyPieceFromDs28s60 :: "'h platform \<Rightarrow> nat \<Rightarrow> bytes \<Rightarrow> ('h, bytes) cmd" where
  "GetKeyPieceFromDs28s60 p accountIndex password =
     seq (require (accountIndex \<le> 2)) (\<lambda>_.
     seq (HashWithSalt p (password_bytes password) (cstr ''ds28s60 digest'')) (\<lambda>passwordHash.
     seq (SE_HmacEncryptRead p (account_page accountIndex PAGE_INDEX_KEY_PIECE)) (\<lambda>xData.
     succeed (xorb passwordHash xData))))"

text \<open>
  The code and the buffer \<open>pieces\<close>, which keeps its second half, or all of it, when a chip reports an
  error.
\<close>

definition GetKeyPieceFromSE :: "'h platform \<Rightarrow> nat \<Rightarrow> bytes \<Rightarrow> bytes \<Rightarrow> ('h, int \<times> bytes) cmd" where
  "GetKeyPieceFromSE p accountIndex pieces password h =
     (case GetKeyPieceFromAtecc608b p accountIndex password h of
        None \<Rightarrow> None
      | Some (Inl ret, h) \<Rightarrow> Some (Inr (ret, pieces), h)
      | Some (Inr piece, h) \<Rightarrow>
          (let pieces = buf_write pieces 0 piece
           in case GetKeyPieceFromDs28s60 p accountIndex password h of
                None \<Rightarrow> None
              | Some (Inl ret, h) \<Rightarrow> Some (Inr (ret, pieces), h)
              | Some (Inr piece, h) \<Rightarrow> Some (Inr (0, buf_write pieces KEY_PIECE_LEN piece), h)))"

definition SetNewKeyPieceToSE :: "'h platform \<Rightarrow> nat \<Rightarrow> bytes \<Rightarrow> ('h, bytes) cmd" where
  "SetNewKeyPieceToSE p accountIndex password =
     seq (SetNewKeyPieceToAtecc608b p accountIndex password) (\<lambda>piece.
     seq (SetNewKeyPieceToDs28s60 p accountIndex password) (\<lambda>piece2.
     succeed (piece @ piece2)))"

section \<open>Fingerprint pages and wallet hashes\<close>

definition PAGE_PF_ENCRYPTED_PASSWORD :: nat where "PAGE_PF_ENCRYPTED_PASSWORD = 72"
definition PAGE_PF_AES_KEY :: nat where "PAGE_PF_AES_KEY = 82"
definition PAGE_PF_RESET_KEY :: nat where "PAGE_PF_RESET_KEY = 83"
definition PAGE_PF_INFO :: nat where "PAGE_PF_INFO = 84"

definition SetFpEncryptedPassword :: "'h platform \<Rightarrow> nat \<Rightarrow> bytes \<Rightarrow> ('h, unit) cmd" where
  "SetFpEncryptedPassword p index encryptedPassword =
     seq (require (index < 10)) (\<lambda>_. SE_HmacEncryptWrite p encryptedPassword (PAGE_PF_ENCRYPTED_PASSWORD + index))"

definition GetFpEncryptedPassword :: "'h platform \<Rightarrow> nat \<Rightarrow> ('h, bytes) cmd" where
  "GetFpEncryptedPassword p index =
     seq (require (index < 10)) (\<lambda>_. SE_HmacEncryptRead p (PAGE_PF_ENCRYPTED_PASSWORD + index))"

definition SetFpStateInfo :: "'h platform \<Rightarrow> bytes \<Rightarrow> ('h, unit) cmd" where
  "SetFpStateInfo p info = SE_HmacEncryptWrite p (take 32 info) PAGE_PF_INFO"

definition GetFpStateInfo :: "'h platform \<Rightarrow> ('h, bytes) cmd" where
  "GetFpStateInfo p = SE_HmacEncryptRead p PAGE_PF_INFO"

definition SetFpCommAesKey :: "'h platform \<Rightarrow> bytes \<Rightarrow> ('h, unit) cmd" where
  "SetFpCommAesKey p aesKey = SE_HmacEncryptWrite p aesKey PAGE_PF_AES_KEY"

definition GetFpCommAesKey :: "'h platform \<Rightarrow> ('h, bytes) cmd" where
  "GetFpCommAesKey p = SE_HmacEncryptRead p PAGE_PF_AES_KEY"

definition SetFpResetKey :: "'h platform \<Rightarrow> bytes \<Rightarrow> ('h, unit) cmd" where
  "SetFpResetKey p resetKey = SE_HmacEncryptWrite p resetKey PAGE_PF_RESET_KEY"

definition GetFpResetKey :: "'h platform \<Rightarrow> ('h, bytes) cmd" where
  "GetFpResetKey p = SE_HmacEncryptRead p PAGE_PF_RESET_KEY"

definition FpAesKeyExist :: "'h platform \<Rightarrow> ('h, bool) cmd" where
  "FpAesKeyExist p h =
     (let (ret, key) = p_read p PAGE_PF_AES_KEY h
      in Some (Inr (if ret \<noteq> 0 then False else CheckEntropy key), h))"

definition SetWalletDataHash :: "'h platform \<Rightarrow> nat \<Rightarrow> bytes \<Rightarrow> ('h, unit) cmd" where
  "SetWalletDataHash p index info =
     seq (require (index \<le> 2)) (\<lambda>_. SE_HmacEncryptWrite p (take 32 info) (PAGE_WALLET1_PUB_KEY_HASH + index))"

text \<open>
  A hash that does not match is accepted when the page is blank, also after a failed read; what is
  stored then is the blank \<^verbatim>\<open>data\<close>, not \<open>info\<close>, and the result of storing it is not looked at.
\<close>

definition VerifyWalletDataHash :: "'h platform \<Rightarrow> nat \<Rightarrow> bytes \<Rightarrow> ('h, bool) cmd" where
  "VerifyWalletDataHash p index info =
     seq (require (index \<le> 2)) (\<lambda>_ h.
       let (ret, data) = p_read p (PAGE_WALLET1_PUB_KEY_HASH + index) h
       in if ret = 0 \<and> data = take 32 info then Some (Inr True, h)
          else if CheckAllFF data \<or> CheckAllZero data
          then seq (code_of (SetWalletDataHash p index data)) (\<lambda>_. succeed True) h
          else Some (Inr False, h))"

definition SetMultisigDataHash :: "'h platform \<Rightarrow> nat \<Rightarrow> bytes \<Rightarrow> ('h, unit) cmd" where
  "SetMultisigDataHash p index info =
     seq (require (index \<le> 2)) (\<lambda>_. SE_HmacEncryptWrite p (take 32 info) (account_page index PAGE_INDEX_MULTISIG_CONFIG_HASH))"

definition VerifyMultisigWalletDataHash :: "'h platform \<Rightarrow> nat \<Rightarrow> bytes \<Rightarrow> ('h, bool) cmd" where
  "VerifyMultisigWalletDataHash p index info =
     seq (require (index \<le> 2)) (\<lambda>_ h.
       let (ret, data) = p_read p (account_page index PAGE_INDEX_MULTISIG_CONFIG_HASH) h
       in if ret = 0 \<and> data = take 32 info then Some (Inr True, h)
          else if CheckAllFF data \<or> CheckAllZero data
          then seq (code_of (SetMultisigDataHash p index data)) (\<lambda>_. succeed True) h
          else Some (Inr False, h))"

definition SignMessageWithDeviceKey :: "'h platform \<Rightarrow> bytes \<Rightarrow> ('h, bytes) cmd" where
  "SignMessageWithDeviceKey p messageHash h =
     (let (ret, signature) = p_device_sign p messageHash h in Some (outcome ret signature, h))"

definition GetDevicePublicKey :: "'h platform \<Rightarrow> ('h, bytes) cmd" where
  "GetDevicePublicKey p h =
     (let (ret, pubkeyXY) = p_device_pubkey p h in Some (outcome ret (4 # pubkeyXY), h))"

section \<open>Results on a provisioned device\<close>

lemma outcome_simps [simp]:
  "outcome ret a = Inr b \<longleftrightarrow> ret = 0 \<and> a = b"
  "outcome ret a = Inl e \<longleftrightarrow> ret \<noteq> 0 \<and> ret = e"
  "outcome 0 a = Inr a"
  by (auto simp: outcome_def)

definition salted :: "'h platform \<Rightarrow> bytes \<Rightarrow> bytes \<Rightarrow> 'h \<Rightarrow> bytes" where
  "salted p inData saltString h = hmac_into (p_hmac_sha256 p) (p_uninit p 32) saltString
     (hmac_into (p_hmac_sha256 p) (p_uninit p 32) (p_otp_read p OTP_ADDR_SALT h) inData)"

lemma HashWithSalt_provisioned:
  "provisioned p h \<Longrightarrow> HashWithSalt p inData saltString h = Some (Inr (salted p inData saltString h), h)"
  by (simp add: HashWithSalt_def otp_secret_def provisioned_def Let_def salted_def cmd_simps)

lemma seq_HashWithSalt: "provisioned p h \<Longrightarrow> seq (HashWithSalt p inData saltString) f h = f (salted p inData saltString h) h"
  by (simp add: seq_result HashWithSalt_provisioned)

lemma salted_frame: "frame p P A h h' \<Longrightarrow> salted p inData saltString h' = salted p inData saltString h"
  by (simp add: salted_def frame_otp)

lemma length_salted: "platform_ok p \<Longrightarrow> length (salted p inData saltString h) = 32"
  using crypto_laws(3) [of p] by (auto simp: salted_def hmac_into_def platform_ok_def)

definition own_slots :: "nat \<Rightarrow> account_slot \<Rightarrow> bool" where
  "own_slots i s \<longleftrightarrow> slot_owner (slot_auth s) = i \<and> slot_owner (slot_rollKdf s) = i \<and> slot_owner (slot_hostKdf s) = i"

lemma GetAccountSlot_own: "i \<le> 2 \<Longrightarrow> own_slots i (GetAccountSlot i)"
  by (cases "i = 0"; cases "i = 1") (simp_all add: own_slots_def GetAccountSlot_def slot_owner_def)

lemma account_page_inj:
  "k < 12 \<Longrightarrow> k' < 12 \<Longrightarrow> account_page i k = account_page i' k' \<longleftrightarrow> i = i' \<and> k = k'"
proof -
  assume k: "k < 12" "k' < 12"
  have "account_page j m div 12 = j \<and> account_page j m mod 12 = m" if "m < 12" for j m
    using that by (simp add: account_page_def PAGE_NUM_PER_ACCOUNT_def)
  with k show ?thesis by metis
qed

lemma account_page_small: "i \<le> 2 \<Longrightarrow> k < 12 \<Longrightarrow> account_page i k < 36"
  by (simp add: account_page_def PAGE_NUM_PER_ACCOUNT_def)

section \<open>What the operations may change\<close>

lemma SE_frames:
  assumes "platform_ok p"
  shows "page \<in> P \<Longrightarrow> steps (frame p P A) (SE_HmacEncryptWrite p data page)"
    and "slot_owner slot \<in> A \<Longrightarrow> steps (frame p P A) (SE_EncryptWrite p slot block data)"
    and "slot_owner slot \<in> A \<Longrightarrow> steps (frame p P A) (SE_DeriveKey p slot authKey)"
    and "steps (frame p P A) (SE_HmacEncryptRead p page)"
    and "steps (frame p P A) (SE_Kdf p slot authKey inData)"
    and "steps (frame p P A) (TrngGet p len)"
    and "steps (frame p P A) (SE_GetDS28S60Rng p len)"
    and "steps (frame p P A) (SE_GetAtecc608bRng p len)"
proof -
  show "page \<in> P \<Longrightarrow> steps (frame p P A) (SE_HmacEncryptWrite p data page)"
    by (rule stepsI) (auto simp: SE_HmacEncryptWrite_def case_prod_beta intro: frame_mono [OF page_laws(1) [OF assms]])
  show "slot_owner slot \<in> A \<Longrightarrow> steps (frame p P A) (SE_EncryptWrite p slot block data)"
    by (rule stepsI) (auto simp: SE_EncryptWrite_def case_prod_beta intro: frame_mono [OF slot_laws(1) [OF assms]])
  show "slot_owner slot \<in> A \<Longrightarrow> steps (frame p P A) (SE_DeriveKey p slot authKey)"
    by (rule stepsI) (auto simp: SE_DeriveKey_def case_prod_beta intro: frame_mono [OF slot_laws(2) [OF assms]])
  show "steps (frame p P A) (SE_HmacEncryptRead p page)"
    by (rule stepsI) (auto simp: SE_HmacEncryptRead_def case_prod_beta)
  show "steps (frame p P A) (SE_Kdf p slot authKey inData)"
    by (rule stepsI) (auto simp: SE_Kdf_def case_prod_beta)
  show "steps (frame p P A) (TrngGet p len)"
    by (rule stepsI) (auto simp: TrngGet_def case_prod_beta intro: frame_mono [OF random_laws(1) [OF assms]])
  show "steps (frame p P A) (SE_GetDS28S60Rng p len)"
    by (rule stepsI) (auto simp: SE_GetDS28S60Rng_def case_prod_beta intro: frame_mono [OF random_laws(3) [OF assms]])
  show "steps (frame p P A) (SE_GetAtecc608bRng p len)"
    by (rule stepsI) (auto simp: SE_GetAtecc608bRng_def case_prod_beta intro: frame_mono [OF random_laws(5) [OF assms]])
qed

lemma hash_frames:
  "steps (pframe p P A) (HashWithSalt p inData saltString)"
  "steps (pframe p P A) (otp_secret p OTP_ADDR_AES_KEY)"
  by (rule stepsI; auto simp: pframe_def HashWithSalt_provisioned otp_secret_def provisioned_def)+

lemma provisioned_SE_frames:
  assumes "platform_ok p"
  shows "page \<in> P \<Longrightarrow> steps (pframe p P A) (SE_HmacEncryptWrite p data page)"
    and "slot_owner slot \<in> A \<Longrightarrow> steps (pframe p P A) (SE_EncryptWrite p slot block data)"
    and "slot_owner slot \<in> A \<Longrightarrow> steps (pframe p P A) (SE_DeriveKey p slot authKey)"
    and "steps (pframe p P A) (SE_HmacEncryptRead p page)"
    and "steps (pframe p P A) (SE_Kdf p slot authKey inData)"
    and "steps (pframe p P A) (TrngGet p len)"
  by (auto intro!: steps_mono [OF _ frame_pframe] SE_frames [OF assms])

lemma steps_SetNewKeyPieceToSE:
  assumes ok: "platform_ok p" and "account_page i PAGE_INDEX_KEY_PIECE \<in> P" and "i \<in> A"
  shows "steps (pframe p P A) (SetNewKeyPieceToSE p i password)"
proof -
  have own: "slot_owner (slot_auth (GetAccountSlot i)) \<in> A" "slot_owner (slot_rollKdf (GetAccountSlot i)) \<in> A"
    "slot_owner (slot_hostKdf (GetAccountSlot i)) \<in> A" if "i \<le> 2"
    using GetAccountSlot_own [OF that] assms(3) by (simp_all add: own_slots_def)
  show ?thesis
    unfolding SetNewKeyPieceToSE_def SetNewKeyPieceToAtecc608b_def SetNewKeyPieceToDs28s60_def kdf_piece_def Let_def
    by (intro provisioned_chips.steps_rules hash_frames provisioned_SE_frames [OF ok] own assms(2))
qed

lemma SE_HmacEncryptWrite_success:
  assumes "platform_ok p" and "SE_HmacEncryptWrite p data page h = Some (Inr u, h')" and "length data = 32"
  shows "p_read p page h' = (0, data)"
  using assms page_laws(2) [OF assms(1), of page data h] by (auto simp: SE_HmacEncryptWrite_def case_prod_beta)

lemma SE_HmacEncryptRead_frame:
  "frame p P A h h' \<Longrightarrow> page \<notin> P \<Longrightarrow> SE_HmacEncryptRead p page h = Some (r, h) \<Longrightarrow> SE_HmacEncryptRead p page h' = Some (r, h')"
  by (simp add: SE_HmacEncryptRead_def frame_read case_prod_beta)

section \<open>Key pieces are read back\<close>

lemma kdf_piece_frame:
  assumes "frame p P A h h'" and "own_slots i s" and "i \<notin> A" and "kdf_piece p s key x h = Some (Inr piece, h0)"
  shows "kdf_piece p s key x h' = Some (Inr piece, h') \<and> h0 = h"
  using assms frame_kdf [OF assms(1), of "slot_rollKdf s"] frame_kdf [OF assms(1), of "slot_hostKdf s"]
  by (auto simp: kdf_piece_def own_slots_def seq_success SE_Kdf_def case_prod_beta succeed_success)

lemma length_sha256_power: "platform_ok p \<Longrightarrow> length ((p_sha256 p ^^ SHA256_COUNT) m) = 32"
  by (simp add: SHA256_COUNT_def numeral_eq_Suc crypto_laws)

lemma SetNewKeyPieceToAtecc608b_success:
  assumes ok: "platform_ok p" "provisioned p h" and run: "SetNewKeyPieceToAtecc608b p i password h = Some (Inr piece, h')"
  shows "i \<le> 2 \<and> frame p {} {i} h h' \<and> length piece = 32 \<and>
    kdf_piece p (GetAccountSlot i) (salted p (password_bytes password) (cstr ''auth_key'') h)
      (salted p (password_bytes password) (cstr ''password_atecc608b'') h) h' = Some (Inr piece, h')"
proof -
  have i: "i \<le> 2" using run by (auto simp: SetNewKeyPieceToAtecc608b_def seq_success require_success)
  note own = GetAccountSlot_own [OF i, unfolded own_slots_def]
  let ?s = "GetAccountSlot i" and ?pw = "password_bytes password"
  obtain h1 h2 h3 h4 r where
    h1: "SE_EncryptWrite p (slot_auth ?s) 0 (salted p ?pw (cstr ''auth_key'') h) h = Some (Inr (), h1)" and
    h2: "SE_DeriveKey p (slot_rollKdf ?s) (salted p ?pw (cstr ''auth_key'') h) h1 = Some (Inr (), h2)" and
    h3: "TrngGet p 32 h2 = Some (Inr r, h3)" and
    h4: "SE_EncryptWrite p (slot_hostKdf ?s) 0 r h3 = Some (Inr (), h4)" and
    rest: "seq (HashWithSalt p ?pw (cstr ''password_atecc608b''))
       (kdf_piece p ?s (salted p ?pw (cstr ''auth_key'') h)) h4 = Some (Inr piece, h')"
    using run i by (auto simp: SetNewKeyPieceToAtecc608b_def seq_success [of "require _"] require_success
        seq_HashWithSalt [OF ok(2)] seq_success [of "SE_EncryptWrite _ _ _ _"]
        seq_success [of "SE_DeriveKey _ _ _"] seq_success [of "TrngGet _ _"] Let_def)
  have "frame p {} {i} h h1" "frame p {} {i} h1 h2" "frame p {} {i} h2 h3" "frame p {} {i} h3 h4"
    using stepsD [OF SE_frames(2) [OF ok(1)] h1] stepsD [OF SE_frames(3) [OF ok(1)] h2]
      stepsD [OF SE_frames(6) [OF ok(1)] h3] stepsD [OF SE_frames(2) [OF ok(1)] h4] own by simp_all
  then have f: "frame p {} {i} h h4" by (metis frame_trans_same)
  have prov: "provisioned p h4" using ok(2) provisioned_frame [OF f] by simp
  have kdf: "kdf_piece p ?s (salted p ?pw (cstr ''auth_key'') h) (salted p ?pw (cstr ''password_atecc608b'') h) h4 = Some (Inr piece, h')"
    using rest by (simp add: seq_HashWithSalt [OF prov] salted_frame [OF f])
  from kdf have "length piece = 32"
    by (auto simp: kdf_piece_def seq_success succeed_success length_sha256_power [OF ok(1)])
  moreover from kdf_piece_frame [where P = "{}" and A = "{}", OF frame_refl GetAccountSlot_own [OF i] _ kdf] have "h' = h4" by simp
  ultimately show ?thesis using i f kdf by simp
qed

lemma SetNewKeyPieceToDs28s60_success:
  assumes ok: "platform_ok p" "provisioned p h" and run: "SetNewKeyPieceToDs28s60 p i password h = Some (Inr piece, h')"
  shows "i \<le> 2 \<and> frame p {account_page i PAGE_INDEX_KEY_PIECE} {} h h' \<and> length piece = 32 \<and>
    p_read p (account_page i PAGE_INDEX_KEY_PIECE) h' = (0, xorb (salted p (password_bytes password) (cstr ''ds28s60 digest'') h) piece)"
proof -
  let ?d = "salted p (password_bytes password) (cstr ''ds28s60 digest'') h"
  obtain h1 where i: "i \<le> 2" and h1: "TrngGet p 32 h = Some (Inr piece, h1)" and
    h2: "SE_HmacEncryptWrite p (xorb ?d piece) (account_page i PAGE_INDEX_KEY_PIECE) h1 = Some (Inr (), h')"
    using run by (auto simp: SetNewKeyPieceToDs28s60_def seq_success [of "require _"] require_success
        seq_HashWithSalt [OF ok(2)] seq_success [of "SE_HmacEncryptWrite _ _ _"]
        seq_success [of "TrngGet _ _"] succeed_success)
  have piece: "length piece = 32" using h1 random_laws(2) [OF ok(1), of 32 h] by (auto simp: TrngGet_def case_prod_beta)
  have "frame p {account_page i PAGE_INDEX_KEY_PIECE} {} h h'"
    by (rule frame_trans_same [OF stepsD [OF SE_frames(6) [OF ok(1)] h1] stepsD [OF SE_frames(1) [OF ok(1)] h2]]) simp
  moreover have "p_read p (account_page i PAGE_INDEX_KEY_PIECE) h' = (0, xorb ?d piece)"
    using SE_HmacEncryptWrite_success [OF ok(1) h2] piece length_salted [OF ok(1)] by simp
  ultimately show ?thesis using i piece by simp
qed

lemma key_piece_round_trip:
  assumes ok: "platform_ok p" "provisioned p h" and run: "SetNewKeyPieceToSE p i password h = Some (Inr pieces, h')"
    and later: "frame p P A h' h''" and untouched: "account_page i PAGE_INDEX_KEY_PIECE \<notin> P" "i \<notin> A" and buf: "length buf = 64"
  shows "GetKeyPieceFromSE p i buf password h'' = Some (Inr (0, pieces), h'')"
proof -
  let ?pw = "password_bytes password"
  let ?d = "salted p ?pw (cstr ''ds28s60 digest'') h"
  obtain p1 p2 h1 where s1: "SetNewKeyPieceToAtecc608b p i password h = Some (Inr p1, h1)" and
    s2: "SetNewKeyPieceToDs28s60 p i password h1 = Some (Inr p2, h')" and pieces: "pieces = p1 @ p2"
    using run by (auto simp: SetNewKeyPieceToSE_def seq_success succeed_success)
  note a = SetNewKeyPieceToAtecc608b_success [OF ok s1]
  from a have f1: "frame p {} {i} h h1" by simp
  then have prov1: "provisioned p h1" using ok(2) by (simp add: provisioned_frame)
  note d = SetNewKeyPieceToDs28s60_success [OF ok(1) prov1 s2]
  from d have f2: "frame p {account_page i PAGE_INDEX_KEY_PIECE} {} h1 h'" by simp
  have g: "frame p ({account_page i PAGE_INDEX_KEY_PIECE} \<union> P) ({} \<union> A) h1 h''" by (rule frame_trans [OF f2 later])
  have prov: "provisioned p h''" using prov1 provisioned_frame [OF g] by simp
  have eq: "salted p x s h'' = salted p x s h" "salted p x s h1 = salted p x s h" for x s
    using salted_frame [OF g] salted_frame [OF f1] by simp_all
  have "kdf_piece p (GetAccountSlot i) (salted p ?pw (cstr ''auth_key'') h) (salted p ?pw (cstr ''password_atecc608b'') h) h'' = Some (Inr p1, h'')"
    using kdf_piece_frame [OF g GetAccountSlot_own] a untouched(2) by (metis Un_iff empty_iff)
  then have g1: "GetKeyPieceFromAtecc608b p i password h'' = Some (Inr p1, h'')"
    using a by (simp add: GetKeyPieceFromAtecc608b_def cmd_simps seq_HashWithSalt [OF prov] eq)
  have "p_read p (account_page i PAGE_INDEX_KEY_PIECE) h'' = (0, xorb (salted p ?pw (cstr ''ds28s60 digest'') h) p2)"
    using d frame_read [OF later untouched(1)] by (simp add: eq)
  moreover have "xorb ?d (xorb ?d p2) = p2"
    using xorb_cancel2 [of p2 ?d] xorb_commute [of p2 ?d] d length_salted [OF ok(1), of ?pw "cstr ''ds28s60 digest''" h] by simp
  ultimately have g2: "GetKeyPieceFromDs28s60 p i password h'' = Some (Inr p2, h'')"
    using d
    by (simp add: GetKeyPieceFromDs28s60_def cmd_simps seq_HashWithSalt [OF prov] eq
        seq_def [of "SE_HmacEncryptRead _ _"] SE_HmacEncryptRead_def)
  have "buf_write (buf_write buf 0 p1) KEY_PIECE_LEN p2 = p1 @ p2"
    using a d buf by (simp add: buf_write_def KEY_PIECE_LEN_def)
  with g1 g2 show ?thesis by (simp add: GetKeyPieceFromSE_def pieces)
qed

lemma SetNewKeyPieceToSE_success:
  assumes ok: "platform_ok p" "provisioned p h" and run: "SetNewKeyPieceToSE p i password h = Some (Inr pieces, h')"
  shows "i \<le> 2" and "length pieces = 64" and "frame p {account_page i PAGE_INDEX_KEY_PIECE} {i} h h'"
proof -
  obtain p1 p2 h1 where s1: "SetNewKeyPieceToAtecc608b p i password h = Some (Inr p1, h1)" and
    s2: "SetNewKeyPieceToDs28s60 p i password h1 = Some (Inr p2, h')" and pieces: "pieces = p1 @ p2"
    using run by (auto simp: SetNewKeyPieceToSE_def seq_success succeed_success)
  note a = SetNewKeyPieceToAtecc608b_success [OF ok s1]
  from a have f1: "frame p {} {i} h h1" by simp
  then have "provisioned p h1" using ok(2) by (simp add: provisioned_frame)
  note d = SetNewKeyPieceToDs28s60_success [OF ok(1) this s2]
  show "i \<le> 2" "length pieces = 64" using a d by (simp_all add: pieces)
  show "frame p {account_page i PAGE_INDEX_KEY_PIECE} {i} h h'"
    using frame_trans [OF f1, of "{account_page i PAGE_INDEX_KEY_PIECE}" "{}" h'] d by simp
qed

section \<open>Wallet hashes\<close>

text \<open>Which hashes a wallet page accepts: the stored one, and any when the page is blank.\<close>

lemma VerifyWalletDataHash_result:
  assumes "index \<le> 2" and "p_read p (PAGE_WALLET1_PUB_KEY_HASH + index) h = (0, data)"
  shows "\<exists>h'. VerifyWalletDataHash p index info h = Some (Inr (data = take 32 info \<or> CheckAllFF data \<or> CheckAllZero data), h')"
  using assms
  by (auto simp: VerifyWalletDataHash_def SetWalletDataHash_def SE_HmacEncryptWrite_def cmd_simps seq_def code_of_def
      outcome_def case_prod_beta)

end
