(* ===== verification/AccountInfo.thy ===== *)
theory AccountInfo
  imports SeManager
begin

text \<open>
  The information of the current account and its page of the secure element, the public counters and
  the passphrases in RAM: the readers and writers of \<^verbatim>\<open>src/managers/account_manager.c\<close> and of
  \<^verbatim>\<open>src/managers/keystore.c\<close> that the operations on accounts are made of.
\<close>

section \<open>Commands on the device\<close>

definition on_hw :: "('h, 'a) cmd \<Rightarrow> ('h device, 'a) cmd" where
  "on_hw m d = (case m (hw d) of None \<Rightarrow> None | Some (r, h) \<Rightarrow> Some (r, d\<lparr>hw := h\<rparr>))"

definition PAGE_INDEX_IV :: nat where "PAGE_INDEX_IV = 0"
definition PAGE_INDEX_ENTROPY :: nat where "PAGE_INDEX_ENTROPY = 1"
definition PAGE_INDEX_SEED_H32 :: nat where "PAGE_INDEX_SEED_H32 = 2"
definition PAGE_INDEX_SEED_L32 :: nat where "PAGE_INDEX_SEED_L32 = 3"
definition PAGE_INDEX_SLIP39_EMS :: nat where "PAGE_INDEX_SLIP39_EMS = 4"
definition PAGE_INDEX_RESERVED :: nat where "PAGE_INDEX_RESERVED = 5"
definition PAGE_INDEX_HMAC :: nat where "PAGE_INDEX_HMAC = 6"
definition PAGE_INDEX_PASSWORD_HASH :: nat where "PAGE_INDEX_PASSWORD_HASH = 8"
definition PAGE_INDEX_PARAM :: nat where "PAGE_INDEX_PARAM = 9"
definition PAGE_PUBLIC_INFO :: nat where "PAGE_PUBLIC_INFO = 88"

section \<open>The information of the current account\<close>

datatype mnemonic_type = MNEMONIC_TYPE_BIP39 | MNEMONIC_TYPE_SLIP39 | MNEMONIC_TYPE_TON

definition GetMnemonicType :: "'h device \<Rightarrow> mnemonic_type" where
  "GetMnemonicType d =
     (if ai_isSlip39 (g_currentAccountInfo d) then MNEMONIC_TYPE_SLIP39
      else if ai_isTon (g_currentAccountInfo d) then MNEMONIC_TYPE_TON
      else MNEMONIC_TYPE_BIP39)"

definition set_info :: "(account_info \<Rightarrow> account_info) \<Rightarrow> ('h device, unit) cmd" where
  "set_info f = update_state (\<lambda>d. d\<lparr>g_currentAccountInfo := f (g_currentAccountInfo d)\<rparr>)"

definition SaveCurrentAccountInfo :: "'h platform \<Rightarrow> ('h device, unit) cmd" where
  "SaveCurrentAccountInfo p =
     seq get_state (\<lambda>d.
     seq (require (g_currentAccountIndex d \<le> 2)) (\<lambda>_.
     on_hw (SE_HmacEncryptWrite p (account_info_bytes (g_currentAccountInfo d))
       (account_page (g_currentAccountIndex d) PAGE_INDEX_PARAM))))"

definition ReadCurrentAccountInfo :: "'h platform \<Rightarrow> ('h device, unit) cmd" where
  "ReadCurrentAccountInfo p =
     seq get_state (\<lambda>d.
     seq (require (g_currentAccountIndex d \<le> 2)) (\<lambda>_.
     seq (on_hw (SE_HmacEncryptRead p (account_page (g_currentAccountIndex d) PAGE_INDEX_PARAM))) (\<lambda>param.
     set_info (\<lambda>_. bytes_account_info param))))"

definition GetAccountInfo :: "'h platform \<Rightarrow> nat \<Rightarrow> ('h device, account_info) cmd" where
  "GetAccountInfo p accountIndex =
     seq (require (accountIndex \<le> 2)) (\<lambda>_.
     seq (on_hw (SE_HmacEncryptRead p (account_page accountIndex PAGE_INDEX_PARAM))) (\<lambda>param.
     succeed (bytes_account_info param)))"

definition SetPasscodeType :: "'h platform \<Rightarrow> bool \<Rightarrow> ('h device, unit) cmd" where
  "SetPasscodeType p passcodeType =
     seq (set_info (\<lambda>ai. ai\<lparr>ai_passcodeType := passcodeType\<rparr>)) (\<lambda>_. ignoring (SaveCurrentAccountInfo p))"

definition SetMnemonicType :: "'h platform \<Rightarrow> mnemonic_type \<Rightarrow> ('h device, unit) cmd" where
  "SetMnemonicType p mnemonicType =
     seq (set_info (\<lambda>ai. ai\<lparr>ai_isSlip39 := (mnemonicType = MNEMONIC_TYPE_SLIP39), ai_isTon := (mnemonicType = MNEMONIC_TYPE_TON)\<rparr>)) (\<lambda>_.
     ignoring (SaveCurrentAccountInfo p))"

definition SetCurrentAccountMfp :: "bytes \<Rightarrow> ('h device, unit) cmd" where
  "SetCurrentAccountMfp mfp = set_info (\<lambda>ai. ai\<lparr>ai_mfp := take 4 mfp\<rparr>)"

definition SetCurrentAccountEntropyLen :: "u8 \<Rightarrow> ('h device, unit) cmd" where
  "SetCurrentAccountEntropyLen len = set_info (\<lambda>ai. ai\<lparr>ai_entropyLen := len\<rparr>)"

definition GetCurrentAccountEntropyLen :: "'h device \<Rightarrow> nat" where
  "GetCurrentAccountEntropyLen d = unat (ai_entropyLen (g_currentAccountInfo d))"

definition GetPasscodeType :: "'h device \<Rightarrow> bool" where
  "GetPasscodeType d = ai_passcodeType (g_currentAccountInfo d)"

definition GetSlip39Id :: "'h device \<Rightarrow> u16" where
  "GetSlip39Id d = ai_slip39Id (g_currentAccountInfo d)"

definition GetSlip39Ie :: "'h device \<Rightarrow> u8" where
  "GetSlip39Ie d = ai_slip39IeEb (g_currentAccountInfo d) AND 15"

definition GetSlip39Eb :: "'h device \<Rightarrow> u8" where
  "GetSlip39Eb d = drop_bit 4 (ai_slip39IeEb (g_currentAccountInfo d))"

definition GetPassphraseQuickAccess :: "'h device \<Rightarrow> bool" where
  "GetPassphraseQuickAccess d = ai_passphraseQuickAccess (g_currentAccountInfo d)"

definition GetPassphraseMark :: "'h device \<Rightarrow> bool" where
  "GetPassphraseMark d = ai_passphraseMark (g_currentAccountInfo d)"

definition GetWalletIconIndex :: "'h device \<Rightarrow> u8" where
  "GetWalletIconIndex d = ai_iconIndex (g_currentAccountInfo d)"

text \<open>The string ends at its NUL.\<close>

definition GetWalletName :: "'h device \<Rightarrow> bytes" where
  "GetWalletName d = takeWhile (\<lambda>c. c \<noteq> 0) (ai_walletName (g_currentAccountInfo d))"

definition SetWalletIconIndex :: "'h platform \<Rightarrow> u8 \<Rightarrow> ('h device, unit) cmd" where
  "SetWalletIconIndex p iconIndex =
     seq (set_info (\<lambda>ai. ai\<lparr>ai_iconIndex := iconIndex\<rparr>)) (\<lambda>_. ignoring (SaveCurrentAccountInfo p))"

text \<open>A \<^verbatim>\<open>NULL\<close> name, as a name that does not fit, leaves the empty string.\<close>

definition wallet_name_field :: "bytes option \<Rightarrow> bytes" where
  "wallet_name_field walletName =
     (let str = (case walletName of None \<Rightarrow> [] | Some str \<Rightarrow> strcpy_s (WALLET_NAME_MAX_LEN + 1) str)
      in str @ replicate (WALLET_NAME_MAX_LEN + 1 - length str) 0)"

definition SetWalletName :: "'h platform \<Rightarrow> bytes option \<Rightarrow> ('h device, unit) cmd" where
  "SetWalletName p walletName =
     seq (set_info (\<lambda>ai. ai\<lparr>ai_walletName := wallet_name_field walletName\<rparr>)) (\<lambda>_. ignoring (SaveCurrentAccountInfo p))"

definition SetPassphraseMark :: "'h platform \<Rightarrow> bool \<Rightarrow> ('h device, unit) cmd" where
  "SetPassphraseMark p enable =
     seq (set_info (\<lambda>ai. ai\<lparr>ai_passphraseMark := enable\<rparr>)) (\<lambda>_. ignoring (SaveCurrentAccountInfo p))"

section \<open>Passphrases\<close>

definition PassphraseExist :: "nat \<Rightarrow> ('h device, bool) cmd" where
  "PassphraseExist accountIndex =
     (if accountIndex > 2 then succeed False
      else
        seq get_state (\<lambda>d.
        let info = g_passphraseInfo d accountIndex;
            exist = 0 < strnlen_s (pp_passphrase info) PASSPHRASE_MAX_LEN in
        seq (require (pp_passphraseExist info = exist)) (\<lambda>_.
        succeed exist)))"

definition ClearAccountPassphrase :: "nat \<Rightarrow> ('h device, unit) cmd" where
  "ClearAccountPassphrase accountIndex =
     (if accountIndex > 2 then succeed ()
      else update_state (\<lambda>d. d\<lparr>g_passphraseInfo := (g_passphraseInfo d)(accountIndex := cleared_passphrase_info)\<rparr>))"

definition GetPassphrase :: "nat \<Rightarrow> 'h device \<Rightarrow> bytes option" where
  "GetPassphrase accountIndex d =
     (if accountIndex > 2 then None else Some (pp_passphrase (g_passphraseInfo d accountIndex)))"

definition CheckPassphraseSame :: "nat \<Rightarrow> bytes \<Rightarrow> ('h device, bool) cmd" where
  "CheckPassphraseSame accountIndex passphrase =
     seq (require (accountIndex \<le> 2)) (\<lambda>_.
     seq get_state (\<lambda>d.
     succeed (passphrase = pp_passphrase (g_passphraseInfo d accountIndex))))"

definition GetMasterFingerPrint :: "('h device, bytes) cmd" where
  "GetMasterFingerPrint =
     seq get_state (\<lambda>d.
     if g_currentAccountIndex d > 2 then succeed (replicate 4 0)
     else
       seq (PassphraseExist (g_currentAccountIndex d)) (\<lambda>exist.
       succeed (if exist then pp_mfp (g_passphraseInfo d (g_currentAccountIndex d)) else ai_mfp (g_currentAccountInfo d))))"

definition SetPassphraseQuickAccess :: "'h platform \<Rightarrow> bool \<Rightarrow> ('h device, unit) cmd" where
  "SetPassphraseQuickAccess p enable =
     seq (set_info (\<lambda>ai. ai\<lparr>ai_passphraseQuickAccess := enable\<rparr>)) (\<lambda>_.
     seq get_state (\<lambda>d.
     seq (PassphraseExist (g_currentAccountIndex d)) (\<lambda>exist.
     seq (when_do exist (SetPassphraseMark p True)) (\<lambda>_.
     ignoring (SaveCurrentAccountInfo p)))))"

section \<open>The public information\<close>

definition set_public_info :: "(public_info \<Rightarrow> public_info) \<Rightarrow> ('h device, unit) cmd" where
  "set_public_info f = update_state (\<lambda>d. d\<lparr>g_publicInfo := f (g_publicInfo d)\<rparr>)"

definition save_public_info :: "'h platform \<Rightarrow> ('h device, unit) cmd" where
  "save_public_info p =
     seq get_state (\<lambda>d. on_hw (SE_HmacEncryptWrite p (public_info_bytes (g_publicInfo d)) PAGE_PUBLIC_INFO))"

definition AccountManagerInit :: "'h platform \<Rightarrow> ('h device, unit) cmd" where
  "AccountManagerInit p d =
     (let (ret, b) = p_read p PAGE_PUBLIC_INFO (hw d)
      in Some (outcome ret (), d\<lparr>g_publicInfo := bytes_public_info b\<rparr>))"

definition AccountManagerIsNeedReset :: "'h device \<Rightarrow> bool" where
  "AccountManagerIsNeedReset d = (if pi_loginPasswordErrorCount (g_publicInfo d) < 10 then False else True)"

definition GetLoginPasswordErrorCount :: "'h device \<Rightarrow> u8" where
  "GetLoginPasswordErrorCount d = pi_loginPasswordErrorCount (g_publicInfo d)"

definition GetCurrentPasswordErrorCount :: "'h device \<Rightarrow> u8" where
  "GetCurrentPasswordErrorCount d = pi_currentPasswordErrorCount (g_publicInfo d)"

definition GetLastLockDeviceTime :: "'h device \<Rightarrow> u32" where
  "GetLastLockDeviceTime d = pi_lastLockDeviceTime (g_publicInfo d)"

definition SetLastLockDeviceTime :: "'h platform \<Rightarrow> u32 \<Rightarrow> ('h device, unit) cmd" where
  "SetLastLockDeviceTime p timeStamp =
     seq (set_public_info (\<lambda>i. i\<lparr>pi_lastLockDeviceTime := timeStamp\<rparr>)) (\<lambda>_. ignoring (save_public_info p))"

definition ErasePublicInfo :: "'h platform \<Rightarrow> ('h device, unit) cmd" where
  "ErasePublicInfo p = seq (set_public_info (\<lambda>_. cleared_public_info)) (\<lambda>_. save_public_info p)"

definition ClearCurrentPasswordErrorCount :: "'h platform \<Rightarrow> ('h device, unit) cmd" where
  "ClearCurrentPasswordErrorCount p =
     seq (set_public_info (\<lambda>i. i\<lparr>pi_loginPasswordErrorCount := 0, pi_currentPasswordErrorCount := 0\<rparr>)) (\<lambda>_.
     ignoring (save_public_info p))"

definition LogoutCurrentAccount :: "('h device, unit) cmd" where
  "LogoutCurrentAccount = update_state (\<lambda>d. d\<lparr>g_currentAccountIndex := ACCOUNT_INDEX_LOGOUT\<rparr>)"

definition SetCurrentAccountIndex :: "('h device, unit) cmd" where
  "SetCurrentAccountIndex = update_state (\<lambda>d. d\<lparr>g_currentAccountIndex := g_lastAccountIndex d\<rparr>)"

section \<open>What the commands change\<close>

text \<open>
  While account \<open>i\<close> is the current one of a provisioned device: it stays so, the chips change only as \<open>frame\<close> allows, the
  stored records keep their lengths, the kind of the mnemonic and the passphrases stay.
\<close>

definition acct_frame :: "'h platform \<Rightarrow> nat set \<Rightarrow> nat set \<Rightarrow> nat \<Rightarrow> 'h device \<Rightarrow> 'h device \<Rightarrow> bool" where
  "acct_frame p P A i d d' \<longleftrightarrow>
     (g_currentAccountIndex d = i \<longrightarrow> provisioned p (hw d) \<longrightarrow>
        g_currentAccountIndex d' = i \<and> frame p P A (hw d) (hw d') \<and>
        (wf_account_info (g_currentAccountInfo d) \<longrightarrow> wf_account_info (g_currentAccountInfo d')) \<and>
        GetMnemonicType d' = GetMnemonicType d \<and> g_passphraseInfo d' = g_passphraseInfo d)"

interpretation account: command_frame "acct_frame p P A i" for p P A i
  by unfold_locales (auto simp: acct_frame_def provisioned_frame intro: frame_trans_same)

lemma on_hw_success:
  "on_hw m d = Some (r, d') \<longleftrightarrow> (\<exists>h. m (hw d) = Some (r, h) \<and> d' = d\<lparr>hw := h\<rparr>)"
  by (auto simp: on_hw_def split: option.splits)

lemma steps_on_hw: "steps (pframe p P A) m \<Longrightarrow> steps (acct_frame p P A i) (on_hw m)"
  by (rule stepsI) (auto simp: on_hw_success acct_frame_def pframe_def GetMnemonicType_def dest: stepsD)

lemma seq_on_hw: "seq (on_hw m) (\<lambda>a. on_hw (f a)) = on_hw (seq m f)"
  by (rule ext) (auto simp: seq_def on_hw_def split: option.splits sum.splits)

lemma steps_set_info:
  "(\<And>ai. (wf_account_info ai \<longrightarrow> wf_account_info (f ai)) \<and> ai_isSlip39 (f ai) = ai_isSlip39 ai \<and> ai_isTon (f ai) = ai_isTon ai) \<Longrightarrow>
   steps (acct_frame p P A i) (set_info f)"
  by (rule stepsI) (auto simp: set_info_def update_state_def acct_frame_def GetMnemonicType_def)

lemma steps_set_public_info: "steps (acct_frame p P A i) (set_public_info f)"
  by (rule stepsI) (auto simp: set_public_info_def update_state_def acct_frame_def GetMnemonicType_def)

lemma length_wallet_name_field: "length (wallet_name_field walletName) = WALLET_NAME_MAX_LEN + 1"
proof -
  have "length (strcpy_s (WALLET_NAME_MAX_LEN + 1) str) \<le> WALLET_NAME_MAX_LEN + 1" for str
    using length_strcpy_s [of "WALLET_NAME_MAX_LEN + 1" str] by simp
  then show ?thesis by (simp add: wallet_name_field_def Let_def split: option.splits)
qed

lemma steps_SaveCurrentAccountInfo:
  assumes "platform_ok p" and "account_page i PAGE_INDEX_PARAM \<in> P"
  shows "steps (acct_frame p P A i) (SaveCurrentAccountInfo p)"
proof (rule stepsI)
  fix d r d' assume run: "SaveCurrentAccountInfo p d = Some (r, d')"
  have "acct_frame p P A i d d'" if i: "g_currentAccountIndex d = i"
  proof -
    have "d' = d \<or> (\<exists>b. on_hw (SE_HmacEncryptWrite p b (account_page i PAGE_INDEX_PARAM)) d = Some (r, d'))"
      using run i by (auto simp: SaveCurrentAccountInfo_def seq_Some get_state_def require_def split: if_splits)
    then show ?thesis
    proof
      assume "d' = d" then show ?thesis by (simp add: account.unchanged)
    next
      assume "\<exists>b. on_hw (SE_HmacEncryptWrite p b (account_page i PAGE_INDEX_PARAM)) d = Some (r, d')"
      then show ?thesis using stepsD [OF steps_on_hw [OF provisioned_SE_frames(1) [OF assms]]] by blast
    qed
  qed
  then show "acct_frame p P A i d d'" by (auto simp: acct_frame_def)
qed

lemma SaveCurrentAccountInfo_success:
  assumes "platform_ok p" and "wf_account_info (g_currentAccountInfo d)" and "SaveCurrentAccountInfo p d = Some (Inr u, d')"
  shows "p_read p (account_page (g_currentAccountIndex d) PAGE_INDEX_PARAM) (hw d') = (0, account_info_bytes (g_currentAccountInfo d))
    \<and> g_currentAccountInfo d' = g_currentAccountInfo d"
  using assms SE_HmacEncryptWrite_success [OF assms(1)]
  by (auto simp: SaveCurrentAccountInfo_def seq_success require_success on_hw_success
      length_account_info_bytes cmd_eval)

text \<open>The operations on the information of the current account write its own page only.\<close>

lemma info_frames:
  assumes ok: "platform_ok p" and P: "account_page i PAGE_INDEX_PARAM \<in> P"
  shows "steps (acct_frame p P A i) (SetWalletName p walletName)"
    and "steps (acct_frame p P A i) (SetWalletIconIndex p iconIndex)"
    and "steps (acct_frame p P A i) (SetPasscodeType p passcodeType)"
    and "steps (acct_frame p P A i) (SetPassphraseMark p enable)"
    and "steps (acct_frame p P A i) (SetCurrentAccountEntropyLen len)"
    and "4 \<le> length mfp \<Longrightarrow> steps (acct_frame p P A i) (SetCurrentAccountMfp mfp)"
  using assms
  by (auto simp: SetWalletName_def SetWalletIconIndex_def SetPasscodeType_def SetPassphraseMark_def
      SetCurrentAccountEntropyLen_def SetCurrentAccountMfp_def wf_account_info_def length_wallet_name_field
      intro!: account.steps_seq account.steps_ignoring steps_set_info steps_SaveCurrentAccountInfo)

lemma steps_PassphraseExist: "steps (acct_frame p P A i) (PassphraseExist j)"
  unfolding PassphraseExist_def Let_def by (intro account.steps_rules)

lemma steps_save_public_info:
  assumes "platform_ok p" and "PAGE_PUBLIC_INFO \<in> P"
  shows "steps (acct_frame p P A i) (save_public_info p)"
  unfolding save_public_info_def by (intro account.steps_rules steps_on_hw provisioned_SE_frames assms)

end
