(* ===== verification/Keystore.thy ===== *)
theory Keystore
  imports AccountInfo Bip39 Slip39
begin

text \<open>
  The key store (\<^verbatim>\<open>src/managers/keystore.c\<close>): the secret of an account is encrypted under a key
  derived from the password through both secure elements, authenticated, and kept in the pages of
  the account; passwords are recognised by a salted hash. The lemmas: a saved secret is loaded with
  its password whatever happens to the pages of other accounts; nothing is loaded whose
  authentication code does not match.
\<close>

section \<open>Passwords\<close>

definition ERR_KEYSTORE_AUTH :: int where "ERR_KEYSTORE_AUTH = 20"
definition ERR_KEYSTORE_PASSWORD_ERR :: int where "ERR_KEYSTORE_PASSWORD_ERR = 21"
definition ERR_KEYSTORE_REPEAT_PASSWORD :: int where "ERR_KEYSTORE_REPEAT_PASSWORD = 22"
definition ERR_KEYSTORE_NOT_LOGIN :: int where "ERR_KEYSTORE_NOT_LOGIN = 23"

text \<open>The loop of \<^verbatim>\<open>VerifyPassword\<close> over the accounts that are left.\<close>

fun verify_accounts :: "'h platform \<Rightarrow> bytes \<Rightarrow> nat list \<Rightarrow> ('h, nat) cmd" where
  "verify_accounts p password [] = fail_with ERR_KEYSTORE_PASSWORD_ERR"
| "verify_accounts p password (i # accounts) =
     seq (SE_HmacEncryptRead p (account_page i PAGE_INDEX_PASSWORD_HASH)) (\<lambda>passwordHashStore.
     seq (HashWithSalt p (password_bytes password) (cstr ''password hash'')) (\<lambda>passwordHashClac.
     if passwordHashStore = passwordHashClac then succeed i else verify_accounts p password accounts))"

definition VerifyPassword :: "'h platform \<Rightarrow> bytes \<Rightarrow> ('h device, nat) cmd" where
  "VerifyPassword p password = on_hw (verify_accounts p password [0, 1, 2])"

definition CheckPasswordExisted :: "'h platform \<Rightarrow> bytes \<Rightarrow> nat \<Rightarrow> ('h device, unit) cmd" where
  "CheckPasswordExisted p password excludeIndex d =
     (case VerifyPassword p password d of
        None \<Rightarrow> None
      | Some (Inr accountIndex, d) \<Rightarrow>
          Some (if excludeIndex \<noteq> accountIndex then Inl ERR_KEYSTORE_REPEAT_PASSWORD else Inr (), d)
      | Some (Inl ret, d) \<Rightarrow> Some (if ret = ERR_KEYSTORE_PASSWORD_ERR then Inr () else Inl ret, d))"

definition write_password_hash :: "'h platform \<Rightarrow> nat \<Rightarrow> bytes \<Rightarrow> ('h device, unit) cmd" where
  "write_password_hash p accountIndex password =
     on_hw (seq (HashWithSalt p (password_bytes password) (cstr ''password hash'')) (\<lambda>passwordHash.
       SE_HmacEncryptWrite p passwordHash (account_page accountIndex PAGE_INDEX_PASSWORD_HASH)))"

section \<open>Saving and loading a secret\<close>

definition CombineInnerAesKey :: "'h platform \<Rightarrow> bytes \<Rightarrow> ('h, bytes) cmd" where
  "CombineInnerAesKey p aesKey =
     seq (otp_secret p OTP_ADDR_AES_KEY) (\<lambda>aesPiece. succeed (xorb aesKey aesPiece))"

text \<open>Consecutive reads and writes of pages of an account; the first error ends them.\<close>

fun write_pages :: "'h platform \<Rightarrow> nat \<Rightarrow> (nat \<times> bytes) list \<Rightarrow> ('h, unit) cmd" where
  "write_pages p accountIndex [] = succeed ()"
| "write_pages p accountIndex ((index, data) # pages) =
     seq (SE_HmacEncryptWrite p data (account_page accountIndex index)) (\<lambda>_. write_pages p accountIndex pages)"

fun read_pages :: "'h platform \<Rightarrow> nat \<Rightarrow> nat list \<Rightarrow> ('h, bytes list) cmd" where
  "read_pages p accountIndex [] = succeed []"
| "read_pages p accountIndex (index # indices) =
     seq (SE_HmacEncryptRead p (account_page accountIndex index)) (\<lambda>data.
     seq (read_pages p accountIndex indices) (\<lambda>rest. succeed (data # rest)))"

text \<open>
  \<^verbatim>\<open>sha512Hash\<close>: the first half is the encryption key before the inner key is added, the second
  half the authentication key.
\<close>

definition AES_KEY_LEN :: nat where "AES_KEY_LEN = 32"

definition sha512_of_pieces :: "'h platform \<Rightarrow> bytes \<Rightarrow> ('h, bytes) cmd" where
  "sha512_of_pieces p pieces =
     seq (HashWithSalt p pieces (cstr ''combine two pieces'')) (\<lambda>hash. succeed (p_sha512 p hash))"

text \<open>The data of the four encryptions, one after the other in one CBC stream.\<close>

definition secret_data :: "account_secret \<Rightarrow> bytes" where
  "secret_data accountSecret =
     as_entropy accountSecret @ as_seed accountSecret @ as_slip39EmsOrTonEntropyL32 accountSecret @ as_reservedData accountSecret"

definition write_secret :: "'h platform \<Rightarrow> nat \<Rightarrow> account_secret \<Rightarrow> bytes \<Rightarrow> ('h, unit) cmd" where
  "write_secret p accountIndex accountSecret password =
     seq (SetNewKeyPieceToSE p accountIndex password) (\<lambda>pieces.
     seq (sha512_of_pieces p pieces) (\<lambda>sha512Hash.
     seq (TrngGet p 32) (\<lambda>iv.
     seq (CombineInnerAesKey p (take AES_KEY_LEN sha512Hash)) (\<lambda>enKey.
     let encrypted = p_cbc_encrypt p enKey (take 16 iv) (secret_data accountSecret);
         hmac = p_hmac_sha256 p (drop AES_KEY_LEN sha512Hash) (iv @ encrypted)
     in write_pages p accountIndex
          [(PAGE_INDEX_IV, iv), (PAGE_INDEX_ENTROPY, take 32 encrypted), (PAGE_INDEX_SEED_H32, take 32 (drop 32 encrypted)),
           (PAGE_INDEX_SEED_L32, take 32 (drop 64 encrypted)), (PAGE_INDEX_SLIP39_EMS, take 32 (drop 96 encrypted)),
           (PAGE_INDEX_RESERVED, take 32 (drop 128 encrypted)), (PAGE_INDEX_HMAC, hmac)]))))"

text \<open>
  The fingerprint of a new account. A \<^verbatim>\<open>NULL\<close> or an error of the Rust library leaves the
  \<^verbatim>\<open>switch\<close> only: the account is saved without its fingerprint.
\<close>

definition set_master_fingerprint :: "'h platform \<Rightarrow> account_secret \<Rightarrow> ('h device, unit) cmd" where
  "set_master_fingerprint p accountSecret =
     seq get_state (\<lambda>d.
     if GetMnemonicType d = MNEMONIC_TYPE_TON then succeed ()
     else
       let seedLen = (if GetMnemonicType d = MNEMONIC_TYPE_SLIP39 then unat (as_entropyLen accountSecret) else 64)
       in case p_master_fingerprint p (take seedLen (as_seed accountSecret)) of
            None \<Rightarrow> succeed ()
          | Some (error_code, masterFingerprint) \<Rightarrow>
              when_do (error_code = 0) (SetCurrentAccountMfp masterFingerprint))"

definition SaveAccountSecret :: "'h platform \<Rightarrow> nat \<Rightarrow> account_secret \<Rightarrow> bytes \<Rightarrow> bool \<Rightarrow> ('h device, unit) cmd" where
  "SaveAccountSecret p accountIndex accountSecret password newAccount =
     seq (require (accountIndex \<le> 2)) (\<lambda>_.
     seq (on_hw (write_secret p accountIndex accountSecret password)) (\<lambda>_.
     when_do newAccount
       (seq (SetCurrentAccountEntropyLen (as_entropyLen accountSecret)) (\<lambda>_.
        seq (set_master_fingerprint p accountSecret) (\<lambda>_.
        ignoring (SaveCurrentAccountInfo p))))))"

text \<open>
  The code of \<^verbatim>\<open>GetKeyPieceFromSE\<close> is not looked at: without key pieces the authentication code is
  computed with what the buffer held.
\<close>

definition read_secret :: "'h platform \<Rightarrow> nat \<Rightarrow> bytes \<Rightarrow> ('h, account_secret) cmd" where
  "read_secret p accountIndex password =
     seq (GetKeyPieceFromSE p accountIndex (p_uninit p 64) password) (\<lambda>(ret, pieces).
     seq (sha512_of_pieces p pieces) (\<lambda>sha512Hash.
     seq (read_pages p accountIndex
       [PAGE_INDEX_IV, PAGE_INDEX_ENTROPY, PAGE_INDEX_SEED_H32, PAGE_INDEX_SEED_L32, PAGE_INDEX_SLIP39_EMS,
        PAGE_INDEX_RESERVED, PAGE_INDEX_HMAC, PAGE_INDEX_PARAM]) (\<lambda>pages.
     let iv = pages ! 0;
         encrypted = pages ! 1 @ pages ! 2 @ pages ! 3 @ pages ! 4 @ pages ! 5;
         hmacCalc = p_hmac_sha256 p (drop AES_KEY_LEN sha512Hash) (iv @ encrypted);
         storedLen = ai_entropyLen (bytes_account_info (pages ! 7))
     in seq (if hmacCalc = pages ! 6 then succeed () else fail_with ERR_KEYSTORE_AUTH) (\<lambda>_.
        seq (CombineInnerAesKey p (take AES_KEY_LEN sha512Hash)) (\<lambda>enKey.
        let data = p_cbc_decrypt p enKey (take 16 iv) encrypted
        in succeed \<lparr>as_entropy = take 32 data, as_seed = take 64 (drop 32 data),
             as_slip39EmsOrTonEntropyL32 = take 32 (drop 96 data), as_reservedData = take 32 (drop 128 data),
             as_entropyLen = (if storedLen = 0 then 32 else storedLen)\<rparr>)))))"

definition LoadAccountSecret :: "'h platform \<Rightarrow> nat \<Rightarrow> bytes \<Rightarrow> ('h device, account_secret) cmd" where
  "LoadAccountSecret p accountIndex password =
     seq (ignoring (GetAccountInfo p accountIndex)) (\<lambda>_.
     seq (require (accountIndex \<le> 2)) (\<lambda>_.
     on_hw (read_secret p accountIndex password)))"

section \<open>New accounts\<close>

text \<open>The password of the derived entropy, the buffer before it is cut to the length asked for.\<close>

definition ENTROPY_MAX_LEN :: nat where "ENTROPY_MAX_LEN = 32"
definition ITERATION_TIME :: nat where "ITERATION_TIME = 700"

definition GenerateEntropy :: "'h platform \<Rightarrow> nat \<Rightarrow> bytes \<Rightarrow> ('h device, bytes) cmd" where
  "GenerateEntropy p len password =
     on_hw (
     seq (HashWithSalt p (password_bytes password) (cstr ''generate entropy'')) (\<lambda>inputBuffer.
     seq (SE_GetTRng p ENTROPY_MAX_LEN) (\<lambda>randomBuffer.
     let outputBuffer = hkdf p inputBuffer randomBuffer randomBuffer ITERATION_TIME in
     seq (SE_GetDS28S60Rng p ENTROPY_MAX_LEN) (\<lambda>randomBuffer.
     let outputBuffer = hkdf p outputBuffer randomBuffer outputBuffer ITERATION_TIME in
     seq (SE_GetAtecc608bRng p ENTROPY_MAX_LEN) (\<lambda>randomBuffer.
     let outputBuffer = hkdf p outputBuffer randomBuffer outputBuffer ITERATION_TIME in
     succeed (take len outputBuffer))))))"

definition GenerateTRNGRandomness :: "'h platform \<Rightarrow> nat \<Rightarrow> ('h device, bytes) cmd" where
  "GenerateTRNGRandomness p len = GenerateEntropy p len (cstr ''generate trng randomness'')"

definition SaveNewBip39Entropy :: "'h platform \<Rightarrow> nat \<Rightarrow> bytes \<Rightarrow> bytes \<Rightarrow> ('h device, unit) cmd" where
  "SaveNewBip39Entropy p accountIndex ent password =
     seq (require (accountIndex \<le> 2)) (\<lambda>_.
     seq (CheckPasswordExisted p password 255) (\<lambda>_.
     seq (lift_result (bip39_mnemonic_from_bytes (p_sha256 p) en_word_list ent)) (\<lambda>mnemonic.
     seq (lift_result (bip39_mnemonic_to_seed (p_pbkdf2_hmac_sha512 p) mnemonic [] 64)) (\<lambda>seed.
     seq (SaveAccountSecret p accountIndex
       (cleared_account_secret\<lparr>as_entropy := memcpy_s (replicate 32 0) 0 32 ent, as_entropyLen := of_nat (length ent),
          as_seed := seed\<rparr>) password True) (\<lambda>_.
     write_password_hash p accountIndex password)))))"

text \<open>\<open>ems\<close> and \<open>ent\<close> are the \<^verbatim>\<open>entropyLen\<close> bytes that the arguments point to.\<close>

definition SaveNewSlip39Entropy :: "'h platform \<Rightarrow> nat \<Rightarrow> bytes \<Rightarrow> bytes \<Rightarrow> bytes \<Rightarrow> ('h device, unit) cmd" where
  "SaveNewSlip39Entropy p accountIndex ems ent password =
     seq (require (accountIndex \<le> 2)) (\<lambda>_.
     seq (CheckPasswordExisted p password 255) (\<lambda>_.
     seq (SaveAccountSecret p accountIndex
       (cleared_account_secret\<lparr>as_entropy := memcpy_s (replicate 32 0) 0 32 ent, as_entropyLen := of_nat (length ent),
          as_seed := memcpy_s (replicate 64 0) 0 64 ent,
          as_slip39EmsOrTonEntropyL32 := memcpy_s (replicate 32 0) 0 32 ems\<rparr>) password True) (\<lambda>_.
     write_password_hash p accountIndex password)))"

text \<open>
  When the Rust library reports an error the loop ends with the last code, success: nothing is saved
  and the caller is told that it was.
\<close>

definition SaveNewTonMnemonic :: "'h platform \<Rightarrow> nat \<Rightarrow> bytes \<Rightarrow> bytes \<Rightarrow> ('h device, unit) cmd" where
  "SaveNewTonMnemonic p accountIndex mnemonic password =
     seq (require (accountIndex \<le> 2)) (\<lambda>_.
     seq (CheckPasswordExisted p password 255) (\<lambda>_.
     let ent = take 64 (p_ton_entropy p mnemonic);
         (error_code, seed) = p_ton_seed p ent
     in if error_code \<noteq> 0 then succeed ()
        else
          seq (SaveAccountSecret p accountIndex
            (cleared_account_secret\<lparr>as_entropy := take 32 ent, as_slip39EmsOrTonEntropyL32 := drop 32 ent, as_entropyLen := 32,
               as_seed := take 64 seed\<rparr>) password True) (\<lambda>_.
          write_password_hash p accountIndex password)))"

section \<open>Reading secrets\<close>

definition GetAccountEntropy :: "'h platform \<Rightarrow> nat \<Rightarrow> bytes \<Rightarrow> ('h device, bytes \<times> nat) cmd" where
  "GetAccountEntropy p accountIndex password =
     seq (require (accountIndex \<le> 2)) (\<lambda>_.
     seq (LoadAccountSecret p accountIndex password) (\<lambda>accountSecret.
     seq get_state (\<lambda>d.
     if GetMnemonicType d = MNEMONIC_TYPE_TON
     then succeed (as_entropy accountSecret @ as_slip39EmsOrTonEntropyL32 accountSecret, 64)
     else succeed (as_entropy accountSecret, unat (as_entropyLen accountSecret)))))"

definition GetAccountSlip39Ems :: "'h platform \<Rightarrow> nat \<Rightarrow> bytes \<Rightarrow> ('h device, bytes) cmd" where
  "GetAccountSlip39Ems p accountIndex password =
     seq (require (accountIndex \<le> 2)) (\<lambda>_.
     seq (LoadAccountSecret p accountIndex password) (\<lambda>accountSecret.
     succeed (as_slip39EmsOrTonEntropyL32 accountSecret)))"

text \<open>
  The bytes written to \<^verbatim>\<open>seed\<close>. For SLIP-39 the code of \<^verbatim>\<open>GetAccountSlip39Ems\<close> is not looked at: after
  an error the seed is derived from what the buffer held.
\<close>

definition GetPassphraseSeed :: "'h platform \<Rightarrow> nat \<Rightarrow> bytes \<Rightarrow> bytes \<Rightarrow> ('h device, bytes) cmd" where
  "GetPassphraseSeed p accountIndex passphrase password =
     seq (require (accountIndex \<le> 2)) (\<lambda>_.
     seq get_state (\<lambda>d.
     seq (require (GetMnemonicType d \<noteq> MNEMONIC_TYPE_TON)) (\<lambda>_.
     if GetMnemonicType d = MNEMONIC_TYPE_SLIP39
     then
       (\<lambda>d. case GetAccountSlip39Ems p accountIndex password d of
              None \<Rightarrow> None
            | Some (r, d) \<Rightarrow>
                let slip39Ems = (case r of Inl ret \<Rightarrow> p_uninit p 32 | Inr slip39Ems \<Rightarrow> slip39Ems)
                in lift_result (Slip39GetSeed (p_pbkdf2_slip39 p) (take (GetCurrentAccountEntropyLen d) slip39Ems) passphrase
                     (GetSlip39Ie d) (GetSlip39Eb d \<noteq> 0) (GetSlip39Id d)) d)
     else
       seq (GetAccountEntropy p accountIndex password) (\<lambda>(ent, entropyLen).
       seq (lift_result (bip39_mnemonic_from_bytes (p_sha256 p) en_word_list (take entropyLen ent))) (\<lambda>mnemonic.
       lift_result (bip39_mnemonic_to_seed (p_pbkdf2_hmac_sha512 p) mnemonic passphrase 64))))))"

definition GetAccountSeed :: "'h platform \<Rightarrow> nat \<Rightarrow> bytes \<Rightarrow> ('h device, bytes) cmd" where
  "GetAccountSeed p accountIndex password =
     seq (require (accountIndex \<le> 2)) (\<lambda>_.
     seq (LoadAccountSecret p accountIndex password) (\<lambda>accountSecret.
     seq (PassphraseExist accountIndex) (\<lambda>exist.
     seq get_state (\<lambda>d.
     if \<not> exist
     then succeed (take (if GetMnemonicType d = MNEMONIC_TYPE_SLIP39 then unat (as_entropyLen accountSecret) else 64)
            (as_seed accountSecret))
     else
       seq (GetPassphraseSeed p accountIndex (pp_passphrase (g_passphraseInfo d accountIndex)) password) (\<lambda>tempSeed.
       succeed (buf_write (p_uninit p 64) 0 tempSeed))))))"

section \<open>Changing the password\<close>

definition ChangePassword :: "'h platform \<Rightarrow> nat \<Rightarrow> bytes \<Rightarrow> bytes \<Rightarrow> ('h device, unit) cmd" where
  "ChangePassword p accountIndex newPassword password =
     seq (require (accountIndex \<le> 2)) (\<lambda>_.
     seq (CheckPasswordExisted p newPassword accountIndex) (\<lambda>_.
     seq (LoadAccountSecret p accountIndex password) (\<lambda>accountSecret.
     seq (SaveAccountSecret p accountIndex accountSecret newPassword False) (\<lambda>_.
     write_password_hash p accountIndex newPassword))))"

section \<open>TON mnemonics\<close>

text \<open>24 words from 48 bytes, eleven bits of each pair.\<close>

definition ton_word :: "bytes \<Rightarrow> nat \<Rightarrow> bytes" where
  "ton_word outputBuffer i =
     (let index = (push_bit 8 (ucast (outputBuffer ! (2 * i))) OR ucast (outputBuffer ! (2 * i + 1)) :: u32) AND 2047
      in case bip39_get_word en_word_list (unat index) of Inl ret \<Rightarrow> [] | Inr word \<Rightarrow> word)"

definition ton_phrase :: "bytes \<Rightarrow> bytes" where
  "ton_phrase outputBuffer =
     foldl (\<lambda>temp_mnemonic i. temp_mnemonic @ (if i \<noteq> 0 then [32] else []) @ ton_word outputBuffer i) [] [0..<24]"

text \<open>The search for a valid mnemonic, which may not end.\<close>

partial_function (option) ton_search :: "'h platform \<Rightarrow> bytes \<Rightarrow> bytes option" where
  "ton_search p outputBuffer =
     (if p_ton_verify p (ton_phrase outputBuffer) then Some (ton_phrase outputBuffer)
      else ton_search p (p_sha512 p outputBuffer))"

text \<open>
  The bytes the search starts from, with the code of the chips: after an error of a chip it starts from what
  \<^verbatim>\<open>outputBuffer\<close> holds at that moment.
\<close>

definition ton_randomness :: "'h platform \<Rightarrow> bytes \<Rightarrow> ('h, int \<times> bytes) cmd" where
  "ton_randomness p password =
     seq (HashWithSalt512 p (password_bytes password) (cstr ''generate entropy'')) (\<lambda>inputBuffer.
     seq (SE_GetTRng p 64) (\<lambda>randomBuffer.
     let outputBuffer = hkdf64 p inputBuffer randomBuffer randomBuffer ITERATION_TIME in
     (\<lambda>h. case SE_GetDS28S60Rng p 64 h of
            None \<Rightarrow> None
          | Some (Inl ret, h) \<Rightarrow> Some (Inr (ret, outputBuffer), h)
          | Some (Inr randomBuffer, h) \<Rightarrow>
              let outputBuffer = hkdf64 p outputBuffer randomBuffer outputBuffer ITERATION_TIME
              in case SE_GetAtecc608bRng p 64 h of
                   None \<Rightarrow> None
                 | Some (Inl ret, h) \<Rightarrow> Some (Inr (ret, outputBuffer), h)
                 | Some (Inr randomBuffer, h) \<Rightarrow>
                     Some (Inr (0, hkdf64 p outputBuffer randomBuffer outputBuffer ITERATION_TIME), h))))"

text \<open>The code and the mnemonic; \<open>None\<close> when the search does not end.\<close>

definition GenerateTonMnemonic :: "'h platform \<Rightarrow> bytes \<Rightarrow> ('h device, int \<times> bytes) cmd" where
  "GenerateTonMnemonic p password =
     seq (on_hw (ton_randomness p password)) (\<lambda>(ret, outputBuffer) d.
       case ton_search p outputBuffer of
         None \<Rightarrow> None
       | Some temp_mnemonic \<Rightarrow> Some (Inr (ret, strcpy_s MNEMONIC_MAX_LEN temp_mnemonic), d))"

section \<open>Pages are read back\<close>

lemma write_pages_success:
  assumes "platform_ok p" and "write_pages p i pages h = Some (Inr u, h')" and "distinct (map fst pages)"
    and "\<forall>(k, d)\<in>set pages. k < 12 \<and> length d = 32"
  shows "frame p (account_page i ` fst ` set pages) {} h h' \<and> (\<forall>(k, d)\<in>set pages. p_read p (account_page i k) h' = (0, d))"
  using assms(2-4)
proof (induction pages arbitrary: h)
  case (Cons a pages)
  obtain k d where a: "a = (k, d)" by (cases a)
  from Cons.prems(1) obtain h1 where w: "SE_HmacEncryptWrite p d (account_page i k) h = Some (Inr (), h1)"
    and rest: "write_pages p i pages h1 = Some (Inr u, h')" by (auto simp: a seq_success)
  note IH = Cons.IH [OF rest]
  have later: "frame p (account_page i ` fst ` set pages) {} h1 h'" using IH Cons.prems by simp
  have here: "frame p {account_page i k} {} h h1" by (rule stepsD [OF SE_frames(1) [OF assms(1)] w]) simp
  have "p_read p (account_page i k) h1 = (0, d)"
    using SE_HmacEncryptWrite_success [OF assms(1) w] Cons.prems(3) by (simp add: a)
  moreover have "account_page i k \<notin> account_page i ` fst ` set pages"
    using Cons.prems(2,3) by (auto simp: a account_page_inj image_iff split: prod.splits)
  ultimately have "p_read p (account_page i k) h' = (0, d)" using frame_read [OF later] by simp
  moreover have "frame p (account_page i ` fst ` set (a # pages)) {} h h'" using frame_trans [OF here later] by (simp add: a)
  ultimately show ?case using IH Cons.prems by (auto simp: a)
qed (simp add: succeed_def)

lemma read_pages_result:
  "\<forall>k\<in>set ks. p_read p (account_page i k) h = (0, f k) \<Longrightarrow> read_pages p i ks h = Some (Inr (map f ks), h)"
  by (induction ks) (simp_all add: succeed_def seq_def SE_HmacEncryptRead_def)

lemma steps_read_pages: "platform_ok p \<Longrightarrow> steps (frame p P A) (read_pages p i ks)"
  by (induction ks) (auto intro!: chips.steps_rules SE_frames)

definition inner_key :: "'h platform \<Rightarrow> 'h \<Rightarrow> bytes" where
  "inner_key p h = p_otp_read p OTP_ADDR_AES_KEY h"

lemma seq_CombineInnerAesKey:
  "provisioned p h \<Longrightarrow> seq (CombineInnerAesKey p key) f h = f (xorb key (inner_key p h)) h"
  by (simp add: CombineInnerAesKey_def otp_secret_def provisioned_def inner_key_def seq_def succeed_def)

lemma inner_key_frame: "frame p P A h h' \<Longrightarrow> inner_key p h' = inner_key p h"
  by (simp add: inner_key_def frame_otp)

lemma seq_sha512_of_pieces:
  "provisioned p h \<Longrightarrow>
   seq (sha512_of_pieces p pieces) f h = f (p_sha512 p (salted p pieces (cstr ''combine two pieces'') h)) h"
  by (simp add: sha512_of_pieces_def seq_def [of "seq _ _"] seq_HashWithSalt succeed_def)

section \<open>A saved secret is loaded\<close>

definition secret_pages :: "nat \<Rightarrow> nat set" where
  "secret_pages i = account_page i ` {..PAGE_INDEX_KEY_PIECE}"

lemma secret_pages_member: "k \<le> 7 \<Longrightarrow> account_page i k \<in> secret_pages i"
  by (simp add: secret_pages_def PAGE_INDEX_KEY_PIECE_def)

text \<open>What the param page says of the length of the entropy.\<close>

definition stored_entropyLen :: "bytes \<Rightarrow> u8" where
  "stored_entropyLen param =
     (let storedLen = ai_entropyLen (bytes_account_info param) in if storedLen = 0 then 32 else storedLen)"

definition readable :: "'h platform \<Rightarrow> nat \<Rightarrow> bytes \<Rightarrow> account_secret \<Rightarrow> 'h \<Rightarrow> bool" where
  "readable p i password accountSecret h \<longleftrightarrow>
     (\<forall>P A h' param. frame p P A h h' \<longrightarrow> P \<inter> secret_pages i = {} \<longrightarrow> i \<notin> A \<longrightarrow>
        p_read p (account_page i PAGE_INDEX_PARAM) h' = (0, param) \<longrightarrow>
        read_secret p i password h' = Some (Inr (accountSecret\<lparr>as_entropyLen := stored_entropyLen param\<rparr>), h'))"

lemma readable_frame:
  assumes "readable p i password a h" and "frame p P A h h'" and "P \<inter> secret_pages i = {}" and "i \<notin> A"
  shows "readable p i password a h'"
  unfolding readable_def
proof (intro allI impI)
  fix Q B h'' param
  assume *: "frame p Q B h' h''" "Q \<inter> secret_pages i = {}" "i \<notin> B" "p_read p (account_page i PAGE_INDEX_PARAM) h'' = (0, param)"
  have "frame p (P \<union> Q) (A \<union> B) h h''" by (rule frame_trans [OF assms(2) *(1)])
  then show "read_secret p i password h'' = Some (Inr (a\<lparr>as_entropyLen := stored_entropyLen param\<rparr>), h'')"
    using assms *(2-4) unfolding readable_def by (metis (no_types, lifting) Int_Un_distrib2 Un_empty_right Un_iff)
qed

lemma length_secret_data: "wf_account_secret a \<Longrightarrow> length (secret_data a) = 160"
  by (simp add: wf_account_secret_def secret_data_def)

lemma take_drop_append: "take n (drop m xs) @ drop (m + n) xs = drop m xs"
  by (metis add.commute append_take_drop_id drop_drop)

lemma five_pages:
  "length e = 160 \<Longrightarrow> take 32 e @ take 32 (drop 32 e) @ take 32 (drop 64 e) @ take 32 (drop 96 e) @ take 32 (drop 128 e) = e"
  using take_drop_append [of 32 96 e] take_drop_append [of 32 64 e] take_drop_append [of 32 32 e] take_drop_append [of 32 0 e]
  by simp

lemma secret_data_fields:
  assumes "wf_account_secret a"
  shows "\<lparr>as_entropy = take 32 (secret_data a), as_seed = take 64 (drop 32 (secret_data a)),
    as_slip39EmsOrTonEntropyL32 = take 32 (drop 96 (secret_data a)), as_reservedData = take 32 (drop 128 (secret_data a)),
    as_entropyLen = n\<rparr> = a\<lparr>as_entropyLen := n\<rparr>"
  using assms by (intro account_secret.equality) (simp_all add: wf_account_secret_def secret_data_def)

lemma write_secret_success:
  assumes ok: "platform_ok p" "provisioned p h" and wf: "wf_account_secret a"
    and run: "write_secret p i a password h = Some (Inr u, h')"
  shows "frame p (secret_pages i) {i} h h'" and "readable p i password a h'"
proof -
  obtain pieces h1 where pieces: "SetNewKeyPieceToSE p i password h = Some (Inr pieces, h1)"
    using run by (auto simp: write_secret_def seq_success [of "SetNewKeyPieceToSE _ _ _"])
  note kp = SetNewKeyPieceToSE_success [OF ok pieces]
  have prov1: "provisioned p h1" using ok(2) provisioned_frame [OF kp(3)] by simp
  define key where "key = p_sha512 p (salted p pieces (cstr ''combine two pieces'') h1)"
  obtain iv h2 where iv: "TrngGet p 32 h1 = Some (Inr iv, h2)"
    using run by (auto simp: write_secret_def seq_result(1) [of "SetNewKeyPieceToSE p i password", OF pieces] seq_sha512_of_pieces [OF prov1]
        seq_success [of "TrngGet _ _"])
  have f12: "frame p {} {} h1 h2" by (rule stepsD [OF SE_frames(6) [OF ok(1)] iv])
  have iv32: "length iv = 32" using iv random_laws(2) [OF ok(1), of 32 h1] by (auto simp: TrngGet_def case_prod_beta)
  have prov2: "provisioned p h2" using prov1 provisioned_frame [OF f12] by simp
  define e where "e = p_cbc_encrypt p (xorb (take 32 key) (inner_key p h2)) (take 16 iv) (secret_data a)"
  have decrypted: "p_cbc_decrypt p (xorb (take 32 key) (inner_key p h2)) (take 16 iv) e = secret_data a"
    using crypto_laws(5) [OF ok(1), of "secret_data a"] length_secret_data [OF wf] by (simp add: e_def)
  define mac where "mac = p_hmac_sha256 p (drop 32 key) (iv @ e)"
  have e160: "length e = 160" using crypto_laws(4) [OF ok(1), of "secret_data a"] length_secret_data [OF wf] by (simp add: e_def)
  define pages where "pages = [(PAGE_INDEX_IV, iv), (PAGE_INDEX_ENTROPY, take 32 e), (PAGE_INDEX_SEED_H32, take 32 (drop 32 e)),
           (PAGE_INDEX_SEED_L32, take 32 (drop 64 e)), (PAGE_INDEX_SLIP39_EMS, take 32 (drop 96 e)),
           (PAGE_INDEX_RESERVED, take 32 (drop 128 e)), (PAGE_INDEX_HMAC, mac)]"
  note idx = PAGE_INDEX_IV_def PAGE_INDEX_ENTROPY_def PAGE_INDEX_SEED_H32_def PAGE_INDEX_SEED_L32_def
    PAGE_INDEX_SLIP39_EMS_def PAGE_INDEX_RESERVED_def PAGE_INDEX_HMAC_def PAGE_INDEX_PARAM_def
  have w: "write_pages p i pages h2 = Some (Inr u, h')"
    using run by (simp add: write_secret_def seq_result(1) [of "SetNewKeyPieceToSE p i password", OF pieces] seq_sha512_of_pieces [OF prov1] seq_result(1) [of "TrngGet p 32", OF iv]
        seq_CombineInnerAesKey [OF prov2] Let_def AES_KEY_LEN_def key_def e_def mac_def pages_def)
  have "distinct (map fst pages)" "\<forall>(k, d)\<in>set pages. k < 12 \<and> length d = 32"
    using e160 iv32 crypto_laws(3) [OF ok(1)] by (simp_all add: pages_def idx mac_def)
  note wp = write_pages_success [OF ok(1) w this]
  have keys: "account_page i ` fst ` set pages = account_page i ` {..6}" proof -
    have "fst ` set pages = {..6}" by (auto simp: pages_def idx)
    then show ?thesis by simp
  qed
  show "frame p (secret_pages i) {i} h h'"
    using frame_trans [OF frame_trans [OF kp(3) f12], of "account_page i ` {..6}" "{}" h'] wp keys
    by (auto elim!: frame_mono simp: secret_pages_def PAGE_INDEX_KEY_PIECE_def)
  show "readable p i password a h'"
    unfolding readable_def
  proof (intro allI impI)
    fix P A h'' param
    assume later: "frame p P A h' h''" and out: "P \<inter> secret_pages i = {}" "i \<notin> A"
      and param: "p_read p (account_page i PAGE_INDEX_PARAM) h'' = (0, param)"
    have f1: "frame p (account_page i ` {..6} \<union> P) A h1 h''"
      using frame_trans [OF frame_trans [OF f12, of "account_page i ` {..6}" "{}" h'] later] wp keys by simp
    have f2: "frame p (account_page i ` {..6} \<union> P) A h2 h''"
      using frame_trans [OF _ later, of "account_page i ` {..6}" "{}" h2] wp keys by simp
    have prov: "provisioned p h''" using prov1 provisioned_frame [OF f1] by simp
    have "account_page i PAGE_INDEX_KEY_PIECE \<notin> account_page i ` {..6} \<union> P"
      using out secret_pages_member [of 7 i] by (auto simp: account_page_inj PAGE_INDEX_KEY_PIECE_def)
    then have "GetKeyPieceFromSE p i (p_uninit p 64) password h'' = Some (Inr (0, pieces), h'')"
      using key_piece_round_trip [OF ok pieces f1] out(2) ok(1) by (simp add: platform_ok_def)
    moreover have "read_pages p i (map fst pages @ [PAGE_INDEX_PARAM]) h''
      = Some (Inr (map (\<lambda>k. if k = PAGE_INDEX_PARAM then param else the (map_of pages k)) (map fst pages @ [PAGE_INDEX_PARAM])), h'')"
    proof (rule read_pages_result)
      have "p_read p (account_page i k) h'' = (0, d)" if "(k, d) \<in> set pages" for k d
      proof -
        have "k \<le> 7" using that by (auto simp: pages_def idx)
        then have "account_page i k \<notin> P" using out(1) secret_pages_member by blast
        then show ?thesis using that wp frame_read [OF later] by fastforce
      qed
      then show "\<forall>k\<in>set (map fst pages @ [PAGE_INDEX_PARAM]). p_read p (account_page i k) h''
          = (0, if k = PAGE_INDEX_PARAM then param else the (map_of pages k))"
        using param by (simp add: pages_def idx)
    qed
    then have "read_pages p i [PAGE_INDEX_IV, PAGE_INDEX_ENTROPY, PAGE_INDEX_SEED_H32, PAGE_INDEX_SEED_L32, PAGE_INDEX_SLIP39_EMS,
        PAGE_INDEX_RESERVED, PAGE_INDEX_HMAC, PAGE_INDEX_PARAM] h''
      = Some (Inr [iv, take 32 e, take 32 (drop 32 e), take 32 (drop 64 e), take 32 (drop 96 e), take 32 (drop 128 e), mac, param], h'')"
      by (simp add: pages_def idx del: read_pages.simps)
    ultimately show "read_secret p i password h'' = Some (Inr (a\<lparr>as_entropyLen := stored_entropyLen param\<rparr>), h'')"
      using prov five_pages [OF e160] decrypted length_secret_data [OF wf] secret_data_fields [OF wf] salted_frame [OF f1] inner_key_frame [OF f2]
      by (simp add: read_secret_def seq_result(1) [of "GetKeyPieceFromSE p i (p_uninit p 64) password"]
          seq_result(1) [of "read_pages p i _"] seq_sha512_of_pieces seq_CombineInnerAesKey Let_def AES_KEY_LEN_def
          key_def [symmetric] mac_def [symmetric] stored_entropyLen_def cmd_eval seq_def [of "succeed _"]
          del: read_pages.simps)
  qed
qed

section \<open>Reading leaves the device as it is\<close>

text \<open>On a provisioned device a command that only hashes and reads does not change the state.\<close>

definition unread :: "'h platform \<Rightarrow> 'h \<Rightarrow> 'h \<Rightarrow> bool" where
  "unread p h h' \<longleftrightarrow> (provisioned p h \<longrightarrow> h' = h)"

interpretation reading: command_frame "unread p" for p
  by unfold_locales (auto simp: unread_def)

lemma reading_prims:
  "steps (unread p) (HashWithSalt p inData saltString)"
  "steps (unread p) (SE_HmacEncryptRead p page)"
  "steps (unread p) (SE_Kdf p slot authKey inData)"
  "steps (unread p) (CombineInnerAesKey p key)"
  by (rule stepsI; auto simp: unread_def HashWithSalt_provisioned SE_HmacEncryptRead_def SE_Kdf_def case_prod_beta
      CombineInnerAesKey_def otp_secret_def provisioned_def seq_def succeed_def)+

lemma reading_pages: "steps (unread p) (read_pages p i ks)"
  by (induction ks) (auto intro!: reading.steps_rules reading_prims)

lemma reading_pieces: "steps (unread p) (GetKeyPieceFromSE p i pieces password)"
proof -
  have a: "steps (unread p) (GetKeyPieceFromAtecc608b p i password)"
    unfolding GetKeyPieceFromAtecc608b_def kdf_piece_def by (intro reading.steps_rules reading_prims)
  have b: "steps (unread p) (GetKeyPieceFromDs28s60 p i password)"
    unfolding GetKeyPieceFromDs28s60_def by (intro reading.steps_rules reading_prims)
  show ?thesis
    by (rule stepsI)
      (auto simp: GetKeyPieceFromSE_def Let_def unread_def split: option.splits sum.splits dest!: stepsD [OF a] stepsD [OF b])
qed

lemma reading_secret: "steps (unread p) (read_secret p i password)"
  unfolding read_secret_def sha512_of_pieces_def case_prod_beta
  by (intro reading.steps_rules reading_prims reading_pages reading_pieces)

lemma reading_passwords: "steps (unread p) (verify_accounts p password accounts)"
  by (induction accounts) (auto intro!: reading.steps_rules reading_prims)

lemma VerifyPassword_state: "provisioned p (hw d) \<Longrightarrow> VerifyPassword p password d = Some (r, d') \<Longrightarrow> d' = d"
  by (auto simp: VerifyPassword_def on_hw_success unread_def dest!: stepsD [OF reading_passwords]
      simp del: verify_accounts.simps)

lemma CheckPasswordExisted_state: "provisioned p (hw d) \<Longrightarrow> CheckPasswordExisted p password x d = Some (r, d') \<Longrightarrow> d' = d"
  by (auto simp: CheckPasswordExisted_def split: option.splits sum.splits dest: VerifyPassword_state)

lemma GetAccountInfo_ignored: "i \<le> 2 \<Longrightarrow> ignoring (GetAccountInfo p i) d = Some (Inr (), d)"
  by (simp add: ignoring_result GetAccountInfo_def cmd_eval seq_def on_hw_def SE_HmacEncryptRead_def case_prod_beta outcome_def)

lemma LoadAccountSecret_eq: "i \<le> 2 \<Longrightarrow> LoadAccountSecret p i password d = on_hw (read_secret p i password) d"
  by (simp add: LoadAccountSecret_def seq_def [of "ignoring _"] GetAccountInfo_ignored seq_def [of "require _"] cmd_eval)

lemma LoadAccountSecret_index: "LoadAccountSecret p i password d = Some (Inr a, d') \<Longrightarrow> i \<le> 2"
  by (auto simp: LoadAccountSecret_def seq_success require_success)

lemma LoadAccountSecret_state:
  "provisioned p (hw d) \<Longrightarrow> LoadAccountSecret p i password d = Some (Inr a, d') \<Longrightarrow> d' = d"
  by (frule LoadAccountSecret_index) (auto simp: LoadAccountSecret_eq on_hw_success unread_def dest!: stepsD [OF reading_secret])

lemma readable_load:
  assumes "readable p i password a (hw d)" and "i \<le> 2" and "p_read p (account_page i PAGE_INDEX_PARAM) (hw d) = (0, param)"
  shows "LoadAccountSecret p i password d = Some (Inr (a\<lparr>as_entropyLen := stored_entropyLen param\<rparr>), d)"
proof -
  have "read_secret p i password (hw d) = Some (Inr (a\<lparr>as_entropyLen := stored_entropyLen param\<rparr>), hw d)"
    using assms(1,3) unfolding readable_def by (metis Int_empty_left empty_iff frame_refl)
  then show ?thesis by (simp add: LoadAccountSecret_eq [OF assms(2)] on_hw_def)
qed

section \<open>The authentication code decides\<close>

definition stored_pages :: "'h platform \<Rightarrow> nat \<Rightarrow> nat list \<Rightarrow> 'h \<Rightarrow> bytes" where
  "stored_pages p i ks h = concat (map (\<lambda>k. snd (p_read p (account_page i k) h)) ks)"

text \<open>The authentication key that the password leads to.\<close>

definition auth_key :: "'h platform \<Rightarrow> nat \<Rightarrow> bytes \<Rightarrow> 'h \<Rightarrow> bytes" where
  "auth_key p i password h =
     (case GetKeyPieceFromSE p i (p_uninit p 64) password h of
        Some (Inr (ret, pieces), h) \<Rightarrow> drop 32 (p_sha512 p (salted p pieces (cstr ''combine two pieces'') h))
      | _ \<Rightarrow> [])"

lemma GetKeyPieceFromSE_result:
  assumes "provisioned p h" and "i \<le> 2"
  obtains ret pieces where "GetKeyPieceFromSE p i buf password h = Some (Inr (ret, pieces), h)"
proof -
  obtain r h' where "GetKeyPieceFromSE p i buf password h = Some (r, h')"
  proof (cases "GetKeyPieceFromSE p i buf password h")
    case None
    then show ?thesis using assms
      by (auto simp: GetKeyPieceFromSE_def GetKeyPieceFromAtecc608b_def GetKeyPieceFromDs28s60_def kdf_piece_def seq_def cmd_eval
          HashWithSalt_provisioned SE_Kdf_def SE_HmacEncryptRead_def outcome_def case_prod_beta Let_def
          split: option.splits sum.splits if_splits)
  qed auto
  moreover from this have "h' = h" using stepsD [OF reading_pieces] assms(1) by (fastforce simp: unread_def)
  moreover from calculation have "\<exists>x. r = Inr x"
    by (auto simp: GetKeyPieceFromSE_def Let_def split: option.splits sum.splits)
  ultimately show ?thesis using that by auto
qed

text \<open>
  C6: When the pages can be read, a secret is loaded if and only if the stored authentication code is
  the one that the password's key gives for the stored initialisation vector and ciphertext; otherwise
  the code is \<^verbatim>\<open>ERR_KEYSTORE_AUTH\<close>. The device does not change.
\<close>

theorem LoadAccountSecret_authenticated:
  assumes "provisioned p (hw d)" and "i \<le> 2" and "\<forall>k\<in>{0, 1, 2, 3, 4, 5, 6, 9}. fst (p_read p (account_page i k) (hw d)) = 0"
  shows "\<exists>a. LoadAccountSecret p i password d =
    Some (if p_hmac_sha256 p (auth_key p i password (hw d)) (stored_pages p i [0, 1, 2, 3, 4, 5] (hw d)) = stored_pages p i [6] (hw d)
          then Inr a else Inl ERR_KEYSTORE_AUTH, d)"
proof -
  obtain ret pieces where gp: "GetKeyPieceFromSE p i (p_uninit p 64) password (hw d) = Some (Inr (ret, pieces), hw d)"
    using GetKeyPieceFromSE_result [OF assms(1,2)] by blast
  have rp: "read_pages p i [0, Suc 0, 2, 3, 4, 5, 6, 9] (hw d)
    = Some (Inr (map (\<lambda>k. snd (p_read p (account_page i k) (hw d))) [0, Suc 0, 2, 3, 4, 5, 6, 9]), hw d)"
    using assms(3) by (intro read_pages_result) (auto simp: prod_eq_iff)
  note idx = PAGE_INDEX_IV_def PAGE_INDEX_ENTROPY_def PAGE_INDEX_SEED_H32_def PAGE_INDEX_SEED_L32_def
    PAGE_INDEX_SLIP39_EMS_def PAGE_INDEX_RESERVED_def PAGE_INDEX_HMAC_def PAGE_INDEX_PARAM_def
  show ?thesis
    by (simp add: LoadAccountSecret_eq [OF assms(2)] on_hw_def read_secret_def
        seq_result(1) [of "GetKeyPieceFromSE p i (p_uninit p 64) password", OF gp] seq_sha512_of_pieces [OF assms(1)] idx
        seq_result(1) [of "read_pages p i [0, Suc 0, 2, 3, 4, 5, 6, 9]", OF rp] auth_key_def gp stored_pages_def Let_def AES_KEY_LEN_def seq_CombineInnerAesKey [OF assms(1)]
        seq_def [of "succeed _"] seq_def [of "fail_with _"] cmd_eval del: read_pages.simps)
qed

end
