(* ===== verification/KeystoreProps.thy ===== *)
theory KeystoreProps
  imports Keystore
begin

text \<open>
  Laws of the key store: which password opens which account, what saving a secret changes, also when
  it fails, and that changing the password keeps the secret.
\<close>

section \<open>Which password opens which account\<close>

definition stored_hash :: "'h platform \<Rightarrow> nat \<Rightarrow> 'h \<Rightarrow> bytes" where
  "stored_hash p i h = snd (p_read p (account_page i PAGE_INDEX_PASSWORD_HASH) h)"

definition password_digest :: "'h platform \<Rightarrow> bytes \<Rightarrow> 'h \<Rightarrow> bytes" where
  "password_digest p password h = salted p (password_bytes password) (cstr ''password hash'') h"

text \<open>Account \<open>i\<close> can be read and its password is another one.\<close>

definition refuses :: "'h platform \<Rightarrow> bytes \<Rightarrow> 'h \<Rightarrow> nat \<Rightarrow> bool" where
  "refuses p password h i \<longleftrightarrow>
     fst (p_read p (account_page i PAGE_INDEX_PASSWORD_HASH) h) = 0 \<and> stored_hash p i h \<noteq> password_digest p password h"

definition accepts :: "'h platform \<Rightarrow> bytes \<Rightarrow> 'h \<Rightarrow> nat \<Rightarrow> bool" where
  "accepts p password h i \<longleftrightarrow>
     fst (p_read p (account_page i PAGE_INDEX_PASSWORD_HASH) h) = 0 \<and> stored_hash p i h = password_digest p password h"

lemma verify_accounts_step:
  assumes "provisioned p h"
  shows "verify_accounts p password (i # accounts) h =
    (if refuses p password h i then verify_accounts p password accounts h
     else if accepts p password h i then Some (Inr i, h)
     else Some (Inl (fst (p_read p (account_page i PAGE_INDEX_PASSWORD_HASH) h)), h))"
  using assms
  by (auto simp: refuses_def accepts_def stored_hash_def password_digest_def SE_HmacEncryptRead_def seq_def [of "SE_HmacEncryptRead _ _"]
      seq_HashWithSalt outcome_def case_prod_beta cmd_eval)

lemma verify_accounts_found:
  "provisioned p h \<Longrightarrow> \<forall>j\<in>set xs. refuses p password h j \<Longrightarrow> accepts p password h i \<Longrightarrow>
   verify_accounts p password (xs @ i # ys) h = Some (Inr i, h)"
  by (induction xs) (auto simp: verify_accounts_step refuses_def accepts_def simp del: verify_accounts.simps(2))

lemma verify_accounts_none:
  "provisioned p h \<Longrightarrow> \<forall>j\<in>set xs. refuses p password h j \<Longrightarrow>
   verify_accounts p password xs h = Some (Inl ERR_KEYSTORE_PASSWORD_ERR, h)"
  by (induction xs) (auto simp: verify_accounts_step cmd_eval simp del: verify_accounts.simps(2))

lemma verify_accounts_cases:
  assumes "platform_ok p" and "provisioned p h" and "verify_accounts p password xs h = Some (r, h')"
  shows "(r = Inl ERR_KEYSTORE_PASSWORD_ERR \<longrightarrow> (\<forall>j\<in>set xs. refuses p password h j)) \<and>
    (\<forall>i. r = Inr i \<longrightarrow> (\<exists>ys zs. xs = ys @ i # zs \<and> (\<forall>j\<in>set ys. refuses p password h j) \<and> accepts p password h i))"
  using assms(3)
proof (induction xs)
  case (Cons i xs)
  consider "refuses p password h i" | "\<not> refuses p password h i" "accepts p password h i"
    | "\<not> refuses p password h i" "\<not> accepts p password h i" by blast
  then show ?case
  proof cases
    case 1
    then have IH: "(r = Inl ERR_KEYSTORE_PASSWORD_ERR \<longrightarrow> (\<forall>j\<in>set xs. refuses p password h j)) \<and>
      (\<forall>i. r = Inr i \<longrightarrow> (\<exists>ys zs. xs = ys @ i # zs \<and> (\<forall>j\<in>set ys. refuses p password h j) \<and> accepts p password h i))"
      using Cons by (simp add: verify_accounts_step [OF assms(2)] del: verify_accounts.simps(2))
    show ?thesis
    proof (intro conjI impI allI)
      fix j assume "r = Inr j"
      with IH obtain ys zs where "xs = ys @ j # zs" "\<forall>j\<in>set ys. refuses p password h j" "accepts p password h j" by blast
      with 1 show "\<exists>ys zs. i # xs = ys @ j # zs \<and> (\<forall>j\<in>set ys. refuses p password h j) \<and> accepts p password h j"
        by (intro exI [of _ "i # ys"] exI [of _ zs]) simp
    qed (use IH 1 in auto)
  next
    case 2
    then have "r = Inr i"
      using Cons.prems by (simp add: verify_accounts_step [OF assms(2)] del: verify_accounts.simps(2))
    with 2 show ?thesis by fastforce
  next
    case 3
    then have "r = Inl (fst (p_read p (account_page i PAGE_INDEX_PASSWORD_HASH) h))"
      using Cons.prems by (auto simp: verify_accounts_step [OF assms(2)] simp del: verify_accounts.simps(2))
    with page_laws(4) [OF assms(1)] show ?thesis by (simp add: ERR_KEYSTORE_PASSWORD_ERR_def)
  qed
qed (auto simp: cmd_eval)

lemma three_accounts: "i \<le> 2 \<Longrightarrow> [0, 1, 2] = [0..<i] @ i # [Suc i..<3]"
  by (cases "i = 0"; cases "i = 1") (simp_all add: upt_rec numeral_eq_Suc)

lemma VerifyPassword_first:
  assumes "provisioned p (hw d)" and "i \<le> 2" and "\<forall>j<i. refuses p password (hw d) j" and "accepts p password (hw d) i"
  shows "VerifyPassword p password d = Some (Inr i, d)"
  using verify_accounts_found [OF assms(1), of "[0..<i]" password i "[Suc i..<3]"] assms(3,4)
  by (simp only: VerifyPassword_def three_accounts [OF assms(2)]) (simp add: on_hw_def)

text \<open>
  When the password pages can be read, \<^verbatim>\<open>VerifyPassword\<close> returns the first account whose stored
  hash is the salted hash of the password, or \<^verbatim>\<open>ERR_KEYSTORE_PASSWORD_ERR\<close>, and changes nothing.
\<close>

theorem VerifyPassword_finds:
  assumes "provisioned p (hw d)" and "\<forall>i\<in>{0, 1, 2}. fst (p_read p (account_page i PAGE_INDEX_PASSWORD_HASH) (hw d)) = 0"
  shows "VerifyPassword p password d =
    Some (case find (\<lambda>i. stored_hash p i (hw d) = password_digest p password (hw d)) [0, 1, 2] of
            None \<Rightarrow> Inl ERR_KEYSTORE_PASSWORD_ERR | Some i \<Rightarrow> Inr i, d)"
  using assms by (simp add: VerifyPassword_def on_hw_def verify_accounts_step refuses_def accepts_def cmd_eval
      del: verify_accounts.simps(2))

lemma CheckPasswordExisted_success:
  assumes ok: "platform_ok p" "provisioned p (hw d)" and run: "CheckPasswordExisted p password x d = Some (Inr u, d')"
  shows "d' = d" and "(\<forall>j\<le>2. refuses p password (hw d) j) \<or> (x \<le> 2 \<and> (\<forall>j<x. refuses p password (hw d) j))"
proof -
  show "d' = d" by (rule CheckPasswordExisted_state [OF ok(2) run])
  obtain r d1 where V: "VerifyPassword p password d = Some (r, d1)"
    and r: "r = Inl ERR_KEYSTORE_PASSWORD_ERR \<or> r = Inr x"
    using run by (auto simp: CheckPasswordExisted_def split: option.splits sum.splits if_splits)
  have "hw d1 = hw d" using VerifyPassword_state [OF ok(2) V] by simp
  then have v: "verify_accounts p password [0, 1, 2] (hw d) = Some (r, hw d)"
    using V by (auto simp: VerifyPassword_def on_hw_success simp del: verify_accounts.simps)
  note c = verify_accounts_cases [OF ok v]
  from r show "(\<forall>j\<le>2. refuses p password (hw d) j) \<or> (x \<le> 2 \<and> (\<forall>j<x. refuses p password (hw d) j))"
  proof
    assume "r = Inl ERR_KEYSTORE_PASSWORD_ERR"
    then have "refuses p password (hw d) 0" "refuses p password (hw d) 1" "refuses p password (hw d) 2" using c by simp_all
    moreover have "j = 0 \<or> j = 1 \<or> j = 2" if "j \<le> 2" for j :: nat using that by arith
    ultimately show ?thesis by blast
  next
    assume "r = Inr x"
    then obtain ys zs where s: "[0, 1, 2] = ys @ x # zs" "\<forall>j\<in>set ys. refuses p password (hw d) j" using c by blast
    then have x: "x = [0, 1, 2] ! length ys" "length ys < 3"
      by (metis nth_append_length, metis length_append length_Cons list.size(3) add_Suc_right less_add_Suc1 numeral_3_eq_3)
    then have lx: "x = length ys" by (cases "length ys = 0"; cases "length ys = 1") (auto simp: numeral_eq_Suc less_Suc_eq)
    moreover have "j \<in> set ys" if "j < x" for j
    proof -
      have "[0, 1, 2] ! j = ys ! j" using s(1) that lx by (metis nth_append)
      moreover have "[0, 1, 2] ! j = j" using that x(2) lx by (cases "j = 0"; cases "j = 1") (auto simp: numeral_eq_Suc less_Suc_eq)
      ultimately show ?thesis using that lx by (metis nth_mem)
    qed
    ultimately show ?thesis using s(2) x(2) by auto
  qed
qed

lemma refuses_frame:
  "frame p P A h h' \<Longrightarrow> account_page i PAGE_INDEX_PASSWORD_HASH \<notin> P \<Longrightarrow> refuses p password h' i = refuses p password h i"
  by (simp add: refuses_def stored_hash_def password_digest_def frame_read salted_frame)

lemma write_password_hash_success:
  assumes ok: "platform_ok p" "provisioned p (hw d)" and run: "write_password_hash p i password d = Some (Inr u, d')"
  shows "frame p {account_page i PAGE_INDEX_PASSWORD_HASH} {} (hw d) (hw d')" and "accepts p password (hw d') i"
    and "d' = d\<lparr>hw := hw d'\<rparr>"
proof -
  have w: "SE_HmacEncryptWrite p (password_digest p password (hw d)) (account_page i PAGE_INDEX_PASSWORD_HASH) (hw d) = Some (Inr u, hw d')"
    and d': "d' = d\<lparr>hw := hw d'\<rparr>"
    using run by (auto simp: write_password_hash_def on_hw_success seq_HashWithSalt [OF ok(2)] password_digest_def)
  show f: "frame p {account_page i PAGE_INDEX_PASSWORD_HASH} {} (hw d) (hw d')"
    by (rule stepsD [OF SE_frames(1) [OF ok(1)] w]) simp
  show "accepts p password (hw d') i"
    using SE_HmacEncryptWrite_success [OF ok(1) w] length_salted [OF ok(1)] salted_frame [OF f]
    by (simp add: accepts_def stored_hash_def password_digest_def)
  show "d' = d\<lparr>hw := hw d'\<rparr>" by (rule d')
qed

section \<open>Saving\<close>

definition account_pages :: "nat \<Rightarrow> nat set" where
  "account_pages i = account_page i ` {..<PAGE_NUM_PER_ACCOUNT}"

lemma account_pages_member: "k < 12 \<Longrightarrow> account_page i k \<in> account_pages i"
  by (simp add: account_pages_def PAGE_NUM_PER_ACCOUNT_def)

lemma secret_pages_subset: "secret_pages i \<subseteq> account_pages i"
  by (auto simp: secret_pages_def account_pages_def PAGE_INDEX_KEY_PIECE_def PAGE_NUM_PER_ACCOUNT_def)

lemma account_pages_disjoint: "i \<noteq> j \<Longrightarrow> account_pages i \<inter> account_pages j = {}"
  by (auto simp: account_pages_def account_page_inj PAGE_NUM_PER_ACCOUNT_def)

lemma param_no_secret: "account_page j PAGE_INDEX_PARAM \<notin> secret_pages i"
  by (auto simp: secret_pages_def account_page_inj PAGE_INDEX_PARAM_def PAGE_INDEX_KEY_PIECE_def)

lemma steps_set_master_fingerprint:
  assumes "platform_ok p" and "account_page i PAGE_INDEX_PARAM \<in> P"
  shows "steps (acct_frame p P A i) (set_master_fingerprint p a)"
  unfolding set_master_fingerprint_def Let_def
  by (intro account.steps_rules)
    (auto split: option.split intro!: account.steps_rules info_frames [OF assms] dest: crypto_laws(8) [OF assms(1)])

lemma steps_new_account:
  assumes "platform_ok p" and "account_page i PAGE_INDEX_PARAM \<in> P"
  shows "steps (acct_frame p P A i) (when_do new (seq (SetCurrentAccountEntropyLen n) (\<lambda>_. seq (set_master_fingerprint p a) (\<lambda>_.
        ignoring (SaveCurrentAccountInfo p)))))"
  by (intro account.steps_rules info_frames [OF assms] steps_set_master_fingerprint [OF assms] steps_SaveCurrentAccountInfo [OF assms])

text \<open>Both ways of saving: the secret is readable; without \<open>newAccount\<close> nothing else changes.\<close>

lemma SaveAccountSecret_success:
  assumes ok: "platform_ok p" "provisioned p (hw d)" and wf: "wf_account_secret a"
    and run: "SaveAccountSecret p i a password new d = Some (Inr u, d')"
  shows "i \<le> 2" and "readable p i password a (hw d')"
    and "frame p (secret_pages i \<union> {account_page (g_currentAccountIndex d) PAGE_INDEX_PARAM}) {i} (hw d) (hw d')"
    and "\<not> new \<Longrightarrow> d' = d\<lparr>hw := hw d'\<rparr> \<and> frame p (secret_pages i) {i} (hw d) (hw d')"
proof -
  obtain h where i: "i \<le> 2" and w: "write_secret p i a password (hw d) = Some (Inr (), h)"
    and rest: "when_do new (seq (SetCurrentAccountEntropyLen (as_entropyLen a)) (\<lambda>_. seq (set_master_fingerprint p a) (\<lambda>_.
        ignoring (SaveCurrentAccountInfo p)))) (d\<lparr>hw := h\<rparr>) = Some (Inr u, d')"
    using run by (auto simp: SaveAccountSecret_def seq_success require_success on_hw_success)
  show "i \<le> 2" by (rule i)
  note ws = write_secret_success [OF ok wf w]
  have "provisioned p h" using ok(2) provisioned_frame [OF ws(1)] by simp
  then have tail: "frame p {account_page (g_currentAccountIndex d) PAGE_INDEX_PARAM} {} h (hw d')"
    using stepsD [OF steps_new_account [where i = "g_currentAccountIndex d"] rest, OF ok(1)] by (simp add: acct_frame_def)
  show "frame p (secret_pages i \<union> {account_page (g_currentAccountIndex d) PAGE_INDEX_PARAM}) {i} (hw d) (hw d')"
    using frame_trans [OF ws(1) tail] by simp
  show "readable p i password a (hw d')"
    by (rule readable_frame [OF ws(2) tail]) (use param_no_secret in auto)
  show "\<not> new \<Longrightarrow> d' = d\<lparr>hw := hw d'\<rparr> \<and> frame p (secret_pages i) {i} (hw d) (hw d')"
    using rest ws(1) by (auto simp: cmd_eval)
qed

section \<open>What saving changes, also when it fails\<close>

lemma steps_write_pages:
  "platform_ok p \<Longrightarrow> \<forall>k\<in>fst ` set pages. account_page i k \<in> P \<Longrightarrow> steps (pframe p P A) (write_pages p i pages)"
  by (induction p i pages rule: write_pages.induct)
    (auto intro!: provisioned_chips.steps_rules provisioned_SE_frames)

lemma steps_write_secret:
  assumes ok: "platform_ok p" and P: "secret_pages i \<subseteq> P" and A: "i \<in> A"
  shows "steps (pframe p P A) (write_secret p i a password)"
proof -
  have page: "account_page i k \<in> P" if "k \<le> 7" for k using secret_pages_member [OF that] P by blast
  show ?thesis
    unfolding write_secret_def sha512_of_pieces_def CombineInnerAesKey_def Let_def
    by (intro provisioned_chips.steps_rules hash_frames provisioned_SE_frames [OF ok] steps_SetNewKeyPieceToSE [OF ok _ A]
        steps_write_pages [OF ok] ballI)
      (auto simp: PAGE_INDEX_KEY_PIECE_def PAGE_INDEX_IV_def PAGE_INDEX_ENTROPY_def PAGE_INDEX_SEED_H32_def PAGE_INDEX_SEED_L32_def
        PAGE_INDEX_SLIP39_EMS_def PAGE_INDEX_RESERVED_def PAGE_INDEX_HMAC_def intro!: page)
qed

lemma steps_SaveAccountSecret:
  assumes ok: "platform_ok p" and P: "account_pages i \<subseteq> P" and A: "i \<in> A"
  shows "steps (acct_frame p P A i) (SaveAccountSecret p i a password new)"
  unfolding SaveAccountSecret_def
proof (intro account.steps_rules steps_on_hw steps_write_secret [OF ok _ A] info_frames [OF ok] steps_set_master_fingerprint [OF ok]
    steps_SaveCurrentAccountInfo [OF ok])
  show "secret_pages i \<subseteq> P" using P secret_pages_subset by blast
  show "account_page i PAGE_INDEX_PARAM \<in> P"
    using P account_pages_member [of PAGE_INDEX_PARAM i] by (auto simp: PAGE_INDEX_PARAM_def)
  then show "account_page i PAGE_INDEX_PARAM \<in> P" .
  then show "account_page i PAGE_INDEX_PARAM \<in> P" .
qed

lemma steps_CheckPasswordExisted: "steps (acct_frame p P A i) (CheckPasswordExisted p password x)"
proof (rule stepsI)
  fix d r d' assume run: "CheckPasswordExisted p password x d = Some (r, d')"
  have "provisioned p (hw d) \<Longrightarrow> d' = d" by (rule CheckPasswordExisted_state [OF _ run])
  then show "acct_frame p P A i d d'" by (cases "provisioned p (hw d)") (simp_all add: acct_frame_def)
qed

lemma steps_write_password_hash:
  assumes ok: "platform_ok p" and P: "account_pages i \<subseteq> P"
  shows "steps (acct_frame p P A i) (write_password_hash p i password)"
  unfolding write_password_hash_def
proof (intro steps_on_hw provisioned_chips.steps_rules hash_frames provisioned_SE_frames [OF ok])
  show "account_page i PAGE_INDEX_PASSWORD_HASH \<in> P"
    using P account_pages_member [of PAGE_INDEX_PASSWORD_HASH i] by (auto simp: PAGE_INDEX_PASSWORD_HASH_def)
qed

lemma new_account_frames:
  assumes ok: "platform_ok p" and P: "account_pages i \<subseteq> P" and A: "i \<in> A"
  shows "steps (acct_frame p P A i) (SaveNewBip39Entropy p i ent password)"
    and "steps (acct_frame p P A i) (SaveNewSlip39Entropy p i ems ent password)"
    and "steps (acct_frame p P A i) (SaveNewTonMnemonic p i mnemonic password)"
  unfolding SaveNewBip39Entropy_def SaveNewSlip39Entropy_def SaveNewTonMnemonic_def Let_def case_prod_beta
  by (intro account.steps_rules steps_CheckPasswordExisted steps_SaveAccountSecret [OF assms] steps_write_password_hash [OF ok P])+

section \<open>Changing the password\<close>

lemma read_pages_success:
  "read_pages p i ks h = Some (Inr ds, h') \<Longrightarrow>
   (\<forall>k\<in>set ks. fst (p_read p (account_page i k) h) = 0) \<and> ds = map (\<lambda>k. snd (p_read p (account_page i k) h)) ks \<and> h' = h"
  by (induction ks arbitrary: ds) (auto simp: cmd_eval seq_success SE_HmacEncryptRead_def case_prod_beta)

text \<open>What was loaded has the lengths of a secret, and its length byte is the one of the param page.\<close>

lemma read_secret_success:
  assumes ok: "platform_ok p" "provisioned p h" and i: "i \<le> 2" and run: "read_secret p i password h = Some (Inr a, h')"
  shows "wf_account_secret a"
    and "\<exists>param. p_read p (account_page i PAGE_INDEX_PARAM) h = (0, param) \<and> as_entropyLen a = stored_entropyLen param"
proof -
  obtain ret pieces where gp: "GetKeyPieceFromSE p i (p_uninit p 64) password h = Some (Inr (ret, pieces), h)"
    using GetKeyPieceFromSE_result [OF ok(2) i] by blast
  define ks where "ks = [PAGE_INDEX_IV, PAGE_INDEX_ENTROPY, PAGE_INDEX_SEED_H32, PAGE_INDEX_SEED_L32, PAGE_INDEX_SLIP39_EMS,
        PAGE_INDEX_RESERVED, PAGE_INDEX_HMAC, PAGE_INDEX_PARAM]"
  define r where "r k = snd (p_read p (account_page i k) h)" for k
  have len: "length (r k) = 32" for k using page_laws(3) [OF ok(1)] by (simp add: r_def)
  from run obtain ds h1 where rp: "read_pages p i ks h = Some (Inr ds, h1)"
    by (auto simp: read_secret_def seq_result(1) [of "GetKeyPieceFromSE p i (p_uninit p 64) password", OF gp] ks_def
        seq_sha512_of_pieces [OF ok(2)] seq_success [of "read_pages _ _ _"] simp del: read_pages.simps)
  note rs = read_pages_success [OF rp]
  then have rp': "read_pages p i ks h = Some (Inr (map r ks), h)" using rp by (simp add: r_def [abs_def])
  let ?e = "r PAGE_INDEX_ENTROPY @ r PAGE_INDEX_SEED_H32 @ r PAGE_INDEX_SEED_L32 @ r PAGE_INDEX_SLIP39_EMS @ r PAGE_INDEX_RESERVED"
  obtain key iv where a: "a = (let data = p_cbc_decrypt p key iv ?e in
      \<lparr>as_entropy = take 32 data, as_seed = take 64 (drop 32 data),
       as_slip39EmsOrTonEntropyL32 = take 32 (drop 96 data), as_reservedData = take 32 (drop 128 data),
       as_entropyLen = stored_entropyLen (r PAGE_INDEX_PARAM)\<rparr>)"
    using run rp'
    by (auto simp: read_secret_def seq_result(1) [of "GetKeyPieceFromSE p i (p_uninit p 64) password", OF gp] ks_def
        seq_sha512_of_pieces [OF ok(2)] seq_result(1) [of "read_pages p i _"] Let_def cmd_eval seq_CombineInnerAesKey [OF ok(2)]
        stored_entropyLen_def seq_def [of "succeed _"] seq_def [of "fail_with _"] simp del: read_pages.simps split: if_splits)
  have "length ?e = 160" by (simp add: len)
  then have "length (p_cbc_decrypt p key iv ?e) = 160" using crypto_laws(6) [OF ok(1), of ?e] by simp
  then show "wf_account_secret a" by (simp add: a Let_def wf_account_secret_def)
  show "\<exists>param. p_read p (account_page i PAGE_INDEX_PARAM) h = (0, param) \<and> as_entropyLen a = stored_entropyLen param"
    using rs by (intro exI [of _ "r PAGE_INDEX_PARAM"]) (simp add: a Let_def r_def prod_eq_iff ks_def)
qed

lemma LoadAccountSecret_success:
  assumes ok: "platform_ok p" "provisioned p (hw d)" and run: "LoadAccountSecret p i password d = Some (Inr a, d')"
  shows "i \<le> 2" and "d' = d" and "wf_account_secret a"
    and "\<exists>param. p_read p (account_page i PAGE_INDEX_PARAM) (hw d) = (0, param) \<and> as_entropyLen a = stored_entropyLen param"
proof -
  show i: "i \<le> 2" by (rule LoadAccountSecret_index [OF run])
  show "d' = d" by (rule LoadAccountSecret_state [OF ok(2) run])
  obtain h where "read_secret p i password (hw d) = Some (Inr a, h)"
    using run by (auto simp: LoadAccountSecret_eq [OF i] on_hw_success)
  from read_secret_success [OF ok i this] show "wf_account_secret a"
    and "\<exists>param. p_read p (account_page i PAGE_INDEX_PARAM) (hw d) = (0, param) \<and> as_entropyLen a = stored_entropyLen param" by blast+
qed

lemma hash_no_secret: "account_page j PAGE_INDEX_PASSWORD_HASH \<notin> secret_pages i"
  by (auto simp: secret_pages_def account_page_inj PAGE_INDEX_PASSWORD_HASH_def PAGE_INDEX_KEY_PIECE_def)

text \<open>
  C5: When \<^verbatim>\<open>ChangePassword\<close> succeeds, the new password loads the very secret that the old one loaded
  before, and it is the new password that \<^verbatim>\<open>VerifyPassword\<close> recognises for the account.
\<close>

theorem ChangePassword_keeps_secret:
  assumes ok: "platform_ok p" "provisioned p (hw d)" and run: "ChangePassword p i newPassword password d = Some (Inr u, d')"
  shows "\<exists>a. LoadAccountSecret p i password d = Some (Inr a, d) \<and> LoadAccountSecret p i newPassword d' = Some (Inr a, d')
    \<and> VerifyPassword p newPassword d' = Some (Inr i, d')"
proof -
  obtain a d1 d2 d3 where i: "i \<le> 2" and c: "CheckPasswordExisted p newPassword i d = Some (Inr (), d1)"
    and l: "LoadAccountSecret p i password d1 = Some (Inr a, d2)"
    and s: "SaveAccountSecret p i a newPassword False d2 = Some (Inr (), d3)"
    and w: "write_password_hash p i newPassword d3 = Some (Inr u, d')"
    using run by (auto simp: ChangePassword_def seq_success require_success)
  note cs = CheckPasswordExisted_success [OF ok c]
  have [simp]: "d1 = d" by (rule cs(1))
  note ls = LoadAccountSecret_success [OF ok l [simplified]]
  have [simp]: "d2 = d" by (rule ls(2))
  note sv = SaveAccountSecret_success [OF ok ls(3) s [simplified]]
  from sv(4) have d3: "d3 = d\<lparr>hw := hw d3\<rparr>" and f3: "frame p (secret_pages i) {i} (hw d) (hw d3)" by simp_all
  have prov3: "provisioned p (hw d3)" using ok(2) provisioned_frame [OF f3] by simp
  note wp = write_password_hash_success [OF ok(1) prov3 w]
  obtain param where param: "p_read p (account_page i PAGE_INDEX_PARAM) (hw d) = (0, param)" "as_entropyLen a = stored_entropyLen param"
    using ls(4) by blast
  have "p_read p (account_page i PAGE_INDEX_PARAM) (hw d') = (0, param)"
    using param(1) frame_read [OF f3 param_no_secret] frame_read [OF wp(1)]
    by (simp add: account_page_inj PAGE_INDEX_PARAM_def PAGE_INDEX_PASSWORD_HASH_def)
  then have "LoadAccountSecret p i newPassword d' = Some (Inr (a\<lparr>as_entropyLen := stored_entropyLen param\<rparr>), d')"
    using readable_frame [OF sv(2) wp(1)] hash_no_secret i by (intro readable_load) auto
  moreover have "VerifyPassword p newPassword d' = Some (Inr i, d')"
  proof (rule VerifyPassword_first [OF _ i _ wp(2)])
    show "provisioned p (hw d')" using prov3 provisioned_frame [OF wp(1)] by simp
    show "\<forall>j<i. refuses p newPassword (hw d') j"
    proof (intro allI impI)
      fix j assume j: "j < i"
      then have "refuses p newPassword (hw d) j" using cs(2) i by auto
      then show "refuses p newPassword (hw d') j"
        using refuses_frame [OF f3 hash_no_secret] refuses_frame [OF wp(1)] j
        by (simp add: account_page_inj PAGE_INDEX_PASSWORD_HASH_def)
    qed
  qed
  moreover have "a\<lparr>as_entropyLen := stored_entropyLen param\<rparr> = a" using param(2) by simp
  ultimately show ?thesis using l by auto
qed

section \<open>The key store as a vault\<close>

text \<open>
  The contract of a store of secrets by key: \<open>good\<close> states, \<open>put i k v\<close> as a relation between the
  states before and after, and \<open>holds i k v\<close>: whoever presents the key \<open>k\<close> for place \<open>i\<close> gets \<open>v\<close>.
\<close>

locale vault =
  fixes good :: "'s \<Rightarrow> bool"
    and put :: "nat \<Rightarrow> 'k \<Rightarrow> 'v \<Rightarrow> 's \<Rightarrow> 's \<Rightarrow> bool"
    and holds :: "nat \<Rightarrow> 'k \<Rightarrow> 'v \<Rightarrow> 's \<Rightarrow> bool"
  assumes put_good: "good s \<Longrightarrow> put i k v s t \<Longrightarrow> good t"
    and put_holds: "good s \<Longrightarrow> put i k v s t \<Longrightarrow> holds i k v t"
    and put_other: "good s \<Longrightarrow> put i k v s t \<Longrightarrow> j \<noteq> i \<Longrightarrow> holds j k' v' s \<Longrightarrow> holds j k' v' t"
begin

lemma puts_good:
  "good (ts ! 0) \<Longrightarrow> \<forall>n<m. put (i n) (k n) (v n) (ts ! n) (ts ! Suc n) \<Longrightarrow> n \<le> m \<Longrightarrow> good (ts ! n)"
  by (induction n) (auto, metis Suc_le_lessD put_good)

text \<open>After any sequence of puts, each place holds what was put there last.\<close>

lemma last_put_holds:
  assumes "good (ts ! 0)" and puts: "\<forall>n<m. put (i n) (k n) (v n) (ts ! n) (ts ! Suc n)"
    and n: "n < m" and last_one: "\<forall>n'. n < n' \<and> n' < m \<longrightarrow> i n' \<noteq> i n"
  shows "holds (i n) (k n) (v n) (ts ! m)"
proof -
  have "n + Suc r \<le> m \<Longrightarrow> holds (i n) (k n) (v n) (ts ! (n + Suc r))" for r
  proof (induction r)
    case 0
    have "good (ts ! n)" by (rule puts_good [OF assms(1,2)]) (use n in simp)
    then show ?case using put_holds puts n by simp
  next
    case (Suc r)
    have "good (ts ! (n + Suc r))" by (rule puts_good [OF assms(1,2)]) (use Suc in simp)
    moreover have "put (i (n + Suc r)) (k (n + Suc r)) (v (n + Suc r)) (ts ! (n + Suc r)) (ts ! Suc (n + Suc r))"
      using puts Suc.prems by simp
    moreover have "i (n + Suc r) \<noteq> i n" using last_one Suc.prems by simp
    ultimately show ?case using put_other Suc by (metis Suc_leD add_Suc_right)
  qed
  from this [of "m - n - 1"] n show ?thesis by simp
qed

end

text \<open>A save that succeeded, of a whole secret, on a device whose platform keeps its contract.\<close>

definition vault_good :: "'h platform \<times> 'h device \<Rightarrow> bool" where
  "vault_good s \<longleftrightarrow> platform_ok (fst s) \<and> provisioned (fst s) (hw (snd s))"

definition vault_put :: "nat \<Rightarrow> bytes \<Rightarrow> account_secret \<Rightarrow> 'h platform \<times> 'h device \<Rightarrow> 'h platform \<times> 'h device \<Rightarrow> bool" where
  "vault_put i password a s t \<longleftrightarrow> wf_account_secret a \<and> fst t = fst s \<and>
     (\<exists>new. SaveAccountSecret (fst s) i a password new (snd s) = Some (Inr (), snd t))"

definition vault_holds :: "nat \<Rightarrow> bytes \<Rightarrow> account_secret \<Rightarrow> 'h platform \<times> 'h device \<Rightarrow> bool" where
  "vault_holds i password a s \<longleftrightarrow> i \<le> 2 \<and> readable (fst s) i password a (hw (snd s))"

lemma secret_pages_other:
  "i \<noteq> j \<Longrightarrow> (secret_pages i \<union> {account_page k PAGE_INDEX_PARAM}) \<inter> secret_pages j = {}"
  using account_pages_disjoint [of i j] secret_pages_subset param_no_secret by blast

interpretation keystore: vault vault_good vault_put vault_holds
proof
  fix s t :: "'h platform \<times> 'h device" and i j :: nat and k k' v v'
  assume good: "vault_good s" and put: "vault_put i k v s t"
  then obtain new where ok: "platform_ok (fst s)" "provisioned (fst s) (hw (snd s))" and wf: "wf_account_secret v"
    and run: "SaveAccountSecret (fst s) i v k new (snd s) = Some (Inr (), snd t)" and [simp]: "fst t = fst s"
    by (auto simp: vault_good_def vault_put_def)
  note sv = SaveAccountSecret_success [OF ok wf run]
  show "vault_good t" using ok provisioned_frame [OF sv(3)] by (simp add: vault_good_def)
  show "vault_holds i k v t" using sv by (simp add: vault_holds_def)
  show "vault_holds j k' v' t" if "j \<noteq> i" and h: "vault_holds j k' v' s"
  proof -
    have "readable (fst s) j k' v' (hw (snd s))" and "j \<le> 2" using h by (simp_all add: vault_holds_def)
    then have "readable (fst s) j k' v' (hw (snd t))"
      using readable_frame [OF _ sv(3) secret_pages_other] that by auto
    then show ?thesis using \<open>j \<le> 2\<close> by (simp add: vault_holds_def)
  qed
qed

text \<open>
  C1: After any sequence of saves that succeeded, for any accounts and passwords, the password of the last save for an
  account loads exactly the secret of that save (its length byte is the one of the param page).
\<close>

theorem saved_secrets_survive:
  assumes ok: "platform_ok p" "provisioned p (hw (ds ! 0))"
    and saves: "\<forall>n<m. wf_account_secret (a n) \<and> SaveAccountSecret p (i n) (a n) (password n) (new n) (ds ! n) = Some (Inr (), ds ! Suc n)"
    and len: "length ds = Suc m" and n: "n < m" and last_one: "\<forall>n'. n < n' \<and> n' < m \<longrightarrow> i n' \<noteq> i n"
    and param: "p_read p (account_page (i n) PAGE_INDEX_PARAM) (hw (ds ! m)) = (0, param)"
  shows "LoadAccountSecret p (i n) (password n) (ds ! m) = Some (Inr ((a n)\<lparr>as_entropyLen := stored_entropyLen param\<rparr>), ds ! m)"
proof -
  have "vault_holds (i n) (password n) (a n) (map (Pair p) ds ! m)"
  proof (rule keystore.last_put_holds [OF _ _ n last_one])
    show "vault_good (map (Pair p) ds ! 0)" using ok len by (simp add: vault_good_def)
    show "\<forall>n<m. vault_put (i n) (password n) (a n) (map (Pair p) ds ! n) (map (Pair p) ds ! Suc n)"
      using saves len by (auto simp: vault_put_def)
  qed
  then show ?thesis using param len by (intro readable_load) (auto simp: vault_holds_def)
qed

end
