(* ===== verification/PublicKeys.thy ===== *)
theory PublicKeys
  imports KeystoreProps
begin

text \<open>
  The public keys of an account (\<^verbatim>\<open>src/crypto/account_public_info.c\<close>, \<^verbatim>\<open>src/crypto/rsa.c\<close>) in the
  build for all coins (\<^verbatim>\<open>WEB3_VERSION\<close>): they are derived from the seed when an account is created or
  a passphrase is set, kept as a JSON text in the flash with its hash in the secure element, and read back at login.
  Allocation does not fail here, and the JSON tree that other screens cache is left out. The lemmas say which pages these
  operations may change; \<open>AccountSuccess\<close> says when they succeed.
\<close>

section \<open>The table of keys\<close>

datatype public_info_type =
    ED25519 | SECP256K1 | BIP32_ED25519 | RSA_KEY | TON_NATIVE | TON_CHECKSUM | LEDGER_BITBOX02
  | ZCASH_UFVK_ENCRYPTED | EDWARDS_25519 | MONERO_PVK

record chain_item =
  ch_cryptoKey :: public_info_type
  ch_name :: bytes
  ch_path :: bytes

fun decimal :: "nat \<Rightarrow> bytes" where
  "decimal n = (if n < 10 then [48 + of_nat n] else decimal (n div 10) @ [48 + of_nat (n mod 10)])"

declare decimal.simps [simp del]

text \<open>A row whose path is \<open>M\<close> and the given indices, each hardened (39 is the apostrophe), and rows numbered in their names.\<close>

definition key_row :: "public_info_type \<Rightarrow> string \<Rightarrow> nat list \<Rightarrow> chain_item" where
  "key_row cryptoKey name path =
     \<lparr>ch_cryptoKey = cryptoKey, ch_name = cstr name, ch_path = cstr ''M'' @ concat (map (\<lambda>k. cstr ''/'' @ decimal k @ [39]) path)\<rparr>"

definition plain_row :: "public_info_type \<Rightarrow> string \<Rightarrow> chain_item" where
  "plain_row cryptoKey name = \<lparr>ch_cryptoKey = cryptoKey, ch_name = cstr name, ch_path = []\<rparr>"

definition key_rows :: "public_info_type \<Rightarrow> string \<Rightarrow> nat \<Rightarrow> (nat \<Rightarrow> nat list) \<Rightarrow> chain_item list" where
  "key_rows cryptoKey name n path = map (\<lambda>i. (key_row cryptoKey name (path i))\<lparr>ch_name := cstr name @ decimal i\<rparr>) [0..<n]"

definition g_chainTable :: "chain_item list" where
  "g_chainTable =
     [key_row SECP256K1 ''btc'' [49, 0, 0],
      key_row SECP256K1 ''btc_legacy'' [44, 0, 0],
      key_row SECP256K1 ''btc_nested_segwit'' [84, 0, 0],
      key_row SECP256K1 ''btc_taproot'' [86, 0, 0],
      key_row SECP256K1 ''ltc'' [49, 2, 0],
      key_row SECP256K1 ''doge'' [44, 3, 0],
      key_row SECP256K1 ''dash'' [44, 5, 0],
      key_row SECP256K1 ''bch'' [44, 145, 0],
      key_row SECP256K1 ''eth_bip44_standard'' [44, 60, 0],
      key_row SECP256K1 ''eth_ledger_legacy'' [44, 60, 0]] @
     key_rows SECP256K1 ''eth_ledger_live_'' 10 (\<lambda>i. [44, 60, i]) @
     [key_row SECP256K1 ''trx'' [44, 195, 0],
      key_row SECP256K1 ''cosmos'' [44, 118, 0],
      key_row SECP256K1 ''scrt'' [44, 529, 0],
      key_row SECP256K1 ''cro'' [44, 394, 0],
      key_row SECP256K1 ''iov'' [44, 234, 0],
      key_row SECP256K1 ''bld'' [44, 564, 0],
      key_row SECP256K1 ''kava'' [44, 459, 0],
      key_row SECP256K1 ''terra'' [44, 330, 0],
      key_row SECP256K1 ''xrp'' [44, 144, 0],
      key_row SECP256K1 ''thor'' [44, 931, 0],
      key_row SECP256K1 ''avax_c'' [44, 60, 0],
      key_row SECP256K1 ''avax_x_p'' [44, 9000, 0]] @
     key_rows ED25519 ''iota_'' 10 (\<lambda>i. [44, 4218, i, 0, 0]) @
     key_rows ED25519 ''sol_bip44_'' 50 (\<lambda>i. [44, 501, i]) @
     [key_row ED25519 ''sol_bip44_root'' [44, 501]] @
     key_rows ED25519 ''sol_bip44_change_'' 50 (\<lambda>i. [44, 501, i, 0]) @
     key_rows ED25519 ''sui_'' 10 (\<lambda>i. [44, 784, i, 0, 0]) @
     key_rows ED25519 ''apt_'' 10 (\<lambda>i. [44, 637, i, 0, 0]) @
     key_rows BIP32_ED25519 ''ada_'' 24 (\<lambda>i. [1852, 1815, i]) @
     key_rows LEDGER_BITBOX02 ''ada_ledger_'' 24 (\<lambda>i. [1852, 1815, i]) @
     [plain_row RSA_KEY ''ar''] @
     key_rows ED25519 ''stellar_'' 5 (\<lambda>i. [44, 148, i]) @
     [key_row ED25519 ''ton_bip39'' [44, 607, 0],
      plain_row TON_NATIVE ''ton'',
      plain_row TON_CHECKSUM ''ton_checksum'']"

lemma chain_row_kinds:
  "ch_cryptoKey (key_row cryptoKey name path) = cryptoKey" "ch_cryptoKey (plain_row cryptoKey name) = cryptoKey"
  "item \<in> set (key_rows cryptoKey name n paths) \<Longrightarrow> ch_cryptoKey item = cryptoKey"
  by (auto simp: key_row_def plain_row_def key_rows_def)

definition XPUB_TYPE_TON_NATIVE :: nat where "XPUB_TYPE_TON_NATIVE = 218"
definition PUBLIC_INFO_TON_CHECKSUM :: nat where "PUBLIC_INFO_TON_CHECKSUM = 219"
definition XPUB_TYPE_NUM :: nat where "XPUB_TYPE_NUM = 220"

definition SIMPLERESPONSE_C_CHAR_MAX_LEN :: nat where "SIMPLERESPONSE_C_CHAR_MAX_LEN = 2048"
definition PUB_KEY_MAX_LENGTH :: nat where "PUB_KEY_MAX_LENGTH = 1024 + 1"
definition VERSION_MAX_LENGTH :: nat where "VERSION_MAX_LENGTH = 64"
definition ERR_GENERAL_FAIL :: int where "ERR_GENERAL_FAIL = 1"
definition ERR_KEYSTORE_EXTEND_PUBLIC_KEY_NOT_MATCH :: int where "ERR_KEYSTORE_EXTEND_PUBLIC_KEY_NOT_MATCH = 29"

definition SPI_FLASH_ADDR_EACH_SIZE :: nat where "SPI_FLASH_ADDR_EACH_SIZE = 0x19000"
definition SPI_FLASH_ADDR_USER1_DATA :: nat where "SPI_FLASH_ADDR_USER1_DATA = 0x00FB2000"
definition SPI_FLASH_SIZE_USER1_DATA :: nat where "SPI_FLASH_SIZE_USER1_DATA = 0x10000"
definition SPI_FLASH_RSA_USER1_DATA :: nat where "SPI_FLASH_RSA_USER1_DATA = 0x00FC2000"
definition SPI_FLASH_RSA_USER2_DATA :: nat where "SPI_FLASH_RSA_USER2_DATA = 0x00FDB000"
definition SPI_FLASH_RSA_USER3_DATA :: nat where "SPI_FLASH_RSA_USER3_DATA = 0x00FF4000"
definition SPI_FLASH_ADDR_USER1_MULTI_SIG_DATA :: nat where "SPI_FLASH_ADDR_USER1_MULTI_SIG_DATA = 0x00FC4000"
definition SPI_FLASH_SIZE_USER1_MULTI_SIG_DATA :: nat where "SPI_FLASH_SIZE_USER1_MULTI_SIG_DATA = 0x2000"
definition SPI_FLASH_ADDR_USER1_MUTABLE_DATA :: nat where "SPI_FLASH_ADDR_USER1_MUTABLE_DATA = 0x00FC6000"
definition SPI_FLASH_SIZE_USER1_MUTABLE_DATA :: nat where "SPI_FLASH_SIZE_USER1_MUTABLE_DATA = 0x5000"
definition GD25QXX_SECTOR_SIZE :: nat where "GD25QXX_SECTOR_SIZE = 4096"

section \<open>Keys in RAM\<close>

definition FreePublicKeyRam :: "('h device, unit) cmd" where
  "FreePublicKeyRam = update_state (\<lambda>d. d\<lparr>g_tempPublicKeyAccountIndex := INVALID_ACCOUNT_INDEX,
     g_accountPublicInfo := (\<lambda>i. if i < XPUB_TYPE_NUM then None else g_accountPublicInfo d i)\<rparr>)"

definition SetIsTempAccount :: "bool \<Rightarrow> ('h device, unit) cmd" where
  "SetIsTempAccount isTemp = update_state (\<lambda>d. d\<lparr>g_isTempAccount := isTemp\<rparr>)"

definition GetIsTempAccount :: "'h device \<Rightarrow> bool" where
  "GetIsTempAccount d = g_isTempAccount d"

definition GetCurrentAccountPublicKey :: "nat \<Rightarrow> 'h device \<Rightarrow> bytes option" where
  "GetCurrentAccountPublicKey chain d = (if g_currentAccountIndex d > 2 then None else g_accountPublicInfo d chain)"

definition set_public_key :: "nat \<Rightarrow> bytes \<Rightarrow> ('h device, unit) cmd" where
  "set_public_key i str = update_state (\<lambda>d. d\<lparr>g_accountPublicInfo := (g_accountPublicInfo d)(i := Some str)\<rparr>)"

text \<open>The copy of what the Rust library returned.\<close>

definition copied_key :: "bytes \<Rightarrow> bytes" where
  "copied_key str = strcpy_s (strnlen_s str SIMPLERESPONSE_C_CHAR_MAX_LEN + 1) str"

section \<open>The JSON text\<close>

definition json_members :: "json \<Rightarrow> (bytes \<times> json) list" where
  "json_members obj = (case obj of JObject items \<Rightarrow> items | _ \<Rightarrow> [])"

definition json_array_size :: "json \<Rightarrow> nat" where
  "json_array_size obj = (case obj of JObject items \<Rightarrow> length items | JArray items \<Rightarrow> length items | _ \<Rightarrow> 0)"

text \<open>\<^verbatim>\<open>cJSON_GetObjectItem\<close>: the first member of that name, whatever the case of its letters.\<close>

definition json_item :: "json \<Rightarrow> bytes \<Rightarrow> json option" where
  "json_item obj key = map_option snd (find (\<lambda>(name, item). map toupper name = map toupper key) (json_members obj))"

definition GetStringValue :: "json \<Rightarrow> bytes \<Rightarrow> nat \<Rightarrow> bytes" where
  "GetStringValue obj key maxLen =
     (case json_item obj key of
        Some (JString strTemp) \<Rightarrow> if strnlen_s strTemp maxLen < maxLen then strcpy_s maxLen strTemp else []
      | _ \<Rightarrow> [])"

definition g_xpubInfoVersion :: bytes where "g_xpubInfoVersion = cstr ''1.0.0''"

text \<open>A key that is \<^verbatim>\<open>NULL\<close> has no \<open>value\<close>; \<open>current\<close> is never set.\<close>

definition key_json :: "bytes option \<Rightarrow> json" where
  "key_json str = JObject ((case str of None \<Rightarrow> [] | Some str \<Rightarrow> [(cstr ''value'', JString str)]) @ [(cstr ''current'', JNumber 0)])"

definition GetJsonStringFromPublicKey :: "'h platform \<Rightarrow> (nat \<Rightarrow> bytes option) \<Rightarrow> bytes" where
  "GetJsonStringFromPublicKey p keys =
     RemoveFormatChar (p_json_print p (JObject
       [(cstr ''version'', JString g_xpubInfoVersion),
        (cstr ''key'', JObject (map (\<lambda>(i, item). (ch_name item, key_json (keys i))) (enumerate 0 g_chainTable)))]))"

definition GetChainTableSizeFromJson :: "json \<Rightarrow> nat" where
  "GetChainTableSizeFromJson keyJson =
     (if json_item keyJson (cstr ''ar'') \<noteq> None then length g_chainTable else length g_chainTable - 1)"

fun read_keys :: "json \<Rightarrow> (nat \<times> chain_item) list \<Rightarrow> ('h device, bool) cmd" where
  "read_keys keyJson [] = succeed True"
| "read_keys keyJson ((i, item) # items) =
     (case json_item keyJson (ch_name item) of
        None \<Rightarrow> if ch_cryptoKey item = RSA_KEY then read_keys keyJson items else succeed False
      | Some chainJson \<Rightarrow>
          seq (set_public_key i (GetStringValue chainJson (cstr ''value'') PUB_KEY_MAX_LENGTH)) (\<lambda>_.
          read_keys keyJson items))"

definition GetPublicKeyFromJsonString :: "'h platform \<Rightarrow> bytes \<Rightarrow> ('h device, bool) cmd" where
  "GetPublicKeyFromJsonString p str =
     (case p_json_parse p str of
        None \<Rightarrow> succeed False
      | Some rootJson \<Rightarrow>
          if GetStringValue rootJson (cstr ''version'') VERSION_MAX_LENGTH \<noteq> g_xpubInfoVersion then succeed False
          else case json_item rootJson (cstr ''key'') of
              None \<Rightarrow> succeed False
            | Some keyJson \<Rightarrow>
                if json_array_size keyJson \<noteq> GetChainTableSizeFromJson keyJson then succeed False
                else read_keys keyJson (take (GetChainTableSizeFromJson keyJson) (enumerate 0 g_chainTable)))"

section \<open>The primes of an RSA key\<close>

definition SPI_FLASH_RSA_ORIGIN_DATA_SIZE :: nat where "SPI_FLASH_RSA_ORIGIN_DATA_SIZE = 512"
definition SPI_FLASH_RSA_DATA_SIZE :: nat where "SPI_FLASH_RSA_DATA_SIZE = SPI_FLASH_RSA_ORIGIN_DATA_SIZE + 16"
definition SPI_FLASH_RSA_HASH_SIZE :: nat where "SPI_FLASH_RSA_HASH_SIZE = 32"
definition SPI_FLASH_RSA_DATA_FULL_SIZE :: nat where "SPI_FLASH_RSA_DATA_FULL_SIZE = SPI_FLASH_RSA_DATA_SIZE + SPI_FLASH_RSA_HASH_SIZE"
definition SPI_FLASH_RSA_PRIME_SIZE :: nat where "SPI_FLASH_RSA_PRIME_SIZE = SPI_FLASH_RSA_ORIGIN_DATA_SIZE div 2"

definition GetRsaAddress :: "'h device \<Rightarrow> nat" where
  "GetRsaAddress d =
     (if g_currentAccountIndex d = 0 then SPI_FLASH_RSA_USER1_DATA
      else if g_currentAccountIndex d = 1 then SPI_FLASH_RSA_USER2_DATA
      else if g_currentAccountIndex d = 2 then SPI_FLASH_RSA_USER3_DATA
      else SPI_FLASH_RSA_USER1_DATA)"

text \<open>A password that is \<^verbatim>\<open>NULL\<close> counts as the empty one: only its length, zero, is used.\<close>

definition GetPassword :: "('h device, bytes) cmd" where
  "GetPassword =
     seq get_state (\<lambda>d.
     seq (PassphraseExist (g_currentAccountIndex d)) (\<lambda>exist.
     succeed (if exist then SecretCacheGetPassphrase (g_secretCache d)
       else (case SecretCacheGetPassword (g_secretCache d) of None \<Rightarrow> [] | Some password \<Rightarrow> password))))"

definition RsaHashWithSalt :: "'h platform \<Rightarrow> bytes \<Rightarrow> ('h device, bytes) cmd" where
  "RsaHashWithSalt p data =
     seq GetMasterFingerPrint (\<lambda>mfp.
     on_hw (HashWithSalt p (take SPI_FLASH_RSA_ORIGIN_DATA_SIZE data) (ByteArrayToHexStr mfp)))"

definition HasMatchingPrimesHash :: "'h platform \<Rightarrow> bytes \<times> bytes \<Rightarrow> bytes \<Rightarrow> ('h device, bool) cmd" where
  "HasMatchingPrimesHash p primes targethash =
     seq (RsaHashWithSalt p (fst primes @ snd primes)) (\<lambda>sourceHash. succeed (sourceHash = targethash))"

text \<open>
  The code of \<^verbatim>\<open>GetAccountSeed\<close> is looked at, a response that is \<^verbatim>\<open>NULL\<close> is not: it halts.
\<close>

definition FlashReadRsaPrimes :: "'h platform \<Rightarrow> ('h device, (bytes \<times> bytes) option) cmd" where
  "FlashReadRsaPrimes p =
     seq get_state (\<lambda>d.
     let fullData = snd (p_flash_read p (GetRsaAddress d) SPI_FLASH_RSA_DATA_FULL_SIZE (hw d));
         len = (if GetMnemonicType d = MNEMONIC_TYPE_BIP39 then 64 else GetCurrentAccountEntropyLen d) in
     seq GetPassword (\<lambda>password.
     (\<lambda>d. case GetAccountSeed p (g_currentAccountIndex d) password d of
        None \<Rightarrow> None
      | Some (Inl ret, d) \<Rightarrow> Some (Inr None, d)
      | Some (Inr seed, d) \<Rightarrow>
          (case p_decrypt_primes p (take len (buf_write (p_uninit p 64) 0 seed)) (take SPI_FLASH_RSA_DATA_SIZE fullData) of
             None \<Rightarrow> None
           | Some (error_code, encData) \<Rightarrow>
               if error_code \<noteq> 0 then Some (Inr None, d)
               else
                 (let primes = (take SPI_FLASH_RSA_PRIME_SIZE encData, take SPI_FLASH_RSA_PRIME_SIZE (drop SPI_FLASH_RSA_PRIME_SIZE encData))
                  in seq (HasMatchingPrimesHash p primes (take SPI_FLASH_RSA_HASH_SIZE (drop SPI_FLASH_RSA_DATA_SIZE fullData))) (\<lambda>match.
                     succeed (if match then Some primes else None)) d)))))"

section \<open>Deriving the keys\<close>

definition ProcessKeyType ::
  "'h platform \<Rightarrow> bytes \<Rightarrow> public_info_type \<Rightarrow> bytes \<Rightarrow> bytes option \<Rightarrow> bytes option \<Rightarrow> ('h device, response) cmd" where
  "ProcessKeyType p seed cryptoKey path icarusMasterKey ledgerBitbox02MasterKey =
     (case cryptoKey of
        SECP256K1 \<Rightarrow> succeed (p_secp256k1_key p seed path)
      | ED25519 \<Rightarrow> succeed (p_ed25519_key p seed path)
      | BIP32_ED25519 \<Rightarrow>
          seq (require (icarusMasterKey \<noteq> None)) (\<lambda>_. succeed (p_bip32_ed25519_key p (the icarusMasterKey) path))
      | LEDGER_BITBOX02 \<Rightarrow>
          seq (require (ledgerBitbox02MasterKey \<noteq> None)) (\<lambda>_. succeed (p_bip32_ed25519_key p (the ledgerBitbox02MasterKey) path))
      | RSA_KEY \<Rightarrow>
          seq (FlashReadRsaPrimes p) (\<lambda>primes.
          succeed (case primes of None \<Rightarrow> None | Some (P, Q) \<Rightarrow> p_rsa_public_key p P Q))
      | TON_NATIVE \<Rightarrow> succeed (p_ton_public_key p seed)
      | TON_CHECKSUM \<Rightarrow> seq (require False) (\<lambda>_. succeed None)
      | _ \<Rightarrow> succeed None)"

text \<open>The loop over the table; a key whose derivation reports an error ends it with that code.\<close>

fun derive_keys ::
  "'h platform \<Rightarrow> bool \<Rightarrow> bytes \<Rightarrow> bytes option \<Rightarrow> bytes option \<Rightarrow> (nat \<times> chain_item) list \<Rightarrow> ('h device, int) cmd" where
  "derive_keys p isSlip39 seed icarusMasterKey ledgerBitbox02Key [] = succeed 0"
| "derive_keys p isSlip39 seed icarusMasterKey ledgerBitbox02Key ((i, item) # items) =
     (if isSlip39 \<and> ch_cryptoKey item \<in> {BIP32_ED25519, LEDGER_BITBOX02, ZCASH_UFVK_ENCRYPTED} \<or> ch_cryptoKey item \<in> {TON_CHECKSUM, TON_NATIVE}
      then derive_keys p isSlip39 seed icarusMasterKey ledgerBitbox02Key items
      else
        seq (ProcessKeyType p seed (ch_cryptoKey item) (ch_path item) icarusMasterKey ledgerBitbox02Key) (\<lambda>xPubResult.
        if ch_cryptoKey item = RSA_KEY \<and> xPubResult = None
        then derive_keys p isSlip39 seed icarusMasterKey ledgerBitbox02Key items
        else
          (case xPubResult of
             None \<Rightarrow> seq (require False) (\<lambda>_. succeed 0)
           | Some (error_code, data) \<Rightarrow>
               if error_code \<noteq> 0 then succeed error_code
               else
                 (case data of
                    None \<Rightarrow> seq (require False) (\<lambda>_. succeed 0)
                  | Some data \<Rightarrow>
                      seq (set_public_key i (copied_key data)) (\<lambda>_.
                      derive_keys p isSlip39 seed icarusMasterKey ledgerBitbox02Key items)))))"

text \<open>The master keys of a BIP-39 wallet. A mnemonic that cannot be made stays \<^verbatim>\<open>NULL\<close>.\<close>

definition master_keys :: "'h platform \<Rightarrow> nat \<Rightarrow> bytes \<Rightarrow> ('h device, bytes option \<times> bytes option) cmd" where
  "master_keys p accountIndex ent =
     seq get_state (\<lambda>d.
     let mnemonic = (case bip39_mnemonic_from_bytes (p_sha256 p) en_word_list ent of Inl ret \<Rightarrow> None | Inr mnemonic \<Rightarrow> Some mnemonic);
         cip3_response = p_icarus_master_key p ent (GetPassphrase accountIndex d);
         ledger_bitbox02_response = p_ledger_master_key p mnemonic (GetPassphrase accountIndex d) in
     (case cip3_response of
        None \<Rightarrow> seq (require False) (\<lambda>_. succeed (None, None))
      | Some (error_code, icarusMasterKey) \<Rightarrow>
          if error_code \<noteq> 0 then fail_with error_code
          else
            (case ledger_bitbox02_response of
               None \<Rightarrow> seq (require False) (\<lambda>_. succeed (None, None))
             | Some (error_code, ledgerBitbox02Key) \<Rightarrow>
                 if error_code \<noteq> 0 then fail_with error_code else succeed (icarusMasterKey, ledgerBitbox02Key))))"

text \<open>The checksum of a TON wallet as 64 hexadecimal digits, in lower case.\<close>

definition ton_checksum_text :: "'h platform \<Rightarrow> bytes \<Rightarrow> bytes" where
  "ton_checksum_text p ent = ConvertToLowerCase (ByteArrayToHexStr (p_sha256 p (take 64 ent)))"

definition ton_keys :: "'h platform \<Rightarrow> bytes \<Rightarrow> bytes \<Rightarrow> ('h device, int) cmd" where
  "ton_keys p seed ent =
     seq (ProcessKeyType p seed TON_NATIVE (ch_path (g_chainTable ! XPUB_TYPE_TON_NATIVE)) None None) (\<lambda>xPubResult.
     case xPubResult of
       None \<Rightarrow> seq (require False) (\<lambda>_. succeed 0)
     | Some (error_code, data) \<Rightarrow>
         if error_code \<noteq> 0 then fail_with error_code
         else
           (case data of
              None \<Rightarrow> seq (require False) (\<lambda>_. succeed 0)
            | Some data \<Rightarrow>
                seq (set_public_key XPUB_TYPE_TON_NATIVE (copied_key data)) (\<lambda>_.
                seq (set_public_key PUBLIC_INFO_TON_CHECKSUM (ton_checksum_text p ent)) (\<lambda>_.
                succeed 0))))"

section \<open>Keys in the flash\<close>

definition sectors :: "nat \<Rightarrow> nat \<Rightarrow> nat list" where
  "sectors addr len = map (\<lambda>k. addr + k * GD25QXX_SECTOR_SIZE) [0..<len div GD25QXX_SECTOR_SIZE]"

text \<open>The code of \<^verbatim>\<open>Gd25FlashSectorErase\<close> is not looked at; the areas are whole sectors.\<close>

definition erase_area :: "'h platform \<Rightarrow> nat \<Rightarrow> nat \<Rightarrow> ('h, unit) cmd" where
  "erase_area p addr len = update_state (fold (p_flash_erase p) (sectors addr len))"

definition flash_write :: "'h platform \<Rightarrow> nat \<Rightarrow> bytes \<Rightarrow> ('h, nat) cmd" where
  "flash_write p addr data h = (let (len, h) = p_flash_write p addr data h in Some (Inr len, h))"

text \<open>
  What is in RAM is erased, hashed and written even when a derivation reported an error, whose code is
  then returned. The result of storing the hash is not looked at.
\<close>

definition write_public_keys :: "'h platform \<Rightarrow> nat \<Rightarrow> nat \<Rightarrow> ('h device, unit) cmd" where
  "write_public_keys p accountIndex addr =
     seq (on_hw (erase_area p addr SPI_FLASH_SIZE_USER1_DATA)) (\<lambda>_.
     seq get_state (\<lambda>d.
     let jsonString = GetJsonStringFromPublicKey p (g_accountPublicInfo d) in
     seq (ignoring (on_hw (SetWalletDataHash p accountIndex (p_sha256 p jsonString)))) (\<lambda>_.
     seq (on_hw (flash_write p addr (le32 (of_nat (length jsonString))))) (\<lambda>len.
     seq (require (len = 4)) (\<lambda>_.
     seq (on_hw (flash_write p (addr + 4) jsonString)) (\<lambda>len.
     require (len = length jsonString)))))))"

definition AccountPublicSavePublicInfo :: "'h platform \<Rightarrow> nat \<Rightarrow> bytes \<Rightarrow> nat \<Rightarrow> ('h device, unit) cmd" where
  "AccountPublicSavePublicInfo p accountIndex password addr =
     seq get_state (\<lambda>d.
     let mnemonicType = GetMnemonicType d;
         isSlip39 = (mnemonicType = MNEMONIC_TYPE_SLIP39);
         len = (if isSlip39 then GetCurrentAccountEntropyLen d else 64) in
     seq FreePublicKeyRam (\<lambda>_.
     seq (GetAccountSeed p accountIndex password) (\<lambda>tempSeed.
     let seed = take len (buf_write (p_uninit p 64) 0 tempSeed) in
     seq (GetAccountEntropy p accountIndex password) (\<lambda>(ent, entropyLen).
     seq (if mnemonicType = MNEMONIC_TYPE_BIP39 then master_keys p accountIndex (take entropyLen ent) else succeed (None, None)) (\<lambda>(icarusMasterKey, ledgerBitbox02Key).
     seq (if mnemonicType = MNEMONIC_TYPE_TON then ton_keys p seed ent
          else derive_keys p isSlip39 seed icarusMasterKey ledgerBitbox02Key (enumerate 0 g_chainTable)) (\<lambda>ret.
     seq (write_public_keys p accountIndex addr) (\<lambda>_.
     lift_result (outcome ret ()))))))))"

text \<open>The text ends at its first NUL for the parser, not for the hash.\<close>

definition AccountPublicInfoReadFromFlash :: "'h platform \<Rightarrow> nat \<Rightarrow> nat \<Rightarrow> ('h device, unit) cmd" where
  "AccountPublicInfoReadFromFlash p accountIndex addr =
     seq get_state (\<lambda>d.
     let (len, b) = p_flash_read p addr 4 (hw d);
         dataLen = unat (of_le32 (b ! 0) (b ! 1) (b ! 2) (b ! 3)) in
     seq (require (len = 4)) (\<lambda>_.
     if dataLen > SPI_FLASH_SIZE_USER1_DATA - 4 then fail_with ERR_GENERAL_FAIL
     else
       let (len, jsonString) = p_flash_read p (addr + 4) dataLen (hw d) in
       seq (require (len = dataLen)) (\<lambda>_.
       seq (on_hw (VerifyWalletDataHash p accountIndex (p_sha256 p jsonString))) (\<lambda>match.
       if \<not> match then fail_with ERR_KEYSTORE_EXTEND_PUBLIC_KEY_NOT_MATCH
       else
         seq (GetPublicKeyFromJsonString p (takeWhile (\<lambda>c. c \<noteq> 0) jsonString)) (\<lambda>parsed.
         if parsed then succeed () else fail_with ERR_GENERAL_FAIL)))))"

definition AccountPublicInfoSwitch :: "'h platform \<Rightarrow> nat \<Rightarrow> bytes \<Rightarrow> bool \<Rightarrow> ('h device, unit) cmd" where
  "AccountPublicInfoSwitch p accountIndex password newKey =
     seq (SetIsTempAccount False) (\<lambda>_.
     seq (require (accountIndex < 3)) (\<lambda>_.
     seq FreePublicKeyRam (\<lambda>_.
     let addr = SPI_FLASH_ADDR_USER1_DATA + accountIndex * SPI_FLASH_ADDR_EACH_SIZE in
     seq (if newKey then succeed 0 else code_of (AccountPublicInfoReadFromFlash p accountIndex addr)) (\<lambda>ret.
     if ret = ERR_KEYSTORE_EXTEND_PUBLIC_KEY_NOT_MATCH then fail_with ret
     else if newKey \<or> ret = ERR_GENERAL_FAIL then AccountPublicSavePublicInfo p accountIndex password addr
     else lift_result (outcome ret ())))))"

text \<open>
  The keys of an account with a passphrase stay in RAM. An error of the master keys is returned, but only
  after the loop, which halts at the first key that needs one; an error of another key is not returned.
\<close>

definition TempAccountPublicInfo :: "'h platform \<Rightarrow> nat \<Rightarrow> bytes \<Rightarrow> bool \<Rightarrow> ('h device, unit) cmd" where
  "TempAccountPublicInfo p accountIndex password set_it =
     seq get_state (\<lambda>d.
     let mnemonicType = GetMnemonicType d;
         isSlip39 = (mnemonicType = MNEMONIC_TYPE_SLIP39);
         len = (if isSlip39 then GetCurrentAccountEntropyLen d else 64);
         passphrase = GetPassphrase accountIndex d in
     seq (require (mnemonicType \<noteq> MNEMONIC_TYPE_TON)) (\<lambda>_.
     seq (SetIsTempAccount (passphrase \<noteq> None \<and> passphrase \<noteq> Some [])) (\<lambda>_.
     if g_tempPublicKeyAccountIndex d = accountIndex \<and> \<not> set_it then succeed ()
     else
       seq FreePublicKeyRam (\<lambda>_.
       seq (GetAccountSeed p accountIndex password) (\<lambda>tempSeed.
       let seed = take len (buf_write (p_uninit p 64) 0 tempSeed) in
       seq (GetAccountEntropy p accountIndex password) (\<lambda>(ent, entropyLen).
       (\<lambda>d. case (if isSlip39 then succeed (None, None) else master_keys p accountIndex (take entropyLen ent)) d of
          None \<Rightarrow> None
        | Some (r, d) \<Rightarrow>
            (let (ret, icarusMasterKey, ledgerBitbox02Key) = (case r of Inl ret \<Rightarrow> (ret, None, None) | Inr keys \<Rightarrow> (0, keys))
             in seq (derive_keys p isSlip39 seed icarusMasterKey ledgerBitbox02Key (enumerate 0 g_chainTable)) (\<lambda>_.
                seq (update_state (\<lambda>d. d\<lparr>g_tempPublicKeyAccountIndex := accountIndex\<rparr>)) (\<lambda>_.
                lift_result (outcome ret ())))) d)))))))"

definition DeleteAccountPublicInfo :: "'h platform \<Rightarrow> nat \<Rightarrow> ('h device, unit) cmd" where
  "DeleteAccountPublicInfo p accountIndex =
     seq (require (accountIndex < 3)) (\<lambda>_.
     seq (on_hw (erase_area p (SPI_FLASH_ADDR_USER1_DATA + accountIndex * SPI_FLASH_ADDR_EACH_SIZE) SPI_FLASH_SIZE_USER1_DATA)) (\<lambda>_.
     seq (on_hw (erase_area p (SPI_FLASH_ADDR_USER1_MUTABLE_DATA + accountIndex * SPI_FLASH_ADDR_EACH_SIZE) SPI_FLASH_SIZE_USER1_MUTABLE_DATA)) (\<lambda>_.
     seq (on_hw (erase_area p (SPI_FLASH_ADDR_USER1_MULTI_SIG_DATA + accountIndex * SPI_FLASH_ADDR_EACH_SIZE) SPI_FLASH_SIZE_USER1_MULTI_SIG_DATA)) (\<lambda>_.
     FreePublicKeyRam))))"

section \<open>Setting a passphrase\<close>

definition set_passphrase_info :: "nat \<Rightarrow> (passphrase_info \<Rightarrow> passphrase_info) \<Rightarrow> ('h device, unit) cmd" where
  "set_passphrase_info i f = update_state (\<lambda>d. d\<lparr>g_passphraseInfo := (g_passphraseInfo d)(i := f (g_passphraseInfo d i))\<rparr>)"

text \<open>
  \<^verbatim>\<open>strcpy_s\<close> has one byte less than the field: a passphrase of 128 characters leaves the empty
  string, with \<^verbatim>\<open>passphraseExist\<close> set. A \<^verbatim>\<open>NULL\<close> or an error of the Rust library is a success that
  changes nothing, because the loop is left with the code of \<^verbatim>\<open>GetPassphraseSeed\<close>.
\<close>

definition SetPassphrase :: "'h platform \<Rightarrow> nat \<Rightarrow> bytes \<Rightarrow> bytes \<Rightarrow> ('h device, unit) cmd" where
  "SetPassphrase p accountIndex passphrase password =
     seq get_state (\<lambda>d.
     let len = (if GetMnemonicType d = MNEMONIC_TYPE_BIP39 then 64 else GetCurrentAccountEntropyLen d) in
     seq (require (strnlen_s password PASSWORD_MAX_LEN \<ge> 6)) (\<lambda>_.
     seq (require (accountIndex \<le> 2)) (\<lambda>_.
     seq (GetPassphraseSeed p accountIndex passphrase password) (\<lambda>seed.
     case p_master_fingerprint p (take len (buf_write (p_uninit p 64) 0 seed)) of
       None \<Rightarrow> succeed ()
     | Some (error_code, masterFingerprint) \<Rightarrow>
         if error_code \<noteq> 0 then succeed ()
         else
           seq (set_passphrase_info accountIndex (\<lambda>i. i\<lparr>pp_mfp := take 4 masterFingerprint\<rparr>)) (\<lambda>_.
           seq (if 0 < strnlen_s passphrase PASSPHRASE_MAX_LEN
                then
                  seq (set_passphrase_info accountIndex
                    (\<lambda>i. i\<lparr>pp_passphrase := strcpy_s PASSPHRASE_MAX_LEN passphrase, pp_passphraseExist := True\<rparr>)) (\<lambda>_.
                  code_of (TempAccountPublicInfo p accountIndex password True))
                else
                  seq (ClearAccountPassphrase accountIndex) (\<lambda>_.
                  code_of (AccountPublicInfoSwitch p accountIndex password False))) (\<lambda>ret.
           seq (SetPassphraseMark p (passphrase \<noteq> [])) (\<lambda>_.
           lift_result (outcome ret ()))))))))"

section \<open>Reading a secret changes nothing\<close>

definition dev_unread :: "'h platform \<Rightarrow> 'h device \<Rightarrow> 'h device \<Rightarrow> bool" where
  "dev_unread p d d' \<longleftrightarrow> (provisioned p (hw d) \<longrightarrow> d' = d)"

interpretation dev_reading: command_frame "dev_unread p" for p
  by unfold_locales (auto simp: dev_unread_def)

lemma dev_unread_on_hw: "steps (unread p) m \<Longrightarrow> steps (dev_unread p) (on_hw m)"
  by (rule stepsI) (auto simp: on_hw_success dev_unread_def unread_def dest!: stepsD)

lemma dev_unread_LoadAccountSecret: "steps (dev_unread p) (LoadAccountSecret p i password)"
  unfolding LoadAccountSecret_def GetAccountInfo_def
  by (intro dev_reading.steps_rules dev_unread_on_hw reading_secret reading_prims)

lemma dev_unread_PassphraseExist: "steps (dev_unread p) (PassphraseExist i)"
  unfolding PassphraseExist_def Let_def by (intro dev_reading.steps_rules)

lemma dev_unread_secrets:
  "steps (dev_unread p) (GetAccountEntropy p i password)"
  "steps (dev_unread p) (GetAccountSlip39Ems p i password)"
proof -
  note rules = dev_reading.steps_rules dev_unread_LoadAccountSecret dev_unread_PassphraseExist
  show "steps (dev_unread p) (GetAccountEntropy p i password)"
    unfolding GetAccountEntropy_def by (intro rules)
  show "steps (dev_unread p) (GetAccountSlip39Ems p i password)"
    unfolding GetAccountSlip39Ems_def by (intro rules)
qed

lemma dev_unread_GetPassphraseSeed: "steps (dev_unread p) (GetPassphraseSeed p i passphrase password)"
  unfolding GetPassphraseSeed_def
  by (intro dev_reading.steps_rules)
    (auto intro!: dev_reading.steps_rules dev_unread_secrets
      simp: dev_unread_def lift_result_def Let_def steps_def [of _ "\<lambda>d. case _ d of None \<Rightarrow> _ | Some r \<Rightarrow> _ r"]
      split: option.splits prod.splits dest!: stepsD [OF dev_unread_secrets(2)])

lemma dev_unread_GetAccountSeed: "steps (dev_unread p) (GetAccountSeed p i password)"
  unfolding GetAccountSeed_def
  by (intro dev_reading.steps_rules dev_unread_LoadAccountSecret dev_unread_PassphraseExist dev_unread_GetPassphraseSeed)

lemma GetPassword_state: "GetPassword d = Some (r, d') \<Longrightarrow> d' = d"
  by (auto simp: GetPassword_def PassphraseExist_def Let_def seq_Some cmd_eval succeed_def get_state_def require_def split: if_splits)

lemma GetMasterFingerPrint_state: "GetMasterFingerPrint d = Some (r, d') \<Longrightarrow> d' = d"
  by (auto simp: GetMasterFingerPrint_def PassphraseExist_def Let_def seq_Some cmd_eval succeed_def get_state_def require_def split: if_splits)

lemma dev_unread_FlashReadRsaPrimes: "steps (dev_unread p) (FlashReadRsaPrimes p)"
proof -
  have h: "steps (dev_unread p) (HasMatchingPrimesHash p primes hash)" for primes hash
    unfolding HasMatchingPrimesHash_def RsaHashWithSalt_def
    by (intro dev_reading.steps_rules dev_unread_on_hw reading_prims) (auto simp: steps_def dev_unread_def dest: GetMasterFingerPrint_state)
  have g: "steps (dev_unread p) GetPassword" by (auto simp: steps_def dev_unread_def dest: GetPassword_state)
  have "steps (dev_unread p) (seq (HasMatchingPrimesHash p primes hash) (\<lambda>match. succeed (if match then Some primes else None)))" for primes hash
    by (intro dev_reading.steps_rules h)
  note tail = stepsD [OF this]
  show ?thesis
    unfolding FlashReadRsaPrimes_def Let_def
    by (intro dev_reading.steps_rules g stepsI)
      (auto simp: dev_unread_def split: option.splits sum.splits if_splits dest!: stepsD [OF dev_unread_GetAccountSeed] tail)
qed

section \<open>What deriving and storing the keys changes\<close>

text \<open>Of the RAM only the keys, of the secure element only the pages in \<open>P\<close>.\<close>

definition keys_frame :: "'h platform \<Rightarrow> nat set \<Rightarrow> 'h device \<Rightarrow> 'h device \<Rightarrow> bool" where
  "keys_frame p P d d' \<longleftrightarrow>
     (provisioned p (hw d) \<longrightarrow> frame p P {} (hw d) (hw d') \<and>
        d' = d\<lparr>hw := hw d', g_accountPublicInfo := g_accountPublicInfo d', g_tempPublicKeyAccountIndex := g_tempPublicKeyAccountIndex d',
          g_isTempAccount := g_isTempAccount d'\<rparr>)"

lemma keys_frameI:
  "frame p P {} (hw d) h \<Longrightarrow>
   keys_frame p P d (d\<lparr>hw := h, g_accountPublicInfo := keys, g_tempPublicKeyAccountIndex := t, g_isTempAccount := b\<rparr>)"
  by (simp add: keys_frame_def)

lemma keys_frame_fields:
  assumes "keys_frame p P d d'" and "provisioned p (hw d)"
  shows "frame p P {} (hw d) (hw d')" and "provisioned p (hw d')" and "g_currentAccountIndex d' = g_currentAccountIndex d"
    and "g_currentAccountInfo d' = g_currentAccountInfo d" and "g_passphraseInfo d' = g_passphraseInfo d"
    and "g_publicInfo d' = g_publicInfo d" and "g_secretCache d' = g_secretCache d" and "g_lastAccountIndex d' = g_lastAccountIndex d"
proof -
  have f: "frame p P {} (hw d) (hw d')" and e: "d' = d\<lparr>hw := hw d', g_accountPublicInfo := g_accountPublicInfo d',
      g_tempPublicKeyAccountIndex := g_tempPublicKeyAccountIndex d', g_isTempAccount := g_isTempAccount d'\<rparr>"
    using assms by (simp_all add: keys_frame_def)
  show "frame p P {} (hw d) (hw d')" "provisioned p (hw d')" using f assms(2) by (simp_all add: provisioned_frame)
  show "g_currentAccountIndex d' = g_currentAccountIndex d" "g_currentAccountInfo d' = g_currentAccountInfo d"
    "g_passphraseInfo d' = g_passphraseInfo d" "g_publicInfo d' = g_publicInfo d" "g_secretCache d' = g_secretCache d"
    "g_lastAccountIndex d' = g_lastAccountIndex d"
    by (subst e, simp)+
qed

lemma keys_frame_trans:
  assumes "keys_frame p P d d'" and "keys_frame p P d' d''"
  shows "keys_frame p P d d''"
proof (cases "provisioned p (hw d)")
  case True
  note f = keys_frame_fields [OF assms(1) True]
  note g = keys_frame_fields [OF assms(2) f(2)]
  have "frame p P {} (hw d) (hw d'')" using f(1) g(1) by (rule frame_trans_same)
  then show ?thesis unfolding keys_frame_def using f g by (intro impI conjI device.equality) simp_all
qed (simp add: keys_frame_def)

interpretation keys: command_frame "keys_frame p P" for p P
proof
  show "keys_frame p P d d" for d :: "'a device" by (simp add: keys_frame_def)
qed (rule keys_frame_trans)

lemma unread_keys: "dev_unread p d d' \<Longrightarrow> keys_frame p P d d'"
  by (auto simp: dev_unread_def keys_frame_def)

lemma keys_frame_on_hw: "steps (frame p P {}) m \<Longrightarrow> steps (keys_frame p P) (on_hw m)"
  by (rule stepsI) (auto simp: on_hw_success keys_frame_def dest: stepsD)

lemma keys_frame_ram:
  "steps (keys_frame p P) FreePublicKeyRam"
  "steps (keys_frame p P) (SetIsTempAccount isTemp)"
  "steps (keys_frame p P) (set_public_key i str)"
  "steps (keys_frame p P) (update_state (\<lambda>d. d\<lparr>g_tempPublicKeyAccountIndex := t\<rparr>))"
  by (auto simp: steps_def FreePublicKeyRam_def SetIsTempAccount_def set_public_key_def update_state_def keys_frame_def)

lemma keys_frame_reading:
  "steps (keys_frame p P) (GetAccountSeed p i password)"
  "steps (keys_frame p P) (GetAccountEntropy p i password)"
  "steps (keys_frame p P) (FlashReadRsaPrimes p)"
  by (blast intro: steps_mono dev_unread_GetAccountSeed dev_unread_secrets dev_unread_FlashReadRsaPrimes unread_keys)+

lemma keys_frame_flash:
  assumes "platform_ok p"
  shows "steps (frame p P A) (erase_area p addr len)" and "steps (frame p P A) (flash_write p addr data)"
proof -
  have "frame p P A h (fold (p_flash_erase p) xs h)" for xs h
    by (induction xs arbitrary: h) (auto intro: frame_trans_same [OF frame_mono [OF flash_laws(1) [OF assms]]])
  then show "steps (frame p P A) (erase_area p addr len)" by (auto simp: steps_def erase_area_def update_state_def)
  show "steps (frame p P A) (flash_write p addr data)"
    by (auto simp: steps_def flash_write_def case_prod_beta intro: frame_mono [OF flash_laws(2) [OF assms]])
qed

lemmas keys_rules = keys.steps_rules keys_frame_ram keys_frame_reading

lemma steps_ProcessKeyType: "steps (keys_frame p P) (ProcessKeyType p seed cryptoKey path icarus ledger)"
  unfolding ProcessKeyType_def by (cases cryptoKey) (auto intro!: keys_rules)

lemma steps_option: "steps R m \<Longrightarrow> (\<And>a. steps R (f a)) \<Longrightarrow> steps R (case x of None \<Rightarrow> m | Some a \<Rightarrow> f a)"
  by (cases x) simp_all

lemma steps_derive_keys: "steps (keys_frame p P) (derive_keys p isSlip39 seed icarus ledger items)"
proof (induction items)
  case (Cons it items)
  obtain i item where it: "it = (i, item)" by (cases it)
  show ?case
    unfolding it derive_keys.simps case_prod_beta by (intro keys_rules steps_option steps_ProcessKeyType Cons)
qed (simp add: keys.steps_succeed)

lemma steps_master_keys: "steps (keys_frame p P) (master_keys p i ent)"
  unfolding master_keys_def Let_def by (intro keys_rules) (auto intro!: keys_rules split: option.split)

lemma steps_ton_keys: "steps (keys_frame p P) (ton_keys p seed ent)"
  unfolding ton_keys_def by (intro keys_rules steps_ProcessKeyType) (auto intro!: keys_rules split: option.split)

lemma steps_wallet_hash:
  assumes "platform_ok p" and "PAGE_WALLET1_PUB_KEY_HASH + i \<in> P"
  shows "steps (frame p P A) (SetWalletDataHash p i info)" and "steps (frame p P A) (VerifyWalletDataHash p i info)"
proof -
  show s: "steps (frame p P A) (SetWalletDataHash p i info)" for info
    unfolding SetWalletDataHash_def by (intro chips.steps_rules SE_frames [OF assms(1)] assms(2))
  have "steps (frame p P A) (seq (code_of (SetWalletDataHash p i x)) (\<lambda>_. succeed True))" for x
    by (intro chips.steps_rules s)
  from stepsD [OF this] show "steps (frame p P A) (VerifyWalletDataHash p i info)"
    by (auto simp: VerifyWalletDataHash_def steps_def seq_Some require_def case_prod_beta Let_def split: if_splits)
qed

lemma steps_write_public_keys:
  assumes "platform_ok p" and "PAGE_WALLET1_PUB_KEY_HASH + i \<in> P"
  shows "steps (keys_frame p P) (write_public_keys p i addr)"
  unfolding write_public_keys_def Let_def
  by (intro keys_rules keys_frame_on_hw keys_frame_flash [OF assms(1)] steps_wallet_hash [OF assms])

lemma steps_read_keys: "steps (keys_frame p P) (read_keys keyJson items)"
  by (induction keyJson items rule: read_keys.induct) (auto intro!: keys_rules split: option.split)

lemma steps_GetPublicKeyFromJsonString: "steps (keys_frame p P) (GetPublicKeyFromJsonString p str)"
  unfolding GetPublicKeyFromJsonString_def by (auto intro!: keys_rules steps_read_keys split: option.split)

text \<open>The operations on the keys of account \<open>i\<close> write one page of the secure element, the one of their hash.\<close>

lemma public_info_frames:
  assumes ok: "platform_ok p" and P: "PAGE_WALLET1_PUB_KEY_HASH + i \<in> P"
  shows "steps (keys_frame p P) (AccountPublicInfoSwitch p i password newKey)"
    and "steps (keys_frame p P) (TempAccountPublicInfo p i password set_it)"
    and "steps (keys_frame p P) (DeleteAccountPublicInfo p i)"
proof -
  have save: "steps (keys_frame p P) (AccountPublicSavePublicInfo p i password addr)" for addr
    unfolding AccountPublicSavePublicInfo_def Let_def case_prod_beta
    by (intro keys_rules steps_master_keys steps_ton_keys steps_derive_keys steps_write_public_keys [OF assms])
  have read: "steps (keys_frame p P) (AccountPublicInfoReadFromFlash p i addr)" for addr
    unfolding AccountPublicInfoReadFromFlash_def Let_def case_prod_beta
    by (intro keys_rules keys_frame_on_hw steps_wallet_hash [OF assms] steps_GetPublicKeyFromJsonString)
  show "steps (keys_frame p P) (AccountPublicInfoSwitch p i password newKey)"
    unfolding AccountPublicInfoSwitch_def Let_def by (intro keys_rules save read)
  have rest: "steps (keys_frame p P) (seq (derive_keys p b seed icarus ledger items) (\<lambda>_.
      seq (update_state (\<lambda>d. d\<lparr>g_tempPublicKeyAccountIndex := i\<rparr>)) (\<lambda>_. lift_result r)))" for b seed icarus ledger items r
    by (intro keys_rules steps_derive_keys)
  have temp: "steps (keys_frame p P) (\<lambda>d. case (if b then succeed (None, None) else master_keys p i ent) d of
      None \<Rightarrow> None | Some (r, d) \<Rightarrow>
        (let (ret, icarus, ledger) = (case r of Inl ret \<Rightarrow> (ret, None, None) | Inr keys \<Rightarrow> (0, keys))
         in seq (derive_keys p b seed icarus ledger items) (\<lambda>_.
            seq (update_state (\<lambda>d. d\<lparr>g_tempPublicKeyAccountIndex := i\<rparr>)) (\<lambda>_. lift_result (outcome ret ())))) d)" for b ent seed items
    by (rule stepsI)
      (auto simp: Let_def case_prod_beta succeed_def split: option.splits if_splits
        dest!: stepsD [OF steps_master_keys] stepsD [OF rest] intro: keys.changed_twice)
  show "steps (keys_frame p P) (TempAccountPublicInfo p i password set_it)"
    unfolding TempAccountPublicInfo_def Let_def case_prod_beta
    by (intro keys_rules temp [unfolded Let_def case_prod_beta])
  show "steps (keys_frame p P) (DeleteAccountPublicInfo p i)"
    unfolding DeleteAccountPublicInfo_def
    by (intro keys_rules keys_frame_on_hw keys_frame_flash [OF ok])
qed

lemma keys_frame_account: "keys_frame p P d d' \<Longrightarrow> acct_frame p P A i d d'"
  by (auto simp: acct_frame_def GetMnemonicType_def keys_frame_fields intro: frame_mono [OF keys_frame_fields(1)])

lemma DeleteAccountPublicInfo_runs: "i \<le> 2 \<Longrightarrow> \<exists>d'. DeleteAccountPublicInfo p i d = Some (Inr (), d')"
  by (simp add: DeleteAccountPublicInfo_def seq_def cmd_eval on_hw_def erase_area_def FreePublicKeyRam_def)

lemma DeleteAccountPublicInfo_result:
  assumes "DeleteAccountPublicInfo p i d = Some (r, d')"
  shows "r = Inr ()" and "g_passphraseInfo d' = g_passphraseInfo d"
    and "platform_ok p \<Longrightarrow> frame p {} {} (hw d) (hw d')"
proof -
  obtain h1 h2 h3 where e1: "erase_area p (SPI_FLASH_ADDR_USER1_DATA + i * SPI_FLASH_ADDR_EACH_SIZE) SPI_FLASH_SIZE_USER1_DATA (hw d) = Some (Inr (), h1)"
    and e2: "erase_area p (SPI_FLASH_ADDR_USER1_MUTABLE_DATA + i * SPI_FLASH_ADDR_EACH_SIZE) SPI_FLASH_SIZE_USER1_MUTABLE_DATA h1 = Some (Inr (), h2)"
    and e3: "erase_area p (SPI_FLASH_ADDR_USER1_MULTI_SIG_DATA + i * SPI_FLASH_ADDR_EACH_SIZE) SPI_FLASH_SIZE_USER1_MULTI_SIG_DATA h2 = Some (Inr (), h3)"
    and rest: "FreePublicKeyRam (d\<lparr>hw := h3\<rparr>) = Some (r, d')"
    using assms by (auto simp: DeleteAccountPublicInfo_def seq_def require_def on_hw_def erase_area_def update_state_def split: if_splits)
  show "r = Inr ()" "g_passphraseInfo d' = g_passphraseInfo d" using rest by (auto simp: FreePublicKeyRam_def update_state_def)
  have "hw d' = h3" using rest by (auto simp: FreePublicKeyRam_def update_state_def)
  then show "frame p {} {} (hw d) (hw d')" if "platform_ok p"
    using stepsD [OF keys_frame_flash(1) [OF that] e1] stepsD [OF keys_frame_flash(1) [OF that] e2]
      stepsD [OF keys_frame_flash(1) [OF that] e3] by (metis frame_trans_same)
qed

end
