(* ===== verification/AccountManager.thy ===== *)
theory AccountManager
  imports PublicKeys
begin

text \<open>
  The accounts (\<^verbatim>\<open>src/managers/account_manager.c\<close>): creating, destroying, login with the counters
  of wrong passwords, and the check of the stored data at power on. \<open>AccountProps\<close> and
  \<open>AccountSuccess\<close> hold their properties.
\<close>

section \<open>Passwords and login\<close>

text \<open>This function hashes the whole password, the others its first 128 bytes.\<close>

definition VerifyCurrentAccountPassword :: "'h platform \<Rightarrow> bytes \<Rightarrow> ('h device, unit) cmd" where
  "VerifyCurrentAccountPassword p password =
     seq get_state (\<lambda>d.
     if g_currentAccountIndex d > 2 then fail_with ERR_KEYSTORE_NOT_LOGIN
     else
       seq (on_hw (SE_HmacEncryptRead p (account_page (g_currentAccountIndex d) PAGE_INDEX_PASSWORD_HASH))) (\<lambda>passwordHashStore.
       seq (on_hw (HashWithSalt p password (cstr ''password hash''))) (\<lambda>passwordHashClac.
       let match = (passwordHashStore = passwordHashClac) in
       seq (set_public_info (\<lambda>i. i\<lparr>pi_currentPasswordErrorCount := (if match then 0 else pi_currentPasswordErrorCount i + 1)\<rparr>)) (\<lambda>_.
       seq (ignoring (save_public_info p)) (\<lambda>_.
       if match then succeed () else fail_with ERR_KEYSTORE_PASSWORD_ERR)))))"

text \<open>
  Any failure of \<^verbatim>\<open>VerifyPassword\<close>, an error of a chip as well as a wrong password, is counted. The
  result of the write of the counters is not looked at.
\<close>

definition login_as :: "'h platform \<Rightarrow> nat \<Rightarrow> bytes \<Rightarrow> ('h device, nat) cmd" where
  "login_as p tempIndex password =
     seq (update_state (\<lambda>d. d\<lparr>g_currentAccountIndex := tempIndex, g_lastAccountIndex := tempIndex\<rparr>)) (\<lambda>_.
     seq (code_of (ReadCurrentAccountInfo p)) (\<lambda>ret.
     seq (set_public_info (\<lambda>i. i\<lparr>pi_loginPasswordErrorCount := 0, pi_currentPasswordErrorCount := 0\<rparr>)) (\<lambda>_.
     seq (PassphraseExist tempIndex) (\<lambda>exist.
     seq (if exist then seq (ignoring (TempAccountPublicInfo p tempIndex password False)) (\<lambda>_. succeed ret)
          else code_of (AccountPublicInfoSwitch p tempIndex password False)) (\<lambda>ret.
     seq (ignoring (save_public_info p)) (\<lambda>_.
     lift_result (outcome ret tempIndex)))))))"

definition count_failure :: "'h platform \<Rightarrow> int \<Rightarrow> ('h device, nat) cmd" where
  "count_failure p ret =
     seq (set_public_info (\<lambda>i. i\<lparr>pi_loginPasswordErrorCount := pi_loginPasswordErrorCount i + 1\<rparr>)) (\<lambda>_.
     seq (ignoring (save_public_info p)) (\<lambda>_.
     fail_with ret))"

definition VerifyPasswordAndLogin :: "'h platform \<Rightarrow> bytes \<Rightarrow> ('h device, nat) cmd" where
  "VerifyPasswordAndLogin p password d =
     (case VerifyPassword p password d of
        None \<Rightarrow> None
      | Some (Inr tempIndex, d) \<Rightarrow> login_as p tempIndex password d
      | Some (Inl ret, d) \<Rightarrow> count_failure p ret d)"

section \<open>Which accounts exist\<close>

fun count_accounts :: "'h platform \<Rightarrow> nat list \<Rightarrow> u8 \<Rightarrow> ('h, u8) cmd" where
  "count_accounts p [] num = succeed num"
| "count_accounts p (i # accounts) num =
     seq (SE_HmacEncryptRead p (account_page i PAGE_INDEX_IV)) (\<lambda>data.
     count_accounts p accounts (if CheckEntropy data then num + 1 else num))"

definition GetExistAccountNum :: "'h platform \<Rightarrow> ('h device, u8) cmd" where
  "GetExistAccountNum p = on_hw (count_accounts p [0, 1, 2] 0)"

fun blank_account :: "'h platform \<Rightarrow> nat list \<Rightarrow> ('h, nat) cmd" where
  "blank_account p [] = succeed 255"
| "blank_account p (i # accounts) =
     seq (SE_HmacEncryptRead p (account_page i PAGE_INDEX_IV)) (\<lambda>data.
     if \<not> CheckEntropy data then succeed i else blank_account p accounts)"

definition GetBlankAccountIndex :: "'h platform \<Rightarrow> ('h device, nat) cmd" where
  "GetBlankAccountIndex p = on_hw (blank_account p [0, 1, 2])"

section \<open>Creating and destroying accounts\<close>

definition erase_account :: "'h platform \<Rightarrow> nat \<Rightarrow> ('h, unit) cmd" where
  "erase_account p accountIndex = write_pages p accountIndex (map (\<lambda>i. (i, replicate 32 0)) [0..<PAGE_NUM_PER_ACCOUNT])"

definition DestroyAccount :: "'h platform \<Rightarrow> nat \<Rightarrow> ('h device, unit) cmd" where
  "DestroyAccount p accountIndex =
     seq (require (accountIndex \<le> 2)) (\<lambda>_.
     seq (code_of (on_hw (erase_account p accountIndex))) (\<lambda>ret.
     seq (DeleteAccountPublicInfo p accountIndex) (\<lambda>_.
     seq (ClearAccountPassphrase accountIndex) (\<lambda>_.
     seq (ignoring (on_hw (SetWalletDataHash p accountIndex (replicate 32 0)))) (\<lambda>_.
     seq LogoutCurrentAccount (\<lambda>_.
     seq (set_info (\<lambda>_. cleared_account_info)) (\<lambda>_.
     lift_result (outcome ret ()))))))))"

text \<open>The common start: the new account is the current one, with the cached name and icon.\<close>

definition begin_account :: "'h platform \<Rightarrow> nat \<Rightarrow> (account_info \<Rightarrow> account_info) \<Rightarrow> ('h device, unit) cmd" where
  "begin_account p accountIndex kind =
     seq (require (accountIndex \<le> 2)) (\<lambda>_.
     seq (ignoring (DestroyAccount p accountIndex)) (\<lambda>_.
     seq (update_state (\<lambda>d. d\<lparr>g_currentAccountInfo := kind cleared_account_info, g_currentAccountIndex := accountIndex\<rparr>)) (\<lambda>_.
     seq get_state (\<lambda>d.
     seq (SetWalletName p (SecretCacheGetWalletName (g_secretCache d))) (\<lambda>_.
     SetWalletIconIndex p (SecretCacheGetWalletIconIndex (g_secretCache d)))))))"

text \<open>The common end: the information is saved and the public keys are derived.\<close>

definition finish_account :: "'h platform \<Rightarrow> bytes \<Rightarrow> ('h device, unit) cmd" where
  "finish_account p password =
     seq (SaveCurrentAccountInfo p) (\<lambda>_.
     seq get_state (\<lambda>d. AccountPublicInfoSwitch p (g_currentAccountIndex d) password True))"

definition CreateNewAccount :: "'h platform \<Rightarrow> nat \<Rightarrow> bytes \<Rightarrow> bytes \<Rightarrow> ('h device, unit) cmd" where
  "CreateNewAccount p accountIndex ent password =
     seq (begin_account p accountIndex id) (\<lambda>_.
     seq (SaveNewBip39Entropy p accountIndex ent password) (\<lambda>_.
     finish_account p password))"

definition CreateNewSlip39Account ::
  "'h platform \<Rightarrow> nat \<Rightarrow> bytes \<Rightarrow> bytes \<Rightarrow> bytes \<Rightarrow> u16 \<Rightarrow> bool \<Rightarrow> u8 \<Rightarrow> ('h device, unit) cmd" where
  "CreateNewSlip39Account p accountIndex ems ent password ident eb ie =
     seq (begin_account p accountIndex (\<lambda>ai. ai\<lparr>ai_isSlip39 := True\<rparr>)) (\<lambda>_.
     seq (SaveNewSlip39Entropy p accountIndex ems ent password) (\<lambda>_.
     seq (set_info (\<lambda>ai. ai\<lparr>ai_slip39Id := ident, ai_slip39IeEb := ie OR push_bit 4 (of_bool eb)\<rparr>)) (\<lambda>_.
     finish_account p password)))"

definition CreateNewTonAccount :: "'h platform \<Rightarrow> nat \<Rightarrow> bytes \<Rightarrow> bytes \<Rightarrow> ('h device, unit) cmd" where
  "CreateNewTonAccount p accountIndex mnemonic password =
     seq (begin_account p accountIndex (\<lambda>ai. ai\<lparr>ai_isTon := True\<rparr>)) (\<lambda>_.
     seq (SaveNewTonMnemonic p accountIndex mnemonic password) (\<lambda>_.
     finish_account p password))"

section \<open>The check at power on\<close>

text \<open>
  An account with only one of its initialisation vector and its password hash is erased. A failed
  read ends the check of this and of the later accounts; a failed write only the erasing.
\<close>

fun accounts_check :: "'h platform \<Rightarrow> nat list \<Rightarrow> ('h, unit) cmd" where
  "accounts_check p [] = succeed ()"
| "accounts_check p (i # accounts) =
     seq (SE_HmacEncryptRead p (account_page i PAGE_INDEX_IV)) (\<lambda>iv.
     seq (SE_HmacEncryptRead p (account_page i PAGE_INDEX_PASSWORD_HASH)) (\<lambda>hash.
     seq (when_do (CheckEntropy iv \<noteq> CheckEntropy hash) (ignoring (erase_account p i))) (\<lambda>_.
     accounts_check p accounts)))"

definition AccountsDataCheck :: "'h platform \<Rightarrow> ('h device, unit) cmd" where
  "AccountsDataCheck p = ignoring (on_hw (accounts_check p [0, 1, 2]))"

end
