(* ===== verification/AccountProps.thy ===== *)
theory AccountProps
  imports AccountManager
begin

text \<open>
  Properties of the accounts: the operations on one account do not disturb another, a created account opens
  with its password, a destroyed one is blank, what the counters of wrong passwords count, and what
  the check at power on leaves.
\<close>

section \<open>What the operations on an account may change\<close>

text \<open>The chips change as \<open>frame\<close> allows, and of the passphrases only the one of account \<open>i\<close>.\<close>

definition dev_frame :: "'h platform \<Rightarrow> nat \<Rightarrow> nat set \<Rightarrow> nat set \<Rightarrow> 'h device \<Rightarrow> 'h device \<Rightarrow> bool" where
  "dev_frame p i P A d d' \<longleftrightarrow>
     (provisioned p (hw d) \<longrightarrow> frame p P A (hw d) (hw d') \<and> (\<forall>j. j \<noteq> i \<longrightarrow> g_passphraseInfo d' j = g_passphraseInfo d j))"

interpretation machine: command_frame "dev_frame p i P A" for p i P A
  by unfold_locales (auto simp: dev_frame_def provisioned_frame intro: frame_trans_same)

lemma steps_on_hw_dev: "steps (pframe p P A) m \<Longrightarrow> steps (dev_frame p i P A) (on_hw m)"
  by (rule stepsI) (auto simp: on_hw_success dev_frame_def pframe_def dest: stepsD)

lemma steps_update_dev:
  "(\<And>d. hw (f d) = hw d \<and> (\<forall>j. j \<noteq> i \<longrightarrow> g_passphraseInfo (f d) j = g_passphraseInfo d j)) \<Longrightarrow> steps (dev_frame p i P A) (update_state f)"
  by (rule machine.steps_update_state) (simp add: dev_frame_def)

lemma steps_enter:
  assumes "\<And>d. g_currentAccountIndex (f d) = i \<and> hw (f d) = hw d \<and> g_passphraseInfo (f d) = g_passphraseInfo d"
    and "steps (acct_frame p P A i) m"
  shows "steps (dev_frame p i P A) (seq (update_state f) (\<lambda>_. m))"
  by (rule stepsI) (use assms in \<open>auto simp: seq_def update_state_def dev_frame_def acct_frame_def dest!: stepsD\<close>)

lemma seq_assoc: "seq (seq m f) g = seq m (\<lambda>a. seq (f a) g)"
  by (rule ext) (simp add: seq_def split: option.split sum.split)

text \<open>The pages of an account and the page with the hash of its public keys.\<close>

definition own_pages :: "nat \<Rightarrow> nat set" where
  "own_pages i = account_pages i \<union> {PAGE_WALLET1_PUB_KEY_HASH + i}"

lemma own_pages_account: "account_pages i \<subseteq> own_pages i"
  by (auto simp: own_pages_def)

lemma own_page: "k < 12 \<Longrightarrow> account_page i k \<in> own_pages i"
  using account_pages_member own_pages_account by blast

lemma param_own: "account_page i PAGE_INDEX_PARAM \<in> own_pages i"
  by (simp add: own_page PAGE_INDEX_PARAM_def)

lemma own_pages_disjoint: "i \<le> 2 \<Longrightarrow> j \<le> 2 \<Longrightarrow> i \<noteq> j \<Longrightarrow> own_pages i \<inter> account_pages j = {}"
proof -
  assume ij: "i \<le> 2" "j \<le> 2" "i \<noteq> j"
  have "PAGE_WALLET1_PUB_KEY_HASH + i \<notin> account_pages j"
  proof
    assume "PAGE_WALLET1_PUB_KEY_HASH + i \<in> account_pages j"
    then obtain k where "k < 12" "85 + i = account_page j k"
      by (auto simp: account_pages_def PAGE_WALLET1_PUB_KEY_HASH_def PAGE_NUM_PER_ACCOUNT_def)
    with account_page_small [OF ij(2) \<open>k < 12\<close>] show False by simp
  qed
  with account_pages_disjoint [OF ij(3)] show ?thesis by (auto simp: own_pages_def)
qed

lemma steps_erase_account:
  "platform_ok p \<Longrightarrow> account_pages i \<subseteq> P \<Longrightarrow> steps (pframe p P A) (erase_account p i)"
  unfolding erase_account_def
  by (rule steps_write_pages) (auto simp: account_pages_def)

lemma steps_public_info:
  assumes "platform_ok p" and "PAGE_WALLET1_PUB_KEY_HASH + j \<in> P"
  shows "steps (acct_frame p P A i) (AccountPublicInfoSwitch p j password b)"
    and "steps (acct_frame p P A i) (TempAccountPublicInfo p j password b)"
  by (blast intro: steps_mono public_info_frames [OF assms] keys_frame_account)+

lemma keys_frame_dev: "keys_frame p P d d' \<Longrightarrow> dev_frame p i P A d d'"
  by (auto simp: dev_frame_def keys_frame_fields intro: frame_mono [OF keys_frame_fields(1)])

lemma steps_DestroyAccount:
  assumes ok: "platform_ok p"
  shows "steps (dev_frame p i (own_pages i) A) (DestroyAccount p i)"
proof -
  have del: "steps (dev_frame p i (own_pages i) A) (DeleteAccountPublicInfo p i)"
    by (rule steps_mono [OF public_info_frames(3) [OF ok] keys_frame_dev]) (simp_all add: own_pages_def)
  show ?thesis
    unfolding DestroyAccount_def ClearAccountPassphrase_def LogoutCurrentAccount_def set_info_def SetWalletDataHash_def
    by (intro machine.steps_rules del steps_on_hw_dev steps_erase_account [OF ok own_pages_account]
        provisioned_chips.steps_rules provisioned_SE_frames [OF ok] steps_update_dev) (simp_all add: own_pages_def)
qed

lemma steps_finish_account:
  assumes ok: "platform_ok p"
  shows "steps (acct_frame p (own_pages i) A i) (finish_account p password)"
proof -
  have "steps (acct_frame p (own_pages i) A i) (seq get_state (\<lambda>d. AccountPublicInfoSwitch p (g_currentAccountIndex d) password True))"
  proof (rule stepsI)
    fix d :: "'a device" and r d'
    assume "seq get_state (\<lambda>d. AccountPublicInfoSwitch p (g_currentAccountIndex d) password True) d = Some (r, d')"
    then have run: "AccountPublicInfoSwitch p (g_currentAccountIndex d) password True d = Some (r, d')"
      by (simp add: seq_def get_state_def)
    show "acct_frame p (own_pages i) A i d d'"
    proof (cases "g_currentAccountIndex d = i")
      case True
      then show ?thesis using stepsD [OF steps_public_info(1) [OF ok] run] by (simp add: own_pages_def)
    qed (simp add: acct_frame_def)
  qed
  then show ?thesis
    unfolding finish_account_def by (rule account.steps_seq [OF steps_SaveCurrentAccountInfo [OF ok param_own]])
qed

lemma steps_new_account_core:
  assumes ok: "platform_ok p"
    and f: "\<And>d. g_currentAccountIndex (f d) = i \<and> hw (f d) = hw d \<and> g_passphraseInfo (f d) = g_passphraseInfo d"
    and m: "steps (acct_frame p (own_pages i) {i} i) m"
  shows "steps (dev_frame p i (own_pages i) {i}) (seq (require (i \<le> 2)) (\<lambda>_. seq (ignoring (DestroyAccount p i)) (\<lambda>_.
    seq (update_state f) (\<lambda>_. m))))"
  by (rule machine.steps_guard, rule machine.steps_seq, rule machine.steps_ignoring, rule steps_DestroyAccount [OF ok],
      rule steps_enter [OF f m])

lemma creation_frames:
  assumes ok: "platform_ok p"
  shows "steps (dev_frame p i (own_pages i) {i}) (CreateNewAccount p i ent password)"
    and "steps (dev_frame p i (own_pages i) {i}) (CreateNewSlip39Account p i ems ent password ident eb ie)"
    and "steps (dev_frame p i (own_pages i) {i}) (CreateNewTonAccount p i mnemonic password)"
proof -
  note frames = account.steps_rules info_frames [OF ok param_own] new_account_frames [OF ok own_pages_account]
    steps_finish_account [OF ok]
  show "steps (dev_frame p i (own_pages i) {i}) (CreateNewAccount p i ent password)"
    unfolding CreateNewAccount_def begin_account_def seq_assoc
    by (rule steps_new_account_core [OF ok]; (intro frames)?) simp_all
  show "steps (dev_frame p i (own_pages i) {i}) (CreateNewSlip39Account p i ems ent password ident eb ie)"
    unfolding CreateNewSlip39Account_def begin_account_def seq_assoc
    by (rule steps_new_account_core [OF ok]; (intro frames steps_set_info)?) (simp_all add: wf_account_info_def)
  show "steps (dev_frame p i (own_pages i) {i}) (CreateNewTonAccount p i mnemonic password)"
    unfolding CreateNewTonAccount_def begin_account_def seq_assoc
    by (rule steps_new_account_core [OF ok]; (intro frames)?) simp_all
qed

section \<open>Accounts do not disturb each other\<close>

text \<open>\<open>m\<close> gives the same result, and changes nothing, on devices that agree on what it reads.\<close>

definition same_run :: "('h, 'a) cmd \<Rightarrow> 'h \<Rightarrow> 'h \<Rightarrow> bool" where
  "same_run m h h' \<longleftrightarrow> (m h = None \<and> m h' = None) \<or> (\<exists>r. m h = Some (r, h) \<and> m h' = Some (r, h'))"

definition same_on :: "'h platform \<Rightarrow> nat set \<Rightarrow> nat set \<Rightarrow> ('h, 'a) cmd \<Rightarrow> bool" where
  "same_on p P A m \<longleftrightarrow> (\<forall>h h'. provisioned p h \<longrightarrow> frame p P A h h' \<longrightarrow> same_run m h h')"

lemma same_onI: "(\<And>h h'. provisioned p h \<Longrightarrow> provisioned p h' \<Longrightarrow> frame p P A h h' \<Longrightarrow> same_run m h h') \<Longrightarrow> same_on p P A m"
  by (auto simp: same_on_def provisioned_frame)

lemma same_runI: "m h = Some (r, h) \<Longrightarrow> m h' = Some (r, h') \<Longrightarrow> same_run m h h'"
  by (auto simp: same_run_def)

lemma same_run_seq: "same_run m h h' \<Longrightarrow> (\<And>a. same_run (f a) h h') \<Longrightarrow> same_run (seq m f) h h'"
proof -
  assume m: "same_run m h h'" and f: "\<And>a. same_run (f a) h h'"
  consider "m h = None" "m h' = None" | e where "m h = Some (Inl e, h)" "m h' = Some (Inl e, h')"
    | a where "m h = Some (Inr a, h)" "m h' = Some (Inr a, h')"
    using m unfolding same_run_def by (metis sum.exhaust)
  then show ?thesis
  proof cases
    case (3 a)
    then show ?thesis using f [of a] by (simp add: same_run_def seq_def)
  qed (simp_all add: same_run_def seq_def)
qed

lemma same_on_seq: "same_on p P A m \<Longrightarrow> (\<And>a. same_on p P A (f a)) \<Longrightarrow> same_on p P A (seq m f)"
  by (simp add: same_on_def same_run_seq)

lemma same_on_if: "same_on p P A m \<Longrightarrow> same_on p P A n \<Longrightarrow> same_on p P A (if b then m else n)"
  by simp

lemma same_on_basic:
  "same_on p P A (succeed a)" "same_on p P A (fail_with e)" "same_on p P A (require b)"
  by (rule same_onI, simp add: same_run_def succeed_def fail_with_def require_def)+

lemma same_on_hash: "same_on p P A (HashWithSalt p inData saltString)"
  by (rule same_onI, rule same_runI, erule HashWithSalt_provisioned, simp add: HashWithSalt_provisioned salted_frame)

lemma same_on_key: "same_on p P A (CombineInnerAesKey p key)"
  by (rule same_onI, rule same_runI [where r = "Inr (xorb key (inner_key p h))" for h])
    (auto simp: CombineInnerAesKey_def otp_secret_def provisioned_def seq_def succeed_def inner_key_def frame_otp)

lemma same_on_read: "page \<notin> P \<Longrightarrow> same_on p P A (SE_HmacEncryptRead p page)"
  by (rule same_onI, rule same_runI) (simp_all add: SE_HmacEncryptRead_def frame_read case_prod_beta)

lemma same_on_kdf: "slot_owner slot \<notin> A \<Longrightarrow> same_on p P A (SE_Kdf p slot key inData)"
  by (rule same_onI, rule same_runI) (simp_all add: SE_Kdf_def frame_kdf case_prod_beta)

lemmas same_on_rules = same_on_seq same_on_if same_on_basic same_on_hash same_on_key same_on_read same_on_kdf

lemma same_on_read_pages: "\<forall>k\<in>set ks. account_page i k \<notin> P \<Longrightarrow> same_on p P A (read_pages p i ks)"
  by (induction ks) (auto intro!: same_on_rules)

lemma same_on_guard: "(b \<Longrightarrow> same_on p P A (f ())) \<Longrightarrow> same_on p P A (seq (require b) f)"
  by (cases b) (auto simp: same_on_def same_run_def seq_def require_def)

lemma same_on_pieces:
  assumes P: "account_pages i \<inter> P = {}" and A: "i \<notin> A"
  shows "same_on p P A (GetKeyPieceFromSE p i pieces password)"
proof -
  have page: "account_page i PAGE_INDEX_KEY_PIECE \<notin> P"
    using P account_pages_member [of PAGE_INDEX_KEY_PIECE i] by (auto simp: PAGE_INDEX_KEY_PIECE_def)
  have own: "slot_owner (slot_rollKdf (GetAccountSlot i)) \<notin> A" "slot_owner (slot_hostKdf (GetAccountSlot i)) \<notin> A" if "i \<le> 2"
    using GetAccountSlot_own [OF that] A by (simp_all add: own_slots_def)
  have a: "same_on p P A (GetKeyPieceFromAtecc608b p i password)"
    unfolding GetKeyPieceFromAtecc608b_def kdf_piece_def by (intro same_on_guard same_on_rules own)
  have b: "same_on p P A (GetKeyPieceFromDs28s60 p i password)"
    unfolding GetKeyPieceFromDs28s60_def by (intro same_on_guard same_on_rules page)
  show ?thesis
  proof (rule same_onI)
    fix h h' assume ok: "provisioned p h" "frame p P A h h'"
    have "same_run (GetKeyPieceFromAtecc608b p i password) h h'" "same_run (GetKeyPieceFromDs28s60 p i password) h h'"
      using a b ok by (simp_all add: same_on_def)
    then show "same_run (GetKeyPieceFromSE p i pieces password) h h'"
      by (auto simp: same_run_def GetKeyPieceFromSE_def Let_def split: sum.split)
  qed
qed

lemma same_on_load:
  assumes P: "account_pages i \<inter> P = {}" and A: "i \<notin> A"
  shows "same_on p P A (read_secret p i password)"
proof -
  have page: "account_page i k \<notin> P" if "k < 12" for k using P account_pages_member [OF that] by blast
  show ?thesis
    unfolding read_secret_def sha512_of_pieces_def case_prod_beta Let_def
    by (intro same_on_rules same_on_pieces assms same_on_read_pages)
      (auto intro!: page simp: PAGE_INDEX_IV_def PAGE_INDEX_ENTROPY_def PAGE_INDEX_SEED_H32_def PAGE_INDEX_SEED_L32_def
        PAGE_INDEX_SLIP39_EMS_def PAGE_INDEX_RESERVED_def PAGE_INDEX_HMAC_def PAGE_INDEX_PARAM_def)
qed

lemma read_pages_total: "\<exists>r. read_pages p i ks h = Some (r, h)"
proof (induction ks)
  case (Cons k ks)
  then obtain r where "read_pages p i ks h = Some (r, h)" by blast
  then show ?case by (cases r) (auto simp: seq_def SE_HmacEncryptRead_def case_prod_beta outcome_def cmd_eval)
qed (simp add: cmd_eval)

lemma read_secret_total: "provisioned p h \<Longrightarrow> i \<le> 2 \<Longrightarrow> read_secret p i password h \<noteq> None"
proof -
  assume ok: "provisioned p h" and i: "i \<le> 2"
  obtain ret pieces where gp: "GetKeyPieceFromSE p i (p_uninit p 64) password h = Some (Inr (ret, pieces), h)"
    using GetKeyPieceFromSE_result [OF ok i] by blast
  obtain r where rp: "read_pages p i [PAGE_INDEX_IV, PAGE_INDEX_ENTROPY, PAGE_INDEX_SEED_H32, PAGE_INDEX_SEED_L32, PAGE_INDEX_SLIP39_EMS,
        PAGE_INDEX_RESERVED, PAGE_INDEX_HMAC, PAGE_INDEX_PARAM] h = Some (r, h)"
    by (rule exE [OF read_pages_total])
  show ?thesis
    by (cases r) (auto simp: read_secret_def seq_result(1) [of "GetKeyPieceFromSE p i (p_uninit p 64) password", OF gp]
      seq_sha512_of_pieces [OF ok] seq_def [of "read_pages _ _ _"] rp Let_def cmd_eval seq_CombineInnerAesKey [OF ok]
      seq_def [of "succeed _"] seq_def [of "fail_with _"] simp del: read_pages.simps)
qed

text \<open>While account \<open>i\<close> is the current one: it stays so, and the rest is as above.\<close>

definition at_frame :: "'h platform \<Rightarrow> nat \<Rightarrow> nat set \<Rightarrow> nat set \<Rightarrow> 'h device \<Rightarrow> 'h device \<Rightarrow> bool" where
  "at_frame p i P A d d' \<longleftrightarrow> (g_currentAccountIndex d = i \<longrightarrow> provisioned p (hw d) \<longrightarrow> g_currentAccountIndex d' = i \<and> dev_frame p i P A d d')"

interpretation current: command_frame "at_frame p i P A" for p i P A
proof
  show "at_frame p i P A d d" for d :: "'a device" by (simp add: at_frame_def machine.unchanged)
  show "at_frame p i P A d d''" if "at_frame p i P A d d'" "at_frame p i P A d' d''" for d d' d'' :: "'a device"
    using that machine.changed_twice [of p i P A d d' d''] by (auto simp: at_frame_def dev_frame_def provisioned_frame)
qed

lemma acct_at_frame: "acct_frame p P A i d d' \<Longrightarrow> at_frame p i P A d d'"
  by (auto simp: acct_frame_def at_frame_def dev_frame_def)

lemma keys_at_frame: "keys_frame p P d d' \<Longrightarrow> at_frame p i P A d d'"
  by (rule acct_at_frame [OF keys_frame_account])

lemma at_frame_ram:
  "steps (at_frame p i P A) (set_info f)"
  "steps (at_frame p i P A) (set_passphrase_info i g)"
  "steps (at_frame p i P A) (ClearAccountPassphrase i)"
  by (auto simp: steps_def set_info_def set_passphrase_info_def ClearAccountPassphrase_def update_state_def succeed_def at_frame_def dev_frame_def)

lemma at_frame_SaveCurrentAccountInfo:
  "platform_ok p \<Longrightarrow> steps (at_frame p i (own_pages i) A) (SaveCurrentAccountInfo p)"
  by (rule steps_mono [OF steps_SaveCurrentAccountInfo [OF _ param_own] acct_at_frame])

text \<open>The commands that change the information of the account that is logged in.\<close>

inductive info_command :: "'h platform \<Rightarrow> ('h device, unit) cmd \<Rightarrow> bool" for p where
  info_save: "info_command p (SaveCurrentAccountInfo p)"
| info_read: "info_command p (ReadCurrentAccountInfo p)"
| info_name: "info_command p (SetWalletName p walletName)"
| info_icon: "info_command p (SetWalletIconIndex p iconIndex)"
| info_passcode: "info_command p (SetPasscodeType p passcodeType)"
| info_mnemonic: "info_command p (SetMnemonicType p mnemonicType)"
| info_mark: "info_command p (SetPassphraseMark p enable)"
| info_quick: "info_command p (SetPassphraseQuickAccess p enable)"
| info_fingerprint: "info_command p (SetCurrentAccountMfp mfp)"
| info_length: "info_command p (SetCurrentAccountEntropyLen len)"

lemma steps_info_command:
  assumes ok: "platform_ok p" and m: "info_command p m"
  shows "steps (at_frame p i (own_pages i) A) m"
proof -
  have exist: "steps (at_frame p i (own_pages i) A) (PassphraseExist j)" for j
    by (rule steps_mono [OF steps_PassphraseExist acct_at_frame])
  have read: "steps (at_frame p i (own_pages i) A) (on_hw (SE_HmacEncryptRead p page))" for page
    by (rule steps_mono [OF steps_on_hw [OF provisioned_SE_frames(4) [OF ok]] acct_at_frame])
  note rules = current.steps_rules at_frame_ram at_frame_SaveCurrentAccountInfo [OF ok] exist read
  show ?thesis
    using m by (cases rule: info_command.cases)
      (simp_all add: ReadCurrentAccountInfo_def SetWalletName_def SetWalletIconIndex_def SetPasscodeType_def SetMnemonicType_def
        SetPassphraseMark_def SetPassphraseQuickAccess_def SetCurrentAccountMfp_def SetCurrentAccountEntropyLen_def rules)
qed

lemma steps_SetPassphrase:
  assumes ok: "platform_ok p"
  shows "steps (at_frame p i (own_pages i) A) (SetPassphrase p i passphrase password)"
proof -
  have seed: "steps (at_frame p i (own_pages i) A) (GetPassphraseSeed p i passphrase password)"
    by (rule steps_mono [OF dev_unread_GetPassphraseSeed keys_at_frame [OF unread_keys]])
  have keys: "steps (at_frame p i (own_pages i) A) (TempAccountPublicInfo p i password True)"
    "steps (at_frame p i (own_pages i) A) (AccountPublicInfoSwitch p i password False)"
    by (rule steps_mono [OF public_info_frames(2) [OF ok] keys_at_frame] steps_mono [OF public_info_frames(1) [OF ok] keys_at_frame];
        simp add: own_pages_def)+
  show ?thesis
    unfolding SetPassphrase_def Let_def case_prod_beta
    by (intro current.steps_rules steps_option seed at_frame_ram keys steps_info_command [OF ok info_mark])
qed

text \<open>
  The commands that belong to no account, and those on the pages of the fingerprints: with login, they write the pages
  that follow those of the accounts.
\<close>

definition shared_pages :: "nat set" where
  "shared_pages = {PAGE_PF_ENCRYPTED_PASSWORD..PAGE_PUBLIC_INFO}"

lemma shared_page_bounds: "page \<in> shared_pages \<longleftrightarrow> 72 \<le> page \<and> page \<le> 88"
  by (simp add: shared_pages_def PAGE_PF_ENCRYPTED_PASSWORD_def PAGE_PUBLIC_INFO_def)

inductive shared_command :: "'h platform \<Rightarrow> ('h device, unit) cmd \<Rightarrow> bool" for p where
  shared_logout: "shared_command p LogoutCurrentAccount"
| shared_relogin: "shared_command p SetCurrentAccountIndex"
| shared_init: "shared_command p (AccountManagerInit p)"
| shared_lock_time: "shared_command p (SetLastLockDeviceTime p timeStamp)"
| shared_erase: "shared_command p (ErasePublicInfo p)"
| shared_reset_count: "shared_command p (ClearCurrentPasswordErrorCount p)"
| shared_verify: "shared_command p (VerifyCurrentAccountPassword p password)"
| shared_login: "shared_command p (ignoring (VerifyPasswordAndLogin p password))"
| shared_entropy: "shared_command p (ignoring (GenerateEntropy p len password))"
| shared_fp_password: "shared_command p (on_hw (SetFpEncryptedPassword p index b))"
| shared_fp_state: "shared_command p (on_hw (SetFpStateInfo p b))"
| shared_fp_aes: "shared_command p (on_hw (SetFpCommAesKey p b))"
| shared_fp_reset: "shared_command p (on_hw (SetFpResetKey p b))"

lemma verify_accounts_member: "verify_accounts p password xs h = Some (Inr i, h') \<Longrightarrow> i \<in> set xs"
  by (induction xs arbitrary: h) (auto simp: seq_success fail_with_def succeed_def split: if_splits)

lemma steps_VerifyPasswordAndLogin:
  assumes ok: "platform_ok p"
  shows "steps (dev_frame p i shared_pages A) (VerifyPasswordAndLogin p password)"
proof -
  have save: "steps (dev_frame p i shared_pages A) (save_public_info p)"
    unfolding save_public_info_def
    by (intro machine.steps_rules steps_on_hw_dev provisioned_SE_frames [OF ok]) (simp add: shared_page_bounds PAGE_PUBLIC_INFO_def)
  have public: "steps (dev_frame p i shared_pages A) (set_public_info f)" for f
    unfolding set_public_info_def by (intro steps_update_dev) simp
  have exist: "steps (dev_frame p i shared_pages A) (PassphraseExist j)" for j
    by (rule steps_mono [OF dev_unread_PassphraseExist keys_frame_dev [OF unread_keys]])
  have fail: "steps (dev_frame p i shared_pages A) (count_failure p ret)" for ret
    unfolding count_failure_def by (intro machine.steps_rules save public)
  have login: "steps (dev_frame p i shared_pages A) (login_as p t password)" if "t \<le> 2" for t
  proof -
    have t: "PAGE_WALLET1_PUB_KEY_HASH + t \<in> shared_pages" using that by (simp add: shared_page_bounds PAGE_WALLET1_PUB_KEY_HASH_def)
    have keys: "steps (dev_frame p i shared_pages A) (AccountPublicInfoSwitch p t password False)"
      "steps (dev_frame p i shared_pages A) (TempAccountPublicInfo p t password False)"
      by (rule steps_mono [OF public_info_frames(1) [OF ok t] keys_frame_dev] steps_mono [OF public_info_frames(2) [OF ok t] keys_frame_dev];
          assumption)+
    show ?thesis
      unfolding login_as_def ReadCurrentAccountInfo_def set_info_def
      by (intro machine.steps_rules save public exist keys steps_update_dev steps_on_hw_dev provisioned_SE_frames [OF ok]) simp_all
  qed
  show ?thesis
  proof (rule stepsI)
    fix d :: "'a device" and r d'
    assume run: "VerifyPasswordAndLogin p password d = Some (r, d')"
    then obtain x d1 where v: "VerifyPassword p password d = Some (x, d1)" by (auto simp: VerifyPasswordAndLogin_def split: option.splits)
    have t: "t \<le> 2" if "x = Inr t" for t
      using verify_accounts_member [of p password "[0, 1, 2]"] v that by (fastforce simp: VerifyPassword_def on_hw_success simp del: verify_accounts.simps)
    have "dev_frame p i shared_pages A d d1"
      using VerifyPassword_state [OF _ v] by (auto simp: dev_frame_def)
    moreover have "dev_frame p i shared_pages A d1 d'"
      using run v stepsD [OF login [OF t]] stepsD [OF fail] by (cases x) (auto simp: VerifyPasswordAndLogin_def)
    ultimately show "dev_frame p i shared_pages A d d'" by (rule machine.changed_twice)
  qed
qed

lemma steps_shared_command:
  assumes ok: "platform_ok p" and m: "shared_command p m"
  shows "steps (dev_frame p i shared_pages A) m"
proof -
  have save: "steps (dev_frame p i shared_pages A) (save_public_info p)"
    unfolding save_public_info_def
    by (intro machine.steps_rules steps_on_hw_dev provisioned_SE_frames [OF ok]) (simp add: shared_page_bounds PAGE_PUBLIC_INFO_def)
  have public: "steps (dev_frame p i shared_pages A) (set_public_info f)" for f
    unfolding set_public_info_def by (intro steps_update_dev) simp
  have init: "steps (dev_frame p i shared_pages A) (AccountManagerInit p)"
    by (rule stepsI) (auto simp: AccountManagerInit_def dev_frame_def case_prod_beta)
  have chip: "steps (dev_frame p i shared_pages A) (on_hw m)" if "steps (frame p shared_pages A) m" for m :: "('a, 'b) cmd"
    by (rule steps_on_hw_dev [OF steps_mono [OF that frame_pframe]])
  have hash: "steps (dev_frame p i shared_pages A) (on_hw (HashWithSalt p x str))" for x str
    by (rule steps_on_hw_dev [OF hash_frames(1)])
  have entropy: "steps (dev_frame p i shared_pages A) (GenerateEntropy p len password)" for len password
    unfolding GenerateEntropy_def Let_def SE_GetTRng_def
    by (intro steps_on_hw_dev provisioned_chips.steps_rules hash_frames provisioned_SE_frames [OF ok]
        steps_mono [OF SE_frames(7) [OF ok] frame_pframe] steps_mono [OF SE_frames(8) [OF ok] frame_pframe])
  have verify: "steps (dev_frame p i shared_pages A) (VerifyCurrentAccountPassword p password)" for password
    unfolding VerifyCurrentAccountPassword_def Let_def
    by (intro machine.steps_rules save public hash steps_on_hw_dev provisioned_SE_frames [OF ok])
  note rules = machine.steps_rules save public init entropy verify steps_VerifyPasswordAndLogin [OF ok]
  have fp: "steps (dev_frame p i shared_pages A) (on_hw (SetFpEncryptedPassword p index b))"
    "steps (dev_frame p i shared_pages A) (on_hw (SetFpStateInfo p b))"
    "steps (dev_frame p i shared_pages A) (on_hw (SetFpCommAesKey p b))"
    "steps (dev_frame p i shared_pages A) (on_hw (SetFpResetKey p b))" for index b
    unfolding SetFpEncryptedPassword_def SetFpStateInfo_def SetFpCommAesKey_def SetFpResetKey_def
    by (intro chip chips.steps_rules SE_frames [OF ok];
        simp add: shared_page_bounds PAGE_PF_ENCRYPTED_PASSWORD_def PAGE_PF_INFO_def PAGE_PF_AES_KEY_def PAGE_PF_RESET_KEY_def)+
  have index: "steps (dev_frame p i shared_pages A) LogoutCurrentAccount" "steps (dev_frame p i shared_pages A) SetCurrentAccountIndex"
    unfolding LogoutCurrentAccount_def SetCurrentAccountIndex_def by (intro steps_update_dev; simp)+
  from m show ?thesis
    by (cases rule: shared_command.cases)
      (simp_all add: SetLastLockDeviceTime_def ErasePublicInfo_def ClearCurrentPasswordErrorCount_def
        rules fp index)
qed

text \<open>An operation that belongs to account \<open>i\<close>, whatever it returns.\<close>

inductive account_operation :: "'h platform \<Rightarrow> nat \<Rightarrow> 'h device \<Rightarrow> 'h device \<Rightarrow> bool" for p i where
  create: "CreateNewAccount p i ent password d = Some (r, d') \<Longrightarrow> account_operation p i d d'"
| create_slip39: "CreateNewSlip39Account p i ems ent password ident eb ie d = Some (r, d') \<Longrightarrow> account_operation p i d d'"
| create_ton: "CreateNewTonAccount p i mnemonic password d = Some (r, d') \<Longrightarrow> account_operation p i d d'"
| destroy: "DestroyAccount p i d = Some (r, d') \<Longrightarrow> account_operation p i d d'"
| change: "ChangePassword p i newPassword password d = Some (r, d') \<Longrightarrow> account_operation p i d d'"
| set_passphrase: "SetPassphrase p i passphrase password d = Some (r, d') \<Longrightarrow> g_currentAccountIndex d = i \<Longrightarrow> account_operation p i d d'"
| clear_passphrase: "ClearAccountPassphrase i d = Some (r, d') \<Longrightarrow> account_operation p i d d'"
| information: "m d = Some (r, d') \<Longrightarrow> info_command p m \<Longrightarrow> g_currentAccountIndex d = i \<Longrightarrow> account_operation p i d d'"
| public_keys: "AccountPublicInfoSwitch p i password newKey d = Some (r, d') \<Longrightarrow> account_operation p i d d'"
| temporary_keys: "TempAccountPublicInfo p i password set_it d = Some (r, d') \<Longrightarrow> account_operation p i d d'"
| delete_keys: "DeleteAccountPublicInfo p i d = Some (r, d') \<Longrightarrow> account_operation p i d d'"
| multisig: "on_hw (SetMultisigDataHash p i info) d = Some (r, d') \<Longrightarrow> account_operation p i d d'"

lemma dev_unread_dev_frame: "dev_unread p d d' \<Longrightarrow> dev_frame p i P A d d'"
  by (rule keys_frame_dev [OF unread_keys])

lemma steps_ChangePassword:
  assumes ok: "platform_ok p"
  shows "steps (dev_frame p i (own_pages i) {i}) (ChangePassword p i newPassword password)"
proof -
  have check: "steps (dev_frame p i (own_pages i) {i}) (CheckPasswordExisted p newPassword i)"
    by (rule stepsI) (auto simp: dev_frame_def dest: CheckPasswordExisted_state)
  show ?thesis
    unfolding ChangePassword_def SaveAccountSecret_def write_password_hash_def when_do_def
    by (intro machine.steps_rules steps_mono [OF dev_unread_LoadAccountSecret dev_unread_dev_frame] check steps_on_hw_dev
        steps_write_secret [OF ok] provisioned_chips.steps_rules hash_frames provisioned_SE_frames [OF ok])
      (auto simp: own_page PAGE_INDEX_PASSWORD_HASH_def intro: secret_pages_subset [THEN subsetD] own_pages_account [THEN subsetD])
qed

lemma account_operation_frame:
  assumes ok: "platform_ok p" and run: "account_operation p i d d'"
  shows "dev_frame p i (own_pages i) {i} d d'"
proof -
  have hash: "PAGE_WALLET1_PUB_KEY_HASH + i \<in> own_pages i" by (simp add: own_pages_def)
  have multisig: "steps (dev_frame p i (own_pages i) {i}) (on_hw (SetMultisigDataHash p i info))" for info
    unfolding SetMultisigDataHash_def
    by (intro steps_on_hw_dev provisioned_chips.steps_rules provisioned_SE_frames [OF ok] own_page) (simp add: PAGE_INDEX_MULTISIG_CONFIG_HASH_def)
  have clear: "steps (dev_frame p i (own_pages i) {i}) (ClearAccountPassphrase i)"
    unfolding ClearAccountPassphrase_def by (intro machine.steps_rules steps_update_dev) simp
  have at_dev: "at_frame p i P A d d' \<Longrightarrow> g_currentAccountIndex d = i \<Longrightarrow> dev_frame p i P A d d'" for P A
    by (auto simp: at_frame_def dev_frame_def)
  from run show ?thesis
  proof (cases rule: account_operation.cases)
    case (set_passphrase passphrase password r)
    then show ?thesis using at_dev stepsD [OF steps_SetPassphrase [OF ok]] by blast
  next
    case (information m r)
    then show ?thesis using at_dev stepsD [OF steps_info_command [OF ok]] by blast
  next
    case (public_keys password newKey r)
    then show ?thesis using keys_frame_dev stepsD [OF public_info_frames(1) [OF ok hash]] by blast
  next
    case (temporary_keys password set_it r)
    then show ?thesis using keys_frame_dev stepsD [OF public_info_frames(2) [OF ok hash]] by blast
  next
    case (delete_keys r)
    then show ?thesis using keys_frame_dev stepsD [OF public_info_frames(3) [OF ok hash]] by blast
  qed (auto dest: stepsD [OF creation_frames(1) [OF ok]] stepsD [OF creation_frames(2) [OF ok]] stepsD [OF creation_frames(3) [OF ok]]
        stepsD [OF steps_DestroyAccount [OF ok]] stepsD [OF steps_ChangePassword [OF ok]] stepsD [OF multisig] stepsD [OF clear])
qed

text \<open>Any sequence of operations on accounts other than \<open>j\<close> and of commands that belong to no account.\<close>

inductive operations_elsewhere :: "'h platform \<Rightarrow> nat \<Rightarrow> 'h device \<Rightarrow> 'h device \<Rightarrow> bool" for p j where
  elsewhere_none: "operations_elsewhere p j d d"
| elsewhere_account: "operations_elsewhere p j d d' \<Longrightarrow> i \<le> 2 \<Longrightarrow> i \<noteq> j \<Longrightarrow> account_operation p i d' d'' \<Longrightarrow>
    operations_elsewhere p j d d''"
| elsewhere_shared: "operations_elsewhere p j d d' \<Longrightarrow> shared_command p m \<Longrightarrow> m d' = Some (r, d'') \<Longrightarrow>
    operations_elsewhere p j d d''"

lemma operations_elsewhere_frame:
  assumes ok: "platform_ok p" and prov: "provisioned p (hw d)" and j: "j \<le> 2" and run: "operations_elsewhere p j d d'"
  shows "frame p (- account_pages j) (- {j}) (hw d) (hw d') \<and> g_passphraseInfo d' j = g_passphraseInfo d j"
  using run prov
proof (induction rule: operations_elsewhere.induct)
  case (elsewhere_account d d' i d'')
  note IH = elsewhere_account.IH [OF elsewhere_account.prems]
  have "own_pages i \<subseteq> - account_pages j" using own_pages_disjoint [of i j] elsewhere_account.hyps j by auto
  moreover have "provisioned p (hw d')" using IH elsewhere_account.prems by (auto simp: provisioned_frame)
  ultimately have "frame p (- account_pages j) (- {j}) (hw d') (hw d'')" "g_passphraseInfo d'' j = g_passphraseInfo d' j"
    using account_operation_frame [OF ok elsewhere_account.hyps(4)] elsewhere_account.hyps(3)
    by (auto simp: dev_frame_def elim!: frame_mono)
  then show ?case using IH frame_trans_same by metis
next
  case (elsewhere_shared d d' m r d'')
  note IH = elsewhere_shared.IH [OF elsewhere_shared.prems]
  have "shared_pages \<subseteq> - account_pages j"
  proof
    fix page assume page: "page \<in> shared_pages"
    show "page \<in> - account_pages j"
    proof
      assume "page \<in> account_pages j"
      then obtain k where "k < 12" "page = account_page j k" by (auto simp: account_pages_def PAGE_NUM_PER_ACCOUNT_def)
      with account_page_small [OF j, of k] page show False by (simp add: shared_page_bounds)
    qed
  qed
  moreover have "provisioned p (hw d')" using IH elsewhere_shared.prems by (auto simp: provisioned_frame)
  moreover have "dev_frame p (Suc j) shared_pages {} d' d''"
    using stepsD [OF steps_shared_command [OF ok elsewhere_shared.hyps(2)] elsewhere_shared.hyps(3)] .
  ultimately have "frame p (- account_pages j) (- {j}) (hw d') (hw d'')" "g_passphraseInfo d'' j = g_passphraseInfo d' j"
    by (auto simp: dev_frame_def elim!: frame_mono)
  then show ?case using IH frame_trans_same by metis
qed simp

text \<open>
  C2: Whatever happens to the other accounts - creating, destroying, re-keying, passphrases, information, public keys, in any
  order and however each operation ends - and whatever login, the counters and the fingerprints do: account \<open>j\<close> keeps its twelve pages, its
  passphrase, the passwords it accepts, and answers every password with the same secret or the same error.
\<close>

theorem other_accounts_undisturbed:
  assumes ok: "platform_ok p" "provisioned p (hw d)" and run: "operations_elsewhere p j d d'" and j: "j \<le> 2"
  shows "(\<forall>k<12. p_read p (account_page j k) (hw d') = p_read p (account_page j k) (hw d)) \<and>
    g_passphraseInfo d' j = g_passphraseInfo d j \<and>
    (\<forall>password. accepts p password (hw d') j = accepts p password (hw d) j) \<and>
    (\<forall>password. \<exists>r. LoadAccountSecret p j password d = Some (r, d) \<and> LoadAccountSecret p j password d' = Some (r, d'))"
proof -
  note fr = operations_elsewhere_frame [OF ok j run]
  then have f: "frame p (- account_pages j) (- {j}) (hw d) (hw d')" by simp
  have pages: "p_read p (account_page j k) (hw d') = p_read p (account_page j k) (hw d)" if "k < 12" for k
    using frame_read [OF f] account_pages_member [OF that] by blast
  have accepted: "accepts p password (hw d') j = accepts p password (hw d) j" for password
    using pages [of PAGE_INDEX_PASSWORD_HASH] salted_frame [OF f]
    by (simp add: accepts_def stored_hash_def password_digest_def PAGE_INDEX_PASSWORD_HASH_def)
  have "\<exists>r. LoadAccountSecret p j password d = Some (r, d) \<and> LoadAccountSecret p j password d' = Some (r, d')" for password
  proof -
    have "same_on p (- account_pages j) (- {j}) (read_secret p j password)" by (intro same_on_load) auto
    then have "same_run (read_secret p j password) (hw d) (hw d')"
      using ok(2) f by (simp add: same_on_def)
    moreover have "read_secret p j password (hw d) \<noteq> None" by (rule read_secret_total [OF ok(2) j])
    ultimately show ?thesis by (auto simp: same_run_def LoadAccountSecret_eq [OF j] on_hw_def)
  qed
  with pages accepted fr show ?thesis by blast
qed

section \<open>A created account opens with its password\<close>

lemma cleared_flags: "\<not> ai_isSlip39 cleared_account_info" "\<not> ai_isTon cleared_account_info"
  by (simp_all add: cleared_account_info_def bytes_account_info_def)

lemma DestroyAccount_ram:
  assumes "DestroyAccount p i d = Some (r, d')"
  shows "i \<le> 2" and "g_passphraseInfo d' i = cleared_passphrase_info" and "g_currentAccountIndex d' = ACCOUNT_INDEX_LOGOUT"
    and "g_currentAccountInfo d' = cleared_account_info"
  using assms
  by (auto simp: DestroyAccount_def seq_Some require_def ClearAccountPassphrase_def LogoutCurrentAccount_def set_info_def
      update_state_def ignoring_result lift_result_def code_of_def on_hw_def succeed_def split: if_splits option.splits sum.splits dest!: DeleteAccountPublicInfo_result(1))

lemma begin_account_success:
  assumes ok: "platform_ok p" "provisioned p (hw d)" and run: "begin_account p i kind d = Some (Inr u, d')"
    and kind: "wf_account_info (kind cleared_account_info)"
  shows "i \<le> 2" and "g_currentAccountIndex d' = i" and "provisioned p (hw d')" and "wf_account_info (g_currentAccountInfo d')"
    and "g_passphraseInfo d' i = cleared_passphrase_info"
    and "GetMnemonicType d' = GetMnemonicType (d\<lparr>g_currentAccountInfo := kind cleared_account_info\<rparr>)"
proof -
  obtain r d1 where i: "i \<le> 2" and destroy: "DestroyAccount p i d = Some (r, d1)"
    and rest: "seq get_state (\<lambda>d. seq (SetWalletName p (SecretCacheGetWalletName (g_secretCache d)))
        (\<lambda>_. SetWalletIconIndex p (SecretCacheGetWalletIconIndex (g_secretCache d))))
      (d1\<lparr>g_currentAccountInfo := kind cleared_account_info, g_currentAccountIndex := i\<rparr>) = Some (Inr u, d')"
    using run by (auto simp: begin_account_def seq_success require_success ignoring_result update_state_def split: option.splits)
  let ?d2 = "d1\<lparr>g_currentAccountInfo := kind cleared_account_info, g_currentAccountIndex := i\<rparr>"
  have f: "frame p (own_pages i) {} (hw d) (hw d1)"
    using stepsD [OF steps_DestroyAccount [OF ok(1)] destroy] ok(2) by (simp add: dev_frame_def)
  have prov: "provisioned p (hw ?d2)" using ok(2) provisioned_frame [OF f] by simp
  have "steps (acct_frame p (own_pages i) {} i) (seq get_state (\<lambda>d. seq (SetWalletName p (SecretCacheGetWalletName (g_secretCache d)))
        (\<lambda>_. SetWalletIconIndex p (SecretCacheGetWalletIconIndex (g_secretCache d)))))"
    by (intro account.steps_rules info_frames [OF ok(1) param_own])
  note stepsD [OF this rest]
  with prov have a: "g_currentAccountIndex d' = i \<and> frame p (own_pages i) {} (hw ?d2) (hw d') \<and>
      (wf_account_info (kind cleared_account_info) \<longrightarrow> wf_account_info (g_currentAccountInfo d')) \<and>
      GetMnemonicType d' = GetMnemonicType ?d2 \<and> g_passphraseInfo d' = g_passphraseInfo d1"
    by (simp add: acct_frame_def)
  show "i \<le> 2" "g_currentAccountIndex d' = i" "wf_account_info (g_currentAccountInfo d')" using i a kind by simp_all
  show "provisioned p (hw d')" using a prov by (auto simp: provisioned_frame)
  show "g_passphraseInfo d' i = cleared_passphrase_info" using a DestroyAccount_ram(2) [OF destroy] by simp
  show "GetMnemonicType d' = GetMnemonicType (d\<lparr>g_currentAccountInfo := kind cleared_account_info\<rparr>)"
    using a by (simp add: GetMnemonicType_def)
qed

lemma SaveAccountSecret_len:
  assumes "SaveAccountSecret p i a password True d = Some (Inr u, d')"
  shows "ai_entropyLen (g_currentAccountInfo d') = as_entropyLen a"
proof -
  obtain d1 d2 where s: "set_master_fingerprint p a d1 = Some (Inr (), d2)" "ai_entropyLen (g_currentAccountInfo d1) = as_entropyLen a"
    and t: "ignoring (SaveCurrentAccountInfo p) d2 = Some (Inr u, d')"
    using assms by (auto simp: SaveAccountSecret_def seq_success cmd_eval(7) SetCurrentAccountEntropyLen_def set_info_def update_state_def)
  have "ai_entropyLen (g_currentAccountInfo d2) = ai_entropyLen (g_currentAccountInfo d1)"
    using s(1) by (auto simp: set_master_fingerprint_def seq_success get_state_def succeed_def Let_def when_do_def
        SetCurrentAccountMfp_def set_info_def update_state_def split: if_splits option.splits)
  moreover have "g_currentAccountInfo d' = g_currentAccountInfo d2"
    using t by (auto simp: ignoring_result SaveCurrentAccountInfo_def seq_Some get_state_def require_def on_hw_def
        split: option.splits if_splits)
  ultimately show ?thesis using s(2) by simp
qed

text \<open>The common part of the creations, from the state that \<open>begin_account\<close> left, up to the public keys.\<close>

lemma hash_page_outside: "i \<le> 2 \<Longrightarrow> j \<le> 2 \<Longrightarrow> k < 12 \<Longrightarrow> account_page j k \<noteq> PAGE_WALLET1_PUB_KEY_HASH + i"
  using account_page_small [of j k] by (simp add: PAGE_WALLET1_PUB_KEY_HASH_def)

lemma new_account_saved:
  assumes ok: "platform_ok p" "provisioned p (hw d)" and i: "i \<le> 2" and cur: "g_currentAccountIndex d = i"
    and info: "wf_account_info (g_currentAccountInfo d)" and wf: "wf_account_secret a" and len: "as_entropyLen a \<noteq> 0"
    and s: "SaveAccountSecret p i a password True d = Some (Inr (), d1)"
    and w: "write_password_hash p i password d1 = Some (Inr (), d2)"
    and d3: "set_info f d2 = Some (Inr (), d3)" "\<And>ai. (wf_account_info ai \<longrightarrow> wf_account_info (f ai)) \<and> ai_isSlip39 (f ai) = ai_isSlip39 ai \<and>
       ai_isTon (f ai) = ai_isTon ai" "\<And>ai. ai_entropyLen (f ai) = ai_entropyLen ai"
    and s4: "SaveCurrentAccountInfo p d3 = Some (Inr (), d4)"
  shows "provisioned p (hw d4)" and "g_currentAccountIndex d4 = i" and "GetMnemonicType d4 = GetMnemonicType d"
    and "g_passphraseInfo d4 = g_passphraseInfo d" and "g_currentAccountInfo d4 = f (g_currentAccountInfo d2)"
    and "ai_entropyLen (g_currentAccountInfo d4) = as_entropyLen a"
    and "frame p (own_pages i) {i} (hw d) (hw d4)" and "accepts p password (hw d4) i"
    and "\<And>h. frame p {PAGE_WALLET1_PUB_KEY_HASH + i} {} (hw d4) h \<Longrightarrow> read_secret p i password h = Some (Inr a, h)"
proof -
  note sv = SaveAccountSecret_success [OF ok wf s]
  have f1: "acct_frame p (own_pages i) {i} i d d1"
    by (rule stepsD [OF steps_SaveAccountSecret [OF ok(1) own_pages_account] s]) simp
  with ok(2) cur have prov1: "provisioned p (hw d1)" and cur1: "g_currentAccountIndex d1 = i" by (auto simp: acct_frame_def provisioned_frame)
  note wp = write_password_hash_success [OF ok(1) prov1 w]
  have f2: "acct_frame p (own_pages i) {i} i d1 d2"
    by (rule stepsD [OF steps_write_password_hash [OF ok(1) own_pages_account] w])
  have f3: "acct_frame p (own_pages i) {i} i d2 d3" by (rule stepsD [OF steps_set_info [OF d3(2)] d3(1)])
  have hw3: "hw d3 = hw d2" and info3: "g_currentAccountInfo d3 = f (g_currentAccountInfo d2)"
    using d3(1) by (auto simp: set_info_def update_state_def)
  have to3: "acct_frame p (own_pages i) {i} i d d3" by (rule account.changed_twice [OF account.changed_twice [OF f1 f2] f3])
  with ok(2) cur info have prov3: "provisioned p (hw d3)" and cur3: "g_currentAccountIndex d3 = i"
    and wf3: "wf_account_info (g_currentAccountInfo d3)" by (auto simp: acct_frame_def provisioned_frame)
  have f34: "acct_frame p {account_page i PAGE_INDEX_PARAM} {} i d3 d4" by (rule stepsD [OF steps_SaveCurrentAccountInfo [OF ok(1)] s4]) simp
  then have fr34: "frame p {account_page i PAGE_INDEX_PARAM} {} (hw d3) (hw d4)" using cur3 prov3 by (auto simp: acct_frame_def)
  show "provisioned p (hw d4)" "g_currentAccountIndex d4 = i" using f34 cur3 prov3 by (auto simp: acct_frame_def provisioned_frame)
  have own: "account_page i PAGE_INDEX_PARAM \<in> own_pages i" by (rule param_own)
  have f4: "acct_frame p (own_pages i) {i} i d3 d4" by (rule stepsD [OF steps_SaveCurrentAccountInfo [OF ok(1) own] s4])
  from account.changed_twice [OF to3 f4] cur ok(2)
  show "GetMnemonicType d4 = GetMnemonicType d" "g_passphraseInfo d4 = g_passphraseInfo d" "frame p (own_pages i) {i} (hw d) (hw d4)"
    by (simp_all add: acct_frame_def)
  note saved = SaveCurrentAccountInfo_success [OF ok(1) wf3 s4]
  then show "g_currentAccountInfo d4 = f (g_currentAccountInfo d2)" using info3 by simp
  have entlen: "ai_entropyLen (g_currentAccountInfo d3) = as_entropyLen a"
    using SaveAccountSecret_len [OF s] arg_cong [OF wp(3), of g_currentAccountInfo] info3 d3(3) by simp
  with saved show "ai_entropyLen (g_currentAccountInfo d4) = as_entropyLen a" by simp
  show "accepts p password (hw d4) i"
    using wp(2) frame_read [OF fr34 [unfolded hw3], of "account_page i PAGE_INDEX_PASSWORD_HASH"] salted_frame [OF fr34 [unfolded hw3]]
    by (simp add: accepts_def stored_hash_def password_digest_def account_page_inj PAGE_INDEX_PASSWORD_HASH_def PAGE_INDEX_PARAM_def)
  show "read_secret p i password h = Some (Inr a, h)" if h: "frame p {PAGE_WALLET1_PUB_KEY_HASH + i} {} (hw d4) h" for h
  proof -
    have fr: "frame p {account_page i PAGE_INDEX_PASSWORD_HASH, account_page i PAGE_INDEX_PARAM, PAGE_WALLET1_PUB_KEY_HASH + i} {} (hw d1) h"
      using frame_trans [OF frame_trans [OF wp(1) fr34 [unfolded hw3]] h] by (simp add: insert_commute)
    have "PAGE_WALLET1_PUB_KEY_HASH + i \<notin> secret_pages i"
    proof
      assume "PAGE_WALLET1_PUB_KEY_HASH + i \<in> secret_pages i"
      then obtain k where "k \<le> 7" "PAGE_WALLET1_PUB_KEY_HASH + i = account_page i k"
        by (auto simp: secret_pages_def PAGE_INDEX_KEY_PIECE_def)
      with hash_page_outside [OF i i, of k] show False by simp
    qed
    then have "readable p i password a h"
      using readable_frame [OF sv(2) fr] hash_no_secret param_no_secret by auto
    moreover have "p_read p (account_page i PAGE_INDEX_PARAM) h = (0, account_info_bytes (g_currentAccountInfo d3))"
      using saved cur3 frame_read [OF h, of "account_page i PAGE_INDEX_PARAM"] hash_page_outside [OF i i, of PAGE_INDEX_PARAM]
      by (simp add: PAGE_INDEX_PARAM_def)
    ultimately have "read_secret p i password h = Some (Inr (a\<lparr>as_entropyLen := stored_entropyLen (account_info_bytes (g_currentAccountInfo d3))\<rparr>), h)"
      unfolding readable_def by (metis Int_empty_left empty_iff frame_refl)
    then show ?thesis using account_info_layout [OF wf3] entlen len by (simp add: stored_entropyLen_def Let_def)
  qed
qed

lemma new_account_opens:
  assumes ok: "platform_ok p" "provisioned p (hw d)" and i: "i \<le> 2" and cur: "g_currentAccountIndex d = i"
    and info: "wf_account_info (g_currentAccountInfo d)" and wf: "wf_account_secret a" and len: "as_entropyLen a \<noteq> 0"
    and c: "CheckPasswordExisted p password 255 d = Some (Inr (), d)"
    and s: "SaveAccountSecret p i a password True d = Some (Inr (), d1)"
    and w: "write_password_hash p i password d1 = Some (Inr (), d2)"
    and d3: "set_info f d2 = Some (Inr (), d3)" "\<And>ai. (wf_account_info ai \<longrightarrow> wf_account_info (f ai)) \<and> ai_isSlip39 (f ai) = ai_isSlip39 ai \<and>
       ai_isTon (f ai) = ai_isTon ai" "\<And>ai. ai_entropyLen (f ai) = ai_entropyLen ai"
    and fin: "finish_account p password d3 = Some (Inr u, d')"
  shows "LoadAccountSecret p i password d' = Some (Inr a, d')" and "VerifyPassword p password d' = Some (Inr i, d')"
    and "GetMnemonicType d' = GetMnemonicType d" and "g_passphraseInfo d' = g_passphraseInfo d"
    and "g_currentAccountInfo d' = f (g_currentAccountInfo d2)"
proof -
  obtain d4 where s4: "SaveCurrentAccountInfo p d3 = Some (Inr (), d4)"
    and p4: "AccountPublicInfoSwitch p (g_currentAccountIndex d4) password True d4 = Some (Inr u, d')"
    using fin by (auto simp: finish_account_def seq_success get_state_def)
  note saved = new_account_saved [OF ok i cur info wf len s w d3 s4]
  have "keys_frame p {PAGE_WALLET1_PUB_KEY_HASH + i} d4 d'"
    using stepsD [OF public_info_frames(1) [OF ok(1)] p4] saved(2) by simp
  note kf = keys_frame_fields [OF this saved(1)]
  show "GetMnemonicType d' = GetMnemonicType d" unfolding saved(3) [symmetric] using kf(4) by (simp add: GetMnemonicType_def)
  show "g_passphraseInfo d' = g_passphraseInfo d" "g_currentAccountInfo d' = f (g_currentAccountInfo d2)"
    using saved(4,5) kf(4,5) by simp_all
  show "LoadAccountSecret p i password d' = Some (Inr a, d')"
    using saved(9) [OF kf(1)] by (simp add: LoadAccountSecret_eq [OF i] on_hw_def)
  have to': "frame p (own_pages i) {i} (hw d) (hw d')"
    using frame_trans [OF saved(7) kf(1)] by (auto elim!: frame_mono simp: own_pages_def)
  show "VerifyPassword p password d' = Some (Inr i, d')"
  proof (rule VerifyPassword_first [OF kf(2) i])
    show "accepts p password (hw d') i"
      using saved(8) frame_read [OF kf(1), of "account_page i PAGE_INDEX_PASSWORD_HASH"] salted_frame [OF kf(1)]
        hash_page_outside [OF i i, of PAGE_INDEX_PASSWORD_HASH]
      by (simp add: accepts_def stored_hash_def password_digest_def PAGE_INDEX_PASSWORD_HASH_def)
    show "\<forall>j<i. refuses p password (hw d') j"
    proof (intro allI impI)
      fix j assume j: "j < i"
      then have "refuses p password (hw d) j" using CheckPasswordExisted_success(2) [OF ok c] i by auto
      moreover have "account_page j PAGE_INDEX_PASSWORD_HASH \<notin> own_pages i"
        using own_pages_disjoint [of i j] account_pages_member [of PAGE_INDEX_PASSWORD_HASH j] i j by (auto simp: PAGE_INDEX_PASSWORD_HASH_def)
      ultimately show "refuses p password (hw d') j" using refuses_frame [OF to'] by simp
    qed
  qed
qed

text \<open>The entropy field of a secret: the entropy and zeros.\<close>

lemma entropy_field: "length ent \<le> 32 \<Longrightarrow> memcpy_s (replicate 32 0) 0 32 ent = ent @ replicate (32 - length ent) 0"
  by (simp add: memcpy_s_def buf_write_def)

lemma bip39_entropy_mnemonic:
  assumes "length ent \<in> {16, 20, 24, 28, 32}"
  obtains phrase where "bip39_mnemonic_from_bytes sha256 en_word_list ent = Inr phrase"
proof -
  obtain n c where "bip39_size (length ent) n c" using assms by (auto simp: bip39_size_def)
  moreover have "wl_bits en_word_list = 11" by (simp add: en_word_list_def)
  ultimately show ?thesis using from_then_to [OF en_word_list_wf, where stack = "replicate 42 0" and out = "[]"] that by fastforce
qed

text \<open>
  C3: When \<^verbatim>\<open>CreateNewAccount\<close> succeeds, the password is recognised as that of the new account and gives back the
  entropy, and the seed is the one of the BIP-39 mnemonic of the entropy with the empty passphrase.
\<close>

theorem CreateNewAccount_opens:
  assumes ok: "platform_ok p" "provisioned p (hw d)" and len: "length ent \<in> {16, 20, 24, 28, 32}"
    and run: "CreateNewAccount p i ent password d = Some (Inr u, d')"
  shows "VerifyPassword p password d' = Some (Inr i, d') \<and>
    GetAccountEntropy p i password d' = Some (Inr (ent @ replicate (32 - length ent) 0, length ent), d') \<and>
    (\<exists>phrase. bip39_mnemonic_from_bytes (p_sha256 p) en_word_list ent = Inr phrase \<and>
      GetAccountSeed p i password d' = Some (Inr (p_pbkdf2_hmac_sha512 p phrase (cstr ''mnemonic'') 2048 64), d'))"
proof -
  obtain phrase where phrase: "bip39_mnemonic_from_bytes (p_sha256 p) en_word_list ent = Inr phrase"
    by (rule bip39_entropy_mnemonic [OF len])
  define seed where "seed = p_pbkdf2_hmac_sha512 p phrase (cstr ''mnemonic'') 2048 64"
  define a where "a = cleared_account_secret\<lparr>as_entropy := memcpy_s (replicate 32 0) 0 32 ent,
    as_entropyLen := of_nat (length ent), as_seed := seed\<rparr>"
  obtain d1 d2 d3 d4 where b: "begin_account p i id d = Some (Inr (), d1)"
    and i: "i \<le> 2" and c: "CheckPasswordExisted p password 255 d1 = Some (Inr (), d2)"
    and s: "SaveAccountSecret p i a password True d2 = Some (Inr (), d3)"
    and w: "write_password_hash p i password d3 = Some (Inr (), d4)"
    and f: "finish_account p password d4 = Some (Inr u, d')"
    using run by (auto simp: CreateNewAccount_def SaveNewBip39Entropy_def seq_success require_success lift_result_def phrase
        bip39_mnemonic_to_seed_def a_def seed_def)
  note bs = begin_account_success [OF ok b]
  have kind: "wf_account_info (id cleared_account_info)" by (simp add: wf_cleared_account_info)
  have [simp]: "d2 = d1" by (rule CheckPasswordExisted_success(1) [OF ok(1) bs(3) [OF kind] c])
  have "length ent \<le> 32" using len by auto
  then have wf: "wf_account_secret a"
    by (simp add: a_def wf_account_secret_def cleared_account_secret_def entropy_field seed_def crypto_laws(7) [OF ok(1)])
  have unat_len: "unat (of_nat (length ent) :: u8) = length ent" using len by auto
  then have nonzero: "as_entropyLen a \<noteq> 0" using len by (auto simp: a_def)
  have same: "set_info id d4 = Some (Inr (), d4)" by (simp add: set_info_def update_state_def)
  note opened = new_account_opens [OF ok(1) bs(3) [OF kind] i bs(2) [OF kind] bs(4) [OF kind] wf nonzero c [simplified]
      s [simplified] w same _ _ f]
  have kindB: "GetMnemonicType d' = MNEMONIC_TYPE_BIP39"
    using opened(3) bs(6) [OF kind] by (simp add: GetMnemonicType_def cleared_flags)
  have "VerifyPassword p password d' = Some (Inr i, d')" using opened(2) by simp
  moreover have load: "LoadAccountSecret p i password d' = Some (Inr a, d')" using opened(1) by simp
  then have "GetAccountEntropy p i password d' = Some (Inr (ent @ replicate (32 - length ent) 0, length ent), d')"
    using i \<open>length ent \<le> 32\<close> unat_len kindB
    by (simp add: GetAccountEntropy_def seq_def [of "require _"] seq_def [of "LoadAccountSecret _ _ _"] seq_def [of get_state] cmd_eval
        a_def entropy_field)
  moreover have "GetAccountSeed p i password d' = Some (Inr seed, d')"
    using i load kindB opened(4) bs(5) [OF kind] crypto_laws(7) [OF ok(1), of phrase "cstr ''mnemonic''" 2048 64]
    by (simp add: GetAccountSeed_def seq_def cmd_eval PassphraseExist_def cleared_passphrase_info_def Let_def strnlen_s_def a_def seed_def)
  ultimately show ?thesis using phrase by (simp add: seed_def)
qed

lemma ie_eb_byte: "ie < 16 \<Longrightarrow> (ie OR push_bit 4 (of_bool eb)) AND 15 = ie \<and> drop_bit 4 (ie OR push_bit 4 (of_bool eb)) = (of_bool eb :: u8)"
proof -
  assume ie: "ie < 16"
  then have "unat ie < 2 ^ 4" by (simp add: word_less_nat_alt)
  then have small: "bit ie k \<Longrightarrow> k < 4" for k by (rule word_bit_below)
  have "(ie OR push_bit 4 (of_bool eb)) AND 15 = ie"
    unfolding and_15 by (rule bit_word_eqI) (auto simp: bit_simps dest: small)
  moreover have "drop_bit 4 (ie OR push_bit 4 (of_bool eb)) = (of_bool eb :: u8)"
    by (rule bit_word_eqI) (auto simp: bit_simps dest: small)
  ultimately show ?thesis by simp
qed

text \<open>
  When \<^verbatim>\<open>CreateNewSlip39Account\<close> succeeds, the password opens the new account and gives back the
  encrypted master secret, the seed is the master secret itself, and the parameters of the backup are kept.
\<close>

theorem CreateNewSlip39Account_opens:
  assumes ok: "platform_ok p" "provisioned p (hw d)" and len: "0 < length ent" "length ent \<le> 32" "length ems = length ent" and ie: "ie < 16"
    and run: "CreateNewSlip39Account p i ems ent password ident eb ie d = Some (Inr u, d')"
  shows "VerifyPassword p password d' = Some (Inr i, d') \<and>
    GetAccountSlip39Ems p i password d' = Some (Inr (ems @ replicate (32 - length ems) 0), d') \<and>
    GetAccountSeed p i password d' = Some (Inr ent, d') \<and>
    GetSlip39Id d' = ident \<and> GetSlip39Ie d' = ie \<and> GetSlip39Eb d' = of_bool eb"
proof -
  define a where "a = cleared_account_secret\<lparr>as_entropy := memcpy_s (replicate 32 0) 0 32 ent, as_entropyLen := of_nat (length ent),
     as_seed := memcpy_s (replicate 64 0) 0 64 ent, as_slip39EmsOrTonEntropyL32 := memcpy_s (replicate 32 0) 0 32 ems\<rparr>"
  let ?f = "\<lambda>ai. ai\<lparr>ai_slip39Id := ident, ai_slip39IeEb := ie OR push_bit 4 (of_bool eb)\<rparr>"
  obtain d1 d2 d3 d4 d5 where b: "begin_account p i (\<lambda>ai. ai\<lparr>ai_isSlip39 := True\<rparr>) d = Some (Inr (), d1)"
    and i: "i \<le> 2" and c: "CheckPasswordExisted p password 255 d1 = Some (Inr (), d2)"
    and s: "SaveAccountSecret p i a password True d2 = Some (Inr (), d3)"
    and w: "write_password_hash p i password d3 = Some (Inr (), d4)"
    and e: "set_info ?f d4 = Some (Inr (), d5)"
    and f: "finish_account p password d5 = Some (Inr u, d')"
    using run by (auto simp: CreateNewSlip39Account_def SaveNewSlip39Entropy_def seq_success require_success a_def)
  note bs = begin_account_success [OF ok b]
  have kind: "wf_account_info (cleared_account_info\<lparr>ai_isSlip39 := True\<rparr>)"
    using wf_cleared_account_info by (simp add: wf_account_info_def)
  have [simp]: "d2 = d1" by (rule CheckPasswordExisted_success(1) [OF ok(1) bs(3) [OF kind] c])
  have seed: "memcpy_s (replicate 64 0) 0 64 ent = ent @ replicate (64 - length ent) 0"
    using len by (simp add: memcpy_s_def buf_write_def)
  have wf: "wf_account_secret a"
    using len by (simp add: a_def wf_account_secret_def cleared_account_secret_def entropy_field seed)
  have unat_len: "unat (of_nat (length ent) :: u8) = length ent" using len by (simp add: unat_of_nat)
  then have nonzero: "as_entropyLen a \<noteq> 0" using len by (auto simp: a_def)
  have f_ok: "(wf_account_info ai \<longrightarrow> wf_account_info (?f ai)) \<and> ai_isSlip39 (?f ai) = ai_isSlip39 ai \<and> ai_isTon (?f ai) = ai_isTon ai" for ai
    by (simp add: wf_account_info_def)
  note opened = new_account_opens [OF ok(1) bs(3) [OF kind] i bs(2) [OF kind] bs(4) [OF kind] wf nonzero c [simplified]
      s [simplified] w e f_ok _ f]
  have kindS: "GetMnemonicType d' = MNEMONIC_TYPE_SLIP39"
    using opened(3) bs(6) [OF kind] by (simp add: GetMnemonicType_def)
  have load: "LoadAccountSecret p i password d' = Some (Inr a, d')" using opened(1) by simp
  have "GetAccountSlip39Ems p i password d' = Some (Inr (ems @ replicate (32 - length ems) 0), d')"
    using i load len by (simp add: GetAccountSlip39Ems_def seq_def cmd_eval a_def entropy_field)
  moreover have "GetAccountSeed p i password d' = Some (Inr ent, d')"
    using i load kindS opened(4) bs(5) [OF kind] unat_len
    by (simp add: GetAccountSeed_def seq_def cmd_eval PassphraseExist_def cleared_passphrase_info_def Let_def strnlen_s_def a_def seed)
  moreover have "g_currentAccountInfo d' = ?f (g_currentAccountInfo d4)"
    using opened(5) by simp
  then have "GetSlip39Id d' = ident \<and> GetSlip39Ie d' = ie \<and> GetSlip39Eb d' = of_bool eb"
    using ie_eb_byte [OF ie] by (simp add: GetSlip39Id_def GetSlip39Ie_def GetSlip39Eb_def)
  ultimately show ?thesis using opened(2) by simp
qed

section \<open>A destroyed account is blank\<close>

lemma write_pages_code: "write_pages p i pages h = Some (Inl e, h') \<Longrightarrow> e \<noteq> 0"
  by (induction p i pages arbitrary: h rule: write_pages.induct)
    (auto simp: seq_Some succeed_def SE_HmacEncryptWrite_def case_prod_beta)

lemma erase_account_frame:
  assumes "platform_ok p" and "erase_account p i h = Some (Inr u, h')"
  shows "frame p (account_pages i) {} h h'"
  using write_pages_success [OF assms(1) assms(2) [unfolded erase_account_def]]
  by (auto simp: comp_def PAGE_NUM_PER_ACCOUNT_def account_pages_def image_image elim!: frame_mono)

lemma erase_account_success:
  assumes ok: "platform_ok p" and run: "erase_account p i h = Some (Inr u, h')"
  shows "\<forall>k<12. p_read p (account_page i k) h' = (0, replicate 32 0)"
proof -
  have "\<forall>(k, d)\<in>set (map (\<lambda>i. (i, replicate 32 (0 :: u8))) [0..<PAGE_NUM_PER_ACCOUNT]). p_read p (account_page i k) h' = (0, d)"
    using write_pages_success [OF ok run [unfolded erase_account_def]]
    by (auto simp: comp_def PAGE_NUM_PER_ACCOUNT_def)
  then show ?thesis by (auto simp: PAGE_NUM_PER_ACCOUNT_def)
qed

lemma erase_zeros:
  assumes ok: "platform_ok p" and run: "DestroyAccount p i d = Some (Inr u, d')" and k: "k < 12"
  shows "p_read p (account_page i k) (hw d') = (0, replicate 32 0)"
proof -
  have ne: False if "erase_account p i (hw d) = Some (Inl 0, h)" for h
    using write_pages_code [OF that [unfolded erase_account_def]] by simp
  obtain h1 d2 r2 h2 where i: "i \<le> 2" and e: "erase_account p i (hw d) = Some (Inr (), h1)"
    and del: "DeleteAccountPublicInfo p i (d\<lparr>hw := h1\<rparr>) = Some (Inr (), d2)"
    and w: "SetWalletDataHash p i (replicate 32 0) (hw d2) = Some (r2, h2)" and h2: "hw d' = h2"
    using run
    by (auto simp: DestroyAccount_def seq_success require_success code_of_def on_hw_def update_state_def ClearAccountPassphrase_def
        LogoutCurrentAccount_def set_info_def ignoring_result lift_result_def outcome_def succeed_def
        split: option.splits sum.splits if_splits dest!: ne)
  have f1: "frame p {} {} h1 (hw d2)"
    using DeleteAccountPublicInfo_result(3) [OF del ok] by simp
  have f2: "frame p {PAGE_WALLET1_PUB_KEY_HASH + i} {} (hw d2) h2"
  proof -
    have "steps (frame p {PAGE_WALLET1_PUB_KEY_HASH + i} {}) (SetWalletDataHash p i (replicate 32 0))"
      unfolding SetWalletDataHash_def by (intro chips.steps_rules SE_frames [OF ok]) simp
    from stepsD [OF this w] show ?thesis .
  qed
  have "account_page i k \<notin> {} \<union> {PAGE_WALLET1_PUB_KEY_HASH + i}"
    using account_page_small [OF i k] by (simp add: PAGE_WALLET1_PUB_KEY_HASH_def)
  then show ?thesis
    using erase_account_success [OF ok e] k frame_read [OF frame_trans [OF f1 f2]] h2 by simp
qed

text \<open>
  C8: When \<^verbatim>\<open>DestroyAccount\<close> succeeds, all twelve pages of the account read as zeros, nobody is logged in and neither
  the passphrase nor the information of the account is left in RAM; the index is offered as blank, unless an earlier one is.
\<close>

theorem DestroyAccount_erases:
  assumes ok: "platform_ok p" and run: "DestroyAccount p i d = Some (Inr u, d')"
  shows "(\<forall>k<12. p_read p (account_page i k) (hw d') = (0, replicate 32 0)) \<and>
    g_currentAccountIndex d' = ACCOUNT_INDEX_LOGOUT \<and> g_currentAccountInfo d' = cleared_account_info \<and>
    g_passphraseInfo d' i = cleared_passphrase_info \<and>
    (\<forall>j. GetBlankAccountIndex p d' = Some (Inr j, d') \<longrightarrow> j \<le> i)"
proof -
  have i: "i \<le> 2" by (rule DestroyAccount_ram(1) [OF run])
  note zeros = erase_zeros [OF ok run]
  have "j \<le> i" if j: "GetBlankAccountIndex p d' = Some (Inr j, d')" for j
  proof -
    have iv: "SE_HmacEncryptRead p (account_page i PAGE_INDEX_IV) (hw d') = Some (Inr (replicate 32 0), hw d')" "\<not> CheckEntropy (replicate 32 0)"
      using zeros [of PAGE_INDEX_IV] by (simp_all add: SE_HmacEncryptRead_def PAGE_INDEX_IV_def CheckEntropy_iff)
    from j obtain h where "blank_account p [0, 1, 2] (hw d') = Some (Inr j, h)"
      by (auto simp: GetBlankAccountIndex_def on_hw_success simp del: blank_account.simps)
    moreover have "i = 0 \<or> i = 1 \<or> i = 2" using i by linarith
    ultimately show ?thesis using iv
      by (auto simp: seq_success SE_HmacEncryptRead_def case_prod_beta succeed_def split: if_splits)
  qed
  with zeros DestroyAccount_ram [OF run] show ?thesis by blast
qed

section \<open>Wrong passwords are counted\<close>

text \<open>\<open>failed_logins p n d d'\<close>: \<open>n\<close> attempts to log in, each with a password (or a chip error) that was refused.\<close>

inductive failed_logins :: "'h platform \<Rightarrow> nat \<Rightarrow> 'h device \<Rightarrow> 'h device \<Rightarrow> bool" for p where
  none_yet: "failed_logins p 0 d d"
| one_more: "failed_logins p n d d' \<Longrightarrow> VerifyPassword p password d' = Some (Inl e, d1) \<Longrightarrow>
    VerifyPasswordAndLogin p password d' = Some (r, d'') \<Longrightarrow> failed_logins p (Suc n) d d''"

lemma VerifyPassword_public_info: "VerifyPassword p password d = Some (r, d') \<Longrightarrow> d' = d\<lparr>hw := hw d'\<rparr>"
  by (auto simp: VerifyPassword_def on_hw_success simp del: verify_accounts.simps)

lemma failed_login_step:
  assumes "VerifyPassword p password d = Some (Inl e, d1)" and "VerifyPasswordAndLogin p password d = Some (r, d')"
  shows "r = Inl e \<and> g_publicInfo d' = (g_publicInfo d)\<lparr>pi_loginPasswordErrorCount := pi_loginPasswordErrorCount (g_publicInfo d) + 1\<rparr> \<and>
    g_currentAccountIndex d' = g_currentAccountIndex d"
  using assms arg_cong [OF VerifyPassword_public_info [OF assms(1)], of g_publicInfo]
    arg_cong [OF VerifyPassword_public_info [OF assms(1)], of g_currentAccountIndex]
  by (auto simp: VerifyPasswordAndLogin_def count_failure_def seq_Some set_public_info_def update_state_def ignoring_result
      save_public_info_def get_state_def on_hw_def fail_with_def split: option.splits)

text \<open>
  C9: After \<open>n\<close> refused attempts the counter has grown by \<open>n\<close> modulo 256, nobody new is logged in, and the device asks to be
  reset exactly when the counter, which wraps around, is at least ten.
\<close>

theorem failed_logins_counted:
  assumes "failed_logins p n d d'"
  shows "unat (GetLoginPasswordErrorCount d') = (unat (GetLoginPasswordErrorCount d) + n) mod 256 \<and>
    g_currentAccountIndex d' = g_currentAccountIndex d \<and>
    (AccountManagerIsNeedReset d' \<longleftrightarrow> 10 \<le> (unat (GetLoginPasswordErrorCount d) + n) mod 256)"
proof -
  have "unat (GetLoginPasswordErrorCount d') = (unat (GetLoginPasswordErrorCount d) + n) mod 256 \<and>
    g_currentAccountIndex d' = g_currentAccountIndex d"
    using assms
  proof (induction rule: failed_logins.induct)
    case (none_yet d)
    have "unat (GetLoginPasswordErrorCount d) < 256" using unsigned_less [of "GetLoginPasswordErrorCount d", where ?'a = nat] by simp
    then show ?case by simp
  next
    case (one_more n d d' password e d1 r d'')
    note st = failed_login_step [OF one_more.hyps(2,3)]
    then have "unat (GetLoginPasswordErrorCount d'') = (unat (GetLoginPasswordErrorCount d') + 1) mod 256"
      by (simp add: GetLoginPasswordErrorCount_def unat_word_ariths)
    then show ?case using one_more.IH st by (simp add: mod_Suc_eq)
  qed
  moreover have "AccountManagerIsNeedReset d' \<longleftrightarrow> 10 \<le> unat (GetLoginPasswordErrorCount d')"
    by (simp add: AccountManagerIsNeedReset_def GetLoginPasswordErrorCount_def word_less_nat_alt not_less)
  ultimately show ?thesis by simp
qed

section \<open>The check at power on\<close>

text \<open>What the check looks at: an account has both its initialisation vector and its password hash, or neither.\<close>

definition consistent :: "'h platform \<Rightarrow> nat \<Rightarrow> 'h \<Rightarrow> bool" where
  "consistent p i h \<longleftrightarrow>
     CheckEntropy (snd (p_read p (account_page i PAGE_INDEX_IV) h)) = CheckEntropy (snd (p_read p (account_page i PAGE_INDEX_PASSWORD_HASH) h))"

definition erased :: "'h platform \<Rightarrow> nat \<Rightarrow> 'h \<Rightarrow> bool" where
  "erased p i h \<longleftrightarrow> (\<forall>k<12. p_read p (account_page i k) h = (0, replicate 32 0))"

definition chips_respond :: "'h platform \<Rightarrow> bool" where
  "chips_respond p \<longleftrightarrow> (\<forall>q h. fst (p_read p q h) = 0) \<and> (\<forall>q b h. fst (p_write p q b h) = 0)"

lemma write_pages_respond: "chips_respond p \<Longrightarrow> \<exists>h'. write_pages p i pages h = Some (Inr (), h')"
  by (induction p i pages arbitrary: h rule: write_pages.induct)
    (auto simp: succeed_def seq_def SE_HmacEncryptWrite_def case_prod_beta chips_respond_def)

lemma check_one:
  assumes ok: "platform_ok p" "chips_respond p"
  obtains h' where "frame p (if consistent p i h then {} else account_pages i) {} h h'" "consistent p i h'"
    "\<not> consistent p i h \<Longrightarrow> erased p i h'"
    "\<And>accounts. accounts_check p (i # accounts) h = accounts_check p accounts h'"
proof (cases "consistent p i h")
  case True
  then have "accounts_check p (i # accounts) h = accounts_check p accounts h" for accounts
    using ok(2) by (simp add: chips_respond_def SE_HmacEncryptRead_def seq_def case_prod_beta consistent_def cmd_eval)
  with True show ?thesis using that [of h] by simp
next
  case False
  obtain h' where e: "erase_account p i h = Some (Inr (), h')"
    using write_pages_respond [OF ok(2)] unfolding erase_account_def by blast
  have "frame p (account_pages i) {} h h'" by (rule erase_account_frame [OF ok(1) e])
  moreover have "erased p i h'" using erase_account_success [OF ok(1) e] by (simp add: erased_def)
  moreover have "consistent p i h'"
    using erase_account_success [OF ok(1) e] by (simp add: consistent_def PAGE_INDEX_IV_def PAGE_INDEX_PASSWORD_HASH_def)
  moreover have "accounts_check p (i # accounts) h = accounts_check p accounts h'" for accounts
    using ok(2) False e
    by (simp add: chips_respond_def SE_HmacEncryptRead_def seq_def case_prod_beta consistent_def cmd_eval ignoring_result)
  ultimately show ?thesis using that [of h'] False by simp
qed

lemma frame_consistent:
  assumes "frame p P A h h'" and "account_pages i \<inter> P = {}"
  shows "consistent p i h' = consistent p i h"
  using assms frame_read [OF assms(1)] account_pages_member [of PAGE_INDEX_IV i] account_pages_member [of PAGE_INDEX_PASSWORD_HASH i]
  by (auto simp: consistent_def PAGE_INDEX_IV_def PAGE_INDEX_PASSWORD_HASH_def disjoint_iff)

lemma frame_erased:
  assumes "frame p P A h h'" and "account_pages i \<inter> P = {}" and "erased p i h"
  shows "erased p i h'"
  unfolding erased_def
proof (intro allI impI)
  fix k assume k: "k < (12 :: nat)"
  then have "account_page i k \<notin> P" using assms(2) account_pages_member by blast
  from frame_read [OF assms(1) this] show "p_read p (account_page i k) h' = (0, replicate 32 0)"
    using assms(3) k by (simp add: erased_def)
qed

lemma accounts_check_result:
  assumes ok: "platform_ok p" "chips_respond p" and "distinct accounts"
  shows "\<exists>h'. accounts_check p accounts h = Some (Inr (), h') \<and>
    (\<forall>i\<in>set accounts. consistent p i h' \<and> (\<not> consistent p i h \<longrightarrow> erased p i h')) \<and>
    frame p (\<Union>i\<in>{i \<in> set accounts. \<not> consistent p i h}. account_pages i) {} h h'"
  using assms(3)
proof (induction accounts arbitrary: h)
  case (Cons i accounts)
  obtain h1 where f1: "frame p (if consistent p i h then {} else account_pages i) {} h h1" and c1: "consistent p i h1"
    and e1: "\<not> consistent p i h \<Longrightarrow> erased p i h1"
    and step: "accounts_check p (i # accounts) h = accounts_check p accounts h1"
    using check_one [OF ok] by metis
  from Cons obtain h' where run: "accounts_check p accounts h1 = Some (Inr (), h')"
    and c: "\<forall>j\<in>set accounts. consistent p j h' \<and> (\<not> consistent p j h1 \<longrightarrow> erased p j h')"
    and f: "frame p (\<Union>j\<in>{j \<in> set accounts. \<not> consistent p j h1}. account_pages j) {} h1 h'" by auto
  have same: "consistent p j h1 = consistent p j h" if "j \<in> set accounts" for j
  proof -
    have "i \<noteq> j" using Cons.prems that by auto
    then show ?thesis using frame_consistent [OF f1, of j] account_pages_disjoint [of j i] by auto
  qed
  have apart: "account_pages i \<inter> (\<Union>j\<in>{j \<in> set accounts. \<not> consistent p j h1}. account_pages j) = {}"
    using Cons.prems account_pages_disjoint [of i] by fastforce
  then have "consistent p i h' \<and> (\<not> consistent p i h \<longrightarrow> erased p i h')"
    using frame_consistent [OF f] c1 e1 frame_erased [OF f] by blast
  moreover have "frame p (\<Union>j\<in>{j \<in> set (i # accounts). \<not> consistent p j h}. account_pages j) {} h h'"
    by (rule frame_mono [OF frame_trans [OF f1 f]]) (use same in auto)
  ultimately show ?case using run step c same by auto
qed (simp add: cmd_eval)

text \<open>
  C7: When the chips respond, \<^verbatim>\<open>AccountsDataCheck\<close> leaves every account that has both its initialisation vector and its
  password hash, or neither, as it was, all twelve pages of it; of an account with only one of them all twelve pages
  are zeros afterwards. So no account is left with only one of them.
\<close>

theorem AccountsDataCheck_consistent:
  assumes ok: "platform_ok p" "chips_respond p"
  shows "\<exists>d'. AccountsDataCheck p d = Some (Inr (), d') \<and> (\<forall>i\<in>{0, 1, 2}. consistent p i (hw d') \<and>
    (if consistent p i (hw d) then \<forall>k<12. p_read p (account_page i k) (hw d') = p_read p (account_page i k) (hw d)
     else \<forall>k<12. p_read p (account_page i k) (hw d') = (0, replicate 32 0)))"
proof -
  obtain h' where run: "accounts_check p [0, 1, 2] (hw d) = Some (Inr (), h')"
    and c: "\<forall>i\<in>set [0, 1, 2]. consistent p i h' \<and> (\<not> consistent p i (hw d) \<longrightarrow> erased p i h')"
    and f: "frame p (\<Union>i\<in>{i \<in> set [0, 1, 2]. \<not> consistent p i (hw d)}. account_pages i) {} (hw d) h'"
    using accounts_check_result [OF ok, of "[0, 1, 2]" "hw d"] by auto
  have kept: "p_read p (account_page i k) h' = p_read p (account_page i k) (hw d)" if "consistent p i (hw d)" "k < 12" for i k
  proof (rule frame_read [OF f])
    show "account_page i k \<notin> (\<Union>j\<in>{j \<in> set [0, 1, 2]. \<not> consistent p j (hw d)}. account_pages j)"
      using that account_pages_disjoint [of i] account_pages_member [OF that(2), of i] by fastforce
  qed
  have "AccountsDataCheck p d = Some (Inr (), d\<lparr>hw := h'\<rparr>)"
    by (simp add: AccountsDataCheck_def ignoring_result on_hw_def run [unfolded One_nat_def] del: accounts_check.simps)
  moreover have "\<forall>i\<in>{0, 1, 2}. consistent p i h' \<and>
    (if consistent p i (hw d) then \<forall>k<12. p_read p (account_page i k) h' = p_read p (account_page i k) (hw d)
     else \<forall>k<12. p_read p (account_page i k) h' = (0, replicate 32 0))"
    using c kept by (auto simp: erased_def)
  ultimately show ?thesis by (intro exI [of _ "d\<lparr>hw := h'\<rparr>"]) simp
qed

end
