(* ===== verification/AccountSuccess.thy ===== *)
theory AccountSuccess
  imports AccountProps
begin

text \<open>
  Liveness of the key store: when the chips and the Rust library do what they are asked, the operations that
  create accounts with their public keys, write secrets and change passwords end with success. The example platform of \<^verbatim>\<open>Platform\<close> satisfies every contract
  used on the way, and the properties of the key store are applied on it here.
\<close>

section \<open>When the chips respond, operations succeed\<close>

text \<open>
  The chips do what they are asked and the Rust library gives a key for every seed; what it decrypts as the primes of an
  RSA key are primes. The state of the device, and what the repository's own code makes of it, is not mentioned.
\<close>

definition key_given :: "response \<Rightarrow> bool" where
  "key_given r \<longleftrightarrow> (\<exists>key. r = Some (0, Some key))"

definition library_works :: "'h platform \<Rightarrow> bool" where
  "library_works p \<longleftrightarrow>
     (\<forall>seed path. key_given (p_secp256k1_key p seed path)) \<and> (\<forall>seed path. key_given (p_ed25519_key p seed path)) \<and>
     (\<forall>key path. key_given (p_bip32_ed25519_key p key path)) \<and> (\<forall>seed. key_given (p_ton_public_key p seed)) \<and>
     (\<forall>ent passphrase. key_given (p_icarus_master_key p ent passphrase)) \<and>
     (\<forall>mnemonic passphrase. key_given (p_ledger_master_key p (Some mnemonic) passphrase)) \<and>
     (\<forall>seed x. p_decrypt_primes p seed x \<noteq> None) \<and>
     (\<forall>seed x primes. p_decrypt_primes p seed x = Some (0, primes) \<longrightarrow>
        key_given (p_rsa_public_key p (take SPI_FLASH_RSA_PRIME_SIZE primes) (take SPI_FLASH_RSA_PRIME_SIZE (drop SPI_FLASH_RSA_PRIME_SIZE primes))))"

definition chips_work :: "'h platform \<Rightarrow> bool" where
  "chips_work p \<longleftrightarrow> chips_respond p \<and> (\<forall>s b x h. fst (p_slot_write p s b x h) = 0) \<and> (\<forall>s x h. fst (p_derive_key p s x h) = 0) \<and>
     (\<forall>s key x h. fst (p_kdf p s key x h) = 0) \<and> (\<forall>a b h. fst (p_flash_write p a b h) = length b) \<and> library_works p"

text \<open>From a state with \<open>I\<close> the command succeeds and ends in one.\<close>

definition succeeds :: "('s \<Rightarrow> bool) \<Rightarrow> ('s, 'a) cmd \<Rightarrow> bool" where
  "succeeds I m \<longleftrightarrow> (\<forall>s. I s \<longrightarrow> (\<exists>a s'. m s = Some (Inr a, s') \<and> I s'))"

lemma succeedsI: "(\<And>s. I s \<Longrightarrow> \<exists>a s'. m s = Some (Inr a, s') \<and> I s') \<Longrightarrow> succeeds I m"
  by (simp add: succeeds_def)

lemma succeeds_rules:
  "succeeds I (succeed a)"
  "succeeds I get_state"
  "(\<And>s. I s \<Longrightarrow> I (f s)) \<Longrightarrow> succeeds I (update_state f)"
  "b \<Longrightarrow> succeeds I (require b)"
  "succeeds I m \<Longrightarrow> (\<And>a. succeeds I (g a)) \<Longrightarrow> succeeds I (seq m g)"
  "succeeds I n \<Longrightarrow> succeeds I (ignoring n)"
  "succeeds I n \<Longrightarrow> succeeds I (code_of n)"
  "(c \<Longrightarrow> succeeds I w) \<Longrightarrow> succeeds I (when_do c w)"
  by (fastforce simp: succeeds_def cmd_eval seq_def ignoring_result code_of_def when_do_def)+

lemma succeeds_chip:
  assumes ok: "platform_ok p" "chips_work p"
  shows "succeeds (provisioned p) (SE_HmacEncryptWrite p x page)"
    and "succeeds (provisioned p) (SE_EncryptWrite p slot block x)"
    and "succeeds (provisioned p) (SE_DeriveKey p slot x)"
    and "succeeds (provisioned p) (SE_HmacEncryptRead p page)"
    and "succeeds (provisioned p) (SE_Kdf p slot key x)"
    and "succeeds (provisioned p) (TrngGet p n)"
    and "succeeds (provisioned p) (HashWithSalt p x str)"
    and "succeeds (provisioned p) (CombineInnerAesKey p x)"
proof -
  note w = ok(2) [unfolded chips_work_def chips_respond_def]
  note F = page_laws(1) [OF ok(1)] slot_laws(1,2) [OF ok(1)] random_laws(1) [OF ok(1)]
  show "succeeds (provisioned p) (SE_HmacEncryptWrite p x page)"
    "succeeds (provisioned p) (SE_EncryptWrite p slot block x)"
    "succeeds (provisioned p) (SE_DeriveKey p slot x)"
    "succeeds (provisioned p) (SE_HmacEncryptRead p page)"
    "succeeds (provisioned p) (SE_Kdf p slot key x)"
    "succeeds (provisioned p) (TrngGet p n)"
    using w by (auto simp: succeeds_def SE_HmacEncryptWrite_def SE_EncryptWrite_def SE_DeriveKey_def SE_HmacEncryptRead_def SE_Kdf_def
        TrngGet_def case_prod_beta provisioned_frame [OF F(1)] provisioned_frame [OF F(2)] provisioned_frame [OF F(3)]
        provisioned_frame [OF F(4)])
  show "succeeds (provisioned p) (HashWithSalt p x str)"
    by (auto simp: succeeds_def HashWithSalt_provisioned)
  show "succeeds (provisioned p) (CombineInnerAesKey p x)"
    by (auto simp: succeeds_def CombineInnerAesKey_def otp_secret_def provisioned_def seq_def succeed_def)
qed

lemma succeeds_write_pages:
  assumes "platform_ok p" "chips_work p"
  shows "succeeds (provisioned p) (write_pages p i pages)"
  using assms by (induction p i pages rule: write_pages.induct) (auto intro!: succeeds_rules succeeds_chip)

lemma succeeds_write_secret:
  assumes ok: "platform_ok p" "chips_work p" and i: "i \<le> 2"
  shows "succeeds (provisioned p) (write_secret p i a password)"
  unfolding write_secret_def SetNewKeyPieceToSE_def SetNewKeyPieceToAtecc608b_def SetNewKeyPieceToDs28s60_def kdf_piece_def
    sha512_of_pieces_def Let_def
  by (intro succeeds_rules succeeds_chip [OF ok] succeeds_write_pages [OF ok] i)

text \<open>On the device: a provisioned one, on which account \<open>i\<close> is the current one.\<close>

definition at_account :: "'h platform \<Rightarrow> nat \<Rightarrow> 'h device \<Rightarrow> bool" where
  "at_account p i d \<longleftrightarrow> provisioned p (hw d) \<and> g_currentAccountIndex d = i"

lemma succeeds_on_hw: "succeeds (provisioned p) m \<Longrightarrow> succeeds (at_account p i) (on_hw m)"
  by (fastforce simp: succeeds_def at_account_def on_hw_def)

lemma succeeds_info:
  assumes ok: "platform_ok p" "chips_work p" and i: "i \<le> 2"
  shows "succeeds (at_account p i) (set_info f)"
    and "succeeds (at_account p i) (SaveCurrentAccountInfo p)"
proof -
  show "succeeds (at_account p i) (set_info f)"
    by (auto simp: succeeds_def set_info_def update_state_def at_account_def)
  show "succeeds (at_account p i) (SaveCurrentAccountInfo p)"
  proof (rule succeedsI)
    fix d assume a: "at_account p i d"
    have "succeeds (at_account p i) (on_hw (SE_HmacEncryptWrite p (account_info_bytes (g_currentAccountInfo d)) (account_page i PAGE_INDEX_PARAM)))"
      by (rule succeeds_on_hw [OF succeeds_chip(1) [OF ok]])
    with a i show "\<exists>u d'. SaveCurrentAccountInfo p d = Some (Inr u, d') \<and> at_account p i d'"
      by (auto simp: succeeds_def SaveCurrentAccountInfo_def seq_def cmd_eval at_account_def)
  qed
qed

lemma succeeds_SaveAccountSecret:
  assumes ok: "platform_ok p" "chips_work p" and i: "j \<le> 2" "i \<le> 2"
  shows "succeeds (at_account p j) (SaveAccountSecret p i a password new)"
proof -
  have fp: "succeeds (at_account p j) (set_master_fingerprint p a)"
    unfolding set_master_fingerprint_def SetCurrentAccountMfp_def Let_def
    by (intro succeeds_rules) (auto split: option.split intro!: succeeds_rules succeeds_info [OF ok i(1)])
  show ?thesis
    unfolding SaveAccountSecret_def SetCurrentAccountEntropyLen_def
    by (intro succeeds_rules succeeds_on_hw succeeds_write_secret [OF ok i(2)] fp succeeds_info [OF ok i(1)] i(2))
qed

lemma succeeds_write_password_hash:
  assumes "platform_ok p" "chips_work p"
  shows "succeeds (at_account p j) (write_password_hash p i password)"
  unfolding write_password_hash_def by (intro succeeds_on_hw succeeds_rules succeeds_chip assms)

section \<open>The public keys are derived\<close>

text \<open>Account \<open>i\<close> is the current one and has no passphrase.\<close>

definition fresh_at :: "'h platform \<Rightarrow> nat \<Rightarrow> 'h device \<Rightarrow> bool" where
  "fresh_at p i d \<longleftrightarrow> provisioned p (hw d) \<and> g_currentAccountIndex d = i \<and> g_passphraseInfo d i = cleared_passphrase_info"

lemma fresh_PassphraseExist: "fresh_at p i d \<Longrightarrow> i \<le> 2 \<Longrightarrow> PassphraseExist i d = Some (Inr False, d)"
  by (simp add: fresh_at_def PassphraseExist_def cleared_passphrase_info_def seq_def cmd_eval strnlen_s_def)

lemma fresh_GetAccountSeed:
  assumes d: "fresh_at p i d" and i: "i \<le> 2"
  shows "read_secret p i password (hw d) = Some (Inr a, hw d) \<Longrightarrow> \<exists>seed. GetAccountSeed p i password d = Some (Inr seed, d)"
    and "\<exists>r. GetAccountSeed p i password d = Some (r, d)"
proof -
  have prov: "provisioned p (hw d)" using d by (simp add: fresh_at_def)
  have load: "LoadAccountSecret p i password d = Some (r, d)" if "read_secret p i password (hw d) = Some (r, hw d)" for r
    using that by (simp add: LoadAccountSecret_eq [OF i] on_hw_def)
  show "\<exists>seed. GetAccountSeed p i password d = Some (Inr seed, d)" if "read_secret p i password (hw d) = Some (Inr a, hw d)"
    using load [OF that] i fresh_PassphraseExist [OF d i] by (simp add: GetAccountSeed_def seq_def cmd_eval)
  obtain r where r: "read_secret p i password (hw d) = Some (r, hw d)"
    using read_secret_total [OF prov i, of password] stepsD [OF reading_secret] prov by (fastforce simp: unread_def)
  show "\<exists>r. GetAccountSeed p i password d = Some (r, d)"
    using load [OF r] i fresh_PassphraseExist [OF d i] by (cases r) (simp_all add: GetAccountSeed_def seq_def cmd_eval)
qed

lemma fresh_primes:
  assumes works: "library_works p" and d: "fresh_at p i d" and i: "i \<le> 2"
  obtains primes where "FlashReadRsaPrimes p d = Some (Inr primes, d)"
    and "\<And>P Q. primes = Some (P, Q) \<Longrightarrow> key_given (p_rsa_public_key p P Q)"
proof -
  have prov: "provisioned p (hw d)" and cur: "g_currentAccountIndex d = i" using d by (simp_all add: fresh_at_def)
  obtain password where pw: "GetPassword d = Some (Inr password, d)"
    using fresh_PassphraseExist [OF d i] cur by (simp add: GetPassword_def seq_def cmd_eval)
  obtain r where r: "GetAccountSeed p i password d = Some (r, d)" using fresh_GetAccountSeed(2) [OF d i] by blast
  have hash: "\<exists>b. HasMatchingPrimesHash p primes x d = Some (Inr b, d)" for primes x
    using fresh_PassphraseExist [OF d i] cur i
    by (simp add: HasMatchingPrimesHash_def RsaHashWithSalt_def GetMasterFingerPrint_def seq_def cmd_eval on_hw_def HashWithSalt_provisioned [OF prov])
  show ?thesis
  proof (cases r)
    case (Inl ret)
    then show ?thesis using that [of None] pw r cur
      by (simp add: FlashReadRsaPrimes_def Let_def seq_def cmd_eval)
  next
    case (Inr seed)
    let ?len = "if GetMnemonicType d = MNEMONIC_TYPE_BIP39 then 64 else GetCurrentAccountEntropyLen d"
    let ?full = "snd (p_flash_read p (GetRsaAddress d) SPI_FLASH_RSA_DATA_FULL_SIZE (hw d))"
    let ?hash = "take SPI_FLASH_RSA_HASH_SIZE (drop SPI_FLASH_RSA_DATA_SIZE ?full)"
    obtain code data where dec: "p_decrypt_primes p (take ?len (buf_write (p_uninit p 64) 0 seed)) (take SPI_FLASH_RSA_DATA_SIZE ?full) = Some (code, data)"
      using works unfolding library_works_def by fastforce
    let ?primes = "(take SPI_FLASH_RSA_PRIME_SIZE data, take SPI_FLASH_RSA_PRIME_SIZE (drop SPI_FLASH_RSA_PRIME_SIZE data))"
    obtain b where b: "HasMatchingPrimesHash p ?primes ?hash d = Some (Inr b, d)" using hash by blast
    have "FlashReadRsaPrimes p d = Some (Inr (if code \<noteq> 0 \<or> \<not> b then None else Some ?primes), d)"
      using pw r Inr cur dec b by (simp add: FlashReadRsaPrimes_def Let_def seq_def cmd_eval)
    moreover have "key_given (p_rsa_public_key p (fst ?primes) (snd ?primes))" if "code = 0"
      using works dec that unfolding library_works_def by simp
    ultimately show ?thesis using that [of "if code \<noteq> 0 \<or> \<not> b then None else Some ?primes"] by (auto split: if_splits)
  qed
qed

definition all_coins :: "public_info_type set" where
  "all_coins = {ED25519, SECP256K1, BIP32_ED25519, RSA_KEY, TON_NATIVE, TON_CHECKSUM, LEDGER_BITBOX02}"

lemma chain_table_kinds: "\<forall>(i, item)\<in>set (enumerate n g_chainTable). ch_cryptoKey item \<in> all_coins"
proof -
  have "\<forall>item\<in>set g_chainTable. ch_cryptoKey item \<in> all_coins"
    by (auto simp: g_chainTable_def all_coins_def chain_row_kinds)
  then show ?thesis by (auto simp: in_set_enumerate_eq)
qed

lemma derive_keys_succeeds:
  assumes works: "library_works p" and i: "i \<le> 2" and keys: "\<not> isSlip39 \<Longrightarrow> icarus \<noteq> None \<and> ledger \<noteq> None"
    and kinds: "\<forall>(n, item)\<in>set items. ch_cryptoKey item \<in> all_coins" and d: "fresh_at p i d"
  shows "\<exists>d'. derive_keys p isSlip39 seed icarus ledger items d = Some (Inr 0, d') \<and> fresh_at p i d' \<and> hw d' = hw d"
  using kinds d
proof (induction items arbitrary: d)
  case (Cons it items)
  obtain n item where it: "it = (n, item)" by (cases it)
  let ?rest = "derive_keys p isSlip39 seed icarus ledger items"
  show ?case
  proof (cases "isSlip39 \<and> ch_cryptoKey item \<in> {BIP32_ED25519, LEDGER_BITBOX02, ZCASH_UFVK_ENCRYPTED} \<or> ch_cryptoKey item \<in> {TON_CHECKSUM, TON_NATIVE}")
    case True
    then show ?thesis using Cons.IH [of d] Cons.prems by (simp add: it)
  next
    case False
    have kind: "ch_cryptoKey item \<in> all_coins" using Cons.prems(1) by (simp add: it)
    note step = derive_keys.simps(2) [of p isSlip39 seed icarus ledger n item items, unfolded if_not_P [OF False]]
    have given: "key_given (p_secp256k1_key p seed x)" "key_given (p_ed25519_key p seed x)" "key_given (p_bip32_ed25519_key p k x)" for x k
      using works by (simp_all add: library_works_def)
    obtain primes where primes: "FlashReadRsaPrimes p d = Some (Inr primes, d)" "\<And>P Q. primes = Some (P, Q) \<Longrightarrow> key_given (p_rsa_public_key p P Q)"
      using fresh_primes [OF works Cons.prems(2) i] by blast
    obtain x where x: "ProcessKeyType p seed (ch_cryptoKey item) (ch_path item) icarus ledger d = Some (Inr x, d)"
      and key: "key_given x \<or> ch_cryptoKey item = RSA_KEY \<and> x = None"
      using kind False keys given primes
      by (cases "ch_cryptoKey item") (auto simp: all_coins_def ProcessKeyType_def seq_def cmd_eval split: option.split)
    have rest: "\<exists>d'. ?rest e = Some (Inr 0, d') \<and> fresh_at p i d' \<and> hw d' = hw d" if "fresh_at p i e" "hw e = hw d" for e
      using Cons.IH [of e] Cons.prems(1) that by simp
    show ?thesis
    proof (cases "ch_cryptoKey item = RSA_KEY \<and> x = None")
      case True
      then show ?thesis using rest [OF Cons.prems(2)] x by (simp add: it step seq_def del: derive_keys.simps)
    next
      case no_rsa: False
      with key obtain data where data: "x = Some (0, Some data)" by (auto simp: key_given_def)
      let ?e = "d\<lparr>g_accountPublicInfo := (g_accountPublicInfo d)(n := Some (copied_key data))\<rparr>"
      have "fresh_at p i ?e" using Cons.prems(2) by (simp add: fresh_at_def)
      from rest [OF this] show ?thesis using x data no_rsa
        by (simp add: it step seq_def set_public_key_def cmd_eval del: derive_keys.simps)
    qed
  qed
qed (simp add: cmd_eval)

lemma write_public_keys_succeeds:
  assumes ok: "platform_ok p" "chips_work p" and i: "i \<le> 2"
  shows "\<exists>d'. write_public_keys p i addr d = Some (Inr (), d')"
proof -
  have flash: "fst (p_flash_write p a b h) = length b" for a b h using ok(2) by (simp add: chips_work_def)
  show ?thesis using i flash
    by (simp add: write_public_keys_def Let_def seq_def cmd_eval on_hw_def erase_area_def ignoring_result SetWalletDataHash_def
        SE_HmacEncryptWrite_def flash_write_def case_prod_beta)
qed

lemma AccountPublicInfoSwitch_succeeds:
  assumes ok: "platform_ok p" "chips_work p" and i: "i \<le> 2" and d: "fresh_at p i d"
    and secret: "read_secret p i password (hw d) = Some (Inr a, hw d)"
    and kind: "GetMnemonicType d = MNEMONIC_TYPE_SLIP39 \<or>
      GetMnemonicType d = MNEMONIC_TYPE_BIP39 \<and> (\<exists>phrase. bip39_mnemonic_from_bytes (p_sha256 p) en_word_list (take (unat (as_entropyLen a)) (as_entropy a)) = Inr phrase)"
  shows "\<exists>d'. AccountPublicInfoSwitch p i password True d = Some (Inr (), d')"
proof -
  have works: "library_works p" using ok(2) by (simp add: chips_work_def)
  define d1 where "d1 = d\<lparr>g_isTempAccount := False, g_tempPublicKeyAccountIndex := INVALID_ACCOUNT_INDEX,
     g_accountPublicInfo := (\<lambda>i. if i < XPUB_TYPE_NUM then None else g_accountPublicInfo d i)\<rparr>"
  have start: "SetIsTempAccount False d = Some (Inr (), d\<lparr>g_isTempAccount := False\<rparr>)"
    "FreePublicKeyRam (d\<lparr>g_isTempAccount := False\<rparr>) = Some (Inr (), d1)"
    by (simp_all add: SetIsTempAccount_def FreePublicKeyRam_def cmd_eval d1_def cong: if_cong)
  have free: "FreePublicKeyRam d1 = Some (Inr (), d1)"
    unfolding FreePublicKeyRam_def d1_def by (simp add: cmd_eval cong: if_cong)
  have d1: "fresh_at p i d1" and secret1: "read_secret p i password (hw d1) = Some (Inr a, hw d1)"
    and type1: "GetMnemonicType d1 = GetMnemonicType d"
    using d secret by (simp_all add: fresh_at_def GetMnemonicType_def d1_def)
  obtain seed where seed: "GetAccountSeed p i password d1 = Some (Inr seed, d1)"
    using fresh_GetAccountSeed(1) [OF d1 i secret1] by blast
  have load: "LoadAccountSecret p i password d1 = Some (Inr a, d1)"
    using secret1 by (simp add: LoadAccountSecret_eq [OF i] on_hw_def)
  then have ent: "GetAccountEntropy p i password d1 = Some (Inr (as_entropy a, unat (as_entropyLen a)), d1)"
    using i kind type1 by (auto simp: GetAccountEntropy_def seq_def cmd_eval)
  let ?addr = "SPI_FLASH_ADDR_USER1_DATA + i * SPI_FLASH_ADDR_EACH_SIZE"
  let ?slip39 = "GetMnemonicType d = MNEMONIC_TYPE_SLIP39"
  obtain icarus ledger where keys: "\<not> ?slip39 \<Longrightarrow> icarus \<noteq> None \<and> ledger \<noteq> None"
    and master: "(if GetMnemonicType d = MNEMONIC_TYPE_BIP39 then master_keys p i (take (unat (as_entropyLen a)) (as_entropy a)) else succeed (None, None)) d1
      = Some (Inr (icarus, ledger), d1)"
  proof (cases ?slip39)
    case True
    then show ?thesis using that [of None None] by (simp add: cmd_eval)
  next
    case False
    then obtain phrase where phrase: "bip39_mnemonic_from_bytes (p_sha256 p) en_word_list (take (unat (as_entropyLen a)) (as_entropy a)) = Inr phrase"
      and bip: "GetMnemonicType d = MNEMONIC_TYPE_BIP39" using kind by auto
    obtain k1 where k1: "p_icarus_master_key p (take (unat (as_entropyLen a)) (as_entropy a)) (GetPassphrase i d1) = Some (0, Some k1)"
      using works unfolding library_works_def key_given_def by blast
    obtain k2 where k2: "p_ledger_master_key p (Some phrase) (GetPassphrase i d1) = Some (0, Some k2)"
      using works unfolding library_works_def key_given_def by blast
    show ?thesis using that [of "Some k1" "Some k2"] k1 k2 phrase bip by (simp add: master_keys_def seq_def cmd_eval Let_def)
  qed
  define seed64 where "seed64 = take (if ?slip39 then GetCurrentAccountEntropyLen d1 else 64) (buf_write (p_uninit p 64) 0 seed)"
  obtain d2 where d2: "derive_keys p ?slip39 seed64 icarus ledger (enumerate 0 g_chainTable) d1 = Some (Inr 0, d2)"
    using derive_keys_succeeds [OF works i keys chain_table_kinds d1] by blast
  obtain d3 where d3: "write_public_keys p i ?addr d2 = Some (Inr (), d3)"
    using write_public_keys_succeeds [OF ok i] by blast
  have ton: "GetMnemonicType d \<noteq> MNEMONIC_TYPE_TON" using kind by auto
  have "AccountPublicSavePublicInfo p i password ?addr d1 = Some (Inr (), d3)"
    using ton type1
    by (simp add: AccountPublicSavePublicInfo_def Let_def seq_def [of get_state] seq_result(1) [of FreePublicKeyRam, OF free]
        seq_result(1) [of "GetAccountSeed p i password", OF seed] seq_result(1) [of "GetAccountEntropy p i password", OF ent]
        seq_result(1) [of "if GetMnemonicType d = MNEMONIC_TYPE_BIP39 then _ else _", OF master]
        seq_result(1) [of "derive_keys p ?slip39 seed64 icarus ledger _", OF d2] seed64_def [symmetric] seq_result(1) [of "write_public_keys p i ?addr", OF d3]
        cmd_eval lift_result_def)
  then show ?thesis using i
    by (simp add: AccountPublicInfoSwitch_def seq_result(1) [of "SetIsTempAccount False", OF start(1)] seq_def [of "require _"]
        seq_result(1) [of FreePublicKeyRam, OF start(2)] seq_def [of "succeed _"] cmd_eval Let_def ERR_KEYSTORE_EXTEND_PUBLIC_KEY_NOT_MATCH_def)
qed

section \<open>Creating an account\<close>

lemma DestroyAccount_runs:
  assumes ok: "platform_ok p" "chips_work p" and prov: "provisioned p (hw d)" and i: "i \<le> 2"
  shows "\<exists>d'. DestroyAccount p i d = Some (Inr (), d')"
proof -
  obtain h where e: "erase_account p i (hw d) = Some (Inr (), h)"
    using succeeds_write_pages [OF ok] prov unfolding succeeds_def erase_account_def by fastforce
  obtain d2 where d2: "DeleteAccountPublicInfo p i (d\<lparr>hw := h\<rparr>) = Some (Inr (), d2)"
    using DeleteAccountPublicInfo_runs [OF i] by blast
  show ?thesis using i ok(2) d2
    by (simp add: DestroyAccount_def seq_def cmd_eval code_of_def on_hw_def e ClearAccountPassphrase_def LogoutCurrentAccount_def set_info_def
        ignoring_result SetWalletDataHash_def SE_HmacEncryptWrite_def case_prod_beta chips_work_def chips_respond_def lift_result_def
        outcome_def)
qed

lemma CheckPasswordExisted_new:
  assumes "provisioned p (hw d)" and "\<forall>j\<in>{0, 1, 2}. refuses p password (hw d) j"
  shows "CheckPasswordExisted p password x d = Some (Inr (), d)"
  using verify_accounts_none [OF assms(1), of "[0, 1, 2]" password] assms(2)
  by (simp add: CheckPasswordExisted_def VerifyPassword_def on_hw_def del: verify_accounts.simps)

lemma begin_account_runs:
  assumes ok: "platform_ok p" "chips_work p" and prov: "provisioned p (hw d)" and i: "i \<le> 2"
  obtains d' where "begin_account p i kind d = Some (Inr (), d')" and "at_account p i d'"
    and "\<And>k. k < 12 \<Longrightarrow> k \<noteq> PAGE_INDEX_PARAM \<Longrightarrow> p_read p (account_page i k) (hw d') = (0, replicate 32 0)"
    and "frame p (own_pages i) {} (hw d) (hw d')"
proof -
  obtain d1 where D: "DestroyAccount p i d = Some (Inr (), d1)" using DestroyAccount_runs [OF ok prov i] by blast
  have f1: "frame p (own_pages i) {} (hw d) (hw d1)"
    using stepsD [OF steps_DestroyAccount [OF ok(1)] D] prov by (simp add: dev_frame_def pframe_def)
  let ?m = "seq get_state (\<lambda>d. seq (SetWalletName p (SecretCacheGetWalletName (g_secretCache d)))
        (\<lambda>_. SetWalletIconIndex p (SecretCacheGetWalletIconIndex (g_secretCache d))))"
  let ?d2 = "d1\<lparr>g_currentAccountInfo := kind cleared_account_info, g_currentAccountIndex := i\<rparr>"
  have "succeeds (at_account p i) ?m"
    unfolding SetWalletName_def SetWalletIconIndex_def by (intro succeeds_rules succeeds_info [OF ok i])
  moreover have at2: "at_account p i ?d2" using prov provisioned_frame [OF f1] by (simp add: at_account_def)
  ultimately obtain d' where m: "?m ?d2 = Some (Inr (), d')" and a: "at_account p i d'" unfolding succeeds_def by fastforce
  have "begin_account p i kind d = Some (Inr (), d')"
    using i D m by (simp add: begin_account_def seq_def [of "require _"] seq_def [of "ignoring _"] seq_def [of "update_state _"]
        cmd_eval ignoring_result)
  moreover have "steps (acct_frame p {account_page i PAGE_INDEX_PARAM} {} i) ?m"
    by (intro account.steps_rules info_frames [OF ok(1)]) simp_all
  from stepsD [OF this m] have f2: "frame p {account_page i PAGE_INDEX_PARAM} {} (hw d1) (hw d')"
    using at2 by (simp add: acct_frame_def at_account_def)
  then have "p_read p (account_page i k) (hw d') = (0, replicate 32 0)" if "k < 12" "k \<noteq> PAGE_INDEX_PARAM" for k
    using erase_zeros [OF ok(1) D that(1)] frame_read [OF f2, of "account_page i k"] that by (simp add: account_page_inj PAGE_INDEX_PARAM_def)
  moreover have "frame p (own_pages i) {} (hw d) (hw d')"
    using frame_trans [OF f1 f2] param_own [of i] by (auto elim!: frame_mono)
  ultimately show ?thesis using that a by blast
qed

lemma begin_and_check:
  assumes ok: "platform_ok p" "chips_work p" and prov: "provisioned p (hw d)" and i: "i \<le> 2"
    and unused: "\<forall>j\<in>{0, 1, 2} - {i}. refuses p password (hw d) j" "password_digest p password (hw d) \<noteq> replicate 32 0"
  obtains d1 where "begin_account p i kind d = Some (Inr (), d1)" and "at_account p i d1"
    and "CheckPasswordExisted p password 255 d1 = Some (Inr (), d1)"
proof -
  obtain d1 where b: "begin_account p i kind d = Some (Inr (), d1)" and a: "at_account p i d1"
    and zeros: "\<And>k. k < 12 \<Longrightarrow> k \<noteq> PAGE_INDEX_PARAM \<Longrightarrow> p_read p (account_page i k) (hw d1) = (0, replicate 32 0)"
    and f: "frame p (own_pages i) {} (hw d) (hw d1)"
    by (rule begin_account_runs [OF ok prov i, where kind = kind]) blast
  have "refuses p password (hw d1) j" if "j \<le> 2" for j
  proof (cases "j = i")
    case True
    then show ?thesis using zeros [of PAGE_INDEX_PASSWORD_HASH] unused(2) salted_frame [OF f]
      by (simp add: refuses_def stored_hash_def password_digest_def PAGE_INDEX_PASSWORD_HASH_def PAGE_INDEX_PARAM_def)
  next
    case False
    have "account_page j PAGE_INDEX_PASSWORD_HASH \<notin> own_pages i"
      using own_pages_disjoint [OF i that] False account_pages_member [of PAGE_INDEX_PASSWORD_HASH j] by (auto simp: PAGE_INDEX_PASSWORD_HASH_def)
    then have "refuses p password (hw d1) j = refuses p password (hw d) j" by (rule refuses_frame [OF f])
    moreover have "j \<in> {0, 1, 2} - {i}" using that False by auto
    ultimately show ?thesis using unused(1) by blast
  qed
  then have c: "CheckPasswordExisted p password 255 d1 = Some (Inr (), d1)"
    using a by (intro CheckPasswordExisted_new) (auto simp: at_account_def)
  show ?thesis by (rule that [OF b a c])
qed

text \<open>The rest of a creation, with what it sets of the information.\<close>

lemma rest_succeeds:
  assumes ok: "platform_ok p" "chips_work p" and i: "i \<le> 2" and a: "at_account p i d"
    and info: "wf_account_info (g_currentAccountInfo d)" and clear: "g_passphraseInfo d i = cleared_passphrase_info"
    and x: "wf_account_secret x" "as_entropyLen x \<noteq> 0"
    and f: "\<And>ai. (wf_account_info ai \<longrightarrow> wf_account_info (f ai)) \<and> ai_isSlip39 (f ai) = ai_isSlip39 ai \<and> ai_isTon (f ai) = ai_isTon ai"
      "\<And>ai. ai_entropyLen (f ai) = ai_entropyLen ai"
    and kind: "GetMnemonicType d = MNEMONIC_TYPE_SLIP39 \<or>
      GetMnemonicType d = MNEMONIC_TYPE_BIP39 \<and> (\<exists>phrase. bip39_mnemonic_from_bytes (p_sha256 p) en_word_list (take (unat (as_entropyLen x)) (as_entropy x)) = Inr phrase)"
  shows "\<exists>d'. seq (SaveAccountSecret p i x password True) (\<lambda>_. seq (write_password_hash p i password) (\<lambda>_.
    seq (set_info f) (\<lambda>_. finish_account p password))) d = Some (Inr (), d')"
proof -
  have run: "\<exists>e'. m e = Some (Inr (), e') \<and> at_account p i e'" if "succeeds (at_account p i) m" "at_account p i e" for m :: "('a device, unit) cmd" and e
    using that unfolding succeeds_def by (metis (full_types) old.unit.exhaust)
  obtain d1 where s: "SaveAccountSecret p i x password True d = Some (Inr (), d1)" and a1: "at_account p i d1"
    using run [OF succeeds_SaveAccountSecret [OF ok i i] a] by blast
  obtain d2 where w: "write_password_hash p i password d1 = Some (Inr (), d2)" and a2: "at_account p i d2"
    using run [OF succeeds_write_password_hash [OF ok] a1] by blast
  obtain d3 where e: "set_info f d2 = Some (Inr (), d3)" and a3: "at_account p i d3"
    using run [OF succeeds_info(1) [OF ok i] a2] by blast
  obtain d4 where s4: "SaveCurrentAccountInfo p d3 = Some (Inr (), d4)"
    using run [OF succeeds_info(2) [OF ok i] a3] by blast
  have prov: "provisioned p (hw d)" and cur: "g_currentAccountIndex d = i" using a by (simp_all add: at_account_def)
  note saved = new_account_saved [OF ok(1) prov i cur info x s w e f s4]
  have "fresh_at p i d4" using saved(1,2,4) clear by (simp add: fresh_at_def)
  from AccountPublicInfoSwitch_succeeds [OF ok i this saved(9) [OF frame_refl]] kind saved(3)
  obtain d5 where "AccountPublicInfoSwitch p i password True d4 = Some (Inr (), d5)" by auto
  then have "finish_account p password d3 = Some (Inr (), d5)"
    using saved(2) by (simp add: finish_account_def seq_result(1) [of "SaveCurrentAccountInfo p", OF s4] seq_def [of get_state] cmd_eval)
  then show ?thesis
    by (simp add: seq_result(1) [of "SaveAccountSecret p i x password True", OF s]
        seq_result(1) [of "write_password_hash p i password", OF w] seq_result(1) [of "set_info f", OF e])
qed

lemma set_info_id: "seq (set_info id) (\<lambda>_. m) = m"
  by (rule ext) (simp add: seq_def set_info_def update_state_def)

lemma creation_succeeds:
  assumes ok: "platform_ok p" "chips_work p" and prov: "provisioned p (hw d)" and i: "i \<le> 2"
    and len: "length ent \<in> {16, 20, 24, 28, 32}"
    and unused: "\<forall>j\<in>{0, 1, 2} - {i}. refuses p password (hw d) j" "password_digest p password (hw d) \<noteq> replicate 32 0"
  shows "\<exists>d'. CreateNewAccount p i ent password d = Some (Inr (), d')"
proof -
  obtain d1 where b: "begin_account p i id d = Some (Inr (), d1)" and a: "at_account p i d1"
    and c: "CheckPasswordExisted p password 255 d1 = Some (Inr (), d1)"
    by (rule begin_and_check [OF ok prov i unused, where kind = id])
  obtain phrase where phrase: "bip39_mnemonic_from_bytes (p_sha256 p) en_word_list ent = Inr phrase"
    by (rule bip39_entropy_mnemonic [OF len])
  have kind: "wf_account_info (id cleared_account_info)" by (simp add: wf_cleared_account_info)
  note bs = begin_account_success [OF ok(1) prov b kind]
  have kindB: "GetMnemonicType d1 = MNEMONIC_TYPE_BIP39" using bs(6) by (simp add: GetMnemonicType_def cleared_flags)
  define x where "x = cleared_account_secret\<lparr>as_entropy := memcpy_s (replicate 32 0) 0 32 ent, as_entropyLen := of_nat (length ent),
    as_seed := p_pbkdf2_hmac_sha512 p phrase (cstr ''mnemonic'') 2048 64\<rparr>"
  have "length ent \<le> 32" and unat_len: "unat (of_nat (length ent) :: u8) = length ent" using len by auto
  then have wf: "wf_account_secret x" and nonzero: "as_entropyLen x \<noteq> 0"
    and ent: "take (unat (as_entropyLen x)) (as_entropy x) = ent"
    using len by (auto simp: x_def wf_account_secret_def cleared_account_secret_def entropy_field crypto_laws(7) [OF ok(1)])
  obtain d' where "seq (SaveAccountSecret p i x password True) (\<lambda>_. seq (write_password_hash p i password) (\<lambda>_.
    seq (set_info id) (\<lambda>_. finish_account p password))) d1 = Some (Inr (), d')"
    using rest_succeeds [OF ok i a bs(4,5) wf nonzero, where f = id and password = password] kindB phrase ent by auto
  then show ?thesis using i
    by (simp add: CreateNewAccount_def SaveNewBip39Entropy_def seq_assoc seq_result(1) [of "begin_account p i id", OF b]
        seq_result(1) [of "CheckPasswordExisted p password 255", OF c] seq_def [of "require _"] seq_def [of "lift_result _"]
        cmd_eval lift_result_def phrase bip39_mnemonic_to_seed_def set_info_id x_def)
qed

lemma slip39_creation_succeeds:
  assumes ok: "platform_ok p" "chips_work p" and prov: "provisioned p (hw d)" and i: "i \<le> 2"
    and len: "0 < length ent" "length ent \<le> 32" "length ems = length ent"
    and unused: "\<forall>j\<in>{0, 1, 2} - {i}. refuses p password (hw d) j" "password_digest p password (hw d) \<noteq> replicate 32 0"
  shows "\<exists>d'. CreateNewSlip39Account p i ems ent password ident eb ie d = Some (Inr (), d')"
proof -
  let ?kind = "\<lambda>ai. ai\<lparr>ai_isSlip39 := True\<rparr>"
  obtain d1 where b: "begin_account p i ?kind d = Some (Inr (), d1)" and a: "at_account p i d1"
    and c: "CheckPasswordExisted p password 255 d1 = Some (Inr (), d1)"
    by (rule begin_and_check [OF ok prov i unused, where kind = ?kind])
  have kind: "wf_account_info (cleared_account_info\<lparr>ai_isSlip39 := True\<rparr>)"
    using wf_cleared_account_info by (simp add: wf_account_info_def)
  note bs = begin_account_success [OF ok(1) prov b kind]
  have kindS: "GetMnemonicType d1 = MNEMONIC_TYPE_SLIP39" using bs(6) by (simp add: GetMnemonicType_def)
  let ?f = "\<lambda>ai. ai\<lparr>ai_slip39Id := ident, ai_slip39IeEb := ie OR push_bit 4 (of_bool eb)\<rparr>"
  define x where "x = cleared_account_secret\<lparr>as_entropy := memcpy_s (replicate 32 0) 0 32 ent, as_entropyLen := of_nat (length ent),
     as_seed := memcpy_s (replicate 64 0) 0 64 ent, as_slip39EmsOrTonEntropyL32 := memcpy_s (replicate 32 0) 0 32 ems\<rparr>"
  have seed: "memcpy_s (replicate 64 0) 0 64 ent = ent @ replicate (64 - length ent) 0"
    using len by (simp add: memcpy_s_def buf_write_def)
  have wf: "wf_account_secret x"
    using len by (simp add: x_def wf_account_secret_def cleared_account_secret_def entropy_field seed)
  have "unat (of_nat (length ent) :: u8) = length ent" using len by (simp add: unat_of_nat)
  then have nonzero: "as_entropyLen x \<noteq> 0" using len by (auto simp: x_def)
  have f_ok: "(wf_account_info ai \<longrightarrow> wf_account_info (?f ai)) \<and> ai_isSlip39 (?f ai) = ai_isSlip39 ai \<and> ai_isTon (?f ai) = ai_isTon ai" for ai
    by (simp add: wf_account_info_def)
  obtain d' where "seq (SaveAccountSecret p i x password True) (\<lambda>_. seq (write_password_hash p i password) (\<lambda>_.
    seq (set_info ?f) (\<lambda>_. finish_account p password))) d1 = Some (Inr (), d')"
    using rest_succeeds [OF ok i a bs(4,5) wf nonzero f_ok, where password = password] kindS by auto
  then show ?thesis using i
    by (simp add: CreateNewSlip39Account_def SaveNewSlip39Entropy_def seq_assoc seq_result(1) [of "begin_account p i ?kind", OF b]
        seq_result(1) [of "CheckPasswordExisted p password 255", OF c] seq_def [of "require _"] cmd_eval x_def)
qed

lemma password_change_succeeds:
  assumes ok: "platform_ok p" "chips_work p" and a: "at_account p j d" "j \<le> 2" and l: "LoadAccountSecret p i password d = Some (Inr x, d)"
    and unused: "\<forall>j\<in>{0, 1, 2}. refuses p newPassword (hw d) j"
  shows "\<exists>d'. ChangePassword p i newPassword password d = Some (Inr (), d')"
proof -
  have i: "i \<le> 2" by (rule LoadAccountSecret_index [OF l])
  have "provisioned p (hw d)" using a(1) by (simp add: at_account_def)
  from CheckPasswordExisted_new [OF this unused] have c: "CheckPasswordExisted p newPassword i d = Some (Inr (), d)" .
  have "succeeds (at_account p j) (seq (SaveAccountSecret p i x newPassword False) (\<lambda>_. write_password_hash p i newPassword))"
    by (intro succeeds_rules succeeds_SaveAccountSecret [OF ok a(2) i] succeeds_write_password_hash [OF ok])
  with a(1) obtain d' where "seq (SaveAccountSecret p i x newPassword False) (\<lambda>_. write_password_hash p i newPassword) d = Some (Inr (), d')"
    unfolding succeeds_def by (metis (full_types) old.unit.exhaust)
  then show ?thesis using i
    by (simp add: ChangePassword_def seq_def [of "require _"] cmd_eval seq_result(1) [of "CheckPasswordExisted p newPassword i", OF c]
        seq_result(1) [of "LoadAccountSecret p i password", OF l])
qed

text \<open>
  C4: When the chips and the Rust library do what they are asked, \<^verbatim>\<open>CreateNewAccount\<close> succeeds for every
  entropy length of BIP-39 and every password that no other account uses, whatever the RAM and the flash held before:
  the last step, deriving and storing the public keys, loads the secret that the steps before it saved.
\<close>

theorem CreateNewAccount_succeeds:
  assumes "platform_ok p" and "chips_work p" and "provisioned p (hw d)" and "i \<le> 2" and "length ent \<in> {16, 20, 24, 28, 32}"
    and "\<forall>j\<in>{0, 1, 2} - {i}. refuses p password (hw d) j" and "password_digest p password (hw d) \<noteq> replicate 32 0"
  shows "\<exists>d'. CreateNewAccount p i ent password d = Some (Inr (), d')"
  using assms by (rule creation_succeeds)

section \<open>Examples\<close>

lemma example_works: "chips_work example_platform"
  by (simp add: chips_work_def chips_respond_def library_works_def key_given_def example_platform_def)

lemma example_digest:
  "password_bytes password \<noteq> [] \<Longrightarrow>
   password_digest example_platform password h = fit 32 (fit 32 (password_bytes password @ replicate 32 7) @ cstr ''password hash'')"
  by (simp add: password_digest_def salted_def hmac_into_def example_platform_def fit_def cstr_def)

definition secret_password :: bytes where "secret_password = cstr ''secret''"
definition other_password :: bytes where "other_password = cstr ''another''"

lemma digest_byte:
  "length password < 32 \<Longrightarrow> 0 < length password \<Longrightarrow> password_digest example_platform password h ! 0 = password ! 0"
  by (simp add: example_digest fit_def password_bytes_def strnlen_s_def PASSWORD_MAX_LEN_def nth_append)

lemma example_passwords:
  "password_digest example_platform secret_password h ! 0 = 115" "password_digest example_platform other_password h ! 0 = 97"
  by (simp_all add: digest_byte secret_password_def other_password_def cstr_def)

lemma digest_nonzero:
  "password_digest example_platform secret_password h \<noteq> replicate 32 0" "password_digest example_platform other_password h \<noteq> replicate 32 0"
proof -
  have "x \<noteq> replicate 32 0" if "x ! 0 \<noteq> 0" for x :: bytes using that by (metis nth_replicate zero_less_numeral)
  then show "password_digest example_platform secret_password h \<noteq> replicate 32 0"
    "password_digest example_platform other_password h \<noteq> replicate 32 0"
    using example_passwords [of h] by simp_all
qed

definition example_device :: "example_hw device" where
  "example_device = (power_on example_start)\<lparr>g_currentAccountIndex := 0\<rparr>"

lemma example_device_ok: "provisioned example_platform (hw example_device)" "at_account example_platform 0 example_device"
  by (simp_all add: example_provisioned at_account_def example_device_def)

lemma example_hashes: "stored_hash example_platform j (hw example_device) = replicate 32 0"
  by (simp add: stored_hash_def example_platform_def example_device_def power_on_def example_start_def)

lemma example_refuses:
  "refuses example_platform secret_password (hw example_device) j" "refuses example_platform other_password (hw example_device) j"
  using digest_nonzero [of "hw example_device"] by (auto simp: refuses_def example_hashes) (simp_all add: example_platform_def)

lemma CreateNewAccount_succeeds_witness:
  "\<exists>d'. CreateNewAccount example_platform 0 (replicate 16 7) secret_password example_device = Some (Inr (), d')"
  by (rule CreateNewAccount_succeeds [OF example_platform_ok example_works example_device_ok(1)])
    (simp_all add: example_refuses digest_nonzero)

definition example_created :: "example_hw device \<Rightarrow> bool" where
  "example_created d \<longleftrightarrow> CreateNewAccount example_platform 0 (replicate 16 7) secret_password example_device = Some (Inr (), d)"

lemma example_creates: "\<exists>d. example_created d"
  unfolding example_created_def
  by (rule creation_succeeds [OF example_platform_ok example_works example_device_ok(1)]) (simp_all add: example_refuses digest_nonzero)

lemma CreateNewAccount_opens_witness:
  "\<exists>d'. example_created d' \<and> VerifyPassword example_platform secret_password d' = Some (Inr 0, d') \<and>
     GetAccountEntropy example_platform 0 secret_password d' = Some (Inr (replicate 16 7 @ replicate 16 0, 16), d')"
proof -
  obtain d' where d': "example_created d'" using example_creates by blast
  show ?thesis
    using CreateNewAccount_opens [OF example_platform_ok example_device_ok(1) _ d' [unfolded example_created_def]] d'
    by (intro exI [of _ d']) simp
qed

lemma CreateNewSlip39Account_opens_witness:
  "\<exists>d'. GetAccountSlip39Ems example_platform 0 secret_password d' = Some (Inr (replicate 16 9 @ replicate 16 0), d') \<and> GetSlip39Ie d' = 1"
proof -
  have "\<exists>d'. CreateNewSlip39Account example_platform 0 (replicate 16 9) (replicate 16 7) secret_password 4543 False 1 example_device = Some (Inr (), d')"
    by (rule slip39_creation_succeeds [OF example_platform_ok example_works example_device_ok(1)])
      (simp_all add: example_refuses digest_nonzero)
  then obtain d' where d': "CreateNewSlip39Account example_platform 0 (replicate 16 9) (replicate 16 7) secret_password 4543 False 1 example_device = Some (Inr (), d')"
    by blast
  show ?thesis
    using CreateNewSlip39Account_opens [OF example_platform_ok example_device_ok(1) _ _ _ _ d'] by (intro exI [of _ d']) simp
qed

lemma VerifyPassword_finds_witness:
  "VerifyPassword example_platform secret_password example_device = Some (Inl ERR_KEYSTORE_PASSWORD_ERR, example_device)"
proof -
  have "\<forall>i\<in>{0, 1, 2}. fst (p_read example_platform (account_page i PAGE_INDEX_PASSWORD_HASH) (hw example_device)) = 0"
    by (simp add: example_platform_def)
  from VerifyPassword_finds [OF example_device_ok(1) this, of secret_password] show ?thesis
    using digest_nonzero(1) [of "hw example_device"] by (simp add: example_hashes eq_commute [of "replicate 32 0"])
qed

lemma LoadAccountSecret_authenticated_witness:
  "\<exists>r. LoadAccountSecret example_platform 1 secret_password example_device = Some (r, example_device)"
proof -
  have "\<forall>k\<in>{0, 1, 2, 3, 4, 5, 6, 9}. fst (p_read example_platform (account_page 1 k) (hw example_device)) = 0"
    by (simp add: example_platform_def)
  from LoadAccountSecret_authenticated [OF example_device_ok(1) _ this, of secret_password] show ?thesis by auto
qed

lemma example_saves:
  "\<exists>d1. SaveAccountSecret example_platform 0 cleared_account_secret secret_password False example_device = Some (Inr (), d1)"
  using succeeds_SaveAccountSecret [OF example_platform_ok example_works, of 0 0] example_device_ok(2) unfolding succeeds_def
  by (metis (full_types) old.unit.exhaust zero_le)

lemma saved_secrets_survive_witness:
  "\<exists>d1 a. SaveAccountSecret example_platform 0 cleared_account_secret secret_password False example_device = Some (Inr (), d1)
     \<and> LoadAccountSecret example_platform 0 secret_password d1 = Some (Inr a, d1)"
proof -
  obtain d1 where d1: "SaveAccountSecret example_platform 0 cleared_account_secret secret_password False example_device = Some (Inr (), d1)"
    using example_saves by blast
  let ?ds = "[example_device, d1]"
  have saves: "\<forall>n<1. wf_account_secret cleared_account_secret \<and>
    SaveAccountSecret example_platform 0 cleared_account_secret secret_password False (?ds ! n) = Some (Inr (), ?ds ! Suc n)"
    using d1 by (simp add: wf_account_secret_def cleared_account_secret_def)
  obtain param where "p_read example_platform (account_page 0 PAGE_INDEX_PARAM) (hw (?ds ! 1)) = (0, param)"
    by (simp add: example_platform_def)
  from saved_secrets_survive [where ds = ?ds and m = 1 and n = 0 and i = "\<lambda>n. 0" and a = "\<lambda>n. cleared_account_secret" and
      password = "\<lambda>n. secret_password" and new = "\<lambda>n. False", OF example_platform_ok _ saves _ _ _ this] example_device_ok(1) d1
  show ?thesis by auto
qed

lemma ChangePassword_keeps_secret_witness:
  "\<exists>d1 d2. ChangePassword example_platform 0 other_password secret_password d1 = Some (Inr (), d2)
     \<and> VerifyPassword example_platform other_password d2 = Some (Inr 0, d2)"
proof -
  obtain d1 where run: "SaveAccountSecret example_platform 0 cleared_account_secret secret_password False example_device = Some (Inr (), d1)"
    using example_saves by blast
  have wf: "wf_account_secret cleared_account_secret" by (simp add: wf_account_secret_def cleared_account_secret_def)
  note sv = SaveAccountSecret_success [OF example_platform_ok example_device_ok(1) wf run]
  from sv(4) have d1: "d1 = example_device\<lparr>hw := hw d1\<rparr>" and f: "frame example_platform (secret_pages 0) {0} (hw example_device) (hw d1)"
    by simp_all
  have at1: "at_account example_platform 0 d1"
    using arg_cong [OF d1, of g_currentAccountIndex] by (simp add: at_account_def example_provisioned example_device_def)
  obtain x where l: "LoadAccountSecret example_platform 0 secret_password d1 = Some (Inr x, d1)"
    using readable_load [OF sv(2,1)] by (simp add: example_platform_def)
  have refused: "refuses example_platform other_password (hw d1) j" for j
    using refuses_frame [OF f hash_no_secret, of other_password j] example_refuses(2) by simp
  have "\<exists>d2. ChangePassword example_platform 0 other_password secret_password d1 = Some (Inr (), d2)"
    by (rule password_change_succeeds [OF example_platform_ok example_works at1 _ l]) (simp_all add: refused)
  then obtain d2 where d2: "ChangePassword example_platform 0 other_password secret_password d1 = Some (Inr (), d2)" by blast
  have "provisioned example_platform (hw d1)" by (rule example_provisioned)
  from ChangePassword_keeps_secret [OF example_platform_ok this d2] d2 show ?thesis by blast
qed

lemma other_accounts_undisturbed_witness:
  "\<exists>d' d'' r. DestroyAccount example_platform 0 example_device = Some (Inr (), d') \<and>
     VerifyPasswordAndLogin example_platform secret_password d' = Some (r, d'') \<and>
     (\<forall>k<12. p_read example_platform (account_page 1 k) (hw d'') = p_read example_platform (account_page 1 k) (hw example_device)) \<and>
     g_passphraseInfo d'' 1 = g_passphraseInfo example_device 1"
proof -
  obtain d' where d': "DestroyAccount example_platform 0 example_device = Some (Inr (), d')"
    using DestroyAccount_runs [OF example_platform_ok example_works example_device_ok(1), of 0] by auto
  then have op: "account_operation example_platform 0 example_device d'" by (rule account_operation.destroy)
  have one: "operations_elsewhere example_platform 1 example_device d'"
    by (rule elsewhere_account [OF elsewhere_none _ _ op]) simp_all
  have f: "frame example_platform (own_pages 0) {} (hw example_device) (hw d')"
    using stepsD [OF steps_DestroyAccount [OF example_platform_ok] d'] example_device_ok(1) by (simp add: dev_frame_def)
  have "refuses example_platform secret_password (hw d') j" if "j \<in> {0, 1, 2}" for j
  proof (cases "j = 0")
    case True
    then show ?thesis using erase_zeros [OF example_platform_ok d', of PAGE_INDEX_PASSWORD_HASH] digest_nonzero(1) [of "hw d'", symmetric]
      by (simp add: refuses_def stored_hash_def PAGE_INDEX_PASSWORD_HASH_def)
  next
    case False
    then have "account_page j PAGE_INDEX_PASSWORD_HASH \<notin> own_pages 0"
      using own_pages_disjoint [of 0 j] account_pages_member [of PAGE_INDEX_PASSWORD_HASH j] that by (auto simp: PAGE_INDEX_PASSWORD_HASH_def)
    from refuses_frame [OF f this] show ?thesis using example_refuses(1) by simp
  qed
  then have v: "VerifyPassword example_platform secret_password d' = Some (Inl ERR_KEYSTORE_PASSWORD_ERR, d')"
    using verify_accounts_none [OF example_provisioned, of "[0, 1, 2]" secret_password "hw d'"]
    by (simp add: VerifyPassword_def on_hw_def del: verify_accounts.simps)
  then obtain r d'' where l: "VerifyPasswordAndLogin example_platform secret_password d' = Some (r, d'')"
    by (simp add: VerifyPasswordAndLogin_def count_failure_def seq_def set_public_info_def update_state_def ignoring_result
        save_public_info_def get_state_def on_hw_def SE_HmacEncryptWrite_def case_prod_beta fail_with_def)
  then have "ignoring (VerifyPasswordAndLogin example_platform secret_password) d' = Some (Inr (), d'')" by (simp add: ignoring_result)
  from elsewhere_shared [OF one shared_login this] have run: "operations_elsewhere example_platform 1 example_device d''" .
  from other_accounts_undisturbed [OF example_platform_ok example_device_ok(1) run] d' l show ?thesis by auto
qed

lemma DestroyAccount_erases_witness:
  "\<exists>d'. DestroyAccount example_platform 0 example_device = Some (Inr (), d') \<and> g_currentAccountIndex d' = ACCOUNT_INDEX_LOGOUT"
proof -
  obtain d' where "DestroyAccount example_platform 0 example_device = Some (Inr (), d')"
    using DestroyAccount_runs [OF example_platform_ok example_works example_device_ok(1), of 0] by auto
  then show ?thesis using DestroyAccount_erases [OF example_platform_ok] by blast
qed

lemma failed_logins_counted_witness:
  "\<exists>d'. failed_logins example_platform 1 example_device d' \<and> unat (GetLoginPasswordErrorCount d') = 1"
proof -
  have v: "VerifyPassword example_platform secret_password example_device = Some (Inl ERR_KEYSTORE_PASSWORD_ERR, example_device)"
    using verify_accounts_none [OF example_device_ok(1), of "[0, 1, 2]" secret_password] example_refuses(1)
    by (simp add: VerifyPassword_def on_hw_def del: verify_accounts.simps)
  then obtain r d' where l: "VerifyPasswordAndLogin example_platform secret_password example_device = Some (r, d')"
    by (simp add: VerifyPasswordAndLogin_def count_failure_def seq_def set_public_info_def update_state_def ignoring_result
        save_public_info_def get_state_def on_hw_def SE_HmacEncryptWrite_def case_prod_beta fail_with_def)
  have f: "failed_logins example_platform 1 example_device d'"
    using failed_logins.one_more [OF failed_logins.none_yet v l] by simp
  have "unat (GetLoginPasswordErrorCount example_device) = 0"
    by (simp add: GetLoginPasswordErrorCount_def example_device_def power_on_def cleared_public_info_def bytes_public_info_def)
  with failed_logins_counted [OF f] f show ?thesis by auto
qed

lemma AccountsDataCheck_consistent_witness:
  "\<exists>d'. AccountsDataCheck example_platform example_device = Some (Inr (), d') \<and> consistent example_platform 2 (hw d') \<and>
     p_read example_platform (account_page 2 1) (hw d') = p_read example_platform (account_page 2 1) (hw example_device)"
proof -
  have "chips_respond example_platform" using example_works by (simp add: chips_work_def)
  moreover have "consistent example_platform 2 (hw example_device)"
    by (simp add: consistent_def example_platform_def example_device_def power_on_def example_start_def)
  ultimately show ?thesis using AccountsDataCheck_consistent [OF example_platform_ok, of example_device] by auto
qed

end
