(* ===== verification/Md5.thy ===== *)
theory Md5
  imports Prelude
begin

text \<open>
  MD5, \<^verbatim>\<open>src/crypto/checksum/md5.c\<close>: the digest of a file that arrives in pieces. The code is modelled
  with its context of counters, registers and a partly filled buffer. The definition of RFC 1321, which
  pads the whole message first, is the reference.
\<close>

section \<open>The functions of the rounds\<close>

definition MD5_F :: "u32 \<Rightarrow> u32 \<Rightarrow> u32 \<Rightarrow> u32" where "MD5_F x y z = z XOR (x AND (y XOR z))"
definition MD5_G :: "u32 \<Rightarrow> u32 \<Rightarrow> u32 \<Rightarrow> u32" where "MD5_G x y z = y XOR (z AND (x XOR y))"
definition MD5_H :: "u32 \<Rightarrow> u32 \<Rightarrow> u32 \<Rightarrow> u32" where "MD5_H x y z = (x XOR y) XOR z"
definition MD5_H2 :: "u32 \<Rightarrow> u32 \<Rightarrow> u32 \<Rightarrow> u32" where "MD5_H2 x y z = x XOR (y XOR z)"
definition MD5_I :: "u32 \<Rightarrow> u32 \<Rightarrow> u32 \<Rightarrow> u32" where "MD5_I x y z = y XOR (x OR NOT z)"

text \<open>
  The registers are listed in the order the next \<^verbatim>\<open>STEP\<close> names them; its arguments rotate by one from
  step to step, so after four steps they are in the order \<^verbatim>\<open>a\<close>, \<^verbatim>\<open>b\<close>, \<^verbatim>\<open>c\<close>, \<^verbatim>\<open>d\<close> again. A row is the function,
  the index of the word, the constant and the shift.
\<close>

type_synonym md5_regs = "u32 \<times> u32 \<times> u32 \<times> u32"
type_synonym md5_row = "(u32 \<Rightarrow> u32 \<Rightarrow> u32 \<Rightarrow> u32) \<times> nat \<times> u32 \<times> nat"

fun STEP :: "u32 list \<Rightarrow> md5_row \<Rightarrow> md5_regs \<Rightarrow> md5_regs" where
  "STEP block (f, n, t, s) (a, b, c, d) =
     (let a = a + (f b c d + block ! n + t);
          a = push_bit s a OR drop_bit (32 - s) a
      in (d, a + b, b, c))"

definition md5_round_1 :: "md5_row list" where
  "md5_round_1 =
     [(MD5_F, 0, 3614090360, 7), (MD5_F, 1, 3905402710, 12), (MD5_F, 2, 606105819, 17), (MD5_F, 3, 3250441966, 22),
      (MD5_F, 4, 4118548399, 7), (MD5_F, 5, 1200080426, 12), (MD5_F, 6, 2821735955, 17), (MD5_F, 7, 4249261313, 22),
      (MD5_F, 8, 1770035416, 7), (MD5_F, 9, 2336552879, 12), (MD5_F, 10, 4294925233, 17), (MD5_F, 11, 2304563134, 22),
      (MD5_F, 12, 1804603682, 7), (MD5_F, 13, 4254626195, 12), (MD5_F, 14, 2792965006, 17), (MD5_F, 15, 1236535329, 22)]"

definition md5_round_2 :: "md5_row list" where
  "md5_round_2 =
     [(MD5_G, 1, 4129170786, 5), (MD5_G, 6, 3225465664, 9), (MD5_G, 11, 643717713, 14), (MD5_G, 0, 3921069994, 20),
      (MD5_G, 5, 3593408605, 5), (MD5_G, 10, 38016083, 9), (MD5_G, 15, 3634488961, 14), (MD5_G, 4, 3889429448, 20),
      (MD5_G, 9, 568446438, 5), (MD5_G, 14, 3275163606, 9), (MD5_G, 3, 4107603335, 14), (MD5_G, 8, 1163531501, 20),
      (MD5_G, 13, 2850285829, 5), (MD5_G, 2, 4243563512, 9), (MD5_G, 7, 1735328473, 14), (MD5_G, 12, 2368359562, 20)]"

definition md5_round_3 :: "md5_row list" where
  "md5_round_3 =
     [(MD5_H, 5, 4294588738, 4), (MD5_H2, 8, 2272392833, 11), (MD5_H, 11, 1839030562, 16), (MD5_H2, 14, 4259657740, 23),
      (MD5_H, 1, 2763975236, 4), (MD5_H2, 4, 1272893353, 11), (MD5_H, 7, 4139469664, 16), (MD5_H2, 10, 3200236656, 23),
      (MD5_H, 13, 681279174, 4), (MD5_H2, 0, 3936430074, 11), (MD5_H, 3, 3572445317, 16), (MD5_H2, 6, 76029189, 23),
      (MD5_H, 9, 3654602809, 4), (MD5_H2, 12, 3873151461, 11), (MD5_H, 15, 530742520, 16), (MD5_H2, 2, 3299628645, 23)]"

definition md5_round_4 :: "md5_row list" where
  "md5_round_4 =
     [(MD5_I, 0, 4096336452, 6), (MD5_I, 7, 1126891415, 10), (MD5_I, 14, 2878612391, 15), (MD5_I, 5, 4237533241, 21),
      (MD5_I, 12, 1700485571, 6), (MD5_I, 3, 2399980690, 10), (MD5_I, 10, 4293915773, 15), (MD5_I, 1, 2240044497, 21),
      (MD5_I, 8, 1873313359, 6), (MD5_I, 15, 4264355552, 10), (MD5_I, 6, 2734768916, 15), (MD5_I, 13, 1309151649, 21),
      (MD5_I, 4, 4149444226, 6), (MD5_I, 11, 3174756917, 10), (MD5_I, 2, 718787259, 15), (MD5_I, 9, 3951481745, 21)]"

definition SET :: "bytes \<Rightarrow> nat \<Rightarrow> u32" where
  "SET ptr n = of_le32 (ptr ! (n * 4)) (ptr ! (n * 4 + 1)) (ptr ! (n * 4 + 2)) (ptr ! (n * 4 + 3))"

definition md5_rows :: "md5_row list" where
  "md5_rows = md5_round_1 @ md5_round_2 @ md5_round_3 @ md5_round_4"

text \<open>One round of the loop of \<^verbatim>\<open>body\<close>. The first 16 steps fill \<^verbatim>\<open>block\<close>, which is not read before.\<close>

definition md5_block :: "bytes \<Rightarrow> md5_regs \<Rightarrow> md5_regs" where
  "md5_block ptr r =
     (let block = map (SET ptr) [0..<16];
          (saved_a, saved_b, saved_c, saved_d) = r;
          (a, b, c, d) = fold (STEP block) md5_rows r
      in (a + saved_a, b + saved_b, c + saved_c, d + saved_d))"

fun body :: "bytes \<Rightarrow> md5_regs \<Rightarrow> md5_regs" where
  "body data r = (if length data < 64 then r else body (drop 64 data) (md5_block (take 64 data) r))"

declare body.simps [simp del]

section \<open>The context\<close>

record md5_ctx =
  md5_lo :: u32
  md5_hi :: u32
  md5_regs :: md5_regs
  md5_buffer :: bytes

definition MD5_Init :: "md5_ctx \<Rightarrow> md5_ctx" where
  "MD5_Init ctx = ctx\<lparr>md5_regs := (0x67452301, 0xefcdab89, 0x98badcfe, 0x10325476), md5_lo := 0, md5_hi := 0\<rparr>"

text \<open>The counters: 29 bits of bytes, and the rest in units of 512 megabytes; both are of 32 bits.\<close>

definition md5_count :: "u32 \<Rightarrow> md5_ctx \<Rightarrow> md5_ctx" where
  "md5_count len ctx =
     (let saved_lo = md5_lo ctx;
          lo = (saved_lo + len) AND 0x1fffffff;
          hi = (if lo < saved_lo then md5_hi ctx + 1 else md5_hi ctx)
      in ctx\<lparr>md5_lo := lo, md5_hi := hi + drop_bit 29 len\<rparr>)"

definition md5_blocks :: "bytes \<Rightarrow> md5_ctx \<Rightarrow> md5_ctx" where
  "md5_blocks data ctx =
     (let whole = (if 64 \<le> length data then length data div 64 * 64 else 0);
          ctx = (if 64 \<le> length data then ctx\<lparr>md5_regs := body (take whole data) (md5_regs ctx)\<rparr> else ctx)
      in ctx\<lparr>md5_buffer := buf_write (md5_buffer ctx) 0 (drop whole data)\<rparr>)"

definition MD5_Update :: "bytes \<Rightarrow> md5_ctx \<Rightarrow> md5_ctx" where
  "MD5_Update data ctx0 =
     (let used = unat (md5_lo ctx0 AND 0x3f);
          available = 64 - used;
          ctx = md5_count (of_nat (length data)) ctx0
      in if used = 0 then md5_blocks data ctx
         else if length data < available then ctx\<lparr>md5_buffer := buf_write (md5_buffer ctx) used data\<rparr>
         else
           let buffer = buf_write (md5_buffer ctx) used (take available data)
           in md5_blocks (drop available data) (ctx\<lparr>md5_buffer := buffer, md5_regs := body buffer (md5_regs ctx)\<rparr>))"

text \<open>The digest; \<^verbatim>\<open>MD5_Final\<close> clears the context.\<close>

definition md5_output :: "md5_regs \<Rightarrow> bytes" where
  "md5_output r = (case r of (a, b, c, d) \<Rightarrow> le32 a @ le32 b @ le32 c @ le32 d)"

definition MD5_Final :: "md5_ctx \<Rightarrow> bytes" where
  "MD5_Final ctx =
     (let used = unat (md5_lo ctx AND 0x3f);
          buffer = (md5_buffer ctx)[used := 0x80];
          used = used + 1;
          available = 64 - used;
          full = available < 8;
          regs = (if full then body (buf_write buffer used (replicate available 0)) (md5_regs ctx) else md5_regs ctx);
          buffer = (if full then buf_write buffer used (replicate available 0) else buffer);
          used = (if full then 0 else used);
          available = (if full then 64 else available);
          buffer = buf_write buffer used (replicate (available - 8) 0);
          buffer = buf_write buffer 56 (le32 (push_bit 3 (md5_lo ctx)));
          buffer = buf_write buffer 60 (le32 (md5_hi ctx))
      in md5_output (body buffer regs))"

definition cleared_md5_ctx :: md5_ctx where
  "cleared_md5_ctx = \<lparr>md5_lo = 0, md5_hi = 0, md5_regs = (0, 0, 0, 0), md5_buffer = replicate 64 0\<rparr>"

lemma md5_empty:
  "MD5_Final (MD5_Init cleared_md5_ctx) = [212, 29, 140, 217, 143, 0, 178, 4, 233, 128, 9, 152, 236, 248, 66, 126]"
  by code_simp

section \<open>The definition of RFC 1321\<close>

definition rfc_F :: "nat \<Rightarrow> u32 \<Rightarrow> u32 \<Rightarrow> u32 \<Rightarrow> u32" where
  "rfc_F i x y z =
     (if i < 16 then (x AND y) OR (NOT x AND z)
      else if i < 32 then (x AND z) OR (y AND NOT z)
      else if i < 48 then x XOR y XOR z
      else y XOR (x OR NOT z))"

definition rfc_index :: "nat \<Rightarrow> nat" where
  "rfc_index i = (if i < 16 then i else if i < 32 then (5 * i + 1) mod 16 else if i < 48 then (3 * i + 5) mod 16 else 7 * i mod 16)"

definition rfc_shift :: "nat \<Rightarrow> nat" where
  "rfc_shift i = [[7, 12, 17, 22], [5, 9, 14, 20], [4, 11, 16, 23], [6, 10, 15, 21]] ! (i div 16) ! (i mod 4)"

text \<open>The constants of the RFC, the integer parts of \<open>2 ^ 32 * \<bar>sin i\<bar>\<close>.\<close>

definition md5_T :: "u32 list" where
  "md5_T =
     [3614090360, 3905402710, 606105819, 3250441966,
      4118548399, 1200080426, 2821735955, 4249261313,
      1770035416, 2336552879, 4294925233, 2304563134,
      1804603682, 4254626195, 2792965006, 1236535329,
      4129170786, 3225465664, 643717713, 3921069994,
      3593408605, 38016083, 3634488961, 3889429448,
      568446438, 3275163606, 4107603335, 1163531501,
      2850285829, 4243563512, 1735328473, 2368359562,
      4294588738, 2272392833, 1839030562, 4259657740,
      2763975236, 1272893353, 4139469664, 3200236656,
      681279174, 3936430074, 3572445317, 76029189,
      3654602809, 3873151461, 530742520, 3299628645,
      4096336452, 1126891415, 2878612391, 4237533241,
      1700485571, 2399980690, 4293915773, 2240044497,
      1873313359, 4264355552, 2734768916, 1309151649,
      4149444226, 3174756917, 718787259, 3951481745]"

fun rfc_step :: "bytes \<Rightarrow> nat \<Rightarrow> md5_regs \<Rightarrow> md5_regs" where
  "rfc_step ptr i (a, b, c, d) =
     (d, b + word_rotl (rfc_shift i) (a + rfc_F i b c d + SET ptr (rfc_index i) + md5_T ! i), b, c)"

definition rfc_compress :: "bytes \<Rightarrow> md5_regs \<Rightarrow> md5_regs" where
  "rfc_compress ptr r =
     (let (a, b, c, d) = r; (a', b', c', d') = fold (rfc_step ptr) [0..<64] r
      in (a + a', b + b', c + c', d + d'))"

definition md5_pad :: "bytes \<Rightarrow> bytes" where
  "md5_pad msg =
     msg @ [0x80] @ replicate ((119 - length msg mod 64) mod 64) 0
       @ le32 (of_nat (8 * length msg)) @ le32 (of_nat (8 * length msg div 2 ^ 32))"

fun blocks_of :: "bytes \<Rightarrow> bytes list" where
  "blocks_of data = (if length data < 64 then [] else take 64 data # blocks_of (drop 64 data))"

declare blocks_of.simps [simp del]

definition md5 :: "bytes \<Rightarrow> bytes" where
  "md5 msg = md5_output (fold rfc_compress (blocks_of (md5_pad msg)) (0x67452301, 0xefcdab89, 0x98badcfe, 0x10325476))"

section \<open>The rounds are those of the RFC\<close>

lemma rfc_functions:
  "(x AND y) OR (NOT x AND z) = MD5_F x y z" "(x AND z) OR (y AND NOT z) = MD5_G x y z"
  "x XOR y XOR z = MD5_H x y z" "MD5_H2 x y z = MD5_H x y z" "y XOR (x OR NOT z) = MD5_I x y z"
  by (rule bit_word_eqI, auto simp: MD5_F_def MD5_G_def MD5_H_def MD5_H2_def MD5_I_def bit_simps)+

lemma rotate_left:
  fixes w :: u32
  assumes "0 < s" "s < 32"
  shows "push_bit s w OR drop_bit (32 - s) w = word_rotl s w"
proof (rule bit_word_eqI)
  fix n assume "n < LENGTH(32)"
  then have n: "n < 32" by simp
  have right: "bit (word_rotl s w) n = bit w ((n + (32 - s)) mod 32)"
    using n assms by (simp add: bit_simps word_rotl_eq_word_rotr)
  have left: "bit (push_bit s w OR drop_bit (32 - s) w) n = (s \<le> n \<and> bit w (n - s) \<or> bit w (32 - s + n))"
    using n by (simp add: bit_simps)
  show "bit (push_bit s w OR drop_bit (32 - s) w) n = bit (word_rotl s w) n"
  proof (cases "s \<le> n")
    case True
    then have m: "n + (32 - s) = (n - s) + 32" using assms by simp
    have "\<not> bit w (32 - s + n)" using bit_imp_le_length [of w "32 - s + n"] True assms by auto
    moreover have "(n + (32 - s)) mod 32 = n - s" unfolding m using n by simp
    ultimately show ?thesis unfolding left right using True by simp
  next
    case False
    then have "(n + (32 - s)) mod 32 = 32 - s + n" using assms by simp
    then show ?thesis unfolding left right using False by simp
  qed
qed

definition rfc_row :: "nat \<Rightarrow> md5_row" where
  "rfc_row i = (rfc_F i, rfc_index i, md5_T ! i, rfc_shift i)"

lemma md5_rows_rfc: "md5_rows = map rfc_row [0..<64]"
proof -
  have F: "rfc_F i = (if i < 16 then MD5_F else if i < 32 then MD5_G else if i < 48 then MD5_H else MD5_I)" for i
    by (intro ext) (simp add: rfc_F_def rfc_functions)
  have H2: "MD5_H2 = MD5_H" by (intro ext) (rule rfc_functions(4))
  have u: "[0..<64] = [0..<16] @ [16..<32] @ [32..<48] @ [48..<64]" by (simp add: upt_rec)
  show ?thesis
    unfolding u md5_rows_def map_append
    by (intro arg_cong2 [where f = append])
      (simp_all add: upt_rec rfc_row_def F H2 rfc_index_def rfc_shift_def md5_T_def
        md5_round_1_def md5_round_2_def md5_round_3_def md5_round_4_def)
qed

lemma rfc_bounds: "i < 64 \<Longrightarrow> rfc_index i < 16 \<and> 0 < rfc_shift i \<and> rfc_shift i < 32"
proof -
  assume "i < 64"
  then have "i div 16 < 4" "i mod 4 < 4" by auto
  then have "i div 16 \<in> {0, 1, 2, 3}" "i mod 4 \<in> {0, 1, 2, 3}" by auto
  then show ?thesis by (auto simp: rfc_index_def rfc_shift_def)
qed

lemma STEP_rfc:
  "i < 64 \<Longrightarrow> STEP (map (SET ptr) [0..<16]) (rfc_row i) r = rfc_step ptr i r"
  using rfc_bounds [of i] by (cases r) (simp add: rfc_row_def Let_def rotate_left add_ac)

lemma fold_map_cong: "(\<And>x. x \<in> set xs \<Longrightarrow> f (h x) = g x) \<Longrightarrow> fold f (map h xs) s = fold g xs s"
  by (induction xs arbitrary: s) simp_all

lemma md5_block_rfc: "md5_block ptr r = rfc_compress ptr r"
proof -
  have "fold (STEP (map (SET ptr) [0..<16])) md5_rows r = fold (rfc_step ptr) [0..<64] r"
    unfolding md5_rows_rfc by (rule fold_map_cong, rule ext) (simp add: STEP_rfc)
  then show ?thesis
    by (cases r) (simp add: md5_block_def rfc_compress_def add.commute split: prod.split)
qed

lemma body_blocks: "body data r = fold rfc_compress (blocks_of data) r"
  by (induction data r rule: body.induct) (simp add: body.simps [of _] blocks_of.simps [of data for data] md5_block_rfc)

lemma blocks_append: "64 dvd length xs \<Longrightarrow> blocks_of (xs @ ys) = blocks_of xs @ blocks_of ys"
proof (induction xs rule: blocks_of.induct)
  case (1 xs)
  show ?case
  proof (cases "length xs < 64")
    case True
    with 1(2) have "xs = []" by (metis dvd_imp_le length_greater_0_conv not_le)
    then show ?thesis by (simp add: blocks_of.simps)
  next
    case False
    moreover have "64 dvd length (drop 64 xs)" using 1(2) False by (simp add: dvd_diff_nat)
    ultimately show ?thesis using 1(1) by (simp add: blocks_of.simps [of "xs @ ys"] blocks_of.simps [of xs])
  qed
qed

lemma blocks_short: "length xs < 64 \<Longrightarrow> blocks_of xs = []"
  by (simp add: blocks_of.simps)

lemma body_append: "64 dvd length xs \<Longrightarrow> body (xs @ ys) r = body ys (body xs r)"
  by (simp add: body_blocks blocks_append)

lemma body_short: "length xs < 64 \<Longrightarrow> body xs r = r"
  by (simp add: body_blocks blocks_short)

section \<open>The context after a message\<close>

definition md5_start :: md5_regs where
  "md5_start = (0x67452301, 0xefcdab89, 0x98badcfe, 0x10325476)"

definition md5_reads :: "bytes \<Rightarrow> md5_ctx \<Rightarrow> bool" where
  "md5_reads msg ctx \<longleftrightarrow>
     md5_regs ctx = body msg md5_start \<and> length (md5_buffer ctx) = 64 \<and>
     take (length msg mod 64) (md5_buffer ctx) = drop (length msg div 64 * 64) msg"

definition md5_counts :: "nat \<Rightarrow> md5_ctx \<Rightarrow> bool" where
  "md5_counts n ctx \<longleftrightarrow> md5_lo ctx = of_nat (n mod 2 ^ 29) \<and> md5_hi ctx = of_nat (n div 2 ^ 29)"

lemma unat_count: "m < 2 ^ 29 \<Longrightarrow> unat (of_nat m :: u32) = m"
  by (simp add: unat_of_nat)

lemma md5_count_adds:
  assumes "md5_counts n ctx" and "k < 2 ^ 32"
  shows "md5_counts (n + k) (md5_count (of_nat k) ctx)"
proof -
  define a k0 k1 where d: "a = n mod 2 ^ 29" "k0 = k mod 2 ^ 29" "k1 = k div 2 ^ 29"
  have lt: "a < 2 ^ 29" "k0 < 2 ^ 29" by (simp_all add: d)
  have k: "k = k1 * 2 ^ 29 + k0" by (simp add: d)
  have lo: "(of_nat a + of_nat k :: u32) AND 0x1fffffff = of_nat ((a + k0) mod 2 ^ 29)"
  proof -
    have m: "(0x1fffffff :: u32) = mask 29" by (simp add: mask_eq_exp_minus_1)
    have "(of_nat a + of_nat k :: u32) AND 0x1fffffff = take_bit 29 (of_nat (a + k))"
      by (simp add: m take_bit_eq_mask)
    also have "\<dots> = of_nat (take_bit 29 (a + k))" by (simp only: take_bit_of_nat)
    also have "take_bit 29 (a + k) = (a + k0) mod 2 ^ 29"
      by (simp only: take_bit_eq_mod d) (simp add: mod_add_right_eq)
    finally show ?thesis .
  qed
  have carry: "(of_nat ((a + k0) mod 2 ^ 29) :: u32) < of_nat a \<longleftrightarrow> 2 ^ 29 \<le> a + k0"
  proof -
    have "(of_nat ((a + k0) mod 2 ^ 29) :: u32) < of_nat a \<longleftrightarrow> (a + k0) mod 2 ^ 29 < a"
      using lt by (simp add: word_less_nat_alt unat_count)
    also have "\<dots> \<longleftrightarrow> 2 ^ 29 \<le> a + k0"
    proof (cases "2 ^ 29 \<le> a + k0")
      case True
      then have "(a + k0) mod 2 ^ 29 = a + k0 - 2 ^ 29" using lt by (simp add: mod_if)
      then show ?thesis using True lt by simp
    qed simp
    finally show ?thesis .
  qed
  have shift: "drop_bit 29 (of_nat k :: u32) = of_nat k1"
  proof -
    have "unat (drop_bit 29 (of_nat k :: u32)) = k div 2 ^ 29"
      using assms(2) by (simp add: drop_bit_eq_div unat_div unat_of_nat)
    then show ?thesis by (metis d(3) of_nat_unat ucast_id)
  qed
  have sum: "n + k = (n div 2 ^ 29 + k1) * 2 ^ 29 + (a + k0)" by (simp add: d algebra_simps)
  have div: "(n + k) div 2 ^ 29 = n div 2 ^ 29 + k1 + (if 2 ^ 29 \<le> a + k0 then 1 else 0)"
  proof -
    have "(a + k0) div 2 ^ 29 = (if 2 ^ 29 \<le> a + k0 then 1 else 0)"
      using lt by (auto simp: div_if)
    then show ?thesis unfolding sum by simp
  qed
  have mod: "(n + k) mod 2 ^ 29 = (a + k0) mod 2 ^ 29" unfolding sum by (simp only: mod_mult_self3)
  have c: "md5_lo ctx = of_nat a" "md5_hi ctx = of_nat (n div 2 ^ 29)" using assms(1) by (simp_all only: md5_counts_def d)
  have "md5_lo (md5_count (of_nat k) ctx) = of_nat ((a + k0) mod 2 ^ 29)"
    unfolding md5_count_def Let_def c lo by simp
  moreover have "md5_hi (md5_count (of_nat k) ctx) = of_nat (n div 2 ^ 29 + k1 + (if 2 ^ 29 \<le> a + k0 then 1 else 0))"
    unfolding md5_count_def Let_def c lo carry shift by simp
  ultimately show ?thesis unfolding md5_counts_def div mod by simp
qed

text \<open>What a message leaves in the buffer is its last incomplete block.\<close>

lemma split_blocks:
  obtains front tail where "msg = front @ tail" and "length front = length msg div 64 * 64" and "length tail = length msg mod 64"
    and "tail = drop (length msg div 64 * 64) msg"
proof -
  let ?n = "length msg div 64 * 64"
  have n: "?n \<le> length msg" by simp
  have "length msg - ?n = length msg mod 64" by (metis minus_div_mult_eq_mod)
  with n that [of "take ?n msg" "drop ?n msg"] show ?thesis by (simp add: min_absorb2)
qed

lemma body_front: "64 dvd length front \<Longrightarrow> length tail < 64 \<Longrightarrow> body (front @ tail) r = body front r"
  by (simp add: body_append body_short)

lemma md5_blocks_reads:
  assumes "md5_regs ctx = body msg md5_start" and "64 dvd length msg" and "length (md5_buffer ctx) = 64"
  shows "md5_reads (msg @ data) (md5_blocks data ctx)"
proof -
  obtain front tail where data: "data = front @ tail" and len: "length front = length data div 64 * 64"
    "length tail = length data mod 64" "tail = drop (length data div 64 * 64) data"
    by (rule split_blocks [of data])
  have t: "length tail < 64" using len(2) by simp
  have d: "64 dvd length front" using len(1) by simp
  have front_nil: "front = []" if "length data < 64" using that len(1) by simp
  have regs: "body (msg @ data) md5_start = body front (md5_regs ctx)"
    using body_append [OF assms(2), of data] body_front [OF d t] by (simp add: data assms(1))
  have take: "take (length data div 64 * 64) data = front" using len(1) data by (metis append_eq_conv_conj)
  have "length msg mod 64 = 0" using assms(2) by (simp add: dvd_eq_mod_eq_0)
  then have m: "length (msg @ data) mod 64 = length tail" by (metis add_0 length_append len(2) mod_add_left_eq)
  have q: "drop (length (msg @ data) div 64 * 64) (msg @ data) = tail"
  proof -
    have "length (msg @ data) div 64 * 64 = length msg + length front"
      using assms(2) len(1) by (auto elim!: dvdE simp: div_mult_self2)
    then show ?thesis by (simp add: data)
  qed
  have drop: "drop (length data div 64 * 64) data = tail" using len(3) by simp
  have bw: "buf_write (md5_buffer ctx) 0 tail = tail @ drop (length tail) (md5_buffer ctx)" by (simp add: buf_write_def)
  have reads: "md5_reads (msg @ data) (ctx\<lparr>md5_regs := body front (md5_regs ctx), md5_buffer := buf_write (md5_buffer ctx) 0 tail\<rparr>)"
    using t assms(3) unfolding md5_reads_def m q bw by (simp add: regs)
  show ?thesis
  proof (cases "64 \<le> length data")
    case True
    then show ?thesis using reads by (simp add: md5_blocks_def Let_def take drop)
  next
    case False
    then have "front = []" "data = tail" using front_nil data by simp_all
    then show ?thesis using False reads by (simp add: md5_blocks_def Let_def body_short)
  qed
qed

lemma md5_count_fields [simp]:
  "md5_regs (md5_count n ctx) = md5_regs ctx" "md5_buffer (md5_count n ctx) = md5_buffer ctx"
  by (simp_all add: md5_count_def Let_def)

lemma md5_counts_fields:
  "md5_counts n (ctx\<lparr>md5_buffer := b\<rparr>) = md5_counts n ctx" "md5_counts n (ctx\<lparr>md5_regs := r\<rparr>) = md5_counts n ctx"
  "md5_counts n (md5_blocks data ctx) = md5_counts n ctx"
  by (simp_all add: md5_counts_def md5_blocks_def Let_def)

lemma md5_used: "md5_counts n ctx \<Longrightarrow> unat (md5_lo ctx AND 0x3f) = n mod 64"
proof -
  assume c: "md5_counts n ctx"
  have m: "(0x3f :: u32) = mask 6" by (simp add: mask_eq_exp_minus_1)
  have "unat (md5_lo ctx AND 0x3f) = take_bit 6 (unat (md5_lo ctx))"
    by (simp only: m take_bit_eq_mask [symmetric] unsigned_take_bit_eq)
  also have "unat (md5_lo ctx) = n mod 2 ^ 29" using c by (simp add: md5_counts_def unat_count)
  also have "take_bit 6 (n mod 2 ^ 29) = n mod 64" by (simp add: take_bit_eq_mod mod_mod_cancel)
  finally show ?thesis .
qed

lemma MD5_Update_reads:
  assumes reads: "md5_reads msg ctx" and counts: "md5_counts (length msg) ctx" and len: "length data < 2 ^ 32"
  shows "md5_reads (msg @ data) (MD5_Update data ctx)" "md5_counts (length (msg @ data)) (MD5_Update data ctx)"
proof -
  note used = md5_used [OF counts] and count = md5_count_adds [OF counts len]
  let ?u = "length msg mod 64"
  let ?ctx = "md5_count (of_nat (length data)) ctx"
  obtain front tail where msg: "msg = front @ tail" and l: "length front = length msg div 64 * 64" "length tail = ?u"
    and tail: "tail = drop (length msg div 64 * 64) msg"
    by (rule split_blocks [of msg])
  have d: "64 dvd length front" using l(1) by simp
  have u: "?u < 64" by simp
  have "body msg md5_start = body front md5_start" unfolding msg by (rule body_front [OF d]) (simp add: l(2))
  with reads have regs: "md5_regs ctx = body front md5_start" and buf: "length (md5_buffer ctx) = 64" "take ?u (md5_buffer ctx) = tail"
    unfolding md5_reads_def tail by simp_all
  show "md5_counts (length (msg @ data)) (MD5_Update data ctx)"
    using count by (simp add: MD5_Update_def Let_def md5_counts_fields)
  consider "?u = 0" | "?u \<noteq> 0" "length data < 64 - ?u" | "?u \<noteq> 0" "64 - ?u \<le> length data" by linarith
  then show "md5_reads (msg @ data) (MD5_Update data ctx)"
  proof cases
    case 1
    then have "tail = []" using l(2) by simp
    then show ?thesis using md5_blocks_reads [of ?ctx msg data] 1 regs buf(1)
      by (simp add: MD5_Update_def Let_def used msg d [simplified msg] dvd_eq_mod_eq_0)
  next
    case 2
    have td: "length (tail @ data) < 64" using 2(2) l(2) by simp
    have ml: "length (msg @ data) = length front + length (tail @ data)" by (simp add: msg)
    have q: "length (msg @ data) mod 64 = length (tail @ data)" "length (msg @ data) div 64 * 64 = length front"
      using d td unfolding ml by (auto elim!: dvdE)
    have dr: "drop (length front) (msg @ data) = tail @ data" by (simp add: msg)
    have "body (msg @ data) md5_start = body front md5_start" using body_front [OF d td] by (simp add: msg)
    moreover have "buf_write (md5_buffer ctx) ?u data = (tail @ data) @ drop (?u + length data) (md5_buffer ctx)"
      by (simp add: buf_write_def buf(2))
    moreover have "length ((tail @ data) @ drop (?u + length data) (md5_buffer ctx)) = 64" using 2 l(2) buf(1) by simp
    moreover have "take (length (tail @ data)) ((tail @ data) @ ys) = tail @ data" for ys by simp
    ultimately show ?thesis using 2 regs
      by (simp add: MD5_Update_def Let_def used md5_reads_def q dr del: length_append append_assoc drop_append take_append)
  next
    case 3
    let ?a = "64 - ?u"
    let ?b = "tail @ take ?a data"
    have b: "length ?b = 64" using 3 l(2) u by simp
    have w: "buf_write (md5_buffer ctx) ?u (take ?a data) = ?b" using buf 3(2) u by (simp add: buf_write_def)
    have "md5_reads ((msg @ take ?a data) @ drop ?a data)
        (md5_blocks (drop ?a data) (?ctx\<lparr>md5_buffer := ?b, md5_regs := body ?b (md5_regs ?ctx)\<rparr>))"
    proof (rule md5_blocks_reads)
      show "md5_regs (?ctx\<lparr>md5_buffer := ?b, md5_regs := body ?b (md5_regs ?ctx)\<rparr>) = body (msg @ take ?a data) md5_start"
        using body_append [OF d, of ?b] by (simp add: msg regs)
      have "length (msg @ take ?a data) = length front + 64" using b by (simp add: msg)
      then show "64 dvd length (msg @ take ?a data)" using d by simp
    qed (use b in simp)
    then show ?thesis using 3 by (simp add: MD5_Update_def Let_def used w)
  qed
qed

section \<open>The digest\<close>

lemma take_whole: "length xs = n \<Longrightarrow> take n (xs @ ys) = xs"
  by simp

lemma len32: "LENGTH(32) = 32"
  by simp

lemma md5_length_bytes:
  assumes "md5_counts n ctx"
  shows "push_bit 3 (md5_lo ctx) = of_nat (8 * n)" "md5_hi ctx = of_nat (8 * n div 2 ^ 32)"
proof -
  have "8 * n = 4294967296 * (n div 536870912) + 8 * (n mod 536870912)"
    using div_mult_mod_eq [of n 536870912] by linarith
  then have "8 * n = 2 ^ 32 * (n div 2 ^ 29) + 8 * (n mod 2 ^ 29)" by simp
  then have "(of_nat (8 * n) :: u32) = of_nat (2 ^ 32 * (n div 2 ^ 29)) + of_nat (8 * (n mod 2 ^ 29))" by (metis of_nat_add)
  also have "(of_nat (2 ^ 32 * (n div 2 ^ 29)) :: u32) = 0"
    by (metis dvd_triv_left len32 word_of_nat_eq_0_iff)
  finally show "push_bit 3 (md5_lo ctx) = of_nat (8 * n)"
    using assms by (simp add: md5_counts_def push_bit_eq_mult mult.commute)
  have "8 * n div 2 ^ 32 = n div 2 ^ 29" using div_mult_mult1 [of 8 n "2 ^ 29"] by simp
  then show "md5_hi ctx = of_nat (8 * n div 2 ^ 32)" using assms by (simp add: md5_counts_def)
qed

lemma buf_write_after: "length p = i \<Longrightarrow> buf_write (p @ q) i c = p @ c @ drop (length c) q"
  by (simp add: buf_write_def)

lemma buf_write_length:
  assumes "length b = 64" and "take 56 b = z"
  shows "buf_write (buf_write b 56 (le32 x)) 60 (le32 y) = z @ le32 x @ le32 y"
proof -
  have "length z = 56" using assms by auto
  then show ?thesis using assms by (simp add: buf_write_def)
qed

lemma MD5_Final_md5:
  assumes reads: "md5_reads msg ctx" and counts: "md5_counts (length msg) ctx"
  shows "MD5_Final ctx = md5 msg"
proof -
  let ?u = "length msg mod 64"
  obtain front tail where msg: "msg = front @ tail" and l: "length front = length msg div 64 * 64" "length tail = ?u"
    and tail: "tail = drop (length msg div 64 * 64) msg"
    by (rule split_blocks [of msg])
  have d: "64 dvd length front" using l(1) by simp
  have u: "?u < 64" by simp
  have "body msg md5_start = body front md5_start" unfolding msg by (rule body_front [OF d]) (simp add: l(2))
  with reads have regs: "md5_regs ctx = body front md5_start" and len: "length (md5_buffer ctx) = 64" and buf: "take ?u (md5_buffer ctx) = tail"
    unfolding md5_reads_def tail by simp_all
  let ?L = "le32 (of_nat (8 * length msg)) @ le32 (of_nat (8 * length msg div 2 ^ 32))"
  let ?b = "(md5_buffer ctx)[?u := 0x80]"
  have b: "?b = (tail @ [0x80]) @ drop (?u + 1) (md5_buffer ctx)" using len u buf by (simp add: upd_conv_take_nth_drop)
  have after: "buf_write ?b (?u + 1) c = tail @ [0x80] @ c @ drop (length c) (drop (?u + 1) (md5_buffer ctx))" for c
    using buf_write_after [of "tail @ [0x80]" "?u + 1" "drop (?u + 1) (md5_buffer ctx)" c] l(2) unfolding b by simp
  have bl: "length ?b = 64" using len by simp
  note used = md5_used [OF counts] and L = md5_length_bytes [OF counts]
  have pad: "md5 msg = md5_output (body (md5_pad msg) md5_start)" by (simp add: md5_def body_blocks md5_start_def)
  show ?thesis
  proof (cases "?u < 56")
    case True
    let ?z = "tail @ [0x80] @ replicate (55 - ?u) 0"
    have "length ?z = 56" using True l(2) by simp
    then have "take 56 (?z @ xs) = ?z" for xs by (rule take_whole)
    then have t: "take 56 (buf_write ?b (?u + 1) (replicate (55 - ?u) 0)) = ?z"
      unfolding after by (simp only: append_assoc length_replicate)
    have "?u + 1 + length (replicate (55 - ?u) (0 :: u8)) \<le> length ?b" using True bl by simp
    from length_buf_write [OF this] have "length (buf_write ?b (?u + 1) (replicate (55 - ?u) 0)) = 64" unfolding bl .
    from buf_write_length [OF this t] have w: "buf_write (buf_write (buf_write ?b (?u + 1) (replicate (55 - ?u) 0)) 56 (le32 x)) 60 (le32 y) = ?z @ le32 x @ le32 y" for x y .
    have "119 - ?u = 64 + (55 - ?u)" using True by simp
    then have "(119 - ?u) mod 64 = 55 - ?u" by (simp only: mod_add_self1) simp
    then have "md5_pad msg = front @ ?z @ ?L" by (simp add: md5_pad_def msg)
    then have "body (md5_pad msg) md5_start = body (?z @ ?L) (md5_regs ctx)" by (simp only: body_append [OF d] regs)
    moreover have "\<not> 63 - ?u < 8" "63 - ?u - 8 = 55 - ?u" using True by linarith+
    ultimately show ?thesis using w by (simp add: MD5_Final_def Let_def used pad L)
  next
    case False
    let ?b1 = "tail @ [0x80] @ replicate (63 - ?u) 0"
    have b1: "buf_write ?b (?u + 1) (replicate (63 - ?u) 0) = ?b1"
      unfolding after using False u l(2) len by simp
    have b1l: "length ?b1 = 64" using l(2) u by simp
    have w: "buf_write (buf_write (buf_write ?b1 0 (replicate 56 0)) 56 (le32 x)) 60 (le32 y) = replicate 56 0 @ le32 x @ le32 y" for x y
      using b1l by (intro buf_write_length) (simp_all add: buf_write_def)
    have "119 - ?u = (63 - ?u) + 56" "(63 - ?u) + 56 < 64" using False u by simp_all
    then have "(119 - ?u) mod 64 = (63 - ?u) + 56" by (simp only: mod_less)
    then have "replicate ((119 - ?u) mod 64) 0 = replicate (63 - ?u) (0 :: u8) @ replicate 56 0" by (simp only: replicate_add)
    then have "md5_pad msg = front @ ?b1 @ replicate 56 0 @ ?L" by (simp only: md5_pad_def append_assoc) (simp add: msg)
    moreover have "64 dvd length ?b1" unfolding b1l by simp
    ultimately have "body (md5_pad msg) md5_start = body (replicate 56 0 @ ?L) (body ?b1 (md5_regs ctx))"
      by (simp only: body_append [OF d] body_append regs)
    moreover have "63 - ?u < 8" using False u by linarith
    ultimately show ?thesis using b1 w by (simp add: MD5_Final_def Let_def used pad L)
  qed
qed

lemma md5_init_reads: "length (md5_buffer ctx) = 64 \<Longrightarrow> md5_reads [] (MD5_Init ctx) \<and> md5_counts 0 (MD5_Init ctx)"
  by (simp add: md5_reads_def md5_counts_def MD5_Init_def md5_start_def body_short)

lemma md5_pieces:
  assumes "length (md5_buffer ctx) = 64" and "\<forall>data\<in>set pieces. length data < 2 ^ 32"
  shows "md5_reads (concat pieces) (fold MD5_Update pieces (MD5_Init ctx)) \<and>
    md5_counts (length (concat pieces)) (fold MD5_Update pieces (MD5_Init ctx))"
  using assms(2)
proof (induction pieces rule: rev_induct)
  case Nil
  then show ?case using md5_init_reads [OF assms(1)] by simp
next
  case (snoc data pieces)
  then show ?case using MD5_Update_reads [of "concat pieces" "fold MD5_Update pieces (MD5_Init ctx)" data] by simp
qed

text \<open>
  C19: the digest of a message that arrives in pieces of any lengths is that of RFC 1321, which pads the
  whole message first: the counters, the buffer of the last incomplete block and the unrolled rounds
  compute the reference definition.
\<close>

theorem MD5_rfc1321:
  assumes "length (md5_buffer ctx) = 64" and "\<forall>data\<in>set pieces. length data < 2 ^ 32"
  shows "MD5_Final (fold MD5_Update pieces (MD5_Init ctx)) = md5 (concat pieces)"
  using md5_pieces [OF assms] by (simp add: MD5_Final_md5)

lemma MD5_rfc1321_witness:
  "MD5_Final (fold MD5_Update [[97], [98, 99]] (MD5_Init cleared_md5_ctx)) = md5 [97, 98, 99]"
  using MD5_rfc1321 [of cleared_md5_ctx "[[97], [98, 99]]"] by (simp add: cleared_md5_ctx_def)

end
