(* ===== verification/FileTrans.thy ===== *)
theory FileTrans
  imports Md5 InternalProtocol AccountManager
begin

text \<open>
  The file service of the USB protocol, \<^verbatim>\<open>src/webusb_protocol/services/service_file_trans.c\<close>: a firmware
  or a picture is announced with its size, its digest and a signature of the digest, sent in pieces that
  are encrypted with a shared key, and completed when the digest of the pieces is the announced one. With
  it the keys of \<^verbatim>\<open>src/tasks/data_parser_task.c\<close>. The calls of FatFs, the signature check of the Rust library,
  the screen and the settings are fields of the parameter \<open>fp\<close>; the number of accounts comes from the key
  store. Ticks are only printed and left out. A handler gets a copy of its data; the decryption in place in the receive
  buffer is not visible, as every byte of the buffer is written before the next frame is read from it.
\<close>

section \<open>The state\<close>

datatype file_signal =
    SIG_INIT_FIRMWARE_UPDATE_DENY | SIG_INIT_LOW_BATTERY | SIG_INIT_FIRMWARE_PROCESS | SIG_INIT_NFT_BIN
  | SIG_INIT_NFT_BIN_TRANS_FAIL | SIG_INIT_TRANSFER_NFT_SCREEN

record 'h file_platform =
  fp_f_open :: "bytes \<Rightarrow> u8 \<Rightarrow> 'h \<Rightarrow> int \<times> 'h"
  fp_f_write :: "bytes \<Rightarrow> bytes \<Rightarrow> 'h \<Rightarrow> (int \<times> nat) \<times> 'h"
  fp_f_close :: "bytes \<Rightarrow> 'h \<Rightarrow> 'h"
  fp_f_unlink :: "bytes \<Rightarrow> 'h \<Rightarrow> int \<times> 'h"
  fp_open :: "bytes \<Rightarrow> 'h \<Rightarrow> int"
  fp_size :: "bytes \<Rightarrow> 'h \<Rightarrow> nat"
  fp_read :: "bytes \<Rightarrow> nat \<Rightarrow> nat \<Rightarrow> 'h \<Rightarrow> int \<times> bytes"
  fp_verify_signature :: "bytes \<Rightarrow> bytes \<Rightarrow> bytes \<Rightarrow> bool"
  fp_pubkey :: "bytes \<Rightarrow> bytes"
  fp_ecdh :: "bytes \<Rightarrow> bytes \<Rightarrow> bytes option"
  fp_display_percent :: "'h \<Rightarrow> nat"
  fp_signal :: "file_signal \<Rightarrow> nat \<Rightarrow> 'h \<Rightarrow> 'h"
  fp_timer_new :: "'h \<Rightarrow> bool"
  fp_set_setup_step :: "nat \<Rightarrow> 'h \<Rightarrow> 'h"
  fp_set_nft_valid :: "bool \<Rightarrow> 'h \<Rightarrow> 'h"
  fp_save_settings :: "'h \<Rightarrow> 'h"
  fp_reboot :: "'h \<Rightarrow> 'h"
  fp_sector_erase :: "nat \<Rightarrow> 'h \<Rightarrow> 'h"
  fp_flash_write :: "nat \<Rightarrow> bytes \<Rightarrow> 'h \<Rightarrow> 'h"
  fp_malloc :: "nat \<Rightarrow> bytes"

text \<open>The name is the string before its NUL.\<close>

record file_trans_info =
  fi_fileName :: bytes
  fi_fileSize :: u32
  fi_md5 :: bytes
  fi_iv :: bytes
  fi_signature :: bytes

definition cleared_file_info :: file_trans_info where
  "cleared_file_info = \<lparr>fi_fileName = [], fi_fileSize = 0, fi_md5 = replicate 16 0, fi_iv = replicate 16 0,
     fi_signature = replicate 64 0\<rparr>"

record 'h file_service =
  fs_device :: "'h device"
  g_fileTransInfo :: file_trans_info
  g_fileTransOffset :: u32
  g_md5Ctx :: md5_ctx
  g_isReceivingFile :: bool
  g_isNftFile :: bool
  fs_timer :: bool
  fs_timer_running :: bool
  g_dataSharedKey :: bytes
  g_dataParserIv :: bytes
  g_dataParserPubKey :: bytes

definition on_files :: "('h \<Rightarrow> 'h) \<Rightarrow> 'h file_service \<Rightarrow> 'h file_service" where
  "on_files f s = s\<lparr>fs_device := (fs_device s)\<lparr>hw := f (hw (fs_device s))\<rparr>\<rparr>"

definition fs_hw :: "'h file_service \<Rightarrow> 'h" where
  "fs_hw s = hw (fs_device s)"

section \<open>The files\<close>

text \<open>
  The functions of \<^verbatim>\<open>src/user_fatfs.c\<close> over the calls of FatFs. One file is open at a time, so its path stands for
  the file object. \<open>append_file\<close> keeps the number of bytes written, which the code only prints.
\<close>

definition FA_WRITE :: u8 where "FA_WRITE = 0x02"
definition FA_CREATE_ALWAYS :: u8 where "FA_CREATE_ALWAYS = 0x08"
definition FA_OPEN_APPEND :: u8 where "FA_OPEN_APPEND = 0x30"

definition FatfsFileCreate :: "'h file_platform \<Rightarrow> bytes \<Rightarrow> 'h \<Rightarrow> int \<times> 'h" where
  "FatfsFileCreate fp path h =
     (let (res, h) = fp_f_open fp path FA_CREATE_ALWAYS h
      in if res \<noteq> 0 then (1, h) else (0, fp_f_close fp path h))"

definition append_file :: "'h file_platform \<Rightarrow> bytes \<Rightarrow> bytes \<Rightarrow> 'h \<Rightarrow> (int \<times> nat) \<times> 'h" where
  "append_file fp path data h =
     (let (res, h) = fp_f_open fp path (or FA_OPEN_APPEND FA_WRITE) h
      in if res \<noteq> 0 then ((1, 0), h)
         else
           let ((res, writeBytes), h) = fp_f_write fp path data h
           in if res \<noteq> 0 then ((1, writeBytes), h) else ((0, writeBytes), fp_f_close fp path h))"

definition FatfsFileAppend :: "'h file_platform \<Rightarrow> bytes \<Rightarrow> bytes \<Rightarrow> 'h \<Rightarrow> int \<times> 'h" where
  "FatfsFileAppend fp path data h = (let ((ret, writeBytes), h) = append_file fp path data h in (ret, h))"

definition FatfsFileDelete :: "'h file_platform \<Rightarrow> bytes \<Rightarrow> 'h \<Rightarrow> int \<times> 'h" where
  "FatfsFileDelete fp path h = (let (res, h) = fp_f_unlink fp path h in (if res \<noteq> 0 then 1 else 0, h))"

section \<open>The shared key\<close>

definition SetDeviceParserIv :: "bytes \<Rightarrow> 'h file_service \<Rightarrow> 'h file_service" where
  "SetDeviceParserIv iv s = s\<lparr>g_dataParserIv := memcpy_s (g_dataParserIv s) 0 16 (take 16 iv)\<rparr>"

text \<open>A \<^verbatim>\<open>NULL\<close> of the Rust library leaves the old shared key and gives \<^verbatim>\<open>NULL\<close>.\<close>

definition GetDeviceParserPubKey :: "'h platform \<Rightarrow> 'h file_platform \<Rightarrow> bytes \<Rightarrow> ('h file_service, bytes option) prog" where
  "GetDeviceParserPubKey p fp webPub s =
     (if length webPub \<noteq> 33 then None
      else let (privKey, h) = p_trng p 32 (fs_hw s);
               s = (on_files (\<lambda>_. h) s)\<lparr>g_dataParserPubKey := take 33 (fp_pubkey fp privKey)\<rparr>
           in case fp_ecdh fp privKey webPub of
                None \<Rightarrow> Some (None, s)
              | Some shared \<Rightarrow> Some (Some (g_dataParserPubKey s), s\<lparr>g_dataSharedKey := take 32 shared\<rparr>))"

text \<open>Whole blocks of 16 bytes; each call starts again with the initialisation vector. \<^verbatim>\<open>len\<close> has 16 bits.\<close>

definition DataEncrypt :: "'h platform \<Rightarrow> bytes \<Rightarrow> 'h file_service \<Rightarrow> bytes" where
  "DataEncrypt p data s =
     (let n = length data mod 2 ^ 16 div 16 * 16
      in p_cbc_encrypt p (g_dataSharedKey s) (g_dataParserIv s) (take n data) @ drop n data)"

definition DataDecrypt :: "'h platform \<Rightarrow> bytes \<Rightarrow> 'h file_service \<Rightarrow> bytes" where
  "DataDecrypt p data s =
     (let n = length data mod 2 ^ 16 div 16 * 16
      in p_cbc_decrypt p (g_dataSharedKey s) (g_dataParserIv s) (take n data) @ drop n data)"

section \<open>Announcing a file\<close>

definition g_webUsbPubKey :: bytes where
  "g_webUsbPubKey =
     [4, 133, 28, 216, 141, 206, 177, 175, 187, 204, 142, 10, 243, 193, 126, 97, 21, 212, 56, 78,
      184, 209, 179, 2, 252, 227, 208, 171, 172, 156, 21, 67, 117, 173, 190, 96, 149, 252, 201, 76,
      117, 117, 136, 2, 236, 14, 37, 243, 224, 141, 204, 56, 157, 203, 37, 164, 202, 42, 82, 61,
      62, 123, 179, 221, 94]"

definition g_webUsbUpdatePubKey :: bytes where
  "g_webUsbUpdatePubKey =
     [4, 63, 231, 127, 215, 161, 146, 39, 178, 99, 72, 5, 235, 237, 64, 202, 34, 106, 164, 5,
      185, 127, 141, 97, 212, 234, 38, 101, 157, 218, 241, 31, 235, 233, 251, 53, 233, 51, 65, 68,
      24, 39, 255, 68, 23, 134, 161, 100, 23, 215, 79, 56, 199, 34, 47, 163, 145, 255, 39, 93,
      87, 55, 19, 239, 153]"

definition TYPE_FILE_INFO_FILE_NAME :: u8 where "TYPE_FILE_INFO_FILE_NAME = 1"
definition TYPE_FILE_INFO_FILE_SIZE :: u8 where "TYPE_FILE_INFO_FILE_SIZE = 2"
definition TYPE_FILE_INFO_FILE_MD5 :: u8 where "TYPE_FILE_INFO_FILE_MD5 = 3"
definition TYPE_FILE_INFO_FILE_SIGN :: u8 where "TYPE_FILE_INFO_FILE_SIGN = 4"
definition TYPE_FILE_INFO_FILE_IV :: u8 where "TYPE_FILE_INFO_FILE_IV = 5"
definition TYPE_FILE_INFO_FILE_OFFSET :: u8 where "TYPE_FILE_INFO_FILE_OFFSET = 1"
definition TYPE_FILE_INFO_FILE_DATA :: u8 where "TYPE_FILE_INFO_FILE_DATA = 2"
definition TYPE_FILE_INFO_FILE_ACK :: u8 where "TYPE_FILE_INFO_FILE_ACK = 3"
definition TYPE_FILE_FINO_PUBKEY :: u8 where "TYPE_FILE_FINO_PUBKEY = 1"
definition TYPE_FILE_FINO_PUBKEY_SIGN :: u8 where "TYPE_FILE_FINO_PUBKEY_SIGN = 2"
definition TYPE_GENERAL_RESULT_ACK :: u8 where "TYPE_GENERAL_RESULT_ACK = 255"
definition MAX_FILE_SIZE :: u32 where "MAX_FILE_SIZE = 8 * 1024 * 1024"
definition MAX_FILE_NAME_LENGTH :: nat where "MAX_FILE_NAME_LENGTH = 32"
definition LOW_BATTERY_PERCENT :: nat where "LOW_BATTERY_PERCENT = 40"

definition pointed :: "tlv \<Rightarrow> bytes" where
  "pointed t = (case tlv_pValue t of None \<Rightarrow> [] | Some b \<Rightarrow> b)"

definition read_u32 :: "bytes \<Rightarrow> u32" where
  "read_u32 b = of_le32 (b ! 0) (b ! 1) (b ! 2) (b ! 3)"

text \<open>\<open>None\<close> is the failed assertion; the result is whether the name was taken.\<close>

definition ValidateAndSetFileName :: "tlv \<Rightarrow> file_trans_info \<Rightarrow> (bool \<times> file_trans_info) option" where
  "ValidateAndSetFileName t info =
     (let str = takeWhile (\<lambda>c. c \<noteq> 0) (pointed t);
          pValueLength = strnlen_s str MAX_FILE_NAME_LENGTH
      in if pValueLength + 1 \<noteq> unat (tlv_length t) then None
         else if pValueLength \<ge> MAX_FILE_NAME_LENGTH \<or> unat (tlv_length t) > MAX_FILE_NAME_LENGTH then Some (False, info)
         else if str \<noteq> cstr ''keystone3.bin'' \<and> str \<noteq> cstr ''nft.bin'' then Some (False, info)
         else let name = cstr ''1:'' @ str
              in if length name \<ge> MAX_FILE_NAME_LENGTH + 3 then Some (False, info\<lparr>fi_fileName := take (MAX_FILE_NAME_LENGTH + 2) name\<rparr>)
                 else Some (True, info\<lparr>fi_fileName := name\<rparr>))"

text \<open>The loop over the fields; a field of a wrong length ends it.\<close>

fun read_file_info :: "tlv list \<Rightarrow> file_trans_info \<Rightarrow> (bool \<times> file_trans_info) option" where
  "read_file_info [] info = Some (True, info)"
| "read_file_info (t # ts) info =
     (if tlv_type t = TYPE_FILE_INFO_FILE_NAME then
        (case ValidateAndSetFileName t info of
           None \<Rightarrow> None
         | Some (ok, info) \<Rightarrow> if ok then read_file_info ts info else Some (False, info))
      else if tlv_type t = TYPE_FILE_INFO_FILE_SIZE then
        (if tlv_length t \<noteq> 4 then Some (False, info)
         else read_file_info ts (info\<lparr>fi_fileSize := read_u32 (pointed t)\<rparr>))
      else if tlv_type t = TYPE_FILE_INFO_FILE_MD5 then
        (if tlv_length t \<noteq> 16 then Some (False, info)
         else read_file_info ts (info\<lparr>fi_md5 := memcpy_s (fi_md5 info) 0 16 (pointed t)\<rparr>))
      else if tlv_type t = TYPE_FILE_INFO_FILE_SIGN then
        (if tlv_length t \<noteq> 64 then Some (False, info)
         else read_file_info ts (info\<lparr>fi_signature := memcpy_s (fi_signature info) 0 64 (pointed t)\<rparr>))
      else if tlv_type t = TYPE_FILE_INFO_FILE_IV then
        (if tlv_length t \<noteq> 16 then Some (False, info)
         else read_file_info ts (info\<lparr>fi_iv := memcpy_s (fi_iv info) 0 16 (pointed t)\<rparr>))
      else read_file_info ts info)"

text \<open>
  The loop that decides on the answer, 0 for an accepted file. The number of accounts stays what the
  stack held when the key store cannot tell it.
\<close>

definition file_timer :: "'h file_platform \<Rightarrow> 'h file_service \<Rightarrow> 'h file_service" where
  "file_timer fp s =
     (let timer = (fs_timer s \<or> fp_timer_new fp (fs_hw s)) in s\<lparr>fs_timer := timer, fs_timer_running := timer\<rparr>)"

definition accept_file :: "'h file_platform \<Rightarrow> 'h file_service \<Rightarrow> u32 \<times> 'h file_service" where
  "accept_file fp s =
     (let s = s\<lparr>g_md5Ctx := MD5_Init (g_md5Ctx s)\<rparr>;
          (ret, h) = FatfsFileCreate fp (fi_fileName (g_fileTransInfo s)) (fs_hw s);
          s = on_files (\<lambda>_. h) s
      in if ret \<noteq> 0 then (5, s)
         else
           let s = on_files (fp_signal fp (if g_isNftFile s then SIG_INIT_NFT_BIN else SIG_INIT_FIRMWARE_PROCESS) 1) s
           in (0, (file_timer fp s)\<lparr>g_isReceivingFile := True\<rparr>))"

definition judge_file :: "'h platform \<Rightarrow> 'h file_platform \<Rightarrow> ('h file_service, u32) prog" where
  "judge_file p fp s =
     (let info = g_fileTransInfo s in
      if strnlen_s (fi_fileName info) MAX_FILE_NAME_LENGTH = 0 \<or> fi_fileSize info = 0 \<or> fi_fileSize info \<ge> MAX_FILE_SIZE
      then Some (4, s)
      else if \<not> fp_verify_signature fp (fi_signature info) (p_sha256 p (fi_md5 info)) g_webUsbPubKey then Some (3, s)
      else
        (case GetExistAccountNum p (fs_device s) of
           None \<Rightarrow> None
         | Some (r, d) \<Rightarrow>
             let s = s\<lparr>fs_device := d\<rparr>;
                 walletAmount = (case r of Inl ret \<Rightarrow> hd (p_uninit p 1) | Inr n \<Rightarrow> n)
             in if g_currentAccountIndex d = ACCOUNT_INDEX_LOGOUT \<and> walletAmount \<noteq> 0
                then Some (2, on_files (fp_signal fp SIG_INIT_FIRMWARE_UPDATE_DENY 1) s)
                else if fp_display_percent fp (hw d) < LOW_BATTERY_PERCENT
                then Some (1, on_files (fp_signal fp SIG_INIT_LOW_BATTERY 1) s)
                else Some (accept_file fp s)))"

text \<open>The head of a response and the response itself.\<close>

definition reply_head :: "frame_head \<Rightarrow> u8 \<Rightarrow> u8 \<Rightarrow> frame_head" where
  "reply_head head serviceId commandId =
     \<lparr>fh_head = 0, fh_protocolVersion = 0, fh_packetIndex = fh_packetIndex head, fh_serviceId = serviceId,
      fh_commandId = commandId, fh_flag = 0, fh_length = 0\<rparr>"

definition reply_frame :: "'h file_platform \<Rightarrow> frame_head \<Rightarrow> tlv list \<Rightarrow> ('h file_service, bytes option) prog" where
  "reply_frame fp sendHead tlvs s =
     (case BuildFrame (fp_malloc fp (unat (GetFrameTotalLength tlvs))) sendHead tlvs of
        None \<Rightarrow> None
      | Some (f, _) \<Rightarrow> Some (Some f, s))"

definition value_tlv :: "u8 \<Rightarrow> u32 \<Rightarrow> tlv" where
  "value_tlv ty v = \<lparr>tlv_type = ty, tlv_length = 4, tlv_pValue = None, tlv_value = v\<rparr>"

definition cleared_tlv :: tlv where
  "cleared_tlv = \<lparr>tlv_type = 0, tlv_length = 0, tlv_pValue = None, tlv_value = 0\<rparr>"

definition ServiceFileTransInfo :: "'h platform \<Rightarrow> 'h file_platform \<Rightarrow> 'h file_service service_func" where
  "ServiceFileTransInfo p fp head tlvData s =
     (let (tlvNumber, tlvArray) = GetTlvFromData (replicate 5 cleared_tlv) 5 tlvData (unat (fh_length head));
          s = s\<lparr>g_fileTransOffset := 0\<rparr>
      in case read_file_info (take tlvNumber tlvArray) cleared_file_info of
           None \<Rightarrow> None
         | Some (ok, info) \<Rightarrow>
             let s = s\<lparr>g_fileTransInfo := info\<rparr>
             in if \<not> ok then Some (None, s)
                else
                  (case judge_file p fp (SetDeviceParserIv (fi_iv info) s) of
                     None \<Rightarrow> None
                   | Some (result, s) \<Rightarrow>
                       reply_frame fp (reply_head head (fh_serviceId head) (fh_commandId head))
                         [value_tlv TYPE_GENERAL_RESULT_ACK result] s))"

section \<open>Receiving the pieces\<close>

text \<open>The offset and the data; both keep \<^verbatim>\<open>UINT32_MAX\<close> and \<^verbatim>\<open>NULL\<close> when they are missing.\<close>

fun read_content :: "tlv list \<Rightarrow> u32 \<times> bytes option \<Rightarrow> (u32 \<times> bytes option) option" where
  "read_content [] r = Some r"
| "read_content (t # ts) (offset, fileData) =
     (if tlv_type t = TYPE_FILE_INFO_FILE_OFFSET then
        (if tlv_length t \<noteq> 4 then None else read_content ts (read_u32 (pointed t), fileData))
      else if tlv_type t = TYPE_FILE_INFO_FILE_DATA then read_content ts (offset, Some (pointed t))
      else read_content ts (offset, fileData))"

text \<open>
  What is appended: the checks of the offset and the size in 32-bit arithmetic, then the decryption, which cuts the padding of
  the last piece. \<open>None\<close> is a piece that is not taken.
\<close>

definition content_piece :: "'h platform \<Rightarrow> 'h file_service \<Rightarrow> frame_head \<Rightarrow> bytes \<Rightarrow> bytes option" where
  "content_piece p s head tlvData =
     (let (tlvNumber, tlvArray) = GetTlvFromData (replicate 2 cleared_tlv) 2 tlvData (unat (fh_length head))
      in case read_content (take tlvNumber tlvArray) (- 1, None) of
           None \<Rightarrow> None
         | Some (offset, None) \<Rightarrow> None
         | Some (offset, Some fileData) \<Rightarrow>
             let fileDataSize = of_nat (length fileData) :: u32;
                 fileSize = fi_fileSize (g_fileTransInfo s);
                 isTail = (offset + fileDataSize > fileSize)
             in if offset = - 1 \<or> fileDataSize = - 1 \<or> fileDataSize = 0 then None
                else if offset > fileSize \<or> fileDataSize > fileSize then None
                else if isTail \<and> \<not> offset + fileDataSize - fileSize \<le> 16 then None
                else if g_fileTransOffset s \<noteq> offset then None
                else if g_isNftFile s then Some fileData
                else Some (if isTail then take (unat (fileSize - offset)) (DataDecrypt p fileData s) else DataDecrypt p fileData s))"

definition GetFileContent :: "'h file_platform \<Rightarrow> frame_head \<Rightarrow> u32 \<Rightarrow> ('h file_service, bytes option) prog" where
  "GetFileContent fp head offset s =
     reply_frame fp (reply_head head (if g_isNftFile s then SERVICE_ID_NFT_FILE_TRANS else SERVICE_ID_FILE_TRANS) 2)
       [value_tlv TYPE_FILE_INFO_FILE_ACK offset] s"

text \<open>The offset advances before the piece is written; a failed write leaves it so.\<close>

definition ServiceFileTransContent :: "'h platform \<Rightarrow> 'h file_platform \<Rightarrow> 'h file_service service_func" where
  "ServiceFileTransContent p fp head tlvData s =
     (if \<not> g_isReceivingFile s \<or> \<not> fs_timer s then Some (None, s)
      else
        let s = s\<lparr>fs_timer_running := True\<rparr>
        in case content_piece p s head tlvData of
             None \<Rightarrow> Some (None, s)
           | Some fileData \<Rightarrow>
               let s = s\<lparr>g_fileTransOffset := g_fileTransOffset s + of_nat (length fileData)\<rparr>;
                   (ret, h) = FatfsFileAppend fp (fi_fileName (g_fileTransInfo s)) fileData (fs_hw s);
                   s = on_files (\<lambda>_. h) s
               in if ret \<noteq> 0 then Some (None, s)
                  else GetFileContent fp head (g_fileTransOffset s) (s\<lparr>g_md5Ctx := MD5_Update fileData (g_md5Ctx s)\<rparr>))"

section \<open>Completing\<close>

text \<open>
  A wrong digest or signature deletes the file and fails an assertion. \<^verbatim>\<open>MD5_Final\<close> clears its context.
\<close>

definition file_correct :: "'h platform \<Rightarrow> 'h file_platform \<Rightarrow> 'h file_service \<Rightarrow> bool" where
  "file_correct p fp s \<longleftrightarrow>
     MD5_Final (g_md5Ctx s) = fi_md5 (g_fileTransInfo s) \<and>
     fp_verify_signature fp (fi_signature (g_fileTransInfo s)) (p_sha256 p (fi_md5 (g_fileTransInfo s))) g_webUsbPubKey"

definition ServiceFileTransComplete :: "'h platform \<Rightarrow> 'h file_platform \<Rightarrow> 'h file_service service_func" where
  "ServiceFileTransComplete p fp head tlvData s =
     (if \<not> g_isReceivingFile s then Some (None, s)
      else if \<not> fs_timer s then None
      else if \<not> file_correct p fp s then None
      else
        let s = s\<lparr>g_isReceivingFile := False, fs_timer_running := False, g_md5Ctx := cleared_md5_ctx\<rparr>;
            s = on_files (fp_signal fp SIG_INIT_FIRMWARE_PROCESS 0) s;
            s = on_files (fp_set_setup_step fp 4) s;
            s = on_files (fp_save_settings fp) s;
            s = on_files (fp_reboot fp) s
        in reply_frame fp (reply_head head (fh_serviceId head) (fh_commandId head)) [] s)"

text \<open>The timer of the file, which the operating system calls once when it has run out.\<close>

definition FileTransTimeOutTimerFunc :: "'h file_platform \<Rightarrow> 'h file_service \<Rightarrow> 'h file_service" where
  "FileTransTimeOutTimerFunc fp s =
     (let s = s\<lparr>g_isReceivingFile := False, fs_timer_running := False\<rparr>;
          s = on_files (fp_signal fp SIG_INIT_FIRMWARE_PROCESS 0) s;
          s = (if g_isNftFile s
               then on_files (fp_signal fp SIG_INIT_NFT_BIN_TRANS_FAIL 0) (on_files (fp_signal fp SIG_INIT_NFT_BIN 0) s)
               else s);
          s = s\<lparr>g_isNftFile := False\<rparr>
      in on_files (\<lambda>h. snd (FatfsFileDelete fp (fi_fileName (g_fileTransInfo s)) h)) s)"

section \<open>The key exchange\<close>

text \<open>
  The array of the request is used again for the response. A field that the request had filled keeps
  its pointer, so the response to a wrong signature carries the first bytes of the field, not the 3.
\<close>

fun read_pubkey :: "tlv list \<Rightarrow> bytes option \<times> bytes option \<Rightarrow> bytes option \<times> bytes option" where
  "read_pubkey [] r = r"
| "read_pubkey (t # ts) (pubKey, pubKeySign) =
     (if tlv_type t = TYPE_FILE_FINO_PUBKEY then
        read_pubkey ts (Some (memcpy_s (case pubKey of None \<Rightarrow> replicate 34 0 | Some b \<Rightarrow> b) 0 34 (pointed t)), pubKeySign)
      else if tlv_type t = TYPE_FILE_FINO_PUBKEY_SIGN then
        read_pubkey ts (pubKey, Some (memcpy_s (case pubKeySign of None \<Rightarrow> replicate 71 0 | Some b \<Rightarrow> b) 0 71 (pointed t)))
      else read_pubkey ts (pubKey, pubKeySign))"

definition ServiceFileTransGetPubkey :: "'h platform \<Rightarrow> 'h file_platform \<Rightarrow> 'h file_service service_func" where
  "ServiceFileTransGetPubkey p fp head tlvData s =
     (let (tlvNumber, tlvArray) = GetTlvFromData (replicate 2 cleared_tlv) 2 tlvData (unat (fh_length head));
          t = (hd tlvArray)\<lparr>tlv_type := TYPE_FILE_FINO_PUBKEY\<rparr>;
          sendHead = reply_head head SERVICE_ID_FILE_TRANS 4
      in case read_pubkey (take tlvNumber tlvArray) (None, None) of
           (Some pubKey, Some pubKeySign) \<Rightarrow>
             (if \<not> fp_verify_signature fp pubKeySign (p_sha256 p (take 33 pubKey)) g_webUsbUpdatePubKey
              then reply_frame fp sendHead [t\<lparr>tlv_length := 4, tlv_value := 3\<rparr>] s
              else (case GetDeviceParserPubKey p fp (take 33 pubKey) s of
                      None \<Rightarrow> None
                    | Some (key, s) \<Rightarrow> reply_frame fp sendHead [t\<lparr>tlv_length := 33, tlv_pValue := key\<rparr>] s))
         | _ \<Rightarrow> reply_frame fp sendHead [t\<lparr>tlv_length := 4, tlv_value := 3\<rparr>] s)"

section \<open>The picture service\<close>

definition ServiceNftFileTransInfo :: "'h platform \<Rightarrow> 'h file_platform \<Rightarrow> 'h file_service service_func" where
  "ServiceNftFileTransInfo p fp head tlvData s =
     ServiceFileTransInfo p fp head tlvData
       (on_files (fp_save_settings fp) (on_files (fp_set_nft_valid fp False) (s\<lparr>g_isNftFile := True\<rparr>)))"

definition ServiceNftFileTransContent :: "'h platform \<Rightarrow> 'h file_platform \<Rightarrow> 'h file_service service_func" where
  "ServiceNftFileTransContent = ServiceFileTransContent"

definition START_ADDR :: nat where "START_ADDR = 0xEB2000"

text \<open>The file goes to the flash in sectors of 4096 bytes; a failed read ends the copy.\<close>

function write_sectors :: "'h file_platform \<Rightarrow> bytes \<Rightarrow> nat \<Rightarrow> nat \<Rightarrow> 'h \<Rightarrow> bool \<times> 'h" where
  "write_sectors fp filePath i lastLen h =
     (if lastLen = 0 then (True, h)
      else
        let len = min lastLen 4096;
            (ret, data) = fp_read fp filePath (i * 4096) len h
        in if ret \<noteq> 0 then (False, h)
           else
             let fileBuf = buf_write (replicate 4096 0) 0 (take len data);
                 h = fp_sector_erase fp (START_ADDR + i * 4096) h;
                 h = fp_flash_write fp (START_ADDR + i * 4096) (take len fileBuf) h
             in write_sectors fp filePath (i + 1) (lastLen - len) h)"
  by pat_completeness auto
termination
  by (relation "measure (\<lambda>(fp, filePath, i, lastLen, h). lastLen)") auto

declare write_sectors.simps [simp del]

definition WriteNftToFlash :: "'h file_platform \<Rightarrow> 'h \<Rightarrow> 'h" where
  "WriteNftToFlash fp h =
     (let filePath = cstr ''1:nft.bin''
      in if fp_open fp filePath h \<noteq> 0 then h
         else
           let (done, h) = write_sectors fp filePath 0 (fp_size fp filePath h) h
           in if done then snd (FatfsFileDelete fp filePath h) else h)"

definition ServiceNftFileTransComplete :: "'h platform \<Rightarrow> 'h file_platform \<Rightarrow> 'h file_service service_func" where
  "ServiceNftFileTransComplete p fp head tlvData s =
     (if \<not> g_isReceivingFile s then Some (None, s)
      else if \<not> fs_timer s then None
      else if \<not> file_correct p fp s then None
      else
        let s = s\<lparr>g_isReceivingFile := False, g_isNftFile := False, fs_timer_running := False, g_md5Ctx := cleared_md5_ctx\<rparr>;
            s = on_files (WriteNftToFlash fp) s;
            s = on_files (fp_set_nft_valid fp True) s;
            s = on_files (fp_save_settings fp) s;
            s = on_files (fp_signal fp SIG_INIT_NFT_BIN 0) s;
            s = on_files (fp_signal fp SIG_INIT_TRANSFER_NFT_SCREEN 1) s
        in reply_frame fp (reply_head head (fh_serviceId head) (fh_commandId head)) [] s)"

section \<open>The tables\<close>

definition g_fileTransInfoServiceFunc :: "'h platform \<Rightarrow> 'h file_platform \<Rightarrow> 'h file_service service_func option list" where
  "g_fileTransInfoServiceFunc p fp =
     [None, Some (ServiceFileTransInfo p fp), Some (ServiceFileTransContent p fp), Some (ServiceFileTransComplete p fp),
      Some (ServiceFileTransGetPubkey p fp)]"

definition g_nftFileTransInfoServiceFunc :: "'h platform \<Rightarrow> 'h file_platform \<Rightarrow> 'h file_service service_func option list" where
  "g_nftFileTransInfoServiceFunc p fp =
     [None, Some (ServiceNftFileTransInfo p fp), Some (ServiceNftFileTransContent p fp), Some (ServiceNftFileTransComplete p fp)]"

end
