(* ===== verification/FileProps.thy ===== *)
theory FileProps
  imports FileTrans AccountProps
begin

text \<open>
  Properties of the file service: what a host sends arrives in the file; a transfer is only completed when the digest
  of all that was received carries the maker's signature, and the file then holds what was received, unless an
  announcement was refused or a write was cut short in between.
\<close>

section \<open>Only signed files are completed\<close>

text \<open>
  Requests in any order, from power on. \<open>pieces\<close> are the data taken since an announcement last
  started the digest. \<open>intact\<close> says that this announcement was accepted, and that since then no
  announcement was refused and every piece was written as a whole: a full volume makes FatFs write less and report success,
  which \<open>FatfsFileAppend\<close> passes on.
\<close>

definition verdict :: "'h platform \<Rightarrow> 'h file_platform \<Rightarrow> frame_head \<Rightarrow> bytes \<Rightarrow> 'h file_service \<Rightarrow> u32 option" where
  "verdict p fp head tlvData s =
     (let (tlvNumber, tlvArray) = GetTlvFromData (replicate 5 cleared_tlv) 5 tlvData (unat (fh_length head))
      in case read_file_info (take tlvNumber tlvArray) cleared_file_info of
           Some (True, info) \<Rightarrow>
             map_option fst (judge_file p fp (SetDeviceParserIv (fi_iv info) (s\<lparr>g_fileTransOffset := 0, g_fileTransInfo := info\<rparr>)))
         | _ \<Rightarrow> None)"

definition restarts :: "'h platform \<Rightarrow> 'h file_platform \<Rightarrow> frame_head \<Rightarrow> bytes \<Rightarrow> 'h file_service \<Rightarrow> bool" where
  "restarts p fp head tlvData s \<longleftrightarrow> verdict p fp head tlvData s \<in> {Some 0, Some 5}"

definition append_fails :: "'h platform \<Rightarrow> 'h file_platform \<Rightarrow> frame_head \<Rightarrow> bytes \<Rightarrow> 'h file_service \<Rightarrow> bool" where
  "append_fails p fp head tlvData s \<longleftrightarrow> g_isReceivingFile s \<and> fs_timer s \<and>
     (case content_piece p s head tlvData of None \<Rightarrow> False
      | Some data \<Rightarrow> fst (append_file fp (fi_fileName (g_fileTransInfo s)) data (fs_hw s)) \<noteq> (0, length data))"

definition nft_started :: "'h file_platform \<Rightarrow> 'h file_service \<Rightarrow> 'h file_service" where
  "nft_started fp s = on_files (fp_save_settings fp) (on_files (fp_set_nft_valid fp False) (s\<lparr>g_isNftFile := True\<rparr>))"

inductive digested :: "'h platform \<Rightarrow> 'h file_platform \<Rightarrow> 'h file_service \<Rightarrow> bytes list \<Rightarrow> bool \<Rightarrow> bool" for p fp where
  start: "length (md5_buffer (g_md5Ctx s)) = 64 \<Longrightarrow> \<not> g_isReceivingFile s \<Longrightarrow> digested p fp s [] False"
| info: "digested p fp s pieces intact \<Longrightarrow> ServiceFileTransInfo p fp head tlvData s = Some (r, s') \<Longrightarrow>
    digested p fp s' (if restarts p fp head tlvData s then [] else pieces) (verdict p fp head tlvData s = Some 0)"
| content: "digested p fp s pieces intact \<Longrightarrow> ServiceFileTransContent p fp head tlvData s = Some (r, s') \<Longrightarrow>
    digested p fp s' (case r of None \<Rightarrow> pieces | Some _ \<Rightarrow> pieces @ [the (content_piece p s head tlvData)])
      (intact \<and> \<not> append_fails p fp head tlvData s)"
| complete: "digested p fp s pieces intact \<Longrightarrow> ServiceFileTransComplete p fp head tlvData s = Some (r, s') \<Longrightarrow>
    digested p fp s' pieces intact"
| nft_info: "digested p fp s pieces intact \<Longrightarrow> ServiceNftFileTransInfo p fp head tlvData s = Some (r, s') \<Longrightarrow>
    digested p fp s' (if restarts p fp head tlvData (nft_started fp s) then [] else pieces)
      (verdict p fp head tlvData (nft_started fp s) = Some 0)"
| nft_complete: "digested p fp s pieces intact \<Longrightarrow> ServiceNftFileTransComplete p fp head tlvData s = Some (r, s') \<Longrightarrow>
    digested p fp s' pieces intact"
| time_out: "digested p fp s pieces intact \<Longrightarrow> digested p fp (FileTransTimeOutTimerFunc fp s) pieces intact"
| pubkey: "digested p fp s pieces intact \<Longrightarrow> ServiceFileTransGetPubkey p fp head tlvData s = Some (r, s') \<Longrightarrow>
    digested p fp s' pieces intact"

definition digest_inv :: "'h file_service \<Rightarrow> bytes list \<Rightarrow> bool" where
  "digest_inv s pieces \<longleftrightarrow> length (md5_buffer (g_md5Ctx s)) = 64 \<and>
     (g_isReceivingFile s \<longrightarrow> (\<exists>ctx. length (md5_buffer ctx) = 64 \<and> (\<forall>data\<in>set pieces. length data < 2 ^ 32) \<and>
        g_md5Ctx s = fold MD5_Update pieces (MD5_Init ctx)))"

lemma on_files_fields [simp]:
  "g_md5Ctx (on_files f s) = g_md5Ctx s" "g_isReceivingFile (on_files f s) = g_isReceivingFile s"
  "g_isNftFile (on_files f s) = g_isNftFile s" "g_fileTransInfo (on_files f s) = g_fileTransInfo s"
  "g_fileTransOffset (on_files f s) = g_fileTransOffset s" "fs_timer (on_files f s) = fs_timer s"
  "fs_timer_running (on_files f s) = fs_timer_running s" "g_dataSharedKey (on_files f s) = g_dataSharedKey s"
  "g_dataParserIv (on_files f s) = g_dataParserIv s" "fs_hw (on_files f s) = f (fs_hw s)"
  "g_currentAccountIndex (fs_device (on_files f s)) = g_currentAccountIndex (fs_device s)"
  by (simp_all add: on_files_def fs_hw_def)

lemma fs_hw_updates [simp]:
  "fs_hw (s\<lparr>g_fileTransInfo := a\<rparr>) = fs_hw s" "fs_hw (s\<lparr>g_fileTransOffset := b\<rparr>) = fs_hw s" "fs_hw (s\<lparr>g_md5Ctx := c\<rparr>) = fs_hw s"
  "fs_hw (s\<lparr>g_isReceivingFile := d\<rparr>) = fs_hw s" "fs_hw (s\<lparr>g_isNftFile := d\<rparr>) = fs_hw s" "fs_hw (s\<lparr>fs_timer := d\<rparr>) = fs_hw s"
  "fs_hw (s\<lparr>fs_timer_running := d\<rparr>) = fs_hw s" "fs_hw (s\<lparr>g_dataParserIv := e\<rparr>) = fs_hw s"
  "fs_hw (s\<lparr>g_dataParserPubKey := e\<rparr>) = fs_hw s" "fs_hw (s\<lparr>g_dataSharedKey := e\<rparr>) = fs_hw s"
  by (simp_all add: fs_hw_def)

lemma file_timer_fields [simp]:
  "g_md5Ctx (file_timer fp s) = g_md5Ctx s" "g_isReceivingFile (file_timer fp s) = g_isReceivingFile s"
  "g_isNftFile (file_timer fp s) = g_isNftFile s" "g_fileTransInfo (file_timer fp s) = g_fileTransInfo s"
  "g_fileTransOffset (file_timer fp s) = g_fileTransOffset s" "g_dataSharedKey (file_timer fp s) = g_dataSharedKey s"
  "g_dataParserIv (file_timer fp s) = g_dataParserIv s" "fs_hw (file_timer fp s) = fs_hw s"
  "fs_timer (file_timer fp s) = (fs_timer s \<or> fp_timer_new fp (fs_hw s))"
  "fs_device (file_timer fp s) = fs_device s"
  by (simp_all add: file_timer_def Let_def fs_hw_def)

lemma reply_frame_state: "reply_frame fp sendHead tlvs s = Some (r, s') \<Longrightarrow> s' = s \<and> r \<noteq> None"
  by (auto simp: reply_frame_def split: option.splits)


lemma pointed_length: "tlv_in data n t \<Longrightarrow> length (pointed t) < 2 ^ 16"
proof -
  assume "tlv_in data n t"
  then have "length (pointed t) \<le> unat (tlv_length t)" by (auto simp: tlv_in_def pointed_def)
  then show ?thesis using unsigned_less [of "tlv_length t", where 'a = nat] by simp
qed

lemma read_content_length:
  "read_content ts (offset, fileData) = Some (off, Some d) \<Longrightarrow> \<forall>t\<in>set ts. length (pointed t) < 2 ^ 16 \<Longrightarrow>
   (\<And>x. fileData = Some x \<Longrightarrow> length x < 2 ^ 16) \<Longrightarrow> length d < 2 ^ 16"
  by (induction ts "(offset, fileData)" arbitrary: offset fileData rule: read_content.induct) (auto split: if_splits)

lemma DataDecrypt_length: "platform_ok p \<Longrightarrow> length (DataDecrypt p data s) = length data"
proof -
  assume ok: "platform_ok p"
  have "length data mod 2 ^ 16 div 16 * 16 \<le> length data"
    by (rule le_trans [OF div_times_less_eq_dividend mod_less_eq_dividend])
  then show ?thesis by (simp add: DataDecrypt_def Let_def crypto_laws(6) [OF ok] min_absorb2)
qed

lemma content_piece_length:
  assumes "content_piece p s head tlvData = Some data" and ok: "platform_ok p"
  shows "length data < 2 ^ 16"
proof -
  obtain n arr where get: "GetTlvFromData (replicate 2 cleared_tlv) 2 tlvData (unat (fh_length head)) = (n, arr)" by fastforce
  have "\<forall>i<n. length (pointed (arr ! i)) < 2 ^ 16"
    using GetTlvLoop_bounds [of 2 tlvData "unat (fh_length head)" 0 0 "replicate 2 cleared_tlv" n arr] get pointed_length
    by (auto simp: GetTlvFromData_def)
  then have "\<forall>t\<in>set (take n arr). length (pointed t) < 2 ^ 16" by (auto simp: in_set_conv_nth)
  then have "length d < 2 ^ 16" if "read_content (take n arr) (- 1, None) = Some (off, Some d)" for off d
    using read_content_length [OF that] by simp
  then show ?thesis using assms(1)
    by (auto simp: content_piece_def get Let_def DataDecrypt_length [OF ok] split: option.splits if_splits)
qed

lemma judge_file_digest:
  assumes "judge_file p fp s = Some (result, s')" and "length (md5_buffer (g_md5Ctx s)) = 64"
  shows "if result \<in> {0, 5} then digest_inv s' []
    else g_md5Ctx s' = g_md5Ctx s \<and> g_isReceivingFile s' = g_isReceivingFile s"
  using assms
  by (auto simp: judge_file_def accept_file_def digest_inv_def Let_def MD5_Init_def split: option.splits if_splits prod.splits)

lemma digest_inv_same:
  "digest_inv s pieces \<Longrightarrow> g_md5Ctx s' = g_md5Ctx s \<Longrightarrow> (g_isReceivingFile s' \<Longrightarrow> g_isReceivingFile s) \<Longrightarrow> digest_inv s' pieces"
  by (simp add: digest_inv_def)

lemma info_digest:
  assumes inv: "digest_inv s pieces" and run: "ServiceFileTransInfo p fp head tlvData s = Some (r, s')"
  shows "digest_inv s' (if restarts p fp head tlvData s then [] else pieces)"
proof -
  obtain n arr where get: "GetTlvFromData (replicate 5 cleared_tlv) 5 tlvData (unat (fh_length head)) = (n, arr)" by fastforce
  obtain good finfo where read: "read_file_info (take n arr) cleared_file_info = Some (good, finfo)"
    using run by (auto simp: ServiceFileTransInfo_def get Let_def split: option.splits)
  let ?s = "SetDeviceParserIv (fi_iv finfo) (s\<lparr>g_fileTransOffset := 0, g_fileTransInfo := finfo\<rparr>)"
  have len: "length (md5_buffer (g_md5Ctx ?s)) = 64" using inv by (simp add: digest_inv_def SetDeviceParserIv_def)
  show ?thesis
  proof (cases good)
    case False
    then show ?thesis using run by (auto simp: ServiceFileTransInfo_def restarts_def verdict_def get Let_def read intro!: digest_inv_same [OF inv])
  next
    case True
    then obtain result s1 where judge: "judge_file p fp ?s = Some (result, s1)" and reply: "reply_frame fp
        (reply_head head (fh_serviceId head) (fh_commandId head)) [value_tlv TYPE_GENERAL_RESULT_ACK result] s1 = Some (r, s')"
      using run by (auto simp: ServiceFileTransInfo_def get Let_def read split: option.splits)
    have "s' = s1" using reply_frame_state [OF reply] by simp
    then show ?thesis using judge_file_digest [OF judge len] True judge
      by (auto simp: restarts_def verdict_def get Let_def read SetDeviceParserIv_def intro!: digest_inv_same [OF inv])
  qed
qed

lemma content_digest:
  assumes inv: "digest_inv s pieces" and ok: "platform_ok p" and run: "ServiceFileTransContent p fp head tlvData s = Some (r, s')"
  shows "digest_inv s' (case r of None \<Rightarrow> pieces | Some _ \<Rightarrow> pieces @ [the (content_piece p s head tlvData)])"
proof (cases r)
  case None
  then show ?thesis using run
    by (auto simp: ServiceFileTransContent_def GetFileContent_def Let_def split: option.splits if_splits prod.splits
        dest: reply_frame_state intro!: digest_inv_same [OF inv])
next
  case (Some resp)
  have piece: "content_piece p (s\<lparr>fs_timer_running := b\<rparr>) = content_piece p s" for b
    by (intro ext) (simp add: content_piece_def DataDecrypt_def Let_def split: prod.split option.split)
  from Some obtain data where rec: "g_isReceivingFile s" and data: "content_piece p s head tlvData = Some data"
    and s': "g_md5Ctx s' = MD5_Update data (g_md5Ctx s)"
    using run by (auto simp: ServiceFileTransContent_def GetFileContent_def Let_def piece split: option.splits if_splits prod.splits
        dest!: reply_frame_state)
  from inv rec obtain ctx where ctx: "length (md5_buffer ctx) = 64" "\<forall>data\<in>set pieces. length data < 2 ^ 32"
    "g_md5Ctx s = fold MD5_Update pieces (MD5_Init ctx)"
    by (auto simp: digest_inv_def)
  have "length data < 2 ^ 32" using content_piece_length [OF data ok] by simp
  with ctx have all: "\<forall>data\<in>set (pieces @ [data]). length data < 2 ^ 32" by simp
  have fold: "g_md5Ctx s' = fold MD5_Update (pieces @ [data]) (MD5_Init ctx)" using ctx(3) s' by simp
  then show ?thesis using md5_pieces [OF ctx(1) all] ctx(1) all Some data
    by (auto simp: digest_inv_def md5_reads_def)
qed

lemma cleared_digest: "length (md5_buffer cleared_md5_ctx) = 64"
  by (simp add: cleared_md5_ctx_def)

lemma digested_inv:
  assumes "platform_ok p" and "digested p fp s pieces intact"
  shows "digest_inv s pieces"
  using assms(2)
proof (induction rule: digested.induct)
  case (info s pieces intact head tlvData r s')
  then show ?case by (intro info_digest)
next
  case (content s pieces intact head tlvData r s')
  then show ?case by (intro content_digest [OF _ assms(1)])
next
  case (complete s pieces intact head tlvData r s')
  then show ?case
    by (auto simp: ServiceFileTransComplete_def Let_def digest_inv_def cleared_digest split: if_splits dest!: reply_frame_state)
next
  case (nft_info s pieces intact head tlvData r s')
  then have "digest_inv (nft_started fp s) pieces"
    by (intro digest_inv_same [OF nft_info.IH]) (simp_all add: nft_started_def)
  then show ?case using nft_info.hyps by (intro info_digest) (simp_all add: ServiceNftFileTransInfo_def nft_started_def)
next
  case (nft_complete s pieces intact head tlvData r s')
  then show ?case
    by (auto simp: ServiceNftFileTransComplete_def Let_def digest_inv_def cleared_digest split: if_splits dest!: reply_frame_state)
next
  case (pubkey s pieces intact head tlvData r s')
  then show ?case
    by (auto simp: ServiceFileTransGetPubkey_def GetDeviceParserPubKey_def Let_def split: prod.splits option.splits if_splits
        dest!: reply_frame_state intro!: digest_inv_same [OF pubkey.IH])
qed (auto simp: digest_inv_def FileTransTimeOutTimerFunc_def Let_def)

text \<open>The content of a file, as reading it from its start shows.\<close>

definition file_contents :: "'h file_platform \<Rightarrow> bytes \<Rightarrow> 'h \<Rightarrow> bytes option" where
  "file_contents fp name h = (if fp_open fp name h \<noteq> 0 then None else Some (snd (fp_read fp name 0 (fp_size fp name h) h)))"

text \<open>
  FatFs: a file that was created is empty, and a successful write to a file opened for appending appends as many bytes as
  it says. A call that fails may do anything to its file. The screen, the settings, the restart and the random
  numbers are not files.
\<close>

definition fatfs_laws :: "'h file_platform \<Rightarrow> bool" where
  "fatfs_laws fp \<longleftrightarrow>
     (\<forall>path h h'. fp_f_open fp path FA_CREATE_ALWAYS h = (0, h') \<longrightarrow> file_contents fp path (fp_f_close fp path h') = Some []) \<and>
     (\<forall>path data h h' n h'' c. fp_f_open fp path (or FA_OPEN_APPEND FA_WRITE) h = (0, h') \<longrightarrow>
        fp_f_write fp path data h' = ((0, n), h'') \<longrightarrow> file_contents fp path h = Some c \<longrightarrow>
        file_contents fp path (fp_f_close fp path h'') = Some (c @ take n data))"

definition file_laws :: "'h platform \<Rightarrow> 'h file_platform \<Rightarrow> bool" where
  "file_laws p fp \<longleftrightarrow> fatfs_laws fp \<and>
     (\<forall>path sig v h. file_contents fp path (fp_signal fp sig v h) = file_contents fp path h) \<and>
     (\<forall>path n h. file_contents fp path (fp_set_setup_step fp n h) = file_contents fp path h) \<and>
     (\<forall>path b h. file_contents fp path (fp_set_nft_valid fp b h) = file_contents fp path h) \<and>
     (\<forall>path h. file_contents fp path (fp_save_settings fp h) = file_contents fp path h) \<and>
     (\<forall>path h. file_contents fp path (fp_reboot fp h) = file_contents fp path h) \<and>
     (\<forall>path n h. file_contents fp path (snd (p_trng p n h)) = file_contents fp path h)"

lemma created_file:
  "fatfs_laws fp \<Longrightarrow> FatfsFileCreate fp path h = (0, h') \<Longrightarrow> file_contents fp path h' = Some []"
  by (auto simp: FatfsFileCreate_def fatfs_laws_def Let_def split: prod.splits if_splits)

lemma appended_file:
  assumes "fatfs_laws fp" and "append_file fp path data h = ((0, n), h')" and "file_contents fp path h = Some c"
  shows "file_contents fp path h' = Some (c @ take n data)"
proof -
  obtain h1 h2 where "fp_f_open fp path (or FA_OPEN_APPEND FA_WRITE) h = (0, h1)" "fp_f_write fp path data h1 = ((0, n), h2)"
    "h' = fp_f_close fp path h2"
    using assms(2) by (auto simp: append_file_def Let_def split: prod.splits if_splits)
  with assms(1,3) show ?thesis unfolding fatfs_laws_def by blast
qed

definition holds_pieces :: "'h file_platform \<Rightarrow> 'h file_service \<Rightarrow> bytes list \<Rightarrow> bool" where
  "holds_pieces fp s pieces \<longleftrightarrow> file_contents fp (fi_fileName (g_fileTransInfo s)) (fs_hw s) = Some (concat pieces)"

lemma judge_file_fields:
  "judge_file p fp s = Some (result, s') \<Longrightarrow> g_fileTransInfo s' = g_fileTransInfo s \<and> g_fileTransOffset s' = g_fileTransOffset s"
  by (auto simp: judge_file_def accept_file_def Let_def split: option.splits if_splits prod.splits)

lemma judge_file_creates:
  assumes "judge_file p fp s = Some (0, s')" and "file_laws p fp"
  shows "holds_pieces fp s' []"
  using assms created_file [of fp]
  by (auto simp: judge_file_def accept_file_def holds_pieces_def file_laws_def Let_def split: option.splits if_splits prod.splits)

lemma info_file:
  assumes laws: "file_laws p fp" and run: "ServiceFileTransInfo p fp head tlvData s = Some (r, s')"
    and accepted: "verdict p fp head tlvData s = Some 0"
  shows "holds_pieces fp s' []"
proof -
  obtain n arr where get: "GetTlvFromData (replicate 5 cleared_tlv) 5 tlvData (unat (fh_length head)) = (n, arr)" by fastforce
  obtain finfo where read: "read_file_info (take n arr) cleared_file_info = Some (True, finfo)"
    using accepted by (auto simp: verdict_def get split: option.splits bool.splits)
  let ?s = "SetDeviceParserIv (fi_iv finfo) (s\<lparr>g_fileTransOffset := 0, g_fileTransInfo := finfo\<rparr>)"
  obtain s1 where judge: "judge_file p fp ?s = Some (0, s1)"
    using accepted by (auto simp: verdict_def get read)
  then have "s' = s1" using run by (auto simp: ServiceFileTransInfo_def get Let_def read dest: reply_frame_state)
  then show ?thesis using judge_file_creates [OF judge laws] by simp
qed

lemma content_file:
  assumes laws: "file_laws p fp" and holds: "g_isReceivingFile s \<Longrightarrow> holds_pieces fp s pieces"
    and run: "ServiceFileTransContent p fp head tlvData s = Some (r, s')"
    and good: "\<not> append_fails p fp head tlvData s" and rec: "g_isReceivingFile s'"
  shows "holds_pieces fp s' (case r of None \<Rightarrow> pieces | Some _ \<Rightarrow> pieces @ [the (content_piece p s head tlvData)])"
proof -
  have piece: "content_piece p (s\<lparr>fs_timer_running := b\<rparr>) = content_piece p s" for b
    by (intro ext) (simp add: content_piece_def DataDecrypt_def Let_def split: prod.split option.split)
  show ?thesis
  proof (cases "g_isReceivingFile s \<and> fs_timer s \<and> content_piece p s head tlvData \<noteq> None")
    case False
    then show ?thesis using run rec holds
      by (auto simp: ServiceFileTransContent_def Let_def piece holds_pieces_def split: if_splits option.splits)
  next
    case True
    then obtain data where data: "content_piece p s head tlvData = Some data" by auto
    obtain h where h: "append_file fp (fi_fileName (g_fileTransInfo s)) data (fs_hw s) = ((0, length data), h)"
      using good True data by (cases "append_file fp (fi_fileName (g_fileTransInfo s)) data (fs_hw s)") (simp add: append_fails_def)
    have "file_contents fp (fi_fileName (g_fileTransInfo s)) h = Some (concat pieces @ data)"
      using appended_file [OF _ h, of "concat pieces"] laws holds True by (simp add: holds_pieces_def file_laws_def)
    then show ?thesis using run True data h
      by (auto simp: ServiceFileTransContent_def FatfsFileAppend_def GetFileContent_def Let_def piece holds_pieces_def split: option.split
          dest!: reply_frame_state)
  qed
qed

lemma digested_file:
  assumes laws: "file_laws p fp" and "digested p fp s pieces intact"
  shows "intact \<Longrightarrow> g_isReceivingFile s \<Longrightarrow> holds_pieces fp s pieces"
  using assms(2)
proof (induction rule: digested.induct)
  case (info s pieces intact head tlvData r s')
  then show ?case using info_file [OF laws info.hyps(2)] by (simp add: restarts_def)
next
  case (content s pieces intact head tlvData r s')
  then show ?case by (intro content_file [OF laws _ content.hyps(2)]) auto
next
  case (complete s pieces intact head tlvData r s')
  then show ?case by (auto simp: ServiceFileTransComplete_def Let_def split: if_splits dest!: reply_frame_state)
next
  case (nft_info s pieces intact head tlvData r s')
  then show ?case using info_file [OF laws, of head tlvData "nft_started fp s" r s']
    by (simp add: restarts_def ServiceNftFileTransInfo_def nft_started_def)
next
  case (nft_complete s pieces intact head tlvData r s')
  then show ?case by (auto simp: ServiceNftFileTransComplete_def Let_def split: if_splits dest!: reply_frame_state)
next
  case (pubkey s pieces intact head tlvData r s')
  have trng: "file_contents fp nm h' = file_contents fp nm h" if "p_trng p n h = (k, h')" for nm n k h h'
    using laws that unfolding file_laws_def by (metis snd_conv)
  show ?case using pubkey
    by (auto simp: ServiceFileTransGetPubkey_def GetDeviceParserPubKey_def holds_pieces_def Let_def trng
        split: prod.splits option.splits if_splits dest!: reply_frame_state)
qed (auto simp: FileTransTimeOutTimerFunc_def Let_def split: if_splits)

text \<open>
  C17: Whatever requests the host sends, in any order and with any content, and whenever the timer runs
  out: if a transfer of a firmware or of a picture is completed, the MD5 digest of all the data taken since the announcement is
  the announced one, and the announced signature is a signature of it under the maker's key. If moreover, since the
  announcement was accepted, no other announcement was refused and every piece was written as a whole, the announced file holds exactly
  these data, and still does after the completion of a firmware.
\<close>

theorem completed_is_signed:
  assumes "platform_ok p" and "file_laws p fp" and "digested p fp s pieces intact"
    and "ServiceFileTransComplete p fp head tlvData s = Some (Some resp, s') \<or>
      ServiceNftFileTransComplete p fp head tlvData s = Some (Some resp, s')"
  shows "md5 (concat pieces) = fi_md5 (g_fileTransInfo s) \<and>
    fp_verify_signature fp (fi_signature (g_fileTransInfo s)) (p_sha256 p (md5 (concat pieces))) g_webUsbPubKey \<and>
    (intact \<longrightarrow> file_contents fp (fi_fileName (g_fileTransInfo s)) (fs_hw s) = Some (concat pieces) \<and>
      (ServiceFileTransComplete p fp head tlvData s = Some (Some resp, s') \<longrightarrow>
        file_contents fp (fi_fileName (g_fileTransInfo s)) (fs_hw s') = Some (concat pieces)))"
proof -
  have rec: "g_isReceivingFile s" and correct: "file_correct p fp s"
    using assms(4) by (auto simp: ServiceFileTransComplete_def ServiceNftFileTransComplete_def split: if_splits)
  obtain ctx where ctx: "length (md5_buffer ctx) = 64" "\<forall>data\<in>set pieces. length data < 2 ^ 32"
    "g_md5Ctx s = fold MD5_Update pieces (MD5_Init ctx)"
    using digested_inv [OF assms(1,3)] rec by (auto simp: digest_inv_def)
  have "MD5_Final (g_md5Ctx s) = md5 (concat pieces)"
    using md5_pieces [OF ctx(1,2)] unfolding ctx(3) by (intro MD5_Final_md5) blast+
  moreover have "file_contents fp nm (fs_hw s') = file_contents fp nm (fs_hw s)"
    if "ServiceFileTransComplete p fp head tlvData s = Some (Some resp, s')" for nm
    using that rec assms(2)
    by (auto simp: ServiceFileTransComplete_def file_laws_def Let_def split: if_splits dest!: reply_frame_state)
  ultimately show ?thesis using correct digested_file [OF assms(2,3)] rec by (auto simp: file_correct_def holds_pieces_def)
qed

text \<open>
  An announcement that is refused while another file arrives: the transfer goes on with the new name,
  size and digest, from offset 0, over the old digest.
\<close>

lemma refused_announcement_goes_on:
  assumes run: "ServiceFileTransInfo p fp head tlvData s = Some (Some resp, s')" and refused: "\<not> restarts p fp head tlvData s"
    and ctx: "length (md5_buffer (g_md5Ctx s)) = 64"
  shows "g_isReceivingFile s' = g_isReceivingFile s \<and> g_md5Ctx s' = g_md5Ctx s \<and> g_fileTransOffset s' = 0 \<and>
    (\<exists>n arr. GetTlvFromData (replicate 5 cleared_tlv) 5 tlvData (unat (fh_length head)) = (n, arr) \<and>
      read_file_info (take n arr) cleared_file_info = Some (True, g_fileTransInfo s'))"
proof -
  obtain n arr where get: "GetTlvFromData (replicate 5 cleared_tlv) 5 tlvData (unat (fh_length head)) = (n, arr)" by fastforce
  obtain finfo where read: "read_file_info (take n arr) cleared_file_info = Some (True, finfo)"
    using run by (auto simp: ServiceFileTransInfo_def get Let_def split: option.splits if_splits)
  let ?s = "SetDeviceParserIv (fi_iv finfo) (s\<lparr>g_fileTransOffset := 0, g_fileTransInfo := finfo\<rparr>)"
  obtain result s1 where judge: "judge_file p fp ?s = Some (result, s1)" and reply: "reply_frame fp
      (reply_head head (fh_serviceId head) (fh_commandId head)) [value_tlv TYPE_GENERAL_RESULT_ACK result] s1 = Some (Some resp, s')"
    using run by (auto simp: ServiceFileTransInfo_def get Let_def read split: option.splits)
  have "s' = s1" using reply_frame_state [OF reply] by simp
  moreover have "result \<notin> {0, 5}" using refused judge by (auto simp: restarts_def verdict_def get Let_def read)
  ultimately show ?thesis
    using judge_file_digest [OF judge] judge_file_fields [OF judge] ctx get read by (auto simp: SetDeviceParserIv_def)
qed

section \<open>What a host sends\<close>

text \<open>The fields of the three requests of a transfer; a name is sent with its NUL.\<close>

definition host_head :: "u8 \<Rightarrow> frame_head" where
  "host_head commandId = \<lparr>fh_head = 0, fh_protocolVersion = 0, fh_packetIndex = 0, fh_serviceId = SERVICE_ID_FILE_TRANS,
     fh_commandId = commandId, fh_flag = 2, fh_length = 0\<rparr>"

definition bytes_tlv :: "u8 \<Rightarrow> bytes \<Rightarrow> tlv" where
  "bytes_tlv ty b = \<lparr>tlv_type = ty, tlv_length = of_nat (length b), tlv_pValue = Some b, tlv_value = 0\<rparr>"

definition info_fields :: "bytes \<Rightarrow> nat \<Rightarrow> bytes \<Rightarrow> bytes \<Rightarrow> bytes \<Rightarrow> tlv list" where
  "info_fields name n digest sig iv =
     [bytes_tlv TYPE_FILE_INFO_FILE_NAME (name @ [0]), bytes_tlv TYPE_FILE_INFO_FILE_SIZE (le32 (of_nat n)),
      bytes_tlv TYPE_FILE_INFO_FILE_MD5 digest, bytes_tlv TYPE_FILE_INFO_FILE_SIGN sig, bytes_tlv TYPE_FILE_INFO_FILE_IV iv]"

definition content_fields :: "nat \<Rightarrow> bytes \<Rightarrow> tlv list" where
  "content_fields offset data =
     [bytes_tlv TYPE_FILE_INFO_FILE_OFFSET (le32 (of_nat offset)), bytes_tlv TYPE_FILE_INFO_FILE_DATA data]"

text \<open>A request as the receiver hands it to the services: the fields and the checksum after them.\<close>

definition host_request :: "'h protocol_service list \<Rightarrow> u8 \<Rightarrow> tlv list \<Rightarrow> 'h \<Rightarrow> 'h option" where
  "host_request services commandId ts s =
     (let head = host_head commandId
      in case ExecuteService services (filled_head head ts) (concat (map tlv_bytes ts) @ le32 (crc32_ieee 0 (frame_body head ts))) s of
           Some (Some resp, s') \<Rightarrow> Some s'
         | _ \<Rightarrow> None)"

text \<open>
  Each piece is encrypted with the shared key; \<open>pad\<close> fills it to whole blocks. The host goes on when it
  gets a response.
\<close>

fun host_pieces :: "'h protocol_service list \<Rightarrow> (bytes \<Rightarrow> bytes) \<Rightarrow> nat \<Rightarrow> (bytes \<times> bytes) list \<Rightarrow> 'h \<Rightarrow> 'h option" where
  "host_pieces services encrypt offset [] s = Some s"
| "host_pieces services encrypt offset ((data, pad) # pieces) s =
     (case host_request services 2 (content_fields offset (encrypt (data @ pad))) s of
        None \<Rightarrow> None
      | Some s \<Rightarrow> host_pieces services encrypt (offset + length data) pieces s)"

definition host_sends_file ::
  "'h protocol_service list \<Rightarrow> (bytes \<Rightarrow> bytes) \<Rightarrow> bytes \<Rightarrow> bytes \<Rightarrow> bytes \<Rightarrow> (bytes \<times> bytes) list \<Rightarrow> 'h \<Rightarrow> 'h option" where
  "host_sends_file services encrypt name sig iv pieces s =
     (let file = concat (map fst pieces) in
      case host_request services 1 (info_fields name (length file) (md5 file) sig iv) s of
        None \<Rightarrow> None
      | Some s \<Rightarrow>
          (case host_pieces services encrypt 0 pieces s of
             None \<Rightarrow> None
           | Some s \<Rightarrow> host_request services 3 [] s))"

lemma bytes_tlv_wf: "length b < 2 ^ 15 \<Longrightarrow> 0 < length b \<Longrightarrow> wf_tlv (bytes_tlv ty b) \<and> 0 < tlv_length (bytes_tlv ty b)"
  by (simp add: wf_tlv_def bytes_tlv_def word_le_nat_alt word_less_nat_alt unat_of_nat)

lemma bytes_tlv_read:
  assumes "length b < 2 ^ 15"
  shows "tlv_type (read_tlv cleared_tlv (bytes_tlv ty b)) = ty" "pointed (read_tlv cleared_tlv (bytes_tlv ty b)) = b"
    "tlv_length (read_tlv cleared_tlv (bytes_tlv ty b)) = of_nat (length b)"
  using assms by (simp_all add: read_tlv_def bytes_tlv_def pointed_def tlv_payload_def unat_of_nat)

lemma bytes_tlv_size: "length b < 2 ^ 15 \<Longrightarrow> length (tlv_bytes (bytes_tlv ty b)) \<le> length b + 3"
  by (simp add: tlv_bytes_def length_tlv_len_bytes tlv_payload_def bytes_tlv_def unat_of_nat)

lemma request_fields:
  assumes "\<forall>t\<in>set ts. wf_tlv t \<and> 0 < tlv_length t" and "frame_size ts - 14 < 2 ^ 16"
  shows "GetTlvFromData (replicate (length ts) cleared_tlv) (length ts) (concat (map tlv_bytes ts) @ rest)
      (unat (fh_length (filled_head h ts))) = (length ts, map (read_tlv cleared_tlv) ts)"
proof -
  have len: "unat (fh_length (filled_head h ts)) = length (concat (map tlv_bytes ts))"
    using assms(2) by (simp add: filled_head_def frame_size_def unat_of_nat take_bit_nat_eq_self)
  have "map2 read_tlv (replicate (length ts) cleared_tlv) ts = map (read_tlv cleared_tlv) ts"
    by (rule nth_equalityI) simp_all
  then show ?thesis
    using GetTlvLoop_tlvs [OF assms(1), of "[]" "length ts" "replicate (length ts) cleared_tlv" "[]" rest]
    by (simp add: GetTlvFromData_def len)
qed

lemma read_u32_le32 [simp]: "read_u32 (le32 w) = w"
  by (simp add: read_u32_def le32_def)

lemma reply_frame_answers:
  assumes "\<forall>n. length (fp_malloc fp n) = n" and "\<forall>t\<in>set tlvs. wf_tlv t" and "frame_size tlvs < 2 ^ 32"
  shows "\<exists>resp. reply_frame fp sendHead tlvs s = Some (Some resp, s)"
proof -
  have "length (fp_malloc fp (unat (GetFrameTotalLength tlvs))) = frame_size tlvs"
    using assms(1,3) GetFrameTotalLength_eq [OF assms(2)] by (simp add: unat_of_nat)
  then show ?thesis using BuildFrame_eq [OF assms(2,3)] by (simp add: reply_frame_def)
qed

lemma value_reply:
  assumes "\<forall>n. length (fp_malloc fp n) = n"
  shows "\<exists>resp. reply_frame fp sendHead [value_tlv ty v] s = Some (Some resp, s)" "\<exists>resp. reply_frame fp sendHead [] s = Some (Some resp, s)"
proof -
  have "wf_tlv (value_tlv ty v)" by (simp add: wf_tlv_def value_tlv_def)
  moreover have "frame_size [value_tlv ty v] < 2 ^ 32"
    by (simp add: frame_size_def tlv_bytes_def tlv_len_bytes_def value_tlv_def tlv_payload_def)
  ultimately show "\<exists>resp. reply_frame fp sendHead [value_tlv ty v] s = Some (Some resp, s)"
    by (intro reply_frame_answers [OF assms]) simp_all
  show "\<exists>resp. reply_frame fp sendHead [] s = Some (Some resp, s)"
    by (intro reply_frame_answers [OF assms]) (simp_all add: frame_size_def)
qed


section \<open>A file arrives\<close>

text \<open>
  The file system works, nothing else writes to files, memory and a timer can be had and the battery is
  charged.
\<close>

definition files_work :: "'h file_platform \<Rightarrow> bool" where
  "files_work fp \<longleftrightarrow>
     fatfs_laws fp \<and> (\<forall>path mode h. fst (fp_f_open fp path mode h) = 0) \<and>
     (\<forall>path data h. fst (fp_f_write fp path data h) = (0, length data)) \<and>
     (\<forall>sig v name h. file_contents fp name (fp_signal fp sig v h) = file_contents fp name h) \<and>
     (\<forall>n name h. file_contents fp name (fp_set_setup_step fp n h) = file_contents fp name h) \<and>
     (\<forall>name h. file_contents fp name (fp_save_settings fp h) = file_contents fp name h) \<and>
     (\<forall>name h. file_contents fp name (fp_reboot fp h) = file_contents fp name h) \<and>
     (\<forall>n. length (fp_malloc fp n) = n) \<and> (\<forall>h. fp_timer_new fp h) \<and> (\<forall>h. LOW_BATTERY_PERCENT \<le> fp_display_percent fp h)"

lemma files_create: "files_work fp \<Longrightarrow> \<exists>h'. FatfsFileCreate fp path h = (0, h') \<and> file_contents fp path h' = Some []"
proof -
  assume works: "files_work fp"
  obtain h1 where "fp_f_open fp path FA_CREATE_ALWAYS h = (0, h1)" using works by (metis files_work_def prod.collapse)
  then have run: "FatfsFileCreate fp path h = (0, fp_f_close fp path h1)" by (simp add: FatfsFileCreate_def)
  then show ?thesis using created_file [OF _ run] works by (simp add: files_work_def)
qed

lemma files_append:
  assumes works: "files_work fp" and c: "file_contents fp path h = Some c"
  shows "\<exists>h'. FatfsFileAppend fp path data h = (0, h') \<and> file_contents fp path h' = Some (c @ data)"
proof -
  obtain h1 where h1: "fp_f_open fp path (or FA_OPEN_APPEND FA_WRITE) h = (0, h1)"
    using works by (metis files_work_def prod.collapse)
  obtain h2 where h2: "fp_f_write fp path data h1 = ((0, length data), h2)" using works by (metis files_work_def prod.collapse)
  have run: "append_file fp path data h = ((0, length data), fp_f_close fp path h2)" by (simp add: append_file_def h1 h2)
  then show ?thesis using appended_file [OF _ run c] works by (simp add: FatfsFileAppend_def files_work_def)
qed

definition file_services :: "'h platform \<Rightarrow> 'h file_platform \<Rightarrow> 'h file_service service_func option list \<Rightarrow> 'h file_service protocol_service list" where
  "file_services p fp device_info = g_ProtocolServiceList device_info (g_fileTransInfoServiceFunc p fp) (g_nftFileTransInfoServiceFunc p fp)"

lemma file_service_dispatch:
  "ExecuteService (file_services p fp di) (filled_head (host_head 1) ts) = ServiceFileTransInfo p fp (filled_head (host_head 1) ts)"
  "ExecuteService (file_services p fp di) (filled_head (host_head 2) ts) = ServiceFileTransContent p fp (filled_head (host_head 2) ts)"
  "ExecuteService (file_services p fp di) (filled_head (host_head 3) ts) = ServiceFileTransComplete p fp (filled_head (host_head 3) ts)"
  by (intro ext; simp add: file_services_def g_ProtocolServiceList_def filled_head_def host_head_def SERVICE_ID_DEVICE_INFO_def
      SERVICE_ID_FILE_TRANS_def COMMAND_ID_FILE_TRANS_MAX_def g_fileTransInfoServiceFunc_def Let_def)+

text \<open>The receiver has taken \<open>got\<close> of a file of \<open>n\<close> bytes.\<close>

definition receiving :: "'h file_platform \<Rightarrow> bytes \<Rightarrow> nat \<Rightarrow> bytes \<Rightarrow> 'h file_service \<Rightarrow> bool" where
  "receiving fp name n got s \<longleftrightarrow> g_isReceivingFile s \<and> fs_timer s \<and> \<not> g_isNftFile s \<and>
     fi_fileName (g_fileTransInfo s) = name \<and> fi_fileSize (g_fileTransInfo s) = of_nat n \<and>
     g_fileTransOffset s = of_nat (length got) \<and> file_contents fp name (fs_hw s) = Some got"

definition fitting :: "nat \<Rightarrow> nat \<Rightarrow> bytes \<Rightarrow> bytes \<Rightarrow> bool" where
  "fitting n offset data pad \<longleftrightarrow> 0 < length data \<and> 16 dvd length (data @ pad) \<and> length (data @ pad) < 2 ^ 15 \<and>
     length (data @ pad) \<le> n \<and> offset + length data \<le> n \<and> length pad \<le> 16 \<and> (pad = [] \<or> offset + length data = n)"

lemma DataDecrypt_encrypted:
  assumes "platform_ok p" and "16 dvd length x" and "length x < 2 ^ 16"
  shows "DataDecrypt p (p_cbc_encrypt p (g_dataSharedKey s) (g_dataParserIv s) x) s = x"
proof -
  have m: "length x mod 16 = 0" using assms(2) by (simp add: dvd_eq_mod_eq_0)
  have l: "length (p_cbc_encrypt p (g_dataSharedKey s) (g_dataParserIv s) x) = length x" by (rule crypto_laws(4) [OF assms(1) m])
  have "length x mod 2 ^ 16 div 16 * 16 = length x" using assms(2,3) by simp
  then show ?thesis unfolding DataDecrypt_def Let_def l by (simp only: l take_all drop_all order_refl append_Nil2 crypto_laws(5) [OF assms(1) m])
qed

lemma unat_u32: "k < 2 ^ 32 \<Longrightarrow> unat (of_nat k :: u32) = k"
  by (simp add: unat_of_nat take_bit_nat_eq_self)

lemma small_not_max: "unat (w :: u32) < 2 ^ 31 \<Longrightarrow> w \<noteq> - 1"
  by (auto simp: unsigned_minus_1_eq_mask mask_eq_exp_minus_1)

lemma content_piece_sent:
  assumes ok: "platform_ok p" and r: "receiving fp name n got s" and fit: "fitting n (length got) data pad" and n: "n < 2 ^ 23"
  shows "content_piece p s (filled_head h0 (content_fields (length got) (p_cbc_encrypt p (g_dataSharedKey s) (g_dataParserIv s) (data @ pad))))
    (concat (map tlv_bytes (content_fields (length got) (p_cbc_encrypt p (g_dataSharedKey s) (g_dataParserIv s) (data @ pad)))) @ rest) = Some data"
    (is "content_piece p s (filled_head h0 ?ts) ?data = _")
proof -
  let ?enc = "p_cbc_encrypt p (g_dataSharedKey s) (g_dataParserIv s) (data @ pad)"
  note f = fit [unfolded fitting_def]
  have "length (data @ pad) mod 16 = 0" using f by (simp add: dvd_eq_mod_eq_0)
  then have el: "length ?enc = length (data @ pad)" by (rule crypto_laws(4) [OF ok])
  then have e: "length ?enc < 2 ^ 15" "0 < length ?enc" using f by simp_all
  have wf: "\<forall>t\<in>set ?ts. wf_tlv t \<and> 0 < tlv_length t" using bytes_tlv_wf [OF e] bytes_tlv_wf [of "le32 (of_nat (length got))"] by (simp add: content_fields_def)
  have "frame_size ?ts - 14 < 2 ^ 16"
    using bytes_tlv_size [OF e(1), of TYPE_FILE_INFO_FILE_DATA] bytes_tlv_size [of "le32 (of_nat (length got))" TYPE_FILE_INFO_FILE_OFFSET] e(1)
    by (simp add: frame_size_def content_fields_def)
  moreover have two: "length ?ts = 2" by (simp add: content_fields_def)
  ultimately
  have get: "GetTlvFromData (replicate 2 cleared_tlv) 2 ?data (unat (fh_length (filled_head h0 ?ts))) = (2, map (read_tlv cleared_tlv) ?ts)"
    using request_fields [OF wf, of rest h0] by (simp only: two)
  have read: "read_content (map (read_tlv cleared_tlv) ?ts) (- 1, None) = Some (of_nat (length got), Some ?enc)"
    using e(1) by (simp add: content_fields_def bytes_tlv_read TYPE_FILE_INFO_FILE_OFFSET_def TYPE_FILE_INFO_FILE_DATA_def)
  have dec: "DataDecrypt p ?enc s = data @ pad" using f by (intro DataDecrypt_encrypted [OF ok]) simp_all
  then have dec1: "DataDecrypt p (p_cbc_encrypt p (g_dataSharedKey s) (g_dataParserIv s) data) s = data" if "pad = []" using that by simp
  let ?o = "of_nat (length got) :: u32" and ?L = "of_nat (length ?enc) :: u32"
  have u1: "unat ?o = length got" "unat (of_nat n :: u32) = n"
    by (rule unat_u32; use f n in simp)+
  have u2: "unat ?L = length (data @ pad)" unfolding el by (rule unat_u32; use f n in simp)
  note u = u1 u2
  have sum: "unat (?o + ?L) = length got + length (data @ pad)"
    using u f n by (simp add: unat_word_ariths)
  have info: "fi_fileSize (g_fileTransInfo s) = of_nat n" "g_fileTransOffset s = ?o" "\<not> g_isNftFile s"
    using r by (simp_all add: receiving_def)
  have tail: "of_nat n < ?o + ?L \<longleftrightarrow> pad \<noteq> []" using f by (auto simp: word_less_nat_alt sum u)
  have small: "?o + ?L - of_nat n \<le> 16" if "pad \<noteq> []"
    using that tail f by (auto simp add: word_le_nat_alt unat_sub word_less_nat_alt sum u)
  have ne1: "?o \<noteq> - 1" "?L \<noteq> - 1" by (rule small_not_max; use f n u in simp)+
  have "0 < unat ?L" using f u by simp
  then have ne2: "?L \<noteq> 0" by (metis unsigned_0 less_irrefl)
  have ne3: "?o \<le> of_nat n" "?L \<le> of_nat n" unfolding word_le_nat_alt u using f by simp_all
  note ne = ne1 ne2 ne3
  have rest: "unat (of_nat n - ?o) = n - length got" using ne(4) by (simp add: unat_sub u)
  have "content_piece p s (filled_head h0 ?ts) ?data = Some (if pad \<noteq> [] then take (n - length got) (data @ pad) else data @ pad)"
    unfolding content_piece_def get prod.case Let_def two take_all [OF eq_imp_le [OF length_map [of _ ?ts, unfolded two]]] read
    using ne info by (auto simp add: dec dec1 tail small rest not_less)
  moreover have "take (n - length got) (data @ pad) = data" if "pad \<noteq> []" using that f by auto
  ultimately show ?thesis by simp
qed

text \<open>What stays while pieces arrive.\<close>

definition same_transfer :: "'h file_service \<Rightarrow> 'h file_service \<Rightarrow> bool" where
  "same_transfer s s' \<longleftrightarrow> g_dataSharedKey s' = g_dataSharedKey s \<and> g_dataParserIv s' = g_dataParserIv s \<and>
     g_fileTransInfo s' = g_fileTransInfo s"

lemma content_piece_timer: "content_piece p (s\<lparr>fs_timer_running := b\<rparr>) = content_piece p s"
  by (intro ext) (simp add: content_piece_def DataDecrypt_def Let_def split: prod.split option.split)

lemma content_arrives:
  assumes ok: "platform_ok p" and works: "files_work fp" and r: "receiving fp name n got s" and fit: "fitting n (length got) data pad"
    and n: "n < 2 ^ 23"
  shows "\<exists>s'. host_request (file_services p fp di) 2
      (content_fields (length got) (p_cbc_encrypt p (g_dataSharedKey s) (g_dataParserIv s) (data @ pad))) s = Some s' \<and>
    receiving fp name n (got @ data) s' \<and> same_transfer s s' \<and> g_md5Ctx s' = MD5_Update data (g_md5Ctx s)"
proof -
  let ?ts = "content_fields (length got) (p_cbc_encrypt p (g_dataSharedKey s) (g_dataParserIv s) (data @ pad))"
  let ?head = "filled_head (host_head 2) ?ts"
  have malloc: "\<forall>n. length (fp_malloc fp n) = n" using works by (simp add: files_work_def)
  let ?s1 = "s\<lparr>fs_timer_running := True, g_fileTransOffset := g_fileTransOffset s + of_nat (length data)\<rparr>"
  obtain h where append: "FatfsFileAppend fp name data (fs_hw s) = (0, h)"
    and written: "file_contents fp name h = Some (got @ data)"
    using files_append [OF works, of name "fs_hw s" got data] r by (auto simp: receiving_def)
  let ?s2 = "(on_files (\<lambda>_. h) ?s1)\<lparr>g_md5Ctx := MD5_Update data (g_md5Ctx s)\<rparr>"
  obtain resp where reply: "GetFileContent fp ?head (g_fileTransOffset ?s1) ?s2 = Some (Some resp, ?s2)"
    using value_reply(1) [OF malloc] unfolding GetFileContent_def by blast
  have fields: "g_isReceivingFile s" "fs_timer s" "fi_fileName (g_fileTransInfo s) = name" using r by (simp_all add: receiving_def)
  have hw1: "fs_hw ?s1 = fs_hw s" by (simp add: fs_hw_def)
  have "host_request (file_services p fp di) 2 ?ts s = Some ?s2"
    using content_piece_sent [OF ok r fit n, of "host_head 2"] fields append reply hw1
    by (simp add: host_request_def file_service_dispatch ServiceFileTransContent_def content_piece_timer Let_def)
  moreover have "receiving fp name n (got @ data) ?s2"
    using r written by (simp add: receiving_def fs_hw_def on_files_def)
  ultimately show ?thesis by (intro exI [of _ ?s2]) (simp add: same_transfer_def)
qed

fun pieces_fit :: "nat \<Rightarrow> nat \<Rightarrow> (bytes \<times> bytes) list \<Rightarrow> bool" where
  "pieces_fit n offset [] \<longleftrightarrow> True"
| "pieces_fit n offset ((data, pad) # pieces) \<longleftrightarrow> fitting n offset data pad \<and> pieces_fit n (offset + length data) pieces"

lemma pieces_arrive:
  assumes ok: "platform_ok p" and works: "files_work fp" and n: "n < 2 ^ 23"
  shows "receiving fp name n got s \<Longrightarrow> pieces_fit n (length got) pieces \<Longrightarrow> g_dataSharedKey s = key \<Longrightarrow> g_dataParserIv s = iv \<Longrightarrow>
   \<exists>s'. host_pieces (file_services p fp di) (p_cbc_encrypt p key iv) (length got) pieces s = Some s' \<and>
     receiving fp name n (got @ concat (map fst pieces)) s' \<and> same_transfer s s' \<and>
     g_md5Ctx s' = fold MD5_Update (map fst pieces) (g_md5Ctx s)"
proof (induction pieces arbitrary: got s)
  case Nil
  then show ?case by (simp add: same_transfer_def)
next
  case (Cons piece pieces)
  obtain data pad where piece: "piece = (data, pad)" by fastforce
  from Cons.prems have fit: "fitting n (length got) data pad" "pieces_fit n (length (got @ data)) pieces" by (simp_all add: piece)
  obtain s1 where s1: "host_request (file_services p fp di) 2 (content_fields (length got) (p_cbc_encrypt p key iv (data @ pad))) s = Some s1"
    "receiving fp name n (got @ data) s1" "same_transfer s s1" "g_md5Ctx s1 = MD5_Update data (g_md5Ctx s)"
    using content_arrives [OF ok works Cons.prems(1) fit(1) n, of di] Cons.prems(3,4) by auto
  have "g_dataSharedKey s1 = key" "g_dataParserIv s1 = iv" using s1(3) Cons.prems(3,4) by (simp_all add: same_transfer_def)
  from Cons.IH [OF s1(2) fit(2) this] s1 show ?case
    by (fastforce simp: piece same_transfer_def)
qed

text \<open>The announcement.\<close>

lemma count_accounts_state: "\<exists>r. count_accounts p accounts num h = Some (r, h)"
  by (induction accounts arbitrary: num) (auto simp: succeed_def seq_def SE_HmacEncryptRead_def case_prod_beta split: sum.split)

lemma exist_accounts_state: "\<exists>r. GetExistAccountNum p d = Some (r, d)"
  using count_accounts_state [of p "[0, 1, 2]" 0 "hw d"] by (auto simp: GetExistAccountNum_def on_hw_def)

definition announced :: "bytes \<Rightarrow> nat \<Rightarrow> bytes \<Rightarrow> bytes \<Rightarrow> bytes \<Rightarrow> file_trans_info" where
  "announced name n digest sig iv =
     \<lparr>fi_fileName = cstr ''1:'' @ name, fi_fileSize = of_nat n, fi_md5 = digest, fi_iv = iv, fi_signature = sig\<rparr>"

lemma name_taken:
  assumes "name \<in> {cstr ''keystone3.bin'', cstr ''nft.bin''}"
  shows "ValidateAndSetFileName (read_tlv cleared_tlv (bytes_tlv ty (name @ [0]))) info = Some (True, info\<lparr>fi_fileName := cstr ''1:'' @ name\<rparr>)"
proof -
  let ?t = "read_tlv cleared_tlv (bytes_tlv ty (name @ [0]))"
  have "length (name @ [0]) < 2 ^ 15" using assms by (auto simp: cstr_def)
  note t = bytes_tlv_read [OF this, of ty]
  have "takeWhile (\<lambda>c. c \<noteq> 0) (name @ [0]) = name" "strnlen_s name MAX_FILE_NAME_LENGTH = length name" "length name < 20"
    "length (cstr ''1:'') = 2"
    using assms by (auto simp: cstr_def strnlen_s_def MAX_FILE_NAME_LENGTH_def)
  moreover from this have "unat (tlv_length ?t) = length name + 1"
    unfolding t(3) unat_of_nat by simp
  ultimately show ?thesis using assms
    by (simp add: ValidateAndSetFileName_def Let_def t(2) MAX_FILE_NAME_LENGTH_def)
qed

lemma info_read:
  assumes "name \<in> {cstr ''keystone3.bin'', cstr ''nft.bin''}" and "length digest = 16" and "length sig = 64" and "length iv = 16"
  shows "read_file_info (map (read_tlv cleared_tlv) (info_fields name n digest sig iv)) cleared_file_info = Some (True, announced name n digest sig iv)"
proof -
  have l: "length digest < 2 ^ 15" "length sig < 2 ^ 15" "length iv < 2 ^ 15" "length (le32 (of_nat n)) < 2 ^ 15" "length (name @ [0]) < 2 ^ 15"
    using assms by (auto simp: cstr_def)
  show ?thesis
    using assms by (auto simp add: info_fields_def name_taken bytes_tlv_read(1) [OF l(1)] bytes_tlv_read(2) [OF l(1)] bytes_tlv_read(3) [OF l(1)]
      bytes_tlv_read [OF l(2)] bytes_tlv_read [OF l(3)] bytes_tlv_read [OF l(4)] bytes_tlv_read(1) [OF l(5), unfolded append.simps]
      TYPE_FILE_INFO_FILE_NAME_def TYPE_FILE_INFO_FILE_SIZE_def TYPE_FILE_INFO_FILE_MD5_def
      TYPE_FILE_INFO_FILE_SIGN_def TYPE_FILE_INFO_FILE_IV_def announced_def cleared_file_info_def memcpy_s_def buf_write_def)
qed

lemma announcement_accepted:
  assumes works: "files_work fp" and name: "name \<in> {cstr ''keystone3.bin'', cstr ''nft.bin''}"
    and len: "length digest = 16" "length sig = 64" "length iv = 16" "length (g_dataParserIv s) = 16"
    and n: "0 < n" "n < 2 ^ 23" and signed: "fp_verify_signature fp sig (p_sha256 p digest) g_webUsbPubKey"
    and s: "g_currentAccountIndex (fs_device s) \<noteq> ACCOUNT_INDEX_LOGOUT" "\<not> g_isNftFile s"
  shows "\<exists>s'. host_request (file_services p fp di) 1 (info_fields name n digest sig iv) s = Some s' \<and>
    receiving fp (cstr ''1:'' @ name) n [] s' \<and> g_fileTransInfo s' = announced name n digest sig iv \<and>
    g_dataSharedKey s' = g_dataSharedKey s \<and> g_dataParserIv s' = iv \<and> g_md5Ctx s' = MD5_Init (g_md5Ctx s)"
proof -
  let ?ts = "info_fields name n digest sig iv" and ?nm = "cstr ''1:'' @ name"
  let ?head = "filled_head (host_head 1) ?ts"
  let ?s1 = "s\<lparr>g_fileTransOffset := 0, g_fileTransInfo := announced name n digest sig iv, g_dataParserIv := iv\<rparr>"
  have l: "length digest < 2 ^ 15" "length sig < 2 ^ 15" "length iv < 2 ^ 15" "length (le32 (of_nat n)) < 2 ^ 15" "length (name @ [0]) < 2 ^ 15"
    using len name by (auto simp: cstr_def)
  have wf: "\<forall>t\<in>set ?ts. wf_tlv t \<and> 0 < tlv_length t"
    using len by (simp add: info_fields_def bytes_tlv_wf l del: append.simps) (simp add: bytes_tlv_wf [OF l(5)])
  have "length name < 20" using name by (auto simp: cstr_def)
  then have size: "frame_size ?ts - 14 < 2 ^ 16"
    using bytes_tlv_size [OF l(1), of TYPE_FILE_INFO_FILE_MD5] bytes_tlv_size [OF l(2), of TYPE_FILE_INFO_FILE_SIGN]
      bytes_tlv_size [OF l(3), of TYPE_FILE_INFO_FILE_IV] bytes_tlv_size [OF l(4), of TYPE_FILE_INFO_FILE_SIZE]
      bytes_tlv_size [OF l(5), of TYPE_FILE_INFO_FILE_NAME] len
    by (simp add: frame_size_def info_fields_def)
  have "length ?ts = 5" by (simp add: info_fields_def)
  with request_fields [OF wf size] have get: "GetTlvFromData (replicate 5 cleared_tlv) 5 (concat (map tlv_bytes ?ts) @ rest) (unat (fh_length ?head))
    = (5, map (read_tlv cleared_tlv) ?ts)" for rest by simp
  have take5: "take 5 (map (read_tlv cleared_tlv) ?ts) = map (read_tlv cleared_tlv) ?ts" by (simp add: info_fields_def)
  have iv: "SetDeviceParserIv (fi_iv (announced name n digest sig iv)) (s\<lparr>g_fileTransOffset := 0, g_fileTransInfo := announced name n digest sig iv\<rparr>) = ?s1"
    using len by (auto simp: SetDeviceParserIv_def announced_def memcpy_s_def buf_write_def)
  obtain r where accounts: "GetExistAccountNum p (fs_device s) = Some (r, fs_device s)" using exist_accounts_state by blast
  obtain h where create: "FatfsFileCreate fp ?nm (fs_hw s) = (0, h)" and empty: "file_contents fp ?nm h = Some []"
    using files_create [OF works] by blast
  have malloc: "\<forall>n. length (fp_malloc fp n) = n" using works by (simp add: files_work_def)
  let ?s2 = "(file_timer fp (on_files (fp_signal fp SIG_INIT_FIRMWARE_PROCESS 1) (on_files (\<lambda>_. h) (?s1\<lparr>g_md5Ctx := MD5_Init (g_md5Ctx s)\<rparr>))))\<lparr>g_isReceivingFile := True\<rparr>"
  have nm: "strnlen_s ?nm MAX_FILE_NAME_LENGTH \<noteq> 0" by (simp add: strnlen_s_def cstr_def MAX_FILE_NAME_LENGTH_def)
  have size_ok: "(of_nat n :: u32) \<noteq> 0" "\<not> (of_nat n :: u32) \<ge> MAX_FILE_SIZE"
    using n by (auto simp: MAX_FILE_SIZE_def word_le_nat_alt unat_u32 word_eq_iff_unsigned [where 'a = nat])
  have same: "fs_device ?s1 = fs_device s" "fs_hw (?s1\<lparr>g_md5Ctx := m\<rparr>) = fs_hw s" "?s1\<lparr>fs_device := fs_device s\<rparr> = ?s1" for m by (simp_all add: fs_hw_def)
  have "accept_file fp ?s1 = (0, ?s2)"
    using s(2) create by (simp add: accept_file_def Let_def same announced_def)
  moreover have "\<not> fp_display_percent fp (hw (fs_device s)) < LOW_BATTERY_PERCENT" using works by (simp add: files_work_def not_less)
  ultimately have judge: "judge_file p fp ?s1 = Some (0, ?s2)"
    using nm size_ok signed s(1) accounts by (simp add: judge_file_def Let_def announced_def)
  obtain resp where reply: "reply_frame fp (reply_head ?head (fh_serviceId ?head) (fh_commandId ?head)) [value_tlv TYPE_GENERAL_RESULT_ACK 0] ?s2 = Some (Some resp, ?s2)"
    using value_reply(1) [OF malloc] by blast
  have "host_request (file_services p fp di) 1 ?ts s = Some ?s2"
    unfolding host_request_def Let_def file_service_dispatch ServiceFileTransInfo_def get prod.case take5 info_read [OF name len(1-3)] iv
    by (simp add: iv judge reply del: One_nat_def)
  moreover have "receiving fp ?nm n [] ?s2"
    using s(2) works empty by (simp add: receiving_def announced_def files_work_def)
  ultimately show ?thesis by (intro exI [of _ ?s2]) simp
qed

lemma completion:
  assumes works: "files_work fp" and r: "receiving fp nm n got s" and correct: "file_correct p fp s"
  shows "\<exists>s'. host_request (file_services p fp di) 3 [] s = Some s' \<and> file_contents fp nm (fs_hw s') = Some got \<and> \<not> g_isReceivingFile s'"
proof -
  let ?s1 = "s\<lparr>g_isReceivingFile := False, fs_timer_running := False, g_md5Ctx := cleared_md5_ctx\<rparr>"
  let ?s2 = "on_files (fp_reboot fp) (on_files (fp_save_settings fp) (on_files (fp_set_setup_step fp 4)
    (on_files (fp_signal fp SIG_INIT_FIRMWARE_PROCESS 0) ?s1)))"
  let ?head = "filled_head (host_head 3) []"
  have malloc: "\<forall>n. length (fp_malloc fp n) = n" using works by (simp add: files_work_def)
  obtain resp where reply: "reply_frame fp (reply_head ?head (fh_serviceId ?head) (fh_commandId ?head)) [] ?s2 = Some (Some resp, ?s2)"
    using value_reply(2) [OF malloc] by blast
  have "host_request (file_services p fp di) 3 [] s = Some ?s2"
    using r correct reply by (simp add: host_request_def file_service_dispatch ServiceFileTransComplete_def receiving_def Let_def)
  moreover have "file_contents fp nm (fs_hw ?s2) = Some got" using r works by (simp add: receiving_def files_work_def)
  ultimately show ?thesis by (intro exI [of _ ?s2]) simp
qed

lemma length_md5: "length (md5 msg) = 16"
  by (simp add: md5_def md5_output_def split: prod.split)

lemma pieces_short: "pieces_fit n offset pieces \<Longrightarrow> \<forall>data\<in>set (map fst pieces). length data < 2 ^ 32"
proof (induction pieces arbitrary: offset)
  case (Cons piece pieces)
  then have "length (fst piece) < 2 ^ 32" "pieces_fit n (offset + length (fst piece)) pieces"
    by (cases piece; simp add: fitting_def)+
  with Cons.IH show ?case by simp
qed simp

text \<open>
  C18: A host that announces a firmware with a valid signature of its digest, sends it in pieces of whole blocks
  under the shared key, each padded as needed, and completes the transfer, gets a response to every request, and the file
  then holds exactly the firmware.
\<close>

theorem sent_file_arrives:
  assumes ok: "platform_ok p" and works: "files_work fp"
    and name: "name \<in> {cstr ''keystone3.bin'', cstr ''nft.bin''}"
    and fit: "pieces_fit (length content) 0 pieces" and whole: "content = concat (map fst pieces)" "0 < length content" "length content < 2 ^ 23"
    and len: "length sig = 64" "length iv = 16" "length (g_dataParserIv s) = 16" "length (md5_buffer (g_md5Ctx s)) = 64"
    and signed: "fp_verify_signature fp sig (p_sha256 p (md5 content)) g_webUsbPubKey"
    and s: "g_currentAccountIndex (fs_device s) \<noteq> ACCOUNT_INDEX_LOGOUT" "\<not> g_isNftFile s"
  shows "\<exists>s'. host_sends_file (file_services p fp di) (p_cbc_encrypt p (g_dataSharedKey s) iv) name sig iv pieces s = Some s' \<and>
    file_contents fp (cstr ''1:'' @ name) (fs_hw s') = Some content \<and> \<not> g_isReceivingFile s'"
proof -
  have digest: "length (md5 content) = 16" by (simp add: length_md5)
  obtain s1 where s1: "host_request (file_services p fp di) 1 (info_fields name (length content) (md5 content) sig iv) s = Some s1"
    "receiving fp (cstr ''1:'' @ name) (length content) [] s1" "g_fileTransInfo s1 = announced name (length content) (md5 content) sig iv"
    "g_dataSharedKey s1 = g_dataSharedKey s" "g_dataParserIv s1 = iv" "g_md5Ctx s1 = MD5_Init (g_md5Ctx s)"
    using announcement_accepted [OF works name digest len(1-3) whole(2,3) signed s] by blast
  obtain s2 where s2: "host_pieces (file_services p fp di) (p_cbc_encrypt p (g_dataSharedKey s) iv) 0 pieces s1 = Some s2"
    "receiving fp (cstr ''1:'' @ name) (length content) content s2" "same_transfer s1 s2"
    "g_md5Ctx s2 = fold MD5_Update (map fst pieces) (MD5_Init (g_md5Ctx s))"
    using pieces_arrive [OF ok works whole(3) s1(2), of pieces "g_dataSharedKey s" iv di] fit s1(4-6) whole(1) by auto
  have "MD5_Final (g_md5Ctx s2) = md5 content"
    using md5_pieces [OF len(4) pieces_short [OF fit]] unfolding s2(4) whole(1) by (intro MD5_Final_md5) blast+
  then have "file_correct p fp s2" using s2(3) s1(3) signed by (simp add: file_correct_def same_transfer_def announced_def)
  then obtain s' where "host_request (file_services p fp di) 3 [] s2 = Some s'"
    "file_contents fp (cstr ''1:'' @ name) (fs_hw s') = Some content" "\<not> g_isReceivingFile s'"
    using completion [OF works s2(2)] by blast
  then show ?thesis using s1(1) s2(1) by (simp add: host_sends_file_def whole(1) [symmetric])
qed

section \<open>An example\<close>

text \<open>
  Files are pages of the example hardware after the first thousand, and a signature is good when it starts with the digest
  it signs.
\<close>

definition file_page :: "bytes \<Rightarrow> nat" where
  "file_page name = 1000 + fold (\<lambda>c n. 256 * n + unat c + 1) name 0"

definition example_files :: "example_hw file_platform" where
  "example_files = \<lparr>
     fp_f_open = (\<lambda>name mode h. (0, if mode = FA_CREATE_ALWAYS then h\<lparr>x_pages := (x_pages h)(file_page name := [])\<rparr> else h)),
     fp_f_write = (\<lambda>name d h. ((0, length d), h\<lparr>x_pages := (x_pages h)(file_page name := x_pages h (file_page name) @ d)\<rparr>)),
     fp_f_close = (\<lambda>name h. h),
     fp_f_unlink = (\<lambda>name h. (0, h\<lparr>x_pages := (x_pages h)(file_page name := [])\<rparr>)),
     fp_open = (\<lambda>name h. 0), fp_size = (\<lambda>name h. length (x_pages h (file_page name))),
     fp_read = (\<lambda>name off n h. (0, take n (drop off (x_pages h (file_page name))))),
     fp_verify_signature = (\<lambda>sig digest key. take (length digest) sig = digest),
     fp_pubkey = fit 33, fp_ecdh = (\<lambda>k w. Some (fit 32 k)), fp_display_percent = (\<lambda>h. 80),
     fp_signal = (\<lambda>sig v h. h), fp_timer_new = (\<lambda>h. True), fp_set_setup_step = (\<lambda>n h. h), fp_set_nft_valid = (\<lambda>b h. h),
     fp_save_settings = id, fp_reboot = id, fp_sector_erase = (\<lambda>a h. h), fp_flash_write = (\<lambda>a d h. h),
     fp_malloc = (\<lambda>n. replicate n 0)\<rparr>"

definition example_service :: "example_hw file_service" where
  "example_service = \<lparr>fs_device = (power_on example_start)\<lparr>g_currentAccountIndex := 0\<rparr>, g_fileTransInfo = cleared_file_info,
     g_fileTransOffset = 0, g_md5Ctx = cleared_md5_ctx, g_isReceivingFile = False, g_isNftFile = False, fs_timer = False,
     fs_timer_running = False, g_dataSharedKey = replicate 32 9, g_dataParserIv = replicate 16 0, g_dataParserPubKey = replicate 33 0\<rparr>"

lemma example_fatfs: "fatfs_laws example_files"
  by (auto simp: fatfs_laws_def file_contents_def example_files_def FA_CREATE_ALWAYS_def FA_OPEN_APPEND_def FA_WRITE_def)

lemma example_files_work: "files_work example_files"
  using example_fatfs by (simp add: files_work_def) (simp add: file_contents_def example_files_def LOW_BATTERY_PERCENT_def)

lemma example_file_laws: "file_laws example_platform example_files"
  using example_fatfs by (simp add: file_laws_def) (simp add: file_contents_def example_files_def example_platform_def)

lemma example_signed:
  "fp_verify_signature example_files (fit 64 (md5 m)) (p_sha256 example_platform (md5 m)) g_webUsbPubKey"
  using length_md5 [of m] by (simp add: example_files_def example_platform_def fit_def)

lemma example_service_ready:
  "length (g_dataParserIv example_service) = 16" "length (md5_buffer (g_md5Ctx example_service)) = 64"
  "g_currentAccountIndex (fs_device example_service) \<noteq> ACCOUNT_INDEX_LOGOUT" "\<not> g_isNftFile example_service"
  "g_dataSharedKey example_service = replicate 32 9" "\<not> g_isReceivingFile example_service"
  by (simp_all add: example_service_def cleared_md5_ctx_def ACCOUNT_INDEX_LOGOUT_def)

definition example_pieces :: "(bytes \<times> bytes) list" where
  "example_pieces = [(replicate 32 1, []), (replicate 4 2, replicate 12 0)]"

lemma example_pieces_fit: "pieces_fit (length (concat (map fst example_pieces))) 0 example_pieces" "length (concat (map fst example_pieces)) = 36"
  by (simp_all add: example_pieces_def fitting_def)

lemma sent_file_arrives_witness:
  "\<exists>s'. host_sends_file (file_services example_platform example_files []) (p_cbc_encrypt example_platform (replicate 32 9) (replicate 16 3))
      (cstr ''keystone3.bin'') (fit 64 (md5 (replicate 32 1 @ replicate 4 2))) (replicate 16 3) example_pieces example_service = Some s' \<and>
    file_contents example_files (cstr ''1:'' @ cstr ''keystone3.bin'') (fs_hw s') = Some (replicate 32 1 @ replicate 4 2) \<and> \<not> g_isReceivingFile s'"
proof -
  have whole: "replicate 32 1 @ replicate 4 2 = concat (map fst example_pieces)" by (simp add: example_pieces_def)
  show ?thesis unfolding whole example_service_ready(5) [symmetric]
    by (rule sent_file_arrives [OF example_platform_ok example_files_work _ example_pieces_fit(1) refl _ _ _ _ example_service_ready(1,2) _ example_service_ready(3,4)])
      (simp_all add: example_pieces_fit example_signed)
qed

text \<open>A requested transfer, seen as requests.\<close>

lemma accepted_verdict:
  assumes run: "ServiceFileTransInfo p fp head tlvData s = Some (Some r, s')" and started: "g_isReceivingFile s'"
    and idle: "\<not> g_isReceivingFile s"
  shows "verdict p fp head tlvData s = Some 0"
proof -
  obtain n arr where get: "GetTlvFromData (replicate 5 cleared_tlv) 5 tlvData (unat (fh_length head)) = (n, arr)" by fastforce
  obtain finfo where read: "read_file_info (take n arr) cleared_file_info = Some (True, finfo)"
    using run by (auto simp: ServiceFileTransInfo_def get Let_def split: option.splits if_splits)
  let ?s = "SetDeviceParserIv (fi_iv finfo) (s\<lparr>g_fileTransOffset := 0, g_fileTransInfo := finfo\<rparr>)"
  obtain result where judge: "judge_file p fp ?s = Some (result, s')"
    using run by (auto simp: ServiceFileTransInfo_def get Let_def read split: option.splits dest: reply_frame_state)
  have "\<not> g_isReceivingFile ?s" using idle by (simp add: SetDeviceParserIv_def)
  then have "result = 0" using judge started
    by (auto simp: judge_file_def accept_file_def Let_def split: option.splits if_splits prod.splits)
  then show ?thesis using judge by (simp add: verdict_def get read)
qed

lemma host_request_served:
  "host_request services c ts s = Some s' \<Longrightarrow>
   \<exists>resp. ExecuteService services (filled_head (host_head c) ts) (concat (map tlv_bytes ts) @ le32 (crc32_ieee 0 (frame_body (host_head c) ts))) s
     = Some (Some resp, s')"
  by (auto simp: host_request_def Let_def split: option.splits prod.splits)

lemma completed_is_signed_witness:
  "\<exists>s head tlvData resp s'. digested example_platform example_files s [replicate 16 1] True \<and>
    ServiceFileTransComplete example_platform example_files head tlvData s = Some (Some resp, s') \<and>
    md5 (replicate 16 1) = fi_md5 (g_fileTransInfo s) \<and>
    fp_verify_signature example_files (fi_signature (g_fileTransInfo s)) (p_sha256 example_platform (md5 (replicate 16 1))) g_webUsbPubKey \<and>
    file_contents example_files (fi_fileName (g_fileTransInfo s)) (fs_hw s) = Some (replicate 16 1)"
proof -
  let ?p = example_platform and ?fp = example_files and ?iv = "replicate 16 3" and ?m = "replicate 16 1 :: bytes"
  let ?nm = "cstr ''1:'' @ cstr ''keystone3.bin''"
  note ok = example_platform_ok and works = example_files_work
  obtain s1 where s1: "host_request (file_services ?p ?fp []) 1 (info_fields (cstr ''keystone3.bin'') 16 (md5 ?m) (fit 64 (md5 ?m)) ?iv) example_service = Some s1"
    "receiving ?fp ?nm 16 [] s1" "g_fileTransInfo s1 = announced (cstr ''keystone3.bin'') 16 (md5 ?m) (fit 64 (md5 ?m)) ?iv"
    "g_md5Ctx s1 = MD5_Init (g_md5Ctx example_service)"
    using announcement_accepted [OF works, of "cstr ''keystone3.bin''" "md5 ?m" "fit 64 (md5 ?m)" ?iv example_service 16 ?p "[]"]
    by (auto simp: example_service_ready length_md5 example_signed)
  have fit: "fitting 16 (length ([] :: bytes)) ?m []" by (simp add: fitting_def)
  let ?ts = "content_fields (length ([] :: bytes)) (p_cbc_encrypt ?p (g_dataSharedKey s1) (g_dataParserIv s1) (?m @ []))"
  obtain s2 where s2: "host_request (file_services ?p ?fp []) 2 ?ts s1 = Some s2" "receiving ?fp ?nm 16 ([] @ ?m) s2"
    "same_transfer s1 s2" "g_md5Ctx s2 = MD5_Update ?m (g_md5Ctx s1)"
    using content_arrives [OF ok works s1(2) fit, of "[]"] by auto
  have start: "digested ?p ?fp example_service [] False" by (rule digested.start) (simp_all add: example_service_ready)
  obtain head1 tlvData1 r1 where info: "ServiceFileTransInfo ?p ?fp head1 tlvData1 example_service = Some (Some r1, s1)"
    using host_request_served [OF s1(1)] by (auto simp: file_service_dispatch)
  have "verdict ?p ?fp head1 tlvData1 example_service = Some 0"
    by (rule accepted_verdict [OF info]) (use s1(2) in \<open>simp_all add: receiving_def example_service_ready\<close>)
  then have reach1: "digested ?p ?fp s1 [] True" using digested.info [OF start info] by (simp add: restarts_def)
  obtain head2 tlvData2 r2 where content: "ServiceFileTransContent ?p ?fp head2 tlvData2 s1 = Some (Some r2, s2)"
    "content_piece ?p s1 head2 tlvData2 = Some ?m"
    using host_request_served [OF s2(1)] content_piece_sent [OF ok s1(2) fit] by (auto simp: file_service_dispatch)
  have "\<not> append_fails ?p ?fp head2 tlvData2 s1" using content(2) by (simp add: append_fails_def append_file_def example_files_def)
  then have reach: "digested ?p ?fp s2 [?m] True" using digested.content [OF reach1 content(1)] content(2) by simp
  have "MD5_Final (g_md5Ctx s2) = md5 ?m"
    using md5_pieces [of "g_md5Ctx example_service" "[?m]"] unfolding s2(4) s1(4)
    by (intro MD5_Final_md5) (simp_all add: example_service_ready)
  then have "file_correct ?p ?fp s2" using s2(3) s1(3) by (simp add: file_correct_def same_transfer_def announced_def example_signed)
  from completion [OF works s2(2) this, of "[]"] obtain s3 where "host_request (file_services ?p ?fp []) 3 [] s2 = Some s3" by blast
  from host_request_served [OF this] obtain head tlvData resp where
    "ServiceFileTransComplete ?p ?fp head tlvData s2 = Some (Some resp, s3)" by (auto simp: file_service_dispatch)
  with completed_is_signed [OF ok example_file_laws reach, of head tlvData resp s3] reach show ?thesis by fastforce
qed

end
