(* ===== verification/Ds28s60.thy ===== *)
theory Ds28s60
  imports SeManager
begin

text \<open>
  The driver of the first secure element, \<^verbatim>\<open>src/driver/drv_ds28s60.c\<close>: commands over the serial bus, pages
  that are read encrypted and written encrypted and authenticated under a key that chip and device share,
  the authentication of the chip and the binding of a new one. The chip is a parameter: what it clocks out
  after the bytes it has received while it was selected. Delays, the power of the memory and the clearing
  of local buffers are left out, as are the prints and the commands for the test console.
\<close>

section \<open>The driver's state\<close>

record ds28s60_info =
  ROMID :: bytes
  MANID :: bytes
  valid :: u8

record 'h ds28s60 =
  ds_hw :: 'h
  g_ds28s60Info :: ds28s60_info

type_synonym 'h ds_bus = "bytes \<Rightarrow> 'h \<Rightarrow> (nat \<Rightarrow> u8) \<times> 'h"

record block_protection =
  Secret_byte :: u8
  Prot_byte :: u8

definition Prot_RP :: u8 where "Prot_RP = 1"
definition Prot_WP :: u8 where "Prot_WP = 2"
definition Prot_APH :: u8 where "Prot_APH = 4"
definition Prot_EPH :: u8 where "Prot_EPH = 8"

definition prot_bit :: "u8 \<Rightarrow> block_protection \<Rightarrow> bool" where
  "prot_bit m b \<longleftrightarrow> Prot_byte b AND m \<noteq> 0"

definition ERR_DS28S60_OVERTIME :: int where "ERR_DS28S60_OVERTIME = 2"
definition ERR_DS28S60_UNEXPECTLEN :: int where "ERR_DS28S60_UNEXPECTLEN = 3"
definition ERR_DS28S60_INFO :: int where "ERR_DS28S60_INFO = 4"
definition ERR_DS28S60_AUTH :: int where "ERR_DS28S60_AUTH = 5"
definition ERR_DS28S60_BIND :: int where "ERR_DS28S60_BIND = 6"

definition DS28S60_CMD_READ_MEM :: u8 where "DS28S60_CMD_READ_MEM = 0x44"
definition DS28S60_CMD_WRITE_MEM :: u8 where "DS28S60_CMD_WRITE_MEM = 0x96"
definition DS28S60_CMD_READ_PROTECTION :: u8 where "DS28S60_CMD_READ_PROTECTION = 0xAA"
definition DS28S60_CMD_SET_PROTECTION :: u8 where "DS28S60_CMD_SET_PROTECTION = 0xC3"
definition DS28S60_CMD_ENC_READ :: u8 where "DS28S60_CMD_ENC_READ = 0x4B"
definition DS28S60_CMD_AUTH_WRITE :: u8 where "DS28S60_CMD_AUTH_WRITE = 0xB4"
definition DS28S60_CMD_CRPA :: u8 where "DS28S60_CMD_CRPA = 0xA5"
definition DS28S60_CMD_CPT_SECRET :: u8 where "DS28S60_CMD_CPT_SECRET = 0x3C"
definition DS28S60_CMD_READ_RNG :: u8 where "DS28S60_CMD_READ_RNG = 0xD2"

definition SECRET_A_PG :: u8 where "SECRET_A_PG = 112"
definition ROM_OPTION_PG :: u8 where "ROM_OPTION_PG = 116"
definition BINDING_DATA_PAGE :: u8 where "BINDING_DATA_PAGE = 91"
definition MAX_USER_BLOCK :: nat where "MAX_USER_BLOCK = 22"
definition SECRET_A_BLOCK :: u8 where "SECRET_A_BLOCK = 31"
definition DS28S60_RESULT_BYTE_SUCCESS :: u8 where "DS28S60_RESULT_BYTE_SUCCESS = 0xAA"
definition DS28S60_INFO_VALID :: u8 where "DS28S60_INFO_VALID = 0xA5"
definition DS28S60_SECRET_KEY_A :: u8 where "DS28S60_SECRET_KEY_A = 4"
definition RETRY_MAX_COUNT :: nat where "RETRY_MAX_COUNT = 5"
definition DS28S60_OVERTIME :: nat where "DS28S60_OVERTIME = 1000"
definition WAIT_DELAY_TICK :: nat where "WAIT_DELAY_TICK = 50"

section \<open>Commands\<close>

text \<open>The bytes 0 and 255 say that the chip is busy. The result is the length byte and the place after it.\<close>

function wait_length :: "(nat \<Rightarrow> u8) \<Rightarrow> nat \<Rightarrow> (u8 \<times> nat) option" where
  "wait_length stream tryCount =
     (let len = stream tryCount
      in if tryCount > DS28S60_OVERTIME div WAIT_DELAY_TICK then None
         else if len = 0 \<or> len = 255 then wait_length stream (tryCount + 1)
         else Some (len, tryCount + 1))"
  by pat_completeness auto
termination
  by (relation "measure (\<lambda>(stream, tryCount). Suc (DS28S60_OVERTIME div WAIT_DELAY_TICK) - tryCount)") auto

declare wait_length.simps [simp del]

text \<open>
  One attempt: the code and what the result array holds afterwards. A length of one is taken for any
  expected length; then the array is not written.
\<close>

definition DS28S60_TrySendCmdAndGetResult ::
  "'h ds_bus \<Rightarrow> u8 \<Rightarrow> bytes \<Rightarrow> u8 \<Rightarrow> u8 \<Rightarrow> bytes option \<Rightarrow> 'h \<Rightarrow> (int \<times> bytes option) \<times> 'h" where
  "DS28S60_TrySendCmdAndGetResult bus cmd para paraLen expectedLen resultArray h =
     (let (stream, h) = bus ([cmd, paraLen] @ take (unat paraLen) para) h
      in case wait_length stream 0 of
           None \<Rightarrow> ((ERR_DS28S60_OVERTIME, resultArray), h)
         | Some (len, i) \<Rightarrow>
             if uint len - 1 \<noteq> uint expectedLen \<and> len \<noteq> 1 then ((ERR_DS28S60_UNEXPECTLEN, resultArray), h)
             else
               let result = stream i;
                   data = map (\<lambda>j. stream (i + 1 + j)) [0..<unat len - 1];
                   resultArray = map_option (\<lambda>array. buf_write array 0 data) resultArray
               in ((if result = DS28S60_RESULT_BYTE_SUCCESS then 0 else uint result, resultArray), h))"

primrec send_tries ::
  "'h ds_bus \<Rightarrow> u8 \<Rightarrow> bytes \<Rightarrow> u8 \<Rightarrow> u8 \<Rightarrow> nat \<Rightarrow> int \<Rightarrow> bytes option \<Rightarrow> 'h \<Rightarrow> (int \<times> bytes option) \<times> 'h" where
  "send_tries bus cmd para paraLen expectedLen 0 ret resultArray h = ((ret, resultArray), h)"
| "send_tries bus cmd para paraLen expectedLen (Suc n) ret resultArray h =
     (let ((ret, resultArray), h) = DS28S60_TrySendCmdAndGetResult bus cmd para paraLen expectedLen resultArray h
      in if ret = 0 then ((ret, resultArray), h)
         else send_tries bus cmd para paraLen expectedLen n ret resultArray h)"

text \<open>A command that fails every time fails an assertion. The result is the array.\<close>

definition DS28S60_SendCmdAndGetResult ::
  "'h ds_bus \<Rightarrow> u8 \<Rightarrow> bytes \<Rightarrow> u8 \<Rightarrow> u8 \<Rightarrow> bytes option \<Rightarrow> ('h ds28s60, bytes option) cmd" where
  "DS28S60_SendCmdAndGetResult bus cmd para paraLen expectedLen resultArray s =
     (let ((ret, resultArray), h) = send_tries bus cmd para paraLen expectedLen RETRY_MAX_COUNT 0 resultArray (ds_hw s)
      in if ret \<noteq> 0 then None else Some (Inr resultArray, s\<lparr>ds_hw := h\<rparr>))"

text \<open>With an array on the stack.\<close>

definition command :: "'h platform \<Rightarrow> 'h ds_bus \<Rightarrow> u8 \<Rightarrow> bytes \<Rightarrow> nat \<Rightarrow> ('h ds28s60, bytes) cmd" where
  "command p bus cmd para n =
     seq (DS28S60_SendCmdAndGetResult bus cmd para (of_nat (length para)) (of_nat n) (Some (p_uninit p n))) (\<lambda>r.
     succeed (the r))"

definition order :: "'h ds_bus \<Rightarrow> u8 \<Rightarrow> bytes \<Rightarrow> ('h ds28s60, unit) cmd" where
  "order bus cmd para = seq (DS28S60_SendCmdAndGetResult bus cmd para (of_nat (length para)) 0 None) (\<lambda>_. succeed ())"

definition DS28S60_ReadPage :: "'h platform \<Rightarrow> 'h ds_bus \<Rightarrow> u8 \<Rightarrow> ('h ds28s60, bytes) cmd" where
  "DS28S60_ReadPage p bus page = command p bus DS28S60_CMD_READ_MEM [page] 32"

definition DS28S60_WritePage :: "'h ds_bus \<Rightarrow> bytes \<Rightarrow> u8 \<Rightarrow> ('h ds28s60, unit) cmd" where
  "DS28S60_WritePage bus data page = order bus DS28S60_CMD_WRITE_MEM (page # take 32 data)"

definition DS28S60_GetBlockProtection :: "'h platform \<Rightarrow> 'h ds_bus \<Rightarrow> u8 \<Rightarrow> ('h ds28s60, block_protection) cmd" where
  "DS28S60_GetBlockProtection p bus block =
     seq (command p bus DS28S60_CMD_READ_PROTECTION [block] 2) (\<lambda>result.
     succeed \<lparr>Secret_byte = result ! 0, Prot_byte = result ! 1\<rparr>)"

definition DS28S60_SetBlockProtection :: "'h ds_bus \<Rightarrow> block_protection \<Rightarrow> u8 \<Rightarrow> ('h ds28s60, unit) cmd" where
  "DS28S60_SetBlockProtection bus b block =
     order bus DS28S60_CMD_SET_PROTECTION [block, Secret_byte b AND 0x87, Prot_byte b AND 0xCF]"

text \<open>The number of the chip; it is kept.\<close>

definition DS28S60_GetInfo :: "'h platform \<Rightarrow> 'h ds_bus \<Rightarrow> ('h ds28s60, unit) cmd" where
  "DS28S60_GetInfo p bus =
     seq (DS28S60_ReadPage p bus ROM_OPTION_PG) (\<lambda>data.
     if \<not> CheckEntropy (take 8 (drop 24 data)) then fail_with ERR_DS28S60_INFO
     else update_state (\<lambda>s. s\<lparr>g_ds28s60Info := \<lparr>ROMID = take 8 (drop 24 data), MANID = take 2 (drop 22 data), valid = DS28S60_INFO_VALID\<rparr>\<rparr>))"

definition need_info :: "'h platform \<Rightarrow> 'h ds_bus \<Rightarrow> ('h ds28s60, unit) cmd" where
  "need_info p bus s = when_do (valid (g_ds28s60Info s) = 0) (DS28S60_GetInfo p bus) s"

text \<open>Random numbers, at most 253 a time. Without any asked for, the code is what the stack held.\<close>

function ds_rng :: "'h platform \<Rightarrow> 'h ds_bus \<Rightarrow> nat \<Rightarrow> ('h ds28s60, bytes) cmd" where
  "ds_rng p bus num =
     (if num = 0 then succeed []
      else let copyNum = min 253 num
           in seq (command p bus DS28S60_CMD_READ_RNG [of_nat copyNum] copyNum) (\<lambda>buffer.
              seq (ds_rng p bus (num - copyNum)) (\<lambda>rest. succeed (take copyNum buffer @ rest))))"
  by pat_completeness auto
termination
  by (relation "measure (\<lambda>(p, bus, num). num)") auto

declare ds_rng.simps [simp del]

definition DS28S60_GetRng :: "'h platform \<Rightarrow> 'h ds_bus \<Rightarrow> nat \<Rightarrow> ('h ds28s60, bytes) cmd" where
  "DS28S60_GetRng p bus num =
     (if num = 0 then lift_result (let ret = hd (p_uninit p 1) in if ret = 0 then Inr [] else Inl (uint ret)) else ds_rng p bus num)"

section \<open>Keys\<close>

definition OTP_ADDR_DS28S60 :: nat where "OTP_ADDR_DS28S60 = 160"

definition GetMasterSecret :: "'h platform \<Rightarrow> 'h \<Rightarrow> bytes" where
  "GetMasterSecret p h = p_otp_read p OTP_ADDR_DS28S60 h"

definition GetBindingPageData :: "'h platform \<Rightarrow> 'h \<Rightarrow> bytes" where
  "GetBindingPageData p h = p_otp_read p (OTP_ADDR_DS28S60 + 32) h"

definition GetPartialSecret :: "'h platform \<Rightarrow> 'h \<Rightarrow> bytes" where
  "GetPartialSecret p h = p_otp_read p (OTP_ADDR_DS28S60 + 64) h"

definition DS28S60_GetHmacKey :: "'h platform \<Rightarrow> ds28s60_info \<Rightarrow> u8 \<Rightarrow> u8 \<Rightarrow> 'h \<Rightarrow> bytes" where
  "DS28S60_GetHmacKey p info pg cmd h =
     p_hmac_sha256 p (GetMasterSecret p h)
       (ROMID info @ GetBindingPageData p h @ GetPartialSecret p h @ [pg] @ MANID info @ [cmd])"

definition page_msg :: "bytes \<Rightarrow> ds28s60_info \<Rightarrow> u8 \<Rightarrow> u8 \<Rightarrow> bytes" where
  "page_msg challenge info page cmd = challenge @ ROMID info @ [page] @ MANID info @ [cmd]"

definition content_msg :: "ds28s60_info \<Rightarrow> bytes \<Rightarrow> bytes \<Rightarrow> u8 \<Rightarrow> u8 \<Rightarrow> bytes" where
  "content_msg info old new page cmd = ROMID info @ old @ new @ [page] @ MANID info @ [cmd]"

abbreviation device_key :: "'h platform \<Rightarrow> 'h ds28s60 \<Rightarrow> bytes" where
  "device_key p s \<equiv> DS28S60_GetHmacKey p (g_ds28s60Info s) BINDING_DATA_PAGE DS28S60_CMD_CPT_SECRET (ds_hw s)"

definition xor_bytes :: "bytes \<Rightarrow> bytes \<Rightarrow> bytes" where
  "xor_bytes = map2 (\<lambda>x y. x XOR y)"

definition ds_trng :: "'h platform \<Rightarrow> nat \<Rightarrow> ('h ds28s60, bytes) cmd" where
  "ds_trng p n s = (let (b, h) = p_trng p n (ds_hw s) in Some (Inr b, s\<lparr>ds_hw := h\<rparr>))"

section \<open>Pages\<close>

definition DS28S60_HmacEncryptRead :: "'h platform \<Rightarrow> 'h ds_bus \<Rightarrow> u8 \<Rightarrow> ('h ds28s60, bytes) cmd" where
  "DS28S60_HmacEncryptRead p bus page =
     seq (need_info p bus) (\<lambda>_.
     seq (command p bus DS28S60_CMD_ENC_READ [page] 40) (\<lambda>buf.
     seq get_state (\<lambda>s.
     let msg = page_msg (take 8 buf) (g_ds28s60Info s) page DS28S60_CMD_ENC_READ;
         hmac = p_hmac_sha256 p (device_key p s) msg
     in succeed (xor_bytes hmac (take 32 (drop 8 buf))))))"

definition DS28S60_HmacEncryptWrite :: "'h platform \<Rightarrow> 'h ds_bus \<Rightarrow> bytes \<Rightarrow> u8 \<Rightarrow> ('h ds28s60, unit) cmd" where
  "DS28S60_HmacEncryptWrite p bus data page =
     seq (DS28S60_HmacEncryptRead p bus page) (\<lambda>oldData.
     seq (ds_trng p 8) (\<lambda>challenge.
     seq get_state (\<lambda>s.
     let info = g_ds28s60Info s;
         secretKey = device_key p s;
         hmac = p_hmac_sha256 p secretKey (page_msg challenge info page DS28S60_CMD_AUTH_WRITE);
         encrypted = xor_bytes data hmac;
         hmac = p_hmac_sha256 p secretKey (content_msg info oldData data page DS28S60_CMD_AUTH_WRITE)
     in order bus DS28S60_CMD_AUTH_WRITE ([page] @ encrypted @ hmac @ challenge))))"

text \<open>The chip proves that it knows the key and the content of a page.\<close>

definition DS28S60_HmacAuthentication :: "'h platform \<Rightarrow> 'h ds_bus \<Rightarrow> u8 \<Rightarrow> ('h ds28s60, unit) cmd" where
  "DS28S60_HmacAuthentication p bus page =
     seq (ds_trng p 32) (\<lambda>challenge.
     seq (need_info p bus) (\<lambda>_.
     seq (command p bus DS28S60_CMD_CRPA ([page, 0] @ challenge) 32) (\<lambda>hmacDevice.
     seq (DS28S60_ReadPage p bus page) (\<lambda>pageData.
     seq get_state (\<lambda>s.
     let hmacCalc = p_hmac_sha256 p (device_key p s)
           (content_msg (g_ds28s60Info s) pageData challenge page DS28S60_CMD_CRPA)
     in if hmacCalc \<noteq> hmacDevice then fail_with ERR_DS28S60_AUTH else succeed ())))))"

section \<open>Binding\<close>

definition DS28S60_WriteSecret :: "'h platform \<Rightarrow> 'h ds_bus \<Rightarrow> ('h ds28s60, unit) cmd" where
  "DS28S60_WriteSecret p bus =
     seq get_state (\<lambda>s.
     let masterSecret = GetMasterSecret p (ds_hw s);
         bindingPageData = GetBindingPageData p (ds_hw s);
         partialSecret = GetPartialSecret p (ds_hw s)
     in seq (DS28S60_WritePage bus bindingPageData BINDING_DATA_PAGE) (\<lambda>_.
        seq (DS28S60_WritePage bus masterSecret SECRET_A_PG) (\<lambda>_.
        seq (order bus DS28S60_CMD_CPT_SECRET ([BINDING_DATA_PAGE, 0] @ partialSecret)) (\<lambda>_.
        seq (DS28S60_WritePage bus (replicate 34 0) BINDING_DATA_PAGE) (\<lambda>_.
        DS28S60_SetBlockProtection bus \<lparr>Secret_byte = 0, Prot_byte = Prot_WP OR Prot_RP\<rparr> SECRET_A_BLOCK)))))"

primrec set_blocks :: "'h ds_bus \<Rightarrow> nat list \<Rightarrow> ('h ds28s60, unit) cmd" where
  "set_blocks bus [] = succeed ()"
| "set_blocks bus (block # blocks) =
     seq (DS28S60_SetBlockProtection bus \<lparr>Secret_byte = DS28S60_SECRET_KEY_A, Prot_byte = Prot_APH OR Prot_EPH\<rparr> (of_nat block)) (\<lambda>_.
     set_blocks bus blocks)"

definition DS28S60_SetProctection_From_Index :: "'h platform \<Rightarrow> 'h ds_bus \<Rightarrow> nat \<Rightarrow> ('h ds28s60, unit) cmd" where
  "DS28S60_SetProctection_From_Index p bus index =
     seq (DS28S60_WriteSecret p bus) (\<lambda>_. set_blocks bus [index..<MAX_USER_BLOCK + 1])"

definition DS28S60_Setup :: "'h platform \<Rightarrow> 'h ds_bus \<Rightarrow> ('h ds28s60, unit) cmd" where
  "DS28S60_Setup p bus = DS28S60_SetProctection_From_Index p bus 0"

text \<open>The search for the first block without protection; an error only ends the search.\<close>

function find_block :: "'h platform \<Rightarrow> 'h ds_bus \<Rightarrow> nat \<Rightarrow> nat \<Rightarrow> ('h ds28s60, nat) cmd" where
  "find_block p bus left right s =
     (if left < right then
        let mid = left + (right - left) div 2
        in case DS28S60_GetBlockProtection p bus (of_nat mid) s of
             None \<Rightarrow> None
           | Some (Inl ret, s) \<Rightarrow> Some (Inr left, s)
           | Some (Inr b, s) \<Rightarrow>
               if prot_bit Prot_APH b then find_block p bus (mid + 1) right s else find_block p bus left mid s
      else Some (Inr left, s))"
  by pat_completeness auto
termination
  by (relation "measure (\<lambda>(p, bus, left, right, s). right - left)") auto

declare find_block.simps [simp del]

definition ConfirmBlockSettings :: "'h platform \<Rightarrow> 'h ds_bus \<Rightarrow> ('h ds28s60, unit) cmd" where
  "ConfirmBlockSettings p bus =
     seq (DS28S60_GetBlockProtection p bus (of_nat MAX_USER_BLOCK)) (\<lambda>b.
     if prot_bit Prot_APH b then succeed ()
     else seq (find_block p bus 0 MAX_USER_BLOCK) (DS28S60_SetProctection_From_Index p bus))"

definition otp_keys :: "'h platform \<Rightarrow> 'h \<Rightarrow> bytes" where
  "otp_keys p h = GetMasterSecret p h @ GetBindingPageData p h @ GetPartialSecret p h"

definition ds_write_otp :: "'h platform \<Rightarrow> bytes \<Rightarrow> ('h ds28s60, unit) cmd" where
  "ds_write_otp p keys = update_state (\<lambda>s. s\<lparr>ds_hw := p_otp_write p OTP_ADDR_DS28S60 keys (ds_hw s)\<rparr>)"

definition bind_chip :: "'h platform \<Rightarrow> 'h ds_bus \<Rightarrow> ('h ds28s60, unit) cmd" where
  "bind_chip p bus =
     seq (DS28S60_GetBlockProtection p bus SECRET_A_BLOCK) (\<lambda>b.
     seq get_state (\<lambda>s.
     if CheckEntropy (otp_keys p (ds_hw s))
     then if \<not> prot_bit Prot_WP b then fail_with ERR_DS28S60_BIND else ConfirmBlockSettings p bus
     else if \<not> prot_bit Prot_WP b
     then seq (ds_trng p 96) (\<lambda>keys. seq (ds_write_otp p keys) (\<lambda>_. DS28S60_Setup p bus))
     else fail_with ERR_DS28S60_BIND))"

definition DS28S60_Binding :: "'h platform \<Rightarrow> 'h ds_bus \<Rightarrow> ('h ds28s60, unit) cmd" where
  "DS28S60_Binding p bus s =
     (case bind_chip p bus s of
        None \<Rightarrow> None
      | Some (Inl ret, s) \<Rightarrow> None
      | Some (Inr u, s) \<Rightarrow> Some (Inr u, s))"

definition DS28S60_Init :: "'h platform \<Rightarrow> 'h ds_bus \<Rightarrow> 'h ds28s60 \<Rightarrow> 'h ds28s60 option" where
  "DS28S60_Init p bus s = map_option snd (DS28S60_Binding p bus s)"

end
