(* ===== verification/Ds28s60Props.thy ===== *)
theory Ds28s60Props
  imports Ds28s60
begin

text \<open>
  The driver of the first secure element against what the chip documents: the driver and a bound chip are
  an array of pages, binding a new chip succeeds and protects it, and a binding that was interrupted can
  not be resumed.
\<close>

section \<open>The chip\<close>

text \<open>
  What a chip keeps, as functions of the state of the hardware: its pages, its secret A, the protection of its
  blocks and its numbers.
\<close>

record 'h ds_chip =
  dc_page :: "u8 \<Rightarrow> 'h \<Rightarrow> bytes"
  dc_key :: "'h \<Rightarrow> bytes"
  dc_prot :: "u8 \<Rightarrow> 'h \<Rightarrow> block_protection"
  dc_info :: ds28s60_info

type_synonym chip_view = "(u8 \<Rightarrow> bytes) \<times> bytes \<times> (u8 \<Rightarrow> block_protection) \<times> (nat \<Rightarrow> bytes)"

definition chip_view :: "'h platform \<Rightarrow> 'h ds_chip \<Rightarrow> 'h \<Rightarrow> chip_view" where
  "chip_view p dc h = ((\<lambda>q. dc_page dc q h), dc_key dc h, (\<lambda>b. dc_prot dc b h), (\<lambda>a. p_otp_read p a h))"

text \<open>After some busy bytes the chip sends the length, the result and the data.\<close>

definition replies :: "(nat \<Rightarrow> u8) \<Rightarrow> u8 \<Rightarrow> bytes \<Rightarrow> bool" where
  "replies stream result data \<longleftrightarrow>
     (\<exists>k\<le>20. (\<forall>i<k. stream i \<in> {0, 255}) \<and> stream k = of_nat (length data + 1) \<and> stream (k + 1) = result \<and>
        (\<forall>i<length data. stream (k + 2 + i) = data ! i))"

definition answers :: "'h platform \<Rightarrow> 'h ds_bus \<Rightarrow> 'h ds_chip \<Rightarrow> u8 \<Rightarrow> bytes \<Rightarrow> u8 \<Rightarrow> bytes \<Rightarrow> (chip_view \<Rightarrow> chip_view) \<Rightarrow> 'h \<Rightarrow> bool" where
  "answers p bus dc cmd para result data f h \<longleftrightarrow>
     (\<exists>stream h'. bus ([cmd, of_nat (length para)] @ para) h = (stream, h') \<and> replies stream result data \<and>
        chip_view p dc h' = f (chip_view p dc h))"

definition set_page :: "u8 \<Rightarrow> bytes \<Rightarrow> chip_view \<Rightarrow> chip_view" where
  "set_page q d v = (case v of (pages, key, prot, otp) \<Rightarrow> (pages(q := d), key, prot, otp))"

definition set_key :: "bytes \<Rightarrow> chip_view \<Rightarrow> chip_view" where
  "set_key k v = (case v of (pages, key, prot, otp) \<Rightarrow> (pages, k, prot, otp))"

definition set_prot :: "u8 \<Rightarrow> block_protection \<Rightarrow> chip_view \<Rightarrow> chip_view" where
  "set_prot b x v = (case v of (pages, key, prot, otp) \<Rightarrow> (pages, key, prot(b := x), otp))"

text \<open>Reading and writing encrypted pages; 91 is the last page of a user.\<close>

definition chip_pages :: "'h platform \<Rightarrow> 'h ds_bus \<Rightarrow> 'h ds_chip \<Rightarrow> bool" where
  "chip_pages p bus dc \<longleftrightarrow>
     length (ROMID (dc_info dc)) = 8 \<and> length (MANID (dc_info dc)) = 2 \<and> CheckEntropy (ROMID (dc_info dc)) \<and>
     valid (dc_info dc) = DS28S60_INFO_VALID \<and>
     (\<forall>h q. length (dc_page dc q h) = 32) \<and> (\<forall>k m. length (p_hmac_sha256 p k m) = 32) \<and> (\<forall>n. length (p_uninit p n) = n) \<and>
     (\<forall>n h. length (fst (p_trng p n h)) = n \<and> chip_view p dc (snd (p_trng p n h)) = chip_view p dc h) \<and>
     (\<forall>h. \<exists>d. length d = 32 \<and> take 8 (drop 24 d) = ROMID (dc_info dc) \<and> take 2 (drop 22 d) = MANID (dc_info dc) \<and>
        answers p bus dc DS28S60_CMD_READ_MEM [ROM_OPTION_PG] DS28S60_RESULT_BYTE_SUCCESS d id h) \<and>
     (\<forall>h page. page < BINDING_DATA_PAGE \<longrightarrow> (\<exists>c. length c = 8 \<and>
        answers p bus dc DS28S60_CMD_ENC_READ [page] DS28S60_RESULT_BYTE_SUCCESS
          (c @ xor_bytes (dc_page dc page h) (p_hmac_sha256 p (dc_key dc h) (page_msg c (dc_info dc) page DS28S60_CMD_ENC_READ))) id h)) \<and>
     (\<forall>h page c data. page < BINDING_DATA_PAGE \<longrightarrow> length c = 8 \<longrightarrow> length data = 32 \<longrightarrow>
        answers p bus dc DS28S60_CMD_AUTH_WRITE
          ([page] @ xor_bytes data (p_hmac_sha256 p (dc_key dc h) (page_msg c (dc_info dc) page DS28S60_CMD_AUTH_WRITE)) @
           p_hmac_sha256 p (dc_key dc h) (content_msg (dc_info dc) (dc_page dc page h) data page DS28S60_CMD_AUTH_WRITE) @ c)
          DS28S60_RESULT_BYTE_SUCCESS [] (set_page page data) h)"

lemma chip_pages_laws:
  assumes "chip_pages p bus dc"
  shows "length (ROMID (dc_info dc)) = 8" "length (MANID (dc_info dc)) = 2" "CheckEntropy (ROMID (dc_info dc))"
    and "valid (dc_info dc) = DS28S60_INFO_VALID" "length (dc_page dc q h) = 32" "length (p_hmac_sha256 p k m) = 32" "length (p_uninit p n) = n"
    and "length (fst (p_trng p n h)) = n" "chip_view p dc (snd (p_trng p n h)) = chip_view p dc h"
    and "\<exists>d. length d = 32 \<and> take 8 (drop 24 d) = ROMID (dc_info dc) \<and> take 2 (drop 22 d) = MANID (dc_info dc) \<and>
        answers p bus dc DS28S60_CMD_READ_MEM [ROM_OPTION_PG] DS28S60_RESULT_BYTE_SUCCESS d id h"
    and "page < BINDING_DATA_PAGE \<Longrightarrow> \<exists>c. length c = 8 \<and>
        answers p bus dc DS28S60_CMD_ENC_READ [page] DS28S60_RESULT_BYTE_SUCCESS
          (c @ xor_bytes (dc_page dc page h) (p_hmac_sha256 p (dc_key dc h) (page_msg c (dc_info dc) page DS28S60_CMD_ENC_READ))) id h"
    and "page < BINDING_DATA_PAGE \<Longrightarrow> length c = 8 \<Longrightarrow> length data = 32 \<Longrightarrow>
        answers p bus dc DS28S60_CMD_AUTH_WRITE
          ([page] @ xor_bytes data (p_hmac_sha256 p (dc_key dc h) (page_msg c (dc_info dc) page DS28S60_CMD_AUTH_WRITE)) @
           p_hmac_sha256 p (dc_key dc h) (content_msg (dc_info dc) (dc_page dc page h) data page DS28S60_CMD_AUTH_WRITE) @ c)
          DS28S60_RESULT_BYTE_SUCCESS [] (set_page page data) h"
  using assms by (simp_all add: chip_pages_def)

section \<open>Commands reach the chip\<close>

lemma overtime: "DS28S60_OVERTIME div WAIT_DELAY_TICK = 20"
  by (simp add: DS28S60_OVERTIME_def WAIT_DELAY_TICK_def)

lemma wait_busy:
  assumes "k \<le> 20" and "\<forall>i<k. stream i \<in> {0, 255}" and "stream k = len" and "len \<noteq> 0" and "len \<noteq> 255" and "j \<le> k"
  shows "wait_length stream j = Some (len, k + 1)"
  using assms(6)
proof (induction "k - j" arbitrary: j)
  case 0
  then have "j = k" by simp
  then show ?case using assms(1,3-5) by (subst wait_length.simps) (simp add: overtime)
next
  case (Suc m)
  then have "j < k" "wait_length stream (j + 1) = Some (len, k + 1)" by auto
  then show ?case using assms(1,2) by (subst wait_length.simps) (auto simp add: overtime)
qed

lemma byte_length: "n \<le> 253 \<Longrightarrow> unat (of_nat (n + 1) :: u8) = n + 1"
  by (simp add: unat_of_nat take_bit_nat_eq_self del: of_nat_Suc of_nat_add)

lemma try_replies:
  assumes bus: "bus ([cmd, paraLen] @ take (unat paraLen) para) h = (stream, h')" and r: "replies stream result data"
    and n: "length data \<le> 253" "unat expectedLen = length data \<or> data = []"
  shows "DS28S60_TrySendCmdAndGetResult bus cmd para paraLen expectedLen resultArray h =
    ((if result = DS28S60_RESULT_BYTE_SUCCESS then 0 else uint result, map_option (\<lambda>array. buf_write array 0 data) resultArray), h')"
proof -
  define L where "L = (of_nat (length data + 1) :: u8)"
  from r obtain k where k: "k \<le> 20" "\<forall>i<k. stream i \<in> {0, 255}" "stream k = L" "stream (k + 1) = result"
    "\<forall>i<length data. stream (k + 2 + i) = data ! i" by (auto simp: replies_def L_def)
  have len: "unat L = length data + 1" unfolding L_def by (rule byte_length [OF n(1)])
  have "L \<noteq> 0" "L \<noteq> 255" using len n(1) by auto
  then have wait: "wait_length stream 0 = Some (L, k + 1)" by (intro wait_busy [OF k(1-3)]) simp_all
  have u: "uint L = int (length data) + 1" "uint expectedLen = int (unat expectedLen)"
    unfolding uint_nat [of L] len by (simp_all only: uint_nat of_nat_add of_nat_1)
  moreover have "data = [] \<Longrightarrow> L = 1" by (simp add: L_def)
  ultimately have ok: "\<not> (uint L - 1 \<noteq> uint expectedLen \<and> L \<noteq> 1)" using n(2) by (auto simp del: int_nat_eq simp: u(1)) (simp add: u(2))
  have data: "map (\<lambda>j. stream (k + 1 + 1 + j)) [0..<unat L - 1] = data"
    using k(5) by (intro nth_equalityI) (simp_all add: len)
  show ?thesis
    unfolding DS28S60_TrySendCmdAndGetResult_def bus Let_def prod.case wait option.case data k(4) if_not_P [OF ok] by simp
qed

text \<open>A successful command and its effect on the chip.\<close>

lemma tries_succeed:
  assumes bus: "bus ([cmd, paraLen] @ take (unat paraLen) para) h = (stream, h')" and r: "replies stream DS28S60_RESULT_BYTE_SUCCESS data"
    and n: "length data \<le> 253" "unat expectedLen = length data \<or> data = []"
  shows "send_tries bus cmd para paraLen expectedLen (Suc m) ret resultArray h = ((0, map_option (\<lambda>array. buf_write array 0 data) resultArray), h')"
  by (simp add: try_replies [of bus cmd paraLen para h stream h', OF bus r n])

lemma command_answers:
  assumes a: "answers p bus dc cmd para DS28S60_RESULT_BYTE_SUCCESS data f (ds_hw s)"
    and n: "length data = n" "n \<le> 253" "length para \<le> 255" "length (p_uninit p n) = n"
  shows "\<exists>h. command p bus cmd para n s = Some (Inr data, s\<lparr>ds_hw := h\<rparr>) \<and> chip_view p dc h = f (chip_view p dc (ds_hw s))"
proof -
  obtain stream h where bus: "bus ([cmd, of_nat (length para)] @ para) (ds_hw s) = (stream, h)"
    and r: "replies stream DS28S60_RESULT_BYTE_SUCCESS data" and view: "chip_view p dc h = f (chip_view p dc (ds_hw s))"
    using a by (auto simp: answers_def)
  have para: "take (unat (of_nat (length para) :: u8)) para = para" using n(3) by (simp add: unat_of_nat)
  have exp: "unat (of_nat n :: u8) = length data \<or> data = []" using n(1,2) by (simp add: unat_of_nat)
  have "buf_write (p_uninit p n) 0 data = data" using n by (simp add: buf_write_def)
  with tries_succeed [of bus cmd "of_nat (length para)" para "ds_hw s", unfolded para, OF bus r _ exp] n
  have "command p bus cmd para n s = Some (Inr data, s\<lparr>ds_hw := h\<rparr>)"
    by (simp add: command_def DS28S60_SendCmdAndGetResult_def seq_def succeed_def RETRY_MAX_COUNT_def numeral_eq_Suc del: send_tries.simps)
  with view show ?thesis by blast
qed

lemma order_answers:
  assumes a: "answers p bus dc cmd para DS28S60_RESULT_BYTE_SUCCESS [] f (ds_hw s)" and n: "length para \<le> 255"
  shows "\<exists>h. order bus cmd para s = Some (Inr (), s\<lparr>ds_hw := h\<rparr>) \<and> chip_view p dc h = f (chip_view p dc (ds_hw s))"
proof -
  obtain stream h where bus: "bus ([cmd, of_nat (length para)] @ para) (ds_hw s) = (stream, h)"
    and r: "replies stream DS28S60_RESULT_BYTE_SUCCESS []" and view: "chip_view p dc h = f (chip_view p dc (ds_hw s))"
    using a by (auto simp: answers_def)
  have para: "take (unat (of_nat (length para) :: u8)) para = para" using n by (simp add: unat_of_nat)
  from tries_succeed [of bus cmd "of_nat (length para)" para "ds_hw s", unfolded para, OF bus r]
  have "order bus cmd para s = Some (Inr (), s\<lparr>ds_hw := h\<rparr>)"
    by (simp add: order_def DS28S60_SendCmdAndGetResult_def seq_def succeed_def RETRY_MAX_COUNT_def numeral_eq_Suc del: send_tries.simps)
  with view show ?thesis by blast
qed

section \<open>The driver and a bound chip are an array of pages\<close>

definition bound :: "'h platform \<Rightarrow> 'h ds_chip \<Rightarrow> 'h ds28s60 \<Rightarrow> bool" where
  "bound p dc s \<longleftrightarrow> (valid (g_ds28s60Info s) \<noteq> 0 \<longrightarrow> g_ds28s60Info s = dc_info dc) \<and>
     dc_key dc (ds_hw s) = DS28S60_GetHmacKey p (dc_info dc) BINDING_DATA_PAGE DS28S60_CMD_CPT_SECRET (ds_hw s)"

lemma view_parts:
  assumes "chip_view p dc h' = chip_view p dc h"
  shows "dc_page dc q h' = dc_page dc q h" "dc_key dc h' = dc_key dc h" "dc_prot dc b h' = dc_prot dc b h" "p_otp_read p a h' = p_otp_read p a h"
  using assms by (auto simp: chip_view_def dest: fun_cong)

lemma key_otp: "(\<And>a. p_otp_read p a h' = p_otp_read p a h) \<Longrightarrow> DS28S60_GetHmacKey p info pg cmd h' = DS28S60_GetHmacKey p info pg cmd h"
  by (simp add: DS28S60_GetHmacKey_def GetMasterSecret_def GetBindingPageData_def GetPartialSecret_def)

lemma need_info_known:
  assumes doc: "chip_pages p bus dc" and info: "valid (g_ds28s60Info s) \<noteq> 0 \<longrightarrow> g_ds28s60Info s = dc_info dc"
  shows "\<exists>s'. need_info p bus s = Some (Inr (), s') \<and> g_ds28s60Info s' = dc_info dc \<and> chip_view p dc (ds_hw s') = chip_view p dc (ds_hw s)"
proof (cases "valid (g_ds28s60Info s) = 0")
  case True
  obtain d where d: "length d = 32" "take 8 (drop 24 d) = ROMID (dc_info dc)" "take 2 (drop 22 d) = MANID (dc_info dc)"
    "answers p bus dc DS28S60_CMD_READ_MEM [ROM_OPTION_PG] DS28S60_RESULT_BYTE_SUCCESS d id (ds_hw s)"
    using chip_pages_laws(10) [OF doc] by blast
  obtain h where h: "DS28S60_ReadPage p bus ROM_OPTION_PG s = Some (Inr d, s\<lparr>ds_hw := h\<rparr>)" "chip_view p dc h = chip_view p dc (ds_hw s)"
    using command_answers [OF d(4,1)] chip_pages_laws(7) [OF doc] by (auto simp: DS28S60_ReadPage_def)
  moreover have "take 8 (ROMID (dc_info dc)) = ROMID (dc_info dc)" using chip_pages_laws(1) [OF doc] by simp
  ultimately show ?thesis using True d chip_pages_laws(3,4) [OF doc]
    by (simp add: need_info_def when_do_def DS28S60_GetInfo_def seq_def update_state_def)
next
  case False
  then show ?thesis using info by (simp add: need_info_def when_do_def succeed_def)
qed

lemma xor_twice: "length a = length b \<Longrightarrow> xor_bytes a (xor_bytes b a) = b" "length a = length b \<Longrightarrow> xor_bytes (xor_bytes b a) a = b"
  by (auto simp: xor_bytes_def xor.assoc xor.left_commute intro!: nth_equalityI)

lemma read_page:
  assumes doc: "chip_pages p bus dc" and b: "bound p dc s" and page: "page < BINDING_DATA_PAGE"
  shows "\<exists>s'. DS28S60_HmacEncryptRead p bus page s = Some (Inr (dc_page dc page (ds_hw s)), s') \<and>
    chip_view p dc (ds_hw s') = chip_view p dc (ds_hw s) \<and> bound p dc s' \<and> g_ds28s60Info s' = dc_info dc"
proof -
  obtain s1 where s1: "need_info p bus s = Some (Inr (), s1)" "g_ds28s60Info s1 = dc_info dc" "chip_view p dc (ds_hw s1) = chip_view p dc (ds_hw s)"
    using need_info_known [OF doc] b by (auto simp: bound_def)
  let ?mac = "\<lambda>c. p_hmac_sha256 p (dc_key dc (ds_hw s1)) (page_msg c (dc_info dc) page DS28S60_CMD_ENC_READ)"
  obtain c where c: "length c = 8" "answers p bus dc DS28S60_CMD_ENC_READ [page] DS28S60_RESULT_BYTE_SUCCESS
    (c @ xor_bytes (dc_page dc page (ds_hw s1)) (?mac c)) id (ds_hw s1)"
    using chip_pages_laws(11) [OF doc page] by blast
  have len: "length (xor_bytes (dc_page dc page (ds_hw s1)) (?mac c)) = 32" using chip_pages_laws(5,6) [OF doc] by (simp add: xor_bytes_def)
  then obtain h where h: "command p bus DS28S60_CMD_ENC_READ [page] 40 s1 = Some (Inr (c @ xor_bytes (dc_page dc page (ds_hw s1)) (?mac c)), s1\<lparr>ds_hw := h\<rparr>)"
    "chip_view p dc h = chip_view p dc (ds_hw s1)"
    using command_answers [OF c(2), of 40] c(1) chip_pages_laws(7) [OF doc] by auto
  have key: "DS28S60_GetHmacKey p (dc_info dc) BINDING_DATA_PAGE DS28S60_CMD_CPT_SECRET h = dc_key dc (ds_hw s1)"
    using b view_parts [OF h(2)] view_parts [OF s1(3)] key_otp [of p h "ds_hw s"] by (simp add: bound_def)
  have "DS28S60_HmacEncryptRead p bus page s = Some (Inr (dc_page dc page (ds_hw s)), s1\<lparr>ds_hw := h\<rparr>)"
    using s1 h(1) c(1) len view_parts [OF s1(3)] chip_pages_laws(5,6) [OF doc]
    by (simp add: DS28S60_HmacEncryptRead_def seq_def get_state_def succeed_def Let_def key xor_twice)
  moreover have "bound p dc (s1\<lparr>ds_hw := h\<rparr>)" using s1(2) key view_parts [OF h(2)] by (simp add: bound_def)
  ultimately show ?thesis using s1 h(2) by simp
qed

lemma write_page:
  assumes doc: "chip_pages p bus dc" and b: "bound p dc s" and page: "page < BINDING_DATA_PAGE" and data: "length data = 32"
  shows "\<exists>s'. DS28S60_HmacEncryptWrite p bus data page s = Some (Inr (), s') \<and> bound p dc s' \<and>
    chip_view p dc (ds_hw s') = set_page page data (chip_view p dc (ds_hw s))"
proof -
  obtain s1 where s1: "DS28S60_HmacEncryptRead p bus page s = Some (Inr (dc_page dc page (ds_hw s)), s1)"
    "chip_view p dc (ds_hw s1) = chip_view p dc (ds_hw s)" "bound p dc s1" "g_ds28s60Info s1 = dc_info dc"
    using read_page [OF doc b page] by blast
  obtain c h2 where trng: "p_trng p 8 (ds_hw s1) = (c, h2)" by fastforce
  have c: "length c = 8" "chip_view p dc h2 = chip_view p dc (ds_hw s1)" using chip_pages_laws(8,9) [OF doc, of 8 "ds_hw s1"] trng by simp_all
  let ?s2 = "s1\<lparr>ds_hw := h2\<rparr>" and ?key = "dc_key dc h2"
  note parts = view_parts [OF c(2)] and parts1 = view_parts [OF s1(2)]
  have key: "device_key p ?s2 = ?key" using s1(3,4) parts key_otp [of p h2 "ds_hw s1"] by (simp add: bound_def)
  let ?para = "[page] @ xor_bytes data (p_hmac_sha256 p ?key (page_msg c (dc_info dc) page DS28S60_CMD_AUTH_WRITE)) @
    p_hmac_sha256 p ?key (content_msg (dc_info dc) (dc_page dc page h2) data page DS28S60_CMD_AUTH_WRITE) @ c"
  have "length ?para \<le> 255" using c data chip_pages_laws(6) [OF doc] by (simp add: xor_bytes_def)
  then obtain h3 where h3: "order bus DS28S60_CMD_AUTH_WRITE ?para ?s2 = Some (Inr (), ?s2\<lparr>ds_hw := h3\<rparr>)"
    "chip_view p dc h3 = set_page page data (chip_view p dc h2)"
    using order_answers [of p bus dc DS28S60_CMD_AUTH_WRITE ?para "set_page page data" ?s2] chip_pages_laws(12) [OF doc page c(1) data, of h2] by auto
  have "DS28S60_HmacEncryptWrite p bus data page s = Some (Inr (), ?s2\<lparr>ds_hw := h3\<rparr>)"
    using s1 trng h3(1) key parts parts1
    by (simp add: DS28S60_HmacEncryptWrite_def seq_def get_state_def Let_def ds_trng_def)
  moreover have "dc_key dc h3 = dc_key dc h2" "\<And>a. p_otp_read p a h3 = p_otp_read p a h2"
    using h3(2) by (auto simp: chip_view_def set_page_def dest: fun_cong)
  then have "bound p dc (?s2\<lparr>ds_hw := h3\<rparr>)" using key s1(4) key_otp [of p h3 h2] by (simp add: bound_def)
  ultimately show ?thesis using h3(2) c(2) s1(2) by (intro exI [of _ "?s2\<lparr>ds_hw := h3\<rparr>"]) simp
qed

primrec ds_writes :: "'h platform \<Rightarrow> 'h ds_bus \<Rightarrow> (u8 \<times> bytes) list \<Rightarrow> ('h ds28s60, unit) cmd" where
  "ds_writes p bus [] = succeed ()"
| "ds_writes p bus (w # ws) = seq (DS28S60_HmacEncryptWrite p bus (snd w) (fst w)) (\<lambda>_. ds_writes p bus ws)"

definition pages_after :: "(u8 \<times> bytes) list \<Rightarrow> (u8 \<Rightarrow> bytes) \<Rightarrow> u8 \<Rightarrow> bytes" where
  "pages_after ws pages = fold (\<lambda>(q, d) m. m(q := d)) ws pages"

lemma writes_succeed:
  assumes doc: "chip_pages p bus dc"
  shows "bound p dc s \<Longrightarrow> \<forall>(q, d)\<in>set ws. q < BINDING_DATA_PAGE \<and> length d = 32 \<Longrightarrow>
    \<exists>s'. ds_writes p bus ws s = Some (Inr (), s') \<and> bound p dc s' \<and>
      (\<lambda>q. dc_page dc q (ds_hw s')) = pages_after ws (\<lambda>q. dc_page dc q (ds_hw s))"
proof (induction ws arbitrary: s)
  case Nil
  then show ?case by (simp add: succeed_def pages_after_def)
next
  case (Cons w ws)
  obtain q d where w: "w = (q, d)" by fastforce
  with Cons.prems obtain s1 where s1: "DS28S60_HmacEncryptWrite p bus d q s = Some (Inr (), s1)" "bound p dc s1"
    "chip_view p dc (ds_hw s1) = set_page q d (chip_view p dc (ds_hw s))"
    using write_page [OF doc, of s q d] by auto
  have "(\<lambda>q. dc_page dc q (ds_hw s1)) = (\<lambda>q. dc_page dc q (ds_hw s))(q := d)"
    using s1(3) by (simp add: chip_view_def set_page_def)
  moreover obtain s' where "ds_writes p bus ws s1 = Some (Inr (), s')" "bound p dc s'"
    "(\<lambda>q. dc_page dc q (ds_hw s')) = pages_after ws (\<lambda>q. dc_page dc q (ds_hw s1))"
    using Cons.IH [OF s1(2)] Cons.prems(2) by auto
  ultimately show ?case using s1(1) by (simp add: w seq_def pages_after_def)
qed

text \<open>
  C20: The driver and a bound chip are an array of pages: any writes of pages succeed, and then every page is read
  as the last data written to it, or as it was.
\<close>

theorem ds28s60_is_page_array:
  assumes doc: "chip_pages p bus dc" and "bound p dc s" and "\<forall>(q, d)\<in>set ws. q < BINDING_DATA_PAGE \<and> length d = 32"
    and page: "page < BINDING_DATA_PAGE"
  shows "\<exists>s' s''. ds_writes p bus ws s = Some (Inr (), s') \<and>
    DS28S60_HmacEncryptRead p bus page s' = Some (Inr (pages_after ws (\<lambda>q. dc_page dc q (ds_hw s)) page), s'')"
proof -
  obtain s' where s': "ds_writes p bus ws s = Some (Inr (), s')" "bound p dc s'"
    "(\<lambda>q. dc_page dc q (ds_hw s')) = pages_after ws (\<lambda>q. dc_page dc q (ds_hw s))"
    using writes_succeed [OF assms(1-3)] by blast
  then show ?thesis using read_page [OF doc s'(2) page] by (metis (no_types, lifting))
qed

section \<open>Binding a new chip\<close>

definition RESULT_PROTECTED :: u8 where "RESULT_PROTECTED = 0x55"

definition unlocked :: "block_protection \<Rightarrow> bool" where
  "unlocked b \<longleftrightarrow> Secret_byte b AND 0x80 = 0"

text \<open>
  What the chip documents of its set-up commands: the protection of a block can be read, and set while the block is
  not locked; the page of the secret can be written until its block is write protected; the
  secret is computed from the master secret, the binding page and the partial secret.
\<close>

definition chip_setup :: "'h platform \<Rightarrow> 'h ds_bus \<Rightarrow> 'h ds_chip \<Rightarrow> bool" where
  "chip_setup p bus dc \<longleftrightarrow>
     (\<forall>a h. length (p_otp_read p a h) = 32) \<and>
     (\<forall>h b. answers p bus dc DS28S60_CMD_READ_PROTECTION [b] DS28S60_RESULT_BYTE_SUCCESS
        [Secret_byte (dc_prot dc b h), Prot_byte (dc_prot dc b h)] id h) \<and>
     (\<forall>h b x y. unlocked (dc_prot dc b h) \<longrightarrow> answers p bus dc DS28S60_CMD_SET_PROTECTION [b, x, y] DS28S60_RESULT_BYTE_SUCCESS []
        (set_prot b \<lparr>Secret_byte = x, Prot_byte = y\<rparr>) h) \<and>
     (\<forall>h d. length d = 32 \<longrightarrow> Prot_byte (dc_prot dc (of_nat MAX_USER_BLOCK) h) = 0 \<longrightarrow>
        answers p bus dc DS28S60_CMD_WRITE_MEM (BINDING_DATA_PAGE # d) DS28S60_RESULT_BYTE_SUCCESS [] (set_page BINDING_DATA_PAGE d) h) \<and>
     (\<forall>h d. length d = 32 \<longrightarrow> \<not> prot_bit Prot_WP (dc_prot dc SECRET_A_BLOCK h) \<longrightarrow>
        answers p bus dc DS28S60_CMD_WRITE_MEM (SECRET_A_PG # d) DS28S60_RESULT_BYTE_SUCCESS [] (set_key d) h) \<and>
     (\<forall>h d. length d = 32 \<longrightarrow> prot_bit Prot_WP (dc_prot dc SECRET_A_BLOCK h) \<longrightarrow>
        answers p bus dc DS28S60_CMD_WRITE_MEM (SECRET_A_PG # d) RESULT_PROTECTED [] id h) \<and>
     (\<forall>h d. length d = 32 \<longrightarrow> \<not> prot_bit Prot_WP (dc_prot dc SECRET_A_BLOCK h) \<longrightarrow>
        answers p bus dc DS28S60_CMD_CPT_SECRET ([BINDING_DATA_PAGE, 0] @ d) DS28S60_RESULT_BYTE_SUCCESS []
          (set_key (p_hmac_sha256 p (dc_key dc h) (ROMID (dc_info dc) @ dc_page dc BINDING_DATA_PAGE h @ d @ [BINDING_DATA_PAGE] @
             MANID (dc_info dc) @ [DS28S60_CMD_CPT_SECRET]))) h) \<and>
     (\<forall>h keys. length keys = 96 \<longrightarrow>
        otp_keys p (p_otp_write p OTP_ADDR_DS28S60 keys h) = keys \<and>
        (\<forall>q. dc_page dc q (p_otp_write p OTP_ADDR_DS28S60 keys h) = dc_page dc q h) \<and>
        (\<forall>b. dc_prot dc b (p_otp_write p OTP_ADDR_DS28S60 keys h) = dc_prot dc b h))"

lemma chip_setup_laws:
  assumes "chip_setup p bus dc"
  shows "length (p_otp_read p a h) = 32"
    and "answers p bus dc DS28S60_CMD_READ_PROTECTION [b] DS28S60_RESULT_BYTE_SUCCESS [Secret_byte (dc_prot dc b h), Prot_byte (dc_prot dc b h)] id h"
    and "unlocked (dc_prot dc b h) \<Longrightarrow> answers p bus dc DS28S60_CMD_SET_PROTECTION [b, x, y] DS28S60_RESULT_BYTE_SUCCESS []
        (set_prot b \<lparr>Secret_byte = x, Prot_byte = y\<rparr>) h"
    and "length d = 32 \<Longrightarrow> Prot_byte (dc_prot dc (of_nat MAX_USER_BLOCK) h) = 0 \<Longrightarrow>
        answers p bus dc DS28S60_CMD_WRITE_MEM (BINDING_DATA_PAGE # d) DS28S60_RESULT_BYTE_SUCCESS [] (set_page BINDING_DATA_PAGE d) h"
    and "length d = 32 \<Longrightarrow> \<not> prot_bit Prot_WP (dc_prot dc SECRET_A_BLOCK h) \<Longrightarrow>
        answers p bus dc DS28S60_CMD_WRITE_MEM (SECRET_A_PG # d) DS28S60_RESULT_BYTE_SUCCESS [] (set_key d) h"
    and "length d = 32 \<Longrightarrow> prot_bit Prot_WP (dc_prot dc SECRET_A_BLOCK h) \<Longrightarrow>
        answers p bus dc DS28S60_CMD_WRITE_MEM (SECRET_A_PG # d) RESULT_PROTECTED [] id h"
    and "length d = 32 \<Longrightarrow> \<not> prot_bit Prot_WP (dc_prot dc SECRET_A_BLOCK h) \<Longrightarrow>
        answers p bus dc DS28S60_CMD_CPT_SECRET ([BINDING_DATA_PAGE, 0] @ d) DS28S60_RESULT_BYTE_SUCCESS []
          (set_key (p_hmac_sha256 p (dc_key dc h) (ROMID (dc_info dc) @ dc_page dc BINDING_DATA_PAGE h @ d @ [BINDING_DATA_PAGE] @
             MANID (dc_info dc) @ [DS28S60_CMD_CPT_SECRET]))) h"
    and "length keys = 96 \<Longrightarrow> otp_keys p (p_otp_write p OTP_ADDR_DS28S60 keys h) = keys"
    and "length keys = 96 \<Longrightarrow> dc_page dc q (p_otp_write p OTP_ADDR_DS28S60 keys h) = dc_page dc q h"
    and "length keys = 96 \<Longrightarrow> dc_prot dc b (p_otp_write p OTP_ADDR_DS28S60 keys h) = dc_prot dc b h"
  using assms by (simp_all add: chip_setup_def)

lemma read_protection:
  assumes doc: "chip_setup p bus dc" and n: "length (p_uninit p 2) = 2"
  shows "\<exists>h. DS28S60_GetBlockProtection p bus b s = Some (Inr (dc_prot dc b (ds_hw s)), s\<lparr>ds_hw := h\<rparr>) \<and> chip_view p dc h = chip_view p dc (ds_hw s)"
  using command_answers [OF chip_setup_laws(2) [OF doc, of b "ds_hw s"], of 2] n
  by (auto simp: DS28S60_GetBlockProtection_def seq_def succeed_def)

lemma set_protection:
  assumes doc: "chip_setup p bus dc" and "unlocked (dc_prot dc b (ds_hw s))"
  shows "\<exists>h. DS28S60_SetBlockProtection bus x b s = Some (Inr (), s\<lparr>ds_hw := h\<rparr>) \<and>
    chip_view p dc h = set_prot b \<lparr>Secret_byte = Secret_byte x AND 0x87, Prot_byte = Prot_byte x AND 0xCF\<rparr> (chip_view p dc (ds_hw s))"
  unfolding DS28S60_SetBlockProtection_def by (rule order_answers [OF chip_setup_laws(3) [OF assms]]) simp

definition user_protection :: block_protection where
  "user_protection = \<lparr>Secret_byte = DS28S60_SECRET_KEY_A, Prot_byte = Prot_APH OR Prot_EPH\<rparr>"

definition secret_protection :: block_protection where
  "secret_protection = \<lparr>Secret_byte = 0, Prot_byte = Prot_WP OR Prot_RP\<rparr>"

lemma kept_bits:
  "\<lparr>Secret_byte = DS28S60_SECRET_KEY_A AND 0x87, Prot_byte = (Prot_APH OR Prot_EPH) AND 0xCF\<rparr> = user_protection"
  "\<lparr>Secret_byte = 0 AND 0x87, Prot_byte = (Prot_WP OR Prot_RP) AND 0xCF\<rparr> = secret_protection"
  by (simp_all add: user_protection_def secret_protection_def DS28S60_SECRET_KEY_A_def Prot_APH_def Prot_EPH_def Prot_WP_def Prot_RP_def)

lemma set_blocks_protects:
  assumes doc: "chip_setup p bus dc"
  shows "\<forall>b\<in>set blocks. unlocked (dc_prot dc (of_nat b) (ds_hw s)) \<Longrightarrow>
    \<exists>h. set_blocks bus blocks s = Some (Inr (), s\<lparr>ds_hw := h\<rparr>) \<and>
      chip_view p dc h = fold (\<lambda>b. set_prot (of_nat b) user_protection) blocks (chip_view p dc (ds_hw s))"
proof (induction blocks arbitrary: s)
  case Nil
  then show ?case by (intro exI [of _ "ds_hw s"]) (simp add: succeed_def)
next
  case (Cons b blocks)
  let ?x = "\<lparr>Secret_byte = DS28S60_SECRET_KEY_A, Prot_byte = Prot_APH OR Prot_EPH\<rparr>"
  obtain h where h: "DS28S60_SetBlockProtection bus ?x (of_nat b) s = Some (Inr (), s\<lparr>ds_hw := h\<rparr>)"
    "chip_view p dc h = set_prot (of_nat b) user_protection (chip_view p dc (ds_hw s))"
    using set_protection [OF doc, of "of_nat b" s ?x] Cons.prems kept_bits(1) by auto
  have "unlocked user_protection" by (simp add: unlocked_def user_protection_def DS28S60_SECRET_KEY_A_def)
  moreover have "dc_prot dc c h = (if c = of_nat b then user_protection else dc_prot dc c (ds_hw s))" for c
    using h(2) by (simp add: chip_view_def set_prot_def fun_eq_iff)
  ultimately have "\<forall>b\<in>set blocks. unlocked (dc_prot dc (of_nat b) (ds_hw (s\<lparr>ds_hw := h\<rparr>)))" using Cons.prems by simp
  from Cons.IH [OF this] h show ?case by (auto simp: seq_def)
qed

lemma write_secret:
  assumes doc: "chip_setup p bus dc" and free: "Prot_byte (dc_prot dc (of_nat MAX_USER_BLOCK) (ds_hw s)) = 0"
    and wp: "\<not> prot_bit Prot_WP (dc_prot dc SECRET_A_BLOCK (ds_hw s))" and lock: "unlocked (dc_prot dc SECRET_A_BLOCK (ds_hw s))"
  shows "\<exists>h. DS28S60_WriteSecret p bus s = Some (Inr (), s\<lparr>ds_hw := h\<rparr>) \<and>
    chip_view p dc h = set_prot SECRET_A_BLOCK secret_protection (set_page BINDING_DATA_PAGE (replicate 32 0)
      (set_key (DS28S60_GetHmacKey p (dc_info dc) BINDING_DATA_PAGE DS28S60_CMD_CPT_SECRET (ds_hw s)) (chip_view p dc (ds_hw s))))"
proof -
  let ?m = "GetMasterSecret p (ds_hw s)" and ?b = "GetBindingPageData p (ds_hw s)" and ?p = "GetPartialSecret p (ds_hw s)"
  have len: "length ?m = 32" "length ?b = 32" "length ?p = 32"
    by (simp_all add: GetMasterSecret_def GetBindingPageData_def GetPartialSecret_def chip_setup_laws(1) [OF doc])
  obtain h1 where h1: "order bus DS28S60_CMD_WRITE_MEM (BINDING_DATA_PAGE # ?b) s = Some (Inr (), s\<lparr>ds_hw := h1\<rparr>)"
    "chip_view p dc h1 = set_page BINDING_DATA_PAGE ?b (chip_view p dc (ds_hw s))"
    using order_answers [OF chip_setup_laws(4) [OF doc len(2) free]] len by auto
  have wp1: "\<not> prot_bit Prot_WP (dc_prot dc SECRET_A_BLOCK h1)" using h1(2) wp by (simp add: chip_view_def set_page_def fun_eq_iff)
  obtain h2 where h2: "order bus DS28S60_CMD_WRITE_MEM (SECRET_A_PG # ?m) (s\<lparr>ds_hw := h1\<rparr>) = Some (Inr (), s\<lparr>ds_hw := h2\<rparr>)"
    "chip_view p dc h2 = set_key ?m (chip_view p dc h1)"
    using order_answers [of p bus dc DS28S60_CMD_WRITE_MEM "SECRET_A_PG # ?m" "set_key ?m" "s\<lparr>ds_hw := h1\<rparr>"]
      chip_setup_laws(5) [OF doc len(1) wp1] len by auto
  have wp2: "\<not> prot_bit Prot_WP (dc_prot dc SECRET_A_BLOCK h2)" using h2(2) wp1 by (simp add: chip_view_def set_key_def fun_eq_iff)
  have k2: "dc_key dc h2 = ?m" "dc_page dc BINDING_DATA_PAGE h2 = ?b"
    using h1(2) h2(2) by (simp_all add: chip_view_def set_key_def set_page_def fun_eq_iff)
  let ?K = "DS28S60_GetHmacKey p (dc_info dc) BINDING_DATA_PAGE DS28S60_CMD_CPT_SECRET (ds_hw s)"
  obtain h3 where h3: "order bus DS28S60_CMD_CPT_SECRET ([BINDING_DATA_PAGE, 0] @ ?p) (s\<lparr>ds_hw := h2\<rparr>) = Some (Inr (), s\<lparr>ds_hw := h3\<rparr>)"
    "chip_view p dc h3 = set_key ?K (chip_view p dc h2)"
    using order_answers [of p bus dc DS28S60_CMD_CPT_SECRET "[BINDING_DATA_PAGE, 0] @ ?p" "set_key ?K" "s\<lparr>ds_hw := h2\<rparr>"]
      chip_setup_laws(7) [OF doc len(3) wp2] len k2 by (auto simp: DS28S60_GetHmacKey_def)
  have free3: "Prot_byte (dc_prot dc (of_nat MAX_USER_BLOCK) h3) = 0"
    using h1(2) h2(2) h3(2) free by (simp add: chip_view_def set_key_def set_page_def fun_eq_iff)
  obtain h4 where h4: "order bus DS28S60_CMD_WRITE_MEM (BINDING_DATA_PAGE # replicate 32 0) (s\<lparr>ds_hw := h3\<rparr>) = Some (Inr (), s\<lparr>ds_hw := h4\<rparr>)"
    "chip_view p dc h4 = set_page BINDING_DATA_PAGE (replicate 32 0) (chip_view p dc h3)"
    using order_answers [of p bus dc DS28S60_CMD_WRITE_MEM "BINDING_DATA_PAGE # replicate 32 0" "set_page BINDING_DATA_PAGE (replicate 32 0)" "s\<lparr>ds_hw := h3\<rparr>"]
      chip_setup_laws(4) [OF doc length_replicate free3] by auto
  have lock4: "unlocked (dc_prot dc SECRET_A_BLOCK (ds_hw (s\<lparr>ds_hw := h4\<rparr>)))"
    using h1(2) h2(2) h3(2) h4(2) lock by (simp add: chip_view_def set_key_def set_page_def fun_eq_iff)
  obtain h5 where h5: "DS28S60_SetBlockProtection bus \<lparr>Secret_byte = 0, Prot_byte = Prot_WP OR Prot_RP\<rparr> SECRET_A_BLOCK (s\<lparr>ds_hw := h4\<rparr>) = Some (Inr (), s\<lparr>ds_hw := h5\<rparr>)"
    "chip_view p dc h5 = set_prot SECRET_A_BLOCK secret_protection (chip_view p dc h4)"
    using set_protection [OF doc lock4, of "\<lparr>Secret_byte = 0, Prot_byte = Prot_WP OR Prot_RP\<rparr>"] kept_bits(2) by auto
  have "DS28S60_WriteSecret p bus s = Some (Inr (), s\<lparr>ds_hw := h5\<rparr>)"
    using h1(1) h2(1) h3(1) h4(1) h5(1) len
    by (simp add: DS28S60_WriteSecret_def seq_def get_state_def Let_def DS28S60_WritePage_def)
  moreover have "chip_view p dc h5 = set_prot SECRET_A_BLOCK secret_protection (set_page BINDING_DATA_PAGE (replicate 32 0) (set_key ?K (chip_view p dc (ds_hw s))))"
    unfolding h5(2) h4(2) h3(2) h2(2) h1(2) by (simp add: chip_view_def set_key_def set_page_def)
  ultimately show ?thesis by blast
qed

text \<open>The protection after binding.\<close>

definition protected_chip :: "'h ds_chip \<Rightarrow> 'h ds28s60 \<Rightarrow> bool" where
  "protected_chip dc s \<longleftrightarrow> dc_prot dc SECRET_A_BLOCK (ds_hw s) = secret_protection \<and>
     (\<forall>b\<le>MAX_USER_BLOCK. dc_prot dc (of_nat b) (ds_hw s) = user_protection)"

definition new_chip :: "'h platform \<Rightarrow> 'h ds_chip \<Rightarrow> 'h ds28s60 \<Rightarrow> bool" where
  "new_chip p dc s \<longleftrightarrow> \<not> CheckEntropy (otp_keys p (ds_hw s)) \<and> valid (g_ds28s60Info s) = 0 \<and>
     dc_prot dc SECRET_A_BLOCK (ds_hw s) = \<lparr>Secret_byte = 0, Prot_byte = 0\<rparr> \<and>
     (\<forall>b\<le>MAX_USER_BLOCK. dc_prot dc (of_nat b) (ds_hw s) = \<lparr>Secret_byte = 0, Prot_byte = 0\<rparr>)"

lemma fold_set_prot:
  "fold (\<lambda>b. set_prot (of_nat b) x) bs (P, K, R, T) = (P, K, (\<lambda>c. if c \<in> of_nat ` set bs then x else R c), T)"
  by (induction bs arbitrary: R) (auto simp: set_prot_def fun_eq_iff)

lemma secret_not_user: "SECRET_A_BLOCK \<notin> of_nat ` {0..<MAX_USER_BLOCK + 1}"
  by (auto simp: SECRET_A_BLOCK_def MAX_USER_BLOCK_def word_eq_iff_unsigned [where 'a = nat] unsigned_of_nat take_bit_eq_mod)

text \<open>
  C21: A device without keys that meets a new chip binds it: random keys are burnt, the chip computes from them the secret
  that the device will compute, the secret is write and read protected, and all user blocks
  accept only authenticated and encrypted access.
\<close>

theorem new_chip_bound:
  assumes pages: "chip_pages p bus dc" and doc: "chip_setup p bus dc" and new: "new_chip p dc s"
  shows "\<exists>s'. DS28S60_Binding p bus s = Some (Inr (), s') \<and> bound p dc s' \<and> protected_chip dc s' \<and>
    (\<exists>h. otp_keys p (ds_hw s') = fst (p_trng p 96 h))"
proof -
  note new = new [unfolded new_chip_def] and un = chip_pages_laws(7) [OF pages, of 2]
  obtain h0 where h0: "DS28S60_GetBlockProtection p bus SECRET_A_BLOCK s = Some (Inr (dc_prot dc SECRET_A_BLOCK (ds_hw s)), s\<lparr>ds_hw := h0\<rparr>)"
    "chip_view p dc h0 = chip_view p dc (ds_hw s)" using read_protection [OF doc un] by blast
  have otp0: "otp_keys p h0 = otp_keys p (ds_hw s)"
    using view_parts [OF h0(2)] by (simp add: otp_keys_def GetMasterSecret_def GetBindingPageData_def GetPartialSecret_def)
  obtain keys h1 where trng: "p_trng p 96 h0 = (keys, h1)" by fastforce
  have keys: "length keys = 96" "chip_view p dc h1 = chip_view p dc h0" using chip_pages_laws(8,9) [OF pages, of 96 h0] trng by simp_all
  define h2 where "h2 = p_otp_write p OTP_ADDR_DS28S60 keys h1"
  have prot2: "dc_prot dc b h2 = dc_prot dc b (ds_hw s)" for b
    using chip_setup_laws(10) [OF doc keys(1)] view_parts [OF keys(2)] view_parts [OF h0(2)] by (simp add: h2_def)
  have otp2: "otp_keys p h2 = keys" using chip_setup_laws(8) [OF doc keys(1)] by (simp add: h2_def)
  let ?K = "DS28S60_GetHmacKey p (dc_info dc) BINDING_DATA_PAGE DS28S60_CMD_CPT_SECRET h2"
  obtain h3 where h3: "DS28S60_WriteSecret p bus (s\<lparr>ds_hw := h2\<rparr>) = Some (Inr (), s\<lparr>ds_hw := h3\<rparr>)"
    "chip_view p dc h3 = set_prot SECRET_A_BLOCK secret_protection (set_page BINDING_DATA_PAGE (replicate 32 0) (set_key ?K (chip_view p dc h2)))"
    using write_secret [OF doc, of "s\<lparr>ds_hw := h2\<rparr>"] new prot2 by (auto simp: unlocked_def prot_bit_def)
  have prot3: "dc_prot dc b h3 = (if b = SECRET_A_BLOCK then secret_protection else dc_prot dc b (ds_hw s))" for b
    using h3(2) prot2 by (simp add: chip_view_def set_prot_def set_page_def set_key_def fun_eq_iff)
  let ?bs = "[0..<MAX_USER_BLOCK + 1]"
  have "\<forall>b\<in>set ?bs. unlocked (dc_prot dc (of_nat b) (ds_hw (s\<lparr>ds_hw := h3\<rparr>)))"
    using new prot3 by (auto simp: unlocked_def secret_protection_def)
  from set_blocks_protects [OF doc this] obtain h4 where h4: "set_blocks bus ?bs (s\<lparr>ds_hw := h3\<rparr>) = Some (Inr (), s\<lparr>ds_hw := h4\<rparr>)"
    "chip_view p dc h4 = fold (\<lambda>b. set_prot (of_nat b) user_protection) ?bs (chip_view p dc h3)" by auto
  have parts4: "dc_key dc h4 = dc_key dc h3" "p_otp_read p a h4 = p_otp_read p a h3"
    "dc_prot dc c h4 = (if c \<in> of_nat ` set ?bs then user_protection else dc_prot dc c h3)" for a c
    using h4(2) by (simp_all add: chip_view_def fold_set_prot fun_eq_iff del: upt_Suc set_upt)
  have parts3: "dc_key dc h3 = ?K" "p_otp_read p a h3 = p_otp_read p a h2" for a
    using h3(2) by (simp_all add: chip_view_def set_prot_def set_page_def set_key_def fun_eq_iff)
  have run: "DS28S60_Binding p bus s = Some (Inr (), s\<lparr>ds_hw := h4\<rparr>)"
    using h0(1) otp0 new trng h3(1) h4(1)
    by (simp add: DS28S60_Binding_def bind_chip_def seq_def get_state_def ds_trng_def ds_write_otp_def update_state_def DS28S60_Setup_def
        DS28S60_SetProctection_From_Index_def prot_bit_def h2_def del: upt_Suc)
  have "bound p dc (s\<lparr>ds_hw := h4\<rparr>)" using new parts4 parts3 key_otp [of p h4 h2] by (simp add: bound_def)
  moreover have "dc_prot dc (of_nat b) h4 = user_protection" if "b \<le> MAX_USER_BLOCK" for b
  proof -
    have "(of_nat b :: u8) \<in> of_nat ` set ?bs" using that by (intro imageI) auto
    then show ?thesis by (simp add: parts4(3) del: set_upt upt_Suc)
  qed
  moreover have "dc_prot dc SECRET_A_BLOCK h4 = secret_protection"
    using secret_not_user by (simp add: parts4(3) prot3 del: upt_Suc)
  moreover have "otp_keys p h4 = keys"
    using otp2 parts4(2) parts3(2) by (simp add: otp_keys_def GetMasterSecret_def GetBindingPageData_def GetPartialSecret_def)
  ultimately show ?thesis using run trng
    by (intro exI [of _ "s\<lparr>ds_hw := h4\<rparr>"]) (auto simp add: protected_chip_def intro!: exI [of _ h0])
qed

section \<open>An interrupted binding\<close>

lemma tries_refused:
  assumes doc: "chip_setup p bus dc" and len: "length d = 32"
  shows "prot_bit Prot_WP (dc_prot dc SECRET_A_BLOCK h) \<Longrightarrow> 0 < n \<Longrightarrow>
    fst (fst (send_tries bus DS28S60_CMD_WRITE_MEM (SECRET_A_PG # d) 33 0 n ret None h)) \<noteq> 0"
proof (induction n arbitrary: ret h)
  case (Suc n)
  obtain stream h' where bus: "bus ([DS28S60_CMD_WRITE_MEM, 33] @ SECRET_A_PG # d) h = (stream, h')" and r: "replies stream RESULT_PROTECTED []"
    and view: "chip_view p dc h' = chip_view p dc h"
    using chip_setup_laws(6) [OF doc len Suc.prems(1)] len by (auto simp: answers_def)
  have "take (unat (33 :: u8)) (SECRET_A_PG # d) = SECRET_A_PG # d" using len by simp
  with try_replies [of bus DS28S60_CMD_WRITE_MEM 33 "SECRET_A_PG # d" h stream h', OF _ r] bus
  have attempt: "DS28S60_TrySendCmdAndGetResult bus DS28S60_CMD_WRITE_MEM (SECRET_A_PG # d) 33 0 None h = ((0x55, None), h')"
    by (simp add: RESULT_PROTECTED_def DS28S60_RESULT_BYTE_SUCCESS_def)
  show ?case
  proof (cases n)
    case 0
    then show ?thesis by (simp add: attempt)
  next
    case Suc': (Suc m)
    have "prot_bit Prot_WP (dc_prot dc SECRET_A_BLOCK h')" using Suc.prems(1) view_parts(3) [OF view] by simp
    from Suc.IH [OF this, of "0x55"] Suc' show ?thesis by (simp add: attempt)
  qed
qed simp

lemma secret_refused:
  assumes doc: "chip_setup p bus dc" and len: "length d = 32" and wp: "prot_bit Prot_WP (dc_prot dc SECRET_A_BLOCK (ds_hw s))"
  shows "DS28S60_WritePage bus d SECRET_A_PG s = None"
  using tries_refused [OF doc len wp, of RETRY_MAX_COUNT 0] len
  by (auto simp: DS28S60_WritePage_def order_def seq_def DS28S60_SendCmdAndGetResult_def RETRY_MAX_COUNT_def split: prod.splits)

text \<open>The search finds the first block without protection.\<close>

lemma find_block_first:
  assumes doc: "chip_setup p bus dc" and un: "length (p_uninit p 2) = 2"
  shows "left \<le> k \<Longrightarrow> k \<le> right \<Longrightarrow> \<forall>b<right. prot_bit Prot_APH (dc_prot dc (of_nat b) (ds_hw s)) \<longleftrightarrow> b < k \<Longrightarrow>
    \<exists>h. find_block p bus left right s = Some (Inr k, s\<lparr>ds_hw := h\<rparr>) \<and> chip_view p dc h = chip_view p dc (ds_hw s)"
proof (induction "right - left" arbitrary: left right s rule: less_induct)
  case less
  show ?case
  proof (cases "left < right")
    case False
    then show ?thesis using less.prems by (subst find_block.simps) (auto intro!: exI [of _ "ds_hw s"])
  next
    case True
    define mid where "mid = left + (right - left) div 2"
    have mid: "left \<le> mid" "mid < right" using True by (auto simp: mid_def)
    obtain h where h: "DS28S60_GetBlockProtection p bus (of_nat mid) s = Some (Inr (dc_prot dc (of_nat mid) (ds_hw s)), s\<lparr>ds_hw := h\<rparr>)"
      "chip_view p dc h = chip_view p dc (ds_hw s)" using read_protection [OF doc un] by blast
    have all: "\<forall>b<right. prot_bit Prot_APH (dc_prot dc (of_nat b) (ds_hw (s\<lparr>ds_hw := h\<rparr>))) \<longleftrightarrow> b < k"
      using less.prems(3) view_parts [OF h(2)] by simp
    show ?thesis
    proof (cases "mid < k")
      case True
      have "right - (mid + 1) < right - left" using mid by linarith
      with True less.hyps [of right "mid + 1" "s\<lparr>ds_hw := h\<rparr>"] mid less.prems all
      obtain h' where "find_block p bus (mid + 1) right (s\<lparr>ds_hw := h\<rparr>) = Some (Inr k, s\<lparr>ds_hw := h'\<rparr>)" "chip_view p dc h' = chip_view p dc h"
        by auto
      then show ?thesis using True \<open>left < right\<close> mid h less.prems(3)
        by (subst find_block.simps) (auto simp add: Let_def mid_def [symmetric])
    next
      case False
      have "mid - left < right - left" using mid by linarith
      with False less.hyps [of mid left "s\<lparr>ds_hw := h\<rparr>"] mid less.prems all
      obtain h' where "find_block p bus left mid (s\<lparr>ds_hw := h\<rparr>) = Some (Inr k, s\<lparr>ds_hw := h'\<rparr>)" "chip_view p dc h' = chip_view p dc h"
        by auto
      then show ?thesis using False \<open>left < right\<close> mid h less.prems(3)
        by (subst find_block.simps) (auto simp add: Let_def mid_def [symmetric])
    qed
  qed
qed

text \<open>The keys are burnt, but the power failed before all \<open>MAX_USER_BLOCK + 1\<close> blocks were protected.\<close>

definition interrupted_binding :: "'h platform \<Rightarrow> 'h ds_chip \<Rightarrow> 'h ds28s60 \<Rightarrow> bool" where
  "interrupted_binding p dc s \<longleftrightarrow> CheckEntropy (otp_keys p (ds_hw s)) \<and>
     (\<not> prot_bit Prot_WP (dc_prot dc SECRET_A_BLOCK (ds_hw s)) \<or>
      dc_prot dc SECRET_A_BLOCK (ds_hw s) = secret_protection \<and>
      (\<exists>k\<le>MAX_USER_BLOCK. \<forall>b\<le>MAX_USER_BLOCK. dc_prot dc (of_nat b) (ds_hw s) =
         (if b < k then user_protection else \<lparr>Secret_byte = 0, Prot_byte = 0\<rparr>)))"

text \<open>
  C22: A binding that was interrupted after the keys were burnt can never be completed: every later start of the device
  fails an assertion. Though the search for the first unprotected block is right, the code then
  writes the secret again, and the chip refuses this once its block is write protected.
\<close>

theorem interrupted_binding_halts:
  assumes pages: "chip_pages p bus dc" and doc: "chip_setup p bus dc" and i: "interrupted_binding p dc s"
  shows "DS28S60_Init p bus s = None"
proof -
  note i = i [unfolded interrupted_binding_def] and un = chip_pages_laws(7) [OF pages, of 2]
  obtain h0 where h0: "DS28S60_GetBlockProtection p bus SECRET_A_BLOCK s = Some (Inr (dc_prot dc SECRET_A_BLOCK (ds_hw s)), s\<lparr>ds_hw := h0\<rparr>)"
    "chip_view p dc h0 = chip_view p dc (ds_hw s)" using read_protection [OF doc un] by blast
  have otp0: "otp_keys p h0 = otp_keys p (ds_hw s)"
    using view_parts [OF h0(2)] by (simp add: otp_keys_def GetMasterSecret_def GetBindingPageData_def GetPartialSecret_def)
  show ?thesis
  proof (cases "prot_bit Prot_WP (dc_prot dc SECRET_A_BLOCK (ds_hw s))")
    case False
    then show ?thesis using h0(1) otp0 i
      by (simp add: DS28S60_Init_def DS28S60_Binding_def bind_chip_def seq_def get_state_def fail_with_def)
  next
    case True
    with i obtain k where k: "k \<le> MAX_USER_BLOCK" and prot: "\<forall>b\<le>MAX_USER_BLOCK. dc_prot dc (of_nat b) (ds_hw s) =
      (if b < k then user_protection else \<lparr>Secret_byte = 0, Prot_byte = 0\<rparr>)" by blast
    obtain h1 where h1: "DS28S60_GetBlockProtection p bus (of_nat MAX_USER_BLOCK) (s\<lparr>ds_hw := h0\<rparr>) =
        Some (Inr (dc_prot dc (of_nat MAX_USER_BLOCK) h0), s\<lparr>ds_hw := h1\<rparr>)" "chip_view p dc h1 = chip_view p dc h0"
      using read_protection [OF doc un, of "of_nat MAX_USER_BLOCK" "s\<lparr>ds_hw := h0\<rparr>"] by auto
    have prot1: "dc_prot dc b h1 = dc_prot dc b (ds_hw s)" for b using view_parts [OF h1(2)] view_parts [OF h0(2)] by simp
    have aph: "prot_bit Prot_APH user_protection" "\<not> prot_bit Prot_APH \<lparr>Secret_byte = 0, Prot_byte = 0\<rparr>"
      by (simp_all add: prot_bit_def user_protection_def Prot_APH_def Prot_EPH_def)
    have "\<forall>b<MAX_USER_BLOCK. prot_bit Prot_APH (dc_prot dc (of_nat b) (ds_hw (s\<lparr>ds_hw := h1\<rparr>))) \<longleftrightarrow> b < k"
      using prot aph prot1 by simp
    from find_block_first [OF doc un le0 k this]
    obtain h2 where h2: "find_block p bus 0 MAX_USER_BLOCK (s\<lparr>ds_hw := h1\<rparr>) = Some (Inr k, s\<lparr>ds_hw := h2\<rparr>)" "chip_view p dc h2 = chip_view p dc h1" by auto
    let ?b = "GetBindingPageData p h2" and ?m = "GetMasterSecret p h2"
    have len: "length ?b = 32" "length ?m = 32" by (simp_all add: GetMasterSecret_def GetBindingPageData_def chip_setup_laws(1) [OF doc])
    have prot2: "dc_prot dc b h2 = dc_prot dc b (ds_hw s)" for b using view_parts [OF h2(2)] prot1 by simp
    have "Prot_byte (dc_prot dc (of_nat MAX_USER_BLOCK) h2) = 0" using prot prot2 k by auto
    then obtain h3 where h3: "DS28S60_WritePage bus ?b BINDING_DATA_PAGE (s\<lparr>ds_hw := h2\<rparr>) = Some (Inr (), s\<lparr>ds_hw := h3\<rparr>)"
      "chip_view p dc h3 = set_page BINDING_DATA_PAGE ?b (chip_view p dc h2)"
      using order_answers [of p bus dc DS28S60_CMD_WRITE_MEM "BINDING_DATA_PAGE # ?b" "set_page BINDING_DATA_PAGE ?b" "s\<lparr>ds_hw := h2\<rparr>"]
        chip_setup_laws(4) [OF doc len(1)] len by (auto simp: DS28S60_WritePage_def)
    have "prot_bit Prot_WP (dc_prot dc SECRET_A_BLOCK (ds_hw (s\<lparr>ds_hw := h3\<rparr>)))"
      using h3(2) True prot2 by (simp add: chip_view_def set_page_def fun_eq_iff)
    from secret_refused [OF doc len(2) this] h0(1) h1 h2(1) h3(1) True otp0 i prot view_parts [OF h0(2)] k aph show ?thesis
      by (simp add: DS28S60_Init_def DS28S60_Binding_def bind_chip_def seq_def get_state_def ConfirmBlockSettings_def
          DS28S60_SetProctection_From_Index_def DS28S60_WriteSecret_def Let_def)
  qed
qed

section \<open>An example chip\<close>

text \<open>
  A chip in the state of the example hardware: pages below 256, the secret at 2000, the protections from 3000,
  the one-time programmable memory in the slots. It answers at once.
\<close>

definition example_info :: ds28s60_info where
  "example_info = \<lparr>ROMID = [1, 2, 3, 4, 5, 6, 7, 8], MANID = [9, 9], valid = DS28S60_INFO_VALID\<rparr>"

definition example_chip :: "example_hw ds_chip" where
  "example_chip = \<lparr>
     dc_page = (\<lambda>q h. fit 32 (x_pages h (unat q))),
     dc_key = (\<lambda>h. x_pages h 2000),
     dc_prot = (\<lambda>b h. \<lparr>Secret_byte = fit 2 (x_pages h (3000 + unat b)) ! 0, Prot_byte = fit 2 (x_pages h (3000 + unat b)) ! 1\<rparr>),
     dc_info = example_info\<rparr>"

definition chip_platform :: "example_hw platform" where
  "chip_platform = example_platform\<lparr>
     p_otp_read := (\<lambda>a h. fit 32 (x_slots h a)),
     p_otp_write := (\<lambda>a d h. h\<lparr>x_slots := (x_slots h)(a := take 32 d, a + 32 := take 32 (drop 32 d), a + 64 := drop 64 d)\<rparr>)\<rparr>"

definition example_reply :: "u8 \<Rightarrow> bytes \<Rightarrow> nat \<Rightarrow> u8" where
  "example_reply result data i = (if i < length data + 2 then (of_nat (length data + 1) # result # data) ! i else 0)"

definition put :: "nat \<Rightarrow> bytes \<Rightarrow> example_hw \<Rightarrow> example_hw" where
  "put q d h = h\<lparr>x_pages := (x_pages h)(q := d)\<rparr>"

definition ok_reply :: "bytes \<Rightarrow> example_hw \<Rightarrow> (nat \<Rightarrow> u8) \<times> example_hw" where
  "ok_reply data h = (example_reply DS28S60_RESULT_BYTE_SUCCESS data, h)"

definition example_write :: "bytes \<Rightarrow> example_hw \<Rightarrow> (nat \<Rightarrow> u8) \<times> example_hw" where
  "example_write para h =
     (if hd para = SECRET_A_PG then
        if prot_bit Prot_WP (dc_prot example_chip SECRET_A_BLOCK h) then (example_reply RESULT_PROTECTED [], h)
        else ok_reply [] (put 2000 (tl para) h)
      else ok_reply [] (put (unat (hd para)) (tl para) h))"

definition example_auth_write :: "bytes \<Rightarrow> example_hw \<Rightarrow> (nat \<Rightarrow> u8) \<times> example_hw" where
  "example_auth_write para h =
     (let page = hd para; c = drop 65 para; key = dc_key example_chip h;
          data = xor_bytes (take 32 (tl para)) (p_hmac_sha256 chip_platform key (page_msg c example_info page DS28S60_CMD_AUTH_WRITE))
      in if take 32 (drop 33 para) = p_hmac_sha256 chip_platform key (content_msg example_info (dc_page example_chip page h) data page DS28S60_CMD_AUTH_WRITE)
         then ok_reply [] (put (unat page) data h) else (example_reply 0 [], h))"

definition example_bus :: "example_hw ds_bus" where
  "example_bus sent h =
     (let cmd = hd sent; para = drop 2 sent; key = dc_key example_chip h; arg = hd para in
      if cmd = DS28S60_CMD_READ_MEM then ok_reply (replicate 22 0 @ MANID example_info @ ROMID example_info) h
      else if cmd = DS28S60_CMD_ENC_READ then
        ok_reply (replicate 8 1 @ xor_bytes (dc_page example_chip arg h)
          (p_hmac_sha256 chip_platform key (page_msg (replicate 8 1) example_info arg DS28S60_CMD_ENC_READ))) h
      else if cmd = DS28S60_CMD_AUTH_WRITE then example_auth_write para h
      else if cmd = DS28S60_CMD_READ_PROTECTION then
        ok_reply [Secret_byte (dc_prot example_chip arg h), Prot_byte (dc_prot example_chip arg h)] h
      else if cmd = DS28S60_CMD_SET_PROTECTION then ok_reply [] (put (3000 + unat arg) (tl para) h)
      else if cmd = DS28S60_CMD_WRITE_MEM then example_write para h
      else if cmd = DS28S60_CMD_CPT_SECRET then
        ok_reply [] (put 2000 (p_hmac_sha256 chip_platform key (ROMID example_info @ dc_page example_chip BINDING_DATA_PAGE h @
          drop 2 para @ [BINDING_DATA_PAGE] @ MANID example_info @ [DS28S60_CMD_CPT_SECRET])) h)
      else (example_reply 0 [], h))"

lemma example_replies: "replies (example_reply result data) result data"
  unfolding replies_def by (rule exI [of _ 0]) (auto simp: example_reply_def)

lemma example_answers:
  assumes "example_bus ([cmd, of_nat (length para)] @ para) h = ok_reply data h'"
    and "chip_view chip_platform example_chip h' = f (chip_view chip_platform example_chip h)"
  shows "answers chip_platform example_bus example_chip cmd para DS28S60_RESULT_BYTE_SUCCESS data f h"
  using assms example_replies by (auto simp: answers_def ok_reply_def)

lemmas command_numbers = DS28S60_CMD_READ_MEM_def DS28S60_CMD_ENC_READ_def DS28S60_CMD_AUTH_WRITE_def DS28S60_CMD_READ_PROTECTION_def
  DS28S60_CMD_SET_PROTECTION_def DS28S60_CMD_WRITE_MEM_def DS28S60_CMD_CPT_SECRET_def

lemma unat_u8_eq: "unat (x :: u8) = unat y \<longleftrightarrow> x = y"
  by (simp add: word_eq_iff_unsigned [where 'a = nat])

lemma put_page: "length d = 32 \<Longrightarrow> chip_view chip_platform example_chip (put (unat (q :: u8)) d h) = set_page q d (chip_view chip_platform example_chip h)"
  using unsigned_less [of q, where 'a = nat]
  by (auto simp: chip_view_def set_page_def put_def example_chip_def chip_platform_def fun_eq_iff unat_u8_eq)

lemma put_key: "chip_view chip_platform example_chip (put 2000 d h) = set_key d (chip_view chip_platform example_chip h)"
proof -
  have "unat (q :: u8) \<noteq> 2000" for q using unsigned_less [of q, where 'a = nat] by simp
  then show ?thesis by (auto simp: chip_view_def set_key_def put_def example_chip_def chip_platform_def fun_eq_iff unat_u8_eq)
qed

lemma put_prot: "chip_view chip_platform example_chip (put (3000 + unat (b :: u8)) [x, y] h) =
   set_prot b \<lparr>Secret_byte = x, Prot_byte = y\<rparr> (chip_view chip_platform example_chip h)"
proof -
  have "unat (q :: u8) \<noteq> 3000 + unat b" for q using unsigned_less [of q, where 'a = nat] by simp
  then show ?thesis by (auto simp: chip_view_def set_prot_def put_def example_chip_def chip_platform_def fun_eq_iff unat_u8_eq)
qed

lemma example_parts:
  "dc_info example_chip = example_info" "p_hmac_sha256 chip_platform k m = fit 32 (m @ k)" "length (dc_page example_chip q h) = 32"
  "p_uninit chip_platform n = replicate n 0"
  "p_trng chip_platform n h = (replicate n (of_nat (x_seed h)), h\<lparr>x_seed := x_seed h + 1\<rparr>)"
  by (simp_all add: example_chip_def chip_platform_def example_platform_def)

lemma example_encrypted_write:
  assumes len: "length c = 8" "length data = 32"
  shows "answers chip_platform example_bus example_chip DS28S60_CMD_AUTH_WRITE
    ([page] @ xor_bytes data (p_hmac_sha256 chip_platform (dc_key example_chip h) (page_msg c example_info page DS28S60_CMD_AUTH_WRITE)) @
     p_hmac_sha256 chip_platform (dc_key example_chip h) (content_msg example_info (dc_page example_chip page h) data page DS28S60_CMD_AUTH_WRITE) @ c)
    DS28S60_RESULT_BYTE_SUCCESS [] (set_page page data) h" (is "answers _ _ _ _ ?para _ _ _ _")
proof (rule example_answers)
  let ?m = "p_hmac_sha256 chip_platform (dc_key example_chip h) (page_msg c example_info page DS28S60_CMD_AUTH_WRITE)"
  let ?a = "p_hmac_sha256 chip_platform (dc_key example_chip h) (content_msg example_info (dc_page example_chip page h) data page DS28S60_CMD_AUTH_WRITE)"
  have l: "length ?m = 32" "length ?a = 32" by (simp_all add: example_parts)
  then have e: "length (xor_bytes data ?m) = 32" by (simp add: xor_bytes_def len)
  have "example_auth_write ?para h = ok_reply [] (put (unat page) data h)"
    using l e len by (simp add: example_auth_write_def Let_def xor_twice drop_Cons')
  then show "example_bus ([DS28S60_CMD_AUTH_WRITE, of_nat (length ?para)] @ ?para) h = ok_reply [] (put (unat page) data h)"
    by (simp add: example_bus_def Let_def command_numbers)
  show "chip_view chip_platform example_chip (put (unat page) data h) = set_page page data (chip_view chip_platform example_chip h)"
    by (rule put_page [OF len(2)])
qed

lemma example_chip_pages: "chip_pages chip_platform example_bus example_chip"
  unfolding chip_pages_def
proof (intro conjI allI impI)
  fix h :: example_hw
  let ?d = "replicate 22 0 @ MANID example_info @ ROMID example_info :: bytes"
  have "answers chip_platform example_bus example_chip DS28S60_CMD_READ_MEM [ROM_OPTION_PG] DS28S60_RESULT_BYTE_SUCCESS ?d id h"
    by (rule example_answers [of _ _ h ?d h]) (simp_all add: example_bus_def Let_def)
  then show "\<exists>d. length d = 32 \<and> take 8 (drop 24 d) = ROMID (dc_info example_chip) \<and> take 2 (drop 22 d) = MANID (dc_info example_chip) \<and>
      answers chip_platform example_bus example_chip DS28S60_CMD_READ_MEM [ROM_OPTION_PG] DS28S60_RESULT_BYTE_SUCCESS d id h"
    by (intro exI [of _ ?d]) (simp add: example_parts example_info_def)
next
  fix h :: example_hw and page :: u8
  let ?d = "xor_bytes (dc_page example_chip page h) (p_hmac_sha256 chip_platform (dc_key example_chip h) (page_msg (replicate 8 1) (dc_info example_chip) page DS28S60_CMD_ENC_READ))"
  have "answers chip_platform example_bus example_chip DS28S60_CMD_ENC_READ [page] DS28S60_RESULT_BYTE_SUCCESS (replicate 8 1 @ ?d) id h"
    by (rule example_answers [of _ _ h _ h]) (simp_all add: example_bus_def Let_def command_numbers example_parts(1))
  then show "\<exists>c. length c = 8 \<and> answers chip_platform example_bus example_chip DS28S60_CMD_ENC_READ [page] DS28S60_RESULT_BYTE_SUCCESS
      (c @ xor_bytes (dc_page example_chip page h) (p_hmac_sha256 chip_platform (dc_key example_chip h) (page_msg c (dc_info example_chip) page DS28S60_CMD_ENC_READ))) id h"
    by (intro exI [of _ "replicate 8 1"]) simp
next
  fix n and h :: example_hw
  show "chip_view chip_platform example_chip (snd (p_trng chip_platform n h)) = chip_view chip_platform example_chip h"
    by (simp add: chip_view_def example_chip_def chip_platform_def example_platform_def)
next
  fix h :: example_hw and page :: u8 and c data :: bytes assume "length c = 8" and "length data = 32"
  then show "answers chip_platform example_bus example_chip DS28S60_CMD_AUTH_WRITE
      ([page] @ xor_bytes data (p_hmac_sha256 chip_platform (dc_key example_chip h) (page_msg c (dc_info example_chip) page DS28S60_CMD_AUTH_WRITE)) @
       p_hmac_sha256 chip_platform (dc_key example_chip h) (content_msg (dc_info example_chip) (dc_page example_chip page h) data page DS28S60_CMD_AUTH_WRITE) @ c)
      DS28S60_RESULT_BYTE_SUCCESS [] (set_page page data) h"
    unfolding example_parts(1) by (rule example_encrypted_write)
qed (simp_all add: example_parts, simp_all add: example_info_def DS28S60_INFO_VALID_def)

lemma example_chip_setup: "chip_setup chip_platform example_bus example_chip"
  unfolding chip_setup_def
proof (intro conjI allI impI)
  fix h :: example_hw and b :: u8
  show "answers chip_platform example_bus example_chip DS28S60_CMD_READ_PROTECTION [b] DS28S60_RESULT_BYTE_SUCCESS
      [Secret_byte (dc_prot example_chip b h), Prot_byte (dc_prot example_chip b h)] id h"
    by (rule example_answers [of _ _ h _ h]) (simp_all add: example_bus_def Let_def command_numbers)
next
  fix h :: example_hw and b x y :: u8
  show "answers chip_platform example_bus example_chip DS28S60_CMD_SET_PROTECTION [b, x, y] DS28S60_RESULT_BYTE_SUCCESS []
      (set_prot b \<lparr>Secret_byte = x, Prot_byte = y\<rparr>) h"
    by (rule example_answers [of _ _ h _ "put (3000 + unat b) [x, y] h"]) (simp_all add: example_bus_def Let_def command_numbers put_prot)
next
  fix h :: example_hw and d :: bytes assume d: "length d = 32"
  show "answers chip_platform example_bus example_chip DS28S60_CMD_WRITE_MEM (BINDING_DATA_PAGE # d) DS28S60_RESULT_BYTE_SUCCESS [] (set_page BINDING_DATA_PAGE d) h"
    by (rule example_answers [of _ _ h _ "put (unat BINDING_DATA_PAGE) d h"])
      (simp add: example_bus_def Let_def command_numbers example_write_def BINDING_DATA_PAGE_def SECRET_A_PG_def, rule put_page [OF d])
next
  fix h :: example_hw and d :: bytes assume d: "length d = 32" and wp: "\<not> prot_bit Prot_WP (dc_prot example_chip SECRET_A_BLOCK h)"
  show "answers chip_platform example_bus example_chip DS28S60_CMD_WRITE_MEM (SECRET_A_PG # d) DS28S60_RESULT_BYTE_SUCCESS [] (set_key d) h"
    by (rule example_answers [of _ _ h _ "put 2000 d h"]) (simp_all add: put_key example_bus_def Let_def command_numbers example_write_def wp)
next
  fix h :: example_hw and d :: bytes assume d: "length d = 32" and wp: "prot_bit Prot_WP (dc_prot example_chip SECRET_A_BLOCK h)"
  show "answers chip_platform example_bus example_chip DS28S60_CMD_WRITE_MEM (SECRET_A_PG # d) RESULT_PROTECTED [] id h"
    using example_replies by (simp add: answers_def example_bus_def Let_def command_numbers example_write_def wp)
next
  fix h :: example_hw and d :: bytes assume d: "length d = 32" and wp: "\<not> prot_bit Prot_WP (dc_prot example_chip SECRET_A_BLOCK h)"
  show "answers chip_platform example_bus example_chip DS28S60_CMD_CPT_SECRET ([BINDING_DATA_PAGE, 0] @ d) DS28S60_RESULT_BYTE_SUCCESS []
      (set_key (p_hmac_sha256 chip_platform (dc_key example_chip h) (ROMID (dc_info example_chip) @ dc_page example_chip BINDING_DATA_PAGE h @ d @
        [BINDING_DATA_PAGE] @ MANID (dc_info example_chip) @ [DS28S60_CMD_CPT_SECRET]))) h"
    (is "answers _ _ _ _ _ _ _ (set_key ?k) _")
    by (rule example_answers [where f = "set_key ?k" and h = h and h' = "put 2000 ?k h", OF _ put_key])
      (simp add: example_bus_def Let_def command_numbers example_parts(1))
qed (auto simp: chip_platform_def example_chip_def otp_keys_def GetMasterSecret_def GetBindingPageData_def GetPartialSecret_def OTP_ADDR_DS28S60_def
    simp flip: append_assoc take_add)

text \<open>A new device, one that is bound, and one whose binding was interrupted.\<close>

definition chip_start :: "(nat \<Rightarrow> bytes) \<Rightarrow> (nat \<Rightarrow> bytes) \<Rightarrow> example_hw ds28s60" where
  "chip_start pages slots = \<lparr>ds_hw = \<lparr>x_pages = pages, x_slots = slots, x_seed = 1, x_flash = (\<lambda>a. 0xFF)\<rparr>,
     g_ds28s60Info = \<lparr>ROMID = replicate 8 0, MANID = [0, 0], valid = 0\<rparr>\<rparr>"

lemma new_chip_bound_witness:
  "\<exists>s'. DS28S60_Binding chip_platform example_bus (chip_start (\<lambda>_. []) (\<lambda>_. [])) = Some (Inr (), s') \<and>
    bound chip_platform example_chip s' \<and> protected_chip example_chip s' \<and>
    (\<exists>h. otp_keys chip_platform (ds_hw s') = fst (p_trng chip_platform 96 h))"
  by (rule new_chip_bound [OF example_chip_pages example_chip_setup])
    (auto simp: new_chip_def chip_start_def example_chip_def chip_platform_def otp_keys_def GetMasterSecret_def GetBindingPageData_def
      GetPartialSecret_def fit_def CheckEntropy_iff)

lemma ds28s60_is_page_array_witness:
  "\<exists>s s' s''. bound chip_platform example_chip s \<and>
    ds_writes chip_platform example_bus [(3, replicate 32 1), (4, replicate 32 2), (3, replicate 32 5)] s = Some (Inr (), s') \<and>
    DS28S60_HmacEncryptRead chip_platform example_bus 3 s' = Some (Inr (replicate 32 5), s'')"
proof -
  let ?key = "DS28S60_GetHmacKey chip_platform example_info BINDING_DATA_PAGE DS28S60_CMD_CPT_SECRET (ds_hw (chip_start (\<lambda>_. []) (\<lambda>_. [])))"
  let ?s = "chip_start (\<lambda>q. if q = 2000 then ?key else []) (\<lambda>_. [])"
  have b: "bound chip_platform example_chip ?s"
    by (simp add: bound_def chip_start_def example_chip_def DS28S60_GetHmacKey_def GetMasterSecret_def GetBindingPageData_def GetPartialSecret_def
        chip_platform_def)
  have "pages_after [(3, replicate 32 1), (4, replicate 32 2), (3, replicate 32 5)] m 3 = replicate 32 5" for m by (simp add: pages_after_def)
  then show ?thesis
    using b ds28s60_is_page_array [OF example_chip_pages b, of "[(3, replicate 32 1), (4, replicate 32 2), (3, replicate 32 5)]" 3]
    by (auto simp: BINDING_DATA_PAGE_def)
qed

lemma interrupted_binding_halts_witness:
  "DS28S60_Init chip_platform example_bus
     (chip_start (\<lambda>q. if q = 3031 then [0, 3] else if 3000 \<le> q \<and> q < 3005 then [4, 12] else []) (\<lambda>_. replicate 32 7)) = None"
proof (rule interrupted_binding_halts [OF example_chip_pages example_chip_setup])
  let ?q = "\<lambda>q :: nat. if q = 3031 then [0, 3] else if 3000 \<le> q \<and> q < 3005 then [4, 12] else [] :: bytes"
  have b: "dc_prot example_chip (of_nat b) (ds_hw (chip_start ?q s)) = (if b < 5 then user_protection else \<lparr>Secret_byte = 0, Prot_byte = 0\<rparr>)"
    if "b \<le> MAX_USER_BLOCK" for b s
    using that by (auto simp: example_chip_def chip_start_def user_protection_def MAX_USER_BLOCK_def unat_of_nat fit_def
        DS28S60_SECRET_KEY_A_def Prot_APH_def Prot_EPH_def)
  have "dc_prot example_chip SECRET_A_BLOCK (ds_hw (chip_start ?q s)) = secret_protection" for s
    by (simp add: example_chip_def chip_start_def secret_protection_def SECRET_A_BLOCK_def fit_def Prot_WP_def Prot_RP_def)
  moreover have "CheckEntropy (otp_keys chip_platform (ds_hw (chip_start q (\<lambda>_. replicate 32 7))))" for q
    by (simp add: otp_keys_def GetMasterSecret_def chip_platform_def chip_start_def CheckEntropy_iff)
  ultimately show "interrupted_binding chip_platform example_chip (chip_start ?q (\<lambda>_. replicate 32 7))"
    using b by (auto simp: interrupted_binding_def MAX_USER_BLOCK_def intro!: exI [of _ 5])
qed

end
