(* ===== verification/PsramHeap.thy ===== *)
theory PsramHeap
  imports Prelude
begin

text \<open>
  The heap of the external memory, \<^verbatim>\<open>src/ram/psram_heap_4.c\<close>: blocks with a header each, the free ones in a
  list in the order of their addresses, first fit, neighbours merged when a block is freed. Addresses
  and sizes are the 32-bit numbers of the device, written as natural numbers with their wrap-around; the memory is seen as a map from
  addresses to headers. The address of \<^verbatim>\<open>xStart\<close> is the parameter \<open>xs\<close>. The loops over the list end only
  because of the invariant, so they are partial functions, and \<open>None\<close> is a loop that does not end or a failed assertion. The lemmas: every
  call keeps the heap a sequence of blocks in which no two free ones are neighbours, a block that is
  handed out is a free part of the memory of the size asked for, and no other block changes.
\<close>

section \<open>The heap\<close>

record block_link =
  pxNextFreeBlock :: nat
  xBlockSize :: nat

type_synonym block_memory = "nat \<Rightarrow> block_link"

record psram_heap =
  heap_memory :: block_memory
  pxEnd :: nat
  xFreeBytesRemaining :: nat
  xMinimumEverFreeBytesRemaining :: nat
  xNumberOfSuccessfulAllocations :: nat
  xNumberOfSuccessfulFrees :: nat
  xBlockAllocatedBit :: nat

definition GetPsramMappedAddr :: nat where "GetPsramMappedAddr = 0x80000000"
definition GetPsramTotalSize :: nat where "GetPsramTotalSize = 0x800000"
definition portBYTE_ALIGNMENT :: nat where "portBYTE_ALIGNMENT = 8"
definition portBYTE_ALIGNMENT_MASK :: nat where "portBYTE_ALIGNMENT_MASK = 7"

definition w32 :: "nat \<Rightarrow> nat" where
  "w32 n = n mod 2 ^ 32"

definition xHeapStructSize :: nat where
  "xHeapStructSize = (8 + (portBYTE_ALIGNMENT - 1)) AND (2 ^ 32 - 1 - portBYTE_ALIGNMENT_MASK)"

definition heapMINIMUM_BLOCK_SIZE :: nat where
  "heapMINIMUM_BLOCK_SIZE = push_bit 1 xHeapStructSize"

definition psram_power_on :: "block_memory \<Rightarrow> psram_heap" where
  "psram_power_on m = \<lparr>heap_memory = m, pxEnd = 0, xFreeBytesRemaining = 0, xMinimumEverFreeBytesRemaining = 0,
     xNumberOfSuccessfulAllocations = 0, xNumberOfSuccessfulFrees = 0, xBlockAllocatedBit = 0\<rparr>"

abbreviation next_of :: "block_memory \<Rightarrow> nat \<Rightarrow> nat" where
  "next_of m a \<equiv> pxNextFreeBlock (m a)"

abbreviation size_of :: "block_memory \<Rightarrow> nat \<Rightarrow> nat" where
  "size_of m a \<equiv> xBlockSize (m a)"

definition set_next :: "nat \<Rightarrow> nat \<Rightarrow> block_memory \<Rightarrow> block_memory" where
  "set_next a n m = m(a := (m a)\<lparr>pxNextFreeBlock := n\<rparr>)"

definition set_size :: "nat \<Rightarrow> nat \<Rightarrow> block_memory \<Rightarrow> block_memory" where
  "set_size a n m = m(a := (m a)\<lparr>xBlockSize := n\<rparr>)"

definition on_memory :: "(block_memory \<Rightarrow> block_memory) \<Rightarrow> psram_heap \<Rightarrow> psram_heap" where
  "on_memory f h = h\<lparr>heap_memory := f (heap_memory h)\<rparr>"

definition prvHeapInit :: "nat \<Rightarrow> psram_heap \<Rightarrow> psram_heap" where
  "prvHeapInit xs h =
     (let ucHeap = GetPsramMappedAddr;
          (uxAddress, xTotalHeapSize) =
            (if ucHeap AND portBYTE_ALIGNMENT_MASK \<noteq> 0
             then let uxAddress = w32 (ucHeap + (portBYTE_ALIGNMENT - 1)) AND (2 ^ 32 - 1 - portBYTE_ALIGNMENT_MASK)
                  in (uxAddress, w32 (GetPsramTotalSize + 2 ^ 32 - (uxAddress - ucHeap)))
             else (ucHeap, GetPsramTotalSize));
          first = uxAddress;
          uxAddress = w32 (w32 (first + xTotalHeapSize) + 2 ^ 32 - xHeapStructSize) AND (2 ^ 32 - 1 - portBYTE_ALIGNMENT_MASK);
          size = w32 (uxAddress + 2 ^ 32 - first)
      in h\<lparr>heap_memory := (heap_memory h)
             (xs := \<lparr>pxNextFreeBlock = first, xBlockSize = 0\<rparr>,
              uxAddress := \<lparr>pxNextFreeBlock = 0, xBlockSize = 0\<rparr>,
              first := \<lparr>pxNextFreeBlock = uxAddress, xBlockSize = size\<rparr>),
           pxEnd := uxAddress, xMinimumEverFreeBytesRemaining := size, xFreeBytesRemaining := size,
           xBlockAllocatedBit := push_bit 31 1\<rparr>)"

section \<open>The free list\<close>

partial_function (option) find_place :: "block_memory \<Rightarrow> nat \<Rightarrow> nat \<Rightarrow> nat option" where
  "find_place m pxIterator b =
     (if next_of m pxIterator < b then find_place m (next_of m pxIterator) b else Some pxIterator)"

text \<open>The block joins the one before it and the one after it.\<close>

definition join_before :: "nat \<Rightarrow> nat \<Rightarrow> block_memory \<Rightarrow> block_memory \<times> nat" where
  "join_before pxIterator b m =
     (if w32 (pxIterator + size_of m pxIterator) = b
      then (set_size pxIterator (w32 (size_of m pxIterator + size_of m b)) m, pxIterator)
      else (m, b))"

definition join_after :: "nat \<Rightarrow> nat \<Rightarrow> nat \<Rightarrow> block_memory \<Rightarrow> block_memory" where
  "join_after fin pxIterator b m =
     (let next = next_of m pxIterator
      in if w32 (b + size_of m b) = next
         then if next \<noteq> fin then set_next b (next_of m next) (set_size b (w32 (size_of m b + size_of m next)) m)
              else set_next b fin m
         else set_next b next m)"

definition prvInsertBlockIntoFreeList :: "nat \<Rightarrow> nat \<Rightarrow> psram_heap \<Rightarrow> psram_heap option" where
  "prvInsertBlockIntoFreeList xs pxBlockToInsert h =
     (case find_place (heap_memory h) xs pxBlockToInsert of
        None \<Rightarrow> None
      | Some pxIterator \<Rightarrow>
          let (m, b) = join_before pxIterator pxBlockToInsert (heap_memory h);
              m = join_after (pxEnd h) pxIterator b m;
              m = (if pxIterator \<noteq> b then set_next pxIterator b m else m)
          in Some (h\<lparr>heap_memory := m\<rparr>))"

section \<open>Allocating\<close>

text \<open>The size of the block for a request, with its header and aligned; 0 when it overflows.\<close>

definition wanted_size :: "nat \<Rightarrow> nat" where
  "wanted_size xWantedSize =
     (if xWantedSize > 0 \<and> w32 (xWantedSize + xHeapStructSize) > xWantedSize then
        let xWantedSize = w32 (xWantedSize + xHeapStructSize);
            rest = xWantedSize AND portBYTE_ALIGNMENT_MASK;
            aligned = w32 (xWantedSize + (portBYTE_ALIGNMENT - rest))
        in if rest \<noteq> 0 then (if aligned > xWantedSize then aligned else 0) else xWantedSize
      else 0)"

partial_function (option) find_fit :: "block_memory \<Rightarrow> nat \<Rightarrow> nat \<Rightarrow> nat \<Rightarrow> (nat \<times> nat) option" where
  "find_fit m pxPreviousBlock pxBlock xWantedSize =
     (if size_of m pxBlock < xWantedSize \<and> next_of m pxBlock \<noteq> 0
      then find_fit m pxBlock (next_of m pxBlock) xWantedSize
      else Some (pxPreviousBlock, pxBlock))"

definition split_block :: "nat \<Rightarrow> nat \<Rightarrow> nat \<Rightarrow> psram_heap \<Rightarrow> psram_heap option" where
  "split_block xs pxBlock xWantedSize h =
     (let rest = w32 (size_of (heap_memory h) pxBlock + 2 ^ 32 - xWantedSize) in
      if rest > heapMINIMUM_BLOCK_SIZE then
        let pxNewBlockLink = w32 (pxBlock + xWantedSize)
        in if pxNewBlockLink AND portBYTE_ALIGNMENT_MASK \<noteq> 0 then None
           else prvInsertBlockIntoFreeList xs pxNewBlockLink
                  (on_memory (set_size pxBlock xWantedSize \<circ> set_size pxNewBlockLink rest) h)
      else Some h)"

definition hand_out :: "nat \<Rightarrow> psram_heap \<Rightarrow> psram_heap" where
  "hand_out pxBlock h =
     (let size = size_of (heap_memory h) pxBlock;
          free = w32 (xFreeBytesRemaining h + 2 ^ 32 - size)
      in h\<lparr>heap_memory := set_next pxBlock 0 (set_size pxBlock (size OR xBlockAllocatedBit h) (heap_memory h)),
           xFreeBytesRemaining := free,
           xMinimumEverFreeBytesRemaining := min free (xMinimumEverFreeBytesRemaining h),
           xNumberOfSuccessfulAllocations := w32 (xNumberOfSuccessfulAllocations h + 1)\<rparr>)"

definition allocate :: "nat \<Rightarrow> nat \<Rightarrow> psram_heap \<Rightarrow> (nat \<times> psram_heap) option" where
  "allocate xs xWantedSize h =
     (case find_fit (heap_memory h) xs (next_of (heap_memory h) xs) xWantedSize of
        None \<Rightarrow> None
      | Some (pxPreviousBlock, pxBlock) \<Rightarrow>
          if pxBlock = pxEnd h then Some (0, h)
          else
            let pvReturn = w32 (next_of (heap_memory h) pxPreviousBlock + xHeapStructSize);
                h = on_memory (set_next pxPreviousBlock (next_of (heap_memory h) pxBlock)) h
            in (case split_block xs pxBlock xWantedSize h of
                  None \<Rightarrow> None
                | Some h \<Rightarrow> Some (pvReturn, hand_out pxBlock h)))"

definition PsramMalloc :: "nat \<Rightarrow> nat \<Rightarrow> psram_heap \<Rightarrow> (nat \<times> psram_heap) option" where
  "PsramMalloc xs xWantedSize h =
     (let h = (if pxEnd h = 0 then prvHeapInit xs h else h);
          result =
            (if xWantedSize AND xBlockAllocatedBit h = 0 then
               let xWantedSize = wanted_size xWantedSize
               in if xWantedSize > 0 \<and> xWantedSize \<le> xFreeBytesRemaining h then allocate xs xWantedSize h else Some (0, h)
             else Some (0, h))
      in case result of
           None \<Rightarrow> None
         | Some (pvReturn, h) \<Rightarrow> if pvReturn AND portBYTE_ALIGNMENT_MASK = 0 then Some (pvReturn, h) else None)"

section \<open>Freeing\<close>

text \<open>The assertion on the address comes before the test for \<^verbatim>\<open>NULL\<close>, so freeing \<^verbatim>\<open>NULL\<close> fails it.\<close>

definition PsramFree :: "nat \<Rightarrow> nat \<Rightarrow> psram_heap \<Rightarrow> psram_heap option" where
  "PsramFree xs pv h =
     (if \<not> (pv \<ge> GetPsramMappedAddr \<and> pv < GetPsramMappedAddr + GetPsramTotalSize) then None
      else if pv = 0 then Some h
      else
        let pxLink = w32 (pv + 2 ^ 32 - xHeapStructSize); m = heap_memory h
        in if size_of m pxLink AND xBlockAllocatedBit h = 0 \<or> next_of m pxLink \<noteq> 0 then None
           else
             let size = size_of m pxLink AND (2 ^ 32 - 1 - xBlockAllocatedBit h);
                 h = (on_memory (set_size pxLink size) h)\<lparr>xFreeBytesRemaining := w32 (xFreeBytesRemaining h + size)\<rparr>
             in map_option (\<lambda>h. h\<lparr>xNumberOfSuccessfulFrees := w32 (xNumberOfSuccessfulFrees h + 1)\<rparr>)
                  (prvInsertBlockIntoFreeList xs pxLink h))"

section \<open>Blocks in memory\<close>

text \<open>The memory as a sequence of blocks: their sizes and whether they are in use.\<close>

type_synonym tiles = "(nat \<times> bool) list"

definition total :: "tiles \<Rightarrow> nat" where
  "total ts = sum_list (map fst ts)"

definition free_total :: "tiles \<Rightarrow> nat" where
  "free_total ts = sum_list (map fst (filter (\<lambda>t. \<not> snd t) ts))"

fun free_addrs :: "nat \<Rightarrow> tiles \<Rightarrow> nat list" where
  "free_addrs a [] = []"
| "free_addrs a ((n, used) # ts) = (if used then free_addrs (a + n) ts else a # free_addrs (a + n) ts)"

definition ALLOCATED :: nat where "ALLOCATED = 2 ^ 31"

fun tiled :: "block_memory \<Rightarrow> nat \<Rightarrow> tiles \<Rightarrow> bool" where
  "tiled m a [] \<longleftrightarrow> True"
| "tiled m a ((n, used) # ts) \<longleftrightarrow> 0 < n \<and> 8 dvd n \<and>
     (if used then m a = \<lparr>pxNextFreeBlock = 0, xBlockSize = n + ALLOCATED\<rparr> else size_of m a = n) \<and> tiled m (a + n) ts"

fun coalesced :: "tiles \<Rightarrow> bool" where
  "coalesced [] \<longleftrightarrow> True"
| "coalesced [t] \<longleftrightarrow> True"
| "coalesced (t # u # ts) \<longleftrightarrow> (snd t \<or> snd u) \<and> coalesced (u # ts)"

fun chain :: "block_memory \<Rightarrow> nat \<Rightarrow> nat list \<Rightarrow> nat \<Rightarrow> bool" where
  "chain m p [] e \<longleftrightarrow> next_of m p = e"
| "chain m p (x # fs) e \<longleftrightarrow> next_of m p = x \<and> chain m x fs e"

lemma total_simps [simp]: "total [] = 0" "total (t # ts) = fst t + total ts" "total (ts @ us) = total ts + total us"
  by (simp_all add: total_def)

lemma free_total_simps [simp]: "free_total [] = 0" "free_total ((n, u) # ts) = (if u then 0 else n) + free_total ts"
  "free_total (ts @ us) = free_total ts + free_total us"
  by (simp_all add: free_total_def)

lemma free_addrs_append [simp]: "free_addrs a (ts @ us) = free_addrs a ts @ free_addrs (a + total ts) us"
  by (induction a ts rule: free_addrs.induct) (simp_all add: add.assoc)

lemma tiled_append [simp]: "tiled m a (ts @ us) \<longleftrightarrow> tiled m a ts \<and> tiled m (a + total ts) us"
  by (induction m a ts rule: tiled.induct) (simp_all add: add.assoc)

lemma free_addrs_range: "tiled m a ts \<Longrightarrow> x \<in> set (free_addrs a ts) \<Longrightarrow> a \<le> x \<and> x < a + total ts"
  by (induction m a ts rule: tiled.induct) (fastforce split: if_splits)+

lemma free_addrs_ends: "tiled m a ts \<Longrightarrow> x \<in> set (free_addrs a ts) \<Longrightarrow> x + size_of m x \<le> a + total ts \<and> 0 < size_of m x"
  by (induction m a ts rule: tiled.induct) (fastforce split: if_splits)+

lemma tiled_dvd: "tiled m a ts \<Longrightarrow> 8 dvd total ts"
  by (induction m a ts rule: tiled.induct) simp_all

lemma tiled_frame: "x < a \<or> a + total ts \<le> x \<Longrightarrow> tiled (m(x := v)) a ts = tiled m a ts"
proof (induction m a ts rule: tiled.induct)
  case (2 m a n used ts)
  then show ?case by (cases "n = 0") auto
qed simp

text \<open>The list is in the order of the addresses, and only links of blocks in it count.\<close>

lemma chain_append: "chain m p (fs @ x # gs) e \<longleftrightarrow> chain m p fs x \<and> chain m x gs e"
  by (induction m p fs e rule: chain.induct) auto

lemma chain_links: "(\<And>a. a \<in> insert p (set fs) \<Longrightarrow> next_of m' a = next_of m a) \<Longrightarrow> chain m' p fs e = chain m p fs e"
  by (induction m p fs e rule: chain.induct) auto

lemma chain_frame: "x \<noteq> p \<Longrightarrow> x \<notin> set fs \<Longrightarrow> chain (m(x := v)) p fs e = chain m p fs e"
  by (rule chain_links) auto

lemma chain_end: "chain m p fs e \<Longrightarrow> next_of m (last (p # fs)) = e"
  by (induction m p fs e rule: chain.induct) auto

lemma chain_relink: "chain m p fs e \<Longrightarrow> distinct (p # fs) \<Longrightarrow> chain (set_next (last (p # fs)) e' m) p fs e'"
proof (induction m p fs e rule: chain.induct)
  case (2 m p x fs e)
  then have "chain (set_next (last (x # fs)) e' m) x fs e'" "last (x # fs) \<noteq> p" by (auto dest: last_in_set)
  with 2 show ?case by (simp add: set_next_def)
qed (simp add: set_next_def)

lemma find_place_chain:
  "chain m p fs e \<Longrightarrow> \<forall>x\<in>set fs. x < b \<Longrightarrow> b \<le> e \<Longrightarrow> find_place m p b = Some (last (p # fs))"
proof (induction m p fs e rule: chain.induct)
  case (1 m p e)
  then show ?case by (subst find_place.simps) simp
next
  case (2 m p x fs e)
  then show ?case by (subst find_place.simps) simp
qed

lemma find_place_split:
  assumes "chain m p (fs @ x # gs) e" and "\<forall>y\<in>set fs. y < b" and "b \<le> x"
  shows "find_place m p b = Some (last (p # fs))"
  using assms by (intro find_place_chain [where e = x]) (simp_all add: chain_append)

lemma find_fit_chain:
  "chain m p fs e \<Longrightarrow> \<forall>x\<in>set fs. size_of m x < w \<and> x \<noteq> 0 \<Longrightarrow> e \<noteq> 0 \<Longrightarrow> w \<le> size_of m e \<or> next_of m e = 0 \<Longrightarrow>
   find_fit m p (next_of m p) w = Some (last (p # fs), e)"
proof (induction m p fs e rule: chain.induct)
  case (1 m p e)
  then show ?case by (subst find_fit.simps) auto
next
  case (2 m p x fs e)
  have "next_of m x \<noteq> 0" using 2(2-4) by (cases fs) auto
  with 2 show ?case by (subst find_fit.simps) simp
qed

section \<open>The invariant\<close>

definition heap_end :: nat where "heap_end = 0x807FFFF8"

lemma region: "GetPsramMappedAddr < heap_end" "heap_end < 2 ^ 32" "GetPsramMappedAddr + GetPsramTotalSize = heap_end + 8"
  "heap_end - GetPsramMappedAddr < 2 ^ 31" "8 dvd GetPsramMappedAddr" "0 < GetPsramMappedAddr" "heap_end + 8 < 2 ^ 32"
  by (simp_all add: GetPsramMappedAddr_def heap_end_def GetPsramTotalSize_def)

definition list_inv :: "nat \<Rightarrow> tiles \<Rightarrow> block_memory \<Rightarrow> bool" where
  "list_inv xs ts m \<longleftrightarrow>
     GetPsramMappedAddr + total ts = heap_end \<and> tiled m GetPsramMappedAddr ts \<and> coalesced ts \<and>
     chain m xs (free_addrs GetPsramMappedAddr ts) heap_end \<and> m heap_end = \<lparr>pxNextFreeBlock = 0, xBlockSize = 0\<rparr> \<and> size_of m xs = 0"

definition heap_inv :: "nat \<Rightarrow> tiles \<Rightarrow> psram_heap \<Rightarrow> bool" where
  "heap_inv xs ts h \<longleftrightarrow> xBlockAllocatedBit h = ALLOCATED \<and> pxEnd h = heap_end \<and> xFreeBytesRemaining h = free_total ts \<and>
     list_inv xs ts (heap_memory h)"

definition ends_used :: "tiles \<Rightarrow> bool" where
  "ends_used ts \<longleftrightarrow> ts = [] \<or> snd (last ts)"

definition starts_used :: "tiles \<Rightarrow> bool" where
  "starts_used ts \<longleftrightarrow> ts = [] \<or> snd (hd ts)"

lemma coalesced_Cons: "coalesced (t # us) \<longleftrightarrow> coalesced us \<and> (snd t \<or> starts_used us)"
proof (cases us)
  case (Cons u vs)
  then show ?thesis by (auto simp: starts_used_def)
qed (simp add: starts_used_def)

lemma coalesced_append: "coalesced (ts @ us) \<longleftrightarrow> coalesced ts \<and> coalesced us \<and> (ends_used ts \<or> starts_used us)"
  by (induction ts) (auto simp: coalesced_Cons ends_used_def starts_used_def hd_append)

lemma coalesced_free_Cons: "coalesced (ts @ (n, False) # us) \<longleftrightarrow> coalesced ts \<and> coalesced us \<and> ends_used ts \<and> starts_used us"
  by (auto simp: coalesced_append coalesced_Cons) (auto simp: starts_used_def)

lemma coalesced_used_Cons: "coalesced (ts @ (n, True) # us) \<longleftrightarrow> coalesced ts \<and> coalesced us"
  by (auto simp: coalesced_append coalesced_Cons) (auto simp: starts_used_def)

text \<open>The free blocks next to a block are absorbed.\<close>

definition before_part :: "tiles \<Rightarrow> tiles \<times> nat" where
  "before_part ts = (if ends_used ts then (ts, 0) else (butlast ts, fst (last ts)))"

definition after_part :: "tiles \<Rightarrow> nat \<times> tiles" where
  "after_part ts = (if starts_used ts then (0, ts) else (fst (hd ts), tl ts))"

definition merge :: "tiles \<Rightarrow> nat \<Rightarrow> tiles \<Rightarrow> tiles" where
  "merge ts1 n ts2 = (let (before, k) = before_part ts1; (j, after) = after_part ts2 in before @ (k + n + j, False) # after)"

lemma before_part_cases:
  obtains "ends_used ts" "before_part ts = (ts, 0)"
  | ts0 k where "ts = ts0 @ [(k, False)]" "before_part ts = (ts0, k)"
proof (cases "ends_used ts")
  case False
  then have "ts = butlast ts @ [(fst (last ts), False)]" by (cases ts rule: rev_cases) (auto simp: ends_used_def)
  then show ?thesis using False by (intro that(2)) (auto simp: before_part_def)
qed (simp add: before_part_def that)

lemma after_part_cases:
  obtains "starts_used ts" "after_part ts = (0, ts)"
  | j ts0 where "ts = (j, False) # ts0" "after_part ts = (j, ts0)"
proof (cases "starts_used ts")
  case False
  then have "ts = (fst (hd ts), False) # tl ts" by (cases ts) (auto simp: starts_used_def)
  then show ?thesis using False by (intro that(2)) (auto simp: after_part_def)
qed (simp add: after_part_def that)

lemma merge_total: "total (merge ts1 n ts2) = total ts1 + n + total ts2" "free_total (merge ts1 n ts2) = free_total ts1 + n + free_total ts2"
  by (cases ts1 rule: before_part_cases; cases ts2 rule: after_part_cases; simp add: merge_def)+

lemma merge_coalesced: "coalesced ts1 \<Longrightarrow> coalesced ts2 \<Longrightarrow> coalesced (merge ts1 n ts2)"
  by (cases ts1 rule: before_part_cases; cases ts2 rule: after_part_cases)
    (auto simp: merge_def coalesced_free_Cons coalesced_Cons ends_used_def coalesced_append starts_used_def)

lemma chain_split: "chain m p (F @ R) e \<longleftrightarrow> chain m p F (hd (R @ [e])) \<and> chain m (last (p # F)) R e"
proof (induction F arbitrary: p)
  case Nil
  then show ?case by (cases R) auto
qed auto

lemma chain_move: "next_of m' q = next_of m p \<Longrightarrow> (\<And>x. x \<in> set R \<Longrightarrow> next_of m' x = next_of m x) \<Longrightarrow> chain m' q R e = chain m p R e"
proof (cases R)
  case (Cons x xs)
  assume "next_of m' q = next_of m p" "\<And>x. x \<in> set R \<Longrightarrow> next_of m' x = next_of m x"
  then show ?thesis using chain_links [of x xs m' m e] Cons by auto
qed simp

lemma chain_hd: "chain m p R e \<Longrightarrow> next_of m p = hd (R @ [e])"
  by (cases R) auto

lemma w32_small: "n < 2 ^ 32 \<Longrightarrow> w32 n = n"
  by (simp add: w32_def)

lemma both_fields: "(v :: block_link)\<lparr>xBlockSize := x, pxNextFreeBlock := y\<rparr> = \<lparr>pxNextFreeBlock = y, xBlockSize = x\<rparr>"
  by (cases v) simp

text \<open>Joining with the block after it.\<close>

lemma join_after_effect:
  assumes tiled: "tiled m c ts2" "c + total ts2 = heap_end" and size: "size_of m b = N" "b + N = c" "0 < N" "b < heap_end" and chain: "chain m it (free_addrs c ts2) heap_end"
    and after: "after_part ts2 = (j, ts3)"
  shows "join_after heap_end it b m = m(b := \<lparr>pxNextFreeBlock = hd (free_addrs (b + (N + j)) ts3 @ [heap_end]), xBlockSize = N + j\<rparr>)"
proof (cases ts2 rule: after_part_cases)
  case 1
  then have parts: "j = 0" "ts3 = ts2" using after by simp_all
  have nx: "next_of m it = hd (free_addrs c ts2 @ [heap_end])" by (rule chain_hd [OF chain])
  have "w32 (b + size_of m b) = c" using size tiled(2) region by (simp add: w32_small)
  moreover have "hd (free_addrs c ts2 @ [heap_end]) = heap_end" if "c = hd (free_addrs c ts2 @ [heap_end])"
  proof (cases ts2)
    case (Cons t us)
    then have "0 < fst t" "free_addrs c ts2 = free_addrs (c + fst t) us" "tiled m (c + fst t) us" using tiled(1) 1(1) by (cases t; simp add: starts_used_def)+
    moreover from this have "c < hd (free_addrs (c + fst t) us @ [heap_end])"
      using free_addrs_range [OF \<open>tiled m (c + fst t) us\<close>] tiled(2) Cons by (cases "free_addrs (c + fst t) us") fastforce+
    ultimately show ?thesis using that by simp
  qed simp
  ultimately show ?thesis using size nx parts
    by (auto simp: join_after_def Let_def set_next_def fun_eq_iff add.commute)
next
  case (2 j' ts0)
  then have parts: "j = j'" "ts3 = ts0" using after by simp_all
  have t: "0 < j" "size_of m c = j" "c + j + total ts0 = heap_end" using tiled 2 parts by simp_all
  have it: "next_of m it = c" "chain m c (free_addrs (c + j) ts0) heap_end" using chain 2 parts by simp_all
  have "w32 (b + size_of m b) = c" "w32 (size_of m b + size_of m c) = N + j" "c \<noteq> heap_end" using size t region by (simp_all add: w32_small)
  moreover have "next_of m c = hd (free_addrs (c + j) ts0 @ [heap_end])" by (rule chain_hd [OF it(2)])
  moreover have eq: "b + (N + j') = c + j'" using size(2) by simp
  ultimately show ?thesis using it(1) unfolding parts eq
    by (simp add: join_after_def Let_def set_next_def set_size_def both_fields)
qed

lemma tiled_relink: "tiled m a ts \<Longrightarrow> x \<in> set (free_addrs a ts) \<or> x < a \<or> a + total ts \<le> x \<Longrightarrow> tiled (set_next x v m) a ts"
proof (induction m a ts rule: tiled.induct)
  case (2 m a n used ts)
  have "x \<noteq> a" if used
  proof
    assume "x = a"
    then have "a \<in> set (free_addrs (a + n) ts)" using 2 that by simp
    then have "a + n \<le> a" using free_addrs_range 2(2) by fastforce
    then show False using 2(2) by simp
  qed
  moreover have "tiled (set_next x v m) (a + n) ts" using 2 by (cases "x = a") (auto split: if_splits)
  moreover have "set_next x v m a = (if a = x then (m x)\<lparr>pxNextFreeBlock := v\<rparr> else m a)" by (simp add: set_next_def)
  ultimately show ?case using 2(2) by (auto split: if_splits)
qed simp

lemma free_addrs_distinct: "tiled m a ts \<Longrightarrow> distinct (free_addrs a ts)"
proof (induction m a ts rule: tiled.induct)
  case (2 m a n used ts)
  then show ?case using free_addrs_range [of m "a + n" ts a] by auto
qed simp

lemma chain_start: "chain m y R e \<Longrightarrow> next_of m' q = hd (R @ [e]) \<Longrightarrow> (\<And>x. x \<in> set R \<Longrightarrow> next_of m' x = next_of m x) \<Longrightarrow> chain m' q R e"
  using chain_move [of m' q m y R e] chain_hd [of m y R e] by simp

lemma list_inv_free:
  assumes "GetPsramMappedAddr + total before = a" "size_of m a = S" "0 < S" "8 dvd S" "tiled m GetPsramMappedAddr before" "tiled m (a + S) after"
    and "a + S + total after = heap_end" "coalesced (before @ (S, False) # after)" "chain m xs (free_addrs GetPsramMappedAddr before) a"
    and "chain m a (free_addrs (a + S) after) heap_end" "m heap_end = \<lparr>pxNextFreeBlock = 0, xBlockSize = 0\<rparr>" "size_of m xs = 0"
  shows "list_inv xs (before @ (S, False) # after) m"
  using assms by (auto simp: list_inv_def chain_append)

lemma insert_merges:
  assumes xs: "xs < GetPsramMappedAddr" "size_of m xs = 0"
    and t1: "tiled m GetPsramMappedAddr ts1" "coalesced ts1" and b: "b = GetPsramMappedAddr + total ts1" "size_of m b = n" "0 < n" "8 dvd n"
    and t2: "tiled m (b + n) ts2" "coalesced ts2" "b + n + total ts2 = heap_end"
    and chain: "chain m xs (free_addrs GetPsramMappedAddr ts1 @ free_addrs (b + n) ts2) heap_end"
    and fin: "m heap_end = \<lparr>pxNextFreeBlock = 0, xBlockSize = 0\<rparr>" and h: "heap_memory h = m" "pxEnd h = heap_end"
  shows "\<exists>m'. prvInsertBlockIntoFreeList xs b h = Some (h\<lparr>heap_memory := m'\<rparr>) \<and> list_inv xs (merge ts1 n ts2) m'"
proof -
  let ?B = GetPsramMappedAddr
  let ?F = "free_addrs ?B ts1" and ?R = "free_addrs (b + n) ts2"
  define it where "it = last (xs # ?F)"
  have F: "?B \<le> x \<and> x < b" if "x \<in> set ?F" for x using free_addrs_range [OF t1(1) that] b(1) by simp
  have R: "b + n \<le> x \<and> x < heap_end" if "x \<in> set ?R" for x using free_addrs_range [OF t2(1) that] t2(3) by simp
  have parts: "chain m xs ?F (hd (?R @ [heap_end]))" "chain m it ?R heap_end" using chain by (simp_all only: chain_split it_def)
  have "b \<le> hd (?R @ [heap_end])" using R t2(3) by (cases ?R) fastforce+
  then have place: "find_place m xs b = Some it" unfolding it_def using F by (intro find_place_chain [OF parts(1)]) blast+
  obtain j ts3 where after: "after_part ts2 = (j, ts3)" by fastforce
  have t3: "tiled m (b + n + j) ts3" "b + n + j + total ts3 = heap_end" "set (free_addrs (b + n + j) ts3) \<subseteq> set ?R" "8 dvd j"
    using t2 after by (cases ts2 rule: after_part_cases; force)+
  show ?thesis
  proof (cases ts1 rule: before_part_cases)
    case 1
    have gap: "w32 (it + size_of m it) \<noteq> b"
    proof (cases "?F = []")
      case True
      then show ?thesis using xs region b(1) by (simp add: it_def w32_small)
    next
      case False
      then obtain ts0 k where k: "ts1 = ts0 @ [(k, True)]" using 1(1) by (cases ts1 rule: rev_cases) (auto simp: ends_used_def)
      then have "it \<in> set (free_addrs ?B ts0)" using False by (auto simp: it_def)
      then have "it + size_of m it \<le> ?B + total ts0" using free_addrs_ends [of m ?B ts0 it] t1(1) k by simp
      moreover have "?B + total ts0 < b" using b(1) k t1(1) by simp
      moreover have "b < 2 ^ 32" using t2(3) region by linarith
      ultimately show ?thesis by (simp add: w32_small)
    qed
    define X where "X = hd (free_addrs (b + (n + j)) ts3 @ [heap_end])"
    have step: "join_after heap_end it b m = m(b := \<lparr>pxNextFreeBlock = X, xBlockSize = n + j\<rparr>)"
      unfolding X_def using b t2 by (intro join_after_effect [OF t2(1,3) b(2) refl b(3) _ parts(2) after]) simp
    have "it \<noteq> b" using F xs b(1) unfolding it_def by (metis last_ConsL last_ConsR last_in_set less_irrefl not_add_less1)
    define m' where "m' = set_next it b (m(b := \<lparr>pxNextFreeBlock = X, xBlockSize = n + j\<rparr>))"
    have run: "prvInsertBlockIntoFreeList xs b h = Some (h\<lparr>heap_memory := m'\<rparr>)"
      using place gap step \<open>it \<noteq> b\<close> h by (simp add: prvInsertBlockIntoFreeList_def join_before_def m'_def)
    have m'_at: "m' x = (if x = b then \<lparr>pxNextFreeBlock = X, xBlockSize = n + j\<rparr> else if x = it then (m it)\<lparr>pxNextFreeBlock := b\<rparr> else m x)" for x
      using \<open>it \<noteq> b\<close> by (simp add: m'_def set_next_def)
    have it_small: "it < b" using F xs b(1) by (cases "?F = []") (auto simp: it_def)
    have "list_inv xs (ts1 @ (n + j, False) # ts3) m'"
    proof (rule list_inv_free [OF b(1) [symmetric]])
      show "size_of m' b = n + j" "0 < n + j" "8 dvd n + j" "size_of m' xs = 0" using b t3(4) xs by (auto simp add: m'_at)
      have "tiled (set_next it b m) ?B ts1" using xs by (intro tiled_relink [OF t1(1)]) (auto simp: it_def)
      moreover have "m' = (set_next it b m)(b := \<lparr>pxNextFreeBlock = X, xBlockSize = n + j\<rparr>)"
        using \<open>it \<noteq> b\<close> by (simp add: m'_def set_next_def fun_upd_twist)
      ultimately show "tiled m' ?B ts1" using tiled_frame [of b ?B ts1 "set_next it b m"] b(1) by (simp del: fun_upd_apply)
      show "tiled m' (b + (n + j)) ts3"
        using t3(1) it_small b(3) unfolding m'_def set_next_def by (simp add: tiled_frame add.assoc)
      show "b + (n + j) + total ts3 = heap_end" "m' heap_end = \<lparr>pxNextFreeBlock = 0, xBlockSize = 0\<rparr>"
        using t3(2) b(3) it_small fin by (simp_all add: m'_at)
      show "coalesced (ts1 @ (n + j, False) # ts3)"
        using merge_coalesced [OF t1(2) t2(2), of n] after 1(2) by (simp add: merge_def)
      have "distinct (xs # ?F)" using free_addrs_distinct [OF t1(1)] F xs(1) by fastforce
      from chain_relink [OF parts(1) this, of b] have "chain (set_next it b m) xs ?F b" by (simp add: it_def)
      then show "chain m' xs ?F b" using chain_links [of xs ?F m' "set_next it b m" b] F xs(1) b(1)
        by (fastforce simp: m'_at set_next_def)
      show "chain m' b (free_addrs (b + (n + j)) ts3) heap_end"
      proof -
        have "\<exists>y. chain m y (free_addrs (b + (n + j)) ts3) heap_end"
          using parts(2) after by (cases ts2 rule: after_part_cases) (auto simp: add.assoc)
        moreover have "next_of m' x = next_of m x" if "x \<in> set (free_addrs (b + (n + j)) ts3)" for x
          using R [of x] t3(3) that it_small b(3) by (auto simp: m'_at add.assoc)
        ultimately show ?thesis using chain_start [of m _ _ heap_end m' b] by (auto simp: m'_at X_def)
      qed
    qed
    then show ?thesis using run after 1(2) by (auto simp: merge_def)
  next
    case (2 ts0 k)
    define a where "a = ?B + total ts0"
    have k: "0 < k" "8 dvd k" "size_of m a = k" "a + k = b" "tiled m ?B ts0" "it = a" "?F = free_addrs ?B ts0 @ [a]"
      using t1(1) 2(1) b(1) by (simp_all add: a_def it_def)
    define X where "X = hd (free_addrs (a + (k + n + j)) ts3 @ [heap_end])"
    let ?m1 = "set_size a (k + n) m"
    have "a < heap_end" "k + n < 2 ^ 32" "b < 2 ^ 32" using k(4) b(3) t2(3) region by linarith+
    then have before: "join_before it b m = (?m1, a)" using k b(2) by (simp add: join_before_def w32_small)
    have step: "join_after heap_end a a ?m1 = ?m1(a := \<lparr>pxNextFreeBlock = X, xBlockSize = k + n + j\<rparr>)"
      unfolding X_def
    proof (rule join_after_effect [OF _ t2(3)])
      show "tiled ?m1 (b + n) ts2" using t2(1) tiled_frame [of a "b + n" ts2 m] k by (simp add: set_size_def)
      have "chain ?m1 a ?R heap_end = chain m a ?R heap_end" by (rule chain_links) (simp add: set_size_def)
      then show "chain ?m1 a ?R heap_end" using parts(2) k(6) by simp
    qed (use k b after \<open>a < heap_end\<close> in \<open>simp_all add: set_size_def\<close>)
    define m' where "m' = m(a := \<lparr>pxNextFreeBlock = X, xBlockSize = k + n + j\<rparr>)"
    have run: "prvInsertBlockIntoFreeList xs b h = Some (h\<lparr>heap_memory := m'\<rparr>)"
      using place before step k(6) h by (simp add: prvInsertBlockIntoFreeList_def m'_def set_size_def)
    have "list_inv xs (ts0 @ (k + n + j, False) # ts3) m'"
    proof (rule list_inv_free [OF a_def [symmetric]])
      show "size_of m' a = k + n + j" "0 < k + n + j" "8 dvd k + n + j" using b t3(4) k by (simp_all add: m'_def)
      show "size_of m' xs = 0" using xs by (simp add: m'_def a_def)
      show "tiled m' ?B ts0" "tiled m' (a + (k + n + j)) ts3"
        using tiled_frame [of a ?B ts0 m] tiled_frame [of a "a + (k + n + j)" ts3 m] k t3(1) unfolding m'_def a_def by (simp_all add: add.assoc [symmetric])
      show "a + (k + n + j) + total ts3 = heap_end" using t3(2) k(4) by simp
      show "m' heap_end = \<lparr>pxNextFreeBlock = 0, xBlockSize = 0\<rparr>" using \<open>a < heap_end\<close> fin by (simp add: m'_def)
      show "coalesced (ts0 @ (k + n + j, False) # ts3)"
        using merge_coalesced [OF t1(2) t2(2), of n] after 2(2) by (simp add: merge_def)
      have "chain m xs (free_addrs ?B ts0) a" using parts(1) k(7) by (simp add: chain_append)
      moreover have "a \<noteq> xs" "a \<notin> set (free_addrs ?B ts0)" using free_addrs_range [OF k(5), of a] xs(1) by (auto simp: a_def)
      ultimately show "chain m' xs (free_addrs ?B ts0) a" by (simp add: m'_def chain_frame)
      show "chain m' a (free_addrs (a + (k + n + j)) ts3) heap_end"
      proof -
        have eq: "a + (k + n + j) = b + n + j" using k(4) by simp
        have "\<exists>y. chain m y (free_addrs (b + n + j) ts3) heap_end"
          using parts(2) after by (cases ts2 rule: after_part_cases) auto
        moreover have "next_of m' x = next_of m x" if "x \<in> set (free_addrs (b + n + j) ts3)" for x
          using R [of x] t3(3) that k(1,4) by (auto simp: m'_def)
        ultimately show ?thesis unfolding eq using chain_start [of m _ _ heap_end m' a] by (auto simp: m'_def X_def eq)
      qed
    qed
    then show ?thesis using run after 2(2) by (auto simp: merge_def)
  qed
qed

section \<open>Bits\<close>

lemma and_7: "n AND portBYTE_ALIGNMENT_MASK = n mod 8"
proof -
  have "n AND mask 3 = n mod 8" by (simp add: take_bit_eq_mask [symmetric] take_bit_eq_mod)
  then show ?thesis by (simp add: portBYTE_ALIGNMENT_MASK_def mask_eq_exp_minus_1)
qed

lemma no_high_bit: "n < 2 ^ 31 \<Longrightarrow> \<not> bit (n :: nat) 31"
  by (simp add: bit_iff_odd)

lemma allocated_bit:
  assumes "n < 2 ^ 31"
  shows "n AND ALLOCATED = 0" "n OR ALLOCATED = n + ALLOCATED" "(n + ALLOCATED) AND ALLOCATED \<noteq> 0" "(n + ALLOCATED) AND (2 ^ 32 - 1 - ALLOCATED) = n"
proof -
  have A: "bit ALLOCATED i \<longleftrightarrow> i = 31" for i unfolding ALLOCATED_def by (auto simp: bit_exp_iff simp del: power_numeral)
  then have disj: "n AND ALLOCATED = 0" using no_high_bit [OF assms] by (intro bit_eqI) (auto simp: bit_and_iff)
  then show "n AND ALLOCATED = 0" .
  show sum: "n OR ALLOCATED = n + ALLOCATED" using disj by (simp add: disjunctive_add_eq_or)
  have "(n OR ALLOCATED) AND ALLOCATED = ALLOCATED" by (intro bit_eqI) (auto simp: bit_and_iff bit_or_iff)
  then show "(n + ALLOCATED) AND ALLOCATED \<noteq> 0" unfolding sum by (simp add: ALLOCATED_def)
  have "(n + ALLOCATED) AND mask 31 = n" using assms by (simp add: ALLOCATED_def take_bit_eq_mask [symmetric] take_bit_eq_mod)
  then show "(n + ALLOCATED) AND (2 ^ 32 - 1 - ALLOCATED) = n" by (simp add: ALLOCATED_def mask_eq_exp_minus_1)
qed

lemma header_size: "xHeapStructSize = 8" "heapMINIMUM_BLOCK_SIZE = 16"
  by (simp_all add: xHeapStructSize_def heapMINIMUM_BLOCK_SIZE_def portBYTE_ALIGNMENT_def portBYTE_ALIGNMENT_MASK_def push_bit_eq_mult)

section \<open>Starting\<close>

lemma heap_init:
  assumes "xs < GetPsramMappedAddr"
  shows "heap_inv xs [(heap_end - GetPsramMappedAddr, False)] (prvHeapInit xs h)"
proof -
  have "(2155872248 :: nat) AND 4294967288 = 2155872248" by simp
  then show ?thesis using assms
    by (simp add: heap_inv_def list_inv_def prvHeapInit_def Let_def and_7 header_size w32_def GetPsramMappedAddr_def GetPsramTotalSize_def
        heap_end_def portBYTE_ALIGNMENT_MASK_def ALLOCATED_def push_bit_eq_mult)
qed

section \<open>Allocating keeps the invariant\<close>

definition rounded :: "nat \<Rightarrow> nat" where
  "rounded n = (n + 15) div 8 * 8"

lemma rounded_bounds: "n + 8 \<le> rounded n" "rounded n < n + 16" "8 dvd rounded n"
  by (auto simp: rounded_def)

lemma rounded_cases: "n mod 8 \<noteq> 0 \<Longrightarrow> (n + 8) + (8 - n mod 8) = rounded n" "n mod 8 = 0 \<Longrightarrow> n + 8 = rounded n"
  unfolding rounded_def by presburger+

lemma wanted_size_rounded:
  assumes "0 < n" "n < 2 ^ 31"
  shows "wanted_size n = rounded n"
proof -
  have "w32 (rounded n) = rounded n" "w32 (n + 8) = n + 8" "n + 8 < rounded n \<or> n mod 8 = 0"
    using assms rounded_bounds [of n] rounded_cases(1) [of n] by (auto simp: w32_small)
  then show ?thesis using assms rounded_cases [of n] rounded_bounds [of n]
    by (cases "n mod 8 = 0") (simp_all add: wanted_size_def Let_def header_size and_7 portBYTE_ALIGNMENT_def)
qed

lemma first_fit:
  "(\<forall>(k, u)\<in>set ts. u \<or> k < w) \<or> (\<exists>ts1 k ts2. ts = ts1 @ (k, False) # ts2 \<and> w \<le> k \<and> (\<forall>(k, u)\<in>set ts1. u \<or> k < (w :: nat)))"
proof (cases "\<exists>t\<in>set ts. \<not> (snd t \<or> fst t < w)")
  case True
  then obtain ts1 t ts2 where "ts = ts1 @ t # ts2" "\<not> (snd t \<or> fst t < w)" "\<forall>t\<in>set ts1. snd t \<or> fst t < w"
    using split_list_first_prop [OF True] by blast
  then show ?thesis by (intro disjI2 exI [of _ ts1] exI [of _ "fst t"] exI [of _ ts2]) (auto simp: prod_eq_iff)
qed auto

lemma free_addr_size: "tiled m a ts \<Longrightarrow> \<forall>(k, u)\<in>set ts. u \<or> k < w \<Longrightarrow> x \<in> set (free_addrs a ts) \<Longrightarrow> size_of m x < w"
  by (induction m a ts rule: tiled.induct) (auto split: if_splits)

lemma free_total_bound: "(k, False) \<in> set ts \<Longrightarrow> k \<le> free_total ts"
  by (induction ts) auto

text \<open>A free block leaves the list.\<close>

lemma unlink_block:
  assumes chain: "chain m xs (F1 @ b # F2) e" and dist: "distinct (xs # F1 @ b # F2)"
  shows "chain (set_next (last (xs # F1)) (next_of m b) m) xs (F1 @ F2) e"
proof -
  let ?p = "last (xs # F1)" and ?m = "set_next (last (xs # F1)) (next_of m b) m"
  have parts: "chain m xs F1 b" "chain m b F2 e" using chain by (simp_all add: chain_append)
  have nb: "next_of m b = hd (F2 @ [e])" by (rule chain_hd [OF parts(2)])
  have "chain ?m xs F1 (hd (F2 @ [e]))" unfolding nb using chain_relink [OF parts(1), of "hd (F2 @ [e])"] dist by auto
  moreover have "?p \<in> insert xs (set F1)" using last_in_set [of "xs # F1"] by simp
  then have "?p \<notin> set F2" using dist by auto
  then have "chain ?m ?p F2 e" by (intro chain_start [OF parts(2)]) (auto simp: nb set_next_def)
  ultimately show ?thesis by (simp only: chain_split)
qed

lemma list_inv_used:
  assumes inv: "list_inv xs (ts1 @ (k, False) # ts2) m" and xs: "xs < GetPsramMappedAddr"
    and b: "b = GetPsramMappedAddr + total ts1" and prev: "prev = last (xs # free_addrs GetPsramMappedAddr ts1)"
  shows "list_inv xs (ts1 @ (k, True) # ts2) ((set_next prev (next_of m b) m)(b := \<lparr>pxNextFreeBlock = 0, xBlockSize = k + ALLOCATED\<rparr>))"
    (is "list_inv xs _ (?m1(b := ?v))")
proof -
  let ?B = GetPsramMappedAddr
  let ?F1 = "free_addrs ?B ts1" and ?F2 = "free_addrs (b + k) ts2"
  have t: "tiled m ?B ts1" "0 < k" "8 dvd k" "tiled m (b + k) ts2" "b + k + total ts2 = heap_end"
    "chain m xs (?F1 @ b # ?F2) heap_end" "coalesced (ts1 @ (k, False) # ts2)" "m heap_end = \<lparr>pxNextFreeBlock = 0, xBlockSize = 0\<rparr>" "size_of m xs = 0"
    using inv b by (simp_all add: list_inv_def add.assoc)
  have F: "?B \<le> x \<and> x < b" if "x \<in> set ?F1" for x using free_addrs_range [OF t(1) that] b by simp
  have F2: "b + k \<le> x" if "x \<in> set ?F2" for x using free_addrs_range [OF t(4) that] by simp
  have prev_at: "prev = xs \<or> prev \<in> set ?F1" using last_in_set [of "xs # ?F1"] by (auto simp: prev split: if_splits)
  then have "prev < b" using F xs b by auto
  have "distinct (xs # ?F1 @ b # ?F2)"
    using free_addrs_distinct [OF t(1)] free_addrs_distinct [OF t(4)] F F2 xs b t(2) by fastforce
  from unlink_block [OF t(6) this] have chain: "chain ?m1 xs (?F1 @ ?F2) heap_end" by (simp add: prev)
  have tiles: "tiled ?m1 ?B ts1" "tiled ?m1 (b + k) ts2"
    using tiled_relink [OF t(1), of prev] tiled_relink [OF t(4), of prev] prev_at xs \<open>prev < b\<close> b by auto
  have "b \<notin> insert xs (set (?F1 @ ?F2))" using F F2 xs b t(2) by fastforce
  then have "chain (?m1(b := ?v)) xs (?F1 @ ?F2) heap_end" using chain by (simp add: chain_frame)
  moreover have "tiled (?m1(b := ?v)) ?B ts1" "tiled (?m1(b := ?v)) (b + k) ts2"
    using tiles t(2) b by (simp_all add: tiled_frame del: fun_upd_apply)
  moreover have "coalesced (ts1 @ (k, True) # ts2)" using t(7) by (simp add: coalesced_free_Cons coalesced_used_Cons)
  moreover have "(?m1(b := ?v)) heap_end = \<lparr>pxNextFreeBlock = 0, xBlockSize = 0\<rparr>" "size_of (?m1(b := ?v)) xs = 0"
    using t(2,5,8,9) \<open>prev < b\<close> xs b by (auto simp: set_next_def)
  ultimately show ?thesis using t b by (simp add: list_inv_def add.assoc)
qed

text \<open>Putting a block on the list touches no header outside it, so a block being carved can keep its own.\<close>

lemma insert_frame:
  assumes "find_place m xs new = Some it" "find_place (m(b := v)) xs new = Some it" and "b \<noteq> it" "b \<noteq> new" "b \<noteq> next_of m it"
    and "prvInsertBlockIntoFreeList xs new (h\<lparr>heap_memory := m\<rparr>) = Some (h\<lparr>heap_memory := m'\<rparr>)"
  shows "prvInsertBlockIntoFreeList xs new (h\<lparr>heap_memory := m(b := v)\<rparr>) = Some (h\<lparr>heap_memory := m'(b := v)\<rparr>)"
proof -
  have before: "join_before it new (m(b := v)) = (let (m, c) = join_before it new m in (m(b := v), c))"
    using assms(3,4) by (auto simp: join_before_def set_size_def fun_upd_twist)
  have "snd (join_before it new m) \<noteq> b" "next_of (fst (join_before it new m)) it = next_of m it"
    using assms(3,4) by (auto simp: join_before_def set_size_def)
  then obtain m1 c where c: "join_before it new m = (m1, c)" "c \<noteq> b" "next_of m1 it = next_of m it"
    by (metis prod.collapse)
  have after: "join_after e it c (m1(b := v)) = (join_after e it c m1)(b := v)" for e
    using assms(3,5) c by (auto simp: join_after_def Let_def set_next_def set_size_def fun_upd_twist)
  have "m' = (if it \<noteq> c then set_next it c (join_after (pxEnd h) it c m1) else join_after (pxEnd h) it c m1)"
    using arg_cong [OF assms(6), of "map_option heap_memory"] assms(1) c by (simp add: prvInsertBlockIntoFreeList_def Let_def)
  then show ?thesis using assms(2,3) before c after
    by (cases "it = c") (simp_all add: prvInsertBlockIntoFreeList_def Let_def set_next_def fun_upd_twist)
qed

lemma merge_between: "ends_used ts1 \<Longrightarrow> starts_used ts2 \<Longrightarrow> merge ts1 n ts2 = ts1 @ (n, False) # ts2"
  by (simp add: merge_def before_part_def after_part_def)

text \<open>What is left of a block goes back when it is more than two headers.\<close>

definition carve :: "nat \<Rightarrow> nat \<Rightarrow> tiles" where
  "carve w k = (if k - w > heapMINIMUM_BLOCK_SIZE then [(w, True), (k - w, False)] else [(k, True)])"

lemma split_runs:
  assumes inv: "list_inv xs (ts1 @ (k, True) # ts2) (m(b := v))" and v: "v = \<lparr>pxNextFreeBlock = 0, xBlockSize = k + ALLOCATED\<rparr>"
    and b: "b = GetPsramMappedAddr + total ts1" "size_of m b = k" and xs: "xs < GetPsramMappedAddr" and ts2: "starts_used ts2"
    and w: "0 < w" "8 dvd w" "w \<le> k" "8 dvd k" and h: "pxEnd h = heap_end" "heap_memory h = m"
  shows "\<exists>m'. split_block xs b w h = Some (h\<lparr>heap_memory := m'\<rparr>) \<and>
     size_of m' b = fst (hd (carve w k)) \<and>
     list_inv xs (ts1 @ carve w k @ ts2) (m'(b := \<lparr>pxNextFreeBlock = 0, xBlockSize = fst (hd (carve w k)) + ALLOCATED\<rparr>))"
proof (cases "k - w > heapMINIMUM_BLOCK_SIZE")
  case False
  have "k < 2 ^ 32" using inv b region by (simp add: list_inv_def)
  then have "w32 (k + 2 ^ 32 - w) = k - w" using w(3) by (simp add: w32_def le_mod_geq)
  then have "split_block xs b w h = Some h" using b(2) h(2) False by (simp add: split_block_def)
  moreover have "h\<lparr>heap_memory := m\<rparr> = h" using h(2) by simp
  ultimately show ?thesis using False inv v b(2) by (intro exI [of _ m]) (simp add: carve_def)
next
  case True
  let ?B = GetPsramMappedAddr
  define new where "new = b + w"
  define m1 where "m1 = set_size b w (set_size new (k - w) m)"
  define v' where "v' = \<lparr>pxNextFreeBlock = 0 :: nat, xBlockSize = w + ALLOCATED\<rparr>"
  have t: "tiled (m(b := v)) ?B ts1" "tiled (m(b := v)) (b + k) ts2" "b + k + total ts2 = heap_end" "coalesced ts1" "coalesced ts2"
    "chain (m(b := v)) xs (free_addrs ?B ts1 @ free_addrs (b + k) ts2) heap_end" "(m(b := v)) heap_end = \<lparr>pxNextFreeBlock = 0, xBlockSize = 0\<rparr>"
    "size_of (m(b := v)) xs = 0"
    using inv b(1) by (simp_all add: list_inv_def coalesced_used_Cons add.assoc del: fun_upd_apply)
  have n: "w < k" "16 < k - w" "new + (k - w) = b + k" "b < new" "8 dvd k - w" "k < 2 ^ 32" "new < 2 ^ 32"
    using True w b t(3) region by (auto simp: header_size new_def)
  have F: "?B \<le> x \<and> x < b" if "x \<in> set (free_addrs ?B ts1)" for x using free_addrs_range [OF t(1) that] b by simp
  have R: "b + k \<le> x" if "x \<in> set (free_addrs (b + k) ts2)" for x using free_addrs_range [OF t(2) that] by simp
  have m1: "m1(b := v') = ((m(b := v))(new := (m new)\<lparr>xBlockSize := k - w\<rparr>))(b := v')"
    using n(4) by (auto simp: m1_def set_size_def)
  have "b \<notin> insert xs (set (free_addrs ?B ts1 @ free_addrs (b + k) ts2))" "new \<notin> insert xs (set (free_addrs ?B ts1 @ free_addrs (b + k) ts2))"
    using F R xs b n by fastforce+
  then have chain: "chain (m1(b := v')) xs (free_addrs ?B ts1 @ free_addrs (b + k) ts2) heap_end"
    using t(6) by (simp add: m1 chain_frame)
  have tiles: "tiled (m1(b := v')) ?B (ts1 @ [(w, True)])" "tiled (m1(b := v')) (new + (k - w)) ts2"
    "(m1(b := v')) heap_end = \<lparr>pxNextFreeBlock = 0, xBlockSize = 0\<rparr>"
    unfolding m1
  proof -
    let ?n = "(m new)\<lparr>xBlockSize := k - w\<rparr>"
    define m3 where "m3 = (m(b := v))(new := ?n)"
    have "tiled m3 ?B ts1" "tiled m3 (b + k) ts2"
      using t(1,2) tiled_frame [of new ?B ts1 "m(b := v)" ?n] tiled_frame [of new "b + k" ts2 "m(b := v)" ?n] b(1) n(1,4) new_def
      by (simp_all add: m3_def del: fun_upd_apply)
    then have "tiled (m3(b := v')) ?B ts1" "tiled (m3(b := v')) (b + k) ts2"
      using tiled_frame [of b ?B ts1 m3 v'] tiled_frame [of b "b + k" ts2 m3 v'] b(1) n(1) by (simp_all del: fun_upd_apply)
    moreover have "(m3(b := v')) b = v'" by simp
    ultimately show "tiled (((m(b := v))(new := ?n))(b := v')) ?B (ts1 @ [(w, True)])" "tiled (((m(b := v))(new := ?n))(b := v')) (new + (k - w)) ts2"
      unfolding n(3) m3_def [symmetric] using b(1) w(1,2) by (simp_all add: v'_def del: fun_upd_apply)
    show "(((m(b := v))(new := ?n))(b := v')) heap_end = \<lparr>pxNextFreeBlock = 0, xBlockSize = 0\<rparr>"
      using t(3,7) n by (auto split: if_splits)
  qed
  have merged: "merge (ts1 @ [(w, True)]) (k - w) ts2 = ts1 @ carve w k @ ts2"
    using ts2 True by (simp add: merge_between ends_used_def carve_def)
  have "\<exists>m'. prvInsertBlockIntoFreeList xs new (h\<lparr>heap_memory := m1(b := v')\<rparr>) = Some (h\<lparr>heap_memory := m1(b := v')\<rparr>\<lparr>heap_memory := m'\<rparr>) \<and>
      list_inv xs (merge (ts1 @ [(w, True)]) (k - w) ts2) m'"
  proof (rule insert_merges [OF xs _ tiles(1)])
    show "chain (m1(b := v')) xs (free_addrs ?B (ts1 @ [(w, True)]) @ free_addrs (new + (k - w)) ts2) heap_end"
      using chain n(3) by simp
    show "size_of (m1(b := v')) xs = 0" "size_of (m1(b := v')) new = k - w" using t(8) xs b(1) n(4) by (auto simp: m1_def set_size_def)
    show "coalesced (ts1 @ [(w, True)])" using t(4) by (simp add: coalesced_used_Cons)
    show "new = ?B + total (ts1 @ [(w, True)])" using b(1) by (simp add: new_def)
    show "0 < k - w" "new + (k - w) + total ts2 = heap_end" using n t(3) by simp_all
  qed (use t(5) n(5) tiles h(1) in \<open>simp_all del: fun_upd_apply\<close>)
  then obtain m' where m': "prvInsertBlockIntoFreeList xs new (h\<lparr>heap_memory := m1(b := v')\<rparr>) = Some (h\<lparr>heap_memory := m'\<rparr>)"
    "list_inv xs (ts1 @ carve w k @ ts2) m'" unfolding merged by auto
  let ?it = "last (xs # free_addrs ?B ts1)"
  have it: "?it \<in> insert xs (set (free_addrs ?B ts1))" using last_in_set [of "xs # free_addrs ?B ts1"] by simp
  then have it_b: "?it < b" using F xs b(1) by auto
  have next_it: "next_of (m1(b := v')) ?it = hd (free_addrs (b + k) ts2 @ [heap_end])" "new \<le> hd (free_addrs (b + k) ts2 @ [heap_end])"
    using chain R n t(3) by (auto simp: chain_split dest: chain_hd) (cases "free_addrs (b + k) ts2"; fastforce)
  have place: "find_place (m1(b := u)) xs new = Some ?it" for u
  proof (rule find_place_chain)
    have "chain (m1(b := v')) xs (free_addrs ?B ts1) (hd (free_addrs (b + k) ts2 @ [heap_end]))" using chain by (simp only: chain_split)
    then show "chain (m1(b := u)) xs (free_addrs ?B ts1) (hd (free_addrs (b + k) ts2 @ [heap_end]))"
      by (rule chain_links [THEN iffD1, rotated]) (use F xs b(1) in fastforce)
    show "\<forall>x\<in>set (free_addrs ?B ts1). x < new" using F n(4) by fastforce
  qed (rule next_it)
  have run: "prvInsertBlockIntoFreeList xs new (h\<lparr>heap_memory := m1\<rparr>) = Some (h\<lparr>heap_memory := m'(b := m1 b)\<rparr>)"
  proof -
    have triv: "(m1(b := v'))(b := m1 b) = m1" by simp
    have "find_place m1 xs new = Some ?it" using place [of "m1 b"] by (simp only: fun_upd_triv)
    moreover have "b \<noteq> ?it" "b \<noteq> new" "b \<noteq> next_of (m1(b := v')) ?it" using it_b n(4) next_it by linarith+
    ultimately show ?thesis using insert_frame [OF place [of v'], of b "m1 b" h m'] m'(1) unfolding triv by blast
  qed
  have bits: "w32 (k + 2 ^ 32 - w) = k - w" "w32 (b + w) = new" "8 dvd new"
    using n w(2,3) b(1) t(3) region(2,5) tiled_dvd [OF t(1)] by (simp_all add: w32_def le_mod_geq new_def)
  have "split_block xs b w h = Some (h\<lparr>heap_memory := m'(b := m1 b)\<rparr>)"
    using run b(2) h(2) n(2) bits by (simp add: split_block_def Let_def header_size and_7 on_memory_def m1_def)
  moreover have "size_of (m'(b := m1 b)) b = w" by (simp add: m1_def set_size_def)
  moreover have "m' b = v'"
    using m'(2) True b(1) by (simp add: carve_def list_inv_def v'_def)
  then have "(m'(b := m1 b))(b := v') = m'" by auto
  ultimately show ?thesis using m'(2) True by (intro exI [of _ "m'(b := m1 b)"]) (simp add: carve_def v'_def)
qed

lemma free_total_le: "free_total ts \<le> total ts"
  by (induction ts) auto

lemma list_inv_small: "list_inv xs ts m \<Longrightarrow> free_total ts < 2 ^ 31 \<and> total ts < 2 ^ 31"
  using free_total_le [of ts] region(1,4) unfolding list_inv_def by linarith

lemma hand_out_inv:
  assumes "list_inv xs ts (m(b := \<lparr>pxNextFreeBlock = 0, xBlockSize = c + ALLOCATED\<rparr>))" "size_of m b = c" "c \<le> free" "free < 2 ^ 31" "free_total ts = free - c"
    and "pxEnd h = heap_end" "xBlockAllocatedBit h = ALLOCATED" "xFreeBytesRemaining h = free"
  shows "heap_inv xs ts (hand_out b (h\<lparr>heap_memory := m\<rparr>))"
proof -
  have "set_next b 0 (set_size b (c + ALLOCATED) m) = m(b := \<lparr>pxNextFreeBlock = 0, xBlockSize = c + ALLOCATED\<rparr>)"
    by (simp add: set_next_def set_size_def both_fields)
  then show ?thesis using assms by (simp add: hand_out_def heap_inv_def Let_def allocated_bit w32_def le_mod_geq)
qed

text \<open>A request that is served, and one that is not.\<close>

lemma carve_facts: "0 < w \<Longrightarrow> w \<le> k \<Longrightarrow> total (carve w k) = k \<and> free_total (carve w k) = k - fst (hd (carve w k)) \<and> snd (hd (carve w k)) \<and>
   w \<le> fst (hd (carve w k)) \<and> fst (hd (carve w k)) \<le> k"
  by (auto simp: carve_def)

lemma starts_used_of: "coalesced (ts1 @ (k, False) # ts2) \<Longrightarrow> starts_used ts2"
  by (simp add: coalesced_free_Cons)

lemma allocate_serves:
  assumes inv: "heap_inv xs (ts1 @ (k, False) # ts2) h" and xs: "xs < GetPsramMappedAddr"
    and w: "0 < w" "8 dvd w" "w \<le> k" and first: "\<forall>(j, u)\<in>set ts1. u \<or> j < w"
  shows "\<exists>h'. allocate xs w h = Some (GetPsramMappedAddr + total ts1 + 8, h') \<and> heap_inv xs (ts1 @ carve w k @ ts2) h'"
proof -
  let ?B = GetPsramMappedAddr
  define m b where "m = heap_memory h" and "b = ?B + total ts1"
  let ?F = "free_addrs ?B ts1"
  define prev where "prev = last (xs # ?F)"
  have li: "list_inv xs (ts1 @ (k, False) # ts2) m" and hp: "pxEnd h = heap_end" "xBlockAllocatedBit h = ALLOCATED" "xFreeBytesRemaining h = free_total (ts1 @ (k, False) # ts2)"
    using inv by (simp_all add: heap_inv_def m_def)
  have t: "tiled m ?B ts1" "size_of m b = k" "8 dvd k" "b + k + total ts2 = heap_end" "chain m xs (?F @ b # free_addrs (b + k) ts2) heap_end" "starts_used ts2"
    using li by (simp_all add: list_inv_def b_def add.assoc coalesced_free_Cons)
  have F: "0 < x \<and> ?B \<le> x \<and> x < b \<and> size_of m x < w" if "x \<in> set ?F" for x
    using free_addrs_range [OF t(1) that] free_addr_size [OF t(1) first that] b_def region(6) by linarith
  have fit: "find_fit m xs (next_of m xs) w = Some (prev, b)"
    using t(2,5) F region w(3) unfolding prev_def by (intro find_fit_chain) (auto simp: chain_append b_def)
  have prev: "next_of m prev = b" unfolding prev_def using t(5) by (simp add: chain_append chain_end del: last.simps)
  have "prev \<in> insert xs (set ?F)" using last_in_set [of "xs # ?F"] by (simp add: prev_def)
  then have "prev \<noteq> b" using F xs b_def by force
  define m1 where "m1 = set_next prev (next_of m b) m"
  have "\<exists>m'. split_block xs b w (h\<lparr>heap_memory := m1\<rparr>) = Some (h\<lparr>heap_memory := m1\<rparr>\<lparr>heap_memory := m'\<rparr>) \<and>
     size_of m' b = fst (hd (carve w k)) \<and>
     list_inv xs (ts1 @ carve w k @ ts2) (m'(b := \<lparr>pxNextFreeBlock = 0, xBlockSize = fst (hd (carve w k)) + ALLOCATED\<rparr>))"
    using t w \<open>prev \<noteq> b\<close> hp
    by (intro split_runs [OF list_inv_used [OF li xs b_def prev_def, folded m1_def] refl b_def _ xs]) (simp_all add: m1_def set_next_def)
  then obtain m' where m': "split_block xs b w (h\<lparr>heap_memory := m1\<rparr>) = Some (h\<lparr>heap_memory := m'\<rparr>)" "size_of m' b = fst (hd (carve w k))"
    "list_inv xs (ts1 @ carve w k @ ts2) (m'(b := \<lparr>pxNextFreeBlock = 0, xBlockSize = fst (hd (carve w k)) + ALLOCATED\<rparr>))" by auto
  let ?c = "fst (hd (carve w k))"
  have run: "allocate xs w h = Some (b + 8, hand_out b (h\<lparr>heap_memory := m'\<rparr>))"
  proof -
    have "b \<noteq> heap_end" "w32 (b + 8) = b + 8" using t(4) w region(7) by (simp_all add: w32_small)
    then show ?thesis using fit prev m'(1) hp
      by (simp add: allocate_def m_def [symmetric] on_memory_def m1_def header_size Let_def)
  qed
  have "heap_inv xs (ts1 @ carve w k @ ts2) (hand_out b (h\<lparr>heap_memory := m'\<rparr>))"
    using hp carve_facts [OF w(1,3)] list_inv_small [OF li] by (intro hand_out_inv [OF m'(3,2)]) auto
  then show ?thesis using run by (simp add: b_def)
qed

lemma allocate_none:
  assumes inv: "heap_inv xs ts h" and xs: "xs < GetPsramMappedAddr" and w: "0 < w" and none: "\<forall>(k, u)\<in>set ts. u \<or> k < w"
  shows "allocate xs w h = Some (0, h)"
proof -
  let ?m = "heap_memory h" and ?F = "free_addrs GetPsramMappedAddr ts"
  have t: "tiled ?m GetPsramMappedAddr ts" "chain ?m xs ?F heap_end" "next_of ?m heap_end = 0" "pxEnd h = heap_end"
    using inv by (simp_all add: heap_inv_def list_inv_def)
  have "size_of ?m x < w \<and> x \<noteq> 0" if "x \<in> set ?F" for x
    using free_addrs_range [OF t(1) that] free_addr_size [OF t(1) none that] region(6) by linarith
  then have "find_fit ?m xs (next_of ?m xs) w = Some (last (xs # ?F), heap_end)"
    using t region(1) by (intro find_fit_chain) auto
  then show ?thesis using t(4) by (simp add: allocate_def)
qed

lemma base_aligned: "tiled m GetPsramMappedAddr ts \<Longrightarrow> (GetPsramMappedAddr + total ts + 8) mod 8 = 0"
  using tiled_dvd [of m GetPsramMappedAddr ts] region(5) by simp

lemma heap_inv_on: "heap_inv xs ts h \<Longrightarrow> pxEnd h \<noteq> 0" "heap_inv xs ts h \<Longrightarrow> xBlockAllocatedBit h = ALLOCATED"
  using region(1) by (auto simp: heap_inv_def)

lemma malloc_serves:
  assumes inv: "heap_inv xs (ts1 @ (k, False) # ts2) h" and xs: "xs < GetPsramMappedAddr"
    and n: "0 < n" "rounded n \<le> k" and first: "\<forall>(j, u)\<in>set ts1. u \<or> j < rounded n"
  shows "\<exists>h'. PsramMalloc xs n h = Some (GetPsramMappedAddr + total ts1 + 8, h') \<and> heap_inv xs (ts1 @ carve (rounded n) k @ ts2) h'"
proof -
  have li: "list_inv xs (ts1 @ (k, False) # ts2) (heap_memory h)" "xFreeBytesRemaining h = free_total (ts1 @ (k, False) # ts2)"
    using inv by (simp_all add: heap_inv_def)
  then have "k < 2 ^ 31" "k \<le> xFreeBytesRemaining h" using list_inv_small [OF li(1)] by simp_all
  then have small: "n < 2 ^ 31" "wanted_size n = rounded n" "rounded n \<le> xFreeBytesRemaining h"
    using n rounded_bounds [of n] by (auto intro: wanted_size_rounded)
  have "(GetPsramMappedAddr + total ts1 + 8) mod 8 = 0" using li(1) by (intro base_aligned [of "heap_memory h"]) (simp add: list_inv_def)
  then show ?thesis using allocate_serves [OF inv xs _ rounded_bounds(3) n(2) first] small n rounded_bounds [of n] heap_inv_on [OF inv]
    by (auto simp: PsramMalloc_def allocated_bit and_7)
qed

lemma high_bit: "n < 2 ^ 32 \<Longrightarrow> \<not> n < 2 ^ 31 \<Longrightarrow> n AND ALLOCATED \<noteq> 0"
  using allocated_bit(3) [of "n - 2 ^ 31"] by (simp add: ALLOCATED_def)

lemma malloc_refuses:
  assumes inv: "heap_inv xs ts h" and xs: "xs < GetPsramMappedAddr" and n: "n < 2 ^ 32"
    and none: "n = 0 \<or> (\<forall>(k, u)\<in>set ts. u \<or> k < rounded n)"
  shows "PsramMalloc xs n h = Some (0, h)"
proof (cases "n = 0 \<or> \<not> n < 2 ^ 31")
  case True
  have "wanted_size 0 = 0" by (simp add: wanted_size_def)
  then show ?thesis using True heap_inv_on [OF inv] high_bit [OF n] by (auto simp: PsramMalloc_def)
next
  case False
  then have "wanted_size n = rounded n" by (intro wanted_size_rounded) auto
  moreover have "allocate xs (rounded n) h = Some (0, h)" using none False rounded_bounds(1) [of n] by (intro allocate_none [OF inv xs]) auto
  ultimately show ?thesis using False heap_inv_on [OF inv] by (simp add: PsramMalloc_def allocated_bit Let_def)
qed

section \<open>Freeing keeps the invariant\<close>

lemma list_inv_release:
  assumes inv: "list_inv xs (ts1 @ (k, True) # ts2) m" and b: "b = GetPsramMappedAddr + total ts1" and xs: "xs < GetPsramMappedAddr" and h: "pxEnd h = heap_end"
  shows "\<exists>m'. prvInsertBlockIntoFreeList xs b (h\<lparr>heap_memory := set_size b k m\<rparr>) = Some (h\<lparr>heap_memory := m'\<rparr>) \<and> list_inv xs (merge ts1 k ts2) m'"
proof -
  let ?B = GetPsramMappedAddr
  have t: "tiled m ?B ts1" "0 < k" "8 dvd k" "tiled m (b + k) ts2" "b + k + total ts2 = heap_end" "coalesced ts1" "coalesced ts2"
    "chain m xs (free_addrs ?B ts1 @ free_addrs (b + k) ts2) heap_end" "m heap_end = \<lparr>pxNextFreeBlock = 0, xBlockSize = 0\<rparr>" "size_of m xs = 0"
    using inv b by (simp_all add: list_inv_def coalesced_used_Cons add.assoc)
  have "chain (set_size b k m) xs (free_addrs ?B ts1 @ free_addrs (b + k) ts2) heap_end"
    using chain_links [of xs _ "set_size b k m" m] t(8) by (simp add: set_size_def)
  moreover have "tiled (set_size b k m) ?B ts1" "tiled (set_size b k m) (b + k) ts2" "set_size b k m heap_end = m heap_end"
    using t b by (simp_all add: set_size_def tiled_frame del: fun_upd_apply) auto
  moreover have "size_of (set_size b k m) b = k" "size_of (set_size b k m) xs = 0" using t(10) xs b by (simp_all add: set_size_def)
  ultimately show ?thesis using insert_merges [OF xs, of "set_size b k m" ts1 b k ts2 "h\<lparr>heap_memory := set_size b k m\<rparr>"] t b h by simp
qed

lemma free_returns:
  assumes inv: "heap_inv xs (ts1 @ (k, True) # ts2) h" and xs: "xs < GetPsramMappedAddr"
  shows "\<exists>h'. PsramFree xs (GetPsramMappedAddr + total ts1 + 8) h = Some h' \<and> heap_inv xs (merge ts1 k ts2) h'"
proof -
  let ?b = "GetPsramMappedAddr + total ts1"
  have li: "list_inv xs (ts1 @ (k, True) # ts2) (heap_memory h)" and hp: "pxEnd h = heap_end" "xBlockAllocatedBit h = ALLOCATED" "xFreeBytesRemaining h = free_total ts1 + free_total ts2"
    using inv by (simp_all add: heap_inv_def)
  have b: "heap_memory h ?b = \<lparr>pxNextFreeBlock = 0, xBlockSize = k + ALLOCATED\<rparr>" "0 < k" "?b + k \<le> heap_end"
    using li by (simp_all add: list_inv_def)
  have small: "k < 2 ^ 31" "free_total ts1 + free_total ts2 + k < 2 ^ 31"
    using list_inv_small [OF li] free_total_le [of ts1] free_total_le [of ts2] by simp_all
  define h1 where "h1 = h\<lparr>xFreeBytesRemaining := free_total ts1 + free_total ts2 + k\<rparr>"
  obtain m' where m': "prvInsertBlockIntoFreeList xs ?b (h1\<lparr>heap_memory := set_size ?b k (heap_memory h)\<rparr>) = Some (h1\<lparr>heap_memory := m'\<rparr>)"
    "list_inv xs (merge ts1 k ts2) m'"
    using list_inv_release [OF li refl xs, of h1] hp by (auto simp: h1_def)
  have swap: "h\<lparr>heap_memory := X, xFreeBytesRemaining := free_total ts1 + free_total ts2 + k\<rparr> = h1\<lparr>heap_memory := X\<rparr>" for X
    by (simp add: h1_def)
  have "w32 (?b + 8 + 2 ^ 32 - 8) = ?b" using b region(2) by (simp add: w32_def)
  moreover have "w32 (free_total ts1 + free_total ts2 + k) = free_total ts1 + free_total ts2 + k" using small(2) by (simp add: w32_small)
  moreover have "?b + 8 < GetPsramMappedAddr + GetPsramTotalSize" using b region(3) by simp
  ultimately have "PsramFree xs (?b + 8) h = Some (h1\<lparr>heap_memory := m', xNumberOfSuccessfulFrees := w32 (xNumberOfSuccessfulFrees h1 + 1)\<rparr>)"
    using m'(1) allocated_bit(3,4) [OF small(1)] b(1) hp by (simp add: PsramFree_def header_size on_memory_def swap Let_def)
  moreover have "heap_inv xs (merge ts1 k ts2) (h1\<lparr>heap_memory := m', xNumberOfSuccessfulFrees := w32 (xNumberOfSuccessfulFrees h1 + 1)\<rparr>)"
    using m'(2) hp by (simp add: heap_inv_def merge_total h1_def)
  ultimately show ?thesis by blast
qed

end
