(* ===== verification/PsramHeapProps.thy ===== *)
theory PsramHeapProps
  imports PsramHeap
begin

text \<open>
  What the heap of the external memory promises its callers, over every sequence of calls from power-on in which callers
  free only what they hold and write only inside their blocks: no call fails an assertion or runs for ever, a block that is handed
  out is apart from every other, and when everything has been freed the memory is one block again.
\<close>

section \<open>The runs of the heap\<close>

text \<open>The bytes of the block handed out at an address.\<close>

definition block_bytes :: "psram_heap \<Rightarrow> nat \<Rightarrow> nat" where
  "block_bytes h p = size_of (heap_memory h) (p - xHeapStructSize) - xBlockAllocatedBit h - xHeapStructSize"

inductive psram_run :: "nat \<Rightarrow> psram_heap \<Rightarrow> nat set \<Rightarrow> bool" for xs where
  power_on: "psram_run xs (psram_power_on m) {}"
| malloc: "psram_run xs h held \<Longrightarrow> n < 2 ^ 32 \<Longrightarrow> PsramMalloc xs n h = Some (p, h') \<Longrightarrow>
           psram_run xs h' (if p = 0 then held else insert p held)"
| free: "psram_run xs h held \<Longrightarrow> p \<in> held \<Longrightarrow> PsramFree xs p h = Some h' \<Longrightarrow> psram_run xs h' (held - {p})"
| writes: "psram_run xs h held \<Longrightarrow> (\<And>a. m a \<noteq> heap_memory h a \<Longrightarrow> \<exists>p\<in>held. p \<le> a \<and> a < p + block_bytes h p) \<Longrightarrow>
           psram_run xs (h\<lparr>heap_memory := m\<rparr>) held"

fun used_addrs :: "nat \<Rightarrow> tiles \<Rightarrow> nat list" where
  "used_addrs a [] = []"
| "used_addrs a ((n, used) # ts) = (if used then [a + 8] else []) @ used_addrs (a + n) ts"

lemma used_addrs_append [simp]: "used_addrs a (ts @ us) = used_addrs a ts @ used_addrs (a + total ts) us"
  by (induction a ts rule: used_addrs.induct) (simp_all add: add.assoc)

lemma used_addr_split:
  "p \<in> set (used_addrs a ts) \<Longrightarrow> \<exists>ts1 k ts2. ts = ts1 @ (k, True) # ts2 \<and> p = a + total ts1 + 8"
proof (induction a ts rule: used_addrs.induct)
  case (2 a n used ts)
  show ?case
  proof (cases "used \<and> p = a + 8")
    case True
    then show ?thesis by (intro exI [of _ "[]"] exI [of _ n] exI [of _ ts]) auto
  next
    case False
    then obtain ts1 k ts2 where "ts = ts1 @ (k, True) # ts2" "p = a + n + total ts1 + 8" using 2 by (auto split: if_splits)
    then show ?thesis by (intro exI [of _ "(n, used) # ts1"] exI [of _ k] exI [of _ ts2]) auto
  qed
qed simp

lemma used_addrs_range: "tiled m a ts \<Longrightarrow> p \<in> set (used_addrs a ts) \<Longrightarrow> a + 8 \<le> p \<and> p < a + total ts + 8"
  by (induction m a ts rule: tiled.induct) (fastforce split: if_splits)+

lemma carve_used: "0 < w \<Longrightarrow> w \<le> k \<Longrightarrow> used_addrs a (carve w k) = [a + 8]"
  by (simp add: carve_def)

lemma merge_used: "set (used_addrs a (merge ts1 k ts2)) = set (used_addrs a ts1) \<union> set (used_addrs (a + total ts1 + k) ts2)"
  by (cases ts1 rule: before_part_cases; cases ts2 rule: after_part_cases) (simp_all add: merge_def add.assoc)

section \<open>What callers write\<close>

fun payload :: "nat \<Rightarrow> tiles \<Rightarrow> nat \<Rightarrow> bool" where
  "payload a [] x \<longleftrightarrow> False"
| "payload a ((n, used) # ts) x \<longleftrightarrow> used \<and> a + 8 \<le> x \<and> x < a + n \<or> payload (a + n) ts x"

lemma payload_range: "payload a ts x \<Longrightarrow> a + 8 \<le> x \<and> x < a + total ts"
  by (induction a ts x rule: payload.induct) auto

lemma payload_append: "payload a (ts @ us) x \<longleftrightarrow> payload a ts x \<or> payload (a + total ts) us x"
  by (induction a ts x rule: payload.induct) (auto simp: add.assoc)

lemma tiled_writes:
  "tiled m a ts \<Longrightarrow> (\<And>x. m' x \<noteq> m x \<Longrightarrow> payload a ts x \<or> x < a) \<Longrightarrow>
   tiled m' a ts \<and> (\<forall>x\<in>set (free_addrs a ts). m' x = m x)"
proof (induction m a ts rule: tiled.induct)
  case (2 m a n used ts)
  have at: "m' a = m a" using 2(3) [of a] payload_range [of "a + n" ts a] by fastforce
  have "tiled m' (a + n) ts \<and> (\<forall>x\<in>set (free_addrs (a + n) ts). m' x = m x)"
  proof (rule 2(1))
    show "tiled m (a + n) ts" using 2(2) by simp
    show "payload (a + n) ts x \<or> x < a + n" if "m' x \<noteq> m x" for x using 2(3) [OF that] 2(2) by auto
  qed
  then show ?case using at 2(2) by auto
qed simp

lemma list_inv_writes:
  assumes inv: "list_inv xs ts m" and xs: "xs < GetPsramMappedAddr" and w: "\<And>x. m' x \<noteq> m x \<Longrightarrow> payload GetPsramMappedAddr ts x"
  shows "list_inv xs ts m'"
proof -
  have t: "tiled m' GetPsramMappedAddr ts" "\<forall>x\<in>set (free_addrs GetPsramMappedAddr ts). m' x = m x"
    using tiled_writes [of m GetPsramMappedAddr ts m'] w inv by (auto simp: list_inv_def)
  have "m' xs = m xs" "m' heap_end = m heap_end"
    using w [of xs] w [of heap_end] payload_range xs inv by (fastforce simp: list_inv_def)+
  moreover from this t(2) have "chain m' xs (free_addrs GetPsramMappedAddr ts) heap_end = chain m xs (free_addrs GetPsramMappedAddr ts) heap_end"
    by (intro chain_links) auto
  ultimately show ?thesis using t inv by (simp add: list_inv_def)
qed

lemma held_payload:
  assumes inv: "heap_inv xs ts h" and p: "p \<in> set (used_addrs GetPsramMappedAddr ts)" and x: "p \<le> x" "x < p + block_bytes h p"
  shows "payload GetPsramMappedAddr ts x"
proof -
  obtain ts1 k ts2 where ts: "ts = ts1 @ (k, True) # ts2" "p = GetPsramMappedAddr + total ts1 + 8" using used_addr_split [OF p] by blast
  have "size_of (heap_memory h) (GetPsramMappedAddr + total ts1) = k + ALLOCATED" "xBlockAllocatedBit h = ALLOCATED"
    using inv ts(1) by (simp_all add: heap_inv_def list_inv_def)
  then have "block_bytes h p = k - 8" by (simp add: block_bytes_def ts(2) header_size)
  then have "x < GetPsramMappedAddr + total ts1 + k" using x ts(2) by linarith
  then show ?thesis using x by (simp add: ts payload_append)
qed

section \<open>The invariant of the runs\<close>

definition heap_ok :: "nat \<Rightarrow> psram_heap \<Rightarrow> nat set \<Rightarrow> bool" where
  "heap_ok xs h held \<longleftrightarrow>
     (pxEnd h = 0 \<and> held = {}) \<or> (\<exists>ts. heap_inv xs ts h \<and> held = set (used_addrs GetPsramMappedAddr ts))"

lemma malloc_cases:
  assumes inv: "heap_inv xs ts h" and xs: "xs < GetPsramMappedAddr" and n: "n < 2 ^ 32"
  obtains "PsramMalloc xs n h = Some (0, h)" "n = 0 \<or> (\<forall>(k, u)\<in>set ts. u \<or> k < rounded n)"
  | ts1 k ts2 h' where "ts = ts1 @ (k, False) # ts2" "0 < n" "rounded n \<le> k"
      "PsramMalloc xs n h = Some (GetPsramMappedAddr + total ts1 + 8, h')" "heap_inv xs (ts1 @ carve (rounded n) k @ ts2) h'"
proof (cases "n = 0 \<or> (\<forall>(k, u)\<in>set ts. u \<or> k < rounded n)")
  case True
  then show ?thesis using malloc_refuses [OF inv xs n] that(1) by blast
next
  case False
  then obtain ts1 k ts2 where ts: "ts = ts1 @ (k, False) # ts2" "rounded n \<le> k" "\<forall>(k, u)\<in>set ts1. u \<or> k < rounded n"
    using first_fit [of ts "rounded n"] by blast
  then show ?thesis using malloc_serves [of xs ts1 k ts2 h n] inv xs False that(2) [OF ts(1) _ ts(2)] by blast
qed

lemma malloc_first: "pxEnd h = 0 \<Longrightarrow> xs < GetPsramMappedAddr \<Longrightarrow> PsramMalloc xs n h = PsramMalloc xs n (prvHeapInit xs h)"
  using heap_inv_on(1) [OF heap_init [of xs h]] by (simp add: PsramMalloc_def)

lemma ready:
  assumes ok: "heap_ok xs h held" and xs: "xs < GetPsramMappedAddr"
  obtains ts h1 where "heap_inv xs ts h1" "held = set (used_addrs GetPsramMappedAddr ts)" "\<And>n. PsramMalloc xs n h = PsramMalloc xs n h1"
    "pxEnd h \<noteq> 0 \<Longrightarrow> h1 = h"
proof (cases "pxEnd h = 0")
  case True
  then have "held = {}" using ok heap_inv_on(1) [of xs _ h] unfolding heap_ok_def by blast
  then show ?thesis using that [OF heap_init [OF xs, of h]] malloc_first [OF True xs] True by simp
next
  case False
  then obtain ts where "heap_inv xs ts h" "held = set (used_addrs GetPsramMappedAddr ts)" using ok unfolding heap_ok_def by auto
  then show ?thesis using that [of ts h] by simp
qed

lemma malloc_ok:
  assumes "heap_ok xs h held" and xs: "xs < GetPsramMappedAddr" and n: "n < 2 ^ 32"
  shows "\<exists>p h'. PsramMalloc xs n h = Some (p, h') \<and> heap_ok xs h' (if p = 0 then held else insert p held)"
proof -
  obtain ts h1 where h1: "heap_inv xs ts h1" "held = set (used_addrs GetPsramMappedAddr ts)" "\<And>n. PsramMalloc xs n h = PsramMalloc xs n h1"
    using ready [OF assms(1) xs] by blast
  show ?thesis
  proof (cases rule: malloc_cases [OF h1(1) xs n])
    case 1
    then show ?thesis using h1 by (auto simp: heap_ok_def)
  next
    case (2 ts1 k ts2 h')
    have "0 < rounded n" using rounded_bounds(1) [of n] by linarith
    note carve = carve_used [OF this 2(3)] carve_facts [OF this 2(3)]
    then have "insert (GetPsramMappedAddr + total ts1 + 8) held = set (used_addrs GetPsramMappedAddr (ts1 @ carve (rounded n) k @ ts2))"
      using h1(2) 2(1) by auto
    then have "heap_ok xs h' (insert (GetPsramMappedAddr + total ts1 + 8) held)" using 2(5) unfolding heap_ok_def by blast
    then show ?thesis using 2(4) h1(3) by simp
  qed
qed

lemma free_ok:
  assumes ok: "heap_ok xs h held" and xs: "xs < GetPsramMappedAddr" and p: "p \<in> held"
  shows "\<exists>h'. PsramFree xs p h = Some h' \<and> heap_ok xs h' (held - {p})"
proof -
  let ?B = GetPsramMappedAddr
  obtain ts where h: "heap_inv xs ts h" "held = set (used_addrs ?B ts)" using ok p by (auto simp: heap_ok_def)
  then obtain ts1 k ts2 where ts: "ts = ts1 @ (k, True) # ts2" "p = ?B + total ts1 + 8" using used_addr_split p by blast
  obtain h' where h': "PsramFree xs p h = Some h'" "heap_inv xs (merge ts1 k ts2) h'" using free_returns [of xs ts1 k ts2 h] h ts xs by auto
  have "tiled (heap_memory h) ?B ts1" "0 < k" "tiled (heap_memory h) (?B + total ts1 + k) ts2"
    using h(1) ts(1) by (simp_all add: heap_inv_def list_inv_def)
  then have "p \<notin> set (used_addrs ?B ts1)" "p \<notin> set (used_addrs (?B + total ts1 + k) ts2)"
    using used_addrs_range [of _ ?B ts1 p] used_addrs_range [of _ "?B + total ts1 + k" ts2 p] ts(2) by fastforce+
  then have "held - {p} = set (used_addrs ?B (merge ts1 k ts2))" using h(2) ts by (auto simp: merge_used)
  then show ?thesis using h' by (auto simp: heap_ok_def)
qed

lemma run_ok: "psram_run xs h held \<Longrightarrow> xs < GetPsramMappedAddr \<Longrightarrow> heap_ok xs h held"
proof (induction rule: psram_run.induct)
  case (power_on m)
  then show ?case by (simp add: heap_ok_def psram_power_on_def)
next
  case (malloc h held n p h')
  then show ?case using malloc_ok [of xs h held n] by auto
next
  case (free h held p h')
  then show ?case using free_ok [of xs h held p] by auto
next
  case (writes h held m)
  show ?case
  proof (cases "held = {} \<and> pxEnd h = 0")
    case True
    then show ?thesis by (simp add: heap_ok_def)
  next
    case False
    then obtain ts where h: "heap_inv xs ts h" "held = set (used_addrs GetPsramMappedAddr ts)" using writes by (auto simp: heap_ok_def)
    have "payload GetPsramMappedAddr ts x" if "m x \<noteq> heap_memory h x" for x
      using writes(2) [OF that] held_payload [OF h(1)] h(2) by blast
    then have "list_inv xs ts m" using h(1) writes(4) list_inv_writes [of xs ts "heap_memory h" m] by (auto simp: heap_inv_def)
    then show ?thesis using h by (auto simp: heap_ok_def heap_inv_def)
  qed
qed

section \<open>Blocks that are held\<close>

lemma used_block: "tiled m a ts \<Longrightarrow> q \<in> set (used_addrs a ts) \<Longrightarrow>
   a + 8 \<le> q \<and> ALLOCATED + 8 \<le> size_of m (q - 8) \<and> q + (size_of m (q - 8) - ALLOCATED) \<le> a + total ts + 8"
proof (induction m a ts rule: tiled.induct)
  case (2 m a n used ts)
  have "8 \<le> n" using 2(2) by (auto dest: dvd_imp_le)
  then show ?case using 2 by (auto split: if_splits)
qed simp

lemma used_block_same: "tiled m a ts \<Longrightarrow> tiled m' a ts \<Longrightarrow> q \<in> set (used_addrs a ts) \<Longrightarrow> m' (q - 8) = m (q - 8)"
  by (induction m a ts rule: tiled.induct) (auto split: if_splits)

lemma malloc_apart:
  assumes inv: "heap_inv xs (ts1 @ (k, False) # ts2) h" "heap_inv xs (ts1 @ carve w k @ ts2) h'" and w: "n + 8 \<le> w" "w \<le> k"
    and p: "p = GetPsramMappedAddr + total ts1 + 8" and q: "q \<in> set (used_addrs GetPsramMappedAddr (ts1 @ (k, False) # ts2))"
  shows "block_bytes h' q = block_bytes h q \<and> (p + block_bytes h' p \<le> q - 8 \<or> q + block_bytes h q \<le> p - 8)"
proof -
  let ?B = GetPsramMappedAddr and ?m = "heap_memory h" and ?m' = "heap_memory h'"
  note carve = carve_facts [of w k]
  have t: "tiled ?m ?B ts1" "tiled ?m' ?B ts1" "tiled ?m (?B + total ts1 + k) ts2" "tiled ?m' (?B + total ts1 + k) ts2"
    "size_of ?m' (p - 8) = fst (hd (carve w k)) + ALLOCATED" "xBlockAllocatedBit h = ALLOCATED" "xBlockAllocatedBit h' = ALLOCATED"
    using inv w p by (auto simp: heap_inv_def list_inv_def carve_def add.assoc split: if_splits)
  have bytes: "block_bytes h' p \<le> k - 8" using t carve w by (auto simp: block_bytes_def header_size)
  from q consider "q \<in> set (used_addrs ?B ts1)" | "q \<in> set (used_addrs (?B + total ts1 + k) ts2)" by auto
  then show ?thesis
  proof cases
    case 1
    have "block_bytes h' q = block_bytes h q" using used_block_same [OF t(1,2) 1] t by (simp add: block_bytes_def header_size)
    moreover have "q + block_bytes h q \<le> p - 8" using used_block [OF t(1) 1] t(6) p unfolding block_bytes_def header_size by linarith
    ultimately show ?thesis by simp
  next
    case 2
    have "block_bytes h' q = block_bytes h q" using used_block_same [OF t(3,4) 2] t by (simp add: block_bytes_def header_size)
    moreover have "p + block_bytes h' p \<le> q - 8" using used_block [OF t(3) 2] bytes p w by linarith
    ultimately show ?thesis by simp
  qed
qed

lemma malloc_place:
  assumes inv: "heap_inv xs (ts1 @ carve (rounded n) k @ ts2) h'" and n: "rounded n \<le> k" and p: "p = GetPsramMappedAddr + total ts1 + 8"
  shows "8 dvd p \<and> n \<le> block_bytes h' p \<and> p + block_bytes h' p \<le> heap_end"
proof -
  have w: "0 < rounded n" "n + 8 \<le> rounded n" using rounded_bounds(1) [of n] by auto
  note carve = carve_facts [OF w(1) n]
  have t: "size_of (heap_memory h') (p - 8) = fst (hd (carve (rounded n) k)) + ALLOCATED" "xBlockAllocatedBit h' = ALLOCATED"
    "tiled (heap_memory h') GetPsramMappedAddr ts1" "GetPsramMappedAddr + total ts1 + k + total ts2 = heap_end"
    using inv p carve by (auto simp: heap_inv_def list_inv_def carve_def split: if_splits)
  then show ?thesis using carve w n p base_aligned [OF t(3)] by (auto simp: block_bytes_def header_size dvd_eq_mod_eq_0)
qed

lemma all_free_one: "used_addrs a ts = [] \<Longrightarrow> coalesced ts \<Longrightarrow> ts = [] \<or> (\<exists>k. ts = [(k, False)])"
  by (cases ts rule: coalesced.cases) (auto split: if_splits)

text \<open>The first block after power-on, with \<^verbatim>\<open>xStart\<close> in the internal memory.\<close>

abbreviation blank_heap :: psram_heap where
  "blank_heap \<equiv> psram_power_on (\<lambda>_. \<lparr>pxNextFreeBlock = 0, xBlockSize = 0\<rparr>)"

lemma first_block:
  obtains h' where "PsramMalloc 0x20000000 100 blank_heap = Some (0x80000008, h')" "psram_run 0x20000000 h' {0x80000008}"
proof -
  have xs: "(0x20000000 :: nat) < GetPsramMappedAddr" by (simp add: GetPsramMappedAddr_def)
  have "heap_inv 0x20000000 ([] @ (heap_end - GetPsramMappedAddr, False) # []) (prvHeapInit 0x20000000 blank_heap)"
    using heap_init [OF xs] by simp
  then have "\<exists>h'. PsramMalloc 0x20000000 100 (prvHeapInit 0x20000000 blank_heap) = Some (GetPsramMappedAddr + total [] + 8, h')"
    using malloc_serves [OF _ xs, of "[]" "heap_end - GetPsramMappedAddr" "[]" _ 100] by (auto simp: rounded_def heap_end_def GetPsramMappedAddr_def)
  moreover have "PsramMalloc 0x20000000 100 blank_heap = PsramMalloc 0x20000000 100 (prvHeapInit 0x20000000 blank_heap)"
    by (rule malloc_first [OF _ xs]) (simp add: psram_power_on_def)
  ultimately obtain h' where h': "PsramMalloc 0x20000000 100 blank_heap = Some (0x80000008, h')"
    by (auto simp: GetPsramMappedAddr_def)
  then show ?thesis using that psram_run.malloc [OF psram_run.power_on _ h'] by simp
qed

section \<open>Properties\<close>

text \<open>C23: the heap of the external memory never hangs: after any run in which callers free what they hold and write inside their
  blocks, a request of any size returns (the walk over the free list ends and no assertion fails), and so does the freeing of
  every block that is held.\<close>

theorem psram_heap_never_halts:
  assumes "psram_run xs h held" and "xs < GetPsramMappedAddr"
  shows "(\<forall>n<2 ^ 32. \<exists>p h'. PsramMalloc xs n h = Some (p, h')) \<and> (\<forall>p\<in>held. \<exists>h'. PsramFree xs p h = Some h')"
  using malloc_ok [OF run_ok [OF assms]] free_ok [OF run_ok [OF assms]] assms(2) by blast

theorem psram_heap_never_halts_witness:
  "\<exists>h' h''. PsramMalloc 0x20000000 100 blank_heap = Some (0x80000008, h') \<and> PsramFree 0x20000000 0x80000008 h' = Some h''"
proof -
  obtain h' where h': "PsramMalloc 0x20000000 100 blank_heap = Some (0x80000008, h')" "psram_run 0x20000000 h' {0x80000008}"
    by (rule first_block)
  then show ?thesis using psram_heap_never_halts [OF h'(2)] by (simp add: GetPsramMappedAddr_def)
qed

text \<open>C24: a block that \<^verbatim>\<open>PsramMalloc\<close> hands out is aligned, at least as large as the request, inside the memory, and apart from
  every block that is held, header included; the held blocks keep their sizes.\<close>

theorem malloc_block_is_fresh:
  assumes "psram_run xs h held" and "xs < GetPsramMappedAddr" and "n < 2 ^ 32" and "PsramMalloc xs n h = Some (p, h')" and "p \<noteq> 0"
  shows "8 dvd p \<and> GetPsramMappedAddr + 8 \<le> p \<and> n \<le> block_bytes h' p \<and> p + block_bytes h' p < GetPsramMappedAddr + GetPsramTotalSize \<and>
    (\<forall>q\<in>held. block_bytes h' q = block_bytes h q \<and> (p + block_bytes h' p \<le> q - 8 \<or> q + block_bytes h q \<le> p - 8))"
proof -
  obtain ts h1 where h1: "heap_inv xs ts h1" "held = set (used_addrs GetPsramMappedAddr ts)" "PsramMalloc xs n h1 = Some (p, h')" "pxEnd h \<noteq> 0 \<Longrightarrow> h1 = h"
    using ready [OF run_ok [OF assms(1,2)] assms(2)] assms(4) by metis
  show ?thesis
  proof (cases rule: malloc_cases [OF h1(1) assms(2,3)])
    case 1
    then show ?thesis using h1(3) assms(5) by simp
  next
    case (2 ts1 k ts2 h'')
    then have eq: "h'' = h'" "p = GetPsramMappedAddr + total ts1 + 8" using h1(3) by simp_all
    have "h1 = h" if "q \<in> held" for q
      using h1(4) run_ok [OF assms(1,2)] that heap_inv_on(1) unfolding heap_ok_def by blast
    then show ?thesis using malloc_place [of xs ts1 n k ts2 h' p] 2 eq region(3) rounded_bounds(1) [of n]
        malloc_apart [of xs ts1 k ts2 h1 "rounded n" h' n p] h1(1,2) by auto
  qed
qed

theorem malloc_block_is_fresh_witness:
  "\<exists>h'. PsramMalloc 0x20000000 100 blank_heap = Some (0x80000008, h') \<and> 100 \<le> block_bytes h' 0x80000008"
proof -
  obtain h' where h': "PsramMalloc 0x20000000 100 blank_heap = Some (0x80000008, h')" by (rule first_block)
  then show ?thesis using malloc_block_is_fresh [OF psram_run.power_on _ _ h'] by (simp add: GetPsramMappedAddr_def)
qed

text \<open>C25: once every block has been freed, in whatever order, the memory is one free block again: any request that fits the
  whole memory is served, from its start.\<close>

theorem freed_heap_is_whole:
  assumes "psram_run xs h {}" and "xs < GetPsramMappedAddr" and "0 < n" and "n + 16 \<le> GetPsramTotalSize"
  shows "\<exists>h'. PsramMalloc xs n h = Some (GetPsramMappedAddr + xHeapStructSize, h')"
proof -
  obtain ts h1 where h1: "heap_inv xs ts h1" "used_addrs GetPsramMappedAddr ts = []" "PsramMalloc xs n h = PsramMalloc xs n h1"
    using ready [OF run_ok [OF assms(1,2)] assms(2)] by (metis set_empty)
  have t: "coalesced ts" "GetPsramMappedAddr + total ts = heap_end" using h1(1) by (simp_all add: heap_inv_def list_inv_def)
  with all_free_one [OF h1(2)] obtain k where k: "ts = [(k, False)]" using region(1) by auto
  then have "k = 8388600" using t by (simp add: heap_end_def GetPsramMappedAddr_def)
  then have "rounded n \<le> k" using assms(4) by (simp add: rounded_def GetPsramTotalSize_def)
  then show ?thesis using malloc_serves [of xs "[]" k "[]" h1 n] h1 k assms(2,3) by (auto simp: header_size)
qed

theorem freed_heap_is_whole_witness:
  "\<exists>h1 h2 h3. PsramMalloc 0x20000000 100 blank_heap = Some (0x80000008, h1) \<and> PsramFree 0x20000000 0x80000008 h1 = Some h2 \<and>
     PsramMalloc 0x20000000 8000000 h2 = Some (0x80000008, h3)"
proof -
  have xs: "(0x20000000 :: nat) < GetPsramMappedAddr" by (simp add: GetPsramMappedAddr_def)
  obtain h1 where h1: "PsramMalloc 0x20000000 100 blank_heap = Some (0x80000008, h1)" "psram_run 0x20000000 h1 {0x80000008}"
    by (rule first_block)
  then obtain h2 where h2: "PsramFree 0x20000000 0x80000008 h1 = Some h2"
    using free_ok [OF run_ok [OF h1(2) xs] xs singletonI] by auto
  have "psram_run 0x20000000 h2 {}" using psram_run.free [OF h1(2) _ h2] by simp
  from freed_heap_is_whole [OF this xs, where n = 8000000] show ?thesis
    using h1(1) h2 by (auto simp: GetPsramTotalSize_def GetPsramMappedAddr_def header_size)
qed

end
