(* ===== verification/UserMemory.thy ===== *)
theory UserMemory
  imports PsramHeapProps
begin

text \<open>
  The memory calls the rest of the device makes, \<^verbatim>\<open>src/ram/user_memory.c\<close>, over the heap of the external
  memory: they count the blocks and halt when a request is not served. The lemmas: over every run of these calls
  the count is the number of blocks that are held.
\<close>

record ext_memory =
  ext_heap :: psram_heap
  g_extHeapCount :: nat

definition ExtMalloc :: "nat \<Rightarrow> nat \<Rightarrow> ext_memory \<Rightarrow> (nat \<times> ext_memory) option" where
  "ExtMalloc xs n s =
     (case PsramMalloc xs n (ext_heap s) of
        None \<Rightarrow> None
      | Some (p, h) \<Rightarrow>
          if p = 0 then None
          else Some (p, s\<lparr>ext_heap := h, g_extHeapCount := w32 (g_extHeapCount s + 1)\<rparr>))"

definition ExtFree :: "nat \<Rightarrow> nat \<Rightarrow> ext_memory \<Rightarrow> ext_memory option" where
  "ExtFree xs p s =
     (if p \<noteq> 0
      then map_option (\<lambda>h. s\<lparr>ext_heap := h, g_extHeapCount := w32 (g_extHeapCount s + 2 ^ 32 - 1)\<rparr>) (PsramFree xs p (ext_heap s))
      else Some s)"

text \<open>The block is given back before the new one is asked for; its contents are not copied.\<close>

definition ExtRealloc :: "nat \<Rightarrow> nat \<Rightarrow> nat \<Rightarrow> ext_memory \<Rightarrow> (nat \<times> ext_memory) option" where
  "ExtRealloc xs p newSize s =
     (if p = 0 then ExtMalloc xs newSize s
      else if newSize = 0 then map_option (\<lambda>s. (0, s)) (ExtFree xs p s)
      else Option.bind (ExtFree xs p s) (ExtMalloc xs newSize))"

inductive ext_run :: "nat \<Rightarrow> ext_memory \<Rightarrow> nat set \<Rightarrow> bool" for xs where
  power_on: "ext_run xs \<lparr>ext_heap = psram_power_on m, g_extHeapCount = 0\<rparr> {}"
| malloc: "ext_run xs s held \<Longrightarrow> n < 2 ^ 32 \<Longrightarrow> ExtMalloc xs n s = Some (p, s') \<Longrightarrow> ext_run xs s' (insert p held)"
| free: "ext_run xs s held \<Longrightarrow> p \<in> insert 0 held \<Longrightarrow> ExtFree xs p s = Some s' \<Longrightarrow> ext_run xs s' (held - {p})"
| realloc: "ext_run xs s held \<Longrightarrow> n < 2 ^ 32 \<Longrightarrow> p \<in> insert 0 held \<Longrightarrow> ExtRealloc xs p n s = Some (q, s') \<Longrightarrow>
            ext_run xs s' (held - {p} \<union> ({q} - {0}))"
| writes: "ext_run xs s held \<Longrightarrow> (\<And>a. m a \<noteq> heap_memory (ext_heap s) a \<Longrightarrow> \<exists>p\<in>held. p \<le> a \<and> a < p + block_bytes (ext_heap s) p) \<Longrightarrow>
           ext_run xs (s\<lparr>ext_heap := (ext_heap s)\<lparr>heap_memory := m\<rparr>\<rparr>) held"

definition ext_ok :: "nat \<Rightarrow> ext_memory \<Rightarrow> nat set \<Rightarrow> bool" where
  "ext_ok xs s held \<longleftrightarrow> psram_run xs (ext_heap s) held \<and> finite held \<and> 0 \<notin> held \<and> g_extHeapCount s = card held"

lemma held_small:
  assumes "psram_run xs h held" and "xs < GetPsramMappedAddr"
  shows "finite held \<and> 0 \<notin> held \<and> card held < 2 ^ 31"
proof -
  have "length (used_addrs a ts) \<le> total ts" if "tiled m a ts" for m a ts
    using that by (induction m a ts rule: tiled.induct) (auto simp: Suc_le_eq split: if_splits)
  moreover obtain ts h1 where "heap_inv xs ts h1" "held = set (used_addrs GetPsramMappedAddr ts)"
    using ready [OF run_ok [OF assms] assms(2)] by blast
  ultimately show ?thesis using list_inv_small [of xs ts "heap_memory h1"] card_length [of "used_addrs GetPsramMappedAddr ts"]
      used_addrs_range [of "heap_memory h1" GetPsramMappedAddr ts 0]
    by (fastforce simp: heap_inv_def list_inv_def)
qed

lemma malloc_new:
  assumes run: "psram_run xs h held" "xs < GetPsramMappedAddr" and "n < 2 ^ 32" and "PsramMalloc xs n h = Some (p, h')" and "p \<noteq> 0"
  shows "p \<notin> held"
proof -
  let ?B = GetPsramMappedAddr
  obtain ts h1 where h1: "heap_inv xs ts h1" "held = set (used_addrs ?B ts)" "PsramMalloc xs n h1 = Some (p, h')"
    using ready [OF run_ok [OF run] run(2)] assms(4) by metis
  then obtain ts1 k ts2 where ts: "ts = ts1 @ (k, False) # ts2" "p = ?B + total ts1 + 8"
    using malloc_cases [OF h1(1) run(2) assms(3)] assms(5) by (metis Pair_inject option.inject)
  have "tiled (heap_memory h1) ?B ts1" "0 < k" "tiled (heap_memory h1) (?B + total ts1 + k) ts2"
    using h1(1) ts(1) by (simp_all add: heap_inv_def list_inv_def)
  then show ?thesis
    using used_addrs_range [of _ ?B ts1 p] used_addrs_range [of _ "?B + total ts1 + k" ts2 p] ts h1(2) by fastforce
qed

lemma ext_malloc_ok:
  assumes "ext_ok xs s held" and xs: "xs < GetPsramMappedAddr" and n: "n < 2 ^ 32" and "ExtMalloc xs n s = Some (p, s')"
  shows "p \<noteq> 0 \<and> ext_ok xs s' (insert p held)"
proof -
  obtain h where h: "PsramMalloc xs n (ext_heap s) = Some (p, h)" "p \<noteq> 0" "s' = s\<lparr>ext_heap := h, g_extHeapCount := w32 (g_extHeapCount s + 1)\<rparr>"
    using assms(4) by (auto simp: ExtMalloc_def split: option.splits if_splits)
  have run: "psram_run xs h (insert p held)" using psram_run.malloc [OF _ n h(1)] assms(1) h(2) by (simp add: ext_ok_def)
  moreover have "p \<notin> held" using malloc_new [OF _ xs n h(1,2)] assms(1) by (simp add: ext_ok_def)
  ultimately show ?thesis using assms(1) held_small [OF run xs] h by (auto simp: ext_ok_def w32_small)
qed

lemma ext_free_ok:
  assumes ok: "ext_ok xs s held" and xs: "xs < GetPsramMappedAddr" and p: "p \<in> insert 0 held"
  shows "\<exists>s'. ExtFree xs p s = Some s' \<and> ext_ok xs s' (held - {p})"
proof (cases "p = 0")
  case True
  then show ?thesis using ok by (simp add: ExtFree_def ext_ok_def)
next
  case False
  then have p: "p \<in> held" using p by simp
  have run: "psram_run xs (ext_heap s) held" "finite held" "0 \<notin> held" "g_extHeapCount s = card held" using ok by (simp_all add: ext_ok_def)
  obtain h where h: "PsramFree xs p (ext_heap s) = Some h" using free_ok [OF run_ok [OF run(1) xs] xs p] by blast
  have "0 < card held" "card held < 2 ^ 31" using p run(2) held_small [OF run(1) xs] by (auto simp: card_gt_0_iff)
  then have "w32 (card held + 2 ^ 32 - 1) = card (held - {p})" using p run(2) by (simp add: w32_def le_mod_geq)
  then show ?thesis using False h psram_run.free [OF run(1) p h] run by (simp add: ExtFree_def ext_ok_def)
qed

lemma ext_run_ok: "ext_run xs s held \<Longrightarrow> xs < GetPsramMappedAddr \<Longrightarrow> ext_ok xs s held"
proof (induction rule: ext_run.induct)
  case (power_on m)
  then show ?case by (simp add: ext_ok_def psram_run.power_on)
next
  case (malloc s held n p s')
  then show ?case using ext_malloc_ok by blast
next
  case (free s held p s')
  then show ?case using ext_free_ok [of xs s held p] by auto
next
  case (realloc s held n p q s')
  then have ok: "ext_ok xs s held" by simp
  show ?case
  proof (cases "p = 0")
    case True
    then show ?thesis using ext_malloc_ok [OF ok realloc(6,2), of q s'] realloc(4) ok by (auto simp: ExtRealloc_def ext_ok_def)
  next
    case False
    obtain s1 where s1: "ExtFree xs p s = Some s1" "ext_ok xs s1 (held - {p})" using ext_free_ok [OF ok realloc(6,3)] by blast
    then show ?thesis using ext_malloc_ok [OF s1(2) realloc(6,2), of q s'] realloc(4) False
      by (auto simp: ExtRealloc_def split: if_splits)
  qed
next
  case (writes s held m)
  then show ?case using psram_run.writes [of xs "ext_heap s" held m] by (simp add: ext_ok_def)
qed

text \<open>Over any run of the memory calls the count that the device keeps is the number of blocks that are held, and
  giving back a block that is held (or \<^verbatim>\<open>NULL\<close>) never halts.\<close>

theorem ext_count_is_held:
  assumes "ext_run xs s held" and "xs < GetPsramMappedAddr"
  shows "g_extHeapCount s = card held \<and> (\<forall>p\<in>insert 0 held. \<exists>s'. ExtFree xs p s = Some s' \<and> g_extHeapCount s' = card (held - {p}))"
  using ext_run_ok [OF assms] ext_free_ok [OF ext_run_ok [OF assms] assms(2)] unfolding ext_ok_def by blast

theorem ext_count_is_held_witness:
  "\<exists>s s'. ExtMalloc 0x20000000 100 \<lparr>ext_heap = blank_heap, g_extHeapCount = 0\<rparr> = Some (0x80000008, s) \<and>
     ExtFree 0x20000000 0x80000008 s = Some s' \<and> g_extHeapCount s' = 0"
proof -
  obtain h' where "PsramMalloc 0x20000000 100 blank_heap = Some (0x80000008, h')" by (rule first_block)
  then obtain s where s: "ExtMalloc 0x20000000 100 \<lparr>ext_heap = blank_heap, g_extHeapCount = 0\<rparr> = Some (0x80000008, s)"
    by (auto simp: ExtMalloc_def)
  have "ext_run 0x20000000 s {0x80000008}" using ext_run.malloc [OF ext_run.power_on _ s] by simp
  from ext_count_is_held [OF this] show ?thesis using s by (simp add: GetPsramMappedAddr_def)
qed

end
