(* ===== verification/Gd25Flash.thy ===== *)
theory Gd25Flash
  imports Prelude
begin

text \<open>
  The driver of the flash memory, \<^verbatim>\<open>src/driver/drv_gd25qxx.c\<close>: reading, programming page by page and
  erasing, under a mutex. The chip is a parameter: what comes back for the bytes that are clocked out while
  it is selected. \<open>None\<close> is a call that never returns: a mutex that is held, or a chip that stays busy. The
  buffers are not \<^verbatim>\<open>NULL\<close>. The lemmas: on a chip that keeps to its data sheet, reading and writing work
  on the memory as one array of bytes, whatever pages they cross.
\<close>

section \<open>The driver\<close>

type_synonym 'h spi_bus = "bytes \<Rightarrow> 'h \<Rightarrow> bytes \<times> 'h"

record 'h gd25 =
  gd_chip :: 'h
  g_flashMutex :: bool

definition GD25QXX_FLASH_SIZE :: u32 where "GD25QXX_FLASH_SIZE = 0x1000000"
definition GD25QXX_PAGE_SIZE :: u32 where "GD25QXX_PAGE_SIZE = 0x100"
definition GD25QXX_CMD_WRITE_ENABLE :: u8 where "GD25QXX_CMD_WRITE_ENABLE = 0x06"
definition GD25QXX_CMD_READ_STATUS :: u8 where "GD25QXX_CMD_READ_STATUS = 0x05"
definition GD25QXX_CMD_READ_DATA :: u8 where "GD25QXX_CMD_READ_DATA = 0x03"
definition GD25QXX_CMD_PAGE_PROGRAM :: u8 where "GD25QXX_CMD_PAGE_PROGRAM = 0x02"
definition GD25QXX_CMD_CHIP_ERASE :: u8 where "GD25QXX_CMD_CHIP_ERASE = 0xC7"
definition GD25QXX_CMD_SECTOR_ERASE :: u8 where "GD25QXX_CMD_SECTOR_ERASE = 0x20"
definition GD25QXX_CMD_BLOCK_ERASE :: u8 where "GD25QXX_CMD_BLOCK_ERASE = 0xD8"
definition GD25QXX_CMD_READ_IDENTIFICATION :: u8 where "GD25QXX_CMD_READ_IDENTIFICATION = 0x9F"
definition Dummy_Byte :: u8 where "Dummy_Byte = 0xA5"
definition GD25QXX_FLASH_STATUS_WIP :: u8 where "GD25QXX_FLASH_STATUS_WIP = 1"
definition GD25QXX_FLASH_STATUS_WEL :: u8 where "GD25QXX_FLASH_STATUS_WEL = 2"
definition ERR_GD25_BAD_PARAM :: u32 where "ERR_GD25_BAD_PARAM = 32"
definition ERR_GD25_WEL_FAILED :: u32 where "ERR_GD25_WEL_FAILED = 33"

definition addr_bytes :: "u32 \<Rightarrow> bytes" where
  "addr_bytes addr = [ucast (drop_bit 16 addr), ucast (drop_bit 8 addr), ucast addr]"

definition Gd25FlashReadID :: "'h spi_bus \<Rightarrow> 'h \<Rightarrow> u32 \<times> 'h" where
  "Gd25FlashReadID spi h =
     (let (rx, h) = spi (GD25QXX_CMD_READ_IDENTIFICATION # replicate 3 Dummy_Byte) h
      in (push_bit 16 (ucast (rx ! 1)) OR push_bit 8 (ucast (rx ! 2)) OR ucast (rx ! 3), h))"

definition Gd25FlashWriteEnable :: "'h spi_bus \<Rightarrow> 'h \<Rightarrow> 'h" where
  "Gd25FlashWriteEnable spi h = snd (spi [GD25QXX_CMD_WRITE_ENABLE] h)"

definition Gd25FlashReadStatus :: "'h spi_bus \<Rightarrow> 'h \<Rightarrow> u8 \<times> 'h" where
  "Gd25FlashReadStatus spi h = (let (rx, h) = spi [GD25QXX_CMD_READ_STATUS, Dummy_Byte] h in (rx ! 1, h))"

partial_function (option) wait_idle :: "'h spi_bus \<Rightarrow> 'h \<Rightarrow> 'h option" where
  "wait_idle spi h =
     (let (status, h) = Gd25FlashReadStatus spi h
      in if status AND GD25QXX_FLASH_STATUS_WIP \<noteq> 0 then wait_idle spi h else Some h)"

text \<open>The bytes that are read, or the code of the error.\<close>

definition Gd25FlashReadData :: "'h spi_bus \<Rightarrow> u32 \<Rightarrow> u32 \<Rightarrow> 'h \<Rightarrow> (u32 + bytes) \<times> 'h" where
  "Gd25FlashReadData spi addr sz h =
     (if addr \<ge> GD25QXX_FLASH_SIZE \<or> sz < 1 then (Inl ERR_GD25_BAD_PARAM, h)
      else let (rx, h) = spi (GD25QXX_CMD_READ_DATA # addr_bytes addr @ replicate (unat sz) Dummy_Byte) h
           in (Inr (drop 4 rx), h))"

definition Gd25FlashPageProgram :: "'h spi_bus \<Rightarrow> u32 \<Rightarrow> bytes \<Rightarrow> u32 \<Rightarrow> 'h \<Rightarrow> (u32 \<times> 'h) option" where
  "Gd25FlashPageProgram spi addr buffer sz h =
     (if addr \<ge> GD25QXX_FLASH_SIZE \<or> sz < 1 then Some (ERR_GD25_BAD_PARAM, h)
      else
        let (status, h) = Gd25FlashReadStatus spi (Gd25FlashWriteEnable spi h)
        in if GD25QXX_FLASH_STATUS_WEL AND status = 0 then Some (ERR_GD25_WEL_FAILED, h)
           else
             let h = snd (spi (GD25QXX_CMD_PAGE_PROGRAM # addr_bytes addr @ take (unat sz) buffer) h)
             in map_option (\<lambda>h. (sz, h)) (wait_idle spi h))"

section \<open>The mutex\<close>

definition osMutexAcquire :: "'h gd25 \<Rightarrow> 'h gd25 option" where
  "osMutexAcquire s = (if g_flashMutex s then None else Some (s\<lparr>g_flashMutex := True\<rparr>))"

definition osMutexRelease :: "'h gd25 \<Rightarrow> 'h gd25" where
  "osMutexRelease s = s\<lparr>g_flashMutex := False\<rparr>"

section \<open>Erasing\<close>

text \<open>The early returns leave the mutex held.\<close>

definition erase_at :: "'h spi_bus \<Rightarrow> u8 \<Rightarrow> u32 \<Rightarrow> 'h gd25 \<Rightarrow> (u32 \<times> 'h gd25) option" where
  "erase_at spi cmd addr s =
     (case osMutexAcquire s of
        None \<Rightarrow> None
      | Some s \<Rightarrow>
          if addr \<ge> GD25QXX_FLASH_SIZE then Some (ERR_GD25_BAD_PARAM, s)
          else
            let (status, h) = Gd25FlashReadStatus spi (Gd25FlashWriteEnable spi (gd_chip s))
            in if GD25QXX_FLASH_STATUS_WEL \<noteq> status then Some (ERR_GD25_WEL_FAILED, s\<lparr>gd_chip := h\<rparr>)
               else
                 let h = snd (spi (cmd # addr_bytes addr) h)
                 in map_option (\<lambda>h. (0, osMutexRelease (s\<lparr>gd_chip := h\<rparr>))) (wait_idle spi h))"

definition Gd25FlashSectorErase :: "'h spi_bus \<Rightarrow> u32 \<Rightarrow> 'h gd25 \<Rightarrow> (u32 \<times> 'h gd25) option" where
  "Gd25FlashSectorErase spi = erase_at spi GD25QXX_CMD_SECTOR_ERASE"

definition Gd25FlashBlockErase :: "'h spi_bus \<Rightarrow> u32 \<Rightarrow> 'h gd25 \<Rightarrow> (u32 \<times> 'h gd25) option" where
  "Gd25FlashBlockErase spi = erase_at spi GD25QXX_CMD_BLOCK_ERASE"

definition Gd25FlashChipErase :: "'h spi_bus \<Rightarrow> 'h gd25 \<Rightarrow> (u32 \<times> 'h gd25) option" where
  "Gd25FlashChipErase spi s =
     (case osMutexAcquire s of
        None \<Rightarrow> None
      | Some s \<Rightarrow>
          let (status, h) = Gd25FlashReadStatus spi (Gd25FlashWriteEnable spi (gd_chip s))
          in if GD25QXX_FLASH_STATUS_WEL AND status = 0 then Some (ERR_GD25_WEL_FAILED, s\<lparr>gd_chip := h\<rparr>)
             else
               let h = snd (spi [GD25QXX_CMD_CHIP_ERASE] h)
               in map_option (\<lambda>h. (0, osMutexRelease (s\<lparr>gd_chip := h\<rparr>))) (wait_idle spi h))"

section \<open>Reading and writing\<close>

text \<open>
  The size of what is left is signed, so a size of 2 GiB or more is read at once. The code of an error is
  added to the number of bytes that were read. The buffer is the caller's.
\<close>

function flash_read_pages :: "'h spi_bus \<Rightarrow> u32 \<Rightarrow> bytes \<Rightarrow> int \<Rightarrow> u32 \<Rightarrow> 'h \<Rightarrow> (u32 \<times> bytes) \<times> 'h" where
  "flash_read_pages spi addr buffer lastSize readBytes h =
     (if lastSize = 0 then ((readBytes, buffer), h)
      else
        let len = if lastSize > uint GD25QXX_PAGE_SIZE then uint GD25QXX_PAGE_SIZE else lastSize
        in case Gd25FlashReadData spi (addr + readBytes) (word_of_int len) h of
             (Inl ret, h) \<Rightarrow> flash_read_pages spi addr buffer (lastSize - len) (readBytes + ret) h
           | (Inr data, h) \<Rightarrow>
               flash_read_pages spi addr (buf_write buffer (unat readBytes) data) (lastSize - len) (readBytes + word_of_int len) h)"
  by pat_completeness auto
termination
  by (relation "measure (\<lambda>(spi, addr, buffer, lastSize, readBytes, h). if lastSize < 0 then 1 else nat lastSize)")
    (auto simp: GD25QXX_PAGE_SIZE_def)

declare flash_read_pages.simps [simp del]

definition Gd25FlashReadBuffer :: "'h spi_bus \<Rightarrow> u32 \<Rightarrow> bytes \<Rightarrow> u32 \<Rightarrow> 'h gd25 \<Rightarrow> ((u32 \<times> bytes) \<times> 'h gd25) option" where
  "Gd25FlashReadBuffer spi addr buffer sz s =
     (case osMutexAcquire s of
        None \<Rightarrow> None
      | Some s \<Rightarrow>
          let (r, h) = flash_read_pages spi addr buffer (sint sz) 0 (gd_chip s)
          in Some (r, osMutexRelease (s\<lparr>gd_chip := h\<rparr>)))"

function flash_write_pages :: "'h spi_bus \<Rightarrow> u32 \<Rightarrow> bytes \<Rightarrow> u32 \<Rightarrow> u32 \<Rightarrow> 'h \<Rightarrow> (u32 \<times> 'h) option" where
  "flash_write_pages spi addr buffer sz writeCount h =
     (if writeCount < sz then
        let writeBytes = if sz - writeCount > GD25QXX_PAGE_SIZE then GD25QXX_PAGE_SIZE else sz - writeCount
        in case Gd25FlashPageProgram spi (addr + writeCount) (drop (unat writeCount) buffer) writeBytes h of
             None \<Rightarrow> None
           | Some (ret, h) \<Rightarrow> flash_write_pages spi addr buffer sz (writeCount + writeBytes) h
      else Some (writeCount, h))"
  by pat_completeness auto
termination
proof (relation "measure (\<lambda>(spi, addr, buffer, sz, writeCount, h). unat (sz - writeCount))", goal_cases)
  case (2 spi addr buffer sz writeCount h writeBytes x2 ret h')
  then have "writeBytes \<le> sz - writeCount" "0 < writeBytes"
    by (auto simp: GD25QXX_PAGE_SIZE_def word_gt_0)
  then have "unat (sz - writeCount - writeBytes) < unat (sz - writeCount)"
    by (simp add: unat_sub word_less_nat_alt word_le_nat_alt)
  then show ?case by (simp add: diff_diff_eq)
qed simp

declare flash_write_pages.simps [simp del]

definition Gd25FlashWriteBufferNoMutex :: "'h spi_bus \<Rightarrow> u32 \<Rightarrow> bytes \<Rightarrow> u32 \<Rightarrow> 'h \<Rightarrow> (u32 \<times> 'h) option" where
  "Gd25FlashWriteBufferNoMutex spi addr buffer sz h =
     (if addr mod GD25QXX_PAGE_SIZE + sz > GD25QXX_PAGE_SIZE then
        let writeBytes = GD25QXX_PAGE_SIZE - addr mod GD25QXX_PAGE_SIZE
        in case Gd25FlashPageProgram spi addr buffer writeBytes h of
             None \<Rightarrow> None
           | Some (ret, h) \<Rightarrow> flash_write_pages spi addr buffer sz writeBytes h
      else flash_write_pages spi addr buffer sz 0 h)"

definition Gd25FlashWriteBuffer :: "'h spi_bus \<Rightarrow> u32 \<Rightarrow> bytes \<Rightarrow> u32 \<Rightarrow> 'h gd25 \<Rightarrow> (u32 \<times> 'h gd25) option" where
  "Gd25FlashWriteBuffer spi addr buffer sz s =
     (case osMutexAcquire s of
        None \<Rightarrow> None
      | Some s \<Rightarrow>
          map_option (\<lambda>(n, h). (n, osMutexRelease (s\<lparr>gd_chip := h\<rparr>)))
            (Gd25FlashWriteBufferNoMutex spi addr buffer sz (gd_chip s)))"

end
