(* ===== verification/Gd25Props.thy ===== *)
theory Gd25Props
  imports Gd25Flash
begin

text \<open>
  What the flash driver promises on a chip that keeps to its data sheet: the memory is one array of bytes,
  programming clears bits at the addresses asked for and at no others, erasing sets a sector to ones, and
  every call returns. An erase that is refused keeps the mutex, after which no call that takes it returns any more.
\<close>

section \<open>The chip\<close>

text \<open>
  The memory, whether writing is enabled and for how many polls of its status the chip is still busy.
  Programming wraps round at the end of a page.
\<close>

record 'h nor_view =
  nv_mem :: "'h \<Rightarrow> nat \<Rightarrow> u8"
  nv_wel :: "'h \<Rightarrow> bool"
  nv_busy :: "'h \<Rightarrow> nat"

definition page_program :: "(nat \<Rightarrow> u8) \<Rightarrow> nat \<Rightarrow> bytes \<Rightarrow> nat \<Rightarrow> u8" where
  "page_program mem a data x =
     (let i = (x mod 256 + 256 - a mod 256) mod 256
      in if x div 256 = a div 256 \<and> i < length data then mem x AND data ! i else mem x)"

definition erased_in :: "nat \<Rightarrow> (nat \<Rightarrow> u8) \<Rightarrow> nat \<Rightarrow> nat \<Rightarrow> u8" where
  "erased_in n mem a x = (if x div n = a div n then 0xFF else mem x)"

definition keeps_idle :: "'h nor_view \<Rightarrow> 'h \<Rightarrow> 'h \<Rightarrow> bool" where
  "keeps_idle v h h' \<longleftrightarrow> nv_mem v h' = nv_mem v h \<and> nv_busy v h' = 0"

definition nor_chip :: "'h spi_bus \<Rightarrow> 'h nor_view \<Rightarrow> bool" where
  "nor_chip spi v \<longleftrightarrow> (\<forall>h.
     (\<forall>rx h'. spi [GD25QXX_CMD_READ_STATUS, Dummy_Byte] h = (rx, h') \<longrightarrow>
        rx ! 1 = (if nv_busy v h > 0 then 1 else 0) OR (if nv_wel v h then 2 else 0) \<and>
        nv_mem v h' = nv_mem v h \<and> nv_busy v h' = nv_busy v h - 1 \<and> (nv_busy v h = 0 \<longrightarrow> nv_wel v h' = nv_wel v h)) \<and>
     (nv_busy v h = 0 \<longrightarrow>
        (\<forall>rx h'. spi [GD25QXX_CMD_WRITE_ENABLE] h = (rx, h') \<longrightarrow> keeps_idle v h h' \<and> nv_wel v h') \<and>
        (\<forall>addr n rx h'. 0 < n \<longrightarrow> spi (GD25QXX_CMD_READ_DATA # addr_bytes addr @ replicate n Dummy_Byte) h = (rx, h') \<longrightarrow>
           drop 4 rx = map (\<lambda>i. nv_mem v h ((unat addr + i) mod 2 ^ 24)) [0..<n] \<and> keeps_idle v h h') \<and>
        (nv_wel v h \<longrightarrow>
           (\<forall>addr data rx h'. addr < GD25QXX_FLASH_SIZE \<longrightarrow> data \<noteq> [] \<longrightarrow> length data \<le> 256 \<longrightarrow>
              spi (GD25QXX_CMD_PAGE_PROGRAM # addr_bytes addr @ data) h = (rx, h') \<longrightarrow>
              nv_mem v h' = page_program (nv_mem v h) (unat addr) data) \<and>
           (\<forall>addr rx h'. addr < GD25QXX_FLASH_SIZE \<longrightarrow>
              (spi (GD25QXX_CMD_SECTOR_ERASE # addr_bytes addr) h = (rx, h') \<longrightarrow> nv_mem v h' = erased_in 0x1000 (nv_mem v h) (unat addr)) \<and>
              (spi (GD25QXX_CMD_BLOCK_ERASE # addr_bytes addr) h = (rx, h') \<longrightarrow> nv_mem v h' = erased_in 0x10000 (nv_mem v h) (unat addr))) \<and>
           (\<forall>rx h'. spi [GD25QXX_CMD_CHIP_ERASE] h = (rx, h') \<longrightarrow> nv_mem v h' = (\<lambda>_. 0xFF)))))"

lemma nor_status:
  assumes "nor_chip spi v" and "Gd25FlashReadStatus spi h = (status, h')"
  shows "status = (if nv_busy v h > 0 then 1 else 0) OR (if nv_wel v h then 2 else 0) \<and>
    nv_mem v h' = nv_mem v h \<and> nv_busy v h' = nv_busy v h - 1 \<and> (nv_busy v h = 0 \<longrightarrow> nv_wel v h' = nv_wel v h)"
proof -
  obtain rx where "spi [GD25QXX_CMD_READ_STATUS, Dummy_Byte] h = (rx, h')" "status = rx ! 1"
    using assms(2) by (auto simp: Gd25FlashReadStatus_def split: prod.splits)
  then show ?thesis using assms(1) unfolding nor_chip_def by blast
qed

lemma wait_idle_returns:
  assumes "nor_chip spi v"
  shows "\<exists>h'. wait_idle spi h = Some h' \<and> keeps_idle v h h'"
proof (induction "nv_busy v h" arbitrary: h rule: less_induct)
  case less
  obtain status h1 where st: "Gd25FlashReadStatus spi h = (status, h1)" by fastforce
  note facts = nor_status [OF assms st]
  show ?case
  proof (cases "nv_busy v h")
    case 0
    then have "status AND GD25QXX_FLASH_STATUS_WIP = 0" using facts by (simp add: GD25QXX_FLASH_STATUS_WIP_def)
    then have "wait_idle spi h = Some h1" using st by (subst wait_idle.simps) simp
    then show ?thesis using facts 0 by (simp add: keeps_idle_def)
  next
    case (Suc n)
    then have "status AND GD25QXX_FLASH_STATUS_WIP \<noteq> 0" using facts by (simp add: GD25QXX_FLASH_STATUS_WIP_def)
    then have "wait_idle spi h = wait_idle spi h1" using st by (subst wait_idle.simps) simp
    moreover have "nv_busy v h1 < nv_busy v h" using facts Suc by simp
    ultimately show ?thesis using less [of h1] facts by (simp add: keeps_idle_def)
  qed
qed

text \<open>Writing is enabled before every change.\<close>

lemma write_enabled:
  assumes "nor_chip spi v" and "nv_busy v h = 0" and "Gd25FlashReadStatus spi (Gd25FlashWriteEnable spi h) = (status, h')"
  shows "status = GD25QXX_FLASH_STATUS_WEL \<and> keeps_idle v h h' \<and> nv_wel v h'"
proof -
  obtain rx h1 where h1: "spi [GD25QXX_CMD_WRITE_ENABLE] h = (rx, h1)" by fastforce
  then have "keeps_idle v h h1" "nv_wel v h1" using assms(1,2) unfolding nor_chip_def by blast+
  then show ?thesis using nor_status [OF assms(1), of h1 status h'] assms(3) h1
    by (auto simp: Gd25FlashWriteEnable_def keeps_idle_def GD25QXX_FLASH_STATUS_WEL_def)
qed

section \<open>The memory as an array\<close>

definition programmed :: "(nat \<Rightarrow> u8) \<Rightarrow> nat \<Rightarrow> bytes \<Rightarrow> nat \<Rightarrow> u8" where
  "programmed mem a data x = (if a \<le> x \<and> x < a + length data then mem x AND data ! (x - a) else mem x)"

lemma programmed_append: "programmed (programmed mem a d1) (a + length d1) d2 = programmed mem a (d1 @ d2)"
  by (auto simp: programmed_def fun_eq_iff nth_append)

lemma programmed_Nil [simp]: "programmed mem a [] = mem"
  by (auto simp: programmed_def fun_eq_iff)

lemma page_program_no_wrap:
  assumes "a mod 256 + length data \<le> 256"
  shows "page_program mem a data = programmed mem a data"
proof
  fix x :: nat
  obtain qx rx where x: "x = 256 * qx + rx" "rx < 256" "x div 256 = qx" "x mod 256 = rx" by (metis mod_less_divisor mult_div_mod_eq zero_less_numeral)
  obtain qa ra where a: "a = 256 * qa + ra" "ra < 256" "a div 256 = qa" "a mod 256 = ra" by (metis mod_less_divisor mult_div_mod_eq zero_less_numeral)
  consider "qx = qa" "ra \<le> rx" | "qx = qa" "rx < ra" | "qx \<noteq> qa" by linarith
  then show "page_program mem a data x = programmed mem a data x"
  proof cases
    case 1
    then have "(rx + 256 - ra) mod 256 = x - a" "a \<le> x" using x a by (simp_all add: le_mod_geq)
    then show ?thesis using 1 x a by (auto simp: page_program_def programmed_def Let_def)
  next
    case 2
    then have "(rx + 256 - ra) mod 256 = rx + 256 - ra" using x a by (intro mod_less) simp
    moreover have "x < a" "\<not> rx + 256 - ra < length data" using 2 x a assms by linarith+
    ultimately show ?thesis using x a by (simp add: page_program_def programmed_def Let_def)
  next
    case 3
    then have "x < a \<or> a + length data \<le> x" using x a assms by linarith
    then show ?thesis using 3 x a by (auto simp: page_program_def programmed_def Let_def)
  qed
qed

lemma page_program_effect:
  assumes chip: "nor_chip spi v" and idle: "nv_busy v h = 0" and n: "0 < n" "n \<le> 256" "unat n \<le> length buffer"
    and addr: "addr < GD25QXX_FLASH_SIZE" "unat addr mod 256 + unat n \<le> 256"
  shows "\<exists>h'. Gd25FlashPageProgram spi addr buffer n h = Some (n, h') \<and>
    nv_mem v h' = programmed (nv_mem v h) (unat addr) (take (unat n) buffer) \<and> nv_busy v h' = 0"
proof -
  let ?data = "take (unat n) buffer"
  obtain status h1 where st: "Gd25FlashReadStatus spi (Gd25FlashWriteEnable spi h) = (status, h1)" by fastforce
  note en = write_enabled [OF chip idle st]
  obtain rx h2 where h2: "spi (GD25QXX_CMD_PAGE_PROGRAM # addr_bytes addr @ ?data) h1 = (rx, h2)" by fastforce
  have len: "length ?data = unat n" "?data \<noteq> []" "length ?data \<le> 256"
    using n by (auto simp: word_gt_0 unat_eq_0 word_le_nat_alt)
  then have "nv_mem v h2 = page_program (nv_mem v h1) (unat addr) ?data"
    using chip h2 addr(1) en unfolding nor_chip_def keeps_idle_def by blast
  moreover obtain h3 where "wait_idle spi h2 = Some h3" "keeps_idle v h2 h3" using wait_idle_returns [OF chip] by blast
  moreover have "\<not> GD25QXX_FLASH_SIZE \<le> addr" using addr(1) by simp
  moreover have "\<not> n < 1" using n(1) by (simp add: word_less_nat_alt unat_gt_0 word_gt_0)
  ultimately show ?thesis using st h2 en addr len(1)
    by (simp add: Gd25FlashPageProgram_def page_program_no_wrap keeps_idle_def GD25QXX_FLASH_STATUS_WEL_def)
qed

lemma flash_write_pages_effect:
  assumes chip: "nor_chip spi v" and range: "unat addr + unat sz \<le> 2 ^ 24" "unat sz \<le> length buffer"
  shows "nv_busy v h = 0 \<Longrightarrow> wc \<le> sz \<Longrightarrow> (unat addr + unat wc) mod 256 = 0 \<or> (unat addr + unat wc) mod 256 + unat (sz - wc) \<le> 256 \<Longrightarrow>
    \<exists>h'. flash_write_pages spi addr buffer sz wc h = Some (sz, h') \<and> nv_busy v h' = 0 \<and>
      nv_mem v h' = programmed (nv_mem v h) (unat addr + unat wc) (take (unat (sz - wc)) (drop (unat wc) buffer))"
proof (induction "unat (sz - wc)" arbitrary: wc h rule: less_induct)
  case less
  show ?case
  proof (cases "wc < sz")
    case False
    then have "wc = sz" using less(3) by simp
    then show ?thesis using less(2) by (subst flash_write_pages.simps) simp
  next
    case True
    define n where "n = (if sz - wc > GD25QXX_PAGE_SIZE then GD25QXX_PAGE_SIZE else sz - wc)"
    have d: "unat (sz - wc) = unat sz - unat wc" using less(3) by (simp add: unat_sub)
    have n: "unat n = min 256 (unat sz - unat wc)" "0 < unat n"
      using True d by (auto simp: n_def GD25QXX_PAGE_SIZE_def word_less_nat_alt min_def)
    have wn: "unat (wc + n) = unat wc + unat n" "unat (addr + wc) = unat addr + unat wc"
      using n(1) less(3) range(1) by (simp_all add: unat_word_ariths word_le_nat_alt)
    then have sub: "unat (sz - (wc + n)) = unat sz - unat wc - unat n" "wc + n \<le> sz"
      using n by (auto simp: word_le_nat_alt unat_sub)
    have "\<exists>h1. Gd25FlashPageProgram spi (addr + wc) (drop (unat wc) buffer) n h = Some (n, h1) \<and>
        nv_mem v h1 = programmed (nv_mem v h) (unat (addr + wc)) (take (unat n) (drop (unat wc) buffer)) \<and> nv_busy v h1 = 0"
    proof (rule page_program_effect [OF chip less(2)])
      show "0 < n" "n \<le> 256" using n by (auto simp: word_less_nat_alt word_le_nat_alt)
      show "addr + wc < GD25QXX_FLASH_SIZE" using wn(2) range(1) True by (simp add: word_less_nat_alt GD25QXX_FLASH_SIZE_def)
      show "unat n \<le> length (drop (unat wc) buffer)" "unat (addr + wc) mod 256 + unat n \<le> 256"
        using n wn(2) range(2) less(4) d by auto
    qed
    then obtain h1 where h1: "Gd25FlashPageProgram spi (addr + wc) (drop (unat wc) buffer) n h = Some (n, h1)"
      "nv_mem v h1 = programmed (nv_mem v h) (unat addr + unat wc) (take (unat n) (drop (unat wc) buffer))" "nv_busy v h1 = 0"
      using wn(2) by auto
    have step: "flash_write_pages spi addr buffer sz wc h = flash_write_pages spi addr buffer sz (wc + n) h1"
      using True h1(1) by (subst flash_write_pages.simps) (simp add: n_def Let_def)
    have "\<exists>h'. flash_write_pages spi addr buffer sz (wc + n) h1 = Some (sz, h') \<and> nv_busy v h' = 0 \<and>
      nv_mem v h' = programmed (nv_mem v h1) (unat addr + unat (wc + n)) (take (unat (sz - (wc + n))) (drop (unat (wc + n)) buffer))"
    proof (rule less(1))
      show "unat (sz - (wc + n)) < unat (sz - wc)" using sub(1) n(2) d True unfolding word_less_nat_alt by linarith
      show "(unat addr + unat (wc + n)) mod 256 = 0 \<or> (unat addr + unat (wc + n)) mod 256 + unat (sz - (wc + n)) \<le> 256"
      proof (cases "unat sz - unat wc \<le> 256")
        case True
        have "(unat addr + unat (wc + n)) mod 256 < 256" by simp
        then show ?thesis using sub(1) n(1) True by simp
      next
        case False
        then have "(unat addr + unat wc) mod 256 = 0" "unat n = 256" using less(4) d n(1) by linarith+
        then have "(unat addr + unat (wc + n)) mod 256 = 0" using wn(1) by (simp add: add.assoc [symmetric])
        then show ?thesis ..
      qed
    qed (use sub h1 in auto)
    moreover have "take (unat (sz - wc)) (drop (unat wc) buffer) =
        take (unat n) (drop (unat wc) buffer) @ take (unat (sz - (wc + n))) (drop (unat (wc + n)) buffer)"
    proof -
      have "unat n + (unat sz - (unat n + unat wc)) = unat sz - unat wc" using n(1) by simp
      then show ?thesis using d sub(1) wn(1) take_add [of "unat n" "unat sz - unat wc - unat n" "drop (unat wc) buffer"]
        by (simp add: add.commute)
    qed
    ultimately show ?thesis unfolding step h1(2)
      using programmed_append [of "nv_mem v h" "unat addr + unat wc" "take (unat n) (drop (unat wc) buffer)"] wn(1) n range(2)
      by (simp add: add.assoc)
  qed
qed

lemma ones_and: "(0xFF :: u8) AND d = d"
proof -
  have "(0xFF :: u8) = - 1" by simp
  then show ?thesis by (simp only: and.left_neutral)
qed

text \<open>An idle chip and a free mutex.\<close>

definition flash_ready :: "'h spi_bus \<Rightarrow> 'h nor_view \<Rightarrow> 'h gd25 \<Rightarrow> bool" where
  "flash_ready spi v s \<longleftrightarrow> nor_chip spi v \<and> nv_busy v (gd_chip s) = 0 \<and> \<not> g_flashMutex s"

definition flash_mem :: "'h nor_view \<Rightarrow> 'h gd25 \<Rightarrow> nat \<Rightarrow> u8" where
  "flash_mem v s = nv_mem v (gd_chip s)"

lemma page_end: "(a + (256 - a mod 256)) mod 256 = (0 :: nat)"
proof -
  obtain q r where a: "a = 256 * q + r" "r < 256" "a mod 256 = r" by (metis mod_less_divisor mult_div_mod_eq zero_less_numeral)
  then have "a + (256 - a mod 256) = 256 * (q + 1)" by simp
  then show ?thesis by (simp only: mod_mult_self1_is_0)
qed

lemma write_no_mutex_effect:
  assumes chip: "nor_chip spi v" and idle: "nv_busy v h = 0" and range: "unat addr + unat sz \<le> 2 ^ 24" "unat sz \<le> length buffer"
  shows "\<exists>h'. Gd25FlashWriteBufferNoMutex spi addr buffer sz h = Some (sz, h') \<and> nv_busy v h' = 0 \<and>
    nv_mem v h' = programmed (nv_mem v h) (unat addr) (take (unat sz) buffer)"
proof -
  define n where "n = GD25QXX_PAGE_SIZE - addr mod GD25QXX_PAGE_SIZE"
  have m: "unat (addr mod GD25QXX_PAGE_SIZE) = unat addr mod 256" "unat (addr mod GD25QXX_PAGE_SIZE) < 256"
    by (simp_all add: GD25QXX_PAGE_SIZE_def unat_mod)
  then have n: "unat n = 256 - unat addr mod 256" "n \<le> 256" "0 < n"
    by (simp_all add: n_def GD25QXX_PAGE_SIZE_def unat_sub word_le_nat_alt word_less_nat_alt)
  have cross: "addr mod GD25QXX_PAGE_SIZE + sz > GD25QXX_PAGE_SIZE \<longleftrightarrow> unat addr mod 256 + unat sz > 256"
    using m range(1) by (simp add: word_less_nat_alt unat_word_ariths GD25QXX_PAGE_SIZE_def)
  show ?thesis
  proof (cases "unat addr mod 256 + unat sz > 256")
    case False
    then show ?thesis using cross flash_write_pages_effect [OF chip range idle, of 0]
      by (simp add: Gd25FlashWriteBufferNoMutex_def)
  next
    case True
    have "n \<le> sz" using True n by (simp add: word_le_nat_alt)
    have "addr < GD25QXX_FLASH_SIZE" using range(1) True n by (simp add: word_less_nat_alt GD25QXX_FLASH_SIZE_def)
    then obtain h1 where h1: "Gd25FlashPageProgram spi addr buffer n h = Some (n, h1)" "nv_busy v h1 = 0"
      "nv_mem v h1 = programmed (nv_mem v h) (unat addr) (take (unat n) buffer)"
      using page_program_effect [OF chip idle n(3,2), of buffer addr] range(2) \<open>n \<le> sz\<close> n(1) by (auto simp: word_le_nat_alt)
    have "(unat addr + unat n) mod 256 = 0" unfolding n(1) by (rule page_end)
    then obtain h2 where h2: "flash_write_pages spi addr buffer sz n h1 = Some (sz, h2)" "nv_busy v h2 = 0"
      "nv_mem v h2 = programmed (nv_mem v h1) (unat addr + unat n) (take (unat (sz - n)) (drop (unat n) buffer))"
      using flash_write_pages_effect [OF chip range h1(2) \<open>n \<le> sz\<close>] by auto
    have "take (unat sz) buffer = take (unat n) buffer @ take (unat (sz - n)) (drop (unat n) buffer)"
      using \<open>n \<le> sz\<close> take_add [of "unat n" "unat sz - unat n" buffer] by (simp add: unat_sub word_le_nat_alt)
    moreover have "length (take (unat n) buffer) = unat n" using \<open>n \<le> sz\<close> range(2) by (simp add: word_le_nat_alt)
    ultimately have "nv_mem v h2 = programmed (nv_mem v h) (unat addr) (take (unat sz) buffer)"
      using programmed_append [of "nv_mem v h" "unat addr" "take (unat n) buffer"] h1(3) h2(3) by simp
    then show ?thesis using True cross h1(1) h2 by (simp add: Gd25FlashWriteBufferNoMutex_def n_def [symmetric])
  qed
qed

lemma write_buffer_effect:
  assumes "flash_ready spi v s" and "unat addr + unat sz \<le> 2 ^ 24" and "unat sz \<le> length buffer"
  shows "\<exists>s'. Gd25FlashWriteBuffer spi addr buffer sz s = Some (sz, s') \<and> flash_ready spi v s' \<and>
    flash_mem v s' = programmed (flash_mem v s) (unat addr) (take (unat sz) buffer)"
  using write_no_mutex_effect [of spi v "gd_chip s" addr sz buffer] assms
  by (auto simp: Gd25FlashWriteBuffer_def osMutexAcquire_def osMutexRelease_def flash_ready_def flash_mem_def)

section \<open>Reading\<close>

lemma read_data_effect:
  assumes "nor_chip spi v" and "nv_busy v h = 0" and "addr < GD25QXX_FLASH_SIZE" and "0 < n"
  shows "\<exists>h'. Gd25FlashReadData spi addr n h = (Inr (map (\<lambda>i. nv_mem v h ((unat addr + i) mod 2 ^ 24)) [0..<unat n]), h') \<and> keeps_idle v h h'"
proof -
  obtain rx h' where h': "spi (GD25QXX_CMD_READ_DATA # addr_bytes addr @ replicate (unat n) Dummy_Byte) h = (rx, h')" by fastforce
  have "0 < unat n" using assms(4) by (simp add: word_less_nat_alt)
  then have "drop 4 rx = map (\<lambda>i. nv_mem v h ((unat addr + i) mod 2 ^ 24)) [0..<unat n] \<and> keeps_idle v h h'"
    using assms(1,2) h' unfolding nor_chip_def by blast
  moreover have "\<not> GD25QXX_FLASH_SIZE \<le> addr" "\<not> n < 1" using assms(3) \<open>0 < unat n\<close> by (simp_all add: word_less_nat_alt word_le_nat_alt)
  ultimately show ?thesis using h' by (simp add: Gd25FlashReadData_def)
qed

lemma buf_write_pieces:
  assumes "off + length d1 + length d2 \<le> length b"
  shows "buf_write (buf_write b off d1) (off + length d1) d2 = buf_write b off (d1 @ d2)"
  using assms by (simp add: buf_write_def ac_simps)

lemma flash_read_pages_effect:
  assumes chip: "nor_chip spi v"
  shows "nv_busy v h = 0 \<Longrightarrow> 0 \<le> k \<Longrightarrow> unat addr + unat rb + nat k \<le> 2 ^ 24 \<Longrightarrow> unat rb + nat k \<le> length buffer \<Longrightarrow>
    \<exists>h'. flash_read_pages spi addr buffer k rb h =
      ((rb + word_of_int k, buf_write buffer (unat rb) (map (nv_mem v h) [unat addr + unat rb ..< unat addr + unat rb + nat k])), h') \<and>
      keeps_idle v h h'"
proof (induction "nat k" arbitrary: k rb h buffer rule: less_induct)
  case less
  show ?case
  proof (cases "k = 0")
    case True
    then show ?thesis using less(2) by (subst flash_read_pages.simps) (simp add: keeps_idle_def buf_write_def)
  next
    case False
    define len where "len = (if k > uint GD25QXX_PAGE_SIZE then uint GD25QXX_PAGE_SIZE else k)"
    define w where "w = (word_of_int len :: u32)"
    have len: "0 < len" "len \<le> k" "len \<le> 256" using False less(3) by (auto simp: len_def GD25QXX_PAGE_SIZE_def)
    then have "uint w = len" by (simp add: w_def uint_word_of_int)
    then have w: "unat w = nat len" by (simp add: nat_uint_eq [symmetric])
    note len = len w
    have sum: "unat (addr + rb) = unat addr + unat rb" "unat (rb + w) = unat rb + nat len"
      using less(4) len by (simp_all add: unat_word_ariths)
    have "addr + rb < GD25QXX_FLASH_SIZE" "0 < w" using sum(1) less(4) len by (simp_all add: word_less_nat_alt GD25QXX_FLASH_SIZE_def)
    then obtain h1 where h1: "Gd25FlashReadData spi (addr + rb) w h =
        (Inr (map (\<lambda>i. nv_mem v h ((unat (addr + rb) + i) mod 2 ^ 24)) [0..<unat w]), h1)" "keeps_idle v h h1"
      using read_data_effect [OF chip less(2)] by blast
    let ?d1 = "map (nv_mem v h) [unat addr + unat rb ..< unat addr + unat rb + nat len]"
    have d1: "map (\<lambda>i. nv_mem v h ((unat (addr + rb) + i) mod 2 ^ 24)) [0..<unat w] = ?d1"
      using sum(1) len less(4) by (intro nth_equalityI) auto
    let ?b = "buf_write buffer (unat rb) ?d1"
    have "\<exists>h'. flash_read_pages spi addr ?b (k - len) (rb + w) h1 =
      ((rb + w + word_of_int (k - len), buf_write ?b (unat (rb + w))
         (map (nv_mem v h1) [unat addr + unat (rb + w) ..< unat addr + unat (rb + w) + nat (k - len)])), h') \<and> keeps_idle v h1 h'"
      using len sum less(3-5) h1(2) by (intro less(1)) (auto simp: keeps_idle_def length_buf_write)
    then obtain h2 where h2: "flash_read_pages spi addr ?b (k - len) (rb + w) h1 =
      ((rb + w + word_of_int (k - len), buf_write ?b (unat (rb + w))
         (map (nv_mem v h1) [unat addr + unat (rb + w) ..< unat addr + unat (rb + w) + nat (k - len)])), h2)" "keeps_idle v h1 h2" by blast
    have mem: "nv_mem v h1 = nv_mem v h" using h1(2) by (simp add: keeps_idle_def)
    have "[unat addr + unat rb ..< unat addr + unat rb + nat k] =
        [unat addr + unat rb ..< unat addr + unat rb + nat len] @ [unat addr + unat (rb + w) ..< unat addr + unat (rb + w) + nat (k - len)]"
      using sum(2) len upt_add_eq_append [of "unat addr + unat rb" "unat addr + unat rb + nat len" "nat (k - len)"]
      by (simp add: add.assoc nat_diff_distrib)
    moreover have "rb + w + word_of_int (k - len) = rb + word_of_int k" by (simp add: w_def)
    moreover have "flash_read_pages spi addr buffer k rb h = flash_read_pages spi addr ?b (k - len) (rb + w) h1"
      using False h1(1) [unfolded d1] by (subst flash_read_pages.simps) (simp add: len_def [symmetric] w_def [symmetric] Let_def)
    ultimately show ?thesis using h2 h1(2) mem sum(2) len less(5)
      buf_write_pieces [of "unat rb" ?d1 "map (nv_mem v h) [unat addr + unat (rb + w) ..< unat addr + unat (rb + w) + nat (k - len)]" buffer]
      by (simp add: keeps_idle_def add.assoc)
  qed
qed

lemma read_buffer_effect:
  assumes "flash_ready spi v s" and "unat addr + unat sz \<le> 2 ^ 24" and "unat sz \<le> length buffer"
  shows "\<exists>s'. Gd25FlashReadBuffer spi addr buffer sz s =
      Some ((sz, buf_write buffer 0 (map (flash_mem v s) [unat addr..<unat addr + unat sz])), s') \<and>
    flash_ready spi v s' \<and> flash_mem v s' = flash_mem v s"
proof -
  have "unat sz < 2 ^ 31" using assms(2) by simp
  then have "uint sz < 2 ^ 31" by (simp only: nat_uint_eq [symmetric] nat_less_iff [OF uint_ge_0]) simp
  then have "sint sz = int (unat sz)" by (simp add: sint_uint signed_take_bit_int_eq_self order_trans [OF _ uint_ge_0])
  then show ?thesis using flash_read_pages_effect [of spi v "gd_chip s" "sint sz" addr 0 buffer] assms
    by (auto simp: Gd25FlashReadBuffer_def osMutexAcquire_def osMutexRelease_def flash_ready_def flash_mem_def keeps_idle_def)
qed

section \<open>Erasing\<close>

lemma erase_effect:
  assumes ready: "flash_ready spi v s" and addr: "unat addr < 2 ^ 24"
    and effect: "\<And>h rx h'. nv_busy v h = 0 \<Longrightarrow> nv_wel v h \<Longrightarrow> spi (cmd # addr_bytes addr) h = (rx, h') \<Longrightarrow> nv_mem v h' = f (nv_mem v h)"
  shows "\<exists>s'. erase_at spi cmd addr s = Some (0, s') \<and> flash_ready spi v s' \<and> flash_mem v s' = f (flash_mem v s)"
proof -
  have chip: "nor_chip spi v" "nv_busy v (gd_chip s) = 0" "\<not> g_flashMutex s" using ready by (simp_all add: flash_ready_def)
  obtain status h1 where st: "Gd25FlashReadStatus spi (Gd25FlashWriteEnable spi (gd_chip s)) = (status, h1)" by fastforce
  note en = write_enabled [OF chip(1,2) st]
  obtain rx h2 where h2: "spi (cmd # addr_bytes addr) h1 = (rx, h2)" by fastforce
  have "nv_mem v h2 = f (nv_mem v (gd_chip s))" using effect [OF _ _ h2] en by (simp add: keeps_idle_def)
  moreover obtain h3 where "wait_idle spi h2 = Some h3" "keeps_idle v h2 h3" using wait_idle_returns [OF chip(1)] by blast
  moreover have "\<not> GD25QXX_FLASH_SIZE \<le> addr" using addr by (simp add: word_le_nat_alt GD25QXX_FLASH_SIZE_def)
  ultimately show ?thesis using st h2 en chip
    by (simp add: erase_at_def osMutexAcquire_def osMutexRelease_def flash_ready_def flash_mem_def keeps_idle_def)
qed

lemma sector_erase_effect:
  assumes "flash_ready spi v s" and "unat addr < 2 ^ 24"
  shows "\<exists>s'. Gd25FlashSectorErase spi addr s = Some (0, s') \<and> flash_ready spi v s' \<and>
    flash_mem v s' = erased_in 0x1000 (flash_mem v s) (unat addr)"
  unfolding Gd25FlashSectorErase_def
proof (rule erase_effect [OF assms])
  show "nv_mem v h' = erased_in 0x1000 (nv_mem v h) (unat addr)"
    if "nv_busy v h = 0" "nv_wel v h" "spi (GD25QXX_CMD_SECTOR_ERASE # addr_bytes addr) h = (rx, h')" for h rx h'
    using assms that unfolding flash_ready_def nor_chip_def by (auto simp: word_less_nat_alt GD25QXX_FLASH_SIZE_def)
qed

lemma block_erase_effect:
  assumes "flash_ready spi v s" and "unat addr < 2 ^ 24"
  shows "\<exists>s'. Gd25FlashBlockErase spi addr s = Some (0, s') \<and> flash_ready spi v s' \<and>
    flash_mem v s' = erased_in 0x10000 (flash_mem v s) (unat addr)"
  unfolding Gd25FlashBlockErase_def
proof (rule erase_effect [OF assms])
  show "nv_mem v h' = erased_in 0x10000 (nv_mem v h) (unat addr)"
    if "nv_busy v h = 0" "nv_wel v h" "spi (GD25QXX_CMD_BLOCK_ERASE # addr_bytes addr) h = (rx, h')" for h rx h'
    using assms that unfolding flash_ready_def nor_chip_def by (auto simp: word_less_nat_alt GD25QXX_FLASH_SIZE_def)
qed

section \<open>An example chip\<close>

record nor_state =
  ns_mem :: "nat \<Rightarrow> u8"
  ns_wel :: bool
  ns_busy :: nat

definition nor_state_view :: "nor_state nor_view" where
  "nor_state_view = \<lparr>nv_mem = ns_mem, nv_wel = ns_wel, nv_busy = ns_busy\<rparr>"

definition of_addr :: "bytes \<Rightarrow> nat" where
  "of_addr bs = unat (bs ! 0) * 65536 + unat (bs ! 1) * 256 + unat (bs ! 2)"

definition changed_to :: "(nat \<Rightarrow> u8) \<Rightarrow> nor_state \<Rightarrow> nor_state" where
  "changed_to m h = h\<lparr>ns_mem := m, ns_wel := False, ns_busy := 3\<rparr>"

definition example_nor :: "nor_state spi_bus" where
  "example_nor tx h =
     (let cmd = hd tx; a = of_addr (tl tx); none = replicate (length tx) 0
      in if cmd = GD25QXX_CMD_READ_STATUS
         then ([0, (if ns_busy h > 0 then 1 else 0) OR (if ns_wel h then 2 else 0)], h\<lparr>ns_busy := ns_busy h - 1\<rparr>)
         else if ns_busy h > 0 then (none, h)
         else if cmd = GD25QXX_CMD_WRITE_ENABLE then (none, h\<lparr>ns_wel := True\<rparr>)
         else if cmd = GD25QXX_CMD_READ_DATA
         then (replicate 4 0 @ map (\<lambda>i. ns_mem h ((a + i) mod 2 ^ 24)) [0..<length tx - 4], h)
         else if \<not> ns_wel h then (none, h)
         else if cmd = GD25QXX_CMD_PAGE_PROGRAM then (none, changed_to (page_program (ns_mem h) a (drop 4 tx)) h)
         else if cmd = GD25QXX_CMD_SECTOR_ERASE then (none, changed_to (erased_in 0x1000 (ns_mem h) a) h)
         else if cmd = GD25QXX_CMD_BLOCK_ERASE then (none, changed_to (erased_in 0x10000 (ns_mem h) a) h)
         else if cmd = GD25QXX_CMD_CHIP_ERASE then (none, changed_to (\<lambda>_. 0xFF) h)
         else (none, h))"

lemma of_addr_bytes: "of_addr (addr_bytes addr @ rest) = unat addr mod 2 ^ 24" "of_addr (addr_bytes addr) = unat addr mod 2 ^ 24"
proof -
  have split: "n div 65536 mod 256 * 65536 + n div 256 mod 256 * 256 + n mod 256 = n mod 2 ^ 24" for n :: nat
  proof -
    have "n mod (256 * 256) = 256 * (n div 256 mod 256) + n mod 256" by (rule mod_mult2_eq)
    moreover have "n mod (65536 * 256) = 65536 * (n div 65536 mod 256) + n mod 65536" by (rule mod_mult2_eq)
    ultimately show ?thesis by simp
  qed
  have "unat (ucast (drop_bit k addr) :: u8) = unat addr div 2 ^ k mod 256" for k
    using unsigned_less [where 'a = nat, of addr]
    by (simp add: unsigned_ucast_eq unsigned_drop_bit_eq take_bit_eq_mod) (simp add: drop_bit_eq_div)
  from this [of 16] this [of 8] this [of 0] split [of "unat addr"]
  show "of_addr (addr_bytes addr @ rest) = unat addr mod 2 ^ 24" "of_addr (addr_bytes addr) = unat addr mod 2 ^ 24"
    by (simp_all add: of_addr_def addr_bytes_def)
qed

lemma length_addr_bytes: "length (addr_bytes addr) = 3"
  by (simp add: addr_bytes_def)

lemmas gd_commands = GD25QXX_CMD_READ_STATUS_def GD25QXX_CMD_WRITE_ENABLE_def GD25QXX_CMD_READ_DATA_def GD25QXX_CMD_PAGE_PROGRAM_def
  GD25QXX_CMD_SECTOR_ERASE_def GD25QXX_CMD_BLOCK_ERASE_def GD25QXX_CMD_CHIP_ERASE_def

lemma example_chip_ok: "nor_chip example_nor nor_state_view"
proof -
  have small: "unat addr mod 16777216 = unat addr" if "addr < GD25QXX_FLASH_SIZE" for addr
    using that by (simp add: word_less_nat_alt GD25QXX_FLASH_SIZE_def)
  show ?thesis
    unfolding nor_chip_def
    by (auto simp: example_nor_def nor_state_view_def gd_commands keeps_idle_def of_addr_bytes length_addr_bytes small changed_to_def mod_simps)
qed

definition example_flash :: "nor_state gd25" where
  "example_flash = \<lparr>gd_chip = \<lparr>ns_mem = \<lambda>_. 0, ns_wel = False, ns_busy = 0\<rparr>, g_flashMutex = False\<rparr>"

lemma example_flash_ready: "flash_ready example_nor nor_state_view example_flash"
  by (simp add: flash_ready_def example_chip_ok example_flash_def) (simp add: nor_state_view_def)

section \<open>Properties\<close>

text \<open>The calls of the driver.\<close>

text \<open>The calls that take the mutex. While it is held none of them returns.\<close>

datatype flash_call = ReadBuffer u32 u32 | WriteBuffer u32 bytes | SectorErase u32 | BlockErase u32 | ChipErase

fun flash_step :: "'h spi_bus \<Rightarrow> flash_call \<Rightarrow> 'h gd25 \<Rightarrow> 'h gd25 option" where
  "flash_step spi (ReadBuffer addr n) s = map_option snd (Gd25FlashReadBuffer spi addr (replicate (unat n) 0) n s)"
| "flash_step spi (WriteBuffer addr data) s = map_option snd (Gd25FlashWriteBuffer spi addr data (of_nat (length data)) s)"
| "flash_step spi (SectorErase addr) s = map_option snd (Gd25FlashSectorErase spi addr s)"
| "flash_step spi (BlockErase addr) s = map_option snd (Gd25FlashBlockErase spi addr s)"
| "flash_step spi ChipErase s = map_option snd (Gd25FlashChipErase spi s)"

lemma held_mutex_blocks: "g_flashMutex s \<Longrightarrow> flash_step spi c s = None"
  by (cases c) (simp_all add: osMutexAcquire_def Gd25FlashReadBuffer_def Gd25FlashWriteBuffer_def
      Gd25FlashSectorErase_def Gd25FlashBlockErase_def Gd25FlashChipErase_def erase_at_def)

lemma erase_keeps_mutex:
  "erase_at spi cmd a s = Some (ret, s') \<Longrightarrow> ret = 0 \<and> \<not> g_flashMutex s' \<or> ret \<noteq> 0 \<and> g_flashMutex s'"
  by (auto simp: erase_at_def osMutexAcquire_def osMutexRelease_def ERR_GD25_BAD_PARAM_def ERR_GD25_WEL_FAILED_def
      split: option.splits if_splits prod.splits)

lemma chip_erase_keeps_mutex:
  "Gd25FlashChipErase spi s = Some (ret, s') \<Longrightarrow> ret = 0 \<and> \<not> g_flashMutex s' \<or> ret \<noteq> 0 \<and> g_flashMutex s'"
  by (auto simp: Gd25FlashChipErase_def osMutexAcquire_def osMutexRelease_def ERR_GD25_WEL_FAILED_def
      split: option.splits if_splits prod.splits)

text \<open>
  C30: On a chip that keeps to its data sheet, whatever pages and sectors a request crosses, the memory behaves as one array of
  bytes: after erasing the sector of an address and writing data inside that sector, reading it gives the data back, and every byte
  outside the sector is as before.
\<close>

theorem erased_written_read:
  assumes "flash_ready spi v s" and "unat a < 2 ^ 24" and "unat a mod 0x1000 + length data \<le> 0x1000"
    and "length buffer = length data"
  shows "\<exists>s1 s2 s3. Gd25FlashSectorErase spi a s = Some (0, s1) \<and>
    Gd25FlashWriteBuffer spi a data (of_nat (length data)) s1 = Some (of_nat (length data), s2) \<and>
    Gd25FlashReadBuffer spi a buffer (of_nat (length data)) s2 = Some ((of_nat (length data), data), s3) \<and>
    flash_ready spi v s3 \<and> (\<forall>x. x div 0x1000 \<noteq> unat a div 0x1000 \<longrightarrow> flash_mem v s3 x = flash_mem v s x)"
proof -
  let ?n = "of_nat (length data) :: u32" and ?q = "unat a div 0x1000"
  have a: "unat a = 0x1000 * ?q + unat a mod 0x1000" "?q < 0x1000" using assms(2) by (simp_all add: div_less_iff_less_mult)
  then have "unat a + length data \<le> 16777216" using assms(3) by linarith
  then have range: "unat a + length data \<le> 2 ^ 24" by simp
  have n: "unat ?n = length data" using range by (simp add: unat_of_nat)
  have inside: "x div 0x1000 = ?q" if "unat a \<le> x" "x < unat a + length data" for x
  proof (rule div_nat_eqI)
    have "0x1000 * ?q \<le> x" "x < 0x1000 * ?q + 0x1000" using that a(1) assms(3) by linarith+
    then show "0x1000 * ?q \<le> x" "x < 0x1000 * Suc ?q" by simp_all
  qed
  obtain s1 where s1: "Gd25FlashSectorErase spi a s = Some (0, s1)" "flash_ready spi v s1"
    "flash_mem v s1 = erased_in 0x1000 (flash_mem v s) (unat a)"
    using sector_erase_effect [OF assms(1,2)] by blast
  obtain s2 where s2: "Gd25FlashWriteBuffer spi a data ?n s1 = Some (?n, s2)" "flash_ready spi v s2"
    "flash_mem v s2 = programmed (flash_mem v s1) (unat a) data"
    using write_buffer_effect [OF s1(2), of a ?n data] n range by auto
  have "map (flash_mem v s2) [unat a..<unat a + length data] = data"
    using inside by (intro nth_equalityI) (simp_all add: s2(3) s1(3) programmed_def erased_in_def ones_and)
  then obtain s3 where s3: "Gd25FlashReadBuffer spi a buffer ?n s2 = Some ((?n, data), s3)" "flash_ready spi v s3" "flash_mem v s3 = flash_mem v s2"
    using read_buffer_effect [OF s2(2), of a ?n buffer] n range assms(4) by (auto simp: buf_write_def)
  have "flash_mem v s3 x = flash_mem v s x" if "x div 0x1000 \<noteq> ?q" for x
    using that inside [of x] by (auto simp: s3(3) s2(3) s1(3) programmed_def erased_in_def)
  then show ?thesis using s1(1) s2(1) s3(1,2) by blast
qed

theorem erased_written_read_witness:
  "\<exists>s1 s2 s3. Gd25FlashSectorErase example_nor 0x10F0 example_flash = Some (0, s1) \<and>
    Gd25FlashWriteBuffer example_nor 0x10F0 (replicate 600 5) 600 s1 = Some (600, s2) \<and>
    Gd25FlashReadBuffer example_nor 0x10F0 (replicate 600 0) 600 s2 = Some ((600, replicate 600 5), s3)"
  using erased_written_read [OF example_flash_ready, of "0x10F0" "replicate 600 5" "replicate 600 0"] by simp blast

text \<open>
  C31: An erase that returns an error -- of a sector or a block beyond the end of the memory always, of a sector, a block or the
  chip when writing cannot be enabled -- keeps the mutex: after it no call of the driver that takes the mutex returns any
  more. An erase that succeeds releases it. (\<^verbatim>\<open>Gd25FlashReadID\<close> and \<^verbatim>\<open>Gd25FlashWriteBufferNoMutex\<close> are the calls that take none.)
\<close>

theorem refused_erase_blocks_flash:
  assumes "\<not> g_flashMutex s"
  shows "(2 ^ 24 \<le> unat a \<longrightarrow>
      (\<exists>s'. Gd25FlashSectorErase spi a s = Some (ERR_GD25_BAD_PARAM, s')) \<and> (\<exists>s'. Gd25FlashBlockErase spi a s = Some (ERR_GD25_BAD_PARAM, s'))) \<and>
    (\<forall>ret s'. Some (ret, s') \<in> {Gd25FlashSectorErase spi a s, Gd25FlashBlockErase spi a s, Gd25FlashChipErase spi s} \<longrightarrow>
      (if ret = 0 then \<not> g_flashMutex s' else \<forall>c. flash_step spi c s' = None))"
proof -
  have far: "\<exists>s'. erase_at spi cmd a s = Some (ERR_GD25_BAD_PARAM, s')" if "2 ^ 24 \<le> unat a" for cmd
    using assms that by (simp add: erase_at_def osMutexAcquire_def word_le_nat_alt GD25QXX_FLASH_SIZE_def)
  have "if ret = 0 then \<not> g_flashMutex s' else \<forall>c. flash_step spi c s' = None"
    if r: "Some (ret, s') \<in> {erase_at spi GD25QXX_CMD_SECTOR_ERASE a s, erase_at spi GD25QXX_CMD_BLOCK_ERASE a s, Gd25FlashChipErase spi s}" for ret s'
  proof -
    have "ret = 0 \<and> \<not> g_flashMutex s' \<or> ret \<noteq> 0 \<and> g_flashMutex s'"
      using r assms erase_keeps_mutex chip_erase_keeps_mutex by (metis insertE singletonD)
    then show ?thesis using held_mutex_blocks by auto
  qed
  then show ?thesis using far unfolding Gd25FlashSectorErase_def Gd25FlashBlockErase_def by blast
qed

theorem refused_erase_blocks_flash_witness:
  "\<exists>s'. Gd25FlashSectorErase example_nor 0x1000000 example_flash = Some (ERR_GD25_BAD_PARAM, s') \<and>
    Gd25FlashReadBuffer example_nor 0 [0] 1 s' = None"
proof -
  have free: "\<not> g_flashMutex example_flash" by (simp add: example_flash_def)
  obtain s' where run: "Gd25FlashSectorErase example_nor 0x1000000 example_flash = Some (ERR_GD25_BAD_PARAM, s')"
    using refused_erase_blocks_flash [OF free, of "0x1000000" example_nor] by auto
  then have "\<forall>c. flash_step example_nor c s' = None"
    using refused_erase_blocks_flash [OF free, of "0x1000000" example_nor] by (auto simp: ERR_GD25_BAD_PARAM_def)
  then have "flash_step example_nor (ReadBuffer 0 1) s' = None" by blast
  then show ?thesis using run by auto
qed

end
