(* ===== verification/Battery.thy ===== *)
theory Battery
  imports Gd25Props
begin

text \<open>
  The battery, \<^verbatim>\<open>src/driver/drv_battery.c\<close>: the voltage from the samples of the converter, the percentage from
  the voltage, the percentage that is shown and its history in a sector of the flash. The samples, the
  conversion to millivolts and the state of the charger are parameters, and so is what an
  uninitialised variable holds. Prints and the set-up of the pins are left out.
\<close>

section \<open>Curves\<close>

definition dischargeCurve :: "u16 list" where
  "dischargeCurve =
  [3391, 3409, 3423, 3435, 3447, 3459, 3469, 3478, 3488, 3497,
   3505, 3513, 3521, 3528, 3535, 3541, 3548, 3554, 3560, 3566,
   3571, 3576, 3582, 3587, 3593, 3598, 3604, 3609, 3615, 3621,
   3627, 3634, 3641, 3648, 3655, 3663, 3671, 3679, 3688, 3697,
   3706, 3716, 3725, 3735, 3744, 3753, 3762, 3770, 3778, 3785,
   3792, 3799, 3805, 3811, 3817, 3822, 3828, 3833, 3838, 3844,
   3849, 3853, 3858, 3863, 3867, 3872, 3877, 3883, 3891, 3900,
   3910, 3921, 3932, 3943, 3954, 3964, 3974, 3977, 3980, 3983,
   3986, 3990, 3993, 3996, 3999, 4000, 4003, 4006, 4009, 4013,
   4019, 4028, 4038, 4049, 4062, 4076, 4090, 4107, 4125, 4156]"

definition chargingCurve :: "u16 list" where
  "chargingCurve =
  [3380, 3495, 3531, 3547, 3556, 3564, 3572, 3579, 3588, 3596,
   3605, 3613, 3622, 3631, 3639, 3646, 3655, 3662, 3668, 3675,
   3681, 3687, 3692, 3697, 3701, 3706, 3710, 3714, 3719, 3724,
   3729, 3734, 3739, 3744, 3750, 3756, 3762, 3769, 3776, 3784,
   3792, 3800, 3808, 3819, 3827, 3836, 3845, 3855, 3865, 3874,
   3883, 3892, 3900, 3908, 3916, 3923, 3930, 3936, 3943, 3949,
   3955, 3960, 3965, 3970, 3975, 3980, 3985, 3989, 3994, 3999,
   4003, 4010, 4016, 4024, 4033, 4042, 4052, 4063, 4074, 4084,
   4094, 4102, 4109, 4115, 4119, 4123, 4127, 4131, 4135, 4139,
   4144, 4149, 4155, 4161, 4168, 4176, 4186, 4195, 4200, 4200]"

text \<open>The loop stops at the first entry that is not below the voltage.\<close>

fun percent_loop :: "u16 list \<Rightarrow> u32 \<Rightarrow> u8 \<Rightarrow> u8" where
  "percent_loop [] milliVolt percent = percent"
| "percent_loop (c # curve) milliVolt percent =
     (if milliVolt \<le> ucast c then percent else percent_loop curve milliVolt (percent + 1))"

definition GetBatteryPercentByMilliVolt :: "u32 \<Rightarrow> bool \<Rightarrow> u8" where
  "GetBatteryPercentByMilliVolt milliVolt discharge =
     percent_loop (if discharge then dischargeCurve else chargingCurve) milliVolt 0"

section \<open>Voltage\<close>

definition BATTERY_ADC_TIMES :: nat where "BATTERY_ADC_TIMES = 10"

text \<open>Samples that are too high are taken again. \<open>None\<close>: the converter has delivered no more.\<close>

fun take_samples :: "int \<Rightarrow> nat \<Rightarrow> int list \<Rightarrow> int list option" where
  "take_samples limit 0 adc = Some []"
| "take_samples limit (Suc n) [] = None"
| "take_samples limit (Suc n) (temp # adc) =
     (if temp \<ge> limit then take_samples limit (Suc n) adc else map_option (\<lambda>xs. temp # xs) (take_samples limit n adc))"

definition adc_average :: "int list \<Rightarrow> int" where
  "adc_average samples =
     (sum_list samples - fold max samples 0 - fold min samples 0xFFF) div (int BATTERY_ADC_TIMES - 2)"

definition GetBatteryMilliVolt :: "(int \<Rightarrow> u32 \<Rightarrow> u32) \<Rightarrow> int list \<Rightarrow> u32 option" where
  "GetBatteryMilliVolt ADC_CalVoltage adc =
     map_option (\<lambda>samples. ADC_CalVoltage (adc_average samples) 6200) (take_samples 0xF00 BATTERY_ADC_TIMES adc)"

definition GetRtcBatteryMilliVolt :: "(int \<Rightarrow> u32 \<Rightarrow> u32) \<Rightarrow> int list \<Rightarrow> u32 option" where
  "GetRtcBatteryMilliVolt ADC_CalVoltage adc =
     map_option (\<lambda>samples.
       let adcAver = adc_average samples; vol = ADC_CalVoltage adcAver 1880
       in if adcAver > 2420 then vol * 285 div 100
          else if adcAver > 2070 then vol * 29 div 10
          else if adcAver < 2020 then vol * 27 div 10
          else if adcAver \<ge> 2020 \<and> adcAver < 2038 then vol * 28 div 10
          else vol * 284 div 100) (take_samples 0xFF0 BATTERY_ADC_TIMES adc)"

section \<open>State\<close>

datatype usb_power_state = USB_POWER_STATE_DISCONNECT | USB_POWER_STATE_CONNECT

definition SPI_FLASH_ADDR_BATTERY_INFO :: u32 where "SPI_FLASH_ADDR_BATTERY_INFO = 0xFFD000"
definition SPI_FLASH_SIZE_BATTERY_INFO :: u32 where "SPI_FLASH_SIZE_BATTERY_INFO = 0x1000"
definition BATTERY_INVALID_PERCENT_VALUE :: u8 where "BATTERY_INVALID_PERCENT_VALUE = 101"
definition BATTERY_DIFF_THRESHOLD :: nat where "BATTERY_DIFF_THRESHOLD = 40"
definition BATTERY_DELAY_TO_DECREASE_PERCENT :: u8 where "BATTERY_DELAY_TO_DECREASE_PERCENT = 2"
definition BATTERY_CHARGING_BY_TIME :: u8 where "BATTERY_CHARGING_BY_TIME = 75"

text \<open>\<open>powered_off\<close> says that \<^verbatim>\<open>Aw32001PowerOff\<close> has been called.\<close>

record 'h battery =
  bt_flash :: "'h gd25"
  g_batterPercent :: u8
  g_batteryFlashAddress :: u32
  bt_first :: bool
  powerOffCnt :: u8
  delayIncrease :: u8
  delayDecrease :: u8
  powered_off :: bool

definition battery_power_on :: "'h gd25 \<Rightarrow> 'h battery" where
  "battery_power_on f = \<lparr>bt_flash = f, g_batterPercent = BATTERY_INVALID_PERCENT_VALUE,
     g_batteryFlashAddress = SPI_FLASH_ADDR_BATTERY_INFO, bt_first = True, powerOffCnt = 0, delayIncrease = 0,
     delayDecrease = 0, powered_off = False\<rparr>"

section \<open>The history in the flash\<close>

definition SaveBatteryPercent :: "'h spi_bus \<Rightarrow> u8 \<Rightarrow> 'h battery \<Rightarrow> 'h battery option" where
  "SaveBatteryPercent spi percent s =
     (if \<not> (g_batteryFlashAddress s \<ge> SPI_FLASH_ADDR_BATTERY_INFO \<and>
            g_batteryFlashAddress s < SPI_FLASH_ADDR_BATTERY_INFO + SPI_FLASH_SIZE_BATTERY_INFO) then None
      else
        let addr = g_batteryFlashAddress s + 1;
            wrapped =
              (if addr \<ge> SPI_FLASH_ADDR_BATTERY_INFO + SPI_FLASH_SIZE_BATTERY_INFO
               then map_option (\<lambda>(ret, f). (SPI_FLASH_ADDR_BATTERY_INFO, f)) (Gd25FlashSectorErase spi SPI_FLASH_ADDR_BATTERY_INFO (bt_flash s))
               else Some (addr, bt_flash s))
        in case wrapped of
             None \<Rightarrow> None
           | Some (addr, f) \<Rightarrow>
               map_option (\<lambda>(n, f). s\<lparr>g_batteryFlashAddress := addr, bt_flash := f\<rparr>) (Gd25FlashWriteBuffer spi addr [percent] 1 f))"

text \<open>The search of the last entry; \<open>adjust\<close> compares it with the measured percentage.\<close>

record history_scan =
  hs_percent :: u8
  hs_address :: u32
  resetValue :: bool
  checkErased :: bool
  needErase :: bool

fun scan_history :: "(u8 \<Rightarrow> u8) \<Rightarrow> bytes \<Rightarrow> nat list \<Rightarrow> history_scan \<Rightarrow> history_scan" where
  "scan_history adjust data [] st = st"
| "scan_history adjust data (i # is) st =
     (if \<not> checkErased st \<and> data ! i = 0xFF then
        let st =
          (if i = 0 then st\<lparr>resetValue := True\<rparr>
           else if data ! (i - 1) > 100 then st\<lparr>resetValue := True, needErase := True\<rparr>
           else st\<lparr>hs_percent := adjust (data ! (i - 1)), hs_address := SPI_FLASH_ADDR_BATTERY_INFO + of_nat i - 1\<rparr>)
        in scan_history adjust data is (st\<lparr>checkErased := True\<rparr>)
      else if checkErased st \<and> data ! i \<noteq> 0xFF then st\<lparr>resetValue := True, needErase := True\<rparr>
      else scan_history adjust data is st)"

definition adjust_percent :: "usb_power_state \<Rightarrow> u8 \<Rightarrow> u8 \<Rightarrow> u8" where
  "adjust_percent usbPowerState measurePercent percent =
     (if usbPowerState = USB_POWER_STATE_DISCONNECT \<and> percent > measurePercent \<and>
         (unat percent - unat measurePercent > BATTERY_DIFF_THRESHOLD \<or> measurePercent \<le> 20)
      then measurePercent else percent)"

definition LoadBatteryPercent :: "'h spi_bus \<Rightarrow> u8 \<Rightarrow> usb_power_state \<Rightarrow> u32 \<Rightarrow> 'h battery \<Rightarrow> (u8 \<times> 'h battery) option" where
  "LoadBatteryPercent spi uninit usbPowerState milliVolt s =
     (let measurePercent = GetBatteryPercentByMilliVolt milliVolt (usbPowerState = USB_POWER_STATE_DISCONNECT);
          data = replicate (unat SPI_FLASH_SIZE_BATTERY_INFO) uninit
      in case Gd25FlashReadBuffer spi SPI_FLASH_ADDR_BATTERY_INFO data SPI_FLASH_SIZE_BATTERY_INFO (bt_flash s) of
           None \<Rightarrow> None
         | Some ((n, data), f) \<Rightarrow>
             let st = scan_history (adjust_percent usbPowerState measurePercent) data [0..<unat SPI_FLASH_SIZE_BATTERY_INFO]
                        \<lparr>hs_percent = uninit, hs_address = g_batteryFlashAddress s, resetValue = False, checkErased = False, needErase = False\<rparr>;
                 erased =
                   (if needErase st \<or> \<not> checkErased st
                    then map_option snd (Gd25FlashSectorErase spi SPI_FLASH_ADDR_BATTERY_INFO f)
                    else Some f)
             in case erased of
                  None \<Rightarrow> None
                | Some f \<Rightarrow>
                    if resetValue st
                    then map_option (\<lambda>(n, f). (BATTERY_INVALID_PERCENT_VALUE, s\<lparr>g_batteryFlashAddress := SPI_FLASH_ADDR_BATTERY_INFO, bt_flash := f\<rparr>))
                           (Gd25FlashWriteBuffer spi SPI_FLASH_ADDR_BATTERY_INFO [BATTERY_INVALID_PERCENT_VALUE] 1 f)
                    else Some (hs_percent st, s\<lparr>g_batteryFlashAddress := hs_address st, bt_flash := f\<rparr>))"

definition BatteryInit ::
  "'h spi_bus \<Rightarrow> u8 \<Rightarrow> (int \<Rightarrow> u32 \<Rightarrow> u32) \<Rightarrow> int list \<Rightarrow> usb_power_state \<Rightarrow> 'h battery \<Rightarrow> 'h battery option" where
  "BatteryInit spi uninit ADC_CalVoltage adc usbPowerState s =
     (case GetBatteryMilliVolt ADC_CalVoltage adc of
        None \<Rightarrow> None
      | Some milliVolt \<Rightarrow>
          map_option (\<lambda>(percent, s). s\<lparr>g_batterPercent := percent\<rparr>) (LoadBatteryPercent spi uninit usbPowerState milliVolt s))"

section \<open>The interval\<close>

text \<open>The counter is set back in every call, so it never reaches ten.\<close>

definition count_low_voltage :: "usb_power_state \<Rightarrow> u32 \<Rightarrow> 'h battery \<Rightarrow> 'h battery" where
  "count_low_voltage usbPowerState milliVolt s =
     (let s = (if usbPowerState = USB_POWER_STATE_DISCONNECT \<and> milliVolt < ucast (dischargeCurve ! 0) then
                 let s = s\<lparr>powerOffCnt := powerOffCnt s + 1\<rparr>
                 in if powerOffCnt s \<ge> 10 then s\<lparr>powered_off := True\<rparr> else s
               else s)
      in s\<lparr>powerOffCnt := 0\<rparr>)"

definition discharge_step :: "u8 \<Rightarrow> 'h battery \<times> bool \<Rightarrow> 'h battery \<times> bool" where
  "discharge_step percent sc =
     (let (s, change) = sc;
          s = s\<lparr>delayDecrease := (if percent > 85 then delayDecrease s + 1 else BATTERY_DELAY_TO_DECREASE_PERCENT)\<rparr>
      in if percent < g_batterPercent s \<and> delayDecrease s \<ge> BATTERY_DELAY_TO_DECREASE_PERCENT
         then (s\<lparr>g_batterPercent := g_batterPercent s - 1, delayDecrease := 0\<rparr>, True)
         else (s, change))"

definition charge_step :: "u8 \<Rightarrow> 'h battery \<times> bool \<Rightarrow> 'h battery \<times> bool" where
  "charge_step percent sc =
     (let (s, change) = sc;
          s = (if percent < g_batterPercent s \<and> percent \<ge> BATTERY_CHARGING_BY_TIME then s\<lparr>delayIncrease := delayIncrease s + 1\<rparr> else s)
      in if percent > g_batterPercent s \<or> delayIncrease s = 4
         then let g = g_batterPercent s + 1 in (s\<lparr>g_batterPercent := (if g \<ge> 100 then 100 else g), delayIncrease := 0\<rparr>, True)
         else (s, change))"

definition shown_percent :: "usb_power_state \<Rightarrow> u8 \<Rightarrow> 'h battery \<Rightarrow> 'h battery \<times> bool" where
  "shown_percent usbPowerState percent s =
     (let change = bt_first s;
          s = s\<lparr>bt_first := False\<rparr>;
          (s, change) = (if g_batterPercent s = BATTERY_INVALID_PERCENT_VALUE then (s\<lparr>g_batterPercent := percent\<rparr>, True) else (s, change))
      in if percent < g_batterPercent s \<and> usbPowerState = USB_POWER_STATE_DISCONNECT then discharge_step percent (s, change)
         else if usbPowerState = USB_POWER_STATE_CONNECT then charge_step percent (s, change)
         else (s, change))"

definition BatteryIntervalHandler ::
  "'h spi_bus \<Rightarrow> (int \<Rightarrow> u32 \<Rightarrow> u32) \<Rightarrow> int list \<Rightarrow> usb_power_state \<Rightarrow> 'h battery \<Rightarrow> (bool \<times> 'h battery) option" where
  "BatteryIntervalHandler spi ADC_CalVoltage adc usbPowerState s =
     (case GetBatteryMilliVolt ADC_CalVoltage adc of
        None \<Rightarrow> None
      | Some milliVolt \<Rightarrow>
          let percent = GetBatteryPercentByMilliVolt milliVolt (usbPowerState = USB_POWER_STATE_DISCONNECT);
              (s, change) = shown_percent usbPowerState percent (count_low_voltage usbPowerState milliVolt s)
          in if change then map_option (\<lambda>s. (change, s)) (SaveBatteryPercent spi (g_batterPercent s) s) else Some (change, s))"

definition GetBatteryInterval :: "usb_power_state \<Rightarrow> u32" where
  "GetBatteryInterval usbPowerState = (if usbPowerState = USB_POWER_STATE_DISCONNECT then 80 * 1000 else 80 * 1000)"

text \<open>The command \<^verbatim>\<open>set_percent\<close> of the test console, \<^verbatim>\<open>BatteryTest\<close>, without the message it sends.\<close>

definition battery_set_percent :: "u32 \<Rightarrow> 'h battery \<Rightarrow> 'h battery" where
  "battery_set_percent temp32 s = (if temp32 \<le> 100 then s\<lparr>g_batterPercent := ucast temp32\<rparr> else s)"

end
