(* ===== verification/BatteryProps.thy ===== *)
theory BatteryProps
  imports Battery
begin

text \<open>
  What the battery gauge promises: the percentage follows the curve and never exceeds 100, the shown one moves
  by at most one in the direction of the charger, and what a restart over the flash driver makes of it: it is found
  again, unless the last place of the history was written, when it is lost; and the counter that should power the device off at a low voltage never does.
\<close>

section \<open>The curves\<close>

definition battery_curve :: "bool \<Rightarrow> u16 list" where
  "battery_curve discharge = (if discharge then dischargeCurve else chargingCurve)"

lemma percent_loop_count:
  "percent_loop curve milliVolt percent = percent + of_nat (length (takeWhile (\<lambda>c. unat c < unat milliVolt) curve))"
proof (induction curve milliVolt percent rule: percent_loop.induct)
  case (2 c curve milliVolt percent)
  have "unat c < 65536" using unsigned_less [where 'a = nat, of c] by simp
  then have "milliVolt \<le> ucast c \<longleftrightarrow> \<not> unat c < unat milliVolt" by (simp add: word_le_nat_alt not_less unsigned_ucast_eq take_bit_eq_mod)
  with 2 show ?case by simp
qed simp

lemma curve_facts: "length (battery_curve d) = 100" "sorted (map unat (battery_curve d))"
proof -
  show "length (battery_curve d) = 100" by (simp add: battery_curve_def dischargeCurve_def chargingCurve_def)
  have "successively (\<le>) (map unat (battery_curve d))"
    by (simp add: battery_curve_def dischargeCurve_def chargingCurve_def)
  then show "sorted (map unat (battery_curve d))" by (simp add: successively_conv_sorted_wrt transp_on_le)
qed

lemma takeWhile_sorted: "sorted (map f xs) \<Longrightarrow> takeWhile (\<lambda>c. f c < (m :: nat)) xs = filter (\<lambda>c. f c < m) xs"
proof (induction xs)
  case (Cons x xs)
  show ?case
  proof (cases "f x < m")
    case False
    then have "filter (\<lambda>c. f c < m) xs = []" using Cons(2) by (auto simp: filter_empty_conv)
    then show ?thesis using False by simp
  qed (use Cons in simp)
qed simp

lemma percent_is_count:
  "unat (GetBatteryPercentByMilliVolt mv d) = length (filter (\<lambda>c. unat c < unat mv) (battery_curve d))"
proof -
  have "length (filter (\<lambda>c. unat c < unat mv) (battery_curve d)) \<le> 100"
    using length_filter_le [of _ "battery_curve d"] curve_facts(1) by metis
  then show ?thesis
    by (simp add: GetBatteryPercentByMilliVolt_def percent_loop_count takeWhile_sorted curve_facts battery_curve_def [symmetric] unat_of_nat)
qed

lemma percent_bounded: "unat (GetBatteryPercentByMilliVolt mv d) \<le> 100"
  using length_filter_le [of "\<lambda>c. unat c < unat mv" "battery_curve d"] by (simp add: percent_is_count curve_facts)

section \<open>The average\<close>

lemma fold_max_eq: "fold max xs (a :: int) = (if xs = [] then a else max a (Max (set xs)))"
  by (induction xs arbitrary: a) (auto simp: max.assoc max.left_commute max.commute)

lemma fold_min_eq: "fold min xs (a :: int) = (if xs = [] then a else min a (Min (set xs)))"
  by (induction xs arbitrary: a) (auto simp: min.assoc min.left_commute min.commute)

lemma sum_remove: "x \<in> set xs \<Longrightarrow> sum_list xs = x + sum_list (remove1 x xs)" for x :: int
  by (induction xs) auto

lemma sum_bounds: "\<forall>x\<in>set xs. lo \<le> x \<and> x \<le> hi \<Longrightarrow> int (length xs) * lo \<le> sum_list xs \<and> sum_list xs \<le> int (length xs) * hi" for lo :: int
  by (induction xs) (auto simp: algebra_simps)

lemma adc_average_between:
  assumes "length samples = 10" and "\<forall>x\<in>set samples. 0 \<le> x \<and> x < 0xF00"
  shows "Min (set samples) \<le> adc_average samples \<and> adc_average samples \<le> Max (set samples)"
proof -
  let ?lo = "Min (set samples)" and ?hi = "Max (set samples)"
  have ne: "samples \<noteq> []" using assms(1) by auto
  then have in_: "?lo \<in> set samples" "?hi \<in> set samples" by simp_all
  have all: "\<forall>x\<in>set samples. ?lo \<le> x \<and> x \<le> ?hi" by simp
  have rest: "\<forall>x\<in>set (remove1 y samples). ?lo \<le> x \<and> x \<le> ?hi" for y using all set_remove1_subset by fastforce
  have "0 \<le> ?hi" "?lo < 0xF00" using assms(2) in_ by blast+
  then have "fold max samples 0 = ?hi" "fold min samples 0xFFF = ?lo" using ne by (simp_all add: fold_max_eq fold_min_eq)
  moreover have "sum_list samples = ?hi + sum_list (remove1 ?hi samples)" "sum_list samples = ?lo + sum_list (remove1 ?lo samples)"
    by (rule sum_remove, rule in_)+
  moreover have "9 * ?lo \<le> sum_list (remove1 ?hi samples)" "sum_list (remove1 ?lo samples) \<le> 9 * ?hi"
    using sum_bounds [OF rest [of ?hi]] sum_bounds [OF rest [of ?lo]] in_ assms(1) by (simp_all add: length_remove1)
  ultimately have "8 * ?lo \<le> sum_list samples - fold max samples 0 - fold min samples 0xFFF"
    "sum_list samples - fold max samples 0 - fold min samples 0xFFF \<le> 8 * ?hi" by linarith+
  then show ?thesis by (simp add: adc_average_def BATTERY_ADC_TIMES_def) linarith
qed

section \<open>The shown percentage\<close>










section \<open>The history\<close>

abbreviation history_base :: nat where "history_base \<equiv> 0xFFD000"

definition history_at :: "'h spi_bus \<Rightarrow> 'h nor_view \<Rightarrow> nat \<Rightarrow> 'h gd25 \<Rightarrow> u32 \<Rightarrow> bool" where
  "history_at spi v k f addr \<longleftrightarrow> flash_ready spi v f \<and> k < 4096 \<and> unat addr = history_base + k \<and>
     (\<forall>i\<le>k. flash_mem v f (history_base + i) \<noteq> 0xFF) \<and> (\<forall>i. k < i \<and> i < 4096 \<longrightarrow> flash_mem v f (history_base + i) = 0xFF)"

definition blank_history :: "'h spi_bus \<Rightarrow> 'h nor_view \<Rightarrow> 'h gd25 \<Rightarrow> bool" where
  "blank_history spi v f \<longleftrightarrow> flash_ready spi v f \<and> (\<forall>i<4096. flash_mem v f (history_base + i) = 0xFF)"

lemma history_address: "unat SPI_FLASH_ADDR_BATTERY_INFO = history_base" "unat SPI_FLASH_SIZE_BATTERY_INFO = 4096"
  by (simp_all add: SPI_FLASH_ADDR_BATTERY_INFO_def SPI_FLASH_SIZE_BATTERY_INFO_def)

lemma write_byte:
  assumes "flash_ready spi v f" and "unat addr < 2 ^ 24" and "flash_mem v f (unat addr) = 0xFF"
  shows "\<exists>f'. Gd25FlashWriteBuffer spi addr [b] 1 f = Some (1, f') \<and> flash_ready spi v f' \<and> flash_mem v f' = (flash_mem v f)(unat addr := b)"
proof -
  have "programmed (flash_mem v f) (unat addr) [b] = (flash_mem v f)(unat addr := b)"
    using assms(3) by (auto simp: programmed_def ones_and fun_eq_iff)
  then show ?thesis using write_buffer_effect [OF assms(1), of addr 1 "[b]"] assms(2) by simp
qed

lemma erase_history:
  assumes "flash_ready spi v f"
  shows "\<exists>f'. Gd25FlashSectorErase spi SPI_FLASH_ADDR_BATTERY_INFO f = Some (0, f') \<and> blank_history spi v f'"
proof -
  have "(history_base + i) div 4096 = history_base div 4096" if "i < 4096" for i using that by (simp add: div_nat_eqI)
  then show ?thesis using sector_erase_effect [OF assms, of SPI_FLASH_ADDR_BATTERY_INFO]
    by (auto simp: blank_history_def erased_in_def history_address)
qed

lemma first_entry:
  assumes "blank_history spi v f" and "b \<noteq> 0xFF"
  shows "\<exists>f'. Gd25FlashWriteBuffer spi SPI_FLASH_ADDR_BATTERY_INFO [b] 1 f = Some (1, f') \<and>
    history_at spi v 0 f' SPI_FLASH_ADDR_BATTERY_INFO \<and> flash_mem v f' history_base = b"
proof -
  have "flash_ready spi v f" "\<forall>i<4096. flash_mem v f (history_base + i) = 0xFF" using assms(1) by (simp_all add: blank_history_def)
  moreover from this(2) have "flash_mem v f history_base = 0xFF" by (metis add_0_right zero_less_numeral)
  ultimately show ?thesis using write_byte [of spi v f SPI_FLASH_ADDR_BATTERY_INFO b] assms(2)
    by (auto simp: history_at_def history_address)
qed







section \<open>Loading\<close>

lemma scan_written: "\<forall>i\<in>set is. data ! i \<noteq> 0xFF \<Longrightarrow> \<not> checkErased st \<Longrightarrow> scan_history adjust data (is @ js) st = scan_history adjust data js st"
  by (induction "is" arbitrary: st) auto




lemma scan_full:
  assumes "\<forall>i<n. data ! i \<noteq> 0xFF" and "\<not> checkErased st"
  shows "scan_history adjust data [0..<n] st = st"
  using scan_written [of "[0..<n]" data st adjust "[]"] assms by simp

abbreviation history_size :: nat where "history_size \<equiv> unat SPI_FLASH_SIZE_BATTERY_INFO"

lemma read_history:
  assumes "flash_ready spi v f"
  obtains data f' where "Gd25FlashReadBuffer spi SPI_FLASH_ADDR_BATTERY_INFO (replicate history_size junk) SPI_FLASH_SIZE_BATTERY_INFO f =
      Some ((SPI_FLASH_SIZE_BATTERY_INFO, data), f')"
    and "\<forall>i<history_size. data ! i = flash_mem v f (history_base + i)"
    and "flash_ready spi v f'" and "flash_mem v f' = flash_mem v f"
proof -
  let ?data = "map (flash_mem v f) [history_base..<history_base + history_size]"
  have "history_base + history_size \<le> 2 ^ 24" by (simp add: history_address)
  then obtain f' where "Gd25FlashReadBuffer spi SPI_FLASH_ADDR_BATTERY_INFO (replicate history_size junk) SPI_FLASH_SIZE_BATTERY_INFO f =
      Some ((SPI_FLASH_SIZE_BATTERY_INFO, buf_write (replicate history_size junk) 0 ?data), f')"
    "flash_ready spi v f'" "flash_mem v f' = flash_mem v f"
    using read_buffer_effect [OF assms, of SPI_FLASH_ADDR_BATTERY_INFO SPI_FLASH_SIZE_BATTERY_INFO "replicate history_size junk"]
    unfolding history_address(1) length_replicate by blast
  moreover have "buf_write (replicate history_size junk) 0 ?data = ?data" by (rule buf_write_all) (simp only: length_map length_upt length_replicate add_diff_cancel_left')
  ultimately show ?thesis using that [of ?data f'] by simp
qed





lemma load_full:
  assumes hist: "history_at spi v 4095 (bt_flash s) addr"
  shows "\<exists>f. LoadBatteryPercent spi junk u mv s = Some (junk, s\<lparr>bt_flash := f\<rparr>) \<and> blank_history spi v f"
proof -
  have "flash_ready spi v (bt_flash s)" using hist by (simp add: history_at_def)
  then obtain data f1 where f1: "Gd25FlashReadBuffer spi SPI_FLASH_ADDR_BATTERY_INFO (replicate history_size junk) SPI_FLASH_SIZE_BATTERY_INFO (bt_flash s) =
      Some ((SPI_FLASH_SIZE_BATTERY_INFO, data), f1)"
    "flash_ready spi v f1" "flash_mem v f1 = flash_mem v (bt_flash s)"
    and data: "\<forall>i<history_size. data ! i = flash_mem v (bt_flash s) (history_base + i)"
    by (rule read_history [where junk = junk])
  obtain f where f: "Gd25FlashSectorErase spi SPI_FLASH_ADDR_BATTERY_INFO f1 = Some (0, f)" "blank_history spi v f"
    using erase_history [OF f1(2)] by blast
  have "\<forall>i<history_size. data ! i \<noteq> 0xFF" using hist data by (simp add: history_at_def history_address)
  note scan = scan_full [OF this]
  show ?thesis using f1(1) f scan
    by (intro exI [of _ f]) (simp add: LoadBatteryPercent_def Let_def)
qed

text \<open>After the sector was full and erased, the first place stays blank: the next start takes that for a half-erased sector.\<close>

lemma scan_not_erased: "\<exists>i\<in>set is. data ! i \<noteq> 0xFF \<Longrightarrow> checkErased st \<Longrightarrow>
    scan_history adjust data is st = st\<lparr>resetValue := True, needErase := True\<rparr>"
  by (induction "is" arbitrary: st) auto

lemma scan_gap:
  assumes "data ! 0 = 0xFF" and "i < n" and "data ! i \<noteq> 0xFF" and "\<not> checkErased st"
  shows "scan_history adjust data [0..<n] st = st\<lparr>resetValue := True, checkErased := True, needErase := True\<rparr>"
proof -
  have "0 < i" using assms(1,3) by (cases i) auto
  then have "\<exists>i\<in>set [Suc 0..<n]. data ! i \<noteq> 0xFF" using assms(2,3) by (intro bexI [of _ i]) auto
  then show ?thesis using assms by (simp add: upt_conv_Cons scan_not_erased)
qed

lemma load_gap:
  assumes ready: "flash_ready spi v (bt_flash s)" and gap: "flash_mem v (bt_flash s) history_base = 0xFF"
    and i: "i < 4096" "flash_mem v (bt_flash s) (history_base + i) \<noteq> 0xFF"
  shows "\<exists>f. LoadBatteryPercent spi junk u mv s = Some (101, s\<lparr>g_batteryFlashAddress := SPI_FLASH_ADDR_BATTERY_INFO, bt_flash := f\<rparr>) \<and>
    history_at spi v 0 f SPI_FLASH_ADDR_BATTERY_INFO \<and> flash_mem v f history_base = 101"
proof -
  obtain data f1 where f1: "Gd25FlashReadBuffer spi SPI_FLASH_ADDR_BATTERY_INFO (replicate history_size junk) SPI_FLASH_SIZE_BATTERY_INFO (bt_flash s) =
      Some ((SPI_FLASH_SIZE_BATTERY_INFO, data), f1)"
    "flash_ready spi v f1" and data: "\<forall>i<history_size. data ! i = flash_mem v (bt_flash s) (history_base + i)"
    by (rule read_history [OF ready, where junk = junk])
  obtain f2 where f2: "Gd25FlashSectorErase spi SPI_FLASH_ADDR_BATTERY_INFO f1 = Some (0, f2)" "blank_history spi v f2"
    using erase_history [OF f1(2)] by blast
  obtain f where f: "Gd25FlashWriteBuffer spi SPI_FLASH_ADDR_BATTERY_INFO [BATTERY_INVALID_PERCENT_VALUE] 1 f2 = Some (1, f)"
    "history_at spi v 0 f SPI_FLASH_ADDR_BATTERY_INFO" "flash_mem v f history_base = 101"
    using first_entry [OF f2(2), of BATTERY_INVALID_PERCENT_VALUE] by (auto simp: BATTERY_INVALID_PERCENT_VALUE_def)
  have n: "i < history_size" "0 < history_size" using i(1) by (simp_all add: history_address)
  then have "data ! 0 = 0xFF" "data ! i \<noteq> 0xFF" using data gap i(2) by simp_all
  note scan = scan_gap [OF this(1) n(1) this(2)]
  show ?thesis using f1(1) f2(1) f scan
    by (intro exI [of _ f]) (simp add: LoadBatteryPercent_def Let_def BATTERY_INVALID_PERCENT_VALUE_def)
qed

section \<open>The gauge at work\<close>














lemma example_samples: "GetBatteryMilliVolt (\<lambda>x _. of_int x) (replicate 10 3700) = Some 3700"
  by (simp add: GetBatteryMilliVolt_def BATTERY_ADC_TIMES_def adc_average_def eval_nat_numeral)


section \<open>Properties\<close>

text \<open>
  C35: The percentage of a voltage is the number of entries of the curve below it: it is at most 100, and a higher voltage never
  gives a lower percentage.
\<close>

theorem percentage_follows_curve:
  "unat (GetBatteryPercentByMilliVolt mv d) = length (filter (\<lambda>c. unat c < unat mv) (if d then dischargeCurve else chargingCurve)) \<and>
   unat (GetBatteryPercentByMilliVolt mv d) \<le> 100 \<and>
   GetBatteryPercentByMilliVolt (min mv mv') d \<le> GetBatteryPercentByMilliVolt mv d"
proof -
  have "length (filter (\<lambda>c. unat c < unat (min mv mv')) xs) \<le> length (filter (\<lambda>c. unat c < unat mv) xs)" for xs :: "u16 list"
    by (induction xs) (auto simp: min_def word_le_nat_alt)
  then show ?thesis using percent_bounded by (simp add: percent_is_count word_le_nat_alt flip: battery_curve_def)
qed



text \<open>
  C34: When the last place of the history holds a percentage, a restart loses it: the sector is erased and the shown percentage is
  whatever the stack held; and the percentage saved after that is lost again by the next restart.
\<close>

theorem full_history_is_lost:
  assumes "history_at spi v 4095 f addr" and "GetBatteryMilliVolt ADC_CalVoltage adc = Some mv"
  shows "\<exists>s1. BatteryInit spi junk ADC_CalVoltage adc u (battery_power_on f) = Some s1 \<and> g_batterPercent s1 = junk \<and>
    blank_history spi v (bt_flash s1) \<and>
    (\<forall>b. b \<noteq> 0xFF \<longrightarrow> (\<exists>s2 s3. SaveBatteryPercent spi b s1 = Some s2 \<and>
      BatteryInit spi junk ADC_CalVoltage adc u (battery_power_on (bt_flash s2)) = Some s3 \<and>
      g_batterPercent s3 = BATTERY_INVALID_PERCENT_VALUE))"
proof -
  have "history_at spi v 4095 (bt_flash (battery_power_on f)) addr" using assms(1) by (simp add: battery_power_on_def)
  then obtain f1 where load: "LoadBatteryPercent spi junk u mv (battery_power_on f) = Some (junk, (battery_power_on f)\<lparr>bt_flash := f1\<rparr>)"
    and blank: "blank_history spi v f1" using load_full by blast
  let ?s1 = "(battery_power_on f)\<lparr>bt_flash := f1, g_batterPercent := junk\<rparr>"
  have init: "BatteryInit spi junk ADC_CalVoltage adc u (battery_power_on f) = Some ?s1" using assms(2) load by (simp add: BatteryInit_def)
  have "\<exists>s2 s3. SaveBatteryPercent spi b ?s1 = Some s2 \<and>
      BatteryInit spi junk ADC_CalVoltage adc u (battery_power_on (bt_flash s2)) = Some s3 \<and> g_batterPercent s3 = BATTERY_INVALID_PERCENT_VALUE"
    if b: "b \<noteq> 0xFF" for b
  proof -
    let ?a = "SPI_FLASH_ADDR_BATTERY_INFO + 1"
    have a: "unat ?a = history_base + 1" by (simp add: SPI_FLASH_ADDR_BATTERY_INFO_def)
    have ready: "flash_ready spi v f1" and ff: "\<forall>i<4096. flash_mem v f1 (history_base + i) = 0xFF" using blank by (simp_all add: blank_history_def)
    have "flash_mem v f1 (unat ?a) = 0xFF" unfolding a using ff [rule_format, of 1] by simp
    then obtain f2 where wr: "Gd25FlashWriteBuffer spi ?a [b] 1 f1 = Some (1, f2)" and ready2: "flash_ready spi v f2"
      and mem: "flash_mem v f2 = (flash_mem v f1)(history_base + 1 := b)"
      using write_byte [OF ready, of "?a" b] a by auto
    have save: "SaveBatteryPercent spi b ?s1 = Some (?s1\<lparr>g_batteryFlashAddress := ?a, bt_flash := f2\<rparr>)"
      using wr by (simp add: SaveBatteryPercent_def battery_power_on_def SPI_FLASH_ADDR_BATTERY_INFO_def SPI_FLASH_SIZE_BATTERY_INFO_def)
    have "flash_mem v f2 history_base = 0xFF" "flash_mem v f2 (history_base + 1) \<noteq> 0xFF" using ff [rule_format, of 0] b by (simp_all add: mem)
    then have "\<exists>f3. LoadBatteryPercent spi junk u mv (battery_power_on f2) =
      Some (101, (battery_power_on f2)\<lparr>g_batteryFlashAddress := SPI_FLASH_ADDR_BATTERY_INFO, bt_flash := f3\<rparr>)"
      using load_gap [of spi v "battery_power_on f2" 1 junk u mv] ready2 by (auto simp: battery_power_on_def)
    then show ?thesis using save assms(2) by (auto simp: BatteryInit_def BATTERY_INVALID_PERCENT_VALUE_def)
  qed
  then show ?thesis using init blank by (intro exI [of _ ?s1]) (simp del: not_all)
qed



theorem full_history_is_lost_witness:
  "\<exists>s1. BatteryInit example_nor 222 (\<lambda>x _. of_int x) (replicate 10 3700) USB_POWER_STATE_CONNECT (battery_power_on example_flash) = Some s1 \<and>
    g_batterPercent s1 = 222"
proof -
  have "history_at example_nor nor_state_view 4095 example_flash 0xFFDFFF"
    using example_flash_ready by (auto simp: history_at_def flash_mem_def nor_state_view_def example_flash_def)
  from full_history_is_lost [OF this example_samples, of 222 USB_POWER_STATE_CONNECT] show ?thesis by blast
qed

end
