(* ===== verification/Sha2.thy ===== *)
theory Sha2
  imports Prelude
begin

text \<open>
  SHA-256 and SHA-512, \<^verbatim>\<open>external/ccan/sha256.c\<close> and \<^verbatim>\<open>sha512.c\<close>. The two files have the same text over words of
  32 and of 64 bits and differ in four functions and in their constants, which are the fields of a record here. The
  buffering of a message that arrives in pieces is modelled with its context. The words in memory are
  little-endian and swapped, \<^verbatim>\<open>external/ccan/endian.h\<close>. The build is the one without OpenSSL.
\<close>

section \<open>Words in memory\<close>

type_synonym u64 = "64 word"

definition bswap_32 :: "u32 \<Rightarrow> u32" where
  "bswap_32 val =
     push_bit 24 (val AND 0x000000ff) OR push_bit 8 (val AND 0x0000ff00) OR
     drop_bit 8 (val AND 0x00ff0000) OR drop_bit 24 (val AND 0xff000000)"

definition bswap_64 :: "u64 \<Rightarrow> u64" where
  "bswap_64 val =
     push_bit 56 (val AND 0x00000000000000ff) OR push_bit 40 (val AND 0x000000000000ff00) OR
     push_bit 24 (val AND 0x0000000000ff0000) OR push_bit 8 (val AND 0x00000000ff000000) OR
     drop_bit 8 (val AND 0x000000ff00000000) OR drop_bit 24 (val AND 0x0000ff0000000000) OR
     drop_bit 40 (val AND 0x00ff000000000000) OR drop_bit 56 (val AND 0xff00000000000000)"

definition load_word :: "bytes \<Rightarrow> 'w::len word" where
  "load_word bs = word_rcat (rev bs)"

definition store_word :: "'w::len word \<Rightarrow> bytes" where
  "store_word w = map (\<lambda>i. ucast (drop_bit (8 * i) w)) [0..<LENGTH('w) div 8]"

section \<open>The functions\<close>

record 'w sha2_parts =
  Sigma0 :: "'w \<Rightarrow> 'w"
  Sigma1 :: "'w \<Rightarrow> 'w"
  sigma0 :: "'w \<Rightarrow> 'w"
  sigma1 :: "'w \<Rightarrow> 'w"
  round_constants :: "'w list"
  start_state :: "'w list"

record 'w sha2 = "'w sha2_parts" +
  bswap :: "'w \<Rightarrow> 'w"

definition Ch :: "'w::len word \<Rightarrow> 'w word \<Rightarrow> 'w word \<Rightarrow> 'w word" where
  "Ch x y z = z XOR (x AND (y XOR z))"

definition Maj :: "'w::len word \<Rightarrow> 'w word \<Rightarrow> 'w word \<Rightarrow> 'w word" where
  "Maj x y z = (x AND y) OR (z AND (x OR y))"

definition sha256_K :: "u32 list" where
  "sha256_K =
    [1116352408, 1899447441, 3049323471, 3921009573, 961987163, 1508970993, 2453635748, 2870763221,
     3624381080, 310598401, 607225278, 1426881987, 1925078388, 2162078206, 2614888103, 3248222580,
     3835390401, 4022224774, 264347078, 604807628, 770255983, 1249150122, 1555081692, 1996064986,
     2554220882, 2821834349, 2952996808, 3210313671, 3336571891, 3584528711, 113926993, 338241895,
     666307205, 773529912, 1294757372, 1396182291, 1695183700, 1986661051, 2177026350, 2456956037,
     2730485921, 2820302411, 3259730800, 3345764771, 3516065817, 3600352804, 4094571909, 275423344,
     430227734, 506948616, 659060556, 883997877, 958139571, 1322822218, 1537002063, 1747873779,
     1955562222, 2024104815, 2227730452, 2361852424, 2428436474, 2756734187, 3204031479, 3329325298]"

definition sha512_K :: "u64 list" where
  "sha512_K =
    [4794697086780616226, 8158064640168781261, 13096744586834688815, 16840607885511220156,
     4131703408338449720, 6480981068601479193, 10538285296894168987, 12329834152419229976,
     15566598209576043074, 1334009975649890238, 2608012711638119052, 6128411473006802146,
     8268148722764581231, 9286055187155687089, 11230858885718282805, 13951009754708518548,
     16472876342353939154, 17275323862435702243, 1135362057144423861, 2597628984639134821,
     3308224258029322869, 5365058923640841347, 6679025012923562964, 8573033837759648693,
     10970295158949994411, 12119686244451234320, 12683024718118986047, 13788192230050041572,
     14330467153632333762, 15395433587784984357, 489312712824947311, 1452737877330783856,
     2861767655752347644, 3322285676063803686, 5560940570517711597, 5996557281743188959,
     7280758554555802590, 8532644243296465576, 9350256976987008742, 10552545826968843579,
     11727347734174303076, 12113106623233404929, 14000437183269869457, 14369950271660146224,
     15101387698204529176, 15463397548674623760, 17586052441742319658, 1182934255886127544,
     1847814050463011016, 2177327727835720531, 2830643537854262169, 3796741975233480872,
     4115178125766777443, 5681478168544905931, 6601373596472566643, 7507060721942968483,
     8399075790359081724, 8693463985226723168, 9568029438360202098, 10144078919501101548,
     10430055236837252648, 11840083180663258601, 13761210420658862357, 14299343276471374635,
     14566680578165727644, 15097957966210449927, 16922976911328602910, 17689382322260857208,
     500013540394364858, 748580250866718886, 1242879168328830382, 1977374033974150939,
     2944078676154940804, 3659926193048069267, 4368137639120453308, 4836135668995329356,
     5532061633213252278, 6448918945643986474, 6902733635092675308, 7801388544844847127]"

definition SHA256_INIT :: "u32 list" where
  "SHA256_INIT =
    [1779033703, 3144134277, 1013904242, 2773480762, 1359893119, 2600822924, 528734635, 1541459225]"

definition SHA512_INIT :: "u64 list" where
  "SHA512_INIT =
    [7640891576956012808, 13503953896175478587, 4354685564936845355, 11912009170470909681,
     5840696475078001361, 11170449401992604703, 2270897969802886507, 6620516959819538809]"

definition sha256_code :: "u32 sha2" where
  "sha256_code =
     \<lparr>Sigma0 = \<lambda>x. (drop_bit 2 x OR push_bit 30 x) XOR (drop_bit 13 x OR push_bit 19 x) XOR (drop_bit 22 x OR push_bit 10 x),
      Sigma1 = \<lambda>x. (drop_bit 6 x OR push_bit 26 x) XOR (drop_bit 11 x OR push_bit 21 x) XOR (drop_bit 25 x OR push_bit 7 x),
      sigma0 = \<lambda>x. (drop_bit 7 x OR push_bit 25 x) XOR (drop_bit 18 x OR push_bit 14 x) XOR drop_bit 3 x,
      sigma1 = \<lambda>x. (drop_bit 17 x OR push_bit 15 x) XOR (drop_bit 19 x OR push_bit 13 x) XOR drop_bit 10 x,
      round_constants = sha256_K, start_state = SHA256_INIT, bswap = bswap_32\<rparr>"

definition sha512_code :: "u64 sha2" where
  "sha512_code =
     \<lparr>Sigma0 = \<lambda>x. (drop_bit 28 x OR push_bit 36 x) XOR (drop_bit 34 x OR push_bit 30 x) XOR (drop_bit 39 x OR push_bit 25 x),
      Sigma1 = \<lambda>x. (drop_bit 14 x OR push_bit 50 x) XOR (drop_bit 18 x OR push_bit 46 x) XOR (drop_bit 41 x OR push_bit 23 x),
      sigma0 = \<lambda>x. (drop_bit 1 x OR push_bit 63 x) XOR (drop_bit 8 x OR push_bit 56 x) XOR drop_bit 7 x,
      sigma1 = \<lambda>x. (drop_bit 19 x OR push_bit 45 x) XOR (drop_bit 61 x OR push_bit 3 x) XOR drop_bit 6 x,
      round_constants = sha512_K, start_state = SHA512_INIT, bswap = bswap_64\<rparr>"

section \<open>The transformation of a chunk\<close>

text \<open>
  From line to line the registers \<^verbatim>\<open>a\<close> to \<^verbatim>\<open>h\<close> move on by one place in the arguments of \<^verbatim>\<open>Round\<close>; \<open>sha2_reg i j\<close> is
  the register that argument \<open>j\<close> of line \<open>i\<close> names. The first 16 lines take the words of the chunk, the later ones
  replace the word they take.
\<close>

definition sha2_reg :: "nat \<Rightarrow> nat \<Rightarrow> nat" where
  "sha2_reg i j = (j + 8 - i mod 8) mod 8"

definition Round :: "('w::len word, 'z) sha2_parts_scheme \<Rightarrow> nat \<Rightarrow> 'w word \<Rightarrow> 'w word \<Rightarrow> 'w word list \<Rightarrow> 'w word list" where
  "Round h i k w r =
     (let x = (\<lambda>j. r ! sha2_reg i j);
          t1 = x 7 + Sigma1 h (x 4) + Ch (x 4) (x 5) (x 6) + k + w;
          t2 = Sigma0 h (x 0) + Maj (x 0) (x 1) (x 2)
      in r[sha2_reg i 3 := x 3 + t1, sha2_reg i 7 := t1 + t2])"

definition sha2_line :: "('w::len word, 'z) sha2_parts_scheme \<Rightarrow> nat \<Rightarrow> 'w word list \<times> 'w word list \<Rightarrow> 'w word list \<times> 'w word list" where
  "sha2_line h i rw =
     (let (r, w) = rw;
          w = (if i < 16 then w
               else w[i mod 16 := w ! (i mod 16) + (sigma1 h (w ! ((i + 14) mod 16)) + w ! ((i + 9) mod 16) + sigma0 h (w ! ((i + 1) mod 16)))])
      in (Round h i (round_constants h ! i) (w ! (i mod 16)) r, w))"

definition word_bytes :: "'w::len itself \<Rightarrow> nat" where
  "word_bytes _ = LENGTH('w) div 8"

definition chunk_words :: "('w::len word, 'z) sha2_scheme \<Rightarrow> bytes \<Rightarrow> 'w word list" where
  "chunk_words h chunk =
     map (\<lambda>j. bswap h (load_word (take (word_bytes TYPE('w)) (drop (word_bytes TYPE('w) * j) chunk)))) [0..<16]"

definition Transform :: "('w::len word, 'z) sha2_scheme \<Rightarrow> 'w word list \<Rightarrow> bytes \<Rightarrow> 'w word list" where
  "Transform h s chunk =
     (let (r, w) = fold (sha2_line h) [0..<length (round_constants h)] (s, chunk_words h chunk)
      in map2 (+) s r)"

section \<open>The context\<close>

text \<open>
  \<^verbatim>\<open>size_t\<close> has 32 bits. A chunk of the message that is not aligned is copied to the buffer before it is
  transformed; the bytes that leaves there are overwritten before they are read, and the copy is left out.
\<close>

record 'w sha2_ctx =
  sha2_s :: "'w list"
  sha2_buf :: bytes
  sha2_bytes :: u32

function sha2_chunks :: "nat \<Rightarrow> ('w list \<Rightarrow> bytes \<Rightarrow> 'w list) \<Rightarrow> bytes \<Rightarrow> 'w sha2_ctx \<Rightarrow> bytes \<times> 'w sha2_ctx" where
  "sha2_chunks sz transform data ctx =
     (if 0 < sz \<and> length data \<ge> sz
      then sha2_chunks sz transform (drop sz data)
             (ctx\<lparr>sha2_s := transform (sha2_s ctx) (take sz data), sha2_bytes := sha2_bytes ctx + of_nat sz\<rparr>)
      else (data, ctx))"
  by pat_completeness auto
termination by (relation "measure (\<lambda>(sz, transform, data, ctx). length data)") auto

declare sha2_chunks.simps [simp del]

definition sha2_add :: "nat \<Rightarrow> ('w list \<Rightarrow> bytes \<Rightarrow> 'w list) \<Rightarrow> bytes \<Rightarrow> 'w sha2_ctx \<Rightarrow> 'w sha2_ctx" where
  "sha2_add sz transform data ctx =
     (let bufsize = unat (sha2_bytes ctx) mod sz;
          full = bufsize + length data \<ge> sz;
          buf = buf_write (sha2_buf ctx) bufsize (take (sz - bufsize) data);
          ctx = (if full then ctx\<lparr>sha2_buf := buf, sha2_bytes := sha2_bytes ctx + of_nat (sz - bufsize), sha2_s := transform (sha2_s ctx) buf\<rparr> else ctx);
          data = (if full then drop (sz - bufsize) data else data);
          bufsize = (if full then 0 else bufsize);
          (data, ctx) = sha2_chunks sz transform data ctx
      in if data \<noteq> []
         then ctx\<lparr>sha2_buf := buf_write (sha2_buf ctx) bufsize data, sha2_bytes := sha2_bytes ctx + of_nat (length data)\<rparr>
         else ctx)"

definition chunk_size :: "'w::len itself \<Rightarrow> nat" where
  "chunk_size t = 16 * word_bytes t"

definition sha2_init :: "('w::len word, 'z) sha2_scheme \<Rightarrow> 'w word sha2_ctx" where
  "sha2_init h = \<lparr>sha2_s = start_state h, sha2_buf = replicate (chunk_size TYPE('w)) 0, sha2_bytes = 0\<rparr>"

text \<open>\<^verbatim>\<open>check_sha256\<close> asserts that the context has not been finished.\<close>

definition sha2_update :: "('w::len word, 'z) sha2_scheme \<Rightarrow> bytes \<Rightarrow> 'w word sha2_ctx \<Rightarrow> 'w word sha2_ctx option" where
  "sha2_update h data ctx =
     (if sha2_bytes ctx = - 1 then None else Some (sha2_add (chunk_size TYPE('w)) (Transform h) data ctx))"

definition sha2_done :: "('w::len word, 'z) sha2_scheme \<Rightarrow> 'w word sha2_ctx \<Rightarrow> bytes \<times> 'w word sha2_ctx" where
  "sha2_done h ctx =
     (let sz = chunk_size TYPE('w);
          field = 2 * word_bytes TYPE('w);
          pad = 0x80 # replicate (sz - 1) 0;
          sizedesc = replicate (field - 8) 0 @ store_word (bswap_64 (push_bit 3 (ucast (sha2_bytes ctx))));
          ctx = sha2_add sz (Transform h) (take (1 + (2 * sz - field - unat (sha2_bytes ctx) mod sz - 1) mod sz) pad) ctx;
          ctx = sha2_add sz (Transform h) sizedesc ctx
      in (concat (map (\<lambda>w. store_word (bswap h w)) (sha2_s ctx)), ctx\<lparr>sha2_bytes := - 1\<rparr>))"

definition sha2_digest :: "('w::len word, 'z) sha2_scheme \<Rightarrow> bytes \<Rightarrow> bytes option" where
  "sha2_digest h data = map_option (\<lambda>ctx. fst (sha2_done h ctx)) (sha2_update h data (sha2_init h))"

definition sha256 :: "bytes \<Rightarrow> bytes option" where
  "sha256 = sha2_digest sha256_code"

definition sha512 :: "bytes \<Rightarrow> bytes option" where
  "sha512 = sha2_digest sha512_code"

section \<open>The two hashes\<close>

definition sha256_Transform :: "u32 list \<Rightarrow> bytes \<Rightarrow> u32 list" where "sha256_Transform = Transform sha256_code"
definition sha256_init :: "u32 sha2_ctx" where "sha256_init = sha2_init sha256_code"
definition sha256_update :: "bytes \<Rightarrow> u32 sha2_ctx \<Rightarrow> u32 sha2_ctx option" where "sha256_update = sha2_update sha256_code"
definition sha256_done :: "u32 sha2_ctx \<Rightarrow> bytes \<times> u32 sha2_ctx" where "sha256_done = sha2_done sha256_code"

definition sha512_Transform :: "u64 list \<Rightarrow> bytes \<Rightarrow> u64 list" where "sha512_Transform = Transform sha512_code"
definition sha512_init :: "u64 sha2_ctx" where "sha512_init = sha2_init sha512_code"
definition sha512_update :: "bytes \<Rightarrow> u64 sha2_ctx \<Rightarrow> u64 sha2_ctx option" where "sha512_update = sha2_update sha512_code"
definition sha512_done :: "u64 sha2_ctx \<Rightarrow> bytes \<times> u64 sha2_ctx" where "sha512_done = sha2_done sha512_code"

text \<open>Adding a number in the byte order of the machine, in little-endian and in big-endian order.\<close>

definition bswap_16 :: "u16 \<Rightarrow> u16" where
  "bswap_16 val = push_bit 8 (val AND 0x00ff) OR drop_bit 8 (val AND 0xff00)"

definition sha256_u8 :: "u8 \<Rightarrow> u32 sha2_ctx \<Rightarrow> u32 sha2_ctx option" where "sha256_u8 v = sha256_update (store_word v)"
definition sha256_u16 :: "u16 \<Rightarrow> u32 sha2_ctx \<Rightarrow> u32 sha2_ctx option" where "sha256_u16 v = sha256_update (store_word v)"
definition sha256_u32 :: "u32 \<Rightarrow> u32 sha2_ctx \<Rightarrow> u32 sha2_ctx option" where "sha256_u32 v = sha256_update (store_word v)"
definition sha256_u64 :: "u64 \<Rightarrow> u32 sha2_ctx \<Rightarrow> u32 sha2_ctx option" where "sha256_u64 v = sha256_update (store_word v)"
definition sha256_le16 :: "u16 \<Rightarrow> u32 sha2_ctx \<Rightarrow> u32 sha2_ctx option" where "sha256_le16 v = sha256_update (store_word v)"
definition sha256_le32 :: "u32 \<Rightarrow> u32 sha2_ctx \<Rightarrow> u32 sha2_ctx option" where "sha256_le32 v = sha256_update (store_word v)"
definition sha256_le64 :: "u64 \<Rightarrow> u32 sha2_ctx \<Rightarrow> u32 sha2_ctx option" where "sha256_le64 v = sha256_update (store_word v)"
definition sha256_be16 :: "u16 \<Rightarrow> u32 sha2_ctx \<Rightarrow> u32 sha2_ctx option" where "sha256_be16 v = sha256_update (store_word (bswap_16 v))"
definition sha256_be32 :: "u32 \<Rightarrow> u32 sha2_ctx \<Rightarrow> u32 sha2_ctx option" where "sha256_be32 v = sha256_update (store_word (bswap_32 v))"
definition sha256_be64 :: "u64 \<Rightarrow> u32 sha2_ctx \<Rightarrow> u32 sha2_ctx option" where "sha256_be64 v = sha256_update (store_word (bswap_64 v))"

end
