(* ===== verification/Sha2Standard.thy ===== *)
theory Sha2Standard
  imports Sha2 Complex_Main
begin

text \<open>
  SHA-256 and SHA-512 digest a message, however it is cut into pieces, as FIPS 180-4 defines. The reference pads
  the whole message first and is written with rotations, the recursive schedule and the roots of the
  first primes, so the tables of the code are checked as well.
\<close>

section \<open>The standard\<close>

definition fips_Ch :: "'w::len word \<Rightarrow> 'w word \<Rightarrow> 'w word \<Rightarrow> 'w word" where
  "fips_Ch x y z = (x AND y) XOR (NOT x AND z)"

definition fips_Maj :: "'w::len word \<Rightarrow> 'w word \<Rightarrow> 'w word \<Rightarrow> 'w word" where
  "fips_Maj x y z = (x AND y) XOR (x AND z) XOR (y AND z)"

definition first_primes :: "nat list" where
  "first_primes =
    [2, 3, 5, 7, 11, 13, 17, 19, 23, 29, 31, 37, 41, 43, 47, 53, 59, 61, 67, 71,
     73, 79, 83, 89, 97, 101, 103, 107, 109, 113, 127, 131, 137, 139, 149, 151, 157, 163, 167, 173,
     179, 181, 191, 193, 197, 199, 211, 223, 227, 229, 233, 239, 241, 251, 257, 263, 269, 271, 277, 281,
     283, 293, 307, 311, 313, 317, 331, 337, 347, 349, 353, 359, 367, 373, 379, 383, 389, 397, 401, 409]"

text \<open>The first bits of the fractional part of a root.\<close>

definition root_bits :: "nat \<Rightarrow> nat \<Rightarrow> 'w::len word" where
  "root_bits k p = of_int \<lfloor>root k (real p) * 2 ^ LENGTH('w)\<rfloor>"

definition fips256 :: "u32 sha2_parts" where
  "fips256 =
     \<lparr>Sigma0 = \<lambda>x. word_rotr 2 x XOR word_rotr 13 x XOR word_rotr 22 x,
      Sigma1 = \<lambda>x. word_rotr 6 x XOR word_rotr 11 x XOR word_rotr 25 x,
      sigma0 = \<lambda>x. word_rotr 7 x XOR word_rotr 18 x XOR drop_bit 3 x,
      sigma1 = \<lambda>x. word_rotr 17 x XOR word_rotr 19 x XOR drop_bit 10 x,
      round_constants = map (root_bits 3) (take 64 first_primes), start_state = map (root_bits 2) (take 8 first_primes)\<rparr>"

definition fips512 :: "u64 sha2_parts" where
  "fips512 =
     \<lparr>Sigma0 = \<lambda>x. word_rotr 28 x XOR word_rotr 34 x XOR word_rotr 39 x,
      Sigma1 = \<lambda>x. word_rotr 14 x XOR word_rotr 18 x XOR word_rotr 41 x,
      sigma0 = \<lambda>x. word_rotr 1 x XOR word_rotr 8 x XOR drop_bit 7 x,
      sigma1 = \<lambda>x. word_rotr 19 x XOR word_rotr 61 x XOR drop_bit 6 x,
      round_constants = map (root_bits 3) first_primes, start_state = map (root_bits 2) (take 8 first_primes)\<rparr>"

fun fips_w :: "('w::len word, 'z) sha2_parts_scheme \<Rightarrow> 'w word list \<Rightarrow> nat \<Rightarrow> 'w word" where
  "fips_w p M t =
     (if t < 16 then M ! t
      else sigma1 p (fips_w p M (t - 2)) + fips_w p M (t - 7) + sigma0 p (fips_w p M (t - 15)) + fips_w p M (t - 16))"

declare fips_w.simps [simp del]

fun fips_round :: "('w::len word, 'z) sha2_parts_scheme \<Rightarrow> 'w word \<Rightarrow> 'w word \<Rightarrow> 'w word list \<Rightarrow> 'w word list" where
  "fips_round p K W [a, b, c, d, e, f, g, h] =
     (let T1 = h + Sigma1 p e + fips_Ch e f g + K + W; T2 = Sigma0 p a + fips_Maj a b c
      in [T1 + T2, a, b, c, d + T1, e, f, g])"
| "fips_round p K W v = v"

definition fips_compress :: "('w::len word, 'z) sha2_parts_scheme \<Rightarrow> 'w word list \<Rightarrow> bytes \<Rightarrow> 'w word list" where
  "fips_compress p H block =
     (let n = LENGTH('w) div 8;
          M = map (\<lambda>j. word_rcat (take n (drop (n * j) block))) [0..<16]
      in map2 (+) H (fold (\<lambda>t. fips_round p (round_constants p ! t) (fips_w p M t)) [0..<length (round_constants p)] H))"

function sha2_blocks :: "nat \<Rightarrow> bytes \<Rightarrow> bytes list" where
  "sha2_blocks sz data = (if 0 < sz \<and> sz \<le> length data then take sz data # sha2_blocks sz (drop sz data) else [])"
  by pat_completeness auto
termination by (relation "measure (\<lambda>(sz, data). length data)") auto

declare sha2_blocks.simps [simp del]

text \<open>A one bit, as few zeros as fill the last block, and the number of bits.\<close>

definition fips_pad :: "nat \<Rightarrow> bytes \<Rightarrow> bytes" where
  "fips_pad n m =
     m @ [0x80] @ replicate (nat (- int (length m + 1 + 2 * n) mod int (16 * n))) 0 @
     rev (map (\<lambda>i. of_nat (8 * length m div 256 ^ i)) [0..<2 * n])"

definition fips_sha :: "('w::len word, 'z) sha2_parts_scheme \<Rightarrow> bytes \<Rightarrow> bytes" where
  "fips_sha p m =
     (let n = LENGTH('w) div 8
      in concat (map (\<lambda>w. rev (store_word w)) (foldl (fips_compress p) (start_state p) (sha2_blocks (16 * n) (fips_pad n m)))))"

section \<open>The constants\<close>

lemma root_bitsI:
  assumes "0 < k" and "c ^ k \<le> p * 2 ^ (LENGTH('w) * k)" and "p * 2 ^ (LENGTH('w) * k) < (c + 1) ^ k"
  shows "root_bits k p = (of_nat c :: 'w::len word)"
proof -
  let ?x = "root k (real p) * 2 ^ LENGTH('w)"
  have x: "0 \<le> ?x" "?x ^ k = real (p * 2 ^ (LENGTH('w) * k))" using assms(1)
    by (simp_all add: power_mult_distrib power_mult)
  have "real c ^ k \<le> ?x ^ k" "?x ^ k < real (c + 1) ^ k" unfolding x(2) of_nat_power [symmetric] of_nat_le_iff of_nat_less_iff
    using assms(2,3) by simp_all
  then have "real c \<le> ?x" "?x < real (c + 1)" using power_less_imp_less_base power_le_imp_le_base x(1) assms(1)
    by (metis Suc_pred of_nat_0_le_iff, metis of_nat_0_le_iff)
  then have "\<lfloor>?x\<rfloor> = int c" by (intro floor_unique) simp_all
  then show ?thesis by (simp add: root_bits_def)
qed

lemma roots_map:
  assumes "m = 2 ^ (LENGTH('w) * k)" and "list_all2 (\<lambda>p c. c ^ k \<le> p * m \<and> p * m < (c + 1) ^ k) ps cs" and "0 < k"
  shows "map (root_bits k) ps = (map of_nat cs :: 'w::len word list)"
  using assms(2,3) unfolding assms(1) by (induction rule: list_all2_induct) (auto intro: root_bitsI)

lemma rotation:
  fixes x :: "'w::len word"
  assumes "n + m = LENGTH('w)" and "0 < m"
  shows "drop_bit n x OR push_bit m x = word_rotr n x"
proof (rule bit_word_eqI)
  fix i assume "i < LENGTH('w)"
  have "(i + n) mod LENGTH('w) = (if i + n < LENGTH('w) then i + n else i + n - LENGTH('w))"
    using assms \<open>i < LENGTH('w)\<close> by (auto simp: mod_if)
  moreover have "i + n - LENGTH('w) = i - m" using assms by linarith
  ultimately show "bit (drop_bit n x OR push_bit m x) i \<longleftrightarrow> bit (word_rotr n x) i"
    using assms \<open>i < LENGTH('w)\<close>
    by (auto simp: bit_word_rotr_iff bit_or_iff bit_drop_bit_eq bit_push_bit_iff ac_simps dest: bit_imp_le_length)
qed

lemma sha256_K_roots: "sha256_K = map (root_bits 3) (take 64 first_primes)"
proof -
  have "map (root_bits 3) (take 64 first_primes) = (map of_nat
    [5411319704, 6194414737, 7344290767, 8215976869, 9551921755, 10098905585, 11043570340, 11460697813,
     12214315672, 13195500289, 13492127166, 14311783875, 14809980276, 15046980094, 15499789991, 16133124468,
     16720292289, 16907126662, 17444216262, 17784676812, 17950125167, 18429019306, 18734950876, 19175934170,
     19734090066, 20001703533, 20132865992, 20390182855, 20516441075, 20764397895, 21588763473, 21813078375,
     22141143685, 22248366392, 22769593852, 22871018771, 23170020180, 23461497531, 23651862830, 23931792517,
     24205322401, 24295138891, 24734567280, 24820601251, 24990902297, 25075189284, 25569408389, 26045227120,
     26200031510, 26276752392, 26428864332, 26653801653, 26727943347, 27092625994, 27306805839, 27517677555,
     27725365998, 27793908591, 27997534228, 28131656200, 28198240250, 28526537963, 28973835255, 29099129074] :: u32 list)"
    by (rule roots_map [where m = 79228162514264337593543950336]) (simp_all add: first_primes_def)
  then show ?thesis by (simp add: sha256_K_def)
qed

lemma roots_append:
  "map (root_bits k) ps = (map of_nat cs :: 'w::len word list) \<Longrightarrow> map (root_bits k) ps' = (map of_nat cs' :: 'w word list) \<Longrightarrow>
   map (root_bits k) (ps @ ps') = (map of_nat (cs @ cs') :: 'w word list)"
  by simp

lemma sha512_roots_0: "map (root_bits 3)
    [2, 3, 5, 7, 11, 13, 17, 19, 23, 29, 31, 37, 41, 43, 47, 53, 59, 61, 67, 71] = (map of_nat
    [23241441160490167842, 26604808713878332877, 31543488660544240431, 35287351959220771772,
     41025191555757552952, 43374469216020582425, 47431773444313272219, 49223322299838333208,
     52460086356995146306, 56674242196778545086, 57948244932766773900, 61468643694135456994,
     63608380943893236079, 64626287408284341937, 66571091106846937653, 69291241975837173396,
     71813108563482594002, 72615556083564357091, 74922338351982630325, 76384605279477341285] :: u64 list)"
  by (rule roots_map [where m = 6277101735386680763835789423207666416102355444464034512896]) simp_all

lemma sha512_roots_1: "map (root_bits 3)
    [73, 79, 83, 89, 97, 101, 103, 107, 109, 113, 127, 131, 137, 139, 149, 151, 157, 163, 167, 173] = (map of_nat
    [77095200552867529333, 79152035218479047811, 80466001307761769428, 82360010132597855157,
     84757271453788200875, 85906662539289440784, 86470001012957192511, 87575168524888248036,
     88117443448470540226, 89182409882623190821, 92723033081372705391, 93686458245878541936,
     95095488024300105724, 95556006044611561766, 97794660939065469677, 98230277650290947039,
     99514478923103560670, 100766364611844223656, 101583977345534766822, 102786266195516601659] :: u64 list)"
  by (rule roots_map [where m = 6277101735386680763835789423207666416102355444464034512896]) simp_all

lemma sha512_roots_2: "map (root_bits 3)
    [179, 181, 191, 193, 197, 199, 211, 223, 227, 229, 233, 239, 241, 251, 257, 263, 269, 271, 277, 281] = (map of_nat
    [103961068102722061156, 104346826991781163009, 106234157551817627537, 106603670640207904304,
     107335108066752287256, 107697117917222381840, 109819772810290077738, 111863398698143437240,
     112528278492720320712, 112857792170093030227, 113511107980111571865, 114477206417490790568,
     114795642568024087139, 116361942610802215627, 117281838038729876339, 118187525164200278179,
     119079540232616391420, 119373928427484032864, 120248493880617511794, 120824543361758411244] :: u64 list)"
  by (rule roots_map [where m = 6277101735386680763835789423207666416102355444464034512896]) simp_all

lemma sha512_roots_3: "map (root_bits 3)
    [283, 293, 307, 311, 313, 317, 331, 337, 347, 349, 353, 359, 367, 373, 379, 383, 389, 397, 401, 409] = (map of_nat
    [121110519679094562344, 122520547622920568297, 124441674862916172053, 124979807718728684331,
     125247145020423037340, 125778422408467759623, 127603441353585912606, 128369846764518166904,
     129627222056361226170, 129875788766833580198, 130370087684295691694, 131104582549941012251,
     132071287192121802116, 132787134709014930579, 133495346155087314620, 133963344184962190668,
     134659270149180113590, 135576127461610847786, 136029942151059536620, 136928597060811708439] :: u64 list)"
  by (rule roots_map [where m = 6277101735386680763835789423207666416102355444464034512896]) simp_all

lemma sha512_K_roots: "sha512_K = map (root_bits 3) first_primes"
  using roots_append [OF sha512_roots_0 roots_append [OF sha512_roots_1 roots_append [OF sha512_roots_2 sha512_roots_3]]]
  by (simp add: sha512_K_def first_primes_def)

lemma start_roots:
  "SHA256_INIT = map (root_bits 2) (take 8 first_primes)" "SHA512_INIT = map (root_bits 2) (take 8 first_primes)"
proof -
  have "map (root_bits 2) (take 8 first_primes) = (map of_nat
    [6074000999, 7439101573, 9603838834, 11363415354, 14244795007, 15485724812, 17708603819, 18721328409] :: u32 list)"
    by (rule roots_map [where m = 18446744073709551616]) (simp_all add: first_primes_def)
  then show "SHA256_INIT = map (root_bits 2) (take 8 first_primes)" by (simp add: SHA256_INIT_def)
  have "map (root_bits 2) (take 8 first_primes) = (map of_nat
    [26087635650665564424, 31950697969885030203, 41248173712355948587, 48805497317890012913,
     61180928696206656209, 66510681623121259551, 76057874264641092971, 80407493254657745273] :: u64 list)"
    by (rule roots_map [where m = 340282366920938463463374607431768211456]) (simp_all add: first_primes_def)
  then show "SHA512_INIT = map (root_bits 2) (take 8 first_primes)" by (simp add: SHA512_INIT_def)
qed

lemma code_is_fips:
  "sha2_parts.truncate sha256_code = fips256" "sha2_parts.truncate sha512_code = fips512"
  by (simp_all add: sha2_parts.truncate_def sha256_code_def sha512_code_def fips256_def fips512_def rotation
      sha256_K_roots sha512_K_roots start_roots)

end
