(* ===== verification/Sha2Props.thy ===== *)
theory Sha2Props
  imports Sha2Standard
begin

text \<open>
  The code of SHA-256 and SHA-512 meets the standard: one chunk is one compression, and a message that arrives in any
  pieces is digested as if it had been padded and cut into blocks at once. The buffering is proved once, in a locale
  over the chunk size and the transformation, and interpreted for both.
\<close>

section \<open>Words in memory\<close>

lemma bit_load_word:
  "bit (load_word bs :: 'w::len word) i \<longleftrightarrow> i < LENGTH('w) \<and> i div 8 < length bs \<and> bit (bs ! (i div 8)) (i mod 8)"
  by (simp add: load_word_def word_rcat_def bit_simps bit_horner_sum_uint_exp_iff [where 'a = 8, simplified])

lemma bswap_32_bits: "i < 32 \<Longrightarrow> bit (bswap_32 v) i \<longleftrightarrow> bit v (8 * (3 - i div 8) + i mod 8)"
proof -
  assume "i < 32"
  moreover have "[0..<32] = 0 # 1 # [2..<32]" by (simp add: upt_conv_Cons)
  then have "\<forall>i\<in>set [0..<32]. bit (bswap_32 v) i \<longleftrightarrow> bit v (8 * (3 - i div 8) + i mod 8)"
    by (simp only:) (simp add: bswap_32_def bit_simps, simp add: numeral_2_eq_2)
  ultimately show ?thesis by simp
qed

lemma bswap_64_bits: "i < 64 \<Longrightarrow> bit (bswap_64 v) i \<longleftrightarrow> bit v (8 * (7 - i div 8) + i mod 8)"
proof -
  assume "i < 64"
  moreover have "[0..<64] = 0 # 1 # [2..<64]" by (simp add: upt_conv_Cons)
  then have "\<forall>i\<in>set [0..<64]. bit (bswap_64 v) i \<longleftrightarrow> bit v (8 * (7 - i div 8) + i mod 8)"
    by (simp only:) (simp add: bswap_64_def bit_simps, simp add: numeral_2_eq_2)
  ultimately show ?thesis by simp
qed

definition swaps :: "('w::len word \<Rightarrow> 'w word) \<Rightarrow> bool" where
  "swaps f \<longleftrightarrow> 8 dvd LENGTH('w) \<and> (\<forall>v i. i < LENGTH('w) \<longrightarrow> bit (f v) i = bit v (8 * (LENGTH('w) div 8 - 1 - i div 8) + i mod 8))"

lemma bswap_swaps: "swaps bswap_32" "swaps bswap_64"
  by (simp_all add: swaps_def bswap_32_bits bswap_64_bits)

lemma mirror_byte:
  fixes i n L :: nat
  assumes "i < L" and "8 dvd L" and "n = L div 8"
  shows "i div 8 < n" "8 * (n - 1 - i div 8) + i mod 8 < L" "(8 * (n - 1 - i div 8) + i mod 8) div 8 = n - 1 - i div 8"
    "(8 * (n - 1 - i div 8) + i mod 8) mod 8 = i mod 8"
proof -
  show "i div 8 < n" using assms by (auto simp: less_mult_imp_div_less)
  then show "8 * (n - 1 - i div 8) + i mod 8 < L" using assms by (auto elim!: dvdE) (metis)?
  show "(8 * (n - 1 - i div 8) + i mod 8) div 8 = n - 1 - i div 8" "(8 * (n - 1 - i div 8) + i mod 8) mod 8 = i mod 8" by simp_all
qed

lemma swap_load:
  fixes f :: "'w::len word \<Rightarrow> 'w word"
  assumes "swaps f" and "length bs = LENGTH('w) div 8"
  shows "f (load_word bs) = word_rcat bs"
proof (rule bit_word_eqI)
  fix i assume i: "i < LENGTH('w)"
  have rcat: "word_rcat bs = (load_word (rev bs) :: 'w word)" by (simp add: load_word_def)
  note m = mirror_byte [OF i, of "LENGTH('w) div 8"]
  show "bit (f (load_word bs)) i \<longleftrightarrow> bit (word_rcat bs :: 'w word) i"
    using assms i m by (simp add: swaps_def rcat bit_load_word rev_nth)
qed

lemma store_swap:
  fixes f :: "'w::len word \<Rightarrow> 'w word"
  assumes "swaps f"
  shows "store_word (f w) = rev (store_word w)"
proof (rule nth_equalityI)
  show "length (store_word (f w)) = length (rev (store_word w))" by (simp add: store_word_def)
  fix i assume "i < length (store_word (f w))"
  then have i: "i < LENGTH('w) div 8" by (simp add: store_word_def)
  have w: "8 dvd LENGTH('w)" using assms by (simp add: swaps_def)
  show "store_word (f w) ! i = rev (store_word w) ! i"
  proof (rule bit_word_eqI)
    fix j assume j: "j < LENGTH(8)"
    then have "8 * i + j < LENGTH('w)" "8 * (LENGTH('w) div 8 - 1 - i) + j < LENGTH('w)" using i w by (auto elim!: dvdE)
    moreover have "(8 * i + j) div 8 = i" "(8 * i + j) mod 8 = j" using j by simp_all
    ultimately show "bit (store_word (f w) ! i) j \<longleftrightarrow> bit (rev (store_word w) ! i) j"
      using assms i j by (simp add: swaps_def store_word_def rev_nth bit_simps)
  qed
qed

lemma length_store_word: "length (store_word (w :: 'w::len word)) = LENGTH('w) div 8"
  by (simp add: store_word_def)

section \<open>One chunk\<close>

lemma Ch_fips: "Ch x y z = fips_Ch x y z"
  by (rule bit_word_eqI) (auto simp: Ch_def fips_Ch_def bit_simps)

lemma Maj_fips: "Maj x y z = fips_Maj x y z"
  by (rule bit_word_eqI) (auto simp: Maj_def fips_Maj_def bit_simps)

lemma eight: "length v = 8 \<Longrightarrow> v = [v ! 0, v ! 1, v ! 2, v ! 3, v ! 4, v ! 5, v ! 6, v ! 7]"
  by (rule nth_equalityI) (auto simp: less_Suc_eq numeral_eq_Suc)

text \<open>The registers in the order line \<open>i\<close> names them.\<close>

definition lined_up :: "nat \<Rightarrow> 'w list \<Rightarrow> 'w list" where
  "lined_up i r = map (\<lambda>j. r ! sha2_reg i j) [0..<8]"

lemma lined_up_values:
  "lined_up i r = [r ! sha2_reg i 0, r ! sha2_reg i 1, r ! sha2_reg i 2, r ! sha2_reg i 3,
     r ! sha2_reg i 4, r ! sha2_reg i 5, r ! sha2_reg i 6, r ! sha2_reg i 7]"
  by (simp add: lined_up_def upt_conv_Cons numeral_eq_Suc)

lemma Round_fips:
  assumes "length r = 8"
  shows "lined_up (Suc i) (Round h i k w r) = fips_round h k w (lined_up i r)" and "length (Round h i k w r) = 8"
proof -
  obtain a b c d e f g x where r: "r = [a, b, c, d, e, f, g, x]" using eight [OF assms] by blast
  have "i mod 8 < 8" by simp
  then consider "i mod 8 = 0" | "i mod 8 = 1" | "i mod 8 = 2" | "i mod 8 = 3" | "i mod 8 = 4" | "i mod 8 = 5" | "i mod 8 = 6" | "i mod 8 = 7"
    by linarith
  then show "lined_up (Suc i) (Round h i k w r) = fips_round h k w (lined_up i r)"
    by cases (simp_all add: r lined_up_values Round_def sha2_reg_def mod_Suc Ch_fips Maj_fips Let_def)
  show "length (Round h i k w r) = 8" using assms by (simp add: Round_def Let_def)
qed

text \<open>After \<open>i\<close> lines the words are the last 16 of the schedule.\<close>

definition words_at :: "('w::len word, 'z) sha2_parts_scheme \<Rightarrow> 'w word list \<Rightarrow> nat \<Rightarrow> 'w word list \<Rightarrow> bool" where
  "words_at p M i w \<longleftrightarrow> length w = 16 \<and> (\<forall>t < max i 16. max i 16 \<le> t + 16 \<longrightarrow> w ! (t mod 16) = fips_w p M t)"

lemma line_fips:
  assumes "length r = 8" and w: "words_at h M i w" and line: "sha2_line h i (r, w) = (r', w')"
  shows "lined_up (Suc i) r' = fips_round h (round_constants h ! i) (fips_w h M i) (lined_up i r)" and "length r' = 8" and "words_at h M (Suc i) w'"
proof -
  have len: "length w = 16" and vals: "\<And>t. t < max i 16 \<Longrightarrow> max i 16 \<le> t + 16 \<Longrightarrow> w ! (t mod 16) = fips_w h M t"
    using w by (auto simp: words_at_def)
  have "w' ! (i mod 16) = fips_w h M i \<and> words_at h M (Suc i) w'"
  proof (cases "i < 16")
    case True
    then show ?thesis using w line vals [of i] by (auto simp: sha2_line_def words_at_def Let_def)
  next
    case False
    have idx: "(i + 14) mod 16 = (i - 2) mod 16" "(i + 9) mod 16 = (i - 7) mod 16" "Suc i mod 16 = (i - 15) mod 16" "i mod 16 = (i - 16) mod 16"
      using False mod_add_self2 [of "i - 2" 16] mod_add_self2 [of "i - 7" 16] mod_add_self2 [of "i - 15" 16] mod_add_self2 [of "i - 16" 16]
      by (simp_all add: add.commute)
    have "w ! ((i - 2) mod 16) = fips_w h M (i - 2)" "w ! ((i - 7) mod 16) = fips_w h M (i - 7)"
      "w ! ((i - 15) mod 16) = fips_w h M (i - 15)" "w ! ((i - 16) mod 16) = fips_w h M (i - 16)"
      by (rule vals; use False in simp)+
    then have new: "w' = w[i mod 16 := fips_w h M i]" using line False
      by (simp add: sha2_line_def Let_def idx fips_w.simps [of h M i] add_ac)
    moreover have "w' ! (t mod 16) = fips_w h M t" if "t < Suc i" "Suc i \<le> t + 16" for t
    proof (cases "t = i")
      case False
      then have "t mod 16 \<noteq> i mod 16" using that mod_eq_dvd_iff_nat [of t i 16] by (auto dest: dvd_imp_le)
      then show ?thesis using vals [of t] False that \<open>\<not> i < 16\<close> by (simp add: new)
    qed (use len in \<open>simp add: new\<close>)
    ultimately show ?thesis using len False by (auto simp: words_at_def max_def)
  qed
  moreover from this have "r' = Round h i (round_constants h ! i) (fips_w h M i) r"
    using line by (auto simp: sha2_line_def Let_def)
  ultimately show "lined_up (Suc i) r' = fips_round h (round_constants h ! i) (fips_w h M i) (lined_up i r)" "length r' = 8" "words_at h M (Suc i) w'"
    using Round_fips [OF assms(1)] by simp_all
qed

lemma fold_lines:
  assumes "length s = 8" and "length M = 16"
  shows "\<exists>r w. fold (sha2_line h) [0..<n] (s, M) = (r, w) \<and> length r = 8 \<and> words_at h M n w \<and>
    lined_up n r = fold (\<lambda>t. fips_round h (round_constants h ! t) (fips_w h M t)) [0..<n] s"
proof (induction n)
  case 0
  have "M ! (t mod 16) = fips_w h M t" if "t < 16" for t using that by (simp add: fips_w.simps)
  then show ?case using assms eight [OF assms(1)] by (simp add: words_at_def lined_up_values sha2_reg_def)
next
  case (Suc n)
  then obtain r w where IH: "fold (sha2_line h) [0..<n] (s, M) = (r, w)" "length r = 8" "words_at h M n w"
    "lined_up n r = fold (\<lambda>t. fips_round h (round_constants h ! t) (fips_w h M t)) [0..<n] s" by blast
  obtain r' w' where line: "sha2_line h n (r, w) = (r', w')" by fastforce
  show ?case using line_fips [OF IH(2,3) line] IH(1,4) line by simp
qed

lemma lined_up_whole: "length r = 8 \<Longrightarrow> n mod 8 = 0 \<Longrightarrow> lined_up n r = r"
  using eight [of r] by (simp add: lined_up_values sha2_reg_def)

lemma fips_w_cong:
  "sigma0 p = sigma0 q \<Longrightarrow> sigma1 p = sigma1 q \<Longrightarrow> fips_w p M t = fips_w q M t"
  by (induction q M t rule: fips_w.induct) (simp add: fips_w.simps)

lemma fips_round_cong:
  "Sigma0 p = Sigma0 q \<Longrightarrow> Sigma1 p = Sigma1 q \<Longrightarrow> fips_round p K W v = fips_round q K W v"
  by (induction q K W v rule: fips_round.induct) simp_all

lemma compress_truncate:
  fixes p :: "('w::len word, 'z) sha2_parts_scheme"
  shows "fips_compress (sha2_parts.truncate p) = fips_compress p"
proof -
  have "fips_w (sha2_parts.truncate p) M t = fips_w p M t" for M t
    by (rule fips_w_cong) (simp_all add: sha2_parts.truncate_def)
  moreover have "fips_round (sha2_parts.truncate p) = fips_round p"
    by (intro ext, rule fips_round_cong) (simp_all add: sha2_parts.truncate_def)
  moreover have "round_constants (sha2_parts.truncate p) = round_constants p" by (simp add: sha2_parts.truncate_def)
  ultimately show ?thesis by (intro ext) (simp add: fips_compress_def Let_def)
qed

lemma Transform_fips:
  fixes h :: "('w::len word, 'z) sha2_scheme"
  assumes "length s = 8" and "length chunk = chunk_size TYPE('w)" and "swaps (bswap h)" and "8 dvd length (round_constants h)"
  shows "Transform h s chunk = fips_compress h s chunk" and "length (Transform h s chunk) = 8"
proof -
  let ?n = "LENGTH('w) div 8" and ?k = "length (round_constants h)"
  have fits: "?n * j + ?n \<le> length chunk" if "j < 16" for j
  proof -
    have "?n * Suc j \<le> ?n * 16" using that by (intro mult_le_mono2) simp
    then show ?thesis using assms(2) by (simp add: chunk_size_def word_bytes_def algebra_simps)
  qed
  have "length (take ?n (drop (?n * j) chunk)) = ?n" if "j < 16" for j
    using fits [OF that] unfolding length_take length_drop by linarith
  then have words: "chunk_words h chunk = map (\<lambda>j. word_rcat (take ?n (drop (?n * j) chunk))) [0..<16]"
    using swap_load [OF assms(3)] by (auto simp: chunk_words_def word_bytes_def)
  have "length (chunk_words h chunk) = 16" by (simp add: chunk_words_def)
  from fold_lines [OF assms(1) this, of h ?k] obtain r w where fold: "fold (sha2_line h) [0..<?k] (s, chunk_words h chunk) = (r, w)"
    "length r = 8" "lined_up ?k r = fold (\<lambda>t. fips_round h (round_constants h ! t) (fips_w h (chunk_words h chunk) t)) [0..<?k] s" by blast
  moreover have "lined_up ?k r = r" using assms(4) by (intro lined_up_whole fold(2)) (auto elim: dvdE)
  ultimately show "Transform h s chunk = fips_compress h s chunk" "length (Transform h s chunk) = 8"
    using assms(1) by (simp_all add: Transform_def fips_compress_def Let_def words)
qed

section \<open>Buffering\<close>

lemma sha2_blocks_append: "sz dvd length xs \<Longrightarrow> sha2_blocks sz (xs @ ys) = sha2_blocks sz xs @ sha2_blocks sz ys"
proof (induction sz xs rule: sha2_blocks.induct)
  case (1 sz xs)
  show ?case
  proof (cases "0 < sz \<and> sz \<le> length xs")
    case True
    have "sz dvd length (drop sz xs)" using 1(2) True by (simp add: dvd_diff_nat)
    then show ?thesis using 1(1) True by (simp add: sha2_blocks.simps [of sz "xs @ ys"] sha2_blocks.simps [of sz xs])
  next
    case False
    then have "sz = 0 \<or> length xs = 0" using 1(2) by (auto dest: dvd_imp_le)
    then show ?thesis using 1(2) by (auto simp: sha2_blocks.simps [of 0] sha2_blocks.simps [of _ "[]"])
  qed
qed

lemma sha2_blocks_short: "length b < sz \<Longrightarrow> sha2_blocks sz b = []"
  by (simp add: sha2_blocks.simps [of sz b])

lemma blocks_one: "0 < sz \<Longrightarrow> length b = sz \<Longrightarrow> sha2_blocks sz b = [b]"
  by (simp add: sha2_blocks.simps [of sz b] sha2_blocks_short)

definition sha2_state :: "nat \<Rightarrow> ('w list \<Rightarrow> bytes \<Rightarrow> 'w list) \<Rightarrow> 'w list \<Rightarrow> bytes \<Rightarrow> 'w list" where
  "sha2_state sz transform start m = foldl transform start (sha2_blocks sz m)"

text \<open>The context holds a message: its whole blocks are in the state and the rest is in the buffer.\<close>

definition sha2_holds :: "nat \<Rightarrow> ('w list \<Rightarrow> bytes \<Rightarrow> 'w list) \<Rightarrow> 'w list \<Rightarrow> 'w sha2_ctx \<Rightarrow> bytes \<Rightarrow> bool" where
  "sha2_holds sz transform start ctx m \<longleftrightarrow>
     (\<exists>front tail. m = front @ tail \<and> sz dvd length front \<and> length tail < sz \<and> sha2_s ctx = sha2_state sz transform start front \<and>
        length (sha2_buf ctx) = sz \<and> take (length tail) (sha2_buf ctx) = tail \<and> sha2_bytes ctx = of_nat (length m))"

locale chunked =
  fixes sz :: nat and transform :: "'w list \<Rightarrow> bytes \<Rightarrow> 'w list" and start :: "'w list"
  assumes size_pos: "0 < sz" and size_fits: "sz dvd 2 ^ 32"
begin

lemma state_append: "sz dvd length xs \<Longrightarrow> length b = sz \<Longrightarrow> sha2_state sz transform start (xs @ b) = transform (sha2_state sz transform start xs) b"
  using size_pos by (simp add: sha2_state_def sha2_blocks_append blocks_one)

lemma chunks_taken:
  "sz dvd length front \<Longrightarrow> sha2_s ctx = sha2_state sz transform start front \<Longrightarrow> sha2_bytes ctx = of_nat (length front) \<Longrightarrow>
   \<exists>front' rest ctx'. sha2_chunks sz transform data ctx = (rest, ctx') \<and> front @ data = front' @ rest \<and> sz dvd length front' \<and> length rest < sz \<and>
     sha2_s ctx' = sha2_state sz transform start front' \<and> sha2_bytes ctx' = of_nat (length front') \<and> sha2_buf ctx' = sha2_buf ctx"
proof (induction "length data" arbitrary: data front ctx rule: less_induct)
  case less
  show ?case
  proof (cases "sz \<le> length data")
    case True
    let ?front = "front @ take sz data"
    let ?ctx = "ctx\<lparr>sha2_s := transform (sha2_s ctx) (take sz data), sha2_bytes := sha2_bytes ctx + of_nat sz\<rparr>"
    have "length (drop sz data) < length data" using True size_pos by simp
    moreover have "sz dvd length ?front" using True less.prems(1) by simp
    moreover have "sha2_s ?ctx = sha2_state sz transform start ?front" using True less.prems by (simp add: state_append)
    moreover have "sha2_bytes ?ctx = of_nat (length ?front)" using True less.prems(3) by simp
    ultimately obtain front' rest ctx' where "sha2_chunks sz transform (drop sz data) ?ctx = (rest, ctx')" "?front @ drop sz data = front' @ rest"
      "sz dvd length front'" "length rest < sz" "sha2_s ctx' = sha2_state sz transform start front'" "sha2_bytes ctx' = of_nat (length front')"
      "sha2_buf ctx' = sha2_buf ?ctx" using less.hyps [of "drop sz data" ?front ?ctx] by blast
    moreover from this(2) have "front @ data = front' @ rest" by simp
    ultimately show ?thesis using True size_pos by (simp add: sha2_chunks.simps [of sz transform data ctx])
  next
    case False
    then show ?thesis using less.prems by (simp add: sha2_chunks.simps [of sz transform data ctx])
  qed
qed

lemma add_holds:
  assumes "sha2_holds sz transform start ctx m"
  shows "sha2_holds sz transform start (sha2_add sz transform data ctx) (m @ data)"
proof -
  obtain front tail where m: "m = front @ tail" "sz dvd length front" "length tail < sz" "sha2_s ctx = sha2_state sz transform start front"
    "length (sha2_buf ctx) = sz" "take (length tail) (sha2_buf ctx) = tail" "sha2_bytes ctx = of_nat (length m)"
    using assms unfolding sha2_holds_def by blast
  have "unat (sha2_bytes ctx) mod sz = length m mod sz" using m(7) size_fits by (simp add: unat_of_nat mod_mod_cancel)
  then have used: "unat (sha2_bytes ctx) mod sz = length tail" using m(1,2,3) by (auto elim: dvdE)
  show ?thesis
  proof (cases "length tail + length data \<ge> sz")
    case True
    let ?k = "sz - length tail"
    let ?block = "tail @ take ?k data"
    let ?ctx = "ctx\<lparr>sha2_buf := ?block, sha2_bytes := sha2_bytes ctx + of_nat ?k, sha2_s := transform (sha2_s ctx) ?block\<rparr>"
    have block: "length ?block = sz" "buf_write (sha2_buf ctx) (length tail) (take ?k data) = ?block"
      using True m(3,5,6) by (simp_all add: buf_write_def)
    have "sz dvd length (front @ ?block)" using m(2) block(1) by simp
    moreover have "sha2_s ?ctx = sha2_state sz transform start (front @ ?block)" using m(2,4) block(1) by (simp add: state_append)
    moreover have "sha2_bytes ?ctx = of_nat (length (front @ ?block))" using m(1,7) True by (simp add: add.assoc flip: of_nat_add)
    ultimately obtain front' rest ctx' where rest: "sha2_chunks sz transform (drop ?k data) ?ctx = (rest, ctx')"
      "(front @ ?block) @ drop ?k data = front' @ rest" "sz dvd length front'" "length rest < sz"
      "sha2_s ctx' = sha2_state sz transform start front'" "sha2_bytes ctx' = of_nat (length front')" "sha2_buf ctx' = sha2_buf ?ctx"
      using chunks_taken [of "front @ ?block" ?ctx "drop ?k data"] by blast
    have whole: "m @ data = front' @ rest" using rest(2) m(1) by simp
    have add: "sha2_add sz transform data ctx =
      (if rest \<noteq> [] then ctx'\<lparr>sha2_buf := buf_write (sha2_buf ctx') 0 rest, sha2_bytes := sha2_bytes ctx' + of_nat (length rest)\<rparr> else ctx')"
      using True rest(1) block(2) by (simp add: sha2_add_def Let_def used)
    have "length (sha2_buf ctx') = sz" using rest(7) block(1) by simp
    then show ?thesis unfolding sha2_holds_def whole add
      using rest(3-6) by (intro exI [of _ front'] exI [of _ rest]) (auto simp: buf_write_def)
  next
    case False
    then have "sha2_chunks sz transform data ctx = (data, ctx)" by (simp add: sha2_chunks.simps [of sz transform data ctx])
    then have add: "sha2_add sz transform data ctx =
      (if data \<noteq> [] then ctx\<lparr>sha2_buf := buf_write (sha2_buf ctx) (length tail) data, sha2_bytes := sha2_bytes ctx + of_nat (length data)\<rparr> else ctx)"
      using False by (simp add: sha2_add_def Let_def used)
    show ?thesis unfolding sha2_holds_def add
      using False m by (intro exI [of _ front] exI [of _ "tail @ data"]) (auto simp: buf_write_def)
  qed
qed

end

text \<open>A message in pieces.\<close>

definition sha2_pieces :: "('w::len word, 'z) sha2_scheme \<Rightarrow> bytes list \<Rightarrow> bytes option" where
  "sha2_pieces h ps =
     map_option (\<lambda>ctx. fst (sha2_done h ctx)) (foldl (\<lambda>ctx data. Option.bind ctx (sha2_update h data)) (Some (sha2_init h)) ps)"

section \<open>The padding\<close>

lemma byte_of_word: "ucast (drop_bit (8 * k) x) = (of_nat (unat x div 256 ^ k) :: u8)" for x :: "'w::len word"
proof -
  have "ucast (drop_bit (8 * k) x) = (of_nat (unat (drop_bit (8 * k) x)) :: u8)" by simp
  also have "unat (drop_bit (8 * k) x) = drop_bit (8 * k) (unat x)" by (simp only: unsigned_drop_bit_eq take_bit_nat_eq_self [OF unsigned_less])
  also have "\<dots> = unat x div 256 ^ k" by (simp only: drop_bit_eq_div) (simp add: power_mult)
  finally show ?thesis .
qed

lemma sha2_length_field:
  assumes "n < 2 ^ 32" and "8 \<le> k"
  shows "replicate (k - 8) 0 @ store_word (bswap_64 (push_bit 3 (ucast (of_nat n :: u32)))) = rev (map (\<lambda>i. of_nat (8 * n div 256 ^ i)) [0..<k])"
proof -
  let ?x = "push_bit 3 (ucast (of_nat n :: u32)) :: u64"
  have "unat (ucast (of_nat n :: u32) :: u64) = n" using assms(1) by (simp add: unsigned_ucast_eq unat_of_nat take_bit_nat_eq_self)
  then have x: "unat ?x = 8 * n" using assms(1) by (simp add: push_bit_eq_mult unat_word_ariths)
  have low: "ucast (drop_bit (8 * i) ?x) = (of_nat (8 * n div 256 ^ i) :: u8)" for i unfolding byte_of_word x by (rule refl)
  have high: "(of_nat (8 * n div 256 ^ i) :: u8) = 0" if "8 \<le> i" for i
  proof -
    have "(256 :: nat) ^ 8 \<le> 256 ^ i" using that by (intro power_increasing) simp_all
    then have "8 * n < 256 ^ i" using assms(1) by simp
    then show ?thesis by simp
  qed
  have "[0..<k] = [0..<8] @ [8..<k]" using assms(2) upt_add_eq_append [of 0 8 "k - 8"] by simp
  moreover have "map (\<lambda>i. of_nat (8 * n div 256 ^ i)) [8..<k] = replicate (k - 8) (0 :: u8)"
    using high by (intro nth_equalityI) simp_all
  ultimately show ?thesis unfolding store_swap [OF bswap_swaps(2)] by (simp add: store_word_def low)
qed

lemma pad_zeros:
  assumes "0 < n"
  shows "nat (- int (l + 1 + 2 * n) mod int (16 * n)) = (2 * (16 * n) - 2 * n - l mod (16 * n) - 1) mod (16 * n)"
proof -
  let ?S = "16 * n" and ?r = "l mod (16 * n)"
  have "?r < ?S" using assms by simp
  then have "int (2 * ?S - 2 * n - ?r - 1) = 2 * int ?S - (int ?r + 1 + 2 * int n)" by simp
  also have "int ?r = int l - int ?S * int (l div ?S)" by (simp only: zmod_int zdiv_int minus_mult_div_eq_mod)
  also have "2 * int ?S - (int l - int ?S * int (l div ?S) + 1 + 2 * int n) = - int (l + 1 + 2 * n) + int ?S * (2 + int (l div ?S))"
    by (simp only: of_nat_add of_nat_mult of_nat_numeral of_nat_1 algebra_simps)
  finally have "int (2 * ?S - 2 * n - ?r - 1) mod int ?S = - int (l + 1 + 2 * n) mod int ?S" by (simp only: mod_mult_self2)
  then show ?thesis by (metis nat_int zmod_int)
qed

lemma padded_length: "0 < n \<Longrightarrow> 16 * n dvd length (fips_pad n m)"
proof -
  assume "0 < n"
  let ?a = "int (length m + 1 + 2 * n)" and ?S = "int (16 * n)"
  have "0 \<le> - ?a mod ?S" using \<open>0 < n\<close> by simp
  then have "int (length (fips_pad n m)) = ?a + - ?a mod ?S" by (simp add: fips_pad_def)
  also have "\<dots> mod ?S = (?a + - ?a) mod ?S" by (simp only: mod_add_right_eq)
  finally have "?S dvd int (length (fips_pad n m))" by (simp add: dvd_eq_mod_eq_0)
  then show ?thesis by (simp only: of_nat_dvd_iff)
qed

section \<open>The digest\<close>

locale sha2_variant = chunked "chunk_size TYPE('w)" "Transform h" "start_state h"
  for h :: "('w::len word, 'z) sha2_scheme" +
  assumes swap: "swaps (bswap h)" and lines: "8 dvd length (round_constants h)" and registers: "length (start_state h) = 8"
    and field: "32 \<le> LENGTH('w)"
begin

lemma blocks_sized: "b \<in> set (sha2_blocks sz m) \<Longrightarrow> length b = sz"
proof (induction sz m rule: sha2_blocks.induct)
  case (1 sz m)
  then show ?case by (cases "0 < sz \<and> sz \<le> length m") (auto simp: sha2_blocks.simps [of sz m])
qed

lemma fold_transform:
  "\<forall>b\<in>set bs. length b = chunk_size TYPE('w) \<Longrightarrow> length s = 8 \<Longrightarrow> foldl (Transform h) s bs = foldl (fips_compress h) s bs"
proof (induction bs arbitrary: s)
  case (Cons b bs)
  have "length b = chunk_size TYPE('w)" using Cons.prems(1) by simp
  note step = Transform_fips [OF Cons.prems(2) this swap lines]
  show ?case using Cons.IH [of "Transform h s b"] Cons.prems(1) step by simp
qed simp

lemma init_holds: "sha2_holds (chunk_size TYPE('w)) (Transform h) (start_state h) (sha2_init h) []"
  using size_pos by (simp add: sha2_holds_def sha2_init_def sha2_state_def sha2_blocks_short)

lemma pieces_held:
  "length (m @ concat ps) < 2 ^ 32 - 1 \<Longrightarrow> sha2_holds (chunk_size TYPE('w)) (Transform h) (start_state h) ctx m \<Longrightarrow>
   \<exists>ctx'. foldl (\<lambda>ctx data. Option.bind ctx (sha2_update h data)) (Some ctx) ps = Some ctx' \<and>
     sha2_holds (chunk_size TYPE('w)) (Transform h) (start_state h) ctx' (m @ concat ps)"
proof (induction ps arbitrary: ctx m)
  case (Cons p ps)
  have small: "length m < 2 ^ 32 - 1" using Cons.prems(1) by simp
  have "sha2_bytes ctx = of_nat (length m)" using Cons.prems(2) by (auto simp: sha2_holds_def)
  moreover have "(of_nat (length m) :: u32) \<noteq> - 1"
  proof
    assume "(of_nat (length m) :: u32) = - 1"
    then have "unat (of_nat (length m) :: u32) = unat (- 1 :: u32)" by simp
    then show False using small by (simp add: unat_of_nat unsigned_minus_1_eq_mask mask_eq_exp_minus_1)
  qed
  ultimately have "sha2_update h p ctx = Some (sha2_add (chunk_size TYPE('w)) (Transform h) p ctx)" by (simp add: sha2_update_def)
  then show ?case using Cons.IH [of "m @ p" "sha2_add (chunk_size TYPE('w)) (Transform h) p ctx"] add_holds [OF Cons.prems(2), of p] Cons.prems(1) by simp
qed simp

lemma done_digest:
  assumes holds: "sha2_holds (chunk_size TYPE('w)) (Transform h) (start_state h) ctx m" and short: "length m < 2 ^ 32"
  shows "fst (sha2_done h ctx) = fips_sha h m"
proof -
  let ?n = "word_bytes TYPE('w)" and ?sz = "chunk_size TYPE('w)"
  let ?zeros = "(2 * ?sz - 2 * ?n - length m mod ?sz - 1) mod ?sz"
  let ?pad = "0x80 # replicate ?zeros (0 :: u8)"
  let ?desc = "rev (map (\<lambda>i. of_nat (8 * length m div 256 ^ i)) [0..<2 * ?n]) :: bytes"
  have n: "0 < ?n" "?sz = 16 * ?n" "?n = LENGTH('w) div 8" "8 \<le> 2 * ?n" using field by (simp_all add: chunk_size_def word_bytes_def)
  have bytes: "sha2_bytes ctx = of_nat (length m)" using holds by (auto simp: sha2_holds_def)
  have "unat (of_nat (length m) :: u32) = length m" using short by (simp add: unat_of_nat)
  moreover have "?zeros < ?sz" using size_pos by simp
  then have "take (1 + ?zeros) (0x80 # replicate (?sz - 1) (0 :: u8)) = ?pad" by (simp add: min_absorb1)
  ultimately have result: "fst (sha2_done h ctx) = concat (map (\<lambda>w. rev (store_word w))
      (sha2_s (sha2_add ?sz (Transform h) ?desc (sha2_add ?sz (Transform h) ?pad ctx))))"
    using sha2_length_field [OF short n(4)] by (simp add: sha2_done_def Let_def bytes store_swap [OF swap])
  have padded: "(m @ ?pad) @ ?desc = fips_pad ?n m" using pad_zeros [OF n(1), of "length m"] by (simp add: fips_pad_def n(2))
  have "sha2_holds ?sz (Transform h) (start_state h) (sha2_add ?sz (Transform h) ?desc (sha2_add ?sz (Transform h) ?pad ctx)) ((m @ ?pad) @ ?desc)"
    by (intro add_holds holds)
  then obtain front tail where parts: "fips_pad ?n m = front @ tail" "?sz dvd length front" "length tail < ?sz"
    "sha2_s (sha2_add ?sz (Transform h) ?desc (sha2_add ?sz (Transform h) ?pad ctx)) = sha2_state ?sz (Transform h) (start_state h) front"
    unfolding padded sha2_holds_def by blast
  have "?sz dvd length (fips_pad ?n m)" unfolding n(2) by (rule padded_length [OF n(1)])
  then have "tail = []" using parts(1-3) by (auto simp: dvd_add_right_iff dest: dvd_imp_le)
  then show ?thesis using result parts(1,4) fold_transform [of "sha2_blocks ?sz front" "start_state h"] blocks_sized registers
    by (simp add: fips_sha_def Let_def sha2_state_def n(2) word_bytes_def)
qed

lemma pieces_digest: "length (concat ps) < 2 ^ 32 - 1 \<Longrightarrow> sha2_pieces h ps = Some (fips_sha (sha2_parts.truncate h) (concat ps))"
proof -
  assume short: "length (concat ps) < 2 ^ 32 - 1"
  from pieces_held [OF _ init_holds, of ps] short obtain ctx where
    "foldl (\<lambda>ctx data. Option.bind ctx (sha2_update h data)) (Some (sha2_init h)) ps = Some ctx"
    "sha2_holds (chunk_size TYPE('w)) (Transform h) (start_state h) ctx (concat ps)" by auto
  then have "sha2_pieces h ps = Some (fips_sha h (concat ps))" using done_digest short by (simp add: sha2_pieces_def)
  moreover have "start_state (sha2_parts.truncate h) = start_state h" by (simp add: sha2_parts.truncate_def)
  ultimately show ?thesis by (simp add: fips_sha_def compress_truncate)
qed

end

lemma table_lengths: "length sha256_K = 64" "length sha512_K = 80"
  by (simp_all add: sha256_K_def sha512_K_def)

interpretation sha256: sha2_variant sha256_code
  by unfold_locales (simp_all add: chunk_size_def word_bytes_def sha256_code_def bswap_swaps table_lengths SHA256_INIT_def)

interpretation sha512: sha2_variant sha512_code
  by unfold_locales (simp_all add: chunk_size_def word_bytes_def sha512_code_def bswap_swaps table_lengths SHA512_INIT_def)

section \<open>Properties\<close>

text \<open>
  C36: SHA-256 and SHA-512 are those of FIPS 180-4: a message of less than \<open>2 ^ 32 - 1\<close> bytes, handed over in any pieces, gives the digest
  that the standard defines, with the rotations, the schedule, the padding and the constants of the standard.
\<close>

theorem sha2_fips180:
  assumes "length (concat ps) < 2 ^ 32 - 1"
  shows "sha2_pieces sha256_code ps = Some (fips_sha fips256 (concat ps)) \<and>
    sha2_pieces sha512_code ps = Some (fips_sha fips512 (concat ps))"
  using sha256.pieces_digest [OF assms] sha512.pieces_digest [OF assms] by (simp add: code_is_fips)

theorem sha2_fips180_witness:
  "sha2_pieces sha256_code [[0x61], [], [0x62, 0x63]] = Some (fips_sha fips256 [0x61, 0x62, 0x63]) \<and>
   sha2_pieces sha512_code [replicate 200 7, replicate 100 8] = Some (fips_sha fips512 (replicate 200 7 @ replicate 100 8))"
  using sha2_fips180 [of "[[0x61], [], [0x62, 0x63]]"] sha2_fips180 [of "[replicate 200 7, replicate 100 8]"] by simp

end
