(* ===== verification/Hmac.thy ===== *)
theory Hmac
  imports Sha2Props
begin

text \<open>
  HMAC and PBKDF2, \<^verbatim>\<open>src/crypto/utils/hmac.inl\<close> and \<^verbatim>\<open>pbkdf2.inl\<close>, which \<^verbatim>\<open>hmac.c\<close> and \<^verbatim>\<open>pbkdf2.c\<close> include once for
  SHA-256 and once for SHA-512, and what they compute: HMAC of RFC 2104 and PBKDF2 of RFC 8018 over the hash of the standard.
  \<open>None\<close> is a failed assertion of the hash. Whether the result is aligned makes no difference; the
  clearing of local buffers is left out.
\<close>

section \<open>HMAC\<close>

definition digest_size :: "'w::len itself \<Rightarrow> nat" where
  "digest_size t = 8 * word_bytes t"

definition hmac_mix :: "('w::len word, 'z) sha2_scheme \<Rightarrow> bytes \<Rightarrow> bytes \<Rightarrow> bytes option" where
  "hmac_mix h pad data =
     Option.bind (sha2_update h pad (sha2_init h)) (\<lambda>ctx.
     Option.bind (sha2_update h data ctx) (\<lambda>ctx. Some (fst (sha2_done h ctx))))"

definition HMAC_FUNCTION :: "('w::len word, 'z) sha2_scheme \<Rightarrow> bytes \<Rightarrow> bytes \<Rightarrow> bytes option" where
  "HMAC_FUNCTION h key msg =
     (let sz = chunk_size TYPE('w);
          buf = replicate sz 0
      in Option.bind (if length key \<le> sz then Some (buf_write buf 0 key) else map_option (buf_write buf 0) (sha2_digest h key)) (\<lambda>buf.
         let opad = map (\<lambda>b. b XOR 0x5c) buf;
             ipad = map (\<lambda>b. b XOR 0x36) buf
         in Option.bind (hmac_mix h ipad msg) (\<lambda>sha.
            let buf = buf_write buf 0 sha
            in hmac_mix h opad (take (digest_size TYPE('w)) buf))))"

definition hmac_sha256_impl :: "bytes \<Rightarrow> bytes \<Rightarrow> bytes option" where
  "hmac_sha256_impl = HMAC_FUNCTION sha256_code"

definition hmac_sha512_impl :: "bytes \<Rightarrow> bytes \<Rightarrow> bytes option" where
  "hmac_sha512_impl = HMAC_FUNCTION sha512_code"

text \<open>The entry points refuse an empty key and an empty message.\<close>

definition hmac_checked :: "('w::len word, 'z) sha2_scheme \<Rightarrow> bytes \<Rightarrow> bytes \<Rightarrow> (int + bytes) option" where
  "hmac_checked h key bytes = (if key = [] \<or> bytes = [] then Some (Inl (-1)) else map_option Inr (HMAC_FUNCTION h key bytes))"

section \<open>PBKDF2\<close>

definition PBKDF2_HMAC_EXTRA_LEN :: nat where "PBKDF2_HMAC_EXTRA_LEN = 4"

fun pbkdf2_rounds :: "(bytes \<Rightarrow> bytes option) \<Rightarrow> nat \<Rightarrow> bytes \<Rightarrow> bytes \<Rightarrow> bytes option" where
  "pbkdf2_rounds hmac 0 d1 sha_cp = Some sha_cp"
| "pbkdf2_rounds hmac (Suc c) d1 sha_cp = Option.bind (hmac d1) (\<lambda>d1. pbkdf2_rounds hmac c d1 (xorb sha_cp d1))"

definition pbkdf2_block :: "('w::len word, 'z) sha2_scheme \<Rightarrow> bytes \<Rightarrow> bytes \<Rightarrow> u32 \<Rightarrow> nat \<Rightarrow> bytes option" where
  "pbkdf2_block h pass salt cost n =
     (let block = store_word (bswap_32 (of_nat n + 1));
          tmp_salt = salt @ block
      in Option.bind (HMAC_FUNCTION h pass tmp_salt) (\<lambda>d1.
         pbkdf2_rounds (HMAC_FUNCTION h pass) (if cost = 0 then 0 else unat (cost - 1)) d1 d1))"

fun pbkdf2_blocks :: "(nat \<Rightarrow> bytes option) \<Rightarrow> nat list \<Rightarrow> bytes option" where
  "pbkdf2_blocks block [] = Some []"
| "pbkdf2_blocks block (n # ns) = Option.bind (block n) (\<lambda>t. map_option (\<lambda>ts. t @ ts) (pbkdf2_blocks block ns))"

text \<open>\<open>allocated\<close>: the buffer for the salt could be allocated.\<close>

definition pbkdf2_hmac :: "('w::len word, 'z) sha2_scheme \<Rightarrow> bool \<Rightarrow> bytes \<Rightarrow> bytes \<Rightarrow> u32 \<Rightarrow> u32 \<Rightarrow> nat \<Rightarrow> (int + bytes) option" where
  "pbkdf2_hmac h allocated pass salt flags cost len =
     (if len = 0 then Some (Inl (-1))
      else if flags \<noteq> 0 then Some (Inl (-1))
      else if len = 0 \<or> len mod digest_size TYPE('w) \<noteq> 0 then Some (Inl (-1))
      else if \<not> allocated then Some (Inl (-2))
      else map_option Inr (pbkdf2_blocks (pbkdf2_block h pass salt cost) [0..<len div digest_size TYPE('w)]))"

definition pbkdf2_hmac_sha256 :: "bool \<Rightarrow> bytes \<Rightarrow> bytes \<Rightarrow> u32 \<Rightarrow> u32 \<Rightarrow> nat \<Rightarrow> (int + bytes) option" where
  "pbkdf2_hmac_sha256 = pbkdf2_hmac sha256_code"

definition pbkdf2_hmac_sha512 :: "bool \<Rightarrow> bytes \<Rightarrow> bytes \<Rightarrow> u32 \<Rightarrow> u32 \<Rightarrow> nat \<Rightarrow> (int + bytes) option" where
  "pbkdf2_hmac_sha512 = pbkdf2_hmac sha512_code"

section \<open>The standards\<close>

definition rfc2104 :: "nat \<Rightarrow> (bytes \<Rightarrow> bytes) \<Rightarrow> bytes \<Rightarrow> bytes \<Rightarrow> bytes" where
  "rfc2104 B H K text =
     (let K = (if length K > B then H K else K);
          K = K @ replicate (B - length K) 0
      in H (xorb K (replicate B 0x5c) @ H (xorb K (replicate B 0x36) @ text)))"

fun rfc8018_U :: "(bytes \<Rightarrow> bytes) \<Rightarrow> bytes \<Rightarrow> nat \<Rightarrow> nat \<Rightarrow> bytes" where
  "rfc8018_U PRF S i 0 = PRF (S @ rev (map (\<lambda>k. of_nat (i div 256 ^ k)) [0..<4]))"
| "rfc8018_U PRF S i (Suc c) = PRF (rfc8018_U PRF S i c)"

definition rfc8018_F :: "(bytes \<Rightarrow> bytes) \<Rightarrow> bytes \<Rightarrow> nat \<Rightarrow> nat \<Rightarrow> bytes" where
  "rfc8018_F PRF S c i = foldl xorb (rfc8018_U PRF S i 0) (map (rfc8018_U PRF S i) [1..<c])"

definition rfc8018 :: "nat \<Rightarrow> (bytes \<Rightarrow> bytes \<Rightarrow> bytes) \<Rightarrow> bytes \<Rightarrow> bytes \<Rightarrow> nat \<Rightarrow> nat \<Rightarrow> bytes" where
  "rfc8018 hLen PRF P S c dkLen =
     take dkLen (concat (map (rfc8018_F (PRF P) S c) [1..<(dkLen + hLen - 1) div hLen + 1]))"

section \<open>Equivalence\<close>

lemma length_fips_compress: "length s = 8 \<Longrightarrow> length (fips_compress p s b) = 8"
proof -
  assume "length s = 8"
  have round: "length (fips_round p K W v) = length v" for K W v by (induction p K W v rule: fips_round.induct) (simp_all add: Let_def)
  have "length (fold (\<lambda>t. fips_round p (K t) (W t)) ts v) = length v" for K W v and ts :: "nat list"
    by (induction ts arbitrary: v) (simp_all add: round)
  then show ?thesis using \<open>length s = 8\<close> by (simp add: fips_compress_def Let_def)
qed

lemma length_fips_sha:
  fixes p :: "('w::len word, 'z) sha2_parts_scheme"
  assumes "length (start_state p) = 8"
  shows "length (fips_sha p m) = digest_size TYPE('w)"
proof -
  have "length (foldl (fips_compress p) s bs) = 8" if "length s = 8" for s bs
    using that by (induction bs arbitrary: s) (simp_all add: length_fips_compress)
  then show ?thesis using assms
    by (simp add: fips_sha_def Let_def length_concat comp_def length_store_word digest_size_def word_bytes_def sum_list_triv)
qed

lemma xor_pad: "length b = n \<Longrightarrow> map (\<lambda>b. b XOR x) b = xorb b (replicate n x)"
  by (rule nth_equalityI) simp_all

context sha2_variant begin

abbreviation H :: "bytes \<Rightarrow> bytes" where "H \<equiv> fips_sha (sha2_parts.truncate h)"

lemma length_H: "length (H m) = digest_size TYPE('w)"
  by (rule length_fips_sha) (simp add: sha2_parts.truncate_def registers)

lemma digest_H: "length m < 2 ^ 32 - 1 \<Longrightarrow> sha2_digest h m = Some (H m)"
  using pieces_digest [of "[m]"] by (cases "sha2_update h m (sha2_init h)") (simp_all add: sha2_pieces_def sha2_digest_def)

lemma mix_H: "length (pad @ m) < 2 ^ 32 - 1 \<Longrightarrow> hmac_mix h pad m = Some (H (pad @ m))"
  using pieces_digest [of "[pad, m]"] by (auto simp: sha2_pieces_def hmac_mix_def bind_eq_Some_conv)

lemma hmac_rfc:
  assumes "length key < 2 ^ 32 - 1" and "length msg + chunk_size TYPE('w) < 2 ^ 32 - 1" and big: "LENGTH('w) < 2 ^ 25"
  shows "HMAC_FUNCTION h key msg = Some (rfc2104 (chunk_size TYPE('w)) H key msg)"
    and "length (rfc2104 (chunk_size TYPE('w)) H key msg) = digest_size TYPE('w)"
proof -
  let ?sz = "chunk_size TYPE('w)" and ?k = "if length key > chunk_size TYPE('w) then H key else key"
  let ?buf = "?k @ replicate (?sz - length ?k) 0"
  have small: "digest_size TYPE('w) \<le> ?sz" "?sz + digest_size TYPE('w) < 2 ^ 32 - 1"
    using big div_le_dividend [of "LENGTH('w)" 8] by (simp_all add: digest_size_def chunk_size_def word_bytes_def)
  have len: "length ?buf = ?sz" using small(1) length_H by auto
  have "(if length key \<le> ?sz then Some (buf_write (replicate ?sz 0) 0 key) else map_option (buf_write (replicate ?sz 0) 0) (sha2_digest h key)) = Some ?buf"
    using digest_H [OF assms(1)] by (auto simp: buf_write_def)
  moreover have "hmac_mix h (xorb ?buf (replicate ?sz 0x36)) msg = Some (H (xorb ?buf (replicate ?sz 0x36) @ msg))"
    using assms(2) len by (intro mix_H) (simp add: add.commute)
  moreover have "hmac_mix h (xorb ?buf (replicate ?sz 0x5c)) (H m) = Some (H (xorb ?buf (replicate ?sz 0x5c) @ H m))" for m
    using small(2) len by (intro mix_H) (simp add: length_H)
  moreover have "take (digest_size TYPE('w)) (buf_write ?buf 0 (H m)) = H m" for m
    using small(1) by (simp add: buf_write_def length_H)
  ultimately show "HMAC_FUNCTION h key msg = Some (rfc2104 ?sz H key msg)"
    by (simp only: HMAC_FUNCTION_def rfc2104_def Let_def xor_pad [OF len] bind.simps)
  show "length (rfc2104 ?sz H key msg) = digest_size TYPE('w)" by (simp add: rfc2104_def Let_def length_H)
qed

abbreviation PRF :: "bytes \<Rightarrow> bytes \<Rightarrow> bytes" where "PRF \<equiv> rfc2104 (chunk_size TYPE('w)) H"

lemma U_iterate: "rfc8018_U f S i c = (f ^^ c) (rfc8018_U f S i 0)"
  by (induction c) simp_all

lemma rounds_rfc:
  assumes "length pass < 2 ^ 32 - 1" and big: "LENGTH('w) < 2 ^ 25"
  shows "length d = digest_size TYPE('w) \<Longrightarrow>
    pbkdf2_rounds (HMAC_FUNCTION h pass) c d t = Some (foldl xorb t (map (\<lambda>k. (PRF pass ^^ k) d) [1..<Suc c]))"
proof (induction c arbitrary: d t)
  case (Suc c)
  have small: "digest_size TYPE('w) + chunk_size TYPE('w) < 2 ^ 32 - 1"
    using big div_le_dividend [of "LENGTH('w)" 8] by (simp add: digest_size_def chunk_size_def word_bytes_def)
  have step: "HMAC_FUNCTION h pass d = Some (PRF pass d)" "length (PRF pass d) = digest_size TYPE('w)"
    using hmac_rfc [OF assms(1) _ big, of d] small Suc.prems by simp_all
  have "[1..<Suc (Suc c)] = 1 # map Suc [1..<Suc c]" by (simp only: map_Suc_upt) (simp add: upt_conv_Cons)
  then have "map (\<lambda>k. (PRF pass ^^ k) d) [1..<Suc (Suc c)] = PRF pass d # map (\<lambda>k. (PRF pass ^^ k) (PRF pass d)) [1..<Suc c]"
    by (simp add: funpow_swap1 comp_def del: upt_Suc)
  then show ?case using Suc.IH [OF step(2), of "xorb t (PRF pass d)"] step(1) by (simp del: upt_Suc)
qed simp

lemma block_number: "store_word (bswap_32 (of_nat n + 1)) = rev (map (\<lambda>k. of_nat (Suc n div 256 ^ k)) [0..<4])" if "Suc n < 2 ^ 32"
proof -
  let ?x = "of_nat n + 1 :: u32"
  have x: "unat ?x = Suc n" using that by (simp add: unat_word_ariths unat_of_nat)
  have "ucast (drop_bit (8 * k) ?x) = (of_nat (Suc n div 256 ^ k) :: u8)" for k unfolding byte_of_word x by (rule refl)
  then show ?thesis unfolding store_swap [OF bswap_swaps(1)] by (simp add: store_word_def)
qed

lemma block_rfc:
  assumes pass: "length pass < 2 ^ 32 - 1" and salt: "length salt + 4 + chunk_size TYPE('w) < 2 ^ 32 - 1" and n: "Suc n < 2 ^ 32" and big: "LENGTH('w) < 2 ^ 25"
  shows "pbkdf2_block h pass salt cost n = Some (rfc8018_F (PRF pass) salt (max 1 (unat cost)) (Suc n))"
proof -
  let ?U = "rfc8018_U (PRF pass) salt (Suc n)" and ?c = "if cost = 0 then 0 else unat (cost - 1)"
  have first: "HMAC_FUNCTION h pass (salt @ store_word (bswap_32 (of_nat n + 1))) = Some (?U 0)" "length (?U 0) = digest_size TYPE('w)"
    using hmac_rfc [OF pass _ big, of "salt @ store_word (bswap_32 (of_nat n + 1))"] salt block_number [OF n] by simp_all
  have "Suc ?c = max 1 (unat cost)"
  proof (cases "cost = 0")
    case False
    then have "0 < unat cost" by (simp add: unat_gt_0)
    then show ?thesis using False by (simp add: unat_minus_one)
  qed simp
  then show ?thesis using rounds_rfc [OF pass big first(2), of ?c "?U 0"] first(1)
    by (simp add: pbkdf2_block_def Let_def rfc8018_F_def flip: U_iterate del: upt_Suc rfc8018_U.simps)
qed

lemma length_F:
  assumes "length d = digest_size TYPE('w)"
  shows "length (foldl xorb d (map (rfc8018_U (PRF pass) S i) ks)) = digest_size TYPE('w)"
proof -
  have U: "length (rfc8018_U (PRF pass) S i k) = digest_size TYPE('w)" for k by (cases k) (simp_all add: rfc2104_def Let_def length_H)
  show ?thesis using assms by (induction ks arbitrary: d) (simp_all add: U)
qed

lemma blocks_rfc:
  assumes "\<And>n. n \<in> set ns \<Longrightarrow> block n = Some (f (Suc n))"
  shows "pbkdf2_blocks block ns = Some (concat (map f (map Suc ns)))"
  using assms by (induction ns) auto

lemma pbkdf2_rfc:
  assumes "length pass < 2 ^ 32 - 1" and "length salt + 4 + chunk_size TYPE('w) < 2 ^ 32 - 1" and big: "LENGTH('w) < 2 ^ 25"
    and len: "0 < len" "len < 2 ^ 32" "len mod digest_size TYPE('w) = 0"
  shows "pbkdf2_hmac h True pass salt 0 cost len =
    Some (Inr (rfc8018 (digest_size TYPE('w)) PRF pass salt (max 1 (unat cost)) len))"
proof -
  let ?L = "digest_size TYPE('w)" and ?F = "rfc8018_F (PRF pass) salt (max 1 (unat cost))"
  have L: "0 < ?L" using field by (simp add: digest_size_def word_bytes_def)
  obtain l where l: "len = ?L * l" using len(3) by (auto elim: dvdE simp flip: dvd_eq_mod_eq_0)
  then have "l \<le> len" using L by simp
  then have "Suc n < 2 ^ 32" if "n < l" for n using that len(2) by linarith
  then have block: "pbkdf2_block h pass salt cost n = Some (?F (Suc n))" if "n \<in> set [0..<l]" for n
    using block_rfc [OF assms(1,2) _ big] that by simp
  have F: "length (rfc8018_F (PRF pass) salt c i) = ?L" for c i unfolding rfc8018_F_def by (rule length_F) (simp add: rfc2104_def Let_def length_H)
  have "(len + ?L - 1) div ?L = l" using L l by (simp add: div_nat_eqI)
  moreover have "length (concat (map ?F (map Suc [0..<l]))) = len" by (simp add: length_concat comp_def F sum_list_triv l)
  then have "take len (concat (map ?F (map Suc [0..<l]))) = concat (map ?F (map Suc [0..<l]))" by simp
  ultimately have "rfc8018 ?L PRF pass salt (max 1 (unat cost)) len = concat (map ?F (map Suc [0..<l]))"
    by (simp only: rfc8018_def map_Suc_upt Suc_eq_plus1) simp
  moreover have "pbkdf2_blocks (pbkdf2_block h pass salt cost) [0..<l] = Some (concat (map ?F (map Suc [0..<l])))"
    by (rule blocks_rfc, rule block)
  moreover have "len div ?L = l" using L l by simp
  ultimately show ?thesis using len by (simp only: pbkdf2_hmac_def) simp
qed

end

section \<open>Properties\<close>

text \<open>
  C37: The code computes HMAC as RFC 2104 defines it over SHA-256 and SHA-512 of the standard; an empty key or message is refused by the
  entry points, though the standard allows both.
\<close>

theorem hmac_rfc2104:
  assumes "length key < 2 ^ 32 - 1" and "length msg + 128 < 2 ^ 32 - 1"
  shows "hmac_sha256_impl key msg = Some (rfc2104 64 (fips_sha fips256) key msg) \<and>
    hmac_sha512_impl key msg = Some (rfc2104 128 (fips_sha fips512) key msg) \<and>
    (hmac_checked sha256_code key msg = Some (Inl (-1)) \<longleftrightarrow> key = [] \<or> msg = [])"
  using sha256.hmac_rfc(1) [of key msg] sha512.hmac_rfc(1) [of key msg] assms
  by (simp add: hmac_sha256_impl_def hmac_sha512_impl_def code_is_fips chunk_size_def word_bytes_def hmac_checked_def)

theorem hmac_rfc2104_witness:
  "hmac_sha256_impl [1, 2, 3] (replicate 100 4) = Some (rfc2104 64 (fips_sha fips256) [1, 2, 3] (replicate 100 4))"
  using hmac_rfc2104 [of "[1, 2, 3]" "replicate 100 4"] by simp

text \<open>
  C38: The code computes PBKDF2 as RFC 8018 defines it, with HMAC over SHA-256 and SHA-512 as pseudo-random function, for any
  length that is a multiple of the digest; a cost of zero counts as one.
\<close>

theorem pbkdf2_rfc8018:
  assumes "length pass < 2 ^ 32 - 1" and "length salt + 132 < 2 ^ 32 - 1" and "0 < len" and "len < 2 ^ 32"
  shows "(len mod 32 = 0 \<longrightarrow> pbkdf2_hmac_sha256 True pass salt 0 cost len =
      Some (Inr (rfc8018 32 (rfc2104 64 (fips_sha fips256)) pass salt (max 1 (unat cost)) len))) \<and>
    (len mod 64 = 0 \<longrightarrow> pbkdf2_hmac_sha512 True pass salt 0 cost len =
      Some (Inr (rfc8018 64 (rfc2104 128 (fips_sha fips512)) pass salt (max 1 (unat cost)) len)))"
  using sha256.pbkdf2_rfc [of pass salt len cost] sha512.pbkdf2_rfc [of pass salt len cost] assms
  by (simp add: pbkdf2_hmac_sha256_def pbkdf2_hmac_sha512_def code_is_fips chunk_size_def word_bytes_def digest_size_def)

theorem pbkdf2_rfc8018_witness:
  "pbkdf2_hmac_sha256 True [1, 2] [3, 4] 0 1000 64 = Some (Inr (rfc8018 32 (rfc2104 64 (fips_sha fips256)) [1, 2] [3, 4] 1000 64))"
  using pbkdf2_rfc8018 [of "[1, 2]" "[3, 4]" 64 1000] by simp

end
