(* ===== verification/CodeHashes.thy ===== *)
theory CodeHashes
  imports Hmac Platform Bip39
begin

text \<open>
  Where the hashes of the code meet the parameters of the other components: the standard functions, which the code computes,
  satisfy the contract of the platform, and the seed of a BIP-39 phrase is the one that BIP-39 defines.
\<close>

definition standard_platform :: "'h platform \<Rightarrow> 'h platform" where
  "standard_platform p =
     p\<lparr>p_sha256 := fips_sha fips256, p_sha512 := fips_sha fips512,
       p_hmac_sha256 := rfc2104 64 (fips_sha fips256), p_hmac_sha512 := rfc2104 128 (fips_sha fips512),
       p_pbkdf2_hmac_sha512 := \<lambda>pw salt. rfc8018 64 (rfc2104 128 (fips_sha fips512)) pw salt\<rparr>"

lemma length_fips: "length (fips_sha fips256 m) = 32" "length (fips_sha fips512 m) = 64"
  using sha256.length_H [of m] sha512.length_H [of m] by (simp_all add: code_is_fips digest_size_def word_bytes_def)

lemma length_rfc8018:
  assumes "0 < hLen" and "\<And>m. length (PRF P m) = hLen"
  shows "length (rfc8018 hLen PRF P S c dkLen) = dkLen"
proof -
  have U: "length (rfc8018_U (PRF P) S i k) = hLen" for i k by (cases k) (simp_all add: assms(2))
  have "length (foldl xorb d (map (rfc8018_U (PRF P) S i) ks)) = hLen" if "length d = hLen" for d i ks
    using that by (induction ks arbitrary: d) (simp_all add: U)
  then have F: "length (rfc8018_F (PRF P) S c i) = hLen" for i by (simp add: rfc8018_F_def U del: rfc8018_U.simps)
  let ?l = "(dkLen + hLen - 1) div hLen"
  have "dkLen \<le> hLen * ?l"
  proof -
    have "dkLen + hLen - 1 < hLen * ?l + hLen" using assms(1) by (metis add.commute mult.commute div_mult_mod_eq nat_add_left_cancel_less mod_less_divisor)
    then show ?thesis by simp
  qed
  moreover have "length (concat (map (rfc8018_F (PRF P) S c) [1..<?l + 1])) = hLen * ?l"
    by (simp add: length_concat comp_def F sum_list_triv)
  ultimately show ?thesis by (simp add: rfc8018_def)
qed

text \<open>
  The contract that the properties of the key store and the chips ask of the hashes holds for the functions that the code
  computes: with them in place of the parameters a platform that met its contract still does, and on every input that fits in memory
  they are what the code returns.
\<close>

lemma code_hashes_meet_contract:
  assumes "platform_ok p"
  shows "platform_ok (standard_platform p) \<and>
    (\<forall>k m. length m + 128 < 2 ^ 32 - 1 \<and> length k < 2 ^ 32 - 1 \<longrightarrow>
      sha256 m = Some (p_sha256 (standard_platform p) m) \<and> sha512 m = Some (p_sha512 (standard_platform p) m) \<and>
      hmac_sha256_impl k m = Some (p_hmac_sha256 (standard_platform p) k m) \<and>
      hmac_sha512_impl k m = Some (p_hmac_sha512 (standard_platform p) k m))"
proof (intro conjI allI impI)
  have frame: "frame (standard_platform p) = frame p" by (intro ext) (simp add: frame_def standard_platform_def)
  have "length (rfc8018 64 (rfc2104 128 (fips_sha fips512)) pw salt n len) = len" for pw salt n len
    by (rule length_rfc8018) (simp_all add: rfc2104_def Let_def length_fips)
  moreover have "length (rfc2104 64 (fips_sha fips256) k' m') = 32" for k' m' by (simp add: rfc2104_def Let_def length_fips)
  ultimately show "platform_ok (standard_platform p)" using assms
    by (simp add: platform_ok_def page_contract_def slot_contract_def random_contract_def crypto_contract_def flash_contract_def frame)
      (simp add: standard_platform_def length_fips)
next
  fix k m :: bytes
  assume "length m + 128 < 2 ^ 32 - 1 \<and> length k < 2 ^ 32 - 1"
  then show "sha256 m = Some (p_sha256 (standard_platform p) m)" "sha512 m = Some (p_sha512 (standard_platform p) m)"
    "hmac_sha256_impl k m = Some (p_hmac_sha256 (standard_platform p) k m)"
    "hmac_sha512_impl k m = Some (p_hmac_sha512 (standard_platform p) k m)"
    using sha256.digest_H [of m] sha512.digest_H [of m] sha256.hmac_rfc(1) [of k m] sha512.hmac_rfc(1) [of k m]
    by (simp_all add: standard_platform_def sha256_def sha512_def hmac_sha256_impl_def hmac_sha512_impl_def code_is_fips chunk_size_def word_bytes_def)
qed

section \<open>The seed of a phrase\<close>

text \<open>The call in \<^verbatim>\<open>bip39_mnemonic_to_seed\<close>, whose result the caller reads.\<close>

definition seed_pbkdf2 :: "bytes \<Rightarrow> bytes \<Rightarrow> nat \<Rightarrow> nat \<Rightarrow> bytes" where
  "seed_pbkdf2 pass salt cost len =
     (case pbkdf2_hmac_sha512 True pass salt 0 (of_nat cost) len of Some (Inr out) \<Rightarrow> out | _ \<Rightarrow> [])"

text \<open>
  C39: The seed of a phrase is the one of BIP-39: 64 bytes of PBKDF2 with HMAC-SHA512, 2048 rounds, the phrase as password and the
  word \<^verbatim>\<open>mnemonic\<close> before the passphrase as salt.
\<close>

theorem bip39_seed_standard:
  assumes "length phrase < 2 ^ 32 - 1" and "length passphrase + 140 < 2 ^ 32 - 1"
  shows "bip39_mnemonic_to_seed seed_pbkdf2 phrase passphrase 64 =
    Inr (rfc8018 64 (rfc2104 128 (fips_sha fips512)) phrase (cstr ''mnemonic'' @ passphrase) 2048 64)"
  using sha512.pbkdf2_rfc [of phrase "cstr ''mnemonic'' @ passphrase" 64 2048] assms
  by (simp add: bip39_mnemonic_to_seed_def seed_pbkdf2_def pbkdf2_hmac_sha512_def code_is_fips chunk_size_def word_bytes_def digest_size_def cstr_def)

theorem bip39_seed_standard_witness:
  "bip39_mnemonic_to_seed seed_pbkdf2 (cstr ''zoo zoo'') (cstr ''x'') 64 =
    Inr (rfc8018 64 (rfc2104 128 (fips_sha fips512)) (cstr ''zoo zoo'') (cstr ''mnemonicx'') 2048 64)"
  using bip39_seed_standard [of "cstr ''zoo zoo''" "cstr ''x''"] by (simp add: cstr_def)

end
