(* ===== verification/Messages.thy ===== *)
theory Messages
  imports Prelude
begin

text \<open>
  The messages between the tasks, \<^verbatim>\<open>src/msg/general_msg.c\<close> and \<^verbatim>\<open>user_msg.c\<close>: the registry of the queues that want a message
  and the publication to them. A queue is named by its handle, and 0 is \<^verbatim>\<open>NULL\<close>. The queues of the
  operating system and the internal heap are a parameter; a node of the registry can always be allocated. A buffer
  in a message is the copy it points to.
\<close>

section \<open>Messages\<close>

definition MSG_SUCCESS :: u32 where "MSG_SUCCESS = 0"
definition MSG_MESSAGE_ID_ERROR :: u32 where "MSG_MESSAGE_ID_ERROR = 1"
definition MSG_SEND_ERROR :: u32 where "MSG_SEND_ERROR = 2"
definition MSG_MEM_ERROR :: u32 where "MSG_MEM_ERROR = 3"
definition MSG_NULL_QUEUE :: u32 where "MSG_NULL_QUEUE = 4"
definition MSG_QUEUE_ALREADY_REG_IN_MID :: u32 where "MSG_QUEUE_ALREADY_REG_IN_MID = 5"

record message =
  msg_id :: u32
  msg_value :: u32
  msg_buffer :: "bytes option"
  msg_length :: u32

text \<open>\<open>mq_malloc\<close> says whether there was memory for a buffer.\<close>

record 'h queue_system =
  mq_new :: "nat \<Rightarrow> 'h \<Rightarrow> nat \<times> 'h"
  mq_space :: "nat \<Rightarrow> 'h \<Rightarrow> nat"
  mq_count :: "nat \<Rightarrow> 'h \<Rightarrow> nat"
  mq_put :: "nat \<Rightarrow> message \<Rightarrow> 'h \<Rightarrow> int \<times> 'h"
  mq_malloc :: "nat \<Rightarrow> 'h \<Rightarrow> bool \<times> 'h"
  mq_free :: "'h \<Rightarrow> 'h"

section \<open>The registry\<close>

text \<open>The rows of the two-dimensional list; the first one is static and has the identifier 0 while it is unused.\<close>

type_synonym registry = "(u32 \<times> nat list) list"

definition messageListHead :: registry where
  "messageListHead = [(0, [])]"

fun row_add :: "nat \<Rightarrow> nat list \<Rightarrow> u32 \<times> nat list" where
  "row_add queue [] = (MSG_SUCCESS, [queue])"
| "row_add queue (p # ps) =
     (if p = queue then (MSG_QUEUE_ALREADY_REG_IN_MID, p # ps)
      else if ps = [] then (MSG_SUCCESS, [p, queue])
      else let (ret, ps) = row_add queue ps in (ret, p # ps))"

fun rows_add :: "u32 \<Rightarrow> nat \<Rightarrow> registry \<Rightarrow> u32 \<times> registry" where
  "rows_add messageID queue [] = (let (ret, queues) = row_add queue [] in (ret, [(messageID, queues)]))"
| "rows_add messageID queue ((i, queues) # rows) =
     (if i = messageID then let (ret, queues) = row_add queue queues in (ret, (i, queues) # rows)
      else let (ret, rows) = rows_add messageID queue rows in (ret, (i, queues) # rows))"

definition SubMessageID :: "u32 \<Rightarrow> nat \<Rightarrow> registry \<Rightarrow> u32 \<times> registry" where
  "SubMessageID messageID queue reg =
     (if queue = 0 then (MSG_NULL_QUEUE, reg)
      else if messageID = 0 then (MSG_MESSAGE_ID_ERROR, reg)
      else rows_add messageID queue (if fst (hd reg) = 0 then (messageID, snd (hd reg)) # tl reg else reg))"

fun queue_at :: "nat list \<Rightarrow> nat \<Rightarrow> nat" where
  "queue_at [] index = 0"
| "queue_at (q # queues) 0 = q"
| "queue_at (q # queues) (Suc i) = queue_at queues i"

fun find_row :: "u32 \<Rightarrow> registry \<Rightarrow> nat list" where
  "find_row messageID [] = []"
| "find_row messageID ((i, queues) # rows) = (if i = messageID then queues else find_row messageID rows)"

definition GetQueueFromMid :: "registry \<Rightarrow> u32 \<Rightarrow> nat \<Rightarrow> nat" where
  "GetQueueFromMid reg messageID index = (if messageID = 0 then 0 else queue_at (find_row messageID reg) index)"

lemma queue_at_bound: "queue_at qs i \<noteq> 0 \<Longrightarrow> i < length qs"
  by (induction qs i rule: queue_at.induct) auto

lemma queues_left: "0 < GetQueueFromMid reg messageID i \<Longrightarrow> length (find_row messageID reg) - Suc i < length (find_row messageID reg) - i"
  using queue_at_bound [of "find_row messageID reg" i] by (auto simp: GetQueueFromMid_def split: if_splits)

section \<open>Publishing\<close>

function publish_value :: "'h queue_system \<Rightarrow> registry \<Rightarrow> message \<Rightarrow> nat \<Rightarrow> 'h \<Rightarrow> u32 \<times> 'h" where
  "publish_value os reg msg i h =
     (let queue = GetQueueFromMid reg (msg_id msg) i
      in if queue = 0 then (if i = 0 then MSG_MESSAGE_ID_ERROR else MSG_SUCCESS, h)
         else if mq_space os queue h = 0 then (MSG_SEND_ERROR, h)
         else publish_value os reg msg (i + 1) (snd (mq_put os queue msg h)))"
  by pat_completeness auto
termination
  by (relation "measure (\<lambda>(os, reg, msg, i, h). length (find_row (msg_id msg) reg) - i)")
    (auto simp: queues_left)

declare publish_value.simps [simp del]

definition PubValueMsg :: "'h queue_system \<Rightarrow> registry \<Rightarrow> u32 \<Rightarrow> u32 \<Rightarrow> 'h \<Rightarrow> u32 \<times> 'h" where
  "PubValueMsg os reg messageID val h =
     publish_value os reg \<lparr>msg_id = messageID, msg_value = val, msg_buffer = None, msg_length = 0\<rparr> 0 h"

text \<open>A copy of the buffer for each queue; it is freed again when the queue does not take it.\<close>

function publish_buffer :: "'h queue_system \<Rightarrow> registry \<Rightarrow> message \<Rightarrow> nat \<Rightarrow> 'h \<Rightarrow> u32 \<times> 'h" where
  "publish_buffer os reg msg i h =
     (let queue = GetQueueFromMid reg (msg_id msg) i
      in if queue = 0 then (if i = 0 then MSG_MESSAGE_ID_ERROR else MSG_SUCCESS, h)
         else if mq_space os queue h = 0 then (MSG_SEND_ERROR, h)
         else
           let (allocated, h) = mq_malloc os (unat (msg_length msg)) h
           in if \<not> allocated then (MSG_MEM_ERROR, h)
              else
                let (err, h) = mq_put os queue msg h
                in publish_buffer os reg msg (i + 1) (if err \<noteq> 0 then mq_free os h else h))"
  by pat_completeness auto
termination
  by (relation "measure (\<lambda>(os, reg, msg, i, h). length (find_row (msg_id msg) reg) - i)")
    (auto simp: queues_left)

declare publish_buffer.simps [simp del]

definition PubBufferMsg :: "'h queue_system \<Rightarrow> registry \<Rightarrow> u32 \<Rightarrow> bytes \<Rightarrow> 'h \<Rightarrow> u32 \<times> 'h" where
  "PubBufferMsg os reg messageID buffer h =
     publish_buffer os reg \<lparr>msg_id = messageID, msg_value = 0, msg_buffer = Some buffer, msg_length = of_nat (length buffer)\<rparr> 0 h"

function count_waiting :: "'h queue_system \<Rightarrow> registry \<Rightarrow> u32 \<Rightarrow> nat \<Rightarrow> u32 \<Rightarrow> 'h \<Rightarrow> u32" where
  "count_waiting os reg messageID i n h =
     (let queue = GetQueueFromMid reg messageID i
      in if queue = 0 then n else count_waiting os reg messageID (i + 1) (n + of_nat (mq_count os queue h)) h)"
  by pat_completeness auto
termination
  by (relation "measure (\<lambda>(os, reg, messageID, i, n, h). length (find_row messageID reg) - i)")
    (auto simp: queues_left)

declare count_waiting.simps [simp del]

definition GetWaitingMsgCount :: "'h queue_system \<Rightarrow> registry \<Rightarrow> u32 \<Rightarrow> 'h \<Rightarrow> u32" where
  "GetWaitingMsgCount os reg messageID h = count_waiting os reg messageID 0 0 h"

section \<open>The messages of the firmware\<close>

definition MSG_TEST_CMD_FRAME :: u32 where "MSG_TEST_CMD_FRAME = 0x00010000"
definition TEST_MSG_MEASUREMENT :: u32 where "TEST_MSG_MEASUREMENT = 0x00020000"
definition TEST_MSG_ASYNPRINT :: u32 where "TEST_MSG_ASYNPRINT = 0x00020001"
definition TEST_MSG_LEDGER_DATA_RCV :: u32 where "TEST_MSG_LEDGER_DATA_RCV = 0x00020002"
definition QRDECODE_MSG_START :: u32 where "QRDECODE_MSG_START = 0x00030000"
definition QRDECODE_MSG_STOP :: u32 where "QRDECODE_MSG_STOP = 0x00030001"
definition QRDECODE_MSG_MINUTE :: u32 where "QRDECODE_MSG_MINUTE = 0x00030002"
definition UI_MSG_SWITCH_HANDLER :: u32 where "UI_MSG_SWITCH_HANDLER = 0x00040000"
definition UI_MSG_EMIT_SIGNAL_TO_WORKING_VIEW :: u32 where "UI_MSG_EMIT_SIGNAL_TO_WORKING_VIEW = 0x00040001"
definition UI_MSG_CLOSE_CURRENT_VIEW :: u32 where "UI_MSG_CLOSE_CURRENT_VIEW = 0x00040002"
definition UI_MSG_ACTIVATE_LOOP :: u32 where "UI_MSG_ACTIVATE_LOOP = 0x00040003"
definition UI_MSG_SCREEN_SHOT :: u32 where "UI_MSG_SCREEN_SHOT = 0x00040004"
definition UI_MSG_PREPARE_RECEIVE_UR_USB :: u32 where "UI_MSG_PREPARE_RECEIVE_UR_USB = 0x00040005"
definition UI_MSG_OPEN_VIEW :: u32 where "UI_MSG_OPEN_VIEW = 0x00040006"
definition UI_MSG_CLOSE_VIEW :: u32 where "UI_MSG_CLOSE_VIEW = 0x00040007"
definition UI_MSG_USB_TRANSPORT_VIEW :: u32 where "UI_MSG_USB_TRANSPORT_VIEW = 0x00040008"
definition UI_MSG_USB_HARDWARE_VIEW :: u32 where "UI_MSG_USB_HARDWARE_VIEW = 0x00040009"
definition UI_MSG_USB_TRANSPORT_NEXT_VIEW :: u32 where "UI_MSG_USB_TRANSPORT_NEXT_VIEW = 0x0004000A"
definition UI_MSG_CLOSE_NFT_LOCK :: u32 where "UI_MSG_CLOSE_NFT_LOCK = 0x0004000B"
definition BACKGROUND_MSG_MINUTE :: u32 where "BACKGROUND_MSG_MINUTE = 0x00050000"
definition BACKGROUND_MSG_CHANGER_INSERT :: u32 where "BACKGROUND_MSG_CHANGER_INSERT = 0x00050001"
definition BACKGROUND_MSG_RESET :: u32 where "BACKGROUND_MSG_RESET = 0x00050002"
definition BACKGROUND_MSG_BATTERY_INTERVAL :: u32 where "BACKGROUND_MSG_BATTERY_INTERVAL = 0x00050003"
definition BACKGROUND_MSG_TAMPER :: u32 where "BACKGROUND_MSG_TAMPER = 0x00050004"
definition BACKGROUND_MSG_SD_CARD_CHANGE :: u32 where "BACKGROUND_MSG_SD_CARD_CHANGE = 0x00050005"
definition LOG_MSG_WRITE :: u32 where "LOG_MSG_WRITE = 0x00060000"
definition LOG_MSG_ERASE :: u32 where "LOG_MSG_ERASE = 0x00060001"
definition LOG_MSG_EXPORT :: u32 where "LOG_MSG_EXPORT = 0x00060002"
definition LOG_MSG_WRITE_TO_SDCARD :: u32 where "LOG_MSG_WRITE_TO_SDCARD = 0x00060003"
definition USB_MSG_ISR_HANDLER :: u32 where "USB_MSG_ISR_HANDLER = 0x00070000"
definition USB_MSG_SET_STATE :: u32 where "USB_MSG_SET_STATE = 0x00070001"
definition USB_MSG_INIT :: u32 where "USB_MSG_INIT = 0x00070002"
definition USB_MSG_DEINIT :: u32 where "USB_MSG_DEINIT = 0x00070003"
definition LOW_POWER_ENTER :: u32 where "LOW_POWER_ENTER = 0x00080000"
definition LOW_POWER_QUIT :: u32 where "LOW_POWER_QUIT = 0x00080001"
definition SPRING_MSG_GET :: u32 where "SPRING_MSG_GET = 0x00090000"
definition SENSITIVE_MSG_EXECUTE :: u32 where "SENSITIVE_MSG_EXECUTE = 0x000A0000"
definition SENSITIVE_MSG_EXECUTE_RUNNABLE :: u32 where "SENSITIVE_MSG_EXECUTE_RUNNABLE = 0x000A0001"

record user_queues =
  g_cmdQueue :: nat
  g_testQueue :: nat
  g_qrDecodeQueue :: nat
  g_uiQueue :: nat
  g_backgroundQueue :: nat
  g_logQueue :: nat
  g_usbQueue :: nat
  g_lowPowerQueue :: nat
  g_springQueue :: nat
  g_sensitiveQueue :: nat

definition user_subscriptions :: "user_queues \<Rightarrow> (u32 \<times> nat) list" where
  "user_subscriptions q =
     [(MSG_TEST_CMD_FRAME, g_cmdQueue q), (TEST_MSG_MEASUREMENT, g_testQueue q), (TEST_MSG_ASYNPRINT, g_testQueue q),
      (TEST_MSG_LEDGER_DATA_RCV, g_testQueue q), (QRDECODE_MSG_START, g_qrDecodeQueue q), (QRDECODE_MSG_STOP, g_qrDecodeQueue q),
      (QRDECODE_MSG_MINUTE, g_qrDecodeQueue q), (UI_MSG_SWITCH_HANDLER, g_uiQueue q), (UI_MSG_EMIT_SIGNAL_TO_WORKING_VIEW, g_uiQueue q),
      (UI_MSG_CLOSE_CURRENT_VIEW, g_uiQueue q), (UI_MSG_ACTIVATE_LOOP, g_uiQueue q), (UI_MSG_SCREEN_SHOT, g_uiQueue q),
      (UI_MSG_PREPARE_RECEIVE_UR_USB, g_uiQueue q), (UI_MSG_USB_TRANSPORT_VIEW, g_uiQueue q), (UI_MSG_USB_TRANSPORT_NEXT_VIEW, g_uiQueue q),
      (UI_MSG_USB_HARDWARE_VIEW, g_uiQueue q), (UI_MSG_CLOSE_NFT_LOCK, g_uiQueue q), (UI_MSG_OPEN_VIEW, g_uiQueue q),
      (UI_MSG_CLOSE_VIEW, g_uiQueue q), (BACKGROUND_MSG_MINUTE, g_backgroundQueue q), (BACKGROUND_MSG_CHANGER_INSERT, g_backgroundQueue q),
      (BACKGROUND_MSG_RESET, g_backgroundQueue q), (BACKGROUND_MSG_BATTERY_INTERVAL, g_backgroundQueue q), (BACKGROUND_MSG_TAMPER, g_backgroundQueue q),
      (BACKGROUND_MSG_SD_CARD_CHANGE, g_backgroundQueue q), (LOG_MSG_WRITE, g_logQueue q), (LOG_MSG_ERASE, g_logQueue q),
      (LOG_MSG_EXPORT, g_logQueue q), (LOG_MSG_WRITE_TO_SDCARD, g_logQueue q), (USB_MSG_ISR_HANDLER, g_usbQueue q),
      (USB_MSG_SET_STATE, g_usbQueue q), (USB_MSG_INIT, g_usbQueue q), (USB_MSG_DEINIT, g_usbQueue q),
      (LOW_POWER_ENTER, g_lowPowerQueue q), (LOW_POWER_QUIT, g_lowPowerQueue q), (SPRING_MSG_GET, g_springQueue q),
      (SENSITIVE_MSG_EXECUTE, g_sensitiveQueue q), (SENSITIVE_MSG_EXECUTE_RUNNABLE, g_sensitiveQueue q)]"

definition create_queues :: "'h queue_system \<Rightarrow> 'h \<Rightarrow> user_queues \<times> 'h" where
  "create_queues os h =
     (let (q0, h) = mq_new os 10 h;
          (q1, h) = mq_new os 10 h;
          (q2, h) = mq_new os 5 h;
          (q3, h) = mq_new os 5 h;
          (q4, h) = mq_new os 5 h;
          (q5, h) = mq_new os 16 h;
          (q6, h) = mq_new os 32 h;
          (q7, h) = mq_new os 5 h;
          (q8, h) = mq_new os 32 h;
          (q9, h) = mq_new os 5 h
      in (\<lparr>g_cmdQueue = q0, g_testQueue = q1, g_qrDecodeQueue = q2,
           g_uiQueue = q3, g_backgroundQueue = q4, g_logQueue = q5,
           g_usbQueue = q6, g_lowPowerQueue = q7, g_springQueue = q8,
           g_sensitiveQueue = q9\<rparr>, h))"

definition subscribe_all :: "(u32 \<times> nat) list \<Rightarrow> registry \<Rightarrow> registry" where
  "subscribe_all subs reg = foldl (\<lambda>reg (messageID, queue). snd (SubMessageID messageID queue reg)) reg subs"

definition UserMsgInit :: "'h queue_system \<Rightarrow> registry \<Rightarrow> 'h \<Rightarrow> user_queues \<times> registry \<times> 'h" where
  "UserMsgInit os reg h = (let (q, h) = create_queues os h in (q, subscribe_all (user_subscriptions q) reg, h))"

end
