(* ===== verification/MessageProps.thy ===== *)
theory MessageProps
  imports Messages
begin

text \<open>
  What the registry of the messages promises: it stays well formed and lists the queues of a message in the order of their
  first subscription; a published message goes to each of them once, up to the first full one; and every message
  of the firmware has exactly one queue, so it is either delivered or refused with nothing changed.
\<close>

section \<open>The registry\<close>

definition registry_ok :: "registry \<Rightarrow> bool" where
  "registry_ok reg \<longleftrightarrow> reg = messageListHead \<or>
     reg \<noteq> [] \<and> distinct (map fst reg) \<and>
     list_all (\<lambda>(i, qs). i \<noteq> 0 \<and> qs \<noteq> [] \<and> distinct qs \<and> 0 \<notin> set qs) reg"

text \<open>The queues that subscribed to a message, in the order of their first subscription.\<close>

definition wanted :: "(u32 \<times> nat) list \<Rightarrow> u32 \<Rightarrow> nat list" where
  "wanted subs messageID =
     foldl (\<lambda>qs (i, q). if i = messageID \<and> i \<noteq> 0 \<and> q \<noteq> 0 \<and> q \<notin> set qs then qs @ [q] else qs) [] subs"

lemma row_add_eq: "row_add q qs = (if q \<in> set qs then (MSG_QUEUE_ALREADY_REG_IN_MID, qs) else (MSG_SUCCESS, qs @ [q]))"
  by (induction qs) auto

lemma rows_add_row:
  "find_row j (snd (rows_add i q rows)) = (if j = i \<and> q \<notin> set (find_row i rows) then find_row i rows @ [q] else find_row j rows)"
  by (induction i q rows rule: rows_add.induct) (auto simp: row_add_eq split: prod.splits)

lemma id_of_row: "(a, b) \<in> set rows \<Longrightarrow> a \<in> fst ` set rows"
  by (rule rev_image_eqI) auto

lemma rows_add_ids: "map fst (snd (rows_add i q rows)) = (if i \<in> set (map fst rows) then map fst rows else map fst rows @ [i])"
  by (induction i q rows rule: rows_add.induct) (auto simp: row_add_eq dest: id_of_row split: prod.splits)

abbreviation row_ok :: "u32 \<times> nat list \<Rightarrow> bool" where
  "row_ok r \<equiv> fst r \<noteq> 0 \<and> snd r \<noteq> [] \<and> distinct (snd r) \<and> 0 \<notin> set (snd r)"

lemma rows_add_queues: "q \<noteq> 0 \<Longrightarrow> i \<noteq> 0 \<Longrightarrow> list_all row_ok rows \<Longrightarrow> list_all row_ok (snd (rows_add i q rows))"
  by (induction i q rows rule: rows_add.induct) (auto simp: row_add_eq split: prod.splits if_splits)

lemma rows_add_code: "fst (rows_add i q rows) = (if q \<in> set (find_row i rows) then MSG_QUEUE_ALREADY_REG_IN_MID else MSG_SUCCESS)"
  by (induction i q rows rule: rows_add.induct) (auto simp: row_add_eq split: prod.splits)

lemma registry_cases:
  "registry_ok reg \<longleftrightarrow> reg = messageListHead \<or> reg \<noteq> [] \<and> distinct (map fst reg) \<and> list_all row_ok reg"
  by (simp add: registry_ok_def case_prod_unfold)

lemma rows_add_not_Nil: "snd (rows_add i q rows) \<noteq> []"
  by (cases rows) (auto split: prod.splits if_splits)

lemma sub_unfold:
  assumes "registry_ok reg" and "q \<noteq> 0" and "i \<noteq> 0"
  shows "SubMessageID i q reg = (if reg = messageListHead then (MSG_SUCCESS, [(i, [q])]) else rows_add i q reg)"
  using assms by (cases reg) (auto simp: registry_cases SubMessageID_def messageListHead_def)

lemma find_row_head: "find_row j messageListHead = []"
  by (simp add: messageListHead_def)

lemma sub_ok: "registry_ok reg \<Longrightarrow> registry_ok (snd (SubMessageID i q reg))"
  using sub_unfold [of reg q i] rows_add_queues [of q i reg]
  by (cases "q = 0 \<or> i = 0") (auto simp: SubMessageID_def registry_cases rows_add_ids rows_add_not_Nil)

lemma sub_row:
  "registry_ok reg \<Longrightarrow> find_row j (snd (SubMessageID i q reg)) =
     (if j = i \<and> i \<noteq> 0 \<and> q \<noteq> 0 \<and> q \<notin> set (find_row j reg) then find_row j reg @ [q] else find_row j reg)"
  using sub_unfold [of reg q i]
  by (cases "q = 0 \<or> i = 0") (auto simp: SubMessageID_def rows_add_row find_row_head)

lemma sub_code:
  "registry_ok reg \<Longrightarrow> fst (SubMessageID i q reg) =
     (if q = 0 then MSG_NULL_QUEUE else if i = 0 then MSG_MESSAGE_ID_ERROR
      else if q \<in> set (find_row i reg) then MSG_QUEUE_ALREADY_REG_IN_MID else MSG_SUCCESS)"
  using sub_unfold [of reg q i]
  by (cases "q = 0 \<or> i = 0") (auto simp: SubMessageID_def rows_add_code find_row_head)

lemma subscribe_rows:
  "registry_ok (subscribe_all subs messageListHead) \<and> find_row j (subscribe_all subs messageListHead) = wanted subs j"
proof (induction subs rule: rev_induct)
  case (snoc s subs)
  obtain i q where s: "s = (i, q)" by (cases s)
  have step: "subscribe_all (subs @ [s]) messageListHead = snd (SubMessageID i q (subscribe_all subs messageListHead))"
    by (simp add: s subscribe_all_def)
  have want: "wanted (subs @ [s]) j =
      (if i = j \<and> i \<noteq> 0 \<and> q \<noteq> 0 \<and> q \<notin> set (wanted subs j) then wanted subs j @ [q] else wanted subs j)"
    by (simp add: s wanted_def)
  show ?case using snoc by (auto simp: step want sub_ok sub_row)
qed (simp add: subscribe_all_def wanted_def registry_ok_def messageListHead_def)

lemma queue_at_nth: "queue_at qs i = (if i < length qs then qs ! i else 0)"
  by (induction qs i rule: queue_at.induct) auto

lemma nth_not_NULL: "0 \<notin> set (qs :: nat list) \<Longrightarrow> i < length qs \<Longrightarrow> qs ! i \<noteq> 0"
  by (metis nth_mem)

lemma wanted_ok: "distinct (wanted subs j) \<and> 0 \<notin> set (wanted subs j)"
  by (induction subs rule: rev_induct) (auto simp: wanted_def)

section \<open>Publishing\<close>

text \<open>
  What a queue of the operating system promises, on a view of what it holds: it says whether there is room, an
  item goes to the end of a queue with room, and only there.
\<close>

definition queues_ok :: "'h queue_system \<Rightarrow> (nat \<Rightarrow> 'h \<Rightarrow> message list) \<Rightarrow> (nat \<Rightarrow> nat) \<Rightarrow> bool" where
  "queues_ok os held room \<longleftrightarrow>
     (\<forall>q h. mq_space os q h = room q - length (held q h)) \<and>
     (\<forall>q m h. length (held q h) < room q \<longrightarrow>
        fst (mq_put os q m h) = 0 \<and>
        (\<forall>p. held p (snd (mq_put os q m h)) = (if p = q then held q h @ [m] else held p h)))"

text \<open>The queues that take a message when it is offered to them in order: those before the first full one.\<close>

definition takers :: "(nat \<Rightarrow> bool) \<Rightarrow> nat list \<Rightarrow> nat list" where
  "takers full qs = takeWhile (\<lambda>q. \<not> full q) qs"

lemma published_from:
  assumes os: "queues_ok os held room" and reg: "msg_id m \<noteq> 0" "find_row (msg_id m) reg = qs" "distinct qs" "0 \<notin> set qs"
  shows "i \<le> length qs \<Longrightarrow>
    fst (publish_value os reg m i h) =
      (if qs = [] then MSG_MESSAGE_ID_ERROR
       else if \<exists>q\<in>set (drop i qs). room q \<le> length (held q h) then MSG_SEND_ERROR else MSG_SUCCESS) \<and>
    held p (snd (publish_value os reg m i h)) =
      held p h @ (if p \<in> set (takers (\<lambda>q. room q \<le> length (held q h)) (drop i qs)) then [m] else [])"
proof (induction "length qs - i" arbitrary: i h)
  case 0
  then show ?case by (cases i) (auto simp: publish_value.simps [of os reg m] GetQueueFromMid_def reg queue_at_nth takers_def)
next
  case (Suc n)
  then have i: "i < length qs" by simp
  then have q: "GetQueueFromMid reg (msg_id m) i = qs ! i" "qs ! i \<noteq> 0" and ne: "qs \<noteq> []"
    using reg i nth_not_NULL [OF reg(4) i] by (auto simp: GetQueueFromMid_def queue_at_nth)
  have drop: "drop i qs = qs ! i # drop (Suc i) qs" using i by (rule Cons_nth_drop_Suc [symmetric])
  then have later: "qs ! i \<notin> set (drop (Suc i) qs)" using reg(3) by (metis distinct.simps(2) distinct_drop)
  show ?case
  proof (cases "room (qs ! i) \<le> length (held (qs ! i) h)")
    case True
    then have "mq_space os (qs ! i) h = 0" using os by (simp add: queues_ok_def)
    then show ?thesis using True ne by (simp add: publish_value.simps [of os reg m i] q drop takers_def)
  next
    case False
    define g where "g = snd (mq_put os (qs ! i) m h)"
    have held: "held p g = (if p = qs ! i then held p h @ [m] else held p h)" for p
      using os False by (simp add: queues_ok_def g_def)
    have same: "\<forall>q\<in>set (drop (Suc i) qs). (room q \<le> length (held q g)) = (room q \<le> length (held q h))"
      using later by (auto simp: held)
    have "mq_space os (qs ! i) h \<noteq> 0" using os False by (simp add: queues_ok_def)
    then have step: "publish_value os reg m i h = publish_value os reg m (Suc i) g"
      using q by (simp add: publish_value.simps [of os reg m i] g_def)
    have takers: "takers (\<lambda>q. room q \<le> length (held q g)) (drop (Suc i) qs) =
        takers (\<lambda>q. room q \<le> length (held q h)) (drop (Suc i) qs)"
      unfolding takers_def by (rule takeWhile_cong) (use same in auto)
    let ?full = "\<lambda>q. room q \<le> length (held q h)"
    have n: "n = length qs - Suc i" "Suc i \<le> length qs" using Suc.hyps(2) i by simp_all
    have code: "fst (publish_value os reg m (Suc i) g) =
        (if \<exists>q\<in>set (drop (Suc i) qs). room q \<le> length (held q h) then MSG_SEND_ERROR else MSG_SUCCESS)"
      using Suc.hyps(1) [OF n, of g] same ne by (simp cong: bex_cong)
    have "held p (snd (publish_value os reg m (Suc i) g)) =
        held p g @ (if p \<in> set (takers ?full (drop (Suc i) qs)) then [m] else [])"
      using Suc.hyps(1) [OF n, of g] by (simp add: takers)
    moreover have "qs ! i \<notin> set (takers ?full (drop (Suc i) qs))"
      using later by (auto simp: takers_def dest: set_takeWhileD)
    moreover have "takers ?full (drop i qs) = qs ! i # takers ?full (drop (Suc i) qs)"
      using False by (simp add: drop takers_def)
    ultimately show ?thesis using False ne by (simp add: step code drop held)
  qed
qed

text \<open>With enough memory a buffer is published as a value is, into queues that first make the copy.\<close>

definition copying :: "'h queue_system \<Rightarrow> 'h queue_system" where
  "copying os = os\<lparr>mq_put := \<lambda>q m h. mq_put os q m (snd (mq_malloc os (unat (msg_length m)) h))\<rparr>"

definition memory_ok :: "'h queue_system \<Rightarrow> (nat \<Rightarrow> 'h \<Rightarrow> message list) \<Rightarrow> bool" where
  "memory_ok os held \<longleftrightarrow> (\<forall>n h. fst (mq_malloc os n h)) \<and> (\<forall>n h q. held q (snd (mq_malloc os n h)) = held q h)"

lemma copying_ok: "queues_ok os held room \<Longrightarrow> memory_ok os held \<Longrightarrow> queues_ok (copying os) held room"
  by (simp add: queues_ok_def memory_ok_def copying_def)

lemma publish_buffer_copying:
  assumes "queues_ok os held room" and "memory_ok os held"
  shows "publish_buffer os reg m i h = publish_value (copying os) reg m i h"
proof (induction "length (find_row (msg_id m) reg) - i" arbitrary: i h rule: less_induct)
  case less
  let ?q = "GetQueueFromMid reg (msg_id m) i"
  show ?case
  proof (cases "?q = 0 \<or> mq_space os ?q h = 0")
    case True
    then show ?thesis
      by (auto simp: publish_buffer.simps [of os reg m i] publish_value.simps [of _ reg m i] copying_def Let_def)
  next
    case False
    let ?g = "snd (mq_malloc os (unat (msg_length m)) h)"
    have "length (held ?q ?g) < room ?q" using assms False by (simp add: queues_ok_def memory_ok_def)
    then have "fst (mq_put os ?q m ?g) = 0" "fst (mq_malloc os (unat (msg_length m)) h)"
      using assms by (simp_all add: queues_ok_def memory_ok_def)
    moreover have "publish_buffer os reg m (Suc i) f = publish_value (copying os) reg m (Suc i) f" for f
      using False by (intro less) (simp add: queues_left)
    ultimately show ?thesis using False
      by (simp add: publish_buffer.simps [of os reg m i] publish_value.simps [of _ reg m i] copying_def case_prod_beta Let_def)
  qed
qed

lemma count_from: 
  "messageID \<noteq> 0 \<Longrightarrow> find_row messageID reg = qs \<Longrightarrow> 0 \<notin> set qs \<Longrightarrow> i \<le> length qs \<Longrightarrow>
   count_waiting os reg messageID i n h = n + of_nat (sum_list (map (\<lambda>q. mq_count os q h) (drop i qs)))"
proof (induction "length qs - i" arbitrary: i n)
  case 0
  then show ?case by (simp add: count_waiting.simps [of os reg messageID] GetQueueFromMid_def queue_at_nth)
next
  case (Suc k)
  then have i: "i < length qs" by simp
  then have q: "GetQueueFromMid reg messageID i = qs ! i" "qs ! i \<noteq> 0"
    using Suc.prems i nth_not_NULL [OF Suc.prems(3) i] by (simp_all add: GetQueueFromMid_def queue_at_nth)
  have "drop i qs = qs ! i # drop (Suc i) qs" using i by (rule Cons_nth_drop_Suc [symmetric])
  then show ?case using Suc q i by (simp add: count_waiting.simps [of os reg messageID i] add.assoc)
qed

lemma wanted_nothing: "messageID \<notin> fst ` set subs \<Longrightarrow> wanted subs messageID = []"
  by (induction subs rule: rev_induct) (auto simp: wanted_def)

lemma wanted_zero: "wanted subs 0 = []"
  by (induction subs rule: rev_induct) (auto simp: wanted_def)

lemma wanted_one:
  "distinct (map fst subs) \<Longrightarrow> (i, x) \<in> set subs \<Longrightarrow> i \<noteq> 0 \<Longrightarrow> x \<noteq> 0 \<Longrightarrow> wanted subs i = [x]"
proof (induction subs rule: rev_induct)
  case (snoc s subs)
  obtain j y where s: "s = (j, y)" by (cases s)
  have step: "wanted (subs @ [s]) i =
      (if j = i \<and> j \<noteq> 0 \<and> y \<noteq> 0 \<and> y \<notin> set (wanted subs i) then wanted subs i @ [y] else wanted subs i)"
    by (simp add: s wanted_def)
  show ?case
  proof (cases "j = i")
    case True
    then have "i \<notin> fst ` set subs" using snoc.prems(1) by (simp add: s)
    moreover from this have "x = y" using snoc.prems(2) True by (auto simp: s dest: id_of_row)
    ultimately show ?thesis using True snoc.prems by (simp add: step wanted_nothing)
  next
    case False
    then have "(i, x) \<in> set subs" and "distinct (map fst subs)" using snoc.prems(1,2) by (simp_all add: s)
    then show ?thesis using snoc.IH snoc.prems(3,4) False by (simp add: step)
  qed
qed simp

lemmas message_ids =
  MSG_TEST_CMD_FRAME_def TEST_MSG_MEASUREMENT_def TEST_MSG_ASYNPRINT_def TEST_MSG_LEDGER_DATA_RCV_def
  QRDECODE_MSG_START_def QRDECODE_MSG_STOP_def QRDECODE_MSG_MINUTE_def UI_MSG_SWITCH_HANDLER_def
  UI_MSG_EMIT_SIGNAL_TO_WORKING_VIEW_def UI_MSG_CLOSE_CURRENT_VIEW_def UI_MSG_ACTIVATE_LOOP_def UI_MSG_SCREEN_SHOT_def
  UI_MSG_PREPARE_RECEIVE_UR_USB_def UI_MSG_OPEN_VIEW_def UI_MSG_CLOSE_VIEW_def UI_MSG_USB_TRANSPORT_VIEW_def
  UI_MSG_USB_HARDWARE_VIEW_def UI_MSG_USB_TRANSPORT_NEXT_VIEW_def UI_MSG_CLOSE_NFT_LOCK_def BACKGROUND_MSG_MINUTE_def
  BACKGROUND_MSG_CHANGER_INSERT_def BACKGROUND_MSG_RESET_def BACKGROUND_MSG_BATTERY_INTERVAL_def BACKGROUND_MSG_TAMPER_def
  BACKGROUND_MSG_SD_CARD_CHANGE_def LOG_MSG_WRITE_def LOG_MSG_ERASE_def LOG_MSG_EXPORT_def LOG_MSG_WRITE_TO_SDCARD_def
  USB_MSG_ISR_HANDLER_def USB_MSG_SET_STATE_def USB_MSG_INIT_def USB_MSG_DEINIT_def LOW_POWER_ENTER_def LOW_POWER_QUIT_def
  SPRING_MSG_GET_def SENSITIVE_MSG_EXECUTE_def SENSITIVE_MSG_EXECUTE_RUNNABLE_def

lemma ids_distinct: "distinct (map fst (user_subscriptions q)) \<and> 0 \<notin> fst ` set (user_subscriptions q)"
  by (simp add: user_subscriptions_def message_ids)

section \<open>Queues for the concrete runs\<close>

text \<open>The handles are counted up; a queue has room for one message.\<close>

type_synonym one_place_queues = "nat \<times> (nat \<Rightarrow> message list)"

definition one_place :: "one_place_queues queue_system" where
  "one_place = \<lparr>mq_new = \<lambda>n (k, f). (k + 1, (k + 1, f)), mq_space = \<lambda>q (k, f). 1 - length (f q),
     mq_count = \<lambda>q (k, f). length (f q),
     mq_put = \<lambda>q m (k, f). if f q = [] then (0, (k, f(q := [m]))) else (-3, (k, f)),
     mq_malloc = \<lambda>n h. (True, h), mq_free = \<lambda>h. h\<rparr>"

definition one_place_held :: "nat \<Rightarrow> one_place_queues \<Rightarrow> message list" where
  "one_place_held q h = snd h q"

lemma one_place_ok: "queues_ok one_place one_place_held (\<lambda>q. 1)" "memory_ok one_place one_place_held"
  by (simp_all add: queues_ok_def memory_ok_def one_place_def one_place_held_def)

section \<open>Properties\<close>

text \<open>
  The registry after any subscriptions is well formed: one row for each message, and no message, no \<^verbatim>\<open>NULL\<close> queue
  and no queue twice in a row. A message's queues are numbered in the order in which they first subscribed, and \<^verbatim>\<open>NULL\<close>
  follows the last one. A further subscription tells what it did, and the count of waiting messages adds those queues.
\<close>

lemma registry_lists_subscribers:
  fixes subs :: "(u32 \<times> nat) list" and os :: "'h queue_system"
  shows "let reg = subscribe_all subs messageListHead in
    registry_ok reg \<and>
    distinct (wanted subs i) \<and> 0 \<notin> set (wanted subs i) \<and>
    GetQueueFromMid reg i n = (if n < length (wanted subs i) then wanted subs i ! n else 0) \<and>
    fst (SubMessageID i q reg) =
      (if q = 0 then MSG_NULL_QUEUE else if i = 0 then MSG_MESSAGE_ID_ERROR
       else if q \<in> set (wanted subs i) then MSG_QUEUE_ALREADY_REG_IN_MID else MSG_SUCCESS) \<and>
    GetWaitingMsgCount os reg i h = of_nat (sum_list (map (\<lambda>q. mq_count os q h) (wanted subs i)))"
proof -
  let ?reg = "subscribe_all subs messageListHead"
  have reg: "registry_ok ?reg" "find_row j ?reg = wanted subs j" for j using subscribe_rows by (auto)
  have "GetWaitingMsgCount os ?reg i h = of_nat (sum_list (map (\<lambda>q. mq_count os q h) (wanted subs i)))"
  proof (cases "i = 0")
    case True
    then show ?thesis
      by (simp add: GetWaitingMsgCount_def count_waiting.simps [of os ?reg 0] GetQueueFromMid_def wanted_zero)
  next
    case False
    then show ?thesis
      using count_from [of i ?reg "wanted subs i" 0 os 0 h] reg wanted_ok by (simp add: GetWaitingMsgCount_def)
  qed
  moreover have "GetQueueFromMid ?reg i n = (if n < length (wanted subs i) then wanted subs i ! n else 0)"
    by (cases "i = 0") (simp_all add: GetQueueFromMid_def reg(2) queue_at_nth wanted_zero)
  ultimately show ?thesis using reg wanted_ok [of subs i] by (simp add: sub_code Let_def)
qed

text \<open>
  C40: On queues that keep their contract a published value goes once to the end of each queue that subscribed, in their order up to
  the first full one, and to no other queue. The answer is success exactly when no queue was full, an error of sending
  after the first full one, which does not take back what the earlier queues received, and an error of the
  message when nobody subscribed. A buffer goes the same way, with its length and its contents, while there is memory.
\<close>

theorem published_in_order:
  assumes "queues_ok os held room" and "memory_ok os held" and "i \<noteq> 0"
  shows "let reg = subscribe_all subs messageListHead;
             full = (\<lambda>q. room q \<le> length (held q h));
             code = (if wanted subs i = [] then MSG_MESSAGE_ID_ERROR
                     else if list_ex full (wanted subs i) then MSG_SEND_ERROR else MSG_SUCCESS);
             val = \<lparr>msg_id = i, msg_value = v, msg_buffer = None, msg_length = 0\<rparr>;
             buf = \<lparr>msg_id = i, msg_value = 0, msg_buffer = Some bs, msg_length = of_nat (length bs)\<rparr>
         in fst (PubValueMsg os reg i v h) = code \<and> fst (PubBufferMsg os reg i bs h) = code \<and>
            held p (snd (PubValueMsg os reg i v h)) = held p h @ (if p \<in> set (takers full (wanted subs i)) then [val] else []) \<and>
            held p (snd (PubBufferMsg os reg i bs h)) = held p h @ (if p \<in> set (takers full (wanted subs i)) then [buf] else [])"
proof -
  define val where "val = \<lparr>msg_id = i, msg_value = v, msg_buffer = None, msg_length = 0\<rparr>"
  define buf where "buf = \<lparr>msg_id = i, msg_value = 0, msg_buffer = Some bs, msg_length = of_nat (length bs)\<rparr>"
  define reg where "reg = subscribe_all subs messageListHead"
  have ids: "msg_id val = i" "msg_id buf = i" by (simp_all add: val_def buf_def)
  have pub: "PubValueMsg os reg i v h = publish_value os reg val 0 h"
    "PubBufferMsg os reg i bs h = publish_value (copying os) reg buf 0 h"
    using publish_buffer_copying [OF assms(1,2), of reg buf 0 h] by (simp_all add: PubValueMsg_def PubBufferMsg_def val_def buf_def)
  have row: "find_row i reg = wanted subs i" "distinct (wanted subs i)" "0 \<notin> set (wanted subs i)"
    using subscribe_rows wanted_ok by (simp_all add: reg_def)
  have ok: "queues_ok (copying os) held room" using assms(1,2) by (rule copying_ok)
  show ?thesis
    unfolding Let_def val_def [symmetric] buf_def [symmetric] reg_def [symmetric]
    using published_from [OF assms(1), of val reg "wanted subs i" 0 h p] published_from [OF ok, of buf reg "wanted subs i" 0 h p]
      row assms(3) ids by (simp add: pub list_ex_iff)
qed

text \<open>The second of two subscribers is full: the first has the message and the publisher is told of an error.\<close>

theorem published_in_order_witness:
  "fst (PubValueMsg one_place (subscribe_all [(1, 7), (1, 8)] messageListHead) 1 5
     (0, (\<lambda>q. [])(8 := [\<lparr>msg_id = 1, msg_value = 4, msg_buffer = None, msg_length = 0\<rparr>]))) = MSG_SEND_ERROR \<and>
   one_place_held 7 (snd (PubValueMsg one_place (subscribe_all [(1, 7), (1, 8)] messageListHead) 1 5
     (0, (\<lambda>q. [])(8 := [\<lparr>msg_id = 1, msg_value = 4, msg_buffer = None, msg_length = 0\<rparr>])))) =
     [\<lparr>msg_id = 1, msg_value = 5, msg_buffer = None, msg_length = 0\<rparr>]"
proof -
  have "wanted [(1, 7), (1, 8)] 1 = [7, 8]" by (simp add: wanted_def)
  then show ?thesis
    using published_in_order [OF one_place_ok, of 1 "[(1, 7), (1, 8)]"
      "(0, (\<lambda>q. [])(8 := [\<lparr>msg_id = 1, msg_value = 4, msg_buffer = None, msg_length = 0\<rparr>]))" 5 "[]" 7]
    by (simp add: Let_def one_place_held_def takers_def)
qed

text \<open>
  After the start, with queues that could be created, every message of the firmware has exactly one queue: its value is
  handed to that queue, or, when that is full, refused with nothing changed. Any other number is refused.
\<close>

lemma firmware_message_has_one_queue:
  assumes "fst (UserMsgInit os messageListHead h0) = q" and "\<forall>(i, x)\<in>set (user_subscriptions q). x \<noteq> 0"
  shows "PubValueMsg os (fst (snd (UserMsgInit os messageListHead h0))) i v h =
    (case map_of (user_subscriptions q) i of
       None \<Rightarrow> (MSG_MESSAGE_ID_ERROR, h)
     | Some x \<Rightarrow> if mq_space os x h = 0 then (MSG_SEND_ERROR, h) else (MSG_SUCCESS, snd (mq_put os x \<lparr>msg_id = i, msg_value = v, msg_buffer = None, msg_length = 0\<rparr> h)))"
proof -
  let ?reg = "fst (snd (UserMsgInit os messageListHead h0))"
  have reg: "?reg = subscribe_all (user_subscriptions q) messageListHead"
    using assms(1) by (auto simp: UserMsgInit_def split: prod.splits)
  have row: "find_row i ?reg = wanted (user_subscriptions q) i" using subscribe_rows by (simp add: reg)
  show ?thesis
  proof (cases "map_of (user_subscriptions q) i")
    case None
    then have "find_row i ?reg = []" by (simp add: row wanted_nothing map_of_eq_None_iff)
    then show ?thesis using None
      by (simp add: PubValueMsg_def publish_value.simps [of os ?reg _ 0] GetQueueFromMid_def)
  next
    case (Some x)
    then have "(i, x) \<in> set (user_subscriptions q)" by (rule map_of_SomeD)
    moreover from this have "i \<noteq> 0" "x \<noteq> 0" using assms(2) ids_distinct [of q] by (auto dest: id_of_row)
    ultimately have "find_row i ?reg = [x]" using ids_distinct [of q] by (simp add: row wanted_one)
    then show ?thesis using Some \<open>i \<noteq> 0\<close> \<open>x \<noteq> 0\<close>
      by (simp add: PubValueMsg_def publish_value.simps [of os ?reg _ 0] publish_value.simps [of os ?reg _ "Suc 0"] GetQueueFromMid_def)
  qed
qed

end
