(* ===== verification/Spec2Isabelle.thy ===== *)
theory Spec2Isabelle
  imports Crc ProtocolCodec UserUtils InternalProtocol EapduProtocol Rs1024 ShareWords Gf256 Shamir
    Slip39 Bip39 AccountSuccess FileProps Ds28s60Props UserMemory
    BatteryProps CodeHashes MessageProps
begin

text \<open>
  A verification development for the firmware of the Keystone 3 hardware wallet. Paths are relative to
  the directory \<^verbatim>\<open>src\<close> of the repository.

  \<^bold>\<open>The program.\<close> The firmware keeps the secrets of up to three wallets in two secure elements, makes
  and restores their backups as BIP-39 and SLIP-39 phrases, and talks to a host over USB. Modelled here
  are the parts that carry this logic, each in its own theories:

  \<^item> \<open>Prelude\<close>: byte lists, little-endian numbers, words, the outcome of an \<^verbatim>\<open>assert\<close> as an option.
    \<open>Safec\<close>: the effect of the calls of the safe C library (\<^verbatim>\<open>external/safec\<close>).
    \<open>UserUtils\<close>: the helpers of \<^verbatim>\<open>src/utils/user_utils.c\<close>.
  \<^item> \<open>Crc\<close>: \<^verbatim>\<open>src/crypto/checksum/crc.c\<close> and \<^verbatim>\<open>fingerprint_crc.c\<close>, with the bit-wise definitions that
    the tables implement, in a locale of table driven checksums that both builds interpret.
  \<^item> \<open>ProtocolCodec\<close>, \<open>InternalProtocol\<close>, \<open>EapduProtocol\<close>: \<^verbatim>\<open>src/webusb_protocol\<close>. The codec builds and
    reads frames of type-length-value items; the internal protocol receives a frame byte by byte, checks
    it and calls a service; the EAPDU protocol collects a request from numbered packets. The state of a
    receiver is a record of the static variables of its file, the services are parameters.
  \<^item> \<open>Rs1024\<close>, \<open>ShareWords\<close>, \<open>Lagrange\<close>, \<open>Gf256\<close>, \<open>Shamir\<close>, \<open>Slip39Share\<close>, \<open>WordLists\<close>,
    \<open>Slip39WordTable\<close>, \<open>Slip39Words\<close>, \<open>Slip39\<close>: \<^verbatim>\<open>src/crypto/slip39\<close>. The checksum over words of ten
    bits, the packing of bytes in words, Shamir's sharing over GF(256) (\<open>Lagrange\<close> is the theory of
    interpolation in any field), the Feistel encryption of the master secret, the word list, and the two
    directions of a backup.
  \<^item> \<open>Bip39WordTable\<close>, \<open>Mnemonic\<close>, \<open>Bip39\<close>: \<^verbatim>\<open>src/crypto/bips\<close>.
  \<^item> \<open>Sha2\<close>, \<open>Sha2Standard\<close>, \<open>Sha2Props\<close>, \<open>Hmac\<close>, \<open>CodeHashes\<close>: \<^verbatim>\<open>external/ccan\<close> and \<^verbatim>\<open>src/crypto/utils\<close>. SHA-256 and
    SHA-512 with their buffering against FIPS 180-4 (\<open>Sha2Standard\<close>), HMAC and PBKDF2 against RFC 2104 and RFC 8018, and where they
    stand for the parameters of the other components.
  \<^item> \<open>SecretCache\<close>: \<^verbatim>\<open>src/crypto/secret_cache.c\<close>, the secrets between two screens.
  \<^item> \<open>Device\<close>, \<open>Platform\<close>, \<open>SeManager\<close>, \<open>AccountInfo\<close>, \<open>Keystore\<close>, \<open>KeystoreProps\<close>, \<open>PublicKeys\<close>,
    \<open>AccountManager\<close>, \<open>AccountProps\<close>, \<open>AccountSuccess\<close>: the key store, \<^verbatim>\<open>src/managers/keystore.c\<close>,
    \<^verbatim>\<open>account_manager.c\<close>, \<^verbatim>\<open>se_manager.c\<close>, with \<^verbatim>\<open>src/crypto/utils/hash_and_salt.c\<close> and \<^verbatim>\<open>hkdf.c\<close>. \<open>PublicKeys\<close> is the
    part of \<^verbatim>\<open>src/crypto/account_public_info.c\<close> that the key store calls: the table of the chains, deriving the keys, and their
    JSON text in the flash; with it the reading of the primes in \<^verbatim>\<open>src/crypto/rsa.c\<close>.
  \<^item> \<open>Md5\<close>, \<open>FileTrans\<close>, \<open>FileProps\<close>: \<^verbatim>\<open>src/crypto/checksum/md5.c\<close>, the file service
    \<^verbatim>\<open>src/webusb_protocol/services/service_file_trans.c\<close> with the keys of \<^verbatim>\<open>src/tasks/data_parser_task.c\<close> and the file calls of \<^verbatim>\<open>src/user_fatfs.c\<close>, and what
    it promises to a host and to the maker. Its handlers are the file entries of the table of \<open>InternalProtocol\<close>.
  \<^item> \<open>Ds28s60\<close>, \<open>Ds28s60Props\<close>: \<^verbatim>\<open>src/driver/drv_ds28s60.c\<close>, the driver of the first secure element over a
    serial bus. With a chip that answers by its protocol it gives the pages that \<open>platform_ok\<close> asks for.
  \<^item> \<open>PsramHeap\<close>, \<open>PsramHeapProps\<close>, \<open>UserMemory\<close>: \<^verbatim>\<open>src/ram/psram_heap_4.c\<close> and the external-memory calls of
    \<^verbatim>\<open>src/ram/user_memory.c\<close>. The memory is a map from addresses to block headers; the invariant sees it as a
    sequence of blocks, used and free.
  \<^item> \<open>Gd25Flash\<close>, \<open>Gd25Props\<close>: \<^verbatim>\<open>src/driver/drv_gd25qxx.c\<close>, the driver of the flash memory. On a chip that
    keeps to its data sheet it reads and programs one array of bytes, whatever pages a request crosses.
  \<^item> \<open>Battery\<close>, \<open>BatteryProps\<close>: \<^verbatim>\<open>src/driver/drv_battery.c\<close>, the battery gauge, which keeps what it shows
    in a sector of the flash, through the flash driver.
  \<^item> \<open>Messages\<close>, \<open>MessageProps\<close>: \<^verbatim>\<open>src/msg/general_msg.c\<close> and \<^verbatim>\<open>user_msg.c\<close>, the registry of the queues of the
    tasks and the publication of messages to them.

  \<^bold>\<open>How the code is rendered.\<close> Machine integers are words of their width; buffers are lists of bytes; a
  C string is the list before its NUL. A function that can fail an \<^verbatim>\<open>ASSERT\<close>, which halts the device, or
  write out of bounds returns \<open>None\<close> then; error codes are the left side of a sum. The functions of the
  key store are commands: they take the state to such a result and the state they leave, also when they
  fail, and are sequenced by \<open>seq\<close> as \<^verbatim>\<open>CHECK_ERRCODE_BREAK\<close> does. Clearing of local buffers before a
  return is not visible in this model and left out. The build is the Web3 one on the device, not the
  simulator.

  \<^bold>\<open>What is a parameter.\<close> AES, the chips, the flash under the key store, the one-time programmable memory, the Rust library with its
  derivations of keys and the printer and parser of cJSON are arguments or fields of the record \<open>platform\<close>; the calls of FatFs and
  the queues of the operating system are fields of \<open>file_platform\<close> and \<open>queue_system\<close>. So are the hashes
  for the components that call them; \<open>code_hashes_meet_contract\<close> puts those of the code in their place. Where a property relies
  on them, \<open>platform_ok\<close> states it: a page that was written reads back, other pages stay, decryption undoes encryption, lengths. It says
  nothing of collisions, so a property about wrong passwords names the digests it compares.
  \<open>example_platform\<close> satisfies all of it.

  \<^bold>\<open>What the lemmas show.\<close> Round trips: phrases, shares, packings, frames. Equivalence with reference
  definitions: both checksums, MD5, SHA-2, HMAC, PBKDF2, interpolation as Lagrange interpolation. Refinement: the byte-wise
  receiver implements an abstract framing machine; the key store implements a map from accounts and
  passwords to secrets (locale \<open>vault\<close>). Invariants by induction over the reachable states: the
  receivers, the secret cache, the counter of refused logins, the heap under any callers that write only
  inside their blocks, the battery gauge over intervals and any restarts, a file that is received together with its digest. Frame rules: the locale \<open>command_frame\<close>
  carries what a command may change through \<open>seq\<close>; it is interpreted for the chips, the account in RAM
  and the whole device, and gives that no sequence of operations on the other accounts disturbs an account. Liveness:
  \<open>succeeds\<close> in \<open>AccountSuccess\<close>, up to the public keys, when the chips, the flash and the Rust library do what they are asked. Errors of the code that the proofs met are stated as lemmas that say
  exactly when they show.

  \<^bold>\<open>Loops.\<close> Most loops are structural recursions. The waiting for the secure element, its random numbers
  and the search of its blocks end by a measure: the number of tries left, of bytes left, the width of the
  interval. The search of a valid TON mnemonic may not end and is a \<open>partial_function\<close>. So are the two walks
  over the free list of the heap, which end because of the invariant: \<open>psram_heap_never_halts\<close> proves it. The
  wait for the flash is one as well; with a chip that becomes ready after finitely many polls it returns. The
  word loops of SLIP-39 are bounded by the length of their input.

  \<^bold>\<open>Not modelled.\<close> The user interface, the tasks, the other drivers, the fingerprint sensor's protocol, the
  settings, what \<^verbatim>\<open>account_public_info.c\<close> keeps for the screens (home coins, receive indices, connected and multisig
  wallets), the Bitcoin-only and Cypherpunk builds, writing the RSA primes, all vendored code and
  the Rust library: input and output, or algorithms of third parties that the modelled code only calls.
\<close>

end
